(* ===== verification/Prelude.thy ===== *)
theory Prelude
  imports Complex_Main "HOL-Library.AList" "HOL-Library.Multiset"
begin

text \<open>
  Shared ground of the development: the exceptions the modelled TypeScript code throws, the
  insertion-ordered \<open>Map\<close> and \<open>Set\<close> of JavaScript as association lists and distinct lists,
  JavaScript's decimal rendering of an integer inside a template string with its inverse, and the
  generic list lemmas the components share.
\<close>

named_theorems model_defs \<open>unfolding rules of the small accessor definitions of the model\<close>

section \<open>Exceptions\<close>

text \<open>
  One constructor per \<open>throw\<close> of the modelled code, with the data its message mentions.
  \<open>TypeError\<close> is the exception the JavaScript runtime throws when the code dereferences
  \<open>undefined\<close> (the places where the source writes a non-null assertion \<open>!\<close>).
\<close>

datatype exn =
    TypeError
  | NegativeQuantity string
  | InsufficientResource string int int
  | AlreadyRegistered string
  | NotRegistered string
  | UnknownPlayer string
  | NoActivePlayers
  | NoPlayersInRoster
  | UnknownInitialPhase string
  | BadCurrentPhase string
  | IllegalPhaseTransition string string
  | IllegalStatusTransition string string
  | MaxLessThanMin int int
  | DiceCount int
  | DiceSides int
  | RuleCycleLimit
  | WrongPlayerCount string int int int
  | NotFound string
  | Forbidden string
  | Unavailable string
  | Conflict string
  | Unauthorized string
  | DatabaseError string

section \<open>Results that may throw and keep the state reached so far\<close>

text \<open>
  A method that mutates an object and may throw is a function from the state to a result and the
  state it leaves behind: an exception does not undo the mutations made before it.
\<close>

type_synonym ('s, 'a) effect = "'s \<Rightarrow> (exn + 'a) \<times> 's"

definition ok :: "exn + 'a \<Rightarrow> bool" where
  "ok x = (case x of Inl _ \<Rightarrow> False | Inr _ \<Rightarrow> True)"

lemma ok_simps [simp]: "ok (Inr a)" "\<not> ok (Inl e)"
  by (simp_all add: ok_def)

lemma ok_iff: "ok x \<longleftrightarrow> (\<exists>a. x = Inr a)"
  by (cases x) auto

section \<open>JavaScript maps\<close>

text \<open>
  A \<open>Map\<close> (and a plain object used as a dictionary) iterates in insertion order; setting an
  existing key keeps its position, deleting and setting again moves it to the end. That is
  exactly \<open>AList.update\<close> and \<open>AList.delete\<close> on an association list with distinct keys.
\<close>

type_synonym ('k, 'v) jsmap = "('k \<times> 'v) list"

abbreviation jget :: "('k, 'v) jsmap \<Rightarrow> 'k \<Rightarrow> 'v option" where
  "jget m k \<equiv> map_of m k"

abbreviation jput :: "'k \<Rightarrow> 'v \<Rightarrow> ('k, 'v) jsmap \<Rightarrow> ('k, 'v) jsmap" where
  "jput k v m \<equiv> AList.update k v m"

abbreviation jdel :: "'k \<Rightarrow> ('k, 'v) jsmap \<Rightarrow> ('k, 'v) jsmap" where
  "jdel k m \<equiv> AList.delete k m"

abbreviation jkeys :: "('k, 'v) jsmap \<Rightarrow> 'k list" where
  "jkeys m \<equiv> map fst m"

abbreviation jvals :: "('k, 'v) jsmap \<Rightarrow> 'v list" where
  "jvals m \<equiv> map snd m"

definition jhas :: "('k, 'v) jsmap \<Rightarrow> 'k \<Rightarrow> bool" where
  "jhas m k = (jget m k \<noteq> None)"

lemma jget_jput [simp]: "jget (jput k v m) k' = (if k' = k then Some v else jget m k')"
  by (simp add: update_conv')

lemma jget_jdel [simp]: "jget (jdel k m) k' = (if k' = k then None else jget m k')"
  by (simp add: delete_conv')

lemma jhas_iff: "jhas m k \<longleftrightarrow> k \<in> set (jkeys m)"
  by (simp add: jhas_def map_of_eq_None_iff)

lemma distinct_jput [simp]: "distinct (jkeys m) \<Longrightarrow> distinct (jkeys (jput k v m))"
  by (rule distinct_update)

lemma distinct_jdel [simp]: "distinct (jkeys m) \<Longrightarrow> distinct (jkeys (jdel k m))"
  by (rule distinct_delete)

lemma jkeys_jput: "set (jkeys (jput k v m)) = insert k (set (jkeys m))"
  by (simp add: update_keys) auto

lemma jkeys_jdel: "set (jkeys (jdel k m)) = set (jkeys m) - {k}"
  by (auto simp: AList.delete_eq)

lemma jget_in_set: "jget m k = Some v \<Longrightarrow> (k, v) \<in> set m"
  by (rule map_of_SomeD)

lemma jget_keys: "jget m k = Some v \<Longrightarrow> k \<in> set (jkeys m)"
  by (metis jhas_def jhas_iff option.distinct(1))

lemma set_jput: "(a, b) \<in> set (jput k v m) \<Longrightarrow> (a, b) = (k, v) \<or> (a, b) \<in> set m"
  by (induction m) (auto split: if_splits)

lemma set_jput_distinct:
  "distinct (jkeys m) \<Longrightarrow> set (jput k v m) = insert (k, v) {(a, b) \<in> set m. a \<noteq> k}"
  by (induction m) (force split: if_splits)+

lemma set_jdel: "set (jdel k m) = {(a, b) \<in> set m. a \<noteq> k}"
  by (auto simp: AList.delete_eq)

lemma jput_new: "k \<notin> set (jkeys m) \<Longrightarrow> jput k v m = m @ [(k, v)]"
  by (induction m) auto

lemma length_jput_new: "k \<notin> set (jkeys m) \<Longrightarrow> length (jput k v m) = Suc (length m)"
  by (simp add: jput_new)

lemma length_jput_le: "length (jput k v m) \<le> Suc (length m)"
  by (induction m) auto

lemma filter_map_of:
  "distinct (jkeys m) \<Longrightarrow>
   jget (filter (\<lambda>(k, v). P k v) m) k = (case jget m k of None \<Rightarrow> None | Some v \<Rightarrow> if P k v then Some v else None)"
  by (induction m) (auto split: option.splits simp: map_of_eq_None_iff image_iff)

section \<open>JavaScript sets\<close>

text \<open>A \<open>Set\<close> iterates in insertion order and ignores an element it already holds.\<close>

definition jadd :: "'a \<Rightarrow> 'a list \<Rightarrow> 'a list" where
  "jadd x xs = (if x \<in> set xs then xs else xs @ [x])"

lemma set_jadd [simp]: "set (jadd x xs) = insert x (set xs)"
  by (auto simp: jadd_def)

lemma distinct_jadd [simp]: "distinct xs \<Longrightarrow> distinct (jadd x xs)"
  by (auto simp: jadd_def)

section \<open>Decimal rendering\<close>

text \<open>
  \<open>\<dollar>{n}\<close> inside a template string renders an integer in decimal, with a leading minus sign
  when it is negative. \<open>parse_nat\<close> is \<open>parseInt(s, 10)\<close> on a string of digits.
\<close>

definition digit :: "nat \<Rightarrow> char" where
  "digit d = ''0123456789'' ! d"

definition digit_val :: "char \<Rightarrow> nat" where
  "digit_val c = of_char c - 48"

definition is_digit :: "char \<Rightarrow> bool" where
  "is_digit c = (c \<in> set ''0123456789'')"

fun show_nat :: "nat \<Rightarrow> string" where
  "show_nat n = (if n < 10 then [digit n] else show_nat (n div 10) @ [digit (n mod 10)])"

declare show_nat.simps [simp del]

definition show_int :: "int \<Rightarrow> string" where
  "show_int i = (if i < 0 then CHR ''-'' # show_nat (nat (- i)) else show_nat (nat i))"

definition parse_nat :: "string \<Rightarrow> nat" where
  "parse_nat s = foldl (\<lambda>a c. a * 10 + digit_val c) 0 s"

definition parse_int :: "string \<Rightarrow> int" where
  "parse_int s = (case s of c # cs \<Rightarrow> if c = CHR ''-'' then - int (parse_nat cs) else int (parse_nat s) | [] \<Rightarrow> 0)"

lemma less_10_cases: "(d::nat) < 10 \<Longrightarrow> d \<in> {0, 1, 2, 3, 4, 5, 6, 7, 8, 9}"
  by auto

lemma digit_val_digit: "d < 10 \<Longrightarrow> digit_val (digit d) = d"
  by (drule less_10_cases) (auto simp: digit_def digit_val_def)

lemma is_digit_digit: "d < 10 \<Longrightarrow> is_digit (digit d)"
  by (drule less_10_cases) (auto simp: digit_def is_digit_def)

lemma parse_nat_snoc: "parse_nat (s @ [c]) = parse_nat s * 10 + digit_val c"
  by (simp add: parse_nat_def)

lemma parse_show_nat [simp]: "parse_nat (show_nat n) = n"
proof (induction n rule: show_nat.induct)
  case (1 n)
  show ?case
  proof (cases "n < 10")
    case True
    then show ?thesis by (subst show_nat.simps) (simp add: parse_nat_def digit_val_digit)
  next
    case False
    with 1 show ?thesis
      by (subst show_nat.simps) (simp add: parse_nat_snoc digit_val_digit)
  qed
qed

lemma show_nat_digits: "c \<in> set (show_nat n) \<Longrightarrow> is_digit c"
proof (induction n rule: show_nat.induct)
  case (1 n)
  then show ?case
    by (cases "n < 10") (auto simp: show_nat.simps [of n] is_digit_digit)
qed

lemma show_nat_nonempty [simp]: "show_nat n \<noteq> []"
  by (subst show_nat.simps) simp

lemma digit_chars: "is_digit c \<Longrightarrow> c \<noteq> CHR ''-'' \<and> c \<noteq> CHR '','' \<and> c \<noteq> CHR ''|''"
  by (auto simp: is_digit_def)

lemma show_int_chars: "c \<in> set (show_int i) \<Longrightarrow> c \<noteq> CHR '','' \<and> c \<noteq> CHR ''|''"
  by (auto simp: show_int_def dest!: show_nat_digits digit_chars split: if_splits)

lemma show_int_nonempty [simp]: "show_int i \<noteq> []"
  by (simp add: show_int_def)

lemma parse_show_int [simp]: "parse_int (show_int i) = i"
proof (cases "i < 0")
  case True
  then show ?thesis by (simp add: show_int_def parse_int_def)
next
  case False
  then obtain c cs where s: "show_nat (nat i) = c # cs"
    by (cases "show_nat (nat i)") auto
  then have "c \<noteq> CHR ''-''" using show_nat_digits [of c "nat i"] digit_chars by auto
  with False s have "parse_int (show_int i) = int (parse_nat (show_nat (nat i)))"
    by (simp add: show_int_def parse_int_def)
  with False show ?thesis by simp
qed

lemma show_int_inject [simp]: "show_int i = show_int j \<longleftrightarrow> i = j"
  by (metis parse_show_int)

section \<open>Lists\<close>

text \<open>Splitting a string at the first separator: the rendered parts hold no separator.\<close>

lemma append_sep_inject:
  assumes "c \<notin> set xs" "c \<notin> set xs'" "xs @ c # ys = xs' @ c # ys'"
  shows "xs = xs' \<and> ys = ys'"
  using assms
proof (induction xs arbitrary: xs')
  case Nil
  then show ?case by (cases xs') auto
next
  case (Cons x xs)
  then show ?case by (cases xs') auto
qed

definition swap :: "nat \<Rightarrow> nat \<Rightarrow> 'a list \<Rightarrow> 'a list" where
  "swap i j xs = xs[i := xs ! j, j := xs ! i]"

lemma length_swap [simp]: "length (swap i j xs) = length xs"
  by (simp add: swap_def)

lemma mset_swap [simp]: "i < length xs \<Longrightarrow> j < length xs \<Longrightarrow> mset (swap i j xs) = mset xs"
  unfolding swap_def by (rule Multiset.mset_swap)

lemma sum_list_nonneg_int: "(\<And>x. x \<in> set xs \<Longrightarrow> 0 \<le> f x) \<Longrightarrow> (0::int) \<le> sum_list (map f xs)"
  by (induction xs) auto

text \<open>\<open>Array.findIndex\<close>, with \<open>None\<close> for the result -1, and \<open>Array.find\<close>.\<close>

fun find_index :: "('a \<Rightarrow> bool) \<Rightarrow> 'a list \<Rightarrow> nat option" where
  "find_index p [] = None"
| "find_index p (x # xs) = (if p x then Some 0 else map_option Suc (find_index p xs))"

lemma find_index_None: "find_index p xs = None \<longleftrightarrow> (\<forall>x \<in> set xs. \<not> p x)"
  by (induction xs) auto

lemma find_index_Some: "find_index p xs = Some i \<Longrightarrow> i < length xs \<and> p (xs ! i)"
proof (induction xs arbitrary: i)
  case (Cons x xs)
  show ?case
  proof (cases "p x")
    case True
    with Cons.prems show ?thesis by simp
  next
    case False
    with Cons.prems obtain k where "find_index p xs = Some k" "i = Suc k"
      by (auto simp: map_option_eq_Some)
    with Cons.IH [of k] show ?thesis by simp
  qed
qed simp

lemma find_index_unique:
  assumes "i < length xs" "p (xs ! i)" "\<And>j. j < length xs \<Longrightarrow> p (xs ! j) \<Longrightarrow> j = i"
  shows "find_index p xs = Some i"
proof (cases "find_index p xs")
  case None
  with assms(1,2) show ?thesis using nth_mem [OF assms(1)] by (simp add: find_index_None)
next
  case (Some k)
  with find_index_Some [OF Some] assms(3) [of k] show ?thesis by simp
qed

lemma find_SomeD: "find p xs = Some x \<Longrightarrow> x \<in> set xs \<and> p x"
  by (induction xs) (auto split: if_splits)

lemma find_unique:
  assumes "x \<in> set xs" "p x" "\<And>y. y \<in> set xs \<Longrightarrow> p y \<Longrightarrow> y = x"
  shows "find p xs = Some x"
proof (cases "find p xs")
  case None
  with assms(1,2) show ?thesis by (auto simp: find_None_iff)
next
  case (Some y)
  with find_SomeD [OF Some] assms(3) [of y] show ?thesis by simp
qed

end
