(* ===== verification/Hexmap.thy ===== *)
theory Hexmap
  imports Prelude "HOL-Library.List_Lexorder" "HOL-Library.Char_ord"
begin

text \<open>
  The spatial model, \<open>packages/game-core/src/map\<close>: axial and cube coordinates, tile, edge and
  vertex identifiers, hex ranges, the \<open>GameMap\<close> container and the fluent \<open>MapBuilder\<close>.
  Coordinates are the integers the code only ever uses; an identifier is the rendered string.
\<close>

section \<open>Coordinates (coordinate.ts)\<close>

record axial =
  ax_q :: int
  ax_r :: int

record cube =
  cu_x :: int
  cu_y :: int
  cu_z :: int

definition axial :: "int \<Rightarrow> int \<Rightarrow> axial" where
  "axial x y = \<lparr>ax_q = x, ax_r = y\<rparr>"

definition axialToCube :: "axial \<Rightarrow> cube" where
  "axialToCube c = \<lparr>cu_x = ax_q c, cu_y = - ax_q c - ax_r c, cu_z = ax_r c\<rparr>"

definition cubeToAxial :: "cube \<Rightarrow> axial" where
  "cubeToAxial c = \<lparr>ax_q = cu_x c, ax_r = cu_z c\<rparr>"

definition axialEquals :: "axial \<Rightarrow> axial \<Rightarrow> bool" where
  "axialEquals a b = (ax_q a = ax_q b \<and> ax_r a = ax_r b)"

text \<open>The sum of the three differences is even, so the division by two is exact.\<close>

definition axialDistance :: "axial \<Rightarrow> axial \<Rightarrow> int" where
  "axialDistance a b =
     (let ac = axialToCube a; bc = axialToCube b
      in (\<bar>cu_x ac - cu_x bc\<bar> + \<bar>cu_y ac - cu_y bc\<bar> + \<bar>cu_z ac - cu_z bc\<bar>) div 2)"

definition AXIAL_NEIGHBOURS :: "axial list" where
  "AXIAL_NEIGHBOURS =
     [axial 1 0, axial 1 (-1), axial 0 (-1), axial (-1) 0, axial (-1) 1, axial 0 1]"

definition axialNeighbours :: "axial \<Rightarrow> axial list" where
  "axialNeighbours c = map (\<lambda>d. axial (ax_q c + ax_q d) (ax_r c + ax_r d)) AXIAL_NEIGHBOURS"

lemma axial_sel [simp]: "ax_q (axial x y) = x" "ax_r (axial x y) = y"
  by (simp_all add: axial_def)

lemma axial_eq_iff: "a = b \<longleftrightarrow> ax_q a = ax_q b \<and> ax_r a = ax_r (b :: axial)"
  by (cases a; cases b) auto

lemma axial_inject [simp]: "axial x y = axial x' y' \<longleftrightarrow> x = x' \<and> y = y'"
  by (simp add: axial_def)

lemma axialEquals_iff [simp]: "axialEquals a b \<longleftrightarrow> a = b"
  by (simp add: axialEquals_def axial_eq_iff)

lemma cube_roundtrip: "cubeToAxial (axialToCube c) = c"
  by (simp add: cubeToAxial_def axialToCube_def)

lemma hex_distance_exact:
  "(\<bar>u\<bar> + \<bar>- u - v\<bar> + \<bar>v\<bar>) div 2 = max (max \<bar>u\<bar> \<bar>v\<bar>) \<bar>u + v\<bar>" for u v :: int
proof -
  have "\<bar>u\<bar> + \<bar>- u - v\<bar> + \<bar>v\<bar> = 2 * max (max \<bar>u\<bar> \<bar>v\<bar>) \<bar>u + v\<bar>"
  proof -
    have "\<bar>- u - v\<bar> = \<bar>u + v\<bar>" by (simp add: abs_if)
    moreover have "\<bar>u\<bar> + \<bar>u + v\<bar> + \<bar>v\<bar> = 2 * max (max \<bar>u\<bar> \<bar>v\<bar>) \<bar>u + v\<bar>"
      by (cases "0 \<le> u"; cases "0 \<le> v"; cases "0 \<le> u + v") (simp_all add: max_def)
    ultimately show ?thesis by simp
  qed
  then show ?thesis by (simp only: nonzero_mult_div_cancel_left)
qed

lemma axialDistance_max:
  "axialDistance a b =
     max (max \<bar>ax_q a - ax_q b\<bar> \<bar>ax_r a - ax_r b\<bar>) \<bar>(ax_q a - ax_q b) + (ax_r a - ax_r b)\<bar>"
proof -
  have "\<bar>- ax_q a - ax_r a - (- ax_q b - ax_r b)\<bar> = \<bar>- (ax_q a - ax_q b) - (ax_r a - ax_r b)\<bar>"
    by simp
  then show ?thesis
    using hex_distance_exact [of "ax_q a - ax_q b" "ax_r a - ax_r b"]
    by (simp add: axialDistance_def axialToCube_def Let_def add.commute add.left_commute)
qed

lemma set_axialNeighbours:
  "b \<in> set (axialNeighbours a) \<longleftrightarrow>
   (ax_q b - ax_q a, ax_r b - ax_r a) \<in> {(1, 0), (1, -1), (0, -1), (-1, 0), (-1, 1), (0, 1)}"
proof -
  obtain u v where b: "b = axial (ax_q a + u) (ax_r a + v)"
    by (metis axial_eq_iff axial_sel add.commute diff_add_cancel)
  show ?thesis unfolding b by (simp add: axialNeighbours_def AXIAL_NEIGHBOURS_def axial_eq_iff)
qed

lemma hexagon: "(u, v) \<noteq> (0, 0) \<and> \<bar>u\<bar> \<le> 1 \<and> \<bar>v\<bar> \<le> 1 \<and> \<bar>u + v\<bar> \<le> 1 \<longleftrightarrow> (u, v) \<in> {(1, 0), (1, -1), (0, -1), (-1, 0), (-1, 1), (0, 1)}" for u v :: int
proof -
  have ab: "\<bar>x\<bar> \<le> 1 \<longleftrightarrow> x = -1 \<or> x = 0 \<or> x = 1" for x :: int by linarith
  show ?thesis unfolding ab by (cases "u = -1"; cases "u = 0"; cases "u = 1"; simp) auto
qed

lemma hex1: "max (max \<bar>u\<bar> \<bar>v\<bar>) \<bar>u + v\<bar> = 1 \<longleftrightarrow> (u, v) \<noteq> (0, 0) \<and> \<bar>u\<bar> \<le> 1 \<and> \<bar>v\<bar> \<le> 1 \<and> \<bar>u + v\<bar> \<le> 1" for u v :: int
  by (simp add: max_def) linarith

section \<open>Tiles, edges and vertices (tile.ts, edge.ts, vertex.ts)\<close>

text \<open>
  A tile property is \<open>unknown\<close> to the framework; the scenarios store strings, numbers and
  \<open>null\<close>. A property that was never set is absent from the record.
\<close>

datatype tile_value = PStr string | PNum int | PNull

record tile =
  tile_id :: string
  tile_coord :: axial
  tile_terrain :: string
  tile_numberToken :: "int option"
  tile_properties :: "(string, tile_value) jsmap option"

definition tileId :: "axial \<Rightarrow> string" where
  "tileId c = show_int (ax_q c) @ '','' @ show_int (ax_r c)"

record edge =
  edge_id :: string
  edge_a :: axial
  edge_b :: axial

definition edgeId :: "axial \<Rightarrow> axial \<Rightarrow> string" where
  "edgeId a b =
     (let (fst', snd') = (if ax_q a < ax_q b \<or> (ax_q a = ax_q b \<and> ax_r a < ax_r b) then (a, b) else (b, a))
      in show_int (ax_q fst') @ '','' @ show_int (ax_r fst') @ ''|'' @
         show_int (ax_q snd') @ '','' @ show_int (ax_r snd'))"

definition edgeEquals :: "edge \<Rightarrow> edge \<Rightarrow> bool" where
  "edgeEquals x y =
     ((axialEquals (edge_a x) (edge_a y) \<and> axialEquals (edge_b x) (edge_b y)) \<or>
      (axialEquals (edge_a x) (edge_b y) \<and> axialEquals (edge_b x) (edge_a y)))"

record vertex =
  vertex_id :: string
  vertex_tiles :: "axial list"

fun join :: "string \<Rightarrow> string list \<Rightarrow> string" where
  "join sep [] = []"
| "join sep [s] = s"
| "join sep (s # t # ss) = s @ sep @ join sep (t # ss)"

text \<open>\<open>Array.sort\<close> without a comparator orders strings by code unit.\<close>

definition vertexId :: "axial list \<Rightarrow> string" where
  "vertexId ts = join ''|'' (sort (map (\<lambda>t. show_int (ax_q t) @ '','' @ show_int (ax_r t)) ts))"

lemma tileId_inject [simp]: "tileId a = tileId b \<longleftrightarrow> a = b"
proof
  assume "tileId a = tileId b"
  then have "show_int (ax_q a) @ CHR '','' # show_int (ax_r a) =
             show_int (ax_q b) @ CHR '','' # show_int (ax_r b)"
    by (simp add: tileId_def)
  moreover have "CHR '','' \<notin> set (show_int (ax_q a))" "CHR '','' \<notin> set (show_int (ax_q b))"
    using show_int_chars by blast+
  ultimately have "show_int (ax_q a) = show_int (ax_q b) \<and> show_int (ax_r a) = show_int (ax_r b)"
    by (metis append_sep_inject)
  then show "a = b" by (simp add: axial_eq_iff)
qed simp

lemma inj_tileId: "inj tileId"
  by (rule injI) simp

lemma tileId_no_bar: "CHR ''|'' \<notin> set (tileId c)"
  using show_int_chars by (fastforce simp: tileId_def)

lemma edgeId_tileIds:
  "edgeId a b = (if ax_q a < ax_q b \<or> (ax_q a = ax_q b \<and> ax_r a < ax_r b)
     then tileId a @ CHR ''|'' # tileId b else tileId b @ CHR ''|'' # tileId a)"
  by (simp add: edgeId_def tileId_def)

lemma edge_sep_inject:
  "tileId a @ CHR ''|'' # tileId b = tileId c @ CHR ''|'' # tileId d \<longleftrightarrow> a = c \<and> b = d"
  by (metis append_sep_inject tileId_no_bar tileId_inject)

lemma edgeId_iff: "edgeId a b = edgeId c d \<longleftrightarrow> {a, b} = {c, d}"
proof -
  define lt where "lt = (\<lambda>(a :: axial) (b :: axial). ax_q a < ax_q b \<or> (ax_q a = ax_q b \<and> ax_r a < ax_r b))"
  have id: "edgeId a b = (if lt a b then tileId a @ CHR ''|'' # tileId b else tileId b @ CHR ''|'' # tileId a)" for a b
    by (simp add: edgeId_tileIds lt_def)
  have asym: "\<not> lt b a" if "lt a b" for a b
    using that by (auto simp: lt_def)
  have total: "a = b" if "\<not> lt a b" "\<not> lt b a" for a b
    using that by (auto simp: lt_def axial_eq_iff)
  show ?thesis
    unfolding id doubleton_eq_iff using asym [of a b] asym [of c d] total [of a b] total [of c d]
    by (cases "lt a b"; cases "lt c d") (simp_all add: edge_sep_inject, blast+)
qed

lemma vertexId_mset: "mset (xs :: axial list) = mset ys \<Longrightarrow> vertexId xs = vertexId ys"
  by (simp add: vertexId_def flip: sorted_list_of_multiset_mset)

section \<open>Hex ranges (hex-tile.ts)\<close>

definition hexNeighbours :: "axial \<Rightarrow> axial list" where
  "hexNeighbours = axialNeighbours"

definition hexDistance :: "axial \<Rightarrow> axial \<Rightarrow> int" where
  "hexDistance = axialDistance"

definition hexesInRange :: "axial \<Rightarrow> int \<Rightarrow> axial list" where
  "hexesInRange centre radius =
     concat (map (\<lambda>dq.
       let rMin = max (- radius) (- dq - radius); rMax = min radius (- dq + radius)
       in map (\<lambda>dr. axial (ax_q centre + dq) (ax_r centre + dr)) [rMin..rMax])
     [- radius..radius])"

lemma ex_offset:
  "(\<exists>dq dr. - radius \<le> dq \<and> dq \<le> radius \<and> P dq dr \<and> Q dq dr \<and> c = axial (ax_q centre + dq) (ax_r centre + dr)) \<longleftrightarrow>
   (let dq = ax_q c - ax_q centre; dr = ax_r c - ax_r centre
    in - radius \<le> dq \<and> dq \<le> radius \<and> P dq dr \<and> Q dq dr)"
proof -
  have "c = axial (ax_q centre + dq) (ax_r centre + dr) \<longleftrightarrow> dq = ax_q c - ax_q centre \<and> dr = ax_r c - ax_r centre" for dq dr
    by (auto simp: axial_eq_iff)
  then show ?thesis by (auto simp: Let_def)
qed

lemma upto_Suc_both: "[- int (Suc k)..int (Suc k)] = - int (Suc k) # [- int k..int k] @ [int (Suc k)]"
proof -
  have "[- int (Suc k)..int (Suc k)] = - int (Suc k) # [- int k..int (Suc k)]"
    by (subst upto_rec1) simp_all
  also have "[- int k..int (Suc k)] = [- int k..int k] @ [int (Suc k)]"
    by (subst upto_rec2) simp_all
  finally show ?thesis by simp
qed

lemma set_hexesInRange: "set (hexesInRange centre radius) = {c. hexDistance c centre \<le> radius}"
proof (rule set_eqI)
  fix c
  have "c \<in> set (hexesInRange centre radius) \<longleftrightarrow>
        (\<exists>dq dr. - radius \<le> dq \<and> dq \<le> radius \<and> max (- radius) (- dq - radius) \<le> dr \<and>
           dr \<le> min radius (- dq + radius) \<and> c = axial (ax_q centre + dq) (ax_r centre + dr))"
    by (force simp: hexesInRange_def Let_def)
  also have "\<dots> \<longleftrightarrow> (let dq = ax_q c - ax_q centre; dr = ax_r c - ax_r centre
       in - radius \<le> dq \<and> dq \<le> radius \<and> max (- radius) (- dq - radius) \<le> dr \<and>
           dr \<le> min radius (- dq + radius))"
    by (rule ex_offset)
  also have "\<dots> \<longleftrightarrow> hexDistance c centre \<le> radius"
    unfolding hexDistance_def axialDistance_max Let_def by linarith
  finally show "c \<in> set (hexesInRange centre radius) \<longleftrightarrow> c \<in> {c. hexDistance c centre \<le> radius}"
    by simp
qed

lemma sum_abs_upto: "sum_list (map abs [- int k..int k]) = int k * (int k + 1)"
proof (induction k)
  case (Suc k)
  then show ?case unfolding upto_Suc_both by (simp add: algebra_simps)
qed simp

lemma sum_list_const_minus: "sum_list (map (\<lambda>x. c - f x) xs) = of_nat (length xs) * c - sum_list (map f xs)"
  for f :: "'a \<Rightarrow> int"
  by (induction xs) (auto simp: algebra_simps)

lemma of_nat_sum_list_int: "int (sum_list xs) = sum_list (map int xs)"
  by (induction xs) auto

lemma length_hexesInRange: "length (hexesInRange centre (int k)) = 3 * k * (k + 1) + 1"
proof -
  have row: "int (length [max (- int k) (- dq - int k)..min (int k) (- dq + int k)]) = (2 * int k + 1) - \<bar>dq\<bar>"
    if "dq \<in> set [- int k..int k]" for dq
    using that by auto
  have "int (length (hexesInRange centre (int k))) =
        sum_list (map (\<lambda>dq. int (length [max (- int k) (- dq - int k)..min (int k) (- dq + int k)])) [- int k..int k])"
    by (simp only: hexesInRange_def length_concat Let_def map_map comp_def length_map of_nat_sum_list_int)
  also have "\<dots> = sum_list (map (\<lambda>dq. (2 * int k + 1) - \<bar>dq\<bar>) [- int k..int k])"
    using row by (intro arg_cong [where f = sum_list] map_cong) auto
  also have "\<dots> = (2 * int k + 1) * (2 * int k + 1) - int k * (int k + 1)"
    by (simp add: sum_list_const_minus sum_abs_upto)
  finally have "int (length (hexesInRange centre (int k))) = int (3 * k * (k + 1) + 1)"
    by (simp add: algebra_simps)
  then show ?thesis by (simp only: of_nat_eq_iff)
qed

section \<open>Properties of coordinates and identifiers\<close>

lemma distinct_concat_map:
  assumes "distinct xs" "\<And>x. x \<in> set xs \<Longrightarrow> distinct (f x)" "\<And>x y. x \<noteq> y \<Longrightarrow> set (f x) \<inter> set (f y) = {}"
  shows "distinct (concat (map f xs))"
  using assms by (induction xs) (fastforce simp: disjoint_iff)+

text \<open> \<open>hexesInRange\<close> lists every hex within the radius exactly once, \<open>3k(k+1)+1\<close> hexes
  for radius \<open>k\<close>. \<close>
lemma hexesInRange_exact:
  "set (hexesInRange centre (int k)) = {c. hexDistance c centre \<le> int k} \<and> distinct (hexesInRange centre (int k)) \<and>
   length (hexesInRange centre (int k)) = 3 * k * (k + 1) + 1"
proof -
  have "distinct (hexesInRange centre (int k))"
    unfolding hexesInRange_def Let_def by (rule distinct_concat_map) (auto simp: distinct_map inj_on_def)
  then show ?thesis by (simp add: set_hexesInRange length_hexesInRange)
qed

text \<open> Two edges carry the same identifier exactly when \<open>edgeEquals\<close> holds of them, whatever the
  order their two hexes are given in. \<close>
lemma edgeId_edgeEquals:
  "edgeId (edge_a x) (edge_b x) = edgeId (edge_a y) (edge_b y) \<longleftrightarrow> edgeEquals x y"
  by (auto simp: edgeId_iff edgeEquals_def doubleton_eq_iff)

lemma join_Cons: "ss \<noteq> [] \<Longrightarrow> join sep (s # ss) = s @ sep @ join sep ss"
  by (cases ss) simp_all

lemma join_sep: "ss \<noteq> [] \<Longrightarrow> \<forall>s \<in> set ss. c \<notin> set s \<Longrightarrow> c \<in> set (join [c] ss) \<longleftrightarrow> 1 < length ss"
  by (cases ss; cases "tl ss") (simp_all add: join_Cons)

lemma join_inject:
  assumes "\<forall>s \<in> set xs. c \<notin> set s \<and> s \<noteq> []" "\<forall>s \<in> set ys. c \<notin> set s \<and> s \<noteq> []" "join [c] xs = join [c] ys"
  shows "xs = ys"
  using assms
proof (induction xs arbitrary: ys)
  case Nil
  then show ?case by (cases ys; cases "tl ys") auto
next
  case (Cons x xs)
  then obtain y ys' where ys: "ys = y # ys'" by (cases ys; cases xs) auto
  have "c \<in> set (join [c] (x # xs)) \<longleftrightarrow> 1 < length (x # xs)" "c \<in> set (join [c] ys) \<longleftrightarrow> 1 < length ys"
    using Cons.prems ys by (intro join_sep; simp)+
  then have sep: "xs = [] \<longleftrightarrow> ys' = []" using Cons.prems(3) ys by simp
  show ?case
  proof (cases "xs = []")
    case True
    with sep Cons.prems ys show ?thesis by simp
  next
    case False
    with sep Cons.prems(3) ys have "x @ c # join [c] xs = y @ c # join [c] ys'" by (simp add: join_Cons)
    with append_sep_inject [of c x y "join [c] xs" "join [c] ys'"] Cons.prems ys Cons.IH [of ys'] show ?thesis by auto
  qed
qed

text \<open> C38: A vertex identifier determines the hexes that meet there, and does not depend on the
  order they are listed in. \<close>
theorem vertexId_iff_same_tiles:
  "vertexId xs = vertexId ys \<longleftrightarrow> mset xs = mset ys"
proof
  assume "vertexId xs = vertexId ys"
  moreover have "\<forall>s \<in> set (sort (map tileId zs)). CHR ''|'' \<notin> set s \<and> s \<noteq> []" for zs
    using tileId_no_bar by (auto simp: tileId_def)
  ultimately have "sort (map tileId xs) = sort (map tileId ys)"
    unfolding vertexId_def tileId_def [symmetric] by (intro join_inject [of _ "CHR ''|''"]) auto
  then have "mset (map tileId xs) = mset (map tileId ys)" by (metis mset_sort)
  then have "image_mset tileId (mset xs) = image_mset tileId (mset ys)" by simp
  then show "mset xs = mset ys" using inj_tileId by (meson injD multiset.inj_map)
qed (rule vertexId_mset)

end
