(* ===== verification/GameMap.thy ===== *)
theory GameMap
  imports Hexmap
begin

text \<open>
  The map container (\<open>game-map.ts\<close>) and its fluent builder (\<open>map-builder.ts\<close>). A
  \<open>GameMap\<close> holds three insertion-ordered maps keyed by identifier; the builder accumulates
  tile definitions and pending property writes and commits both in \<open>build\<close>.
\<close>

section \<open>GameMap (game-map.ts)\<close>

record game_map =
  gm_tiles :: "(string, tile) jsmap"
  gm_edges :: "(string, edge) jsmap"
  gm_vertices :: "(string, vertex) jsmap"

definition emptyMap :: game_map where
  "emptyMap = \<lparr>gm_tiles = [], gm_edges = [], gm_vertices = []\<rparr>"

definition gm_addTile :: "tile \<Rightarrow> game_map \<Rightarrow> game_map" where
  "gm_addTile t m = m\<lparr>gm_tiles := jput (tile_id t) t (gm_tiles m)\<rparr>"

definition gm_addEdge :: "edge \<Rightarrow> game_map \<Rightarrow> game_map" where
  "gm_addEdge e m = m\<lparr>gm_edges := jput (edge_id e) e (gm_edges m)\<rparr>"

definition gm_addVertex :: "vertex \<Rightarrow> game_map \<Rightarrow> game_map" where
  "gm_addVertex v m = m\<lparr>gm_vertices := jput (vertex_id v) v (gm_vertices m)\<rparr>"

definition gm_tile :: "game_map \<Rightarrow> axial \<Rightarrow> tile option" where
  "gm_tile m c = jget (gm_tiles m) (tileId c)"

definition tileById :: "game_map \<Rightarrow> string \<Rightarrow> tile option" where
  "tileById m i = jget (gm_tiles m) i"

definition gm_edge :: "game_map \<Rightarrow> string \<Rightarrow> edge option" where
  "gm_edge m i = jget (gm_edges m) i"

definition gm_vertex :: "game_map \<Rightarrow> string \<Rightarrow> vertex option" where
  "gm_vertex m i = jget (gm_vertices m) i"

definition tilesWhere :: "game_map \<Rightarrow> (tile \<Rightarrow> bool) \<Rightarrow> tile list" where
  "tilesWhere m p = filter p (jvals (gm_tiles m))"

definition isNeighbour :: "axial \<Rightarrow> axial \<Rightarrow> bool" where
  "isNeighbour a b =
     (if axialEquals a b then False
      else let dq = ax_q a - ax_q b; dr = ax_r a - ax_r b
           in \<bar>dq\<bar> \<le> 1 \<and> \<bar>dr\<bar> \<le> 1 \<and> \<bar>dq + dr\<bar> \<le> 1)"

definition neighboursOf :: "game_map \<Rightarrow> axial \<Rightarrow> tile list" where
  "neighboursOf m c = filter (\<lambda>t. isNeighbour c (tile_coord t)) (jvals (gm_tiles m))"

lemma isNeighbour_distance: "isNeighbour a b \<longleftrightarrow> axialDistance a b = 1"
proof -
  have "a = b \<longleftrightarrow> (ax_q a - ax_q b, ax_r a - ax_r b) = (0, 0)"
    by (simp add: axial_eq_iff)
  then show ?thesis
    unfolding isNeighbour_def axialDistance_max Let_def axialEquals_iff hex1 by (simp del: prod.inject)
qed

lemma isNeighbour_sym: "isNeighbour a b \<longleftrightarrow> isNeighbour b a"
  by (auto simp: isNeighbour_def Let_def)

lemma isNeighbour_list: "isNeighbour a b \<longleftrightarrow> b \<in> set (axialNeighbours a)"
proof -
  define u v where "u = ax_q b - ax_q a" and "v = ax_r b - ax_r a"
  have "isNeighbour a b \<longleftrightarrow> (u, v) \<noteq> (0, 0) \<and> \<bar>u\<bar> \<le> 1 \<and> \<bar>v\<bar> \<le> 1 \<and> \<bar>u + v\<bar> \<le> 1"
  proof -
    have "ax_q a - ax_q b = - u" "ax_r a - ax_r b = - v" "a = b \<longleftrightarrow> (u, v) = (0, 0)" "\<bar>- u + - v\<bar> = \<bar>u + v\<bar>"
      by (auto simp: u_def v_def axial_eq_iff)
    then show ?thesis by (simp add: isNeighbour_def Let_def)
  qed
  also have "\<dots> \<longleftrightarrow> (u, v) \<in> {(1, 0), (1, -1), (0, -1), (-1, 0), (-1, 1), (0, 1)}"
    by (rule hexagon)
  finally show ?thesis by (simp add: set_axialNeighbours u_def v_def)
qed

text \<open>Every tile is stored under the identifier of its own coordinate.\<close>

definition wf_map :: "game_map \<Rightarrow> bool" where
  "wf_map m \<longleftrightarrow> distinct (jkeys (gm_tiles m)) \<and>
     (\<forall>(i, t) \<in> set (gm_tiles m). i = tile_id t \<and> tile_id t = tileId (tile_coord t))"

lemma wf_map_empty [simp]: "wf_map emptyMap"
  by (simp add: wf_map_def emptyMap_def)

lemma wf_map_addTile:
  "wf_map m \<Longrightarrow> tile_id t = tileId (tile_coord t) \<Longrightarrow> wf_map (gm_addTile t m)"
  by (auto simp: wf_map_def gm_addTile_def dest: set_jput)

lemma tileById_wf: "wf_map m \<Longrightarrow> tileById m i = Some t \<Longrightarrow> tile_id t = i \<and> tileId (tile_coord t) = i"
  by (auto simp: wf_map_def tileById_def dest!: jget_in_set)

lemma tileById_mem: "wf_map m \<Longrightarrow> t \<in> set (jvals (gm_tiles m)) \<longleftrightarrow> tileById m (tile_id t) = Some t"
  by (force simp: wf_map_def tileById_def dest: jget_in_set)

lemma neighboursOf_iff:
  "wf_map m \<Longrightarrow> t \<in> set (neighboursOf m c) \<longleftrightarrow> tileById m (tile_id t) = Some t \<and> isNeighbour c (tile_coord t)"
  by (simp add: neighboursOf_def tileById_mem del: set_map)

section \<open>MapBuilder (map-builder.ts)\<close>

record tile_def =
  td_coord :: axial
  td_terrain :: string
  td_numberToken :: "int option"

record map_builder =
  mb_tileDefs :: "tile_def list"
  mb_pending :: "(string, (string, tile_value) jsmap) jsmap"

definition newMapBuilder :: map_builder where
  "newMapBuilder = \<lparr>mb_tileDefs = [], mb_pending = []\<rparr>"

datatype coord_or_id = AtCoord axial | AtId string

fun tile_ref :: "coord_or_id \<Rightarrow> string" where
  "tile_ref (AtId s) = s"
| "tile_ref (AtCoord c) = tileId c"

definition mb_addTile :: "axial \<Rightarrow> string \<Rightarrow> int option \<Rightarrow> map_builder \<Rightarrow> map_builder" where
  "mb_addTile c terrain token b =
     b\<lparr>mb_tileDefs := mb_tileDefs b @ [\<lparr>td_coord = c, td_terrain = terrain, td_numberToken = token\<rparr>]\<rparr>"

definition setTileProperty :: "coord_or_id \<Rightarrow> string \<Rightarrow> tile_value \<Rightarrow> map_builder \<Rightarrow> map_builder" where
  "setTileProperty ref key v b =
     (let i = tile_ref ref;
          existing = (case jget (mb_pending b) i of Some ps \<Rightarrow> ps | None \<Rightarrow> [])
      in b\<lparr>mb_pending := jput i (jput key v existing) (mb_pending b)\<rparr>)"

definition setTileProperties :: "coord_or_id \<Rightarrow> (string, tile_value) jsmap \<Rightarrow> map_builder \<Rightarrow> map_builder" where
  "setTileProperties ref props b = fold (\<lambda>(key, v). setTileProperty ref key v) props b"

definition computeAdjacency :: "map_builder \<Rightarrow> map_builder" where
  "computeAdjacency b = b"

definition build_tile :: "(string, (string, tile_value) jsmap) jsmap \<Rightarrow> tile_def \<Rightarrow> tile" where
  "build_tile pending d =
     \<lparr>tile_id = tileId (td_coord d), tile_coord = td_coord d, tile_terrain = td_terrain d,
      tile_numberToken = td_numberToken d, tile_properties = jget pending (tileId (td_coord d))\<rparr>"

definition mb_build :: "map_builder \<Rightarrow> game_map" where
  "mb_build b = fold (\<lambda>d. gm_addTile (build_tile (mb_pending b) d)) (mb_tileDefs b) emptyMap"

lemma build_tile_sel [simp]:
  "tile_id (build_tile pending d) = tileId (td_coord d)"
  "tile_coord (build_tile pending d) = td_coord d"
  "tile_terrain (build_tile pending d) = td_terrain d"
  "tile_properties (build_tile pending d) = jget pending (tileId (td_coord d))"
  by (simp_all add: build_tile_def)

lemma wf_map_fold: "wf_map m \<Longrightarrow> wf_map (fold (\<lambda>d. gm_addTile (build_tile pending d)) ds m)"
  by (induction ds arbitrary: m) (simp_all add: wf_map_addTile)

lemma wf_map_build: "wf_map (mb_build b)"
  by (simp add: mb_build_def wf_map_fold)

lemma gm_tile_fold:
  "gm_tile (fold (\<lambda>d. gm_addTile (build_tile pending d)) ds m) c =
     (case jget (rev (map (\<lambda>d. (td_coord d, d)) ds)) c of
        Some d \<Rightarrow> Some (build_tile pending d) | None \<Rightarrow> gm_tile m c)"
  by (induction ds arbitrary: m)
     (auto simp: gm_tile_def gm_addTile_def map_add_def split: option.splits)

lemma gm_tile_build:
  "gm_tile (mb_build b) c =
     map_option (build_tile (mb_pending b)) (jget (rev (map (\<lambda>d. (td_coord d, d)) (mb_tileDefs b))) c)"
  unfolding mb_build_def gm_tile_fold by (auto simp: gm_tile_def emptyMap_def split: option.splits)

lemma gm_tile_build_distinct:
  assumes "distinct (map td_coord (mb_tileDefs b))" "d \<in> set (mb_tileDefs b)"
  shows "gm_tile (mb_build b) (td_coord d) = Some (build_tile (mb_pending b) d)"
proof -
  have "jget (rev (map (\<lambda>d. (td_coord d, d)) (mb_tileDefs b))) (td_coord d) = Some d"
    using assms by (intro map_of_is_SomeI) (auto simp: rev_map [symmetric] comp_def)
  then show ?thesis by (simp add: gm_tile_build)
qed

lemma jkeys_fold_addTile:
  "jkeys (gm_tiles (fold (\<lambda>d. gm_addTile (build_tile pending d)) ds m)) =
     fold (\<lambda>d ks. if tileId (td_coord d) \<in> set ks then ks else ks @ [tileId (td_coord d)]) ds (jkeys (gm_tiles m))"
  by (induction ds arbitrary: m) (simp_all add: gm_addTile_def update_keys)

lemma jkeys_build_distinct:
  assumes "distinct (map td_coord (mb_tileDefs b))"
  shows "jkeys (gm_tiles (mb_build b)) = map (\<lambda>d. tileId (td_coord d)) (mb_tileDefs b)"
proof -
  have "fold (\<lambda>d ks. if tileId (td_coord d) \<in> set ks then ks else ks @ [tileId (td_coord d)]) ds ks =
        ks @ map (\<lambda>d. tileId (td_coord d)) ds"
    if "distinct (map td_coord ds)" "\<forall>d \<in> set ds. tileId (td_coord d) \<notin> set ks" for ds :: "tile_def list" and ks
    using that
  proof (induction ds arbitrary: ks)
    case (Cons d ds)
    have "\<forall>d' \<in> set ds. tileId (td_coord d') \<notin> set (ks @ [tileId (td_coord d)])"
      using Cons.prems by (metis Un_iff distinct.simps(2) empty_iff empty_set image_eqI list.set_intros(2)
          list.simps(9) list.set(2) set_append set_map singletonD tileId_inject insertE)
    with Cons show ?case by simp
  qed simp
  with assms show ?thesis by (simp add: mb_build_def jkeys_fold_addTile emptyMap_def)
qed

lemma pending_setTileProperty:
  "jget (mb_pending (setTileProperty ref key v b)) i =
     (if i = tile_ref ref then Some (jput key v (case jget (mb_pending b) i of Some ps \<Rightarrow> ps | None \<Rightarrow> []))
      else jget (mb_pending b) i)"
  by (simp add: setTileProperty_def Let_def)

lemma setTileProperty_defs [simp]: "mb_tileDefs (setTileProperty ref key v b) = mb_tileDefs b"
  by (simp add: setTileProperty_def Let_def)

lemma setTileProperties_defs [simp]: "mb_tileDefs (setTileProperties ref props b) = mb_tileDefs b"
  unfolding setTileProperties_def by (induction props arbitrary: b) auto

lemma pending_setTileProperties:
  "jget (mb_pending (setTileProperties ref props b)) i =
     (if i = tile_ref ref \<and> props \<noteq> []
      then Some (fold (\<lambda>(key, v). jput key v) props (case jget (mb_pending b) i of Some ps \<Rightarrow> ps | None \<Rightarrow> []))
      else jget (mb_pending b) i)"
  unfolding setTileProperties_def
  by (induction props arbitrary: b) (auto simp: pending_setTileProperty split: option.splits)

section \<open>Properties of built maps\<close>

text \<open> On a built map the neighbours found by scanning all tiles are exactly the tiles at the six
  axial offsets, so the scan and the coordinate arithmetic agree. \<close>
lemma neighboursOf_axialNeighbours:
  "tile_coord ` set (neighboursOf (mb_build b) c) = {c' \<in> set (axialNeighbours c). gm_tile (mb_build b) c' \<noteq> None}"
proof -
  note wf = wf_map_build [of b]
  have at: "tile_id t = tileId c' \<and> tile_coord t = c'" if "gm_tile (mb_build b) c' = Some t" for t c'
    using tileById_wf [OF wf, of "tileId c'" t] that by (simp add: gm_tile_def tileById_def)
  show ?thesis
  proof (intro set_eqI iffI)
    fix c' assume "c' \<in> tile_coord ` set (neighboursOf (mb_build b) c)"
    then obtain t where t: "t \<in> set (neighboursOf (mb_build b) c)" "c' = tile_coord t" by blast
    then have "tileById (mb_build b) (tile_id t) = Some t" "isNeighbour c c'" by (simp_all add: neighboursOf_iff [OF wf])
    moreover from tileById_wf [OF wf this(1)] have "tileId c' = tile_id t" using t(2) by simp
    ultimately show "c' \<in> {c' \<in> set (axialNeighbours c). gm_tile (mb_build b) c' \<noteq> None}"
      by (simp add: isNeighbour_list gm_tile_def tileById_def)
  next
    fix c' assume "c' \<in> {c' \<in> set (axialNeighbours c). gm_tile (mb_build b) c' \<noteq> None}"
    then obtain t where t: "gm_tile (mb_build b) c' = Some t" "isNeighbour c c'" by (auto simp: isNeighbour_list)
    with at [OF t(1)] have "t \<in> set (neighboursOf (mb_build b) c)"
      by (simp add: neighboursOf_iff [OF wf] gm_tile_def tileById_def)
    with at [OF t(1)] show "c' \<in> tile_coord ` set (neighboursOf (mb_build b) c)" by force
  qed
qed

text \<open> A map builder keeps one tile per coordinate, the last definition added, and attaches the
  properties set for it before or after the tile itself. \<close>
lemma mb_build_lookup:
  "gm_tile (mb_build b) c =
     map_option (build_tile (mb_pending b)) (find (\<lambda>d. td_coord d = c) (rev (mb_tileDefs b)))"
proof -
  have "jget (map (\<lambda>d. (td_coord d, d)) ds) c = find (\<lambda>d. td_coord d = c) ds" for ds :: "tile_def list"
    by (induction ds) auto
  then show ?thesis by (simp add: gm_tile_build rev_map)
qed

end
