(* ===== verification/SeededRng.thy ===== *)
theory SeededRng
  imports Prelude "HOL-Library.Word"
begin

unbundle bit_operations_syntax

text \<open>
  Randomness: the FNV-1a seed and the xorshift32 generator of \<open>dice/random.ts\<close>, the dice of
  \<open>dice/dice.ts\<close>, and the decks and hands of \<open>cards/deck.ts\<close> and \<open>cards/hand.ts\<close>.
  JavaScript's bitwise operators work on 32-bit integers, so the generator's state is a
  \<^typ>\<open>32 word\<close>. Everything that consumes randomness is written against the
  \<open>RandomSource\<close> interface and is proved in the locale \<open>random_source\<close>, of which the seeded
  generator is the instance.
\<close>

section \<open>Seeds (random.ts: seedFromString)\<close>

text \<open>
  \<open>charCodeAt\<close> yields the character's code; the strings of the model hold characters below 256.
  \<open>Math.imul\<close> is multiplication modulo \<open>2 ^ 32\<close>.
\<close>

definition fnv_step :: "32 word \<Rightarrow> char \<Rightarrow> 32 word" where
  "fnv_step h c = (h XOR of_nat (of_char c)) * 16777619"

definition seedFromString :: "string \<Rightarrow> 32 word" where
  "seedFromString s = (let h = foldl fnv_step 2166136261 s in if h = 0 then 1 else h)"

lemma seedFromString_nonzero: "seedFromString s \<noteq> 0"
  by (simp add: seedFromString_def Let_def)

section \<open>The generator (random.ts: SeededRandom)\<close>

type_synonym seeded = "32 word"

definition newSeededRandom :: "32 word \<Rightarrow> seeded" where
  "newSeededRandom seed = (if seed = 0 then 1 else seed)"

definition xorshift :: "32 word \<Rightarrow> 32 word" where
  "xorshift x0 =
     (let x1 = x0 XOR push_bit 13 x0;
          x2 = x1 XOR drop_bit 17 x1
      in x2 XOR push_bit 5 x2)"

text \<open>\<open>next\<close>: the new state read as an unsigned number, divided by \<open>2 ^ 32\<close>.\<close>

definition rng_next :: "seeded \<Rightarrow> real \<times> seeded" where
  "rng_next st = (let x = xorshift st in (real (unat x) / 4294967296, x))"

definition intInRange :: "int \<Rightarrow> int \<Rightarrow> (seeded, int) effect" where
  "intInRange mn mx st =
     (if mx < mn then (Inl (MaxLessThanMin mx mn), st)
      else let (r, st') = rng_next st in (Inr (mn + \<lfloor>r * real_of_int (mx - mn + 1)\<rfloor>), st'))"

lemma xor_zero_eq: "x XOR y = 0 \<Longrightarrow> x = y" for x y :: "'a::len word"
  by (metis xor.assoc xor.left_neutral xor.right_neutral xor_self_eq)

lemma xor_push_bit_zero:
  fixes x :: "'a::len word"
  assumes "0 < n" "x XOR push_bit n x = 0"
  shows "x = 0"
proof (rule bit_eqI)
  fix k
  have eq: "x = push_bit n x" by (rule xor_zero_eq) (rule assms(2))
  have "\<not> bit x k"
  proof (induction k rule: less_induct)
    case (less k)
    have "bit x k \<longleftrightarrow> bit (push_bit n x) k" using eq by simp
    also have "\<dots> \<longrightarrow> n \<le> k \<and> bit x (k - n)" by (simp add: bit_push_bit_iff)
    finally show ?case using less [of "k - n"] assms(1) by auto
  qed
  then show "bit x k \<longleftrightarrow> bit 0 k" by simp
qed

lemma xor_drop_bit_zero:
  fixes x :: "'a::len word"
  assumes "0 < n" "x XOR drop_bit n x = 0"
  shows "x = 0"
proof (rule bit_eqI)
  fix k
  have eq: "x = drop_bit n x" by (rule xor_zero_eq) (rule assms(2))
  have "\<not> bit x k"
  proof (induction "LENGTH('a) - k" arbitrary: k rule: less_induct)
    case less
    show ?case
    proof (cases "k < LENGTH('a)")
      case True
      have "bit x k \<longleftrightarrow> bit (drop_bit n x) k" using eq by simp
      also have "\<dots> \<longleftrightarrow> bit x (n + k)" by (simp add: bit_drop_bit_eq)
      finally show ?thesis using less [of "n + k"] assms(1) True by auto
    next
      case False
      then show ?thesis by (meson bit_imp_le_length)
    qed
  qed
  then show "bit x k \<longleftrightarrow> bit 0 k" by simp
qed

lemma xorshift_nonzero: "x \<noteq> 0 \<Longrightarrow> xorshift x \<noteq> 0"
  unfolding xorshift_def Let_def
  by (metis xor_push_bit_zero xor_drop_bit_zero zero_less_numeral)

lemma newSeededRandom_nonzero: "newSeededRandom s \<noteq> 0"
  by (simp add: newSeededRandom_def)

lemma intInRange_nonzero: "st \<noteq> 0 \<Longrightarrow> snd (intInRange mn mx st) \<noteq> 0"
  by (simp add: intInRange_def rng_next_def Let_def xorshift_nonzero)

text \<open>The real-number formula is an integer division, the form that evaluates.\<close>

lemma floor_scale: "\<lfloor>real (unat x) / 4294967296 * real_of_int k\<rfloor> = (uint x * k) div 4294967296" for x :: "32 word"
proof -
  have "real (unat x) / 4294967296 * real_of_int k = real_of_int (uint x * k) / real_of_int 4294967296"
    by (simp flip: uint_nat)
  then show ?thesis by (simp only: floor_divide_of_int_eq)
qed

lemma intInRange_div:
  "intInRange mn mx st =
     (if mx < mn then (Inl (MaxLessThanMin mx mn), st)
      else (Inr (mn + (uint (xorshift st) * (mx - mn + 1)) div 4294967296), xorshift st))"
  by (simp only: intInRange_def rng_next_def Let_def prod.case floor_scale)

lemma intInRange_bounds:
  assumes "mn \<le> mx"
  obtains v where "intInRange mn mx st = (Inr v, xorshift st)" "mn \<le> v" "v \<le> mx"
proof -
  define k where "k = mx - mn + 1"
  have k: "0 < k" using assms by (simp add: k_def)
  have "uint (xorshift st) < 4294967296"
    using uint_lt2p [of "xorshift st"] by simp
  then have "uint (xorshift st) * k < k * 4294967296"
    using k by (simp add: mult.commute)
  then have "(uint (xorshift st) * k) div 4294967296 < k"
    by (simp add: div_less_iff_less_mult)
  moreover have "0 \<le> (uint (xorshift st) * k) div 4294967296"
    using k by (simp add: pos_imp_zdiv_nonneg_iff)
  ultimately show ?thesis
    using assms by (intro that [of "mn + (uint (xorshift st) * k) div 4294967296"])
      (simp_all add: intInRange_div k_def)
qed

section \<open>The RandomSource interface and its clients\<close>

type_synonym 'g int_in_range = "int \<Rightarrow> int \<Rightarrow> ('g, int) effect"

subsection \<open>Dice (dice.ts)\<close>

record die_roll =
  dr_sides :: int
  dr_value :: int

record dice_result =
  dice_rolls :: "die_roll list"
  dice_sum :: int

fun roll_loop :: "'g int_in_range \<Rightarrow> nat \<Rightarrow> int \<Rightarrow> die_roll list \<Rightarrow> int \<Rightarrow> ('g, dice_result) effect" where
  "roll_loop rng 0 sides rolls acc g = (Inr \<lparr>dice_rolls = rolls, dice_sum = acc\<rparr>, g)"
| "roll_loop rng (Suc n) sides rolls acc g =
     (case rng 1 sides g of
        (Inl e, g') \<Rightarrow> (Inl e, g')
      | (Inr v, g') \<Rightarrow> roll_loop rng n sides (rolls @ [\<lparr>dr_sides = sides, dr_value = v\<rparr>]) (acc + v) g')"

definition rollDice :: "'g int_in_range \<Rightarrow> int \<Rightarrow> int \<Rightarrow> ('g, dice_result) effect" where
  "rollDice rng n_dice sides g =
     (if n_dice \<le> 0 then (Inl (DiceCount n_dice), g)
      else if sides \<le> 1 then (Inl (DiceSides sides), g)
      else roll_loop rng (nat n_dice) sides [] 0 g)"

subsection \<open>Decks (deck.ts) and hands (hand.ts)\<close>

record card =
  card_id :: string
  card_kind :: string
  card_name :: string

record 'c deck =
  drawPile :: "'c list"
  discardPile :: "'c list"

definition newDeck :: "'c list \<Rightarrow> 'c deck" where
  "newDeck cards = \<lparr>drawPile = cards, discardPile = []\<rparr>"

definition deckSize :: "'c deck \<Rightarrow> nat" where
  "deckSize d = length (drawPile d)"

definition discardSize :: "'c deck \<Rightarrow> nat" where
  "discardSize d = length (discardPile d)"

definition deckIsEmpty :: "'c deck \<Rightarrow> bool" where
  "deckIsEmpty d = (length (drawPile d) = 0)"

text \<open>The loop of \<open>shuffle\<close> with its index \<open>i\<close> counting down to 1.\<close>

fun shuffle_loop :: "'g int_in_range \<Rightarrow> nat \<Rightarrow> 'c list \<Rightarrow> 'g \<Rightarrow> (exn + unit) \<times> 'c list \<times> 'g" where
  "shuffle_loop rng 0 xs g = (Inr (), xs, g)"
| "shuffle_loop rng (Suc i) xs g =
     (case rng 0 (int (Suc i)) g of
        (Inl e, g') \<Rightarrow> (Inl e, xs, g')
      | (Inr j, g') \<Rightarrow> shuffle_loop rng i (swap (Suc i) (nat j) xs) g')"

definition shuffleDeck :: "'g int_in_range \<Rightarrow> 'c deck \<Rightarrow> 'g \<Rightarrow> (exn + unit) \<times> 'c deck \<times> 'g" where
  "shuffleDeck rng d g =
     (case shuffle_loop rng (length (drawPile d) - 1) (drawPile d) g of
        (r, xs, g') \<Rightarrow> (r, d\<lparr>drawPile := xs\<rparr>, g'))"

definition drawCard :: "'c deck \<Rightarrow> 'c option \<times> 'c deck" where
  "drawCard d = (case drawPile d of [] \<Rightarrow> (None, d) | c # cs \<Rightarrow> (Some c, d\<lparr>drawPile := cs\<rparr>))"

definition discard :: "'c \<Rightarrow> 'c deck \<Rightarrow> 'c deck" where
  "discard c d = d\<lparr>discardPile := discardPile d @ [c]\<rparr>"

definition recycleDiscards :: "'c deck \<Rightarrow> 'c deck" where
  "recycleDiscards d = d\<lparr>drawPile := drawPile d @ discardPile d, discardPile := []\<rparr>"

type_synonym hand = "card list"

definition handSize :: "hand \<Rightarrow> nat" where
  "handSize h = length h"

definition handAdd :: "card \<Rightarrow> hand \<Rightarrow> hand" where
  "handAdd c h = h @ [c]"

text \<open>\<open>findIndex\<close> and \<open>splice(idx, 1)\<close>: the first card with the identifier is taken out.\<close>

fun handRemove :: "string \<Rightarrow> hand \<Rightarrow> card option \<times> hand" where
  "handRemove i [] = (None, [])"
| "handRemove i (c # cs) =
     (if card_id c = i then (Some c, cs) else (case handRemove i cs of (r, cs') \<Rightarrow> (r, c # cs')))"

definition countByKind :: "string \<Rightarrow> hand \<Rightarrow> nat" where
  "countByKind k h = length (filter (\<lambda>c. card_kind c = k) h)"

definition deckCards :: "'c deck \<Rightarrow> 'c multiset" where
  "deckCards d = mset (drawPile d) + mset (discardPile d)"

lemma drawCard_cards: "drawCard d = (Some c, d') \<Longrightarrow> deckCards d = add_mset c (deckCards d')"
  by (auto simp: drawCard_def deckCards_def split: list.splits)

lemma discard_cards: "deckCards (discard c d) = add_mset c (deckCards d)"
  by (simp add: discard_def deckCards_def)

lemma recycle_cards: "deckCards (recycleDiscards d) = deckCards d"
  by (simp add: recycleDiscards_def deckCards_def)

lemma handRemove_mset:
  "handRemove i h = (r, h') \<Longrightarrow>
   (case r of None \<Rightarrow> h' = h \<and> i \<notin> card_id ` set h | Some c \<Rightarrow> card_id c = i \<and> mset h = add_mset c (mset h'))"
  by (induction h arbitrary: r h') (auto split: if_splits prod.splits option.splits)

subsection \<open>What the interface promises, and the clients under it\<close>

locale random_source =
  fixes rng :: "'g int_in_range"
  assumes in_range: "mn \<le> mx \<Longrightarrow> \<exists>v g'. rng mn mx g = (Inr v, g') \<and> mn \<le> v \<and> v \<le> mx"
begin

lemma shuffle_loop_perm:
  "i < length xs \<or> i = 0 \<Longrightarrow>
   \<exists>ys g'. shuffle_loop rng i xs g = (Inr (), ys, g') \<and> mset ys = mset xs \<and> length ys = length xs"
proof (induction i arbitrary: xs g)
  case (Suc i)
  obtain j g' where j: "rng 0 (int (Suc i)) g = (Inr j, g')" "0 \<le> j" "j \<le> int (Suc i)"
    using in_range [of 0 "int (Suc i)" g] by auto
  have len: "Suc i < length xs" "nat j < length xs" using j Suc.prems by auto
  obtain ys g'' where "shuffle_loop rng i (swap (Suc i) (nat j) xs) g' = (Inr (), ys, g'')"
      "mset ys = mset (swap (Suc i) (nat j) xs)" "length ys = length xs"
    using Suc.IH [of "swap (Suc i) (nat j) xs" g'] len by auto
  with j len show ?case by simp
qed simp

lemma shuffleDeck_cards:
  "\<exists>d' g'. shuffleDeck rng d g = (Inr (), d', g') \<and> deckCards d' = deckCards d \<and> discardPile d' = discardPile d"
  using shuffle_loop_perm [of "length (drawPile d) - 1" "drawPile d" g]
  by (fastforce simp: shuffleDeck_def deckCards_def split: prod.splits)

lemma roll_loop_spec:
  assumes "1 \<le> sides"
  shows "\<exists>rs g'. roll_loop rng n sides rolls acc g =
           (Inr \<lparr>dice_rolls = rolls @ rs, dice_sum = acc + sum_list (map dr_value rs)\<rparr>, g') \<and>
         length rs = n \<and> (\<forall>d \<in> set rs. dr_sides d = sides \<and> 1 \<le> dr_value d \<and> dr_value d \<le> sides)"
proof (induction n arbitrary: rolls acc g)
  case (Suc n)
  obtain v g1 where v: "rng 1 sides g = (Inr v, g1)" "1 \<le> v" "v \<le> sides"
    using in_range [OF assms] by blast
  obtain rs g' where
      "roll_loop rng n sides (rolls @ [\<lparr>dr_sides = sides, dr_value = v\<rparr>]) (acc + v) g1 =
        (Inr \<lparr>dice_rolls = (rolls @ [\<lparr>dr_sides = sides, dr_value = v\<rparr>]) @ rs,
              dice_sum = (acc + v) + sum_list (map dr_value rs)\<rparr>, g')"
      "length rs = n" "\<forall>d \<in> set rs. dr_sides d = sides \<and> 1 \<le> dr_value d \<and> dr_value d \<le> sides"
    using Suc.IH by blast
  with v show ?case
    by (intro exI [of _ "\<lparr>dr_sides = sides, dr_value = v\<rparr> # rs"] exI [of _ g']) simp
qed simp

lemma sum_rolls_bounds:
  "\<forall>d \<in> set rs. 1 \<le> dr_value d \<and> dr_value d \<le> sides \<Longrightarrow>
   int (length rs) \<le> sum_list (map dr_value rs) \<and> sum_list (map dr_value rs) \<le> int (length rs) * sides"
  by (induction rs) (auto simp: algebra_simps)

lemma rollDice_spec:
  assumes "0 < n_dice" "1 < sides"
  shows "\<exists>r g'. rollDice rng n_dice sides g = (Inr r, g') \<and> int (length (dice_rolls r)) = n_dice \<and>
           dice_sum r = sum_list (map dr_value (dice_rolls r)) \<and> n_dice \<le> dice_sum r \<and> dice_sum r \<le> n_dice * sides \<and>
           (\<forall>d \<in> set (dice_rolls r). dr_sides d = sides \<and> 1 \<le> dr_value d \<and> dr_value d \<le> sides)"
proof -
  obtain rs g' where
    r: "roll_loop rng (nat n_dice) sides [] 0 g = (Inr \<lparr>dice_rolls = rs, dice_sum = sum_list (map dr_value rs)\<rparr>, g')"
       "length rs = nat n_dice" "\<forall>d \<in> set rs. dr_sides d = sides \<and> 1 \<le> dr_value d \<and> dr_value d \<le> sides"
    using roll_loop_spec [of sides "nat n_dice" "[]" 0 g] assms by auto
  with sum_rolls_bounds [of rs sides] assms show ?thesis
    by (auto simp: rollDice_def)
qed

end

interpretation seeded: random_source intInRange
proof
  fix mn mx :: int and g
  assume "mn \<le> mx"
  then obtain v where "intInRange mn mx g = (Inr v, xorshift g)" "mn \<le> v" "v \<le> mx"
    by (rule intInRange_bounds)
  then show "\<exists>v g'. intInRange mn mx g = (Inr v, g') \<and> mn \<le> v \<and> v \<le> mx" by blast
qed

section \<open>Properties of the generator, the dice and the decks\<close>

lemma xorshift_xor: "xorshift (a XOR b) = xorshift a XOR xorshift b"
  by (simp add: xorshift_def Let_def push_bit_xor drop_bit_xor xor.assoc xor.commute xor.left_commute)

text \<open> The generator never reaches the absorbing state 0, whatever the seed and however often
  it is advanced, and no two states ever merge. \<close>
lemma xorshift_never_sticks:
  "bij xorshift \<and> (xorshift ^^ n) (newSeededRandom seed) \<noteq> 0 \<and> (xorshift ^^ n) (newSeededRandom (seedFromString s)) \<noteq> 0"
proof -
  have "inj xorshift"
  proof (rule injI)
    fix a b :: "32 word"
    assume "xorshift a = xorshift b"
    then have "xorshift (a XOR b) = 0" by (simp add: xorshift_xor)
    then have "a XOR b = 0" using xorshift_nonzero by blast
    then show "a = b" by (rule xor_zero_eq)
  qed
  then have "bij xorshift" by (simp add: bij_def finite_UNIV_inj_surj)
  moreover have "(xorshift ^^ n) x \<noteq> 0" if "x \<noteq> 0" for x
    using that by (induction n) (auto simp: xorshift_nonzero)
  ultimately show ?thesis using newSeededRandom_nonzero by blast
qed

text \<open> A draw from a non-empty range returns a value of the range and advances the state by one
  step; an empty range is refused and leaves the state as it was. \<close>
lemma intInRange_in_bounds:
  "case intInRange mn mx st of
     (Inr v, st') \<Rightarrow> mn \<le> v \<and> v \<le> mx \<and> st' = xorshift st
   | (Inl e, st') \<Rightarrow> mx < mn \<and> e = MaxLessThanMin mx mn \<and> st' = st"
proof (cases "mx < mn")
  case True
  then show ?thesis by (simp add: intInRange_def)
next
  case False
  then obtain v where "intInRange mn mx st = (Inr v, xorshift st)" "mn \<le> v" "v \<le> mx"
    using intInRange_bounds [of mn mx st] by auto
  then show ?thesis by simp
qed

text \<open> Rolling dice returns one value in the range of the die for each die, and their sum; a
  call without dice or with a die of fewer than two sides is refused. \<close>
lemma rollDice_total:
  "case rollDice intInRange n sides g of
     (Inr r, _) \<Rightarrow> 0 < n \<and> 1 < sides \<and> int (length (dice_rolls r)) = n \<and>
        dice_sum r = sum_list (map dr_value (dice_rolls r)) \<and> n \<le> dice_sum r \<and> dice_sum r \<le> n * sides \<and>
        list_all (\<lambda>d. dr_sides d = sides \<and> 1 \<le> dr_value d \<and> dr_value d \<le> sides) (dice_rolls r)
   | (Inl e, g') \<Rightarrow> g' = g \<and> (if n \<le> 0 then e = DiceCount n else sides \<le> 1 \<and> e = DiceSides sides)"
proof (cases "0 < n \<and> 1 < sides")
  case True
  with seeded.rollDice_spec [of n sides g] show ?thesis by (auto simp: list_all_iff)
next
  case False
  then show ?thesis by (auto simp: rollDice_def)
qed

text \<open> Shuffling a deck always succeeds, keeps every card and leaves the discard pile alone, so
  that recycling the discards and shuffling loses no card. \<close>
lemma shuffleDeck_permutes:
  "\<exists>d' g'. shuffleDeck intInRange (recycleDiscards d) g = (Inr (), d', g') \<and> discardPile d' = [] \<and>
     mset (drawPile d') = mset (drawPile d) + mset (discardPile d)"
proof -
  obtain d' g' where "shuffleDeck intInRange (recycleDiscards d) g = (Inr (), d', g')"
    "deckCards d' = deckCards (recycleDiscards d)" "discardPile d' = discardPile (recycleDiscards d)"
    using seeded.shuffleDeck_cards by blast
  then show ?thesis by (simp add: recycle_cards) (simp add: deckCards_def recycleDiscards_def)
qed

end
