(* ===== verification/Inventory.thy ===== *)
theory Inventory
  imports Prelude
begin

text \<open>
  The bag of resources, \<open>resources/inventory.ts\<close> (and \<open>resource-pool.ts\<close>, which adds
  nothing to it). Quantities are the integers the scenarios use. \<open>add\<close> and \<open>remove\<close>
  mutate the bag and throw on a bad quantity; the model returns the bag the call leaves behind.
\<close>

section \<open>The bag (inventory.ts)\<close>

type_synonym inventory = "(string, int) jsmap"

definition newInventory :: "(string \<times> int) list \<Rightarrow> inventory" where
  "newInventory initial = fold (\<lambda>(k, v). jput k v) initial []"

definition inv_get :: "inventory \<Rightarrow> string \<Rightarrow> int" where
  "inv_get bag r = (case jget bag r of Some n \<Rightarrow> n | None \<Rightarrow> 0)"

definition inv_has :: "inventory \<Rightarrow> string \<Rightarrow> int \<Rightarrow> bool" where
  "inv_has bag r n = (inv_get bag r \<ge> n)"

definition inv_add :: "string \<Rightarrow> int \<Rightarrow> (inventory, unit) effect" where
  "inv_add r n bag =
     (if n < 0 then (Inl (NegativeQuantity r), bag)
      else (Inr (), jput r (inv_get bag r + n) bag))"

definition inv_remove :: "string \<Rightarrow> int \<Rightarrow> (inventory, unit) effect" where
  "inv_remove r n bag =
     (if n < 0 then (Inl (NegativeQuantity r), bag)
      else let current = inv_get bag r
           in if current < n then (Inl (InsufficientResource r current n), bag)
              else (Inr (), jput r (current - n) bag))"

definition inv_toJSON :: "inventory \<Rightarrow> (string \<times> int) list" where
  "inv_toJSON bag = bag"

definition inv_total :: "inventory \<Rightarrow> int" where
  "inv_total bag = foldl (\<lambda>acc v. acc + v) 0 (jvals bag)"

text \<open>\<open>ResourcePool\<close> is \<open>Inventory\<close> under another name.\<close>

type_synonym resource_pool = inventory

section \<open>Laws\<close>

lemma inv_get_jput [simp]: "inv_get (jput r n bag) r' = (if r' = r then n else inv_get bag r')"
  by (simp add: inv_get_def)

lemma inv_get_Nil [simp]: "inv_get [] r = 0"
  by (simp add: inv_get_def)

definition inv_ok :: "inventory \<Rightarrow> bool" where
  "inv_ok bag \<longleftrightarrow> (\<forall>r. 0 \<le> inv_get bag r)"

lemma inv_ok_Nil [simp]: "inv_ok []"
  by (simp add: inv_ok_def)

lemma inv_okD: "inv_ok bag \<Longrightarrow> 0 \<le> inv_get bag r"
  by (simp add: inv_ok_def)

lemma inv_add_ok: "0 \<le> n \<Longrightarrow> inv_add r n bag = (Inr (), jput r (inv_get bag r + n) bag)"
  by (simp add: inv_add_def)

lemma inv_remove_ok:
  "0 \<le> n \<Longrightarrow> n \<le> inv_get bag r \<Longrightarrow> inv_remove r n bag = (Inr (), jput r (inv_get bag r - n) bag)"
  by (simp add: inv_remove_def Let_def)

lemma inv_add_preserves: "inv_ok bag \<Longrightarrow> inv_ok (snd (inv_add r n bag))"
  by (auto simp: inv_ok_def inv_add_def add_nonneg_nonneg)

lemma inv_remove_preserves: "inv_ok bag \<Longrightarrow> inv_ok (snd (inv_remove r n bag))"
  by (auto simp: inv_ok_def inv_remove_def Let_def)

lemma inv_jput_ok: "inv_ok bag \<Longrightarrow> 0 \<le> n \<Longrightarrow> inv_ok (jput r n bag)"
  by (auto simp: inv_ok_def)

lemma inv_error_unchanged:
  "inv_add r n bag = (Inl e, bag') \<Longrightarrow> bag' = bag"
  "inv_remove r n bag = (Inl e, bag') \<Longrightarrow> bag' = bag"
  by (auto simp: inv_add_def inv_remove_def Let_def split: if_splits)

lemma inv_remove_Inr_iff: "fst (inv_remove r n bag) = Inr () \<longleftrightarrow> 0 \<le> n \<and> inv_has bag r n"
  by (auto simp: inv_remove_def inv_has_def Let_def)

lemma inv_total_sum: "inv_total bag = sum_list (jvals bag)"
proof -
  have "foldl (\<lambda>acc v. acc + v) a vs = a + sum_list vs" for a :: int and vs
    by (induction vs arbitrary: a) auto
  then show ?thesis by (simp add: inv_total_def)
qed

lemma sum_jput:
  "distinct (jkeys bag) \<Longrightarrow> sum_list (jvals (jput r n bag)) = sum_list (jvals bag) - inv_get bag r + n"
  by (induction bag) (auto simp: inv_get_def map_of_eq_None_iff image_iff split: option.splits)

lemma inv_total_add:
  "distinct (jkeys bag) \<Longrightarrow> 0 \<le> n \<Longrightarrow> inv_total (snd (inv_add r n bag)) = inv_total bag + n"
  by (simp add: inv_total_sum inv_add_def sum_jput)

lemma inv_total_remove:
  "distinct (jkeys bag) \<Longrightarrow> 0 \<le> n \<Longrightarrow> inv_has bag r n \<Longrightarrow>
   inv_total (snd (inv_remove r n bag)) = inv_total bag - n"
  by (simp add: inv_total_sum inv_remove_def Let_def inv_has_def sum_jput)

section \<open>Paying a cost table\<close>

text \<open>
  \<open>for (const [res, qty] of Object.entries(cost)) bag.remove(res, qty)\<close>, the loop of the recruit
  and build executors, and the validators' check that every entry is affordable.
\<close>

fun payCost :: "(string \<times> int) list \<Rightarrow> (inventory, unit) effect" where
  "payCost [] bag = (Inr (), bag)"
| "payCost ((r, n) # cs) bag =
     (case inv_remove r n bag of
        (Inl e, bag') \<Rightarrow> (Inl e, bag')
      | (Inr _, bag') \<Rightarrow> payCost cs bag')"

definition firstShort :: "(string \<times> int) list \<Rightarrow> inventory \<Rightarrow> (string \<times> int) option" where
  "firstShort cost bag = find (\<lambda>(r, n). inv_get bag r < n) cost"

definition cost_wf :: "(string \<times> int) list \<Rightarrow> bool" where
  "cost_wf cost \<longleftrightarrow> distinct (map fst cost) \<and> (\<forall>(r, n) \<in> set cost. 0 \<le> n)"

definition cost_of :: "(string \<times> int) list \<Rightarrow> string \<Rightarrow> int" where
  "cost_of cost r = (case map_of cost r of Some n \<Rightarrow> n | None \<Rightarrow> 0)"

lemma firstShort_None: "firstShort cost bag = None \<longleftrightarrow> (\<forall>(r, n) \<in> set cost. n \<le> inv_get bag r)"
  by (fastforce simp: firstShort_def find_None_iff linorder_not_less)

lemma payCost_ok:
  assumes "cost_wf cost" "firstShort cost bag = None"
  shows "\<exists>bag'. payCost cost bag = (Inr (), bag') \<and> (\<forall>r. inv_get bag' r = inv_get bag r - cost_of cost r)"
  using assms
proof (induction cost arbitrary: bag)
  case Nil
  then show ?case by (simp add: cost_of_def)
next
  case (Cons c cost)
  obtain r n where c: "c = (r, n)" by (cases c)
  let ?bag = "jput r (inv_get bag r - n) bag"
  have rn: "0 \<le> n" "n \<le> inv_get bag r" and notin: "r \<notin> fst ` set cost" and wf: "cost_wf cost"
    using Cons.prems by (auto simp: c cost_wf_def firstShort_None)
  have "firstShort cost ?bag = None"
    using Cons.prems(2) notin by (force simp: c firstShort_None)
  from Cons.IH [OF wf this] obtain bag' where
    p: "payCost cost ?bag = (Inr (), bag')" "\<forall>r. inv_get bag' r = inv_get ?bag r - cost_of cost r"
    by blast
  have "map_of cost r = None" using notin by (simp add: map_of_eq_None_iff)
  with p rn show ?case by (auto simp: c inv_remove_ok cost_of_def)
qed

lemma payCost_inv_ok: "inv_ok bag \<Longrightarrow> inv_ok (snd (payCost cost bag))"
proof (induction cost bag rule: payCost.induct)
  case (2 r n cs bag)
  then show ?case
    using inv_remove_preserves [of bag r n]
    by (cases "inv_remove r n bag"; cases "fst (inv_remove r n bag)") auto
qed simp

section \<open>Properties of inventories\<close>

lemma payCost_affordable:
  "distinct (map fst cost) \<Longrightarrow> fst (payCost cost bag) = Inr () \<Longrightarrow> firstShort cost bag = None"
proof (induction cost arbitrary: bag)
  case (Cons e cost)
  obtain r n where e: "e = (r, n)" by (cases e)
  with Cons.prems have n: "0 \<le> n" "n \<le> inv_get bag r"
    by (auto simp: inv_remove_def Let_def split: if_splits)
  with Cons.prems e have "fst (payCost cost (jput r (inv_get bag r - n) bag)) = Inr ()" by (simp add: inv_remove_ok)
  from Cons.IH [OF _ this] Cons.prems(1) e have "\<forall>(x, k) \<in> set cost. k \<le> inv_get (jput r (inv_get bag r - n) bag) x"
    by (simp add: firstShort_None)
  with Cons.prems(1) e n show ?case by (force simp: firstShort_None image_iff)
qed (simp add: firstShort_None)

text \<open> Paying a cost succeeds exactly when no resource of it is short, and then takes exactly
  the cost and nothing else. \<close>
lemma payCost_iff_affordable:
  assumes "cost_wf cost"
  shows "(fst (payCost cost bag) = Inr () \<longleftrightarrow> firstShort cost bag = None) \<and>
    (firstShort cost bag = None \<longrightarrow> (\<forall>r. inv_get (snd (payCost cost bag)) r = inv_get bag r - cost_of cost r))"
  using payCost_ok [OF assms, of bag] payCost_affordable [of cost bag] assms by (auto simp: cost_wf_def)

lemma payCost_iff_affordable_witness:
  "fst (payCost [(''wood'', 2), (''iron'', 1)] [(''wood'', 5), (''iron'', 0)]) \<noteq> Inr () \<and>
   inv_get (snd (payCost [(''wood'', 2), (''iron'', 1)] [(''wood'', 5), (''iron'', 1)])) ''wood'' = 3"
  using payCost_iff_affordable [of "[(''wood'', 2), (''iron'', 1)]" "[(''wood'', 5), (''iron'', 0)]"]
    payCost_iff_affordable [of "[(''wood'', 2), (''iron'', 1)]" "[(''wood'', 5), (''iron'', 1)]"]
  by (simp add: cost_wf_def firstShort_def inv_get_def cost_of_def)

text \<open>A sequence of additions and removals, each of which may be refused.\<close>

datatype stock_op = Add string int | Remove string int

fun stock_step :: "stock_op \<Rightarrow> inventory \<Rightarrow> inventory" where
  "stock_step (Add r n) bag = snd (inv_add r n bag)"
| "stock_step (Remove r n) bag = snd (inv_remove r n bag)"

text \<open> No sequence of additions and removals, whatever their quantities, drives a stock below
  zero: what would is refused and changes nothing. \<close>
lemma stocks_never_negative:
  "0 \<le> inv_get (fold stock_step ops []) r \<and>
   (\<forall>bag op. case op of Add x n \<Rightarrow> n < 0 \<longrightarrow> stock_step op bag = bag
                     | Remove x n \<Rightarrow> n < 0 \<or> inv_get bag x < n \<longrightarrow> stock_step op bag = bag)"
proof -
  have "inv_ok (fold stock_step ops bag)" if "inv_ok bag" for bag
    using that
  proof (induction ops arbitrary: bag)
    case (Cons op ops)
    then show ?case using inv_add_preserves inv_remove_preserves by (cases op) auto
  qed simp
  then show ?thesis by (auto simp: inv_okD inv_add_def inv_remove_def Let_def split: stock_op.split)
qed

lemma stocks_never_negative_witness:
  "0 \<le> inv_get (fold stock_step [Remove ''gold'' 3, Add ''gold'' 2, Remove ''gold'' 5] []) ''gold'' \<and>
   stock_step (Remove ''gold'' 5) [(''gold'', 2)] = [(''gold'', 2)]"
  using stocks_never_negative [THEN conjunct1, of "[Remove ''gold'' 3, Add ''gold'' 2, Remove ''gold'' 5]" "''gold''"]
    stocks_never_negative [THEN conjunct2, THEN spec, THEN spec, of "Remove ''gold'' 5" "[(''gold'', 2)]"]
  by (simp add: inv_get_def)

end
