(* ===== verification/Players.thy ===== *)
theory Players
  imports Prelude
begin

text \<open>
  The roster, \<open>players/player.ts\<close> and \<open>players/player-manager.ts\<close>. The manager stores its
  own copies of the players sorted by seat and an index by identifier that refers to the same
  objects: the model keeps the copies in a list and the index as positions in it, so that
  eliminating a player through the index is visible in the list.
\<close>

datatype player_status = Active | Eliminated

record player =
  pl_id :: string
  pl_displayName :: string
  pl_color :: string
  pl_seat :: int
  pl_status :: "player_status option"

record player_manager =
  pm_bySeat :: "player list"
  pm_byId :: "(string, nat) jsmap"

definition newPlayerManager :: "player list \<Rightarrow> player_manager" where
  "newPlayerManager players =
     (let seated = map (\<lambda>p. p\<lparr>pl_status := Some Active\<rparr>) (sort_key pl_seat players)
      in \<lparr>pm_bySeat = seated,
          pm_byId = fold (\<lambda>(i, p). jput (pl_id p) i) (enumerate 0 seated) []\<rparr>)"

definition pm_all :: "player_manager \<Rightarrow> player list" where
  "pm_all m = pm_bySeat m"

definition is_active :: "player \<Rightarrow> bool" where
  "is_active p = (pl_status p \<noteq> Some Eliminated)"

definition pm_active :: "player_manager \<Rightarrow> player list" where
  "pm_active m = filter is_active (pm_bySeat m)"

definition pm_count :: "player_manager \<Rightarrow> nat" where
  "pm_count m = length (pm_bySeat m)"

definition pm_get :: "player_manager \<Rightarrow> string \<Rightarrow> player option" where
  "pm_get m i = (case jget (pm_byId m) i of None \<Rightarrow> None | Some k \<Rightarrow> Some (pm_bySeat m ! k))"

definition pm_require :: "player_manager \<Rightarrow> string \<Rightarrow> exn + player" where
  "pm_require m i = (case pm_get m i of None \<Rightarrow> Inl (UnknownPlayer i) | Some p \<Rightarrow> Inr p)"

definition pm_atSeat :: "player_manager \<Rightarrow> int \<Rightarrow> player option" where
  "pm_atSeat m s = find (\<lambda>p. pl_seat p = s) (pm_bySeat m)"

definition isEliminated :: "player_manager \<Rightarrow> string \<Rightarrow> bool" where
  "isEliminated m i = (case pm_get m i of None \<Rightarrow> False | Some p \<Rightarrow> pl_status p = Some Eliminated)"

definition eliminate :: "string \<Rightarrow> (player_manager, unit) effect" where
  "eliminate i m =
     (case jget (pm_byId m) i of
        None \<Rightarrow> (Inl (UnknownPlayer i), m)
      | Some k \<Rightarrow> (Inr (), m\<lparr>pm_bySeat := (pm_bySeat m)[k := (pm_bySeat m ! k)\<lparr>pl_status := Some Eliminated\<rparr>]\<rparr>))"

section \<open>The index refers to the roster\<close>

definition pm_wf :: "player_manager \<Rightarrow> bool" where
  "pm_wf m \<longleftrightarrow> distinct (map pl_id (pm_bySeat m)) \<and> sorted (map pl_seat (pm_bySeat m)) \<and>
     (\<forall>i k. jget (pm_byId m) i = Some k \<longleftrightarrow> k < length (pm_bySeat m) \<and> pl_id (pm_bySeat m ! k) = i)"

lemma byId_fold:
  assumes "distinct (map pl_id ps)"
  shows "jget (fold (\<lambda>(i, p). jput (pl_id p) i) (enumerate n ps) m) i = Some k \<longleftrightarrow>
     (n \<le> k \<and> k < n + length ps \<and> pl_id (ps ! (k - n)) = i) \<or> (i \<notin> pl_id ` set ps \<and> jget m i = Some k)"
  using assms
proof (induction ps arbitrary: n m)
  case (Cons p ps)
  then have IH: "jget (fold (\<lambda>(i, p). jput (pl_id p) i) (enumerate (Suc n) ps) (jput (pl_id p) n m)) i = Some k \<longleftrightarrow>
     (Suc n \<le> k \<and> k < Suc n + length ps \<and> pl_id (ps ! (k - Suc n)) = i) \<or>
     (i \<notin> pl_id ` set ps \<and> jget (jput (pl_id p) n m) i = Some k)"
    by simp
  have nth: "Suc n \<le> k \<Longrightarrow> (p # ps) ! (k - n) = ps ! (k - Suc n)"
    by (simp add: nth_Cons' )
  show ?case
  proof (cases "k = n")
    case True
    with IH Cons.prems show ?thesis by auto
  next
    case False
    with IH nth Cons.prems show ?thesis
      by (cases "Suc n \<le> k") (auto simp: image_iff)
  qed
qed auto

lemma pm_wf_new:
  assumes "distinct (map pl_id ps)"
  shows "pm_wf (newPlayerManager ps)"
proof -
  define seated where "seated = map (\<lambda>p. p\<lparr>pl_status := Some Active\<rparr>) (sort_key pl_seat ps)"
  have ids: "map pl_id seated = map pl_id (sort_key pl_seat ps)"
    by (simp add: seated_def)
  have "mset (map pl_id (sort_key pl_seat ps)) = mset (map pl_id ps)"
    by simp
  then have dist: "distinct (map pl_id seated)"
    using assms unfolding ids by (metis mset_eq_imp_distinct_iff)
  have seats: "map pl_seat seated = map pl_seat (sort_key pl_seat ps)"
    by (simp add: seated_def)
  have "sorted (map pl_seat seated)" unfolding seats by simp
  then show ?thesis
    using dist byId_fold [OF dist, of 0 "[]"]
    by (simp add: pm_wf_def newPlayerManager_def Let_def flip: seated_def)
qed

lemma pm_index: "pm_wf m \<Longrightarrow> k < length (pm_bySeat m) \<Longrightarrow> jget (pm_byId m) (pl_id (pm_bySeat m ! k)) = Some k"
  by (simp add: pm_wf_def)

lemma pm_get_iff: "pm_wf m \<Longrightarrow> pm_get m i = Some p \<longleftrightarrow> p \<in> set (pm_bySeat m) \<and> pl_id p = i"
proof
  assume wf: "pm_wf m" and "pm_get m i = Some p"
  then show "p \<in> set (pm_bySeat m) \<and> pl_id p = i"
    by (auto simp: pm_get_def pm_wf_def split: option.splits)
next
  assume wf: "pm_wf m" and "p \<in> set (pm_bySeat m) \<and> pl_id p = i"
  then obtain k where "k < length (pm_bySeat m)" "pm_bySeat m ! k = p" "pl_id p = i"
    by (auto simp: in_set_conv_nth)
  with pm_index [OF wf, of k] show "pm_get m i = Some p" by (simp add: pm_get_def)
qed

lemma pm_get_None: "pm_wf m \<Longrightarrow> pm_get m i = None \<longleftrightarrow> i \<notin> pl_id ` set (pm_bySeat m)"
  using pm_get_iff [of m i] by (metis image_iff not_Some_eq)

lemma pm_bySeat_inj: "pm_wf m \<Longrightarrow> p \<in> set (pm_bySeat m) \<Longrightarrow> p' \<in> set (pm_bySeat m) \<Longrightarrow> pl_id p = pl_id p' \<Longrightarrow> p = p'"
  by (metis option.inject pm_get_iff)

lemma isEliminated_iff: "pm_wf m \<Longrightarrow> isEliminated m i \<longleftrightarrow> (\<exists>p \<in> set (pm_bySeat m). pl_id p = i \<and> \<not> is_active p)"
  unfolding isEliminated_def is_active_def
  by (auto simp: pm_get_iff split: option.splits) (metis option.inject pm_get_iff option.distinct(1))+

lemma all_active_new: "p \<in> set (pm_bySeat (newPlayerManager ps)) \<Longrightarrow> is_active p"
  by (auto simp: newPlayerManager_def Let_def is_active_def)

lemma eliminate_cases:
  assumes "pm_wf m"
  shows "eliminate i m =
     (if i \<in> pl_id ` set (pm_bySeat m)
      then (Inr (), m\<lparr>pm_bySeat := map (\<lambda>p. if pl_id p = i then p\<lparr>pl_status := Some Eliminated\<rparr> else p) (pm_bySeat m)\<rparr>)
      else (Inl (UnknownPlayer i), m))"
proof (cases "jget (pm_byId m) i")
  case None
  then have "i \<notin> pl_id ` set (pm_bySeat m)"
    using pm_index [OF assms] by (fastforce simp: in_set_conv_nth)
  with None show ?thesis by (simp add: eliminate_def)
next
  case (Some k)
  then have k: "k < length (pm_bySeat m)" "pl_id (pm_bySeat m ! k) = i"
    using assms by (auto simp: pm_wf_def)
  have "(pm_bySeat m)[k := (pm_bySeat m ! k)\<lparr>pl_status := Some Eliminated\<rparr>] =
        map (\<lambda>p. if pl_id p = i then p\<lparr>pl_status := Some Eliminated\<rparr> else p) (pm_bySeat m)"
  proof (rule nth_equalityI)
    fix j assume "j < length ((pm_bySeat m)[k := (pm_bySeat m ! k)\<lparr>pl_status := Some Eliminated\<rparr>])"
    then have j: "j < length (pm_bySeat m)" by simp
    have "pl_id (pm_bySeat m ! j) = i \<longleftrightarrow> j = k"
      using assms j k by (auto simp: pm_wf_def distinct_conv_nth)
    then show "(pm_bySeat m)[k := (pm_bySeat m ! k)\<lparr>pl_status := Some Eliminated\<rparr>] ! j =
        map (\<lambda>p. if pl_id p = i then p\<lparr>pl_status := Some Eliminated\<rparr> else p) (pm_bySeat m) ! j"
      using j by (auto simp: nth_list_update)
  qed simp
  with Some k show ?thesis by (auto simp: eliminate_def)
qed

lemma eliminate_wf:
  assumes "pm_wf m" "eliminate i m = (r, m')"
  shows "pm_wf m'"
proof -
  have "pl_id ((if pl_id p = i then p\<lparr>pl_status := Some Eliminated\<rparr> else p)) = pl_id p"
       "pl_seat ((if pl_id p = i then p\<lparr>pl_status := Some Eliminated\<rparr> else p)) = pl_seat p" for p
    by auto
  then have "map pl_id (pm_bySeat m') = map pl_id (pm_bySeat m) \<and> map pl_seat (pm_bySeat m') = map pl_seat (pm_bySeat m)
      \<and> pm_byId m' = pm_byId m"
    using assms by (auto simp: eliminate_cases [OF assms(1)] comp_def split: if_splits)
  then show ?thesis using assms(1) unfolding pm_wf_def
    by (metis length_map nth_map)
qed

lemma isEliminated_eliminate:
  assumes "pm_wf m" "i \<in> pl_id ` set (pm_bySeat m)" "eliminate i m = (r, m')"
  shows "r = Inr ()" "isEliminated m' j \<longleftrightarrow> j = i \<or> isEliminated m j"
proof -
  define f where "f = (\<lambda>p :: player. if pl_id p = i then p\<lparr>pl_status := Some Eliminated\<rparr> else p)"
  have m': "r = Inr ()" "pm_bySeat m' = map f (pm_bySeat m)"
    using assms by (auto simp: eliminate_cases f_def)
  then show "r = Inr ()" by simp
  have f: "pl_id (f p) = pl_id p" "is_active (f p) \<longleftrightarrow> pl_id p \<noteq> i \<and> is_active p" for p
    by (auto simp: f_def is_active_def)
  have "pm_wf m'" using assms eliminate_wf by blast
  then have "isEliminated m' j \<longleftrightarrow> (\<exists>p \<in> set (pm_bySeat m). pl_id p = j \<and> (pl_id p = i \<or> \<not> is_active p))"
    by (simp add: isEliminated_iff m' f)
  also have "\<dots> \<longleftrightarrow> j = i \<or> isEliminated m j"
    using assms(2) by (auto simp: isEliminated_iff [OF assms(1)])
  finally show "isEliminated m' j \<longleftrightarrow> j = i \<or> isEliminated m j" .
qed

lemma pm_active_eliminate:
  assumes "pm_wf m" "eliminate i m = (Inr (), m')"
  shows "map pl_id (pm_active m') = filter (\<lambda>j. j \<noteq> i) (map pl_id (pm_active m))"
proof -
  have m': "pm_bySeat m' = map (\<lambda>p. if pl_id p = i then p\<lparr>pl_status := Some Eliminated\<rparr> else p) (pm_bySeat m)"
    using assms by (auto simp: eliminate_cases split: if_splits)
  have "map pl_id (filter is_active (map (\<lambda>p. if pl_id p = i then p\<lparr>pl_status := Some Eliminated\<rparr> else p) ps)) =
        filter (\<lambda>j. j \<noteq> i) (map pl_id (filter is_active ps))" for ps
    by (induction ps) (auto simp: is_active_def)
  then show ?thesis by (simp add: pm_active_def m')
qed

section \<open>Properties of the roster\<close>

text \<open> Eliminating a seated player marks that player and no other, removes exactly them from the
  active players in seat order, and keeps the roster's size; an unknown player is refused. \<close>
lemma elimination_exact:
  assumes "pm_wf m"
  shows "case eliminate i m of
     (Inr _, m') \<Rightarrow> i \<in> pl_id ` set (pm_bySeat m) \<and> pm_wf m' \<and> pm_count m' = pm_count m \<and>
        (\<forall>j. isEliminated m' j \<longleftrightarrow> j = i \<or> isEliminated m j) \<and>
        map pl_id (pm_active m') = filter (\<lambda>j. j \<noteq> i) (map pl_id (pm_active m))
   | (Inl e, m') \<Rightarrow> i \<notin> pl_id ` set (pm_bySeat m) \<and> e = UnknownPlayer i \<and> m' = m"
proof (cases "i \<in> pl_id ` set (pm_bySeat m)")
  case True
  obtain m' where m': "eliminate i m = (Inr (), m')" using True by (simp add: eliminate_cases [OF assms])
  then have "pm_count m' = pm_count m" using True by (auto simp: eliminate_cases [OF assms] pm_count_def)
  with m' True isEliminated_eliminate(2) [OF assms True m'] eliminate_wf [OF assms m'] pm_active_eliminate [OF assms m']
  show ?thesis by simp
next
  case False
  then show ?thesis by (simp add: eliminate_cases [OF assms])
qed

lemma elimination_exact_witness:
  "\<exists>m'. eliminate ''b'' (newPlayerManager [\<lparr>pl_id = ''a'', pl_displayName = [], pl_color = [], pl_seat = 1, pl_status = None\<rparr>,
       \<lparr>pl_id = ''b'', pl_displayName = [], pl_color = [], pl_seat = 0, pl_status = None\<rparr>]) = (Inr (), m') \<and> isEliminated m' ''b'' \<and>
     map pl_id (pm_active m') = [''a'']"
  (is "\<exists>m'. eliminate _ (newPlayerManager ?ps) = _ \<and> _")
proof -
  have wf: "pm_wf (newPlayerManager ?ps)" by (rule pm_wf_new) simp
  have seats: "pm_bySeat (newPlayerManager ?ps) = map (\<lambda>p. p\<lparr>pl_status := Some Active\<rparr>) (rev ?ps)"
    by (simp add: newPlayerManager_def Let_def)
  then have act: "map pl_id (pm_active (newPlayerManager ?ps)) = [''b'', ''a'']" by (simp add: pm_active_def is_active_def)
  have b: "''b'' \<in> pl_id ` set (pm_bySeat (newPlayerManager ?ps))" using seats by simp
  obtain r m' where e: "eliminate ''b'' (newPlayerManager ?ps) = (r, m')" by fastforce
  then show ?thesis using elimination_exact [OF wf, of "''b''"] b act
    by (cases r) auto
qed

end
