(* ===== verification/Rounds.thy ===== *)
theory Rounds
  imports Players
begin

text \<open>
  Turn orders (\<open>rounds/turn-order.ts\<close>) and the round and phase state machine
  (\<open>rounds/round-manager.ts\<close>). The \<open>TurnOrder\<close> interface is the locale
  \<open>turn_order\<close>; its two implementations are the clockwise order, which has no state, and the
  snake order, which remembers its direction.
\<close>

section \<open>Turn orders (turn-order.ts)\<close>

definition activeSortedBySeat :: "player list \<Rightarrow> player list" where
  "activeSortedBySeat ps = sort_key pl_seat (filter is_active ps)"

datatype turn_order = Clockwise | Snake bool

definition turn_initial :: "player list \<Rightarrow> string list" where
  "turn_initial ps = map pl_id (activeSortedBySeat ps)"

definition clockwiseNext :: "string \<Rightarrow> player list \<Rightarrow> exn + string" where
  "clockwiseNext cur ps =
     (let active = activeSortedBySeat ps
      in if length active = 0 then Inl NoActivePlayers
         else if length active = 1 then Inr (pl_id (active ! 0))
         else (case find_index (\<lambda>p. pl_id p = cur) active of
                 None \<Rightarrow> Inr (pl_id (active ! 0))
               | Some idx \<Rightarrow> Inr (pl_id (active ! ((idx + 1) mod length active)))))"

definition snakeNext :: "string \<Rightarrow> player list \<Rightarrow> bool \<Rightarrow> (exn + string) \<times> bool" where
  "snakeNext cur ps goingForward =
     (let active = activeSortedBySeat ps
      in if length active = 0 then (Inl NoActivePlayers, goingForward)
         else (case find_index (\<lambda>p. pl_id p = cur) active of
                 None \<Rightarrow> (Inr (pl_id (active ! 0)), goingForward)
               | Some idx \<Rightarrow>
                   if goingForward \<and> idx = length active - 1 then (Inr (pl_id (active ! idx)), False)
                   else if \<not> goingForward \<and> idx = 0 then (Inr (pl_id (active ! 0)), True)
                   else (Inr (if goingForward then pl_id (active ! (idx + 1)) else pl_id (active ! (idx - 1))),
                         goingForward)))"

fun turn_next :: "string \<Rightarrow> player list \<Rightarrow> (turn_order, string) effect" where
  "turn_next cur ps Clockwise = (clockwiseNext cur ps, Clockwise)"
| "turn_next cur ps (Snake fwd) = (case snakeNext cur ps fwd of (r, fwd') \<Rightarrow> (r, Snake fwd'))"

subsection \<open>The interface and its law\<close>

text \<open>
  What the interface's comment demands: the next player is one that is not eliminated; only an
  empty table has none.
\<close>

definition active_ids :: "player list \<Rightarrow> string set" where
  "active_ids ps = pl_id ` {p \<in> set ps. is_active p}"

locale turn_order =
  fixes nxt :: "string \<Rightarrow> player list \<Rightarrow> ('t, string) effect"
  assumes next_active: "active_ids ps \<noteq> {} \<Longrightarrow> \<exists>i t'. nxt cur ps t = (Inr i, t') \<and> i \<in> active_ids ps"
    and next_none: "active_ids ps = {} \<Longrightarrow> nxt cur ps t = (Inl NoActivePlayers, t)"

lemma set_activeSorted: "set (activeSortedBySeat ps) = {p \<in> set ps. is_active p}"
  by (simp add: activeSortedBySeat_def)

lemma activeSorted_ids: "i < length (activeSortedBySeat ps) \<Longrightarrow> pl_id (activeSortedBySeat ps ! i) \<in> active_ids ps"
  using nth_mem [of i "activeSortedBySeat ps"] by (simp add: active_ids_def set_activeSorted)

lemma activeSorted_empty: "length (activeSortedBySeat ps) = 0 \<longleftrightarrow> active_ids ps = {}"
  by (simp add: active_ids_def flip: set_activeSorted)

lemma activeSorted_nonempty: "active_ids ps \<noteq> {} \<Longrightarrow> 0 < length (activeSortedBySeat ps)"
  using activeSorted_empty [of ps] by auto

lemma clockwise_active: "active_ids ps \<noteq> {} \<Longrightarrow> \<exists>i. clockwiseNext cur ps = Inr i \<and> i \<in> active_ids ps"
  using activeSorted_nonempty [of ps]
  by (auto simp: clockwiseNext_def Let_def intro!: activeSorted_ids split: option.splits)

lemma clockwise_none: "active_ids ps = {} \<Longrightarrow> clockwiseNext cur ps = Inl NoActivePlayers"
  by (simp add: clockwiseNext_def Let_def flip: activeSorted_empty)

lemma snake_active: "active_ids ps \<noteq> {} \<Longrightarrow> \<exists>i fwd'. snakeNext cur ps fwd = (Inr i, fwd') \<and> i \<in> active_ids ps"
  using activeSorted_nonempty [of ps]
  by (auto simp: snakeNext_def Let_def intro!: activeSorted_ids split: option.splits dest!: find_index_Some)

lemma snake_none: "active_ids ps = {} \<Longrightarrow> snakeNext cur ps fwd = (Inl NoActivePlayers, fwd)"
  by (simp add: snakeNext_def Let_def flip: activeSorted_empty)

interpretation clockwise: turn_order "\<lambda>cur ps (t :: unit). (clockwiseNext cur ps, t)"
  by unfold_locales (simp_all add: clockwise_active clockwise_none)

interpretation snake: turn_order snakeNext
  by unfold_locales (blast intro: snake_active snake_none)+

lemma turn_next_active:
  assumes "active_ids ps \<noteq> {}"
  shows "\<exists>i t'. turn_next cur ps t = (Inr i, t') \<and> i \<in> active_ids ps"
proof (cases t)
  case Clockwise
  with clockwise_active [OF assms, of cur] show ?thesis by auto
next
  case (Snake fwd)
  with snake_active [OF assms, of cur fwd] show ?thesis by auto
qed

lemma turn_next_none: "active_ids ps = {} \<Longrightarrow> turn_next cur ps t = (Inl NoActivePlayers, t)"
  by (cases t) (simp_all add: clockwise_none snake_none)

interpretation scenario_order: turn_order turn_next
  by unfold_locales (blast intro: turn_next_active turn_next_none)+

section \<open>The round manager (round-manager.ts, phase.ts, turn.ts)\<close>

record phase =
  ph_id :: string
  ph_displayName :: string
  ph_nextPhases :: "string list"

record turn =
  turnNumber :: int
  activePlayer :: string
  currentPhaseId :: string
  flags :: "(string, bool) jsmap"

record 't round_manager =
  currentRound :: int
  currentTurn :: turn
  rm_phases :: "(string, phase) jsmap"
  rm_turnOrder :: 't

definition newRoundManager :: "player list \<Rightarrow> 't \<Rightarrow> phase list \<Rightarrow> string \<Rightarrow> exn + 't round_manager" where
  "newRoundManager players order phases initialPhaseId =
     (let phs = fold (\<lambda>p. jput (ph_id p) p) phases []
      in if \<not> jhas phs initialPhaseId then Inl (UnknownInitialPhase initialPhaseId)
         else (case turn_initial players of
                 [] \<Rightarrow> Inl NoPlayersInRoster
               | first # _ \<Rightarrow>
                   Inr \<lparr>currentRound = 1,
                        currentTurn = \<lparr>turnNumber = 1, activePlayer = first,
                                       currentPhaseId = initialPhaseId, flags = []\<rparr>,
                        rm_phases = phs, rm_turnOrder = order\<rparr>))"

definition setPhase :: "string \<Rightarrow> ('t round_manager, unit) effect" where
  "setPhase phaseId m =
     (case jget (rm_phases m) (currentPhaseId (currentTurn m)) of
        None \<Rightarrow> (Inl (BadCurrentPhase (currentPhaseId (currentTurn m))), m)
      | Some ph \<Rightarrow>
          if phaseId \<notin> set (ph_nextPhases ph) then (Inl (IllegalPhaseTransition (ph_id ph) phaseId), m)
          else (Inr (), m\<lparr>currentTurn := (currentTurn m)\<lparr>currentPhaseId := phaseId\<rparr>\<rparr>))"

definition setFlag :: "string \<Rightarrow> bool \<Rightarrow> 't round_manager \<Rightarrow> 't round_manager" where
  "setFlag name v m = m\<lparr>currentTurn := (currentTurn m)\<lparr>flags := jput name v (flags (currentTurn m))\<rparr>\<rparr>"

definition seatOf :: "player list \<Rightarrow> string \<Rightarrow> int \<Rightarrow> int" where
  "seatOf ps i dflt = (case find (\<lambda>p. pl_id p = i) ps of None \<Rightarrow> dflt | Some p \<Rightarrow> pl_seat p)"

record turn_end =
  newActivePlayer :: string
  newRound :: bool

definition rm_endTurn ::
  "(string \<Rightarrow> player list \<Rightarrow> ('t, string) effect) \<Rightarrow> player list \<Rightarrow> string \<Rightarrow> ('t round_manager, turn_end) effect" where
  "rm_endTurn nxt players initialPhaseId m =
     (let currentSeat = seatOf players (activePlayer (currentTurn m)) (-1)
      in case nxt (activePlayer (currentTurn m)) players (rm_turnOrder m) of
           (Inl e, t') \<Rightarrow> (Inl e, m\<lparr>rm_turnOrder := t'\<rparr>)
         | (Inr next', t') \<Rightarrow>
             let nextSeat = seatOf players next' 0;
                 wrappedAround = (nextSeat \<le> currentSeat)
             in (Inr \<lparr>newActivePlayer = next', newRound = wrappedAround\<rparr>,
                 m\<lparr>currentRound := (if wrappedAround then currentRound m + 1 else currentRound m),
                   currentTurn := \<lparr>turnNumber = turnNumber (currentTurn m) + 1, activePlayer = next',
                                   currentPhaseId = initialPhaseId, flags = []\<rparr>,
                   rm_turnOrder := t'\<rparr>))"

context turn_order
begin

text \<open>Any turn order keeps the active player among the players still in the game.\<close>

lemma endTurn_active:
  assumes "active_ids ps \<noteq> {}"
  shows "\<exists>te m'. rm_endTurn nxt ps phase m = (Inr te, m') \<and> newActivePlayer te \<in> active_ids ps \<and>
           activePlayer (currentTurn m') = newActivePlayer te \<and> flags (currentTurn m') = [] \<and>
           currentPhaseId (currentTurn m') = phase \<and>
           turnNumber (currentTurn m') = turnNumber (currentTurn m) + 1 \<and>
           currentRound m' = currentRound m + (if newRound te then 1 else 0) \<and> rm_phases m' = rm_phases m"
proof -
  obtain i t' where "nxt (activePlayer (currentTurn m)) ps (rm_turnOrder m) = (Inr i, t')" "i \<in> active_ids ps"
    using next_active [OF assms] by blast
  then show ?thesis by (simp add: rm_endTurn_def Let_def)
qed

lemma endTurn_none:
  "active_ids ps = {} \<Longrightarrow> rm_endTurn nxt ps phase m = (Inl NoActivePlayers, m)"
  by (simp add: rm_endTurn_def next_none)

end

subsection \<open>Clockwise play goes around the table\<close>

definition table_wf :: "player list \<Rightarrow> bool" where
  "table_wf ps \<longleftrightarrow> distinct (map pl_id ps) \<and> distinct (map pl_seat ps)"

lemma distinct_map_filter_key: "distinct (map f ps) \<Longrightarrow> distinct (map f (sort_key g (filter P ps)))"
proof -
  assume "distinct (map f ps)"
  then have "distinct (map f (filter P ps))" by (rule distinct_map_filter)
  moreover have "mset (map f (sort_key g (filter P ps))) = mset (map f (filter P ps))" by simp
  ultimately show ?thesis by (metis mset_eq_imp_distinct_iff)
qed

lemma activeSorted_wf:
  assumes "table_wf ps"
  shows "distinct (map pl_id (activeSortedBySeat ps))" "sorted_wrt (<) (map pl_seat (activeSortedBySeat ps))"
proof -
  show "distinct (map pl_id (activeSortedBySeat ps))"
    using assms by (simp add: table_wf_def activeSortedBySeat_def distinct_map_filter_key)
  have "distinct (map pl_seat (activeSortedBySeat ps))" "sorted (map pl_seat (activeSortedBySeat ps))"
    using assms by (simp_all add: table_wf_def activeSortedBySeat_def distinct_map_filter_key)
  then show "sorted_wrt (<) (map pl_seat (activeSortedBySeat ps))"
    by (simp add: strict_sorted_iff)
qed

lemma find_id:
  assumes "distinct (map pl_id ps)" "i < length ps"
  shows "find_index (\<lambda>p. pl_id p = pl_id (ps ! i)) ps = Some i"
  using assms by (intro find_index_unique) (auto simp: distinct_conv_nth)

lemma seatOf_member:
  assumes "distinct (map pl_id ps)" "p \<in> set ps"
  shows "seatOf ps (pl_id p) d = pl_seat p"
proof -
  have "find (\<lambda>q. pl_id q = pl_id p) ps = Some p"
    using assms by (intro find_unique) (auto simp: distinct_map dest: inj_onD)
  then show ?thesis by (simp add: seatOf_def)
qed

lemma clockwise_step:
  assumes "table_wf ps" "i < length (activeSortedBySeat ps)"
  shows "clockwiseNext (pl_id (activeSortedBySeat ps ! i)) ps =
         Inr (pl_id (activeSortedBySeat ps ! ((i + 1) mod length (activeSortedBySeat ps))))"
  using assms find_id [OF activeSorted_wf(1) [OF assms(1)] assms(2)]
  by (auto simp: clockwiseNext_def Let_def)

lemma seats_less:
  assumes "table_wf ps" "i < length (activeSortedBySeat ps)" "j < length (activeSortedBySeat ps)"
  shows "pl_seat (activeSortedBySeat ps ! i) \<le> pl_seat (activeSortedBySeat ps ! j) \<longleftrightarrow> i \<le> j"
proof -
  have "i < j \<Longrightarrow> j < length (activeSortedBySeat ps) \<Longrightarrow> pl_seat (activeSortedBySeat ps ! i) < pl_seat (activeSortedBySeat ps ! j)" for i j
    using activeSorted_wf(2) [OF assms(1)] by (simp add: sorted_wrt_iff_nth_less)
  from this [of i j] this [of j i] assms show ?thesis
    by (cases i j rule: linorder_cases) auto
qed

text \<open>
  One clockwise \<open>endTurn\<close>: the player at position \<open>i\<close> of the active table passes to position
  \<open>i + 1\<close>, and the round advances exactly at the last position.
\<close>

lemma clockwise_endTurn:
  assumes wf: "table_wf ps" and i: "i < length (activeSortedBySeat ps)"
    and cur: "activePlayer (currentTurn m) = pl_id (activeSortedBySeat ps ! i)" and t: "rm_turnOrder m = Clockwise"
  shows "\<exists>te m'. rm_endTurn turn_next ps phase m = (Inr te, m') \<and>
     newActivePlayer te = pl_id (activeSortedBySeat ps ! ((i + 1) mod length (activeSortedBySeat ps))) \<and>
     activePlayer (currentTurn m') = newActivePlayer te \<and>
     (newRound te \<longleftrightarrow> i + 1 = length (activeSortedBySeat ps)) \<and>
     currentRound m' = currentRound m + (if newRound te then 1 else 0) \<and>
     turnNumber (currentTurn m') = turnNumber (currentTurn m) + 1 \<and> rm_turnOrder m' = Clockwise"
proof -
  let ?a = "activeSortedBySeat ps"
  let ?j = "(i + 1) mod length ?a"
  have j: "?j < length ?a" using i by (intro mod_less_divisor) linarith
  have mem: "?a ! i \<in> set ps" "?a ! ?j \<in> set ps"
    using nth_mem [OF i] nth_mem [OF j] by (auto simp: set_activeSorted)
  have ids: "distinct (map pl_id ps)" using wf by (simp add: table_wf_def)
  have "?j \<le> i \<longleftrightarrow> i + 1 = length ?a"
    using i by (cases "i + 1 = length ?a") auto
  then show ?thesis
    using seatOf_member [OF ids mem(1)] seatOf_member [OF ids mem(2)] seats_less [OF wf j i] clockwise_step [OF wf i]
    by (simp add: rm_endTurn_def Let_def cur t)
qed

primrec run_turns :: "nat \<Rightarrow> player list \<Rightarrow> string \<Rightarrow> turn_order round_manager \<Rightarrow> turn_order round_manager" where
  "run_turns 0 ps phase m = m"
| "run_turns (Suc k) ps phase m = snd (rm_endTurn turn_next ps phase (run_turns k ps phase m))"

lemma run_turns_clockwise:
  assumes wf: "table_wf ps" and n: "n = length (activeSortedBySeat ps)" "0 < n"
    and cur: "activePlayer (currentTurn m) = pl_id (activeSortedBySeat ps ! 0)" and t: "rm_turnOrder m = Clockwise"
  shows "activePlayer (currentTurn (run_turns k ps phase m)) = pl_id (activeSortedBySeat ps ! (k mod n)) \<and>
         currentRound (run_turns k ps phase m) = currentRound m + int (k div n) \<and>
         turnNumber (currentTurn (run_turns k ps phase m)) = turnNumber (currentTurn m) + int k \<and>
         rm_turnOrder (run_turns k ps phase m) = Clockwise"
proof (induction k)
  case 0
  then show ?case using cur t by simp
next
  case (Suc k)
  define i where "i = k mod n"
  have i: "i < length (activeSortedBySeat ps)" using n by (simp add: i_def)
  have step: "Suc k mod n = (i + 1) mod n" "Suc k div n = k div n + (if i + 1 = n then 1 else 0)"
    by (simp_all add: i_def mod_Suc_eq div_Suc mod_Suc)
  from clockwise_endTurn [OF wf i, of "run_turns k ps phase m" phase] Suc
  obtain te m' where "rm_endTurn turn_next ps phase (run_turns k ps phase m) = (Inr te, m')"
     "newActivePlayer te = pl_id (activeSortedBySeat ps ! ((i + 1) mod n))"
     "activePlayer (currentTurn m') = newActivePlayer te" "newRound te \<longleftrightarrow> i + 1 = n"
     "currentRound m' = currentRound (run_turns k ps phase m) + (if newRound te then 1 else 0)"
     "turnNumber (currentTurn m') = turnNumber (currentTurn (run_turns k ps phase m)) + 1" "rm_turnOrder m' = Clockwise"
    by (auto simp: n(1) i_def)
  with Suc step show ?case by simp
qed

section \<open>Properties of turns and rounds\<close>

text \<open>A table of three players.\<close>

definition draft_player :: "string \<Rightarrow> int \<Rightarrow> player" where
  "draft_player i seat = \<lparr>pl_id = i, pl_displayName = i, pl_color = [], pl_seat = seat, pl_status = Some Active\<rparr>"

definition draft_roster :: "player list" where
  "draft_roster = [draft_player ''a'' 0, draft_player ''b'' 1, draft_player ''c'' 2]"

text \<open> Under the clockwise order every active player acts once per round in the order of the
  seats: after \<open>k\<close> turns of a new game the active player is the one \<open>k\<close> places on, and
  \<open>k div n\<close> rounds have been completed. \<close>
lemma clockwise_rotation:
  assumes "table_wf ps" "newRoundManager ps Clockwise phases phase0 = Inr m"
  defines "n \<equiv> length (activeSortedBySeat ps)"
  shows "activePlayer (currentTurn (run_turns k ps phase0 m)) = turn_initial ps ! (k mod n) \<and>
    currentRound (run_turns k ps phase0 m) = 1 + int (k div n) \<and>
    turnNumber (currentTurn (run_turns k ps phase0 m)) = 1 + int k"
proof -
  from assms(2) obtain first rest where first: "turn_initial ps = first # rest"
    and m: "activePlayer (currentTurn m) = first" "rm_turnOrder m = Clockwise" "currentRound m = 1" "turnNumber (currentTurn m) = 1"
    by (auto simp: newRoundManager_def Let_def split: if_splits list.splits)
  have len: "length (turn_initial ps) = n" by (simp add: turn_initial_def n_def)
  then have n: "0 < n" using first by auto
  then have cur: "activePlayer (currentTurn m) = pl_id (activeSortedBySeat ps ! 0)"
    using first m(1) by (cases "activeSortedBySeat ps") (auto simp: turn_initial_def)
  from run_turns_clockwise [OF assms(1) n_def [THEN meta_eq_to_obj_eq] n cur m(2), of k phase0] m n
  show ?thesis by (simp add: turn_initial_def n_def)
qed

lemma clockwise_rotation_witness:
  "\<exists>m. newRoundManager draft_roster Clockwise [\<lparr>ph_id = ''t'', ph_displayName = [], ph_nextPhases = []\<rparr>] ''t'' = Inr m \<and>
     activePlayer (currentTurn (run_turns 5 draft_roster ''t'' m)) = ''c'' \<and> currentRound (run_turns 5 draft_roster ''t'' m) = 2"
proof -
  have sorted: "activeSortedBySeat draft_roster = draft_roster"
    by (simp add: activeSortedBySeat_def is_active_def draft_roster_def draft_player_def)
  have ids: "turn_initial draft_roster = [''a'', ''b'', ''c'']"
    unfolding turn_initial_def sorted by (simp add: draft_roster_def draft_player_def)
  then obtain m where m: "newRoundManager draft_roster Clockwise [\<lparr>ph_id = ''t'', ph_displayName = [], ph_nextPhases = []\<rparr>] ''t'' = Inr m"
    by (auto simp: newRoundManager_def Let_def jhas_def)
  have "table_wf draft_roster" by (simp add: table_wf_def draft_roster_def draft_player_def)
  moreover have "length draft_roster = 3" by (simp add: draft_roster_def)
  ultimately show ?thesis using clockwise_rotation [OF _ m, of 5] m by (simp add: sorted ids)
qed

subsection \<open>Snake play goes there and back\<close>

text \<open>
  The turn \<open>j\<close> of one passage there and back over a table of \<open>n\<close>: the position that plays.
\<close>

definition snake_position :: "nat \<Rightarrow> nat \<Rightarrow> nat" where
  "snake_position n j = (if j < n then j else 2 * n - 1 - j)"

lemma snake_position_less: "j < 2 * n \<Longrightarrow> snake_position n j < n"
  by (auto simp: snake_position_def)

lemma snake_step:
  assumes wf: "table_wf ps" and n: "n = length (activeSortedBySeat ps)" and j: "j < 2 * n"
  shows "snakeNext (pl_id (activeSortedBySeat ps ! snake_position n j)) ps (j < n) =
         (Inr (pl_id (activeSortedBySeat ps ! snake_position n (Suc j mod (2 * n)))), Suc j mod (2 * n) < n)"
proof -
  note find = find_id [OF activeSorted_wf(1) [OF wf], of "snake_position n j"]
  consider "Suc j < n" | "Suc j = n" | "n < Suc j" "Suc j < 2 * n" | "Suc j = 2 * n" "n < Suc j" using j by linarith
  then show ?thesis
  proof cases
    case 3
    then have "2 * n - Suc j = Suc (2 * n - Suc (Suc j))" by linarith
    moreover have "activeSortedBySeat ps \<noteq> []" using j n by auto
    ultimately show ?thesis using 3 find n by (simp add: snakeNext_def snake_position_def Let_def)
  qed (use find n in \<open>auto simp: snakeNext_def snake_position_def Let_def\<close>)
qed

text \<open>
  One snake \<open>endTurn\<close>: a round is counted at the last position of the way there and on every turn
  of the way back.
\<close>

lemma snake_endTurn:
  assumes wf: "table_wf ps" and n: "n = length (activeSortedBySeat ps)" and j: "j < 2 * n"
    and cur: "activePlayer (currentTurn m) = pl_id (activeSortedBySeat ps ! snake_position n j)" and t: "rm_turnOrder m = Snake (j < n)"
  shows "\<exists>te m'. rm_endTurn turn_next ps phase m = (Inr te, m') \<and>
     activePlayer (currentTurn m') = pl_id (activeSortedBySeat ps ! snake_position n (Suc j mod (2 * n))) \<and>
     rm_turnOrder m' = Snake (Suc j mod (2 * n) < n) \<and>
     currentRound m' = currentRound m + (if n \<le> Suc j then 1 else 0)"
proof -
  let ?a = "activeSortedBySeat ps"
  let ?i = "snake_position n j" and ?i' = "snake_position n (Suc j mod (2 * n))"
  have "Suc j mod (2 * n) < 2 * n" using j by simp
  then have i: "?i < length ?a" "?i' < length ?a" using j by (simp_all only: n [symmetric] snake_position_less)
  have mem: "?a ! ?i \<in> set ps" "?a ! ?i' \<in> set ps"
    using nth_mem [OF i(1)] nth_mem [OF i(2)] by (auto simp: set_activeSorted)
  have ids: "distinct (map pl_id ps)" using wf by (simp add: table_wf_def)
  have "?i' \<le> ?i \<longleftrightarrow> n \<le> Suc j" using j by (cases "Suc j = 2 * n") (auto simp: snake_position_def)
  with seatOf_member [OF ids mem(1)] seatOf_member [OF ids mem(2)] seats_less [OF wf i(2,1)] snake_step [OF wf n j]
  show ?thesis by (simp add: rm_endTurn_def Let_def cur t)
qed

text \<open>The rounds the manager has counted after \<open>k\<close> turns.\<close>

definition snake_rounds :: "nat \<Rightarrow> nat \<Rightarrow> nat" where
  "snake_rounds n k = (k div (2 * n)) * (n + 1) + (Suc (k mod (2 * n)) - n)"

lemma snake_rounds_Suc:
  assumes "0 < n"
  shows "snake_rounds n (Suc k) = snake_rounds n k + (if n \<le> Suc (k mod (2 * n)) then 1 else 0)"
  using assms by (auto simp: snake_rounds_def mod_Suc div_Suc)

lemma run_turns_snake:
  assumes wf: "table_wf ps" and n: "n = length (activeSortedBySeat ps)" "0 < n"
    and cur: "activePlayer (currentTurn m) = pl_id (activeSortedBySeat ps ! 0)" and t: "rm_turnOrder m = Snake True"
  shows "activePlayer (currentTurn (run_turns k ps phase m)) = pl_id (activeSortedBySeat ps ! snake_position n (k mod (2 * n))) \<and>
         rm_turnOrder (run_turns k ps phase m) = Snake (k mod (2 * n) < n) \<and>
         currentRound (run_turns k ps phase m) = currentRound m + int (snake_rounds n k)"
proof (induction k)
  case 0
  then show ?case using cur t n(2) by (simp add: snake_position_def snake_rounds_def)
next
  case (Suc k)
  have j: "k mod (2 * n) < 2 * n" using n by simp
  from snake_endTurn [OF wf n(1) j, of "run_turns k ps phase m" phase] Suc
  obtain te m' where m': "rm_endTurn turn_next ps phase (run_turns k ps phase m) = (Inr te, m')"
     "activePlayer (currentTurn m') = pl_id (activeSortedBySeat ps ! snake_position n (Suc k mod (2 * n)))"
     "rm_turnOrder m' = Snake (Suc k mod (2 * n) < n)"
     "currentRound m' = currentRound (run_turns k ps phase m) + (if n \<le> Suc (k mod (2 * n)) then 1 else 0)"
    by (auto simp: mod_Suc_eq)
  then show ?case using Suc by (simp add: snake_rounds_Suc [OF n(2)])
qed

text \<open> C39: Under the snake order the \<open>n\<close> active players of any table act there and back, each twice
  in \<open>2 * n\<close> turns: after \<open>k\<close> turns the active player is the one at place \<open>j\<close> of the way there, or
  at place \<open>2 * n - 1 - j\<close> of the way back, for \<open>j = k mod (2 * n)\<close>. The round counter, which should
  advance twice in such a passage, advances \<open>n + 1\<close> times: the manager counts a round whenever the
  next seat is not higher, which holds on the last turn of the way there and on every turn back. \<close>
theorem snake_overcounts_rounds:
  assumes "table_wf ps" "newRoundManager ps (Snake True) phases phase0 = Inr m"
  defines "n \<equiv> length (activeSortedBySeat ps)"
  shows "let m' = run_turns k ps phase0 m; j = k mod (2 * n)
     in activePlayer (currentTurn m') = turn_initial ps ! (if j < n then j else 2 * n - 1 - j) \<and>
        rm_turnOrder m' = Snake (j < n) \<and>
        currentRound m' = 1 + int (k div (2 * n) * (n + 1) + (if j < n then 0 else j - n + 1))"
proof -
  from assms(2) obtain first rest where first: "turn_initial ps = first # rest"
    and m: "activePlayer (currentTurn m) = first" "rm_turnOrder m = Snake True" "currentRound m = 1"
    by (auto simp: newRoundManager_def Let_def split: if_splits list.splits)
  have len: "length (turn_initial ps) = n" by (simp add: turn_initial_def n_def)
  then have n: "0 < n" using first by auto
  then have cur: "activePlayer (currentTurn m) = pl_id (activeSortedBySeat ps ! 0)"
    using first m(1) by (cases "activeSortedBySeat ps") (auto simp: turn_initial_def)
  have "snake_position n (k mod (2 * n)) < n" using n by (intro snake_position_less) simp
  with run_turns_snake [OF assms(1) n_def [THEN meta_eq_to_obj_eq] n cur m(2), of k phase0] m(3) show ?thesis
    by (simp add: Let_def turn_initial_def n_def snake_position_def snake_rounds_def split: if_splits)
qed

text \<open>Three players, six turns: the order is a b c c b a, and the counter goes from 1 to 5 instead of 3.\<close>

theorem snake_overcounts_rounds_witness:
  "\<exists>m. newRoundManager draft_roster (Snake True) [\<lparr>ph_id = ''t'', ph_displayName = [], ph_nextPhases = []\<rparr>] ''t'' = Inr m \<and>
     map (\<lambda>k. activePlayer (currentTurn (run_turns k draft_roster ''t'' m))) [0..<7] = [''a'', ''b'', ''c'', ''c'', ''b'', ''a'', ''a''] \<and>
     currentRound m = 1 \<and> currentRound (run_turns 6 draft_roster ''t'' m) = 5"
proof -
  have sorted: "activeSortedBySeat draft_roster = draft_roster"
    by (simp add: activeSortedBySeat_def is_active_def draft_roster_def draft_player_def)
  have ids: "turn_initial draft_roster = [''a'', ''b'', ''c'']"
    unfolding turn_initial_def sorted by (simp add: draft_roster_def draft_player_def)
  then obtain m where m: "newRoundManager draft_roster (Snake True) [\<lparr>ph_id = ''t'', ph_displayName = [], ph_nextPhases = []\<rparr>] ''t'' = Inr m"
    by (auto simp: newRoundManager_def Let_def jhas_def)
  have wf: "table_wf draft_roster" by (simp add: table_wf_def draft_roster_def draft_player_def)
  have len: "length draft_roster = 3" by (simp add: draft_roster_def)
  note turn = snake_overcounts_rounds [OF wf m, unfolded Let_def sorted ids len]
  have "[0..<7] = [0, 1, 2, 3, 4, 5, 6 :: nat]" by (simp add: upt_rec)
  then show ?thesis
    using turn [of 0] turn [of 1] turn [of 2] turn [of 3] turn [of 4] turn [of 5] turn [of 6] m
    by (simp del: run_turns.simps add: run_turns.simps(1))
qed

end
