(* ===== verification/Registries.thy ===== *)
theory Registries
  imports Prelude
begin

text \<open>
  The registries of the framework: terrains (\<open>map/terrain.ts\<close>), resources
  (\<open>resources/resource-type.ts\<close>), piece kinds (\<open>pieces/piece-registry.ts\<close>) and card effects
  (\<open>cards/card-effect.ts\<close>). They share one contract, the locale \<open>registry\<close>: registering a
  definition under a key that is taken throws, otherwise the definition is found under its key and
  nothing else changes.
\<close>

section \<open>The contract of a registry\<close>

locale registry =
  fixes register :: "'d \<Rightarrow> 'r \<Rightarrow> exn + 'r"
    and lookup :: "'r \<Rightarrow> string \<Rightarrow> 'd option"
    and key :: "'d \<Rightarrow> string"
  assumes register_taken: "lookup r (key d) \<noteq> None \<Longrightarrow> register d r = Inl (AlreadyRegistered (key d))"
    and register_free: "lookup r (key d) = None \<Longrightarrow> \<exists>r'. register d r = Inr r'"
    and lookup_register: "register d r = Inr r' \<Longrightarrow> lookup r' k = (if k = key d then Some d else lookup r k)"
begin

primrec register_all :: "'d list \<Rightarrow> 'r \<Rightarrow> exn + 'r" where
  "register_all [] r = Inr r"
| "register_all (d # ds) r = (case register d r of Inl e \<Rightarrow> Inl e | Inr r' \<Rightarrow> register_all ds r')"

lemma register_Inr_iff: "(\<exists>r'. register d r = Inr r') \<longleftrightarrow> lookup r (key d) = None"
  using register_taken [of r d] register_free [of r d] by (cases "lookup r (key d)") auto

text \<open>Registering definitions with distinct fresh keys succeeds and each is found afterwards.\<close>

lemma register_all_distinct:
  assumes "distinct (map key ds)" "\<forall>d \<in> set ds. lookup r (key d) = None"
  shows "\<exists>r'. register_all ds r = Inr r' \<and>
           (\<forall>k. lookup r' k = (case map_of (map (\<lambda>d. (key d, d)) ds) k of Some d \<Rightarrow> Some d | None \<Rightarrow> lookup r k))"
  using assms
proof (induction ds arbitrary: r)
  case (Cons d ds)
  from Cons.prems(2) obtain r1 where r1: "register d r = Inr r1"
    using register_free [of r d] by auto
  have "\<forall>d' \<in> set ds. lookup r1 (key d') = None"
    using Cons.prems by (auto simp: lookup_register [OF r1] image_iff)
  from Cons.IH [OF _ this] Cons.prems(1) obtain r' where r': "register_all ds r1 = Inr r'"
    and l: "\<forall>k. lookup r' k = (case map_of (map (\<lambda>d. (key d, d)) ds) k of Some d \<Rightarrow> Some d | None \<Rightarrow> lookup r1 k)"
    by auto
  have "map_of (map (\<lambda>d. (key d, d)) ds) (key d) = None"
    using Cons.prems(1) by (auto simp: map_of_eq_None_iff)
  with r1 r' l show ?case by (auto simp: lookup_register [OF r1] split: option.splits)
qed simp

lemma register_twice: "register d r = Inr r' \<Longrightarrow> key d' = key d \<Longrightarrow> register d' r' = Inl (AlreadyRegistered (key d))"
  using register_taken [of r' d'] lookup_register [of d r r' "key d"] by simp

end

text \<open>The bodies of the four \<open>register\<close> and \<open>require\<close> methods are one pattern over the inner map.\<close>

definition reg_insert :: "string \<Rightarrow> 'd \<Rightarrow> (string, 'd) jsmap \<Rightarrow> exn + (string, 'd) jsmap" where
  "reg_insert k d m = (if jhas m k then Inl (AlreadyRegistered k) else Inr (jput k d m))"

definition reg_require :: "(string, 'd) jsmap \<Rightarrow> string \<Rightarrow> exn + 'd" where
  "reg_require m k = (case jget m k of None \<Rightarrow> Inl (NotRegistered k) | Some d \<Rightarrow> Inr d)"

lemma registry_reg_insert: "registry (\<lambda>d. reg_insert (f d) d) jget f"
  by unfold_locales (auto simp: reg_insert_def jhas_def split: if_splits)

section \<open>Terrains (map/terrain.ts)\<close>

text \<open>The \<open>meta\<close> records the scenarios write hold numbers.\<close>

record terrain_def =
  ter_id :: string
  ter_name :: string
  ter_produces :: "string option"
  ter_meta :: "(string, real) jsmap option"

type_synonym terrain_registry = "(string, terrain_def) jsmap"

definition registerTerrain :: "terrain_def \<Rightarrow> terrain_registry \<Rightarrow> exn + terrain_registry" where
  "registerTerrain d m = reg_insert (ter_id d) d m"

definition getTerrain :: "terrain_registry \<Rightarrow> string \<Rightarrow> terrain_def option" where
  "getTerrain m i = jget m i"

definition requireTerrain :: "terrain_registry \<Rightarrow> string \<Rightarrow> exn + terrain_def" where
  "requireTerrain m i = reg_require m i"

definition allTerrains :: "terrain_registry \<Rightarrow> terrain_def list" where
  "allTerrains m = jvals m"

interpretation terrains: registry registerTerrain getTerrain ter_id
  unfolding registerTerrain_def getTerrain_def by (rule registry_reg_insert)

section \<open>Resources (resources/resource-type.ts)\<close>

record resource_def =
  res_id :: string
  res_name :: string
  res_symbol :: "string option"
  res_meta :: "(string, real) jsmap option"

type_synonym resource_registry = "(string, resource_def) jsmap"

definition registerResource :: "resource_def \<Rightarrow> resource_registry \<Rightarrow> exn + resource_registry" where
  "registerResource d m = reg_insert (res_id d) d m"

definition getResource :: "resource_registry \<Rightarrow> string \<Rightarrow> resource_def option" where
  "getResource m i = jget m i"

definition requireResource :: "resource_registry \<Rightarrow> string \<Rightarrow> exn + resource_def" where
  "requireResource m i = reg_require m i"

definition allResources :: "resource_registry \<Rightarrow> resource_def list" where
  "allResources m = jvals m"

definition resourceIds :: "resource_registry \<Rightarrow> string list" where
  "resourceIds m = jkeys m"

interpretation resources: registry registerResource getResource res_id
  unfolding registerResource_def getResource_def by (rule registry_reg_insert)

section \<open>Piece kinds (pieces/piece-registry.ts)\<close>

datatype piece_category = Building | Unit | Marker

record piece_kind_def =
  pk_kind :: string
  pk_category :: piece_category
  pk_displayName :: string
  pk_cost :: "(string, int) jsmap option"
  pk_limitPerPlayer :: "int option"
  pk_defaultStats :: "(string, real) jsmap option"
  pk_meta :: "(string, string) jsmap option"

type_synonym piece_registry = "(string, piece_kind_def) jsmap"

definition registerPiece :: "piece_kind_def \<Rightarrow> piece_registry \<Rightarrow> exn + piece_registry" where
  "registerPiece d m = reg_insert (pk_kind d) d m"

definition getPiece :: "piece_registry \<Rightarrow> string \<Rightarrow> piece_kind_def option" where
  "getPiece m k = jget m k"

definition requirePiece :: "piece_registry \<Rightarrow> string \<Rightarrow> exn + piece_kind_def" where
  "requirePiece m k = reg_require m k"

definition allPieces :: "piece_registry \<Rightarrow> piece_kind_def list" where
  "allPieces m = jvals m"

definition byCategory :: "piece_registry \<Rightarrow> piece_category \<Rightarrow> piece_kind_def list" where
  "byCategory m c = filter (\<lambda>d. pk_category d = c) (allPieces m)"

definition getDefaultStats :: "piece_registry \<Rightarrow> string \<Rightarrow> (string, real) jsmap" where
  "getDefaultStats m k = (case jget m k of None \<Rightarrow> [] | Some d \<Rightarrow> (case pk_defaultStats d of None \<Rightarrow> [] | Some st \<Rightarrow> st))"

interpretation piece_kinds: registry registerPiece getPiece pk_kind
  unfolding registerPiece_def getPiece_def by (rule registry_reg_insert)

section \<open>Card effects (cards/card-effect.ts)\<close>

text \<open>An effect is a kind and the function that turns a played card and its context into events.\<close>

record card_effect_context =
  cx_playedBy :: string
  cx_targets :: "string list option"

record ('c, 'e) card_effect =
  ce_forKind :: string
  ce_apply :: "'c \<Rightarrow> card_effect_context \<Rightarrow> 'e list"

type_synonym ('c, 'e) card_effect_registry = "(string, ('c, 'e) card_effect) jsmap"

definition registerEffect :: "('c, 'e) card_effect \<Rightarrow> ('c, 'e) card_effect_registry \<Rightarrow> exn + ('c, 'e) card_effect_registry" where
  "registerEffect d m = reg_insert (ce_forKind d) d m"

definition getEffect :: "('c, 'e) card_effect_registry \<Rightarrow> string \<Rightarrow> ('c, 'e) card_effect option" where
  "getEffect m k = jget m k"

interpretation card_effects: registry registerEffect getEffect ce_forKind
  unfolding registerEffect_def getEffect_def by (rule registry_reg_insert)

end
