(* ===== verification/Pieces.thy ===== *)
theory Pieces
  imports Hexmap Registries
begin

text \<open>
  Pieces, \<open>pieces/piece.ts\<close>, and their factories in \<open>pieces/unit.ts\<close> and
  \<open>pieces/building.ts\<close>. The factories spread the optional \<open>stats\<close> and \<open>state\<close> into the
  piece only when they are given.
\<close>

datatype piece_location = OnTile string | OnEdge string | OnVertex string

record piece =
  pc_id :: string
  pc_kind :: string
  pc_owner :: string
  pc_location :: piece_location
  pc_stats :: "(string, real) jsmap option"
  pc_state :: "(string, tile_value) jsmap option"

definition makeBuilding ::
  "string \<Rightarrow> string \<Rightarrow> string \<Rightarrow> string \<Rightarrow> (string, real) jsmap option \<Rightarrow> (string, tile_value) jsmap option \<Rightarrow> piece" where
  "makeBuilding i kind owner v stats st =
     \<lparr>pc_id = i, pc_kind = kind, pc_owner = owner, pc_location = OnVertex v, pc_stats = stats, pc_state = st\<rparr>"

definition makeUnit ::
  "string \<Rightarrow> string \<Rightarrow> string \<Rightarrow> string \<Rightarrow> (string, real) jsmap option \<Rightarrow> (string, tile_value) jsmap option \<Rightarrow> piece" where
  "makeUnit i kind owner t stats st =
     \<lparr>pc_id = i, pc_kind = kind, pc_owner = owner, pc_location = OnTile t, pc_stats = stats, pc_state = st\<rparr>"

definition makeUnitFromRegistry ::
  "piece_registry \<Rightarrow> string \<Rightarrow> string \<Rightarrow> string \<Rightarrow> string \<Rightarrow> (string, real) jsmap option \<Rightarrow>
   (string, tile_value) jsmap option \<Rightarrow> piece" where
  "makeUnitFromRegistry reg i kind owner t statsOverride st =
     (let baseStats = getDefaultStats reg kind;
          stats = (case statsOverride of
                     Some ov \<Rightarrow> fold (\<lambda>(k, v). jput k v) ov baseStats
                   | None \<Rightarrow> baseStats)
      in makeUnit i kind owner t (if length (jkeys stats) > 0 then Some stats else None) st)"

lemma makeUnit_sel [simp]:
  "pc_id (makeUnit i kind owner t stats st) = i"
  "pc_kind (makeUnit i kind owner t stats st) = kind"
  "pc_owner (makeUnit i kind owner t stats st) = owner"
  "pc_location (makeUnit i kind owner t stats st) = OnTile t"
  "pc_stats (makeUnit i kind owner t stats st) = stats"
  "pc_state (makeUnit i kind owner t stats st) = st"
  by (simp_all add: makeUnit_def)

lemma makeUnitFromRegistry_sel [simp]:
  "pc_id (makeUnitFromRegistry r i kind owner t ov st) = i"
  "pc_kind (makeUnitFromRegistry r i kind owner t ov st) = kind"
  "pc_owner (makeUnitFromRegistry r i kind owner t ov st) = owner"
  "pc_location (makeUnitFromRegistry r i kind owner t ov st) = OnTile t"
  "pc_state (makeUnitFromRegistry r i kind owner t ov st) = st"
  by (simp_all add: makeUnitFromRegistry_def Let_def)

lemma makeUnitFromRegistry_stats:
  "pc_stats (makeUnitFromRegistry r i kind owner t None st) =
     (case getDefaultStats r kind of [] \<Rightarrow> None | s # ss \<Rightarrow> Some (s # ss))"
  by (simp add: makeUnitFromRegistry_def Let_def split: list.splits)

end
