(* ===== verification/Events.thy ===== *)
theory Events
  imports Registries
begin

text \<open>
  The traffic of the engine: actions (\<open>actions/action.ts\<close>), events
  (\<open>events/game-event.ts\<close>), the emitter that stamps and delivers them
  (\<open>events/event-emitter.ts\<close>), the journal (\<open>actions/action-history.ts\<close>), the rule engine
  (\<open>rules/rule-engine.ts\<close>) and the lifecycle machine (\<open>state/state-machine.ts\<close>). The clock
  \<open>Date.now()\<close> is an argument.
\<close>

section \<open>Actions and events\<close>

text \<open>Payloads are a parameter: every scenario instantiates it with the payloads it declares.\<close>

record 'p action =
  ac_type :: string
  ac_playerId :: "string option"
  ac_payload :: 'p
  ac_clientSeq :: "int option"

text \<open>An error is known by its code; the message and the details are prose.\<close>

datatype action_error = ActionError string

definition actionError :: "string \<Rightarrow> action_error" where
  "actionError code = ActionError code"

text \<open>The two verdicts of a validator that returns.\<close>

abbreviation accept :: "exn + action_error option" where
  "accept \<equiv> Inr None"

abbreviation reject :: "string \<Rightarrow> exn + action_error option" where
  "reject code \<equiv> Inr (Some (actionError code))"

record victory_result =
  vr_winner :: "string option"
  vr_reason :: string
  vr_conditionId :: string

datatype 'e event_payload = GameEndedPayload victory_result | ScenarioPayload 'e

record 'e game_event =
  ev_type :: string
  ev_seq :: "int option"
  ev_at :: "int option"
  ev_playerId :: "string option"
  ev_payload :: "'e event_payload"
  ev_privateTo :: "string option"

definition mkEvent :: "string \<Rightarrow> string option \<Rightarrow> 'e \<Rightarrow> 'e game_event" where
  "mkEvent ty pid p =
     \<lparr>ev_type = ty, ev_seq = None, ev_at = None, ev_playerId = pid, ev_payload = ScenarioPayload p, ev_privateTo = None\<rparr>"

section \<open>The emitter (event-emitter.ts)\<close>

text \<open>A listener is known by a number; what the emitter calls it with is recorded in order.\<close>

record 'e emitter =
  em_listeners :: "(string, nat list) jsmap"
  em_wildcards :: "nat list"
  em_nextSeq :: int
  em_delivered :: "(nat \<times> 'e game_event) list"

definition newEmitter :: "'e emitter" where
  "newEmitter = \<lparr>em_listeners = [], em_wildcards = [], em_nextSeq = 1, em_delivered = []\<rparr>"

definition em_on :: "string \<Rightarrow> nat \<Rightarrow> 'e emitter \<Rightarrow> 'e emitter" where
  "em_on ty l em =
     (let ls = (case jget (em_listeners em) ty of Some ls \<Rightarrow> ls | None \<Rightarrow> [])
      in em\<lparr>em_listeners := jput ty (jadd l ls) (em_listeners em)\<rparr>)"

definition em_off :: "string \<Rightarrow> nat \<Rightarrow> 'e emitter \<Rightarrow> 'e emitter" where
  "em_off ty l em =
     (case jget (em_listeners em) ty of
        None \<Rightarrow> em
      | Some ls \<Rightarrow> em\<lparr>em_listeners := jput ty (filter (\<lambda>k. k \<noteq> l) ls) (em_listeners em)\<rparr>)"

definition em_onAny :: "nat \<Rightarrow> 'e emitter \<Rightarrow> 'e emitter" where
  "em_onAny l em = em\<lparr>em_wildcards := jadd l (em_wildcards em)\<rparr>"

definition em_offAny :: "nat \<Rightarrow> 'e emitter \<Rightarrow> 'e emitter" where
  "em_offAny l em = em\<lparr>em_wildcards := filter (\<lambda>k. k \<noteq> l) (em_wildcards em)\<rparr>"

definition em_emit :: "int \<Rightarrow> 'e game_event \<Rightarrow> 'e emitter \<Rightarrow> 'e game_event \<times> 'e emitter" where
  "em_emit now e em =
     (let stamped = e\<lparr>ev_seq := Some (em_nextSeq em), ev_at := Some now\<rparr>;
          typed = (case jget (em_listeners em) (ev_type stamped) of Some ls \<Rightarrow> ls | None \<Rightarrow> [])
      in (stamped,
          em\<lparr>em_nextSeq := em_nextSeq em + 1,
             em_delivered := em_delivered em @ map (\<lambda>l. (l, stamped)) typed
                                             @ map (\<lambda>l. (l, stamped)) (em_wildcards em)\<rparr>))"

text \<open>\<open>list.map((e) => this.events.emit(e))\<close>, with the clock read at each event.\<close>

fun em_emitAll :: "(int \<Rightarrow> int) \<Rightarrow> 'e game_event list \<Rightarrow> 'e emitter \<Rightarrow> 'e game_event list \<times> 'e emitter" where
  "em_emitAll clock [] em = ([], em)"
| "em_emitAll clock (e # es) em =
     (let (s, em1) = em_emit (clock (em_nextSeq em)) e em;
          (ss, em2) = em_emitAll clock es em1
      in (s # ss, em2))"

text \<open>The events a listener has received, in order.\<close>

definition received :: "nat \<Rightarrow> 'e emitter \<Rightarrow> 'e game_event list" where
  "received l em = map snd (filter (\<lambda>(k, _). k = l) (em_delivered em))"

text \<open>A subscriber of everything: a wildcard listener registered for no single type.\<close>

definition wildcard_only :: "nat \<Rightarrow> 'e emitter \<Rightarrow> bool" where
  "wildcard_only l em \<longleftrightarrow> l \<in> set (em_wildcards em) \<and> distinct (em_wildcards em) \<and>
     (\<forall>(ty, ls) \<in> set (em_listeners em). l \<notin> set ls)"

lemma filter_single: "distinct ls \<Longrightarrow> l \<in> set ls \<Longrightarrow> filter (\<lambda>k. k = l) ls = [l]"
  by (induction ls) (auto simp: filter_empty_conv)

lemma emit_wildcard:
  assumes "wildcard_only l em" "em_emit now e em = (s, em')"
  shows "wildcard_only l em'" "received l em' = received l em @ [s]"
proof -
  have typed: "filter (\<lambda>k. k = l) (case jget (em_listeners em) ty of Some ls \<Rightarrow> ls | None \<Rightarrow> []) = []" for ty
  proof (cases "jget (em_listeners em) ty")
    case (Some ls)
    then have "l \<notin> set ls" using assms(1) by (auto simp: wildcard_only_def dest!: jget_in_set)
    with Some show ?thesis by (auto simp: filter_empty_conv)
  qed simp
  have wild: "filter (\<lambda>k. k = l) (em_wildcards em) = [l]"
    using assms(1) by (auto simp: wildcard_only_def intro: filter_single)
  show "wildcard_only l em'" using assms by (auto simp: wildcard_only_def em_emit_def Let_def)
  show "received l em' = received l em @ [s]"
    using assms(2) typed [of "ev_type e"] wild
    by (auto simp: received_def em_emit_def Let_def filter_map comp_def)
qed

lemma emitAll_spec:
  "em_emitAll clock es em = (ss, em') \<Longrightarrow>
   em_nextSeq em' = em_nextSeq em + int (length es) \<and> length ss = length es \<and>
   map ev_seq ss = map (\<lambda>k. Some (em_nextSeq em + int k)) [0..<length es] \<and>
   map ev_type ss = map ev_type es \<and> map ev_payload ss = map ev_payload es \<and> map ev_playerId ss = map ev_playerId es"
proof (induction es arbitrary: em ss em')
  case (Cons e es)
  obtain s em1 where e: "em_emit (clock (em_nextSeq em)) e em = (s, em1)" by fastforce
  obtain ss' em2 where es: "em_emitAll clock es em1 = (ss', em2)" by fastforce
  have s: "em_nextSeq em1 = em_nextSeq em + 1" "ev_seq s = Some (em_nextSeq em)" "ev_type s = ev_type e"
     "ev_payload s = ev_payload e" "ev_playerId s = ev_playerId e"
    using e by (auto simp: em_emit_def Let_def)
  have upt: "[0..<Suc (length es)] = 0 # map Suc [0..<length es]"
    by (simp add: map_Suc_upt upt_conv_Cons del: upt_Suc)
  from Cons.IH [OF es] Cons.prems e es s show ?case
    by (auto simp: upt comp_def algebra_simps simp del: upt_Suc)
qed simp

lemma emitAll_wildcard:
  "wildcard_only l em \<Longrightarrow> em_emitAll clock es em = (ss, em') \<Longrightarrow>
   wildcard_only l em' \<and> received l em' = received l em @ ss"
proof (induction es arbitrary: em ss em')
  case (Cons e es)
  obtain s em1 where e: "em_emit (clock (em_nextSeq em)) e em = (s, em1)" by fastforce
  obtain ss' em2 where es: "em_emitAll clock es em1 = (ss', em2)" by fastforce
  from emit_wildcard [OF Cons.prems(1) e] Cons.IH [OF _ es] Cons.prems(2) e es
  show ?case by auto
qed simp

section \<open>The journal (action-history.ts)\<close>

record ('p, 'e) history_entry =
  he_seq :: int
  he_at :: int
  he_action :: "'p action"
  he_events :: "'e game_event list"

type_synonym ('p, 'e) history = "('p, 'e) history_entry list"

definition history_append :: "int \<Rightarrow> 'p action \<Rightarrow> 'e game_event list \<Rightarrow> ('p, 'e) history \<Rightarrow> ('p, 'e) history" where
  "history_append now a es h = h @ [\<lparr>he_seq = int (length h) + 1, he_at = now, he_action = a, he_events = es\<rparr>]"

definition history_length :: "('p, 'e) history \<Rightarrow> nat" where
  "history_length h = length h"

definition history_since :: "('p, 'e) history \<Rightarrow> int \<Rightarrow> ('p, 'e) history" where
  "history_since h s = filter (\<lambda>e. he_seq e > s) h"

text \<open>Entries are numbered from 1, so \<open>since n\<close> is the journal without its first \<open>n\<close> entries.\<close>

definition history_wf :: "('p, 'e) history \<Rightarrow> bool" where
  "history_wf h \<longleftrightarrow> (\<forall>i < length h. he_seq (h ! i) = int i + 1)"

lemma history_wf_Nil [simp]: "history_wf []"
  by (simp add: history_wf_def)

lemma history_wf_snoc: "history_wf (h @ [e]) \<longleftrightarrow> history_wf h \<and> he_seq e = int (length h) + 1"
  by (auto simp: history_wf_def nth_append less_Suc_eq)

lemma history_append_wf: "history_wf h \<Longrightarrow> history_wf (history_append now a es h)"
  by (simp add: history_append_def history_wf_snoc)

lemma history_since_drop: "history_wf h \<Longrightarrow> history_since h (int n) = drop n h"
proof (induction h rule: rev_induct)
  case (snoc e h)
  then have wf: "history_wf h" "he_seq e = int (length h) + 1" by (simp_all add: history_wf_snoc)
  have "history_since h (int n) = drop n h" using snoc.IH wf(1) by blast
  moreover have "he_seq e > int n \<longleftrightarrow> n \<le> length h" using wf(2) by linarith
  ultimately show ?case by (auto simp: history_since_def)
qed (simp add: history_since_def)

section \<open>The rule engine (rule.ts, rule-engine.ts)\<close>

record ('s, 'e) rule =
  ru_id :: string
  ru_onEvent :: "'s \<Rightarrow> 'e game_event \<Rightarrow> 'e game_event list"

definition rules_add :: "('s, 'e) rule \<Rightarrow> ('s, 'e) rule list \<Rightarrow> ('s, 'e) rule list" where
  "rules_add r rs = rs @ [r]"

definition follow_ups :: "('s, 'e) rule list \<Rightarrow> 's \<Rightarrow> 'e game_event \<Rightarrow> 'e game_event list" where
  "follow_ups rs s e = concat (map (\<lambda>r. ru_onEvent r s e) rs)"

text \<open>The \<open>while\<close> loop, with the counter \<open>safety\<close> that bounds it.\<close>

fun process_loop ::
  "('s, 'e) rule list \<Rightarrow> 's \<Rightarrow> nat \<Rightarrow> 'e game_event list \<Rightarrow> 'e game_event list \<Rightarrow> exn + 'e game_event list" where
  "process_loop rs s safety [] out = Inr out"
| "process_loop rs s 0 (e # queue) out = Inl RuleCycleLimit"
| "process_loop rs s (Suc safety) (e # queue) out =
     process_loop rs s safety (queue @ follow_ups rs s e) (out @ follow_ups rs s e)"

definition process_event :: "('s, 'e) rule list \<Rightarrow> 's \<Rightarrow> 'e game_event \<Rightarrow> exn + 'e game_event list" where
  "process_event rs s e = process_loop rs s 1000 [e] []"

lemma process_event_no_rules [simp]: "process_event [] s e = Inr []"
  by (simp add: process_event_def follow_ups_def numeral_eq_Suc)

text \<open>
  The queue is always the unprocessed tail of the events seen, so a successful result is the
  closure of the event under the rules: it holds the follow-ups of the event and of every
  follow-up, once each.
\<close>

lemma process_loop_closure:
  "process_loop rs s safety queue out = Inr res \<Longrightarrow>
   e # out = done' @ queue \<Longrightarrow> out = concat (map (follow_ups rs s) done') \<Longrightarrow>
   res = concat (map (follow_ups rs s) (e # res)) \<and> length (e # res) \<le> length done' + safety"
proof (induction rs s safety queue out arbitrary: done' rule: process_loop.induct)
  case (1 rs s safety out)
  then show ?case by auto
next
  case (3 rs s safety x queue out)
  have "process_loop rs s safety (queue @ follow_ups rs s x) (out @ follow_ups rs s x) = Inr res"
    using 3(2) by simp
  moreover have "e # (out @ follow_ups rs s x) = (done' @ [x]) @ (queue @ follow_ups rs s x)"
    using 3(3) by (metis append_Cons append_Nil append_assoc)
  moreover have "out @ follow_ups rs s x = concat (map (follow_ups rs s) (done' @ [x]))"
    using 3(4) by simp
  ultimately show ?case using 3(1) [of "done' @ [x]"] by simp
qed simp

lemma process_loop_complete:
  "(\<exists>res. process_loop rs s safety queue out = Inr res) \<or> process_loop rs s safety queue out = Inl RuleCycleLimit"
  by (induction rs s safety queue out rule: process_loop.induct) auto

lemma process_event_closure:
  "process_event rs s e = Inr res \<Longrightarrow>
   res = concat (map (follow_ups rs s) (e # res)) \<and> length res < 1000"
  using process_loop_closure [of rs s 1000 "[e]" "[]" res e "[]"] by (simp add: process_event_def)

section \<open>The lifecycle (state-machine.ts)\<close>

datatype game_status = Lobby | Setup | Playing | Ended

fun TRANSITIONS :: "game_status \<Rightarrow> game_status list" where
  "TRANSITIONS Lobby = [Setup, Ended]"
| "TRANSITIONS Setup = [Playing, Ended]"
| "TRANSITIONS Playing = [Ended]"
| "TRANSITIONS Ended = []"

fun status_name :: "game_status \<Rightarrow> string" where
  "status_name Lobby = ''lobby''"
| "status_name Setup = ''setup''"
| "status_name Playing = ''playing''"
| "status_name Ended = ''ended''"

definition canTransitionTo :: "game_status \<Rightarrow> game_status \<Rightarrow> bool" where
  "canTransitionTo cur new = (new \<in> set (TRANSITIONS cur))"

definition transitionTo :: "game_status \<Rightarrow> (game_status, unit) effect" where
  "transitionTo new cur =
     (if \<not> canTransitionTo cur new then (Inl (IllegalStatusTransition (status_name cur) (status_name new)), cur)
      else (Inr (), new))"

fun status_rank :: "game_status \<Rightarrow> nat" where
  "status_rank Lobby = 0"
| "status_rank Setup = 1"
| "status_rank Playing = 2"
| "status_rank Ended = 3"

lemma transitionTo_forward:
  "transitionTo new cur = (Inr (), cur') \<Longrightarrow> cur' = new \<and> status_rank cur < status_rank cur'"
  by (cases cur; cases new) (auto simp: transitionTo_def canTransitionTo_def)

lemma transitionTo_error: "transitionTo new cur = (Inl e, cur') \<Longrightarrow> cur' = cur"
  by (auto simp: transitionTo_def split: if_splits)

section \<open>Properties of rules and of the journal\<close>

text \<open> C37: The rule engine returns the closure of an event under the rules, each follow-up processed
  once and fewer than a thousand of them, or reports that the limit was hit. \<close>
theorem rule_engine_closure:
  "case process_event rs s e of
     Inr res \<Rightarrow> res = concat (map (follow_ups rs s) (e # res)) \<and> length res < 1000
   | Inl x \<Rightarrow> x = RuleCycleLimit"
  using process_event_closure [of rs s e] process_loop_complete [of rs s 1000 "[e]" "[]"]
  by (auto simp: process_event_def split: sum.split)

text \<open> The journal records the submitted actions in order, and \<open>since n\<close> returns everything
  after its first \<open>n\<close> entries. \<close>
lemma journal_since:
  "let h = fold (\<lambda>(now, a, es). history_append now a es) entries []
   in map he_action h = map (fst \<circ> snd) entries \<and> history_length h = length entries \<and>
      history_since h (int n) = drop n h \<and> map he_seq h = map (\<lambda>i. int i + 1) [0..<length entries]"
proof -
  define h where "h es = fold (\<lambda>(now, a, es). history_append now a es) es []" for es :: "(int \<times> 'a action \<times> 'b game_event list) list"
  have wf: "history_wf (h es)" for es by (induction es rule: rev_induct) (auto simp: h_def history_append_wf)
  have acts: "map he_action (h es) = map (fst \<circ> snd) es" for es
    by (induction es rule: rev_induct) (auto simp: h_def history_append_def)
  have len: "length (h es) = length es" for es using arg_cong [OF acts [of es], of length] by simp
  have "map he_seq (h entries) = map (\<lambda>i. int i + 1) [0..<length entries]"
    using wf [of entries] len [of entries] by (intro nth_equalityI) (auto simp: history_wf_def)
  then show ?thesis
    unfolding Let_def h_def [symmetric] by (simp add: acts len history_length_def history_since_drop [OF wf])
qed

end
