(* ===== verification/Game.thy ===== *)
theory Game
  imports GameMap SeededRng Inventory Rounds Pieces Events
begin

text \<open>
  The engine core: the state of one game (\<open>state/game-state.ts\<close>), the registries of validators,
  executors and victory conditions, the scenario record and the factory (\<open>setup/\<close>), and the
  orchestrator \<open>game.ts\<close>. The contract between a scenario and the engine is the locale
  \<open>action_system\<close>, under which \<open>submit\<close> is shown never to throw.
\<close>

section \<open>The state (game-state.ts)\<close>

text \<open>
  \<open>extras\<close>, the variant-specific bag, is a type parameter; the cards of decks and hands are
  the framework's cards; the random source is the seeded generator \<open>createGameState\<close> installs.
\<close>

record ('x, 'p, 'e) game_state =
  gs_gameId :: string
  gs_scenarioId :: string
  gs_status :: game_status
  gs_map :: game_map
  gs_players :: player_manager
  gs_inventories :: "(string, inventory) jsmap"
  gs_bank :: resource_pool
  gs_decks :: "(string, card deck) jsmap"
  gs_hands :: "(string, (string, hand) jsmap) jsmap"
  gs_pieces :: "(string, piece) jsmap"
  gs_rounds :: "turn_order round_manager"
  gs_rng :: seeded
  gs_history :: "('p, 'e) history"
  gs_extras :: 'x

section \<open>What the scenarios share of the state\<close>

text \<open>\<open>action.playerId!\<close>: a missing player identifier is read as the empty string.\<close>

definition actor :: "'p action \<Rightarrow> string" where
  "actor a = (case ac_playerId a of Some p \<Rightarrow> p | None \<Rightarrow> [])"

definition put_inventory :: "string \<Rightarrow> inventory \<Rightarrow> ('x, 'p, 'e) game_state \<Rightarrow> ('x, 'p, 'e) game_state" where
  "put_inventory playerId bag s = s\<lparr>gs_inventories := jput playerId bag (gs_inventories s)\<rparr>"

definition place_piece :: "piece \<Rightarrow> ('x, 'p, 'e) game_state \<Rightarrow> ('x, 'p, 'e) game_state" where
  "place_piece p s = s\<lparr>gs_pieces := jput (pc_id p) p (gs_pieces s)\<rparr>"

definition invs_ok :: "('x, 'p, 'e) game_state \<Rightarrow> bool" where
  "invs_ok s \<longleftrightarrow> (\<forall>p bag. jget (gs_inventories s) p = Some bag \<longrightarrow> inv_ok bag)"

lemma invs_okD: "invs_ok s \<Longrightarrow> jget (gs_inventories s) p = Some bag \<Longrightarrow> inv_ok bag"
  by (simp add: invs_ok_def)

lemma invs_ok_put: "invs_ok s \<Longrightarrow> inv_ok bag \<Longrightarrow> invs_ok (put_inventory p bag s)"
  by (auto simp: invs_ok_def put_inventory_def)

definition players_ok :: "player_manager \<Rightarrow> (string, inventory) jsmap \<Rightarrow> string \<Rightarrow> bool" where
  "players_ok pm invs cur \<longleftrightarrow> pm_wf pm \<and> cur \<in> pl_id ` set (pm_bySeat pm) \<and>
     (\<forall>p \<in> set (pm_bySeat pm). pl_id p \<noteq> [] \<and> jget invs (pl_id p) \<noteq> None)"

lemma jget_fold_inventories:
  "jget (fold (\<lambda>p. jput (pl_id p) []) ps m) i = (if i \<in> pl_id ` set ps then Some [] else jget m i)"
  by (induction ps arbitrary: m) auto

lemma distinct_fold_inventories:
  "distinct (jkeys m) \<Longrightarrow> distinct (jkeys (fold (\<lambda>p. jput (pl_id p) []) ps m))"
  by (induction ps arbitrary: m) auto

text \<open>A roster the lobby may hand over: two to four players with distinct, non-empty identifiers.\<close>

definition roster_ok :: "player list \<Rightarrow> bool" where
  "roster_ok ps \<longleftrightarrow> 2 \<le> length ps \<and> length ps \<le> 4 \<and> distinct (map pl_id ps) \<and> [] \<notin> pl_id ` set ps \<and> list_ex is_active ps"

section \<open>Validators and executors (action-validator.ts, action-executor.ts)\<close>

record ('x, 'p, 'e) validator =
  va_type :: string
  va_validate :: "('x, 'p, 'e) game_state \<Rightarrow> 'p action \<Rightarrow> exn + action_error option"

record ('x, 'p, 'e) executor =
  ex_type :: string
  ex_execute :: "'p action \<Rightarrow> (('x, 'p, 'e) game_state, 'e game_event list) effect"

type_synonym ('x, 'p, 'e) validator_registry = "(string, ('x, 'p, 'e) validator) jsmap"
type_synonym ('x, 'p, 'e) executor_registry = "(string, ('x, 'p, 'e) executor) jsmap"

definition registerValidator :: "('x, 'p, 'e) validator \<Rightarrow> ('x, 'p, 'e) validator_registry \<Rightarrow> exn + ('x, 'p, 'e) validator_registry" where
  "registerValidator v m = reg_insert (va_type v) v m"

definition registerExecutor :: "('x, 'p, 'e) executor \<Rightarrow> ('x, 'p, 'e) executor_registry \<Rightarrow> exn + ('x, 'p, 'e) executor_registry" where
  "registerExecutor x m = reg_insert (ex_type x) x m"

definition getValidator :: "('x, 'p, 'e) validator_registry \<Rightarrow> string \<Rightarrow> ('x, 'p, 'e) validator option" where
  "getValidator m ty = jget m ty"

definition getExecutor :: "('x, 'p, 'e) executor_registry \<Rightarrow> string \<Rightarrow> ('x, 'p, 'e) executor option" where
  "getExecutor m ty = jget m ty"

interpretation validators: registry registerValidator getValidator va_type
  unfolding registerValidator_def getValidator_def by (rule registry_reg_insert)

interpretation executors: registry registerExecutor getExecutor ex_type
  unfolding registerExecutor_def getExecutor_def by (rule registry_reg_insert)

definition validate_action ::
  "('x, 'p, 'e) validator_registry \<Rightarrow> ('x, 'p, 'e) game_state \<Rightarrow> 'p action \<Rightarrow> exn + action_error option" where
  "validate_action m s a =
     (case getValidator m (ac_type a) of
        None \<Rightarrow> Inr (Some (actionError ''unknown-action''))
      | Some v \<Rightarrow> va_validate v s a)"

definition execute_action ::
  "('x, 'p, 'e) executor_registry \<Rightarrow> 'p action \<Rightarrow> (('x, 'p, 'e) game_state, 'e game_event list) effect" where
  "execute_action m a s =
     (case getExecutor m (ac_type a) of
        None \<Rightarrow> (Inl (NotRegistered (ac_type a)), s)
      | Some x \<Rightarrow> ex_execute x a s)"

section \<open>Victory conditions (victory-condition.ts)\<close>

record 's victory_condition =
  vc_id :: string
  vc_evaluate :: "'s \<Rightarrow> exn + victory_result option"

definition victories_add :: "'s victory_condition \<Rightarrow> 's victory_condition list \<Rightarrow> 's victory_condition list" where
  "victories_add c cs = cs @ [c]"

fun evaluate_victory :: "'s victory_condition list \<Rightarrow> 's \<Rightarrow> exn + victory_result option" where
  "evaluate_victory [] s = Inr None"
| "evaluate_victory (c # cs) s =
     (case vc_evaluate c s of
        Inl x \<Rightarrow> Inl x
      | Inr (Some r) \<Rightarrow> Inr (Some r)
      | Inr None \<Rightarrow> evaluate_victory cs s)"

section \<open>Scenarios and the factory (scenario.ts, game-setup.ts)\<close>

record ('x, 'p, 'e) scenario =
  sc_id :: string
  sc_name :: string
  sc_minPlayers :: int
  sc_maxPlayers :: int
  sc_terrains :: terrain_registry
  sc_resources :: resource_registry
  sc_pieces :: piece_registry
  sc_phases :: "phase list"
  sc_initialPhaseId :: string
  sc_turnOrder :: turn_order
  sc_validators :: "('x, 'p, 'e) validator list"
  sc_executors :: "('x, 'p, 'e) executor list"
  sc_rules :: "(('x, 'p, 'e) game_state, 'e) rule list"
  sc_victoryConditions :: "('x, 'p, 'e) game_state victory_condition list"
  sc_buildMap :: "nat \<Rightarrow> string \<Rightarrow> exn + game_map"
  sc_onSetup :: "(player list \<Rightarrow> (('x, 'p, 'e) game_state, unit) effect) option"
  sc_initialExtras :: 'x

definition initial_state ::
  "string \<Rightarrow> ('x, 'p, 'e) scenario \<Rightarrow> player list \<Rightarrow> string \<Rightarrow> game_map \<Rightarrow> turn_order round_manager \<Rightarrow> ('x, 'p, 'e) game_state" where
  "initial_state gameId sc players seed m rounds =
     \<lparr>gs_gameId = gameId, gs_scenarioId = sc_id sc, gs_status = Setup, gs_map = m,
      gs_players = newPlayerManager players,
      gs_inventories = fold (\<lambda>p. jput (pl_id p) (newInventory [])) players [],
      gs_bank = newInventory [], gs_decks = [], gs_hands = [], gs_pieces = [], gs_rounds = rounds,
      gs_rng = newSeededRandom (seedFromString seed), gs_history = [], gs_extras = sc_initialExtras sc\<rparr>"

definition createGameState ::
  "string \<Rightarrow> ('x, 'p, 'e) scenario \<Rightarrow> player list \<Rightarrow> string \<Rightarrow> exn + ('x, 'p, 'e) game_state" where
  "createGameState gameId sc players seed =
     (if int (length players) < sc_minPlayers sc \<or> int (length players) > sc_maxPlayers sc
      then Inl (WrongPlayerCount (sc_id sc) (sc_minPlayers sc) (sc_maxPlayers sc) (int (length players)))
      else case sc_buildMap sc (length players) seed of
             Inl x \<Rightarrow> Inl x
           | Inr m \<Rightarrow>
             (case newRoundManager players (sc_turnOrder sc) (sc_phases sc) (sc_initialPhaseId sc) of
                Inl x \<Rightarrow> Inl x
              | Inr rounds \<Rightarrow>
                  let s = initial_state gameId sc players seed m rounds
                  in case sc_onSetup sc of
                       None \<Rightarrow> Inr s
                     | Some setup' \<Rightarrow>
                         (case setup' players s of (Inl x, s') \<Rightarrow> Inl x | (Inr _, s') \<Rightarrow> Inr s')))"

section \<open>The orchestrator (game.ts)\<close>

record ('x, 'p, 'e) game =
  g_state :: "('x, 'p, 'e) game_state"
  g_events :: "'e emitter"
  g_validators :: "('x, 'p, 'e) validator_registry"
  g_executors :: "('x, 'p, 'e) executor_registry"
  g_rules :: "(('x, 'p, 'e) game_state, 'e) rule list"
  g_victories :: "('x, 'p, 'e) game_state victory_condition list"
  g_machine :: game_status

definition newGame :: "('x, 'p, 'e) game_state \<Rightarrow> ('x, 'p, 'e) scenario \<Rightarrow> exn + ('x, 'p, 'e) game" where
  "newGame s sc =
     (case validators.register_all (sc_validators sc) [] of
        Inl x \<Rightarrow> Inl x
      | Inr vs \<Rightarrow>
        (case executors.register_all (sc_executors sc) [] of
           Inl x \<Rightarrow> Inl x
         | Inr xs \<Rightarrow>
             Inr \<lparr>g_state = s, g_events = newEmitter, g_validators = vs, g_executors = xs,
                  g_rules = fold rules_add (sc_rules sc) [],
                  g_victories = fold victories_add (sc_victoryConditions sc) [],
                  g_machine = gs_status s\<rparr>))"

definition game_start :: "('x, 'p, 'e) game \<Rightarrow> ('x, 'p, 'e) game" where
  "game_start g =
     (if g_machine g = Setup
      then g\<lparr>g_machine := snd (transitionTo Playing (g_machine g)),
             g_state := (g_state g)\<lparr>gs_status := Playing\<rparr>\<rparr>
      else g)"

text \<open>\<open>stamped.flatMap((e) => this.rules.process(this.state, e))\<close>\<close>

fun process_all :: "('s, 'e) rule list \<Rightarrow> 's \<Rightarrow> 'e game_event list \<Rightarrow> exn + 'e game_event list" where
  "process_all rs s [] = Inr []"
| "process_all rs s (e # es) =
     (case process_event rs s e of
        Inl x \<Rightarrow> Inl x
      | Inr fs \<Rightarrow> (case process_all rs s es of Inl x \<Rightarrow> Inl x | Inr gs \<Rightarrow> Inr (fs @ gs)))"

datatype 'e action_result = Rejected action_error | Accepted "'e game_event list"

text \<open>
  The clock is read at every stamp (as a function of the sequence number) and at every journal
  entry (as a function of the number of entries).
\<close>

record clock =
  ck_stamp :: "int \<Rightarrow> int"
  ck_append :: "nat \<Rightarrow> int"

definition finish_submit ::
  "clock \<Rightarrow> 'e game_event list \<Rightarrow> ('x, 'p, 'e) game \<Rightarrow> (exn + 'e action_result) \<times> ('x, 'p, 'e) game" where
  "finish_submit ck all g =
     (case evaluate_victory (g_victories g) (g_state g) of
        Inl x \<Rightarrow> (Inl x, g)
      | Inr None \<Rightarrow> (Inr (Accepted all), g)
      | Inr (Some v) \<Rightarrow>
          (case transitionTo Ended (g_machine g) of
             (Inl x, _) \<Rightarrow> (Inl x, g)
           | (Inr _, mach) \<Rightarrow>
               let (ended, em) = em_emit (ck_stamp ck (em_nextSeq (g_events g)))
                     \<lparr>ev_type = ''game-ended'', ev_seq = None, ev_at = None, ev_playerId = None,
                      ev_payload = GameEndedPayload v, ev_privateTo = None\<rparr> (g_events g)
               in (Inr (Accepted (all @ [ended])),
                   g\<lparr>g_machine := mach, g_state := (g_state g)\<lparr>gs_status := Ended\<rparr>, g_events := em\<rparr>)))"

definition submit :: "clock \<Rightarrow> 'p action \<Rightarrow> (('x, 'p, 'e) game, 'e action_result) effect" where
  "submit ck a g =
     (case validate_action (g_validators g) (g_state g) a of
        Inl x \<Rightarrow> (Inl x, g)
      | Inr (Some err) \<Rightarrow> (Inr (Rejected err), g)
      | Inr None \<Rightarrow>
        (case execute_action (g_executors g) a (g_state g) of
           (Inl x, s) \<Rightarrow> (Inl x, g\<lparr>g_state := s\<rparr>)
         | (Inr primary, s) \<Rightarrow>
             let (stamped, em1) = em_emitAll (ck_stamp ck) primary (g_events g)
             in case process_all (g_rules g) s stamped of
                  Inl x \<Rightarrow> (Inl x, g\<lparr>g_state := s, g_events := em1\<rparr>)
                | Inr followUps \<Rightarrow>
                    let (stampedFollow, em2) = em_emitAll (ck_stamp ck) followUps em1;
                        all = stamped @ stampedFollow;
                        s' = s\<lparr>gs_history := history_append (ck_append ck (length (gs_history s))) a all (gs_history s)\<rparr>
                    in finish_submit ck all (g\<lparr>g_state := s', g_events := em2\<rparr>)))"

section \<open>Construction\<close>

lemma fold_victories_add [simp]: "fold victories_add cs acc = acc @ cs"
  by (induction cs arbitrary: acc) (simp_all add: victories_add_def)

lemma fold_rules_add [simp]: "fold rules_add rs acc = acc @ rs"
  by (induction rs arbitrary: acc) (simp_all add: rules_add_def)

text \<open>A scenario whose action types are pairwise distinct can be loaded, and each is found.\<close>

lemma case_option_Some [simp]: "(case x of None \<Rightarrow> None | Some d \<Rightarrow> Some d) = x"
  by (cases x) simp_all

lemma newGame_ok:
  assumes "distinct (map va_type (sc_validators sc))" "distinct (map ex_type (sc_executors sc))"
  shows "\<exists>g. newGame s sc = Inr g \<and> g_state g = s \<and> g_machine g = gs_status s \<and> g_events g = newEmitter \<and>
     g_rules g = sc_rules sc \<and> g_victories g = sc_victoryConditions sc \<and>
     (\<forall>ty. getValidator (g_validators g) ty = map_of (map (\<lambda>v. (va_type v, v)) (sc_validators sc)) ty) \<and>
     (\<forall>ty. getExecutor (g_executors g) ty = map_of (map (\<lambda>x. (ex_type x, x)) (sc_executors sc)) ty)"
proof -
  obtain vs where vs: "validators.register_all (sc_validators sc) [] = Inr vs"
     "\<forall>k. getValidator vs k = map_of (map (\<lambda>v. (va_type v, v)) (sc_validators sc)) k"
    using validators.register_all_distinct [OF assms(1), of "[]"] by (auto simp only: getValidator_def map_of.simps case_option_Some)
  obtain xs where xs: "executors.register_all (sc_executors sc) [] = Inr xs"
     "\<forall>k. getExecutor xs k = map_of (map (\<lambda>v. (ex_type v, v)) (sc_executors sc)) k"
    using executors.register_all_distinct [OF assms(2), of "[]"] by (auto simp only: getExecutor_def map_of.simps case_option_Some)
  from vs xs show ?thesis by (simp add: newGame_def)
qed

section \<open>One submission\<close>

lemma process_all_no_rules [simp]: "process_all [] s es = Inr []"
  by (induction es) simp_all

lemma finish_submit_cases:
  assumes "finish_submit ck all g = (r, g')"
  obtains (error) x where "r = Inl x" "g' = g"
  | (open') "evaluate_victory (g_victories g) (g_state g) = Inr None" "r = Inr (Accepted all)" "g' = g"
  | (ended) v e em where "evaluate_victory (g_victories g) (g_state g) = Inr (Some v)"
      "canTransitionTo (g_machine g) Ended" "r = Inr (Accepted (all @ [e]))"
      "em_emit (ck_stamp ck (em_nextSeq (g_events g)))
         \<lparr>ev_type = ''game-ended'', ev_seq = None, ev_at = None, ev_playerId = None,
          ev_payload = GameEndedPayload v, ev_privateTo = None\<rparr> (g_events g) = (e, em)"
      "g' = g\<lparr>g_machine := Ended, g_state := (g_state g)\<lparr>gs_status := Ended\<rparr>, g_events := em\<rparr>"
  using assms
  by (auto simp: finish_submit_def transitionTo_def split: sum.splits option.splits if_splits prod.splits)

text \<open>The ways a submission can go, one rule for every proof about it.\<close>

lemma submit_cases:
  assumes "submit ck a g = (r, g')"
  obtains (validator_throws) x where "validate_action (g_validators g) (g_state g) a = Inl x" "r = Inl x" "g' = g"
  | (rejected) err where "validate_action (g_validators g) (g_state g) a = Inr (Some err)" "r = Inr (Rejected err)" "g' = g"
  | (executor_throws) x s where "validate_action (g_validators g) (g_state g) a = Inr None"
      "execute_action (g_executors g) a (g_state g) = (Inl x, s)" "r = Inl x" "g' = g\<lparr>g_state := s\<rparr>"
  | (rules_throw) x s primary stamped em1 where "validate_action (g_validators g) (g_state g) a = Inr None"
      "execute_action (g_executors g) a (g_state g) = (Inr primary, s)"
      "em_emitAll (ck_stamp ck) primary (g_events g) = (stamped, em1)"
      "process_all (g_rules g) s stamped = Inl x" "r = Inl x" "g' = g\<lparr>g_state := s, g_events := em1\<rparr>"
  | (finished) s primary stamped em1 followUps em2 stampedFollow where
      "validate_action (g_validators g) (g_state g) a = Inr None"
      "execute_action (g_executors g) a (g_state g) = (Inr primary, s)"
      "em_emitAll (ck_stamp ck) primary (g_events g) = (stamped, em1)"
      "process_all (g_rules g) s stamped = Inr followUps"
      "em_emitAll (ck_stamp ck) followUps em1 = (stampedFollow, em2)"
      "finish_submit ck (stamped @ stampedFollow)
         (g\<lparr>g_state := s\<lparr>gs_history := history_append (ck_append ck (length (gs_history s))) a (stamped @ stampedFollow) (gs_history s)\<rparr>,
            g_events := em2\<rparr>) = (r, g')"
proof (cases "validate_action (g_validators g) (g_state g) a")
  case (Inl x)
  with assms show ?thesis by (intro validator_throws) (auto simp: submit_def)
next
  case v: (Inr err)
  show ?thesis
  proof (cases err)
    case (Some e)
    with v assms show ?thesis by (intro rejected) (auto simp: submit_def)
  next
    case None
    obtain p s where x: "execute_action (g_executors g) a (g_state g) = (p, s)" by fastforce
    show ?thesis
    proof (cases p)
      case (Inl y)
      with v None x assms show ?thesis by (intro executor_throws) (auto simp: submit_def)
    next
      case p: (Inr primary)
      obtain st em1 where st: "em_emitAll (ck_stamp ck) primary (g_events g) = (st, em1)" by fastforce
      show ?thesis
      proof (cases "process_all (g_rules g) s st")
        case (Inl y)
        with v None x p st assms show ?thesis by (intro rules_throw) (auto simp: submit_def)
      next
        case f: (Inr followUps)
        obtain sf em2 where "em_emitAll (ck_stamp ck) followUps em1 = (sf, em2)" by fastforce
        with v None x p st f assms show ?thesis by (intro finished) (simp_all add: submit_def Let_def)
      qed
    qed
  qed
qed

lemma finish_not_rejected: "finish_submit ck all g \<noteq> (Inr (Rejected err), g')"
  by (auto simp: finish_submit_def Let_def split: sum.splits option.splits prod.splits)

text \<open>A rejected action leaves the game as it was.\<close>

lemma submit_rejected:
  assumes "submit ck a g = (Inr (Rejected err), g')"
  shows "g' = g \<and> validate_action (g_validators g) (g_state g) a = Inr (Some err)"
  using assms by (cases rule: submit_cases) (auto simp: finish_not_rejected)

text \<open>
  The events of an accepted action are numbered consecutively from the emitter's counter, and a
  subscriber of everything receives exactly them, in order.
\<close>

lemma seqs_append:
  "map ev_seq ss = map (\<lambda>k. Some (n + int k)) [0..<a] \<Longrightarrow> map ev_seq ts = map (\<lambda>k. Some (n + int a + int k)) [0..<b] \<Longrightarrow>
   map ev_seq (ss @ ts) = map (\<lambda>k. Some (n + int k)) [0..<a + b]"
proof -
  assume h: "map ev_seq ss = map (\<lambda>k. Some (n + int k)) [0..<a]" "map ev_seq ts = map (\<lambda>k. Some (n + int a + int k)) [0..<b]"
  have "map (\<lambda>k. Some (n + int k)) [a..<a + b] = map (\<lambda>k. Some (n + int a + int k)) [0..<b]"
    by (induction b) simp_all
  moreover have "[0..<a + b] = [0..<a] @ [a..<a + b]" by (rule upt_add_eq_append) simp
  ultimately show ?thesis using h by (simp only: map_append)
qed

lemma submit_accepted:
  assumes "submit ck a g = (Inr (Accepted evs), g')"
  obtains s primary st em1 followUps em2 sf where
    "validate_action (g_validators g) (g_state g) a = Inr None"
    "execute_action (g_executors g) a (g_state g) = (Inr primary, s)"
    "em_emitAll (ck_stamp ck) primary (g_events g) = (st, em1)"
    "process_all (g_rules g) s st = Inr followUps"
    "em_emitAll (ck_stamp ck) followUps em1 = (sf, em2)"
    "finish_submit ck (st @ sf)
       (g\<lparr>g_state := s\<lparr>gs_history := history_append (ck_append ck (length (gs_history s))) a (st @ sf) (gs_history s)\<rparr>,
          g_events := em2\<rparr>) = (Inr (Accepted evs), g')"
  using assms
proof (cases rule: submit_cases)
  case (finished s primary stamped em1 followUps em2 stampedFollow)
  then show ?thesis by (rule that)
qed simp_all

lemma submit_events:
  assumes "submit ck a g = (Inr (Accepted evs), g')"
  shows "map ev_seq evs = map (\<lambda>k. Some (em_nextSeq (g_events g) + int k)) [0..<length evs]"
    "em_nextSeq (g_events g') = em_nextSeq (g_events g) + int (length evs)"
    "wildcard_only l (g_events g) \<Longrightarrow> wildcard_only l (g_events g') \<and> received l (g_events g') = received l (g_events g) @ evs"
proof -
  obtain s primary st em1 followUps em2 sf where
    p: "em_emitAll (ck_stamp ck) primary (g_events g) = (st, em1)"
       "em_emitAll (ck_stamp ck) followUps em1 = (sf, em2)" and
    f: "finish_submit ck (st @ sf)
       (g\<lparr>g_state := s\<lparr>gs_history := history_append (ck_append ck (length (gs_history s))) a (st @ sf) (gs_history s)\<rparr>,
          g_events := em2\<rparr>) = (Inr (Accepted evs), g')"
    using assms by (rule submit_accepted)
  note s1 = emitAll_spec [OF p(1)] and s2 = emitAll_spec [OF p(2)]
  have all: "map ev_seq (st @ sf) = map (\<lambda>k. Some (em_nextSeq (g_events g) + int k)) [0..<length st + length sf]"
    using s1 s2 by (intro seqs_append) auto
  have nxt: "em_nextSeq em2 = em_nextSeq (g_events g) + int (length st + length sf)"
    using s1 s2 by simp
  have wild: "wildcard_only l (g_events g) \<Longrightarrow> wildcard_only l em2 \<and> received l em2 = received l (g_events g) @ st @ sf"
    using emitAll_wildcard [OF _ p(1), of l] emitAll_wildcard [OF _ p(2), of l] by auto
  from f have "map ev_seq evs = map (\<lambda>k. Some (em_nextSeq (g_events g) + int k)) [0..<length evs] \<and>
    em_nextSeq (g_events g') = em_nextSeq (g_events g) + int (length evs) \<and>
    (wildcard_only l (g_events g) \<longrightarrow> wildcard_only l (g_events g') \<and> received l (g_events g') = received l (g_events g) @ evs)"
  proof (cases rule: finish_submit_cases)
    case (error x)
    then show ?thesis by simp
  next
    case open'
    with all nxt wild show ?thesis by simp
  next
    case (ended v e em)
    have e: "ev_seq e = Some (em_nextSeq em2)" "em_nextSeq em = em_nextSeq em2 + 1"
      using ended(4) by (auto simp: em_emit_def Let_def)
    have "wildcard_only l em2 \<Longrightarrow> wildcard_only l em \<and> received l em = received l em2 @ [e]"
      using emit_wildcard [of l em2 _ _ e em] ended(4) by auto
    with ended all nxt wild e show ?thesis by simp
  qed
  then show "map ev_seq evs = map (\<lambda>k. Some (em_nextSeq (g_events g) + int k)) [0..<length evs]"
    "em_nextSeq (g_events g') = em_nextSeq (g_events g) + int (length evs)"
    "wildcard_only l (g_events g) \<Longrightarrow> wildcard_only l (g_events g') \<and> received l (g_events g') = received l (g_events g) @ evs"
    by blast+
qed

text \<open>
  A series of submissions by a host that drops the game once it has ended.
\<close>

fun play :: "clock \<Rightarrow> 'p action list \<Rightarrow> (('x, 'p, 'e) game, 'e action_result list) effect" where
  "play ck [] g = (Inr [], g)"
| "play ck (a # as) g =
     (if g_machine g = Ended then (Inr [], g)
      else case submit ck a g of
             (Inl e, g') \<Rightarrow> (Inl e, g')
           | (Inr r, g') \<Rightarrow>
               (case play ck as g' of
                  (Inl e, g'') \<Rightarrow> (Inl e, g'')
                | (Inr rs, g'') \<Rightarrow> (Inr (r # rs), g'')))"

text \<open>The whole life of a game: create the state, construct the game, start it and play it.\<close>

definition host_play ::
  "clock \<Rightarrow> string \<Rightarrow> ('x, 'p, 'e) scenario \<Rightarrow> player list \<Rightarrow> string \<Rightarrow> 'p action list \<Rightarrow>
   exn + 'e action_result list \<times> ('x, 'p, 'e) game" where
  "host_play ck gameId sc players seed as =
     (case createGameState gameId sc players seed of
        Inl e \<Rightarrow> Inl e
      | Inr s \<Rightarrow>
        (case newGame s sc of
           Inl e \<Rightarrow> Inl e
         | Inr g \<Rightarrow> (case play ck as (game_start g) of (Inl e, _) \<Rightarrow> Inl e | (Inr rs, g') \<Rightarrow> Inr (rs, g'))))"

section \<open>The contract between a scenario and the engine\<close>

text \<open>
  A scenario plays by the rules when, in every state that satisfies its invariant, its validators
  and victory conditions return, its rules reach no cycle, and the executor of an action its
  validator accepted returns, keeps the invariant and touches neither the lifecycle status nor the
  journal, which belong to the engine.
\<close>

locale action_system =
  fixes vs :: "('x, 'p, 'e) validator_registry"
    and xs :: "('x, 'p, 'e) executor_registry"
    and rs :: "(('x, 'p, 'e) game_state, 'e) rule list"
    and vics :: "('x, 'p, 'e) game_state victory_condition list"
    and invariant :: "('x, 'p, 'e) game_state \<Rightarrow> bool"
  assumes validate_total: "invariant s \<Longrightarrow> \<exists>r. validate_action vs s a = Inr r"
    and execute_total: "invariant s \<Longrightarrow> validate_action vs s a = Inr None \<Longrightarrow>
          \<exists>es s'. execute_action xs a s = (Inr es, s') \<and> invariant s' \<and> gs_status s' = gs_status s \<and> gs_history s' = gs_history s"
    and rules_total: "invariant s \<Longrightarrow> \<exists>fs. process_all rs s es = Inr fs"
    and victory_total: "invariant s \<Longrightarrow> \<exists>v. evaluate_victory vics s = Inr v"
    and invariant_history: "invariant (s\<lparr>gs_history := h\<rparr>) = invariant s"
    and invariant_status: "invariant (s\<lparr>gs_status := st\<rparr>) = invariant s"

definition game_loaded ::
  "('x, 'p, 'e) validator_registry \<Rightarrow> ('x, 'p, 'e) executor_registry \<Rightarrow> (('x, 'p, 'e) game_state, 'e) rule list \<Rightarrow>
   ('x, 'p, 'e) game_state victory_condition list \<Rightarrow> (('x, 'p, 'e) game_state \<Rightarrow> bool) \<Rightarrow> ('x, 'p, 'e) game \<Rightarrow> bool" where
  "game_loaded vs xs rs vics P g \<longleftrightarrow> g_validators g = vs \<and> g_executors g = xs \<and> g_rules g = rs \<and> g_victories g = vics \<and>
     P (g_state g) \<and> g_machine g = gs_status (g_state g) \<and> history_wf (gs_history (g_state g))"

context action_system
begin

text \<open>While the game is being played, every submission returns and the contract is kept.\<close>

lemma submit_total:
  assumes l: "game_loaded vs xs rs vics invariant g" and playing: "g_machine g = Playing"
  shows "\<exists>r g'. submit ck a g = (Inr r, g') \<and> game_loaded vs xs rs vics invariant g' \<and>
     (g_machine g' = Playing \<or> g_machine g' = Ended) \<and>
     (case r of Rejected e \<Rightarrow> g' = g
      | Accepted evs \<Rightarrow> length (gs_history (g_state g')) = length (gs_history (g_state g)) + 1 \<and>
          (g_machine g' = Ended \<longleftrightarrow> evaluate_victory vics (g_state g'\<lparr>gs_status := Playing\<rparr>) \<noteq> Inr None))"
proof -
  have g: "g_validators g = vs" "g_executors g = xs" "g_rules g = rs" "g_victories g = vics" "invariant (g_state g)"
     "gs_status (g_state g) = Playing" "history_wf (gs_history (g_state g))"
    using assms by (auto simp: game_loaded_def)
  obtain v where v: "validate_action vs (g_state g) a = Inr v" using validate_total [OF g(5)] by blast
  show ?thesis
  proof (cases v)
    case (Some err)
    with v g assms show ?thesis by (auto simp: submit_def)
  next
    case None
    obtain es s where x: "execute_action xs a (g_state g) = (Inr es, s)" and s: "invariant s" "gs_status s = Playing"
        "gs_history s = gs_history (g_state g)"
      using execute_total [OF g(5)] v None g(6) by metis
    obtain st em1 where st: "em_emitAll (ck_stamp ck) es (g_events g) = (st, em1)" by fastforce
    obtain fs where fs: "process_all rs s st = Inr fs" using rules_total [OF s(1)] by blast
    obtain sf em2 where sf: "em_emitAll (ck_stamp ck) fs em1 = (sf, em2)" by fastforce
    define s' where "s' = s\<lparr>gs_history := history_append (ck_append ck (length (gs_history s))) a (st @ sf) (gs_history s)\<rparr>"
    have s': "invariant s'" "gs_status s' = Playing" "history_wf (gs_history s')"
        "length (gs_history s') = length (gs_history (g_state g)) + 1"
      using s g(7) by (simp_all add: s'_def invariant_history history_append_wf) (simp add: history_append_def)
    have submit: "submit ck a g = finish_submit ck (st @ sf) (g\<lparr>g_state := s', g_events := em2\<rparr>)"
      using v None x st fs sf g by (simp add: submit_def s'_def Let_def)
    obtain w where w: "evaluate_victory vics s' = Inr w" using victory_total [OF s'(1)] by blast
    have same: "s'\<lparr>gs_status := Playing\<rparr> = s'" using s'(2) by (cases s') simp
    show ?thesis
    proof (cases w)
      case None
      with w g s' playing show ?thesis
        by (simp add: submit finish_submit_def game_loaded_def same)
    next
      case (Some r)
      obtain ended em where
        "em_emit (ck_stamp ck (em_nextSeq em2))
           \<lparr>ev_type = ''game-ended'', ev_seq = None, ev_at = None, ev_playerId = None,
            ev_payload = GameEndedPayload r, ev_privateTo = None\<rparr> em2 = (ended, em)" by fastforce
      moreover have "transitionTo Ended Playing = (Inr (), Ended)" by (simp add: transitionTo_def canTransitionTo_def)
      moreover have "s'\<lparr>gs_status := Ended, gs_status := Playing\<rparr> = s'" using s'(2) by (cases s') simp
      ultimately show ?thesis using Some w g s' playing
        by (simp add: submit finish_submit_def game_loaded_def invariant_status same)
    qed
  qed
qed

lemma play_total:
  "game_loaded vs xs rs vics invariant g \<Longrightarrow> g_machine g = Playing \<or> g_machine g = Ended \<Longrightarrow>
   \<exists>rs' g'. play ck as g = (Inr rs', g') \<and> game_loaded vs xs rs vics invariant g' \<and> (g_machine g' = Playing \<or> g_machine g' = Ended)"
proof (induction as arbitrary: g)
  case (Cons a as)
  show ?case
  proof (cases "g_machine g = Ended")
    case True
    with Cons.prems show ?thesis by simp
  next
    case False
    with Cons.prems have "g_machine g = Playing" by simp
    from submit_total [OF Cons.prems(1) this, of ck a] obtain r g1 where
      g1: "submit ck a g = (Inr r, g1)" "game_loaded vs xs rs vics invariant g1" "g_machine g1 = Playing \<or> g_machine g1 = Ended"
      by blast
    from Cons.IH [OF g1(2,3)] obtain rs' g' where "play ck as g1 = (Inr rs', g')" "game_loaded vs xs rs vics invariant g'"
      "g_machine g' = Playing \<or> g_machine g' = Ended" by blast
    with g1 False show ?thesis by simp
  qed
qed simp

text \<open>A game ends exactly when a victory condition fires, not sooner and not later.\<close>

lemma play_ended:
  "game_loaded vs xs rs vics invariant g \<Longrightarrow> g_machine g = Playing \<or> g_machine g = Ended \<Longrightarrow>
   (g_machine g = Ended \<longleftrightarrow> evaluate_victory vics (g_state g\<lparr>gs_status := Playing\<rparr>) \<noteq> Inr None) \<Longrightarrow>
   play ck as g = (r, g') \<Longrightarrow>
   (g_machine g' = Ended \<longleftrightarrow> evaluate_victory vics (g_state g'\<lparr>gs_status := Playing\<rparr>) \<noteq> Inr None)"
proof (induction as arbitrary: g r)
  case (Cons a as)
  show ?case
  proof (cases "g_machine g = Ended")
    case True
    with Cons.prems show ?thesis by simp
  next
    case False
    with Cons.prems have playing: "g_machine g = Playing" by simp
    from submit_total [OF Cons.prems(1) this, of ck a] obtain res g1 where
      g1: "submit ck a g = (Inr res, g1)" "game_loaded vs xs rs vics invariant g1" "g_machine g1 = Playing \<or> g_machine g1 = Ended"
        "case res of Rejected e \<Rightarrow> g1 = g
         | Accepted evs \<Rightarrow> g_machine g1 = Ended \<longleftrightarrow> evaluate_victory vics (g_state g1\<lparr>gs_status := Playing\<rparr>) \<noteq> Inr None"
      by (fastforce split: action_result.splits)
    then have "g_machine g1 = Ended \<longleftrightarrow> evaluate_victory vics (g_state g1\<lparr>gs_status := Playing\<rparr>) \<noteq> Inr None"
      using Cons.prems(3) by (cases res) auto
    moreover obtain r1 where "play ck as g1 = (r1, g')"
      using Cons.prems(4) g1(1) False by (auto split: sum.splits prod.splits)
    ultimately show ?thesis using Cons.IH [OF g1(2,3)] by blast
  qed
qed simp

text \<open>The same two facts for a game that has just been created.\<close>

lemma start_total:
  assumes "g_validators g = vs" "g_executors g = xs" "g_rules g = rs" "g_victories g = vics" "invariant (g_state g)"
    "g_machine g = Setup" "gs_history (g_state g) = []"
    and open': "evaluate_victory vics (g_state g\<lparr>gs_status := Playing\<rparr>) = Inr None"
  shows "\<exists>rs' g'. play ck as (game_start g) = (Inr rs', g') \<and> game_loaded vs xs rs vics invariant g' \<and>
    (g_machine g' = Playing \<or> g_machine g' = Ended) \<and>
    (g_machine g' = Ended \<longleftrightarrow> evaluate_victory vics (g_state g'\<lparr>gs_status := Playing\<rparr>) \<noteq> Inr None)"
proof -
  have "g_machine (game_start g) = Playing" "g_state (game_start g) = (g_state g)\<lparr>gs_status := Playing\<rparr>"
    using assms(6) by (simp_all add: game_start_def transitionTo_def canTransitionTo_def)
  moreover from this have "game_loaded vs xs rs vics invariant (game_start g)"
    using assms(1-7) by (simp add: game_loaded_def invariant_status) (simp add: game_start_def)
  ultimately show ?thesis using play_total [of "game_start g" ck as] play_ended [of "game_start g" ck as] open'
    by fastforce
qed

end

section \<open>Properties of the lifecycle\<close>

lemma finish_rank: "status_rank (g_machine g) \<le> status_rank (g_machine (snd (finish_submit ck all g)))"
  using transitionTo_forward [of Ended "g_machine g"]
  by (auto simp: finish_submit_def Let_def split: sum.splits option.splits prod.splits)

lemma submit_rank: "status_rank (g_machine g) \<le> status_rank (g_machine (snd (submit ck a g)))"
proof -
  obtain r g' where run: "submit ck a g = (r, g')" by fastforce
  then show ?thesis
  proof (cases rule: submit_cases)
    case (finished s primary stamped em1 followUps em2 stampedFollow)
    then show ?thesis
      using finish_rank [of "g\<lparr>g_state := s\<lparr>gs_history := history_append (ck_append ck (length (gs_history s))) a
          (stamped @ stampedFollow) (gs_history s)\<rparr>, g_events := em2\<rparr>" ck "stamped @ stampedFollow"] run by simp
  qed (use run in simp_all)
qed

text \<open> The lifecycle only moves forward: neither starting a game nor any submission nor any
  series of submissions ever takes a game back to an earlier status. \<close>
lemma lifecycle_never_backwards:
  "status_rank (g_machine g) \<le> status_rank (g_machine (game_start g)) \<and>
   status_rank (g_machine g) \<le> status_rank (g_machine (snd (submit ck a g))) \<and>
   status_rank (g_machine g) \<le> status_rank (g_machine (snd (play ck as g)))"
proof -
  have "status_rank (g_machine g) \<le> status_rank (g_machine (snd (play ck as g)))"
  proof (induction as arbitrary: g)
    case (Cons a as)
    obtain r g' where s: "submit ck a g = (r, g')" by fastforce
    with submit_rank [of g ck a] Cons.IH [of g'] show ?case
      by (auto split: sum.split prod.split)
  qed simp
  then show ?thesis by (simp add: submit_rank game_start_def transitionTo_def canTransitionTo_def)
qed

end
