(* ===== verification/Combat.thy ===== *)
theory Combat
  imports SeededRng Pieces
begin

text \<open>
  Battle resolution, \<open>rules/combat.ts\<close>. JavaScript's doubles are idealised as real numbers, so
  the square root and the ratios are exact. \<open>pickRandom\<close> draws from the generator the caller
  passes, and its lemmas hold for every \<open>RandomSource\<close>.
\<close>

record combatant =
  cb_id :: string
  cb_kind :: string
  cb_attack :: real

record combat_result =
  attackerWins :: bool
  attackerStrength :: real
  defenderStrength :: real
  attackerLosses :: "string list"
  defenderLosses :: "string list"
  tileConquered :: bool

text \<open>The loop of the partial shuffle: \<open>k\<close> iterations remain, the index is \<open>i\<close>.\<close>

fun pick_loop :: "'g int_in_range \<Rightarrow> nat \<Rightarrow> nat \<Rightarrow> 'a list \<Rightarrow> 'g \<Rightarrow> (exn + 'a list) \<times> 'g" where
  "pick_loop rng 0 i xs g = (Inr xs, g)"
| "pick_loop rng (Suc k) i xs g =
     (case rng (int i) (int (length xs) - 1) g of
        (Inl e, g') \<Rightarrow> (Inl e, g')
      | (Inr j, g') \<Rightarrow> pick_loop rng k (i + 1) (swap i (nat j) xs) g')"

definition pickRandom :: "'g int_in_range option \<Rightarrow> 'a list \<Rightarrow> int \<Rightarrow> 'g \<Rightarrow> (exn + 'a list) \<times> 'g" where
  "pickRandom rng items n g =
     (if n \<le> 0 then (Inr [], g)
      else case rng of
             None \<Rightarrow> (Inr (take (nat n) items), g)
           | Some r \<Rightarrow>
               if n \<ge> int (length items) then (Inr (take (nat n) items), g)
               else (case pick_loop r (nat n) 0 items g of
                       (Inl e, g') \<Rightarrow> (Inl e, g')
                     | (Inr xs, g') \<Rightarrow> (Inr (take (nat n) xs), g')))"

definition computeStrength :: "combatant list \<Rightarrow> real" where
  "computeStrength cs =
     (if length cs = 0 then 0
      else foldl (\<lambda>sum c. sum + cb_attack c) 0 cs * sqrt (real (length cs)))"

definition compositeDefenseBonus :: "real \<Rightarrow> real list \<Rightarrow> real" where
  "compositeDefenseBonus defenseBonus multipliers = defenseBonus * foldl (\<lambda>acc m. acc * m) 1 multipliers"

definition resolveAttack ::
  "combatant list \<Rightarrow> combatant list \<Rightarrow> real \<Rightarrow> real list \<Rightarrow> 'g int_in_range option \<Rightarrow> 'g \<Rightarrow> (exn + combat_result) \<times> 'g" where
  "resolveAttack attackers defenders tileBonus structures rng g =
     (let attStrength = computeStrength attackers;
          defenseMultiplier = compositeDefenseBonus tileBonus structures;
          defStrength = computeStrength defenders * defenseMultiplier
      in if length defenders = 0 then
           (Inr \<lparr>attackerWins = True, attackerStrength = attStrength, defenderStrength = 0,
                 attackerLosses = [], defenderLosses = [], tileConquered = True\<rparr>, g)
         else if attStrength > defStrength then
           (let ratio = defStrength / attStrength;
                casualties = \<lfloor>real (length attackers) * ratio * (1 / 2)\<rfloor>
            in case pickRandom rng attackers casualties g of
                 (Inl e, g') \<Rightarrow> (Inl e, g')
               | (Inr lost, g') \<Rightarrow>
                   (Inr \<lparr>attackerWins = True, attackerStrength = attStrength, defenderStrength = defStrength,
                         attackerLosses = map cb_id lost, defenderLosses = map cb_id defenders,
                         tileConquered = True\<rparr>, g'))
         else
           (let ratio = attStrength / defStrength;
                casualties = \<lfloor>real (length defenders) * ratio * (2 / 5)\<rfloor>
            in case pickRandom rng defenders casualties g of
                 (Inl e, g') \<Rightarrow> (Inl e, g')
               | (Inr lost, g') \<Rightarrow>
                   (Inr \<lparr>attackerWins = False, attackerStrength = attStrength, defenderStrength = defStrength,
                         attackerLosses = map cb_id attackers, defenderLosses = map cb_id lost,
                         tileConquered = False\<rparr>, g')))"

definition pieceAsCombatant :: "piece \<Rightarrow> combatant option" where
  "pieceAsCombatant p =
     (case pc_stats p of
        None \<Rightarrow> None
      | Some st \<Rightarrow> (case jget st ''attack'' of
                      None \<Rightarrow> None
                    | Some a \<Rightarrow> Some \<lparr>cb_id = pc_id p, cb_kind = pc_kind p, cb_attack = a\<rparr>))"

section \<open>Picking casualties\<close>

lemma mset_take_subset: "mset (take n xs) \<subseteq># mset xs"
  by (metis append_take_drop_id mset_append mset_subset_eq_add_left)

context random_source
begin

lemma pick_loop_perm:
  "i + k < length xs \<Longrightarrow> \<exists>ys g'. pick_loop rng k i xs g = (Inr ys, g') \<and> mset ys = mset xs"
proof (induction k arbitrary: i xs g)
  case (Suc k)
  obtain j g' where j: "rng (int i) (int (length xs) - 1) g = (Inr j, g')" "int i \<le> j" "j \<le> int (length xs) - 1"
    using in_range [of "int i" "int (length xs) - 1" g] Suc.prems by auto
  then have "i < length xs" "nat j < length xs" using Suc.prems by auto
  with Suc.IH [of "i + 1" "swap i (nat j) xs" g'] Suc.prems j show ?case by auto
qed simp

lemma pickRandom_spec:
  "\<exists>ys g'. pickRandom (Some rng) xs n g = (Inr ys, g') \<and> mset ys \<subseteq># mset xs \<and> length ys = min (nat n) (length xs)"
proof (cases "0 < n \<and> n < int (length xs)")
  case True
  then have "0 + nat n < length xs" by auto
  then obtain ys g' where "pick_loop rng (nat n) 0 xs g = (Inr ys, g')" "mset ys = mset xs"
    using pick_loop_perm [of 0 "nat n" xs g] by blast
  with True mset_take_subset [of "nat n" ys] show ?thesis
    by (auto simp: pickRandom_def dest: mset_eq_length)
next
  case False
  then show ?thesis by (auto simp: pickRandom_def mset_take_subset)
qed

end

section \<open>Strengths\<close>

definition fighters_ok :: "combatant list \<Rightarrow> bool" where
  "fighters_ok cs \<longleftrightarrow> (\<forall>c \<in> set cs. 0 \<le> cb_attack c)"

lemma foldl_attack: "foldl (\<lambda>sum c. sum + cb_attack c) a cs = a + sum_list (map cb_attack cs)"
  by (induction cs arbitrary: a) auto

lemma computeStrength_sum: "computeStrength cs = sum_list (map cb_attack cs) * sqrt (real (length cs))"
  by (cases cs) (simp_all add: computeStrength_def foldl_attack)

lemma sum_attack_nonneg: "fighters_ok cs \<Longrightarrow> 0 \<le> sum_list (map cb_attack cs)"
  by (induction cs) (auto simp: fighters_ok_def)

lemma computeStrength_nonneg: "fighters_ok cs \<Longrightarrow> 0 \<le> computeStrength cs"
  by (simp add: computeStrength_sum sum_attack_nonneg)

text \<open>Adding a fighter never weakens a force.\<close>

lemma computeStrength_mono:
  assumes "fighters_ok (c # cs)"
  shows "computeStrength cs \<le> computeStrength (c # cs)"
proof -
  have "0 \<le> cb_attack c" "fighters_ok cs" using assms by (auto simp: fighters_ok_def)
  then show ?thesis
    unfolding computeStrength_sum using sum_attack_nonneg [of cs] by (intro mult_mono) auto
qed

lemma foldl_prod_nonneg: "0 \<le> (a :: real) \<Longrightarrow> \<forall>m \<in> set ms. 0 \<le> m \<Longrightarrow> 0 \<le> foldl (\<lambda>acc m. acc * m) a ms"
  by (induction ms arbitrary: a) auto

lemma compositeDefenseBonus_nonneg:
  "0 \<le> t \<Longrightarrow> \<forall>m \<in> set ms. 0 \<le> m \<Longrightarrow> 0 \<le> compositeDefenseBonus t ms"
  by (simp add: compositeDefenseBonus_def foldl_prod_nonneg)

lemma casualties_bound:
  fixes n :: nat
  assumes "0 \<le> x" "x \<le> y" "0 \<le> c"
  shows "real_of_int \<lfloor>real n * (x / y) * c\<rfloor> \<le> real n * c" "0 \<le> \<lfloor>real n * (x / y) * c\<rfloor>"
proof -
  have r: "0 \<le> x / y" "x / y \<le> 1"
    using assms by (auto simp: divide_le_eq_1)
  have "real n * (x / y) * c = (real n * c) * (x / y)" by simp
  also have "\<dots> \<le> real n * c * 1" using r assms by (intro mult_left_mono) auto
  finally have "real n * (x / y) * c \<le> real n * c" by simp
  then show "real_of_int \<lfloor>real n * (x / y) * c\<rfloor> \<le> real n * c" by linarith
  show "0 \<le> \<lfloor>real n * (x / y) * c\<rfloor>" using r assms by simp
qed

section \<open>The outcome of a battle\<close>

text \<open>
  What a battle guarantees to its caller, for every random source: it returns, the losing side is
  wiped out, the winner loses a sub-collection of its force, at most half of it in an attack and
  at most two fifths in a defence.
\<close>

definition battle_spec :: "combatant list \<Rightarrow> combatant list \<Rightarrow> combat_result \<Rightarrow> bool" where
  "battle_spec att def r \<longleftrightarrow>
     tileConquered r = attackerWins r \<and>
     mset (attackerLosses r) \<subseteq># mset (map cb_id att) \<and> mset (defenderLosses r) \<subseteq># mset (map cb_id def) \<and>
     (if attackerWins r
      then defenderLosses r = map cb_id def \<and> real (length (attackerLosses r)) \<le> real (length att) / 2
      else attackerLosses r = map cb_id att \<and> real (length (defenderLosses r)) \<le> real (length def) * 2 / 5)"

context random_source
begin

lemma resolveAttack_spec:
  assumes att: "fighters_ok att" and def': "fighters_ok def" and mult: "0 \<le> t" "\<forall>m \<in> set ms. 0 \<le> m"
  shows "\<exists>r g'. resolveAttack att def t ms (Some rng) g = (Inr r, g') \<and> battle_spec att def r \<and>
    (attackerWins r \<longleftrightarrow> def = [] \<or> computeStrength def * compositeDefenseBonus t ms < computeStrength att)"
proof -
  define a d where "a = computeStrength att" and "d = computeStrength def * compositeDefenseBonus t ms"
  have nonneg: "0 \<le> a" "0 \<le> d"
    using assms by (simp_all add: a_def d_def computeStrength_nonneg compositeDefenseBonus_nonneg)
  consider "def = []" | "def \<noteq> []" "d < a" | "def \<noteq> []" "a \<le> d" by linarith
  then show ?thesis
  proof cases
    case 1
    then show ?thesis by (auto simp: resolveAttack_def Let_def battle_spec_def)
  next
    case 2
    define n where "n = \<lfloor>real (length att) * (d / a) * (1 / 2)\<rfloor>"
    have n: "real_of_int n \<le> real (length att) / 2" "0 \<le> n"
      using casualties_bound [of d a "1 / 2" "length att"] nonneg 2 by (simp_all add: n_def)
    obtain ys g' where p: "pickRandom (Some rng) att n g = (Inr ys, g')" "mset ys \<subseteq># mset att" "length ys = min (nat n) (length att)"
      using pickRandom_spec by blast
    have "real (length ys) \<le> real (length att) / 2" using p n by (simp add: min_def) linarith
    with 2 p show ?thesis
      unfolding resolveAttack_def Let_def a_def [symmetric] d_def [symmetric] n_def [symmetric]
      by (auto simp: battle_spec_def image_mset_subseteq_mono)
  next
    case 3
    define n where "n = \<lfloor>real (length def) * (a / d) * (2 / 5)\<rfloor>"
    have n: "real_of_int n \<le> real (length def) * 2 / 5" "0 \<le> n"
      using casualties_bound [of a d "2 / 5" "length def"] nonneg 3 by (simp_all add: n_def)
    obtain ys g' where p: "pickRandom (Some rng) def n g = (Inr ys, g')" "mset ys \<subseteq># mset def" "length ys = min (nat n) (length def)"
      using pickRandom_spec by blast
    have "real (length ys) \<le> real (length def) * 2 / 5" using p n by (simp add: min_def) linarith
    with 3 p show ?thesis
      unfolding resolveAttack_def Let_def a_def [symmetric] d_def [symmetric] n_def [symmetric]
      by (auto simp: battle_spec_def image_mset_subseteq_mono)
  qed
qed

end

section \<open>Properties of battles\<close>

text \<open> C28: Every battle between forces of non-negative attack values ends, without an error, with one
  side wiped out: the attackers win exactly when they are unopposed or strictly stronger than the
  defenders behind their terrain and structures, an attacker that wins loses at most half of its
  fighters and a defender that wins at most two fifths, and nobody outside the battle is lost. \<close>
theorem battle_outcome:
  assumes "fighters_ok att" "fighters_ok def" "0 \<le> t" "\<forall>m \<in> set ms. 0 \<le> m"
  shows "\<exists>r g'. resolveAttack att def t ms (Some intInRange) g = (Inr r, g') \<and>
    (attackerWins r \<longleftrightarrow> def = [] \<or> computeStrength def * compositeDefenseBonus t ms < computeStrength att) \<and>
    tileConquered r = attackerWins r \<and>
    mset (attackerLosses r) \<subseteq># mset (map cb_id att) \<and> mset (defenderLosses r) \<subseteq># mset (map cb_id def) \<and>
    (if attackerWins r
     then defenderLosses r = map cb_id def \<and> real (length (attackerLosses r)) \<le> real (length att) / 2
     else attackerLosses r = map cb_id att \<and> real (length (defenderLosses r)) \<le> real (length def) * 2 / 5)"
proof -
  obtain r g' where "resolveAttack att def t ms (Some intInRange) g = (Inr r, g')" "battle_spec att def r"
    "attackerWins r \<longleftrightarrow> def = [] \<or> computeStrength def * compositeDefenseBonus t ms < computeStrength att"
    using seeded.resolveAttack_spec [OF assms] by blast
  then show ?thesis unfolding battle_spec_def by blast
qed

lemma battle_outcome_witness:
  "\<exists>r g'. resolveAttack [\<lparr>cb_id = ''x'', cb_kind = ''spearman'', cb_attack = 3\<rparr>]
      [\<lparr>cb_id = ''y'', cb_kind = ''cannoneer'', cb_attack = 8\<rparr>] 1 [2] (Some intInRange) 7 = (Inr r, g') \<and>
    attackerLosses r = [''x''] \<and> defenderLosses r = []"
  (is "\<exists>r g'. resolveAttack ?att ?def 1 [2] _ 7 = _ \<and> _")
proof -
  have ok': "fighters_ok ?att" "fighters_ok ?def" by (simp_all add: fighters_ok_def)
  have "\<not> computeStrength ?def * compositeDefenseBonus 1 [2] < computeStrength ?att"
    by (simp add: computeStrength_sum compositeDefenseBonus_def)
  moreover obtain r g' where r: "resolveAttack ?att ?def 1 [2] (Some intInRange) 7 = (Inr r, g')"
      "attackerWins r \<longleftrightarrow> ?def = [] \<or> computeStrength ?def * compositeDefenseBonus 1 [2] < computeStrength ?att"
      "if attackerWins r then defenderLosses r = map cb_id ?def \<and> real (length (attackerLosses r)) \<le> real (length ?att) / 2
       else attackerLosses r = map cb_id ?att \<and> real (length (defenderLosses r)) \<le> real (length ?def) * 2 / 5"
    using battle_outcome [OF ok', of 1 "[2]" 7] by auto
  ultimately have "attackerLosses r = [''x'']" "real (length (defenderLosses r)) * 5 \<le> 2" by simp_all
  moreover from this(2) have "defenderLosses r = []" by (cases "defenderLosses r") simp_all
  ultimately show ?thesis using r(1) by blast
qed

end
