(* ===== verification/Connectivity.thy ===== *)
theory Connectivity
  imports GameMap
begin

text \<open>
  Supply connectivity, \<open>utils/connectivity.ts\<close>: a breadth-first search from the capital over
  the tiles a player owns, where an owned tile with a Gate reaches one hop through an unowned tile.
  The loop is a total function; its result is shown to be exactly the set of tiles a chain of
  supply steps reaches.
\<close>

section \<open>The search (connectivity.ts: getConnectedTiles)\<close>

text \<open>What one visited tile pushes on the queue, in the order of the two nested loops.\<close>

definition bfs_push :: "game_map \<Rightarrow> string list \<Rightarrow> string list \<Rightarrow> string list \<Rightarrow> string \<Rightarrow> tile \<Rightarrow> string list" where
  "bfs_push m owned bridges visited current t =
     concat (map (\<lambda>n.
       if tile_id n \<in> set owned then (if tile_id n \<notin> set visited then [tile_id n] else [])
       else if current \<in> set bridges then
         (case tileById m (tile_id n) of
            None \<Rightarrow> []
          | Some pass' \<Rightarrow>
              map tile_id (filter (\<lambda>b. tile_id b \<in> set owned \<and> tile_id b \<notin> set visited)
                                  (neighboursOf m (tile_coord pass'))))
       else []) (neighboursOf m (tile_coord t)))"

lemma bfs_push_owned: "y \<in> set (bfs_push m owned bridges visited x t) \<Longrightarrow> y \<in> set owned \<and> y \<notin> set visited"
  by (auto simp: bfs_push_def split: if_splits option.splits)

lemma bfs_push_visited:
  "set (bfs_push m owned bridges visited x t) = set (bfs_push m owned bridges [] x t) - set visited"
  by (auto simp: bfs_push_def split: if_splits option.splits)

function bfs_loop :: "game_map \<Rightarrow> string list \<Rightarrow> string list \<Rightarrow> string list \<Rightarrow> string list \<Rightarrow> string list" where
  "bfs_loop m owned bridges visited [] = visited"
| "bfs_loop m owned bridges visited (current # queue) =
     (if current \<in> set visited then bfs_loop m owned bridges visited queue
      else let visited' = jadd current visited
           in case tileById m current of
                None \<Rightarrow> bfs_loop m owned bridges visited' queue
              | Some t \<Rightarrow> bfs_loop m owned bridges visited' (queue @ bfs_push m owned bridges visited' current t))"
  by pat_completeness auto

lemma bfs_shrinks:
  assumes "x \<notin> set visited" "\<forall>y \<in> set new. y \<in> set owned"
  shows "card ((set owned \<union> set (queue @ new)) - set (jadd x visited)) < card ((set owned \<union> set (x # queue)) - set visited)"
  by (rule psubset_card_mono) (use assms in auto)

termination bfs_loop
proof (relation "measures [\<lambda>(m, owned, bridges, visited, queue). card ((set owned \<union> set queue) - set visited),
                           \<lambda>(m, owned, bridges, visited, queue). length queue]")
  fix m owned bridges visited queue and current :: string
  assume "current \<in> set visited"
  then have "(set owned \<union> set queue) - set visited = (set owned \<union> set (current # queue)) - set visited" by auto
  then show "((m, owned, bridges, visited, queue), m, owned, bridges, visited, current # queue)
    \<in> measures [\<lambda>(m, owned, bridges, visited, queue). card ((set owned \<union> set queue) - set visited),
                \<lambda>(m, owned, bridges, visited, queue). length queue]"
    by (simp only: in_measures(2) prod.case) simp
next
  fix m owned bridges visited queue visited' and current :: string
  assume "current \<notin> set visited" "visited' = jadd current visited"
  then show "((m, owned, bridges, visited', queue), m, owned, bridges, visited, current # queue)
    \<in> measures [\<lambda>(m, owned, bridges, visited, queue). card ((set owned \<union> set queue) - set visited),
                \<lambda>(m, owned, bridges, visited, queue). length queue]"
    using bfs_shrinks [of current visited "[]" owned queue]
    by (simp only: in_measures prod.case append_Nil2 list.set ball_empty) blast
next
  fix m owned bridges visited queue visited' t and current :: string
  assume new: "current \<notin> set visited" "visited' = jadd current visited"
  have "\<forall>y \<in> set (bfs_push m owned bridges visited' current t). y \<in> set owned"
    by (blast dest: bfs_push_owned)
  from bfs_shrinks [OF new(1) this, of queue]
  show "((m, owned, bridges, visited', queue @ bfs_push m owned bridges visited' current t), m, owned, bridges, visited, current # queue)
    \<in> measures [\<lambda>(m, owned, bridges, visited, queue). card ((set owned \<union> set queue) - set visited),
                \<lambda>(m, owned, bridges, visited, queue). length queue]"
    by (simp only: in_measures prod.case new(2)) blast
qed simp

definition getConnectedTiles :: "game_map \<Rightarrow> string \<Rightarrow> string list \<Rightarrow> string list \<Rightarrow> string list" where
  "getConnectedTiles m capital owned bridges =
     (if capital \<notin> set owned then [] else bfs_loop m owned bridges [] [capital])"

definition isConnected :: "string \<Rightarrow> string list \<Rightarrow> bool" where
  "isConnected t tiles = (t \<in> set tiles)"

section \<open>Supply steps\<close>

text \<open>
  Tile \<open>x\<close> supplies the owned tile \<open>y\<close> when they are neighbours, or when \<open>x\<close> carries a bridge
  and some unowned tile of the map touches both.
\<close>

definition adjacent_ids :: "game_map \<Rightarrow> string \<Rightarrow> string \<Rightarrow> bool" where
  "adjacent_ids m x y =
     (case tileById m x of None \<Rightarrow> False
      | Some t \<Rightarrow> list_ex (\<lambda>n. tile_id n = y) (neighboursOf m (tile_coord t)))"

definition supply_step :: "game_map \<Rightarrow> string set \<Rightarrow> string set \<Rightarrow> string \<Rightarrow> string \<Rightarrow> bool" where
  "supply_step m owned bridges x y \<longleftrightarrow> y \<in> owned \<and>
     (adjacent_ids m x y \<or> (x \<in> bridges \<and> (\<exists>z. z \<notin> owned \<and> adjacent_ids m x z \<and> adjacent_ids m z y)))"

lemma adjacent_ids_iff:
  "tileById m x = Some t \<Longrightarrow> adjacent_ids m x y \<longleftrightarrow> (\<exists>n \<in> set (neighboursOf m (tile_coord t)). tile_id n = y)"
  by (simp add: adjacent_ids_def list_ex_iff)

lemma in_bfs_push:
  "y \<in> set (bfs_push m owned bridges [] x t) \<longleftrightarrow>
   (\<exists>n \<in> set (neighboursOf m (tile_coord t)).
      if tile_id n \<in> set owned then y = tile_id n
      else x \<in> set bridges \<and> adjacent_ids m (tile_id n) y \<and> y \<in> set owned)"
proof -
  have "y \<in> set (case tileById m i of None \<Rightarrow> [] | Some b \<Rightarrow> map tile_id (filter (\<lambda>b. tile_id b \<in> set owned) (neighboursOf m (tile_coord b))))
      \<longleftrightarrow> adjacent_ids m i y \<and> y \<in> set owned" for i
    by (cases "tileById m i") (auto simp: adjacent_ids_def list_ex_iff)
  then show ?thesis by (auto simp: bfs_push_def)
qed

lemma bfs_push_step:
  assumes "tileById m x = Some t"
  shows "y \<in> set (bfs_push m owned bridges [] x t) \<longleftrightarrow> supply_step m (set owned) (set bridges) x y"
  unfolding in_bfs_push supply_step_def by (auto simp: adjacent_ids_iff [OF assms])

lemma supply_step_None: "tileById m x = None \<Longrightarrow> \<not> supply_step m O' B x y"
  by (simp add: supply_step_def adjacent_ids_def)

section \<open>The search computes the supplied tiles\<close>

lemma bfs_contains: "set visited \<union> set queue \<subseteq> set (bfs_loop m owned bridges visited queue)"
proof (induction m owned bridges visited queue rule: bfs_loop.induct)
  case (2 m owned bridges visited current queue)
  then show ?case
    using set_jadd [of current visited]
    by (cases "current \<in> set visited"; cases "tileById m current") (auto simp: Let_def)
qed simp

lemma bfs_distinct: "distinct visited \<Longrightarrow> distinct (bfs_loop m owned bridges visited queue)"
proof (induction m owned bridges visited queue rule: bfs_loop.induct)
  case (2 m owned bridges visited current queue)
  then show ?case
    by (cases "current \<in> set visited"; cases "tileById m current") (simp_all add: Let_def)
qed simp

lemma bfs_sound:
  "y \<in> set (bfs_loop m owned bridges visited queue) \<Longrightarrow>
   y \<in> set visited \<or> (\<exists>x \<in> set queue. (supply_step m (set owned) (set bridges))\<^sup>*\<^sup>* x y)"
proof (induction m owned bridges visited queue rule: bfs_loop.induct)
  case (2 m owned bridges visited current queue)
  let ?R = "supply_step m (set owned) (set bridges)"
  show ?case
  proof (cases "current \<in> set visited")
    case True
    with 2 show ?thesis by auto
  next
    case new: False
    show ?thesis
    proof (cases "tileById m current")
      case None
      with 2(2) [OF new refl None] 2(4) new show ?thesis by auto
    next
      case (Some t)
      let ?new = "bfs_push m owned bridges (jadd current visited) current t"
      from 2(3) [OF new refl Some] 2(4) new Some
      have "y \<in> set (jadd current visited) \<or> (\<exists>x \<in> set (queue @ ?new). ?R\<^sup>*\<^sup>* x y)"
        by (simp add: Let_def)
      moreover have "?R current x" if "x \<in> set ?new" for x
        using that bfs_push_visited bfs_push_step [OF Some] by blast
      ultimately show ?thesis by (auto intro: converse_rtranclp_into_rtranclp)
    qed
  qed
qed simp

lemma bfs_closed:
  assumes "\<And>x y. x \<in> set visited \<Longrightarrow> supply_step m (set owned) (set bridges) x y \<Longrightarrow> y \<in> set visited \<union> set queue"
    and "x \<in> set (bfs_loop m owned bridges visited queue)" "supply_step m (set owned) (set bridges) x y"
  shows "y \<in> set (bfs_loop m owned bridges visited queue)"
  using assms
proof (induction m owned bridges visited queue rule: bfs_loop.induct)
  case (1 m owned bridges visited)
  then show ?case by auto
next
  case (2 m owned bridges visited current queue)
  show ?case
  proof (cases "current \<in> set visited")
    case True
    have "\<And>x y. x \<in> set visited \<Longrightarrow> supply_step m (set owned) (set bridges) x y \<Longrightarrow> y \<in> set visited \<union> set queue"
      using 2(4) True by fastforce
    with 2(1) [OF True] 2(5,6) True show ?thesis by simp
  next
    case new: False
    show ?thesis
    proof (cases "tileById m current")
      case None
      have "x' \<in> set (jadd current visited) \<Longrightarrow> supply_step m (set owned) (set bridges) x' y' \<Longrightarrow>
          y' \<in> set (jadd current visited) \<union> set queue" for x' y'
        using 2(4) [of x' y'] supply_step_None [OF None] by auto
      with 2(2) [OF new refl None] 2(5,6) new None show ?thesis by (simp add: Let_def)
    next
      case (Some t)
      let ?new = "bfs_push m owned bridges (jadd current visited) current t"
      have "x' \<in> set (jadd current visited) \<Longrightarrow> supply_step m (set owned) (set bridges) x' y' \<Longrightarrow>
          y' \<in> set (jadd current visited) \<union> set (queue @ ?new)" for x' y'
        using 2(4) [of x' y'] bfs_push_step [OF Some] bfs_push_visited [of m owned bridges "jadd current visited"] by auto
      with 2(3) [OF new refl Some] 2(5,6) new Some show ?thesis by (simp add: Let_def)
    qed
  qed
qed

lemma set_getConnectedTiles:
  "set (getConnectedTiles m capital owned bridges) =
     (if capital \<in> set owned then {y. (supply_step m (set owned) (set bridges))\<^sup>*\<^sup>* capital y} else {})"
proof (cases "capital \<in> set owned")
  case True
  let ?R = "supply_step m (set owned) (set bridges)"
  let ?V = "set (bfs_loop m owned bridges [] [capital])"
  have "y \<in> ?V" if "?R\<^sup>*\<^sup>* capital y" for y
    using that
  proof induction
    case base
    then show ?case using bfs_contains [of "[]" "[capital]"] by auto
  next
    case (step y z)
    then show ?case using bfs_closed [of "[]" m owned bridges "[capital]" y z] by auto
  qed
  moreover have "?R\<^sup>*\<^sup>* capital y" if "y \<in> ?V" for y
    using bfs_sound [OF that] by auto
  ultimately show ?thesis using True by (auto simp: getConnectedTiles_def)
qed (simp add: getConnectedTiles_def)

lemma getConnectedTiles_unowned: "capital \<notin> set owned \<Longrightarrow> getConnectedTiles m capital owned bridges = []"
  by (simp add: getConnectedTiles_def)

lemma connected_owned: "y \<in> set (getConnectedTiles m capital owned bridges) \<Longrightarrow> y \<in> set owned"
proof -
  assume y: "y \<in> set (getConnectedTiles m capital owned bridges)"
  then have cap: "capital \<in> set owned" and "(supply_step m (set owned) (set bridges))\<^sup>*\<^sup>* capital y"
    by (auto simp: set_getConnectedTiles split: if_splits)
  then show "y \<in> set owned"
    by (metis rtranclp.cases supply_step_def)
qed

lemma distinct_getConnectedTiles: "distinct (getConnectedTiles m capital owned bridges)"
  using bfs_distinct [of "[]" m owned bridges "[capital]"]
  by (simp add: getConnectedTiles_def del: bfs_loop.simps)

text \<open>More territory and more bridges never cut a supply line that avoids bridges over it.\<close>

lemma supply_mono_bridges:
  "B \<subseteq> B' \<Longrightarrow> (supply_step m O' B)\<^sup>*\<^sup>* x y \<Longrightarrow> (supply_step m O' B')\<^sup>*\<^sup>* x y"
  by (erule rtranclp_mono [THEN predicate2D, rotated]) (auto simp: supply_step_def)

section \<open>Properties of the supply search\<close>

text \<open> C32: The breadth-first search returns, without duplicates, exactly the tiles that a chain of
  supply steps reaches from the capital; without the capital nothing is supplied. \<close>
theorem getConnectedTiles_reachability:
  "distinct (getConnectedTiles m capital owned bridges) \<and>
   set (getConnectedTiles m capital owned bridges) =
     (if capital \<in> set owned then {y. (supply_step m (set owned) (set bridges))\<^sup>*\<^sup>* capital y} else {})"
  by (simp add: distinct_getConnectedTiles set_getConnectedTiles)

end
