(* ===== verification/KingdomsData.thy ===== *)
theory KingdomsData
  imports Pieces Inventory
begin

text \<open>
  The tables of Kingdoms of Dominion: units (\<open>units.ts\<close>), structures (\<open>structures.ts\<close>), the
  piece registry derived from them (\<open>pieces.ts\<close>), terrains (\<open>terrain.ts\<close>), resources and the
  gold exchange (\<open>resources.ts\<close>) and the pure income formulas (\<open>economy.ts\<close>).
\<close>

section \<open>Units (units.ts)\<close>

record unit_def =
  ud_kind :: string
  ud_displayName :: string
  ud_buildCost :: "(string \<times> int) list"
  ud_limitPerPlayer :: "int option"
  ud_hp :: int
  ud_attack :: int
  ud_defense :: int
  ud_movement :: int
  ud_foodPerRound :: int
  ud_canAttack :: bool

definition UNIT_DEFS :: "(string, unit_def) jsmap" where
  "UNIT_DEFS =
     [(''spearman'',
       \<lparr>ud_kind = ''spearman'', ud_displayName = ''Spearman'', ud_buildCost = [(''gold'', 10), (''food'', 1)],
        ud_limitPerPlayer = Some 20, ud_hp = 10, ud_attack = 3, ud_defense = 5, ud_movement = 1,
        ud_foodPerRound = 1, ud_canAttack = True\<rparr>),
      (''cannoneer'',
       \<lparr>ud_kind = ''cannoneer'', ud_displayName = ''Cannoneer'', ud_buildCost = [(''gold'', 20), (''iron'', 2)],
        ud_limitPerPlayer = Some 8, ud_hp = 6, ud_attack = 8, ud_defense = 2, ud_movement = 1,
        ud_foodPerRound = 2, ud_canAttack = True\<rparr>),
      (''noble'',
       \<lparr>ud_kind = ''noble'', ud_displayName = ''Noble'', ud_buildCost = [(''gold'', 8), (''iron'', 1), (''food'', 1)],
        ud_limitPerPlayer = Some 10, ud_hp = 8, ud_attack = 1, ud_defense = 3, ud_movement = 2,
        ud_foodPerRound = 1, ud_canAttack = False\<rparr>)]"

definition UNIT_KINDS :: "string list" where
  "UNIT_KINDS = jkeys UNIT_DEFS"

definition COMBAT_UNIT_KINDS :: "string list" where
  "COMBAT_UNIT_KINDS = map ud_kind (filter ud_canAttack (jvals UNIT_DEFS))"

section \<open>Structures (structures.ts)\<close>

record income_effect =
  ie_goldFlat :: int
  ie_goldMultiplier :: real
  ie_resourceMultiplier :: real

record structure_def =
  sd_kind :: string
  sd_displayName :: string
  sd_buildCost :: "(string \<times> int) list"
  sd_limitPerPlayer :: "int option"
  sd_hp :: int
  sd_defenseMultiplier :: real
  sd_incomeEffect :: income_effect
  sd_foodCostPerRound :: int
  sd_canBeBuilt :: bool

definition STRUCTURE_DEFS :: "(string, structure_def) jsmap" where
  "STRUCTURE_DEFS =
     [(''capital-base'',
       \<lparr>sd_kind = ''capital-base'', sd_displayName = ''Capital Base'', sd_buildCost = [],
        sd_limitPerPlayer = Some 1, sd_hp = 5, sd_defenseMultiplier = 2,
        sd_incomeEffect = \<lparr>ie_goldFlat = 1, ie_goldMultiplier = 1, ie_resourceMultiplier = 1\<rparr>,
        sd_foodCostPerRound = 0, sd_canBeBuilt = False\<rparr>),
      (''farm'',
       \<lparr>sd_kind = ''farm'', sd_displayName = ''Farm'', sd_buildCost = [(''wood'', 2)],
        sd_limitPerPlayer = Some 5, sd_hp = 3, sd_defenseMultiplier = 1,
        sd_incomeEffect = \<lparr>ie_goldFlat = 0, ie_goldMultiplier = 1, ie_resourceMultiplier = 3 / 2\<rparr>,
        sd_foodCostPerRound = 0, sd_canBeBuilt = True\<rparr>),
      (''city'',
       \<lparr>sd_kind = ''city'', sd_displayName = ''City'', sd_buildCost = [(''wood'', 3), (''iron'', 2)],
        sd_limitPerPlayer = Some 3, sd_hp = 3, sd_defenseMultiplier = 1,
        sd_incomeEffect = \<lparr>ie_goldFlat = 0, ie_goldMultiplier = 2, ie_resourceMultiplier = 1\<rparr>,
        sd_foodCostPerRound = 2, sd_canBeBuilt = True\<rparr>),
      (''castle'',
       \<lparr>sd_kind = ''castle'', sd_displayName = ''Castle'', sd_buildCost = [(''wood'', 4), (''iron'', 3)],
        sd_limitPerPlayer = Some 3, sd_hp = 4, sd_defenseMultiplier = 2,
        sd_incomeEffect = \<lparr>ie_goldFlat = 0, ie_goldMultiplier = 1, ie_resourceMultiplier = 1\<rparr>,
        sd_foodCostPerRound = 0, sd_canBeBuilt = True\<rparr>),
      (''gate'',
       \<lparr>sd_kind = ''gate'', sd_displayName = ''Gate'', sd_buildCost = [(''wood'', 2), (''iron'', 1)],
        sd_limitPerPlayer = None, sd_hp = 2, sd_defenseMultiplier = 1,
        sd_incomeEffect = \<lparr>ie_goldFlat = 0, ie_goldMultiplier = 1, ie_resourceMultiplier = 1\<rparr>,
        sd_foodCostPerRound = 0, sd_canBeBuilt = True\<rparr>)]"

definition STRUCTURE_KINDS :: "string list" where
  "STRUCTURE_KINDS = jkeys STRUCTURE_DEFS"

definition BUILDABLE_STRUCTURES :: "string list" where
  "BUILDABLE_STRUCTURES = map sd_kind (filter sd_canBeBuilt (jvals STRUCTURE_DEFS))"

section \<open>The piece registry (pieces.ts)\<close>

record unit_stats =
  us_attack :: int
  us_defense :: int
  us_movement :: int
  us_foodPerRound :: int
  us_hp :: int

definition UNIT_STATS :: "(string, unit_stats) jsmap" where
  "UNIT_STATS = map (\<lambda>(kind, d).
     (kind, \<lparr>us_attack = ud_attack d, us_defense = ud_defense d, us_movement = ud_movement d,
             us_foodPerRound = ud_foodPerRound d, us_hp = ud_hp d\<rparr>)) UNIT_DEFS"

record structure_stats =
  ss_hp :: int
  ss_defenseMultiplier :: real

definition STRUCTURE_STATS :: "(string, structure_stats) jsmap" where
  "STRUCTURE_STATS = map (\<lambda>(kind, d).
     (kind, \<lparr>ss_hp = sd_hp d, ss_defenseMultiplier = sd_defenseMultiplier d\<rparr>)) STRUCTURE_DEFS"

definition structure_entry :: "structure_def \<Rightarrow> piece_kind_def" where
  "structure_entry d =
     \<lparr>pk_kind = sd_kind d, pk_category = Building, pk_displayName = sd_displayName d,
      pk_cost = (if length (sd_buildCost d) > 0 then Some (sd_buildCost d) else None),
      pk_limitPerPlayer = sd_limitPerPlayer d,
      pk_defaultStats = Some [(''hp'', of_int (sd_hp d)), (''defenseMultiplier'', sd_defenseMultiplier d)],
      pk_meta = None\<rparr>"

definition unit_entry :: "unit_def \<Rightarrow> piece_kind_def" where
  "unit_entry d =
     \<lparr>pk_kind = ud_kind d, pk_category = Unit, pk_displayName = ud_displayName d,
      pk_cost = Some (ud_buildCost d), pk_limitPerPlayer = ud_limitPerPlayer d,
      pk_defaultStats = Some [(''attack'', of_int (ud_attack d)), (''defense'', of_int (ud_defense d)),
        (''movement'', of_int (ud_movement d)), (''foodPerRound'', of_int (ud_foodPerRound d)),
        (''hp'', of_int (ud_hp d))],
      pk_meta = None\<rparr>"

definition buildRegistry :: "exn + piece_registry" where
  "buildRegistry =
     piece_kinds.register_all (map structure_entry (jvals STRUCTURE_DEFS) @ map unit_entry (jvals UNIT_DEFS)) []"

definition kingdomsPieces :: piece_registry where
  "kingdomsPieces = (case buildRegistry of Inr r \<Rightarrow> r | Inl _ \<Rightarrow> [])"

section \<open>Terrains (terrain.ts) and resources (resources.ts)\<close>

definition kterrain :: "string \<Rightarrow> string \<Rightarrow> real \<Rightarrow> real \<Rightarrow> terrain_def" where
  "kterrain i name defenseBonus moveCost =
     \<lparr>ter_id = i, ter_name = name, ter_produces = None,
      ter_meta = Some [(''defenseBonus'', defenseBonus), (''moveCost'', moveCost)]\<rparr>"

definition kingdomsTerrains :: terrain_registry where
  "kingdomsTerrains =
     (case terrains.register_all
        [kterrain ''plains'' ''Plains'' 1 1, kterrain ''hills'' ''Hills'' (13 / 10) 2,
         kterrain ''forest'' ''Forest'' (3 / 2) 2, kterrain ''mountain'' ''Mountain'' 2 3] [] of
        Inr r \<Rightarrow> r | Inl _ \<Rightarrow> [])"

definition terrainDefenseBonus :: "string \<Rightarrow> real" where
  "terrainDefenseBonus terrain =
     (case getTerrain kingdomsTerrains terrain of
        None \<Rightarrow> 1
      | Some d \<Rightarrow> (case ter_meta d of
                     None \<Rightarrow> 1
                   | Some mt \<Rightarrow> (case jget mt ''defenseBonus'' of None \<Rightarrow> 1 | Some b \<Rightarrow> b)))"

text \<open>The symbols are emoji that no operation reads; the identifier stands in their place.\<close>

definition kresource :: "string \<Rightarrow> string \<Rightarrow> resource_def" where
  "kresource i name = \<lparr>res_id = i, res_name = name, res_symbol = Some i, res_meta = None\<rparr>"

definition kingdomsResources :: resource_registry where
  "kingdomsResources =
     (case resources.register_all
        [kresource ''wood'' ''Wood'', kresource ''food'' ''Food'', kresource ''iron'' ''Iron'', kresource ''gold'' ''Gold''] [] of
        Inr r \<Rightarrow> r | Inl _ \<Rightarrow> [])"

definition EXCHANGE_RATE :: int where
  "EXCHANGE_RATE = 3"

definition canExchange :: "inventory \<Rightarrow> string \<Rightarrow> int \<Rightarrow> bool" where
  "canExchange bag resource qty = inv_has bag ''gold'' (qty * EXCHANGE_RATE)"

definition executeExchange :: "string \<Rightarrow> int \<Rightarrow> (inventory, unit) effect" where
  "executeExchange resource qty bag =
     (if qty \<le> 0 then (Inr (), bag)
      else case inv_remove ''gold'' (qty * EXCHANGE_RATE) bag of
             (Inl e, bag') \<Rightarrow> (Inl e, bag')
           | (Inr _, bag') \<Rightarrow> inv_add resource qty bag')"

definition exchangeForFood :: "int \<Rightarrow> (inventory, int) effect" where
  "exchangeForFood foodNeeded bag =
     (if foodNeeded \<le> 0 then (Inr 0, bag)
      else let goldAvailable = inv_get bag ''gold'';
               maxAffordable = goldAvailable div EXCHANGE_RATE;
               purchased = min foodNeeded maxAffordable
           in if purchased > 0
              then (case executeExchange ''food'' purchased bag of
                      (Inl e, bag') \<Rightarrow> (Inl e, bag')
                    | (Inr _, bag') \<Rightarrow> (Inr purchased, bag'))
              else (Inr purchased, bag))"

section \<open>Income formulas (economy.ts)\<close>

definition GOLD_PER_ECONOMIC_VALUE :: int where "GOLD_PER_ECONOMIC_VALUE = 1"
definition BASE_RESOURCE_YIELD :: int where "BASE_RESOURCE_YIELD = 2"
definition DEVELOP_COST :: int where "DEVELOP_COST = 8"

definition STRUCTURE_INCOME_EFFECTS :: "(string, income_effect) jsmap" where
  "STRUCTURE_INCOME_EFFECTS = map (\<lambda>(kind, d). (kind, sd_incomeEffect d)) STRUCTURE_DEFS"

record tile_income =
  ti_gold :: int
  ti_resource :: "string option"
  ti_resourceAmount :: int

text \<open>Tile properties hold strings, numbers or \<open>null\<close>; reading one at the declared type.\<close>

definition prop_num :: "tile \<Rightarrow> string \<Rightarrow> int option" where
  "prop_num t key =
     (case tile_properties t of
        None \<Rightarrow> None
      | Some ps \<Rightarrow> (case jget ps key of Some (PNum n) \<Rightarrow> Some n | _ \<Rightarrow> None))"

definition prop_str :: "tile \<Rightarrow> string \<Rightarrow> string option" where
  "prop_str t key =
     (case tile_properties t of
        None \<Rightarrow> None
      | Some ps \<Rightarrow> (case jget ps key of Some (PStr s) \<Rightarrow> Some s | _ \<Rightarrow> None))"

fun income_loop :: "string list \<Rightarrow> real \<times> int \<times> real \<Rightarrow> real \<times> int \<times> real" where
  "income_loop [] acc = acc"
| "income_loop (kind # kinds) (gm, gf, rm) =
     (case jget STRUCTURE_INCOME_EFFECTS kind of
        None \<Rightarrow> income_loop kinds (gm, gf, rm)
      | Some fx \<Rightarrow> income_loop kinds (gm * ie_goldMultiplier fx, gf + ie_goldFlat fx, max rm (ie_resourceMultiplier fx)))"

definition calculateTileIncome :: "tile \<Rightarrow> string list \<Rightarrow> tile_income" where
  "calculateTileIncome t structureKinds =
     (let economicValue = (case prop_num t ''economicValue'' of Some n \<Rightarrow> n | None \<Rightarrow> 1);
          resourceType = prop_str t ''resourceType'';
          (goldMultiplier, goldFlat, resourceMultiplier) = income_loop structureKinds (1, 0, 1);
          gold = \<lfloor>real_of_int (economicValue * GOLD_PER_ECONOMIC_VALUE) * goldMultiplier\<rfloor> + goldFlat;
          amount = (case resourceType of
                      None \<Rightarrow> 0
                    | Some r \<Rightarrow> if r = [] then 0 else \<lfloor>real_of_int BASE_RESOURCE_YIELD * resourceMultiplier\<rfloor>)
      in \<lparr>ti_gold = gold, ti_resource = (if amount > 0 then resourceType else None), ti_resourceAmount = amount\<rparr>)"

definition calculateFoodConsumption :: "string list \<Rightarrow> int" where
  "calculateFoodConsumption kinds =
     foldl (\<lambda>acc kind. acc + (case jget UNIT_STATS kind of None \<Rightarrow> 0 | Some st \<Rightarrow> us_foodPerRound st)) 0 kinds"

definition calculateStructureFoodCost :: "string list \<Rightarrow> int" where
  "calculateStructureFoodCost kinds =
     foldl (\<lambda>acc kind. acc + (case jget STRUCTURE_DEFS kind of None \<Rightarrow> 0 | Some d \<Rightarrow> sd_foodCostPerRound d)) 0 kinds"

definition calculateGoldIncome :: "tile list \<Rightarrow> (string, string list) jsmap \<Rightarrow> int" where
  "calculateGoldIncome tiles structureKindsByTileId =
     foldl (\<lambda>acc t. acc + ti_gold (calculateTileIncome t
              (case jget structureKindsByTileId (tile_id t) of Some ks \<Rightarrow> ks | None \<Rightarrow> []))) 0 tiles"

section \<open>Facts about the tables\<close>

lemma UNIT_KINDS_eq: "UNIT_KINDS = [''spearman'', ''cannoneer'', ''noble'']"
  by (simp add: UNIT_KINDS_def UNIT_DEFS_def)

lemma COMBAT_UNIT_KINDS_eq: "COMBAT_UNIT_KINDS = [''spearman'', ''cannoneer'']"
  by (simp add: COMBAT_UNIT_KINDS_def UNIT_DEFS_def)

lemma STRUCTURE_KINDS_eq: "STRUCTURE_KINDS = [''capital-base'', ''farm'', ''city'', ''castle'', ''gate'']"
  by (simp add: STRUCTURE_KINDS_def STRUCTURE_DEFS_def)

lemma BUILDABLE_STRUCTURES_eq: "BUILDABLE_STRUCTURES = [''farm'', ''city'', ''castle'', ''gate'']"
  by (simp add: BUILDABLE_STRUCTURES_def STRUCTURE_DEFS_def)

lemma kinds_disjoint: "k \<in> set UNIT_KINDS \<Longrightarrow> k \<notin> set STRUCTURE_KINDS"
  by (auto simp: UNIT_KINDS_eq STRUCTURE_KINDS_eq)

text \<open>Loading the tables registers every piece kind once, and each is found under its kind.\<close>

lemma getPiece_kingdoms:
  "getPiece kingdomsPieces k =
     map_of (map (\<lambda>d. (pk_kind d, d)) (map structure_entry (jvals STRUCTURE_DEFS) @ map unit_entry (jvals UNIT_DEFS))) k"
proof -
  define ds where "ds = map structure_entry (jvals STRUCTURE_DEFS) @ map unit_entry (jvals UNIT_DEFS)"
  have "map pk_kind ds = STRUCTURE_KINDS @ UNIT_KINDS"
    by (simp add: ds_def STRUCTURE_KINDS_eq UNIT_KINDS_eq STRUCTURE_DEFS_def UNIT_DEFS_def structure_entry_def unit_entry_def)
  then have "distinct (map pk_kind ds)" by (simp add: STRUCTURE_KINDS_eq UNIT_KINDS_eq)
  moreover have br: "buildRegistry = piece_kinds.register_all ds []" by (simp only: buildRegistry_def ds_def)
  moreover have "\<forall>d \<in> set ds. getPiece [] (pk_kind d) = None" by (simp add: getPiece_def)
  ultimately obtain r where r: "buildRegistry = Inr r"
    "\<forall>k. getPiece r k = (case map_of (map (\<lambda>d. (pk_kind d, d)) ds) k of Some d \<Rightarrow> Some d | None \<Rightarrow> getPiece [] k)"
    using piece_kinds.register_all_distinct [of ds "[]"] unfolding br by blast
  have "kingdomsPieces = r" by (simp only: kingdomsPieces_def r sum.case)
  moreover have "getPiece [] k = None" by (simp add: getPiece_def)
  ultimately show ?thesis unfolding ds_def [symmetric] using r(2)
    by (cases "map_of (map (\<lambda>d. (pk_kind d, d)) ds) k") simp_all
qed

lemma piece_cost_wf:
  assumes "getPiece kingdomsPieces k = Some d" "pk_cost d = Some cost"
  shows "cost_wf cost"
  using assms
  by (auto simp: getPiece_kingdoms STRUCTURE_DEFS_def UNIT_DEFS_def structure_entry_def unit_entry_def cost_wf_def
           split: if_splits)

lemma requirePiece_known:
  "k \<in> set UNIT_KINDS \<or> k \<in> set STRUCTURE_KINDS \<Longrightarrow> \<exists>d. requirePiece kingdomsPieces k = Inr d \<and> getPiece kingdomsPieces k = Some d"
proof -
  assume "k \<in> set UNIT_KINDS \<or> k \<in> set STRUCTURE_KINDS"
  then have "\<exists>d. getPiece kingdomsPieces k = Some d"
    by (auto simp: getPiece_kingdoms UNIT_KINDS_eq STRUCTURE_KINDS_eq STRUCTURE_DEFS_def UNIT_DEFS_def
                   structure_entry_def unit_entry_def)
  then show ?thesis by (auto simp: requirePiece_def reg_require_def getPiece_def)
qed

lemma unit_stats_attack:
  "k \<in> set UNIT_KINDS \<Longrightarrow> \<exists>st. jget UNIT_STATS k = Some st \<and> 0 < us_attack st \<and> 0 < us_foodPerRound st \<and>
     jget (getDefaultStats kingdomsPieces k) ''attack'' = Some (real_of_int (us_attack st))"
  using getPiece_kingdoms [of k]
  by (auto simp: UNIT_KINDS_eq UNIT_STATS_def UNIT_DEFS_def STRUCTURE_DEFS_def structure_entry_def unit_entry_def
                 getDefaultStats_def getPiece_def)

lemma terrain_defense_ge_1: "1 \<le> terrainDefenseBonus t"
proof -
  have k: "kingdomsTerrains =
     [(''plains'', kterrain ''plains'' ''Plains'' 1 1), (''hills'', kterrain ''hills'' ''Hills'' (13 / 10) 2),
      (''forest'', kterrain ''forest'' ''Forest'' (3 / 2) 2), (''mountain'', kterrain ''mountain'' ''Mountain'' 2 3)]"
    by (simp add: kingdomsTerrains_def registerTerrain_def reg_insert_def jhas_def kterrain_def)
  show ?thesis unfolding terrainDefenseBonus_def getTerrain_def k by (simp add: kterrain_def)
qed

lemma structure_defense_ge_1: "jget STRUCTURE_STATS k = Some st \<Longrightarrow> 1 \<le> ss_defenseMultiplier st"
  by (auto simp: STRUCTURE_STATS_def STRUCTURE_DEFS_def split: if_splits)

subsection \<open>The gold exchange\<close>

lemma exchangeForFood_spec:
  assumes "inv_ok bag" "0 < need"
  shows "\<exists>bag'. exchangeForFood need bag = (Inr (min need (inv_get bag ''gold'' div 3)), bag') \<and> inv_ok bag' \<and>
     inv_get bag' ''gold'' = inv_get bag ''gold'' - 3 * min need (inv_get bag ''gold'' div 3) \<and>
     inv_get bag' ''food'' = inv_get bag ''food'' + min need (inv_get bag ''gold'' div 3) \<and>
     (\<forall>r. r \<noteq> ''gold'' \<longrightarrow> r \<noteq> ''food'' \<longrightarrow> inv_get bag' r = inv_get bag r)"
proof -
  define p where "p = min need (inv_get bag ''gold'' div 3)"
  have gold: "0 \<le> inv_get bag ''gold''" and food: "0 \<le> inv_get bag ''food''" using assms(1) by (simp_all add: inv_okD)
  then have p: "0 \<le> p" using assms(2) by (simp add: p_def pos_imp_zdiv_nonneg_iff)
  have "p \<le> inv_get bag ''gold'' div 3" by (simp add: p_def)
  then have enough: "p * 3 \<le> inv_get bag ''gold''" by linarith
  have run: "exchangeForFood need bag =
      (if p > 0 then case executeExchange ''food'' p bag of (Inl e, bag') \<Rightarrow> (Inl e, bag') | (Inr _, bag') \<Rightarrow> (Inr p, bag')
       else (Inr p, bag))"
    unfolding exchangeForFood_def Let_def EXCHANGE_RATE_def p_def [symmetric] using assms(2) by simp
  show ?thesis
    unfolding p_def [symmetric]
  proof (cases "0 < p")
    case True
    let ?bag = "jput ''food'' (inv_get bag ''food'' + p) (jput ''gold'' (inv_get bag ''gold'' - p * 3) bag)"
    have "executeExchange ''food'' p bag = (Inr (), ?bag)"
      using True enough by (simp add: executeExchange_def EXCHANGE_RATE_def inv_remove_ok inv_add_ok)
    moreover have "inv_ok ?bag" using assms(1) enough p food by (intro inv_jput_ok) auto
    ultimately show "\<exists>bag'. exchangeForFood need bag = (Inr p, bag') \<and> inv_ok bag' \<and>
        inv_get bag' ''gold'' = inv_get bag ''gold'' - 3 * p \<and> inv_get bag' ''food'' = inv_get bag ''food'' + p \<and>
        (\<forall>r. r \<noteq> ''gold'' \<longrightarrow> r \<noteq> ''food'' \<longrightarrow> inv_get bag' r = inv_get bag r)"
      using True by (auto simp: run)
  next
    case False
    with p have "p = 0" by simp
    then show "\<exists>bag'. exchangeForFood need bag = (Inr p, bag') \<and> inv_ok bag' \<and>
        inv_get bag' ''gold'' = inv_get bag ''gold'' - 3 * p \<and> inv_get bag' ''food'' = inv_get bag ''food'' + p \<and>
        (\<forall>r. r \<noteq> ''gold'' \<longrightarrow> r \<noteq> ''food'' \<longrightarrow> inv_get bag' r = inv_get bag r)"
      using assms(1) by (simp add: run)
  qed
qed

subsection \<open>Upkeep\<close>

lemma foldl_add_int: "foldl (\<lambda>acc x. acc + f x) (a :: int) xs = a + sum_list (map f xs)"
  by (induction xs arbitrary: a) auto

lemma food_costs_nonneg: "0 \<le> calculateFoodConsumption ks" "0 \<le> calculateStructureFoodCost ks"
proof -
  have "0 \<le> (case jget UNIT_STATS k of None \<Rightarrow> 0 | Some st \<Rightarrow> us_foodPerRound st)" for k
    by (auto simp: UNIT_STATS_def UNIT_DEFS_def)
  then show "0 \<le> calculateFoodConsumption ks"
    unfolding calculateFoodConsumption_def foldl_add_int by (simp add: sum_list_nonneg_int)
  have "0 \<le> (case jget STRUCTURE_DEFS k of None \<Rightarrow> 0 | Some d \<Rightarrow> sd_foodCostPerRound d)" for k
    by (auto simp: STRUCTURE_DEFS_def)
  then show "0 \<le> calculateStructureFoodCost ks"
    unfolding calculateStructureFoodCost_def foldl_add_int by (simp add: sum_list_nonneg_int)
qed

end
