(* ===== verification/KingdomsState.thy ===== *)
theory KingdomsState
  imports Game Combat Connectivity KingdomsData
begin

text \<open>
  The state of Kingdoms of Dominion and the queries every action shares: the entries the scenario
  keeps in \<open>state.extras\<close>, the accessors and piece queries of \<open>actions/helpers.ts\<close>, the
  connectivity wrapper \<open>connectivity.ts\<close> and the income queries of \<open>income.ts\<close>.
\<close>

section \<open>Payloads and extras\<close>

text \<open>
  The payload of an action holds the fields its validator destructures, at their declared types;
  an action ignores the fields it does not name.
\<close>

record kpayload =
  kp_tileId :: string
  kp_unitKind :: string
  kp_structureKind :: string
  kp_pieceId :: string
  kp_targetTileId :: string
  kp_fromTileId :: string
  kp_toTileId :: string
  kp_unitIds :: "string list option"

record battle_report =
  br_fromTileId :: string
  br_toTileId :: string
  br_defenderOwner :: "string option"
  br_attackerWins :: bool
  br_attackerStrength :: real
  br_defenderStrength :: real
  br_attackerCasualties :: nat
  br_defenderCasualties :: nat

record income_result =
  in_wood :: int
  in_food :: int
  in_iron :: int
  in_gold :: int

datatype kevent =
    UnitRecruited string string string
  | UnitMoved string "string option" string
  | BattleResolved battle_report
  | TileCaptured string "string option"
  | TileLoyaltyReduced string int
  | PlayerEliminated string string
  | StructureBuilt string string string
  | StructureDemolished string string "(string \<times> int) list"
  | TileDeveloped string int "string option"
  | TurnEnded string bool int
  | IncomeCollected income_result
  | FoodConsumed int int
  | FoodPurchased int int
  | CityMortgaged string
  | TerritoryDisconnected "string list"
  | RoundEnded int

record tile_loyalty =
  tl_loyalty :: int
  tl_lastAttackerId :: string

record kextras =
  kx_ownership :: "(string, string) jsmap option"
  kx_capitals :: "(string, string) jsmap option"
  kx_nextPieceId :: "int option"
  kx_movedThisTurn :: "string list option"
  kx_attackedFrom :: "string list option"
  kx_tileLoyalty :: "(string, tile_loyalty) jsmap option"
  kx_mortgagedCities :: "string list option"
  kx_developed :: "string list option"

definition emptyExtras :: kextras where
  "emptyExtras = \<lparr>kx_ownership = None, kx_capitals = None, kx_nextPieceId = None, kx_movedThisTurn = None,
     kx_attackedFrom = None, kx_tileLoyalty = None, kx_mortgagedCities = None, kx_developed = None\<rparr>"

type_synonym kstate = "(kextras, kpayload, kevent) game_state"
type_synonym kaction = "kpayload action"
type_synonym kevents = "kevent game_event list"

abbreviation set_extras :: "(kextras \<Rightarrow> kextras) \<Rightarrow> kstate \<Rightarrow> kstate" where
  "set_extras f s \<equiv> s\<lparr>gs_extras := f (gs_extras s)\<rparr>"

section \<open>Extras accessors (helpers.ts)\<close>

definition getOwnership :: "kstate \<Rightarrow> (string, string) jsmap" where
  "getOwnership s = (case kx_ownership (gs_extras s) of Some m \<Rightarrow> m | None \<Rightarrow> [])"

definition getCapitals :: "kstate \<Rightarrow> (string, string) jsmap" where
  "getCapitals s = (case kx_capitals (gs_extras s) of Some m \<Rightarrow> m | None \<Rightarrow> [])"

definition getMovedThisTurn :: "kstate \<Rightarrow> string list" where
  "getMovedThisTurn s = (case kx_movedThisTurn (gs_extras s) of Some m \<Rightarrow> m | None \<Rightarrow> [])"

definition getAttackedFrom :: "kstate \<Rightarrow> string list" where
  "getAttackedFrom s = (case kx_attackedFrom (gs_extras s) of Some m \<Rightarrow> m | None \<Rightarrow> [])"

definition getDeveloped :: "kstate \<Rightarrow> string list" where
  "getDeveloped s = (case kx_developed (gs_extras s) of Some m \<Rightarrow> fold jadd m [] | None \<Rightarrow> [])"

definition getTileLoyalty :: "kstate \<Rightarrow> (string, tile_loyalty) jsmap" where
  "getTileLoyalty s = (case kx_tileLoyalty (gs_extras s) of Some m \<Rightarrow> m | None \<Rightarrow> [])"

definition getMortgagedCityIds :: "kstate \<Rightarrow> string list" where
  "getMortgagedCityIds s = (case kx_mortgagedCities (gs_extras s) of Some m \<Rightarrow> fold jadd m [] | None \<Rightarrow> [])"

definition nextId :: "kstate \<Rightarrow> string \<times> kstate" where
  "nextId s =
     (let n = (case kx_nextPieceId (gs_extras s) of Some k \<Rightarrow> k | None \<Rightarrow> 0) + 1
      in (''kp-'' @ show_int n, set_extras (kx_nextPieceId_update (\<lambda>_. Some n)) s))"

section \<open>Piece queries (helpers.ts)\<close>

definition unitsOnTile :: "kstate \<Rightarrow> string \<Rightarrow> string option \<Rightarrow> string list option \<Rightarrow> string list" where
  "unitsOnTile s t ownerFilter unitKindSet =
     map fst (filter (\<lambda>(i, p).
       (case unitKindSet of Some ks \<Rightarrow> pc_kind p \<in> set ks | None \<Rightarrow> True) \<and>
       pc_location p = OnTile t \<and>
       (case ownerFilter of Some w \<Rightarrow> pc_owner p = w | None \<Rightarrow> True)) (gs_pieces s))"

definition structureOnTile :: "kstate \<Rightarrow> string \<Rightarrow> string list \<Rightarrow> (string \<times> string \<times> string) option" where
  "structureOnTile s t structureKindSet =
     map_option (\<lambda>(i, p). (i, pc_kind p, pc_owner p))
       (find (\<lambda>(i, p). pc_kind p \<in> set structureKindSet \<and> pc_location p = OnTile t) (gs_pieces s))"

definition countPlayerPiecesOfKind :: "kstate \<Rightarrow> string \<Rightarrow> string \<Rightarrow> int" where
  "countPlayerPiecesOfKind s playerId kind =
     int (length (filter (\<lambda>(i, p). pc_owner p = playerId \<and> pc_kind p = kind) (gs_pieces s)))"

definition isAdjacent :: "game_map \<Rightarrow> string \<Rightarrow> string \<Rightarrow> bool" where
  "isAdjacent m tileIdA tileIdB =
     (case tileById m tileIdA of
        None \<Rightarrow> False
      | Some tileA \<Rightarrow> list_ex (\<lambda>t. tile_id t = tileIdB) (neighboursOf m (tile_coord tileA)))"

section \<open>Connectivity of a player's territory (connectivity.ts)\<close>

definition playerOwnedTiles :: "(string, string) jsmap \<Rightarrow> string \<Rightarrow> string list" where
  "playerOwnedTiles ownership playerId = map fst (filter (\<lambda>(_, owner). owner = playerId) ownership)"

definition gate_step :: "string \<Rightarrow> string \<times> piece \<Rightarrow> string list \<Rightarrow> string list" where
  "gate_step playerId ip result =
     (case ip of (_, p) \<Rightarrow>
        if pc_kind p \<noteq> ''gate'' \<or> pc_owner p \<noteq> playerId then result
        else case pc_location p of OnTile t \<Rightarrow> jadd t result | _ \<Rightarrow> result)"

definition playerGateTileIds :: "kstate \<Rightarrow> string \<Rightarrow> string list" where
  "playerGateTileIds s playerId = fold (gate_step playerId) (gs_pieces s) []"

text \<open>\<open>if (!capitalId)\<close> also rejects the empty string.\<close>

definition playerConnectedTiles :: "game_map \<Rightarrow> kstate \<Rightarrow> string \<Rightarrow> string list" where
  "playerConnectedTiles m s playerId =
     (case jget (getCapitals s) playerId of
        None \<Rightarrow> []
      | Some capitalId \<Rightarrow>
          if capitalId = [] then []
          else getConnectedTiles m capitalId (playerOwnedTiles (getOwnership s) playerId) (playerGateTileIds s playerId))"

definition connectedTiles :: "kstate \<Rightarrow> string \<Rightarrow> string list" where
  "connectedTiles s playerId = playerConnectedTiles (gs_map s) s playerId"

section \<open>The common guard (helpers.ts)\<close>

definition guardActivePlayer :: "kstate \<Rightarrow> string option \<Rightarrow> action_error option" where
  "guardActivePlayer s playerId =
     (case playerId of
        None \<Rightarrow> Some (actionError ''no-player'')
      | Some p \<Rightarrow>
          if p = [] then Some (actionError ''no-player'')
          else if activePlayer (currentTurn (gs_rounds s)) \<noteq> p then Some (actionError ''not-your-turn'')
          else if isEliminated (gs_players s) p then Some (actionError ''eliminated'')
          else None)"

section \<open>Income (income.ts)\<close>

definition buildStructureMap :: "kstate \<Rightarrow> string list \<Rightarrow> (string, string list) jsmap" where
  "buildStructureMap s mortgagedIds =
     fold (\<lambda>(i, p) result.
       if i \<in> set mortgagedIds then result
       else if pc_kind p \<notin> set STRUCTURE_KINDS then result
       else case pc_location p of
              OnTile t \<Rightarrow> jput t ((case jget result t of Some l \<Rightarrow> l | None \<Rightarrow> []) @ [pc_kind p]) result
            | _ \<Rightarrow> result) (gs_pieces s) []"

definition TERRAIN_DEVELOPS_INTO :: "(string, string) jsmap" where
  "TERRAIN_DEVELOPS_INTO = [(''plains'', ''food''), (''forest'', ''wood''), (''hills'', ''iron''), (''mountain'', ''iron'')]"

definition addResource :: "string \<Rightarrow> int \<Rightarrow> income_result \<Rightarrow> income_result" where
  "addResource resource amount r =
     (if resource = ''wood'' then r\<lparr>in_wood := in_wood r + amount\<rparr>
      else if resource = ''food'' then r\<lparr>in_food := in_food r + amount\<rparr>
      else if resource = ''iron'' then r\<lparr>in_iron := in_iron r + amount\<rparr>
      else r)"

definition effectiveResource :: "tile \<Rightarrow> string option" where
  "effectiveResource t =
     (case prop_str t ''resourceType'' of Some r \<Rightarrow> Some r | None \<Rightarrow> jget TERRAIN_DEVELOPS_INTO (tile_terrain t))"

text \<open>The body of the loop over the connected tiles.\<close>

definition income_step ::
  "game_map \<Rightarrow> (string, string list) jsmap \<Rightarrow> string list \<Rightarrow> string \<Rightarrow> income_result \<Rightarrow> income_result" where
  "income_step m structures developed tid result =
     (case tileById m tid of
        None \<Rightarrow> result
      | Some t \<Rightarrow>
          let kinds = (case jget structures tid of Some ks \<Rightarrow> ks | None \<Rightarrow> []);
              income = calculateTileIncome t kinds;
              r1 = result\<lparr>in_gold := in_gold result + ti_gold income\<rparr>;
              r2 = (case ti_resource income of
                      None \<Rightarrow> r1
                    | Some res \<Rightarrow> if res \<noteq> [] \<and> ti_resourceAmount income > 0
                                  then addResource res (ti_resourceAmount income) r1 else r1)
          in if tid \<in> set developed
             then (case effectiveResource t of
                     None \<Rightarrow> r2
                   | Some res \<Rightarrow> if res \<noteq> [] then addResource res BASE_RESOURCE_YIELD r2 else r2)
             else r2)"

definition zeroIncome :: income_result where
  "zeroIncome = \<lparr>in_wood = 0, in_food = 0, in_iron = 0, in_gold = 0\<rparr>"

definition computeIncome :: "kstate \<Rightarrow> string \<Rightarrow> income_result" where
  "computeIncome s playerId =
     (case jget (getCapitals s) playerId of
        None \<Rightarrow> zeroIncome
      | Some capital \<Rightarrow>
          if capital = [] then zeroIncome
          else let connected = playerConnectedTiles (gs_map s) s playerId;
                   mortgaged = getMortgagedCityIds s;
                   structures = buildStructureMap s mortgaged;
                   developed = getDeveloped s
               in fold (income_step (gs_map s) structures developed) connected zeroIncome)"

definition computeFoodCost :: "kstate \<Rightarrow> string \<Rightarrow> int" where
  "computeFoodCost s playerId =
     (let mortgaged = getMortgagedCityIds s;
          mine = filter (\<lambda>(i, p). pc_owner p = playerId \<and> i \<notin> set mortgaged) (gs_pieces s);
          unitKinds = map (\<lambda>(_, p). pc_kind p) (filter (\<lambda>(_, p). jget UNIT_STATS (pc_kind p) \<noteq> None) mine);
          structureKinds = map (\<lambda>(_, p). pc_kind p)
            (filter (\<lambda>(_, p). jget UNIT_STATS (pc_kind p) = None \<and> pc_kind p \<in> set STRUCTURE_KINDS) mine)
      in calculateFoodConsumption unitKinds + calculateStructureFoodCost structureKinds)"

section \<open>Facts\<close>

lemma set_fold_jadd [simp]: "set (fold jadd xs acc) = set xs \<union> set acc"
  by (induction xs arbitrary: acc) auto

lemma guard_None:
  "guardActivePlayer s playerId = None \<longleftrightarrow>
   (\<exists>p. playerId = Some p \<and> p \<noteq> [] \<and> activePlayer (currentTurn (gs_rounds s)) = p \<and> \<not> isEliminated (gs_players s) p)"
  by (auto simp: guardActivePlayer_def split: option.splits)

lemma unitsOnTile_mem:
  assumes "distinct (jkeys (gs_pieces s))"
  shows "i \<in> set (unitsOnTile s t owner (Some ks)) \<longleftrightarrow>
    (\<exists>p. jget (gs_pieces s) i = Some p \<and> pc_kind p \<in> set ks \<and> pc_location p = OnTile t \<and>
         (case owner of Some w \<Rightarrow> pc_owner p = w | None \<Rightarrow> True))"
  unfolding unitsOnTile_def
  using map_of_eq_Some_iff [OF assms] by (force simp: image_iff)

lemma unitsOnTile_distinct: "distinct (jkeys (gs_pieces s)) \<Longrightarrow> distinct (unitsOnTile s t owner ks)"
  unfolding unitsOnTile_def by (rule distinct_map_filter)

lemma structureOnTile_Some:
  assumes "distinct (jkeys (gs_pieces s))" "structureOnTile s t ks = Some (i, k, w)"
  shows "\<exists>p. jget (gs_pieces s) i = Some p \<and> pc_kind p = k \<and> pc_owner p = w \<and> k \<in> set ks \<and> pc_location p = OnTile t"
  using assms(2) map_of_eq_Some_iff [OF assms(1)]
  by (auto simp: structureOnTile_def dest!: find_SomeD)

lemma structureOnTile_None:
  "structureOnTile s t ks = None \<longleftrightarrow> (\<forall>(i, p) \<in> set (gs_pieces s). pc_kind p \<in> set ks \<longrightarrow> pc_location p \<noteq> OnTile t)"
  by (auto simp: structureOnTile_def find_None_iff)

lemma set_playerOwnedTiles:
  "distinct (jkeys m) \<Longrightarrow> t \<in> set (playerOwnedTiles m p) \<longleftrightarrow> jget m t = Some p"
  by (force simp: playerOwnedTiles_def map_of_eq_Some_iff)

definition gateTiles :: "kstate \<Rightarrow> string \<Rightarrow> string set" where
  "gateTiles s playerId =
     {t. \<exists>p \<in> set (jvals (gs_pieces s)). pc_kind p = ''gate'' \<and> pc_owner p = playerId \<and> pc_location p = OnTile t}"

lemma gate_step_mem:
  "t \<in> set (gate_step playerId (i, p) acc) \<longleftrightarrow>
   t \<in> set acc \<or> (pc_kind p = ''gate'' \<and> pc_owner p = playerId \<and> pc_location p = OnTile t)"
  by (auto simp: gate_step_def split: piece_location.splits)

lemma gate_fold:
  "t \<in> set (fold (gate_step playerId) ps acc) \<longleftrightarrow>
   t \<in> set acc \<or> (\<exists>p \<in> set (jvals ps). pc_kind p = ''gate'' \<and> pc_owner p = playerId \<and> pc_location p = OnTile t)"
proof (induction ps arbitrary: acc)
  case (Cons ip ps)
  then show ?case by (cases ip) (auto simp: gate_step_mem)
qed simp

lemma set_playerGateTileIds: "set (playerGateTileIds s playerId) = gateTiles s playerId"
  unfolding playerGateTileIds_def gateTiles_def by (simp add: set_eq_iff gate_fold del: set_map)

text \<open>A player's connected tiles are the owned tiles a supply line from the capital reaches.\<close>

definition supplied :: "kstate \<Rightarrow> string \<Rightarrow> string set" where
  "supplied s playerId =
     (case jget (getCapitals s) playerId of
        None \<Rightarrow> {}
      | Some cap \<Rightarrow>
          if cap = [] \<or> jget (getOwnership s) cap \<noteq> Some playerId then {}
          else {t. (supply_step (gs_map s) {t. jget (getOwnership s) t = Some playerId} (gateTiles s playerId))\<^sup>*\<^sup>* cap t})"

lemma set_connectedTiles:
  assumes "distinct (jkeys (getOwnership s))"
  shows "set (connectedTiles s playerId) = supplied s playerId"
proof -
  have "set (playerOwnedTiles (getOwnership s) playerId) = {t. jget (getOwnership s) t = Some playerId}"
    by (auto simp: set_playerOwnedTiles [OF assms])
  then show ?thesis
    by (cases "jget (getCapitals s) playerId")
       (auto simp: connectedTiles_def playerConnectedTiles_def supplied_def set_getConnectedTiles set_playerGateTileIds
           getConnectedTiles_unowned)
qed

lemma connectedTiles_owned:
  assumes "distinct (jkeys (getOwnership s))" "t \<in> set (connectedTiles s playerId)"
  shows "jget (getOwnership s) t = Some playerId"
  using assms(2) connected_owned
  by (fastforce simp: connectedTiles_def playerConnectedTiles_def set_playerOwnedTiles [OF assms(1)]
                split: option.splits if_splits)

lemma isAdjacent_adjacent: "isAdjacent m x y = adjacent_ids m x y"
  by (simp add: isAdjacent_def adjacent_ids_def)

lemma computeFoodCost_nonneg: "0 \<le> computeFoodCost s p"
  by (simp add: computeFoodCost_def Let_def food_costs_nonneg add_nonneg_nonneg)

lemma isAdjacent_tile: "wf_map m \<Longrightarrow> isAdjacent m x y \<Longrightarrow> \<exists>t. tileById m y = Some t"
  by (auto simp: isAdjacent_def list_ex_iff neighboursOf_iff split: option.splits)

end
