(* ===== verification/KingdomsEconomy.thy ===== *)
theory KingdomsEconomy
  imports KingdomsState
begin

text \<open>
  The round-end batch of Kingdoms of Dominion, \<open>economy-loop.ts\<close>, and the end-turn action,
  \<open>actions/end-turn.ts\<close>.
\<close>

section \<open>The per-player cycle (economy-loop.ts)\<close>

text \<open>The decimal suffix of an identifier: the match of the pattern for digits at the end.\<close>

definition idOrder :: "string \<Rightarrow> nat" where
  "idOrder pieceId =
     (let ds = rev (takeWhile is_digit (rev pieceId)) in if ds = [] then 0 else parse_nat ds)"

definition findOldestUnmortgagedCity :: "kstate \<Rightarrow> string \<Rightarrow> string list \<Rightarrow> string option" where
  "findOldestUnmortgagedCity s playerId mortgagedIds =
     fold (\<lambda>(i, p) oldest.
       if pc_owner p \<noteq> playerId \<or> pc_kind p \<noteq> ''city'' then oldest
       else if i \<in> set mortgagedIds then oldest
       else (case oldest of
               None \<Rightarrow> Some i
             | Some old \<Rightarrow> if idOrder i < idOrder old then Some i else Some old)) (gs_pieces s) None"

definition findDisconnectedTiles :: "kstate \<Rightarrow> string \<Rightarrow> string list" where
  "findDisconnectedTiles s playerId =
     (let connected = playerConnectedTiles (gs_map s) s playerId
      in map fst (filter (\<lambda>(t, owner). owner = playerId \<and> t \<notin> set connected) (getOwnership s)))"

text \<open>\<open>if (income.wood > 0) inv.add('wood', income.wood)\<close> and the three lines after it.\<close>

fun addIncome :: "(string \<times> int) list \<Rightarrow> (inventory, unit) effect" where
  "addIncome [] bag = (Inr (), bag)"
| "addIncome ((r, n) # rest) bag =
     (if n > 0 then (case inv_add r n bag of
                       (Inl e, bag') \<Rightarrow> (Inl e, bag')
                     | (Inr _, bag') \<Rightarrow> addIncome rest bag')
      else addIncome rest bag)"

definition income_entries :: "income_result \<Rightarrow> (string \<times> int) list" where
  "income_entries i = [(''wood'', in_wood i), (''food'', in_food i), (''iron'', in_iron i), (''gold'', in_gold i)]"

definition consumeFood :: "string \<Rightarrow> int \<Rightarrow> (inventory, kevents) effect" where
  "consumeFood playerId foodCost bag =
     (if foodCost > 0 then
        let foodHave = inv_get bag ''food'';
            foodUsed = min foodHave foodCost
        in case (if foodUsed > 0 then inv_remove ''food'' foodUsed bag else (Inr (), bag)) of
             (Inl e, bag1) \<Rightarrow> (Inl e, bag1)
           | (Inr _, bag1) \<Rightarrow>
               let events = [mkEvent ''food-consumed'' (Some playerId) (FoodConsumed foodUsed foodCost)];
                   rawDeficit = foodCost - foodHave
               in if rawDeficit > 0
                  then (case exchangeForFood rawDeficit bag1 of
                          (Inl e, bag2) \<Rightarrow> (Inl e, bag2)
                        | (Inr purchased, bag2) \<Rightarrow>
                            (Inr (if purchased > 0
                                  then events @ [mkEvent ''food-purchased'' (Some playerId)
                                                   (FoodPurchased purchased (purchased * EXCHANGE_RATE))]
                                  else events), bag2))
                  else (Inr events, bag1)
      else (Inr [], bag))"

definition mortgageStep :: "string \<Rightarrow> inventory \<Rightarrow> kstate \<Rightarrow> kevents \<times> kstate" where
  "mortgageStep playerId bag s =
     (if inv_get bag ''gold'' < 0 then
        let mortgagedRaw = (case kx_mortgagedCities (gs_extras s) of Some m \<Rightarrow> m | None \<Rightarrow> [])
        in case findOldestUnmortgagedCity s playerId (fold jadd mortgagedRaw []) of
             None \<Rightarrow> ([], s)
           | Some city \<Rightarrow>
               if city = [] then ([], s)
               else ([mkEvent ''city-mortgaged'' (Some playerId) (CityMortgaged city)],
                     set_extras (kx_mortgagedCities_update (\<lambda>_. Some (mortgagedRaw @ [city]))) s)
      else ([], s))"

definition processPlayerCycle :: "string \<Rightarrow> (kstate, kevents) effect" where
  "processPlayerCycle playerId s =
     (case jget (gs_inventories s) playerId of
        None \<Rightarrow> (Inr [], s)
      | Some bag \<Rightarrow>
          let income = computeIncome s playerId
          in case addIncome (income_entries income) bag of
               (Inl e, bag1) \<Rightarrow> (Inl e, put_inventory playerId bag1 s)
             | (Inr _, bag1) \<Rightarrow>
                 let foodCost = computeFoodCost s playerId
                 in case consumeFood playerId foodCost bag1 of
                      (Inl e, bag2) \<Rightarrow> (Inl e, put_inventory playerId bag2 s)
                    | (Inr foodEvents, bag2) \<Rightarrow>
                        (case mortgageStep playerId bag2 (put_inventory playerId bag2 s) of
                           (mortgageEvents, s') \<Rightarrow>
                             (Inr ([mkEvent ''income-collected'' (Some playerId) (IncomeCollected income)] @
                                   foodEvents @ mortgageEvents), s')))"

fun playerCycles :: "string list \<Rightarrow> (kstate, kevents) effect" where
  "playerCycles [] s = (Inr [], s)"
| "playerCycles (p # ps) s =
     (case processPlayerCycle p s of
        (Inl e, s') \<Rightarrow> (Inl e, s')
      | (Inr es, s') \<Rightarrow>
          (case playerCycles ps s' of
             (Inl e, s'') \<Rightarrow> (Inl e, s'')
           | (Inr es', s'') \<Rightarrow> (Inr (es @ es'), s'')))"

definition disconnectedEvents :: "kstate \<Rightarrow> string list \<Rightarrow> kevents" where
  "disconnectedEvents s ps =
     concat (map (\<lambda>p. let disconnected = findDisconnectedTiles s p
                       in if length disconnected > 0
                          then [mkEvent ''territory-disconnected'' (Some p) (TerritoryDisconnected disconnected)]
                          else []) ps)"

definition processRoundEnd :: "(kstate, kevents) effect" where
  "processRoundEnd s =
     (let activePlayers = map pl_id (pm_active (gs_players s))
      in case playerCycles activePlayers s of
           (Inl e, s') \<Rightarrow> (Inl e, s')
         | (Inr es, s') \<Rightarrow>
             (Inr (es @ disconnectedEvents s' activePlayers @
                   [mkEvent ''round-ended'' None (RoundEnded (currentRound (gs_rounds s')))]), s'))"

section \<open>End of turn (actions/end-turn.ts)\<close>

definition LOYALTY_RECOVERY_PER_ROUND :: int where "LOYALTY_RECOVERY_PER_ROUND = 10"
definition MAX_LOYALTY :: int where "MAX_LOYALTY = 100"

definition recover_step :: "string \<times> tile_loyalty \<Rightarrow> (string, tile_loyalty) jsmap \<Rightarrow> (string, tile_loyalty) jsmap" where
  "recover_step te m =
     (case te of (t, entry) \<Rightarrow>
        let recovered = tl_loyalty entry + LOYALTY_RECOVERY_PER_ROUND
        in if recovered \<ge> MAX_LOYALTY then jdel t m else jput t (entry\<lparr>tl_loyalty := recovered\<rparr>) m)"

definition recoverLoyalty :: "(string, tile_loyalty) jsmap \<Rightarrow> (string, tile_loyalty) jsmap" where
  "recoverLoyalty m = fold recover_step m m"

definition endTurnValidator :: "kstate \<Rightarrow> kaction \<Rightarrow> exn + action_error option" where
  "endTurnValidator s a = Inr (guardActivePlayer s (ac_playerId a))"

definition endTurnExecutor :: "kaction \<Rightarrow> (kstate, kevents) effect" where
  "endTurnExecutor a s =
     (let s1 = set_extras (kx_movedThisTurn_update (\<lambda>_. Some []) \<circ> kx_attackedFrom_update (\<lambda>_. Some [])) s
      in case rm_endTurn turn_next (pm_all (gs_players s1)) ''command'' (gs_rounds s1) of
           (Inl e, rm) \<Rightarrow> (Inl e, s1\<lparr>gs_rounds := rm\<rparr>)
         | (Inr te, rm) \<Rightarrow>
             let s2 = s1\<lparr>gs_rounds := rm\<rparr>;
                 ended = mkEvent ''turn-ended'' (Some (actor a)) (TurnEnded (newActivePlayer te) (newRound te) (currentRound rm))
             in if newRound te
                then (case processRoundEnd s2 of
                        (Inl e, s3) \<Rightarrow> (Inl e, s3)
                      | (Inr es, s3) \<Rightarrow>
                          (Inr (ended # es),
                           set_extras (kx_tileLoyalty_update (\<lambda>_. Some (recoverLoyalty (getTileLoyalty s3)))) s3))
                else (Inr [ended], s2))"

section \<open>Facts: the economy never throws and never disbands\<close>

lemma addIncome_ok:
  "inv_ok bag \<Longrightarrow> \<exists>bag'. addIncome es bag = (Inr (), bag') \<and> inv_ok bag'"
proof (induction es arbitrary: bag)
  case (Cons e es)
  obtain r n where e: "e = (r, n)" by (cases e)
  show ?case
  proof (cases "0 < n")
    case True
    then have "inv_add r n bag = (Inr (), jput r (inv_get bag r + n) bag)" by (simp add: inv_add_ok)
    moreover have "inv_ok (jput r (inv_get bag r + n) bag)"
      using Cons.prems True inv_okD [OF Cons.prems, of r] by (intro inv_jput_ok) auto
    ultimately show ?thesis using Cons.IH True e by simp
  next
    case False
    with Cons e show ?thesis by simp
  qed
qed simp

lemma addIncome_get:
  "distinct (map fst es) \<Longrightarrow> addIncome es bag = (Inr (), bag') \<Longrightarrow>
   inv_get bag' r = inv_get bag r + (case map_of es r of Some n \<Rightarrow> max 0 n | None \<Rightarrow> 0)"
proof (induction es arbitrary: bag)
  case (Cons e es)
  obtain x n where e: "e = (x, n)" by (cases e)
  have notin: "map_of es x = None" using Cons.prems e by (simp add: map_of_eq_None_iff)
  show ?case
  proof (cases "0 < n")
    case True
    with Cons.prems e have "addIncome es (jput x (inv_get bag x + n) bag) = (Inr (), bag')"
      by (simp add: inv_add_ok)
    from Cons.IH [OF _ this] Cons.prems(1) e True notin show ?thesis by auto
  next
    case False
    with Cons.prems e have "addIncome es bag = (Inr (), bag')" by simp
    from Cons.IH [OF _ this] Cons.prems(1) e False notin show ?thesis by (auto split: option.splits)
  qed
qed simp

text \<open>
  Feeding the army: food is drawn from the stock first, then bought with gold at the exchange rate
  as far as the gold goes; what is left over is simply not eaten.
\<close>

lemma consumeFood_spec:
  assumes "inv_ok bag" "0 \<le> need"
  defines "used \<equiv> min (inv_get bag ''food'') need"
  defines "bought \<equiv> min (need - used) (inv_get bag ''gold'' div 3)"
  shows "\<exists>es bag'. consumeFood p need bag = (Inr es, bag') \<and> inv_ok bag' \<and>
     inv_get bag' ''food'' = inv_get bag ''food'' - used + bought \<and>
     inv_get bag' ''gold'' = inv_get bag ''gold'' - 3 * bought \<and>
     (\<forall>r. r \<noteq> ''gold'' \<longrightarrow> r \<noteq> ''food'' \<longrightarrow> inv_get bag' r = inv_get bag r)"
proof -
  have food: "0 \<le> inv_get bag ''food''" and gold: "0 \<le> inv_get bag ''gold''" using assms(1) by (simp_all add: inv_okD)
  have gold3: "0 \<le> inv_get bag ''gold'' div 3" using gold by (simp add: pos_imp_zdiv_nonneg_iff)
  have used: "0 \<le> used" "used \<le> inv_get bag ''food''" "used \<le> need" using food assms(2) by (auto simp: used_def)
  show ?thesis
  proof (cases "0 < need")
    case False
    with assms(2) have "need = 0" by simp
    with used have "used = 0" by simp
    with \<open>need = 0\<close> gold3 have "bought = 0" by (simp add: bought_def)
    with \<open>used = 0\<close> \<open>need = 0\<close> assms(1) show ?thesis by (simp add: consumeFood_def)
  next
    case True
    define bag1 where "bag1 = (if 0 < used then jput ''food'' (inv_get bag ''food'' - used) bag else bag)"
    have take: "(if used > 0 then inv_remove ''food'' used bag else (Inr (), bag)) = (Inr (), bag1)"
      using used by (simp add: bag1_def inv_remove_ok)
    have bag1: "inv_ok bag1" "inv_get bag1 ''food'' = inv_get bag ''food'' - used" "inv_get bag1 ''gold'' = inv_get bag ''gold''"
      "\<forall>r. r \<noteq> ''food'' \<longrightarrow> inv_get bag1 r = inv_get bag r"
      using assms(1) used by (auto simp: bag1_def inv_jput_ok)
    have run: "consumeFood p need bag =
       (if need - inv_get bag ''food'' > 0
        then (case exchangeForFood (need - inv_get bag ''food'') bag1 of
                (Inl e, bag2) \<Rightarrow> (Inl e, bag2)
              | (Inr purchased, bag2) \<Rightarrow>
                  (Inr (if purchased > 0
                        then [mkEvent ''food-consumed'' (Some p) (FoodConsumed used need)] @
                             [mkEvent ''food-purchased'' (Some p) (FoodPurchased purchased (purchased * EXCHANGE_RATE))]
                        else [mkEvent ''food-consumed'' (Some p) (FoodConsumed used need)]), bag2))
        else (Inr [mkEvent ''food-consumed'' (Some p) (FoodConsumed used need)], bag1))"
      unfolding consumeFood_def Let_def used_def [symmetric] take using True by simp
    show ?thesis
    proof (cases "inv_get bag ''food'' < need")
      case False
      then have "used = need" by (simp add: used_def)
      with gold3 have "bought = 0" by (simp add: bought_def)
      moreover have "consumeFood p need bag = (Inr [mkEvent ''food-consumed'' (Some p) (FoodConsumed used need)], bag1)"
        using False by (simp add: run)
      ultimately show ?thesis using bag1 by simp
    next
      case short: True
      then have u: "used = inv_get bag ''food''" by (simp add: used_def)
      then have d: "need - inv_get bag ''food'' = need - used" "0 < need - used" using short by simp_all
      obtain bag2 where b2: "exchangeForFood (need - used) bag1 = (Inr bought, bag2)" "inv_ok bag2"
        "inv_get bag2 ''gold'' = inv_get bag1 ''gold'' - 3 * bought" "inv_get bag2 ''food'' = inv_get bag1 ''food'' + bought"
        "\<forall>r. r \<noteq> ''gold'' \<longrightarrow> r \<noteq> ''food'' \<longrightarrow> inv_get bag2 r = inv_get bag1 r"
        using exchangeForFood_spec [OF bag1(1) d(2)] unfolding bag1(3) bought_def by blast
      have "\<exists>es. consumeFood p need bag = (Inr es, bag2)"
        using short b2(1) d by (simp add: run)
      with b2 bag1 show ?thesis by auto
    qed
  qed
qed

lemma mortgageStep_dead:
  assumes "inv_ok bag"
  shows "mortgageStep p bag s = ([], s)"
proof -
  have "\<not> inv_get bag ''gold'' < 0" using inv_okD [OF assms] by (simp add: linorder_not_less)
  then show ?thesis by (simp add: mortgageStep_def)
qed

text \<open>The round-end batch touches the inventories and nothing else of the state.\<close>

lemma processPlayerCycle_frame:
  assumes "invs_ok s"
  shows "\<exists>es invs. processPlayerCycle p s = (Inr es, s\<lparr>gs_inventories := invs\<rparr>) \<and>
     invs_ok (s\<lparr>gs_inventories := invs\<rparr>) \<and> (\<forall>q. (jget invs q = None) = (jget (gs_inventories s) q = None)) \<and>
     (\<forall>q. q \<noteq> p \<longrightarrow> jget invs q = jget (gs_inventories s) q)"
proof (cases "jget (gs_inventories s) p")
  case None
  with assms show ?thesis
    by (intro exI [of _ "[]"] exI [of _ "gs_inventories s"]) (simp add: processPlayerCycle_def)
next
  case (Some bag)
  obtain bag1 where b1: "addIncome (income_entries (computeIncome s p)) bag = (Inr (), bag1)" "inv_ok bag1"
    using addIncome_ok [OF invs_okD [OF assms Some]] by blast
  obtain es bag2 where b2: "consumeFood p (computeFoodCost s p) bag1 = (Inr es, bag2)" "inv_ok bag2"
    using consumeFood_spec [OF b1(2) computeFoodCost_nonneg] by blast
  have "processPlayerCycle p s =
      (Inr ([mkEvent ''income-collected'' (Some p) (IncomeCollected (computeIncome s p))] @ es @ []), put_inventory p bag2 s)"
    using Some b1 b2 by (simp add: processPlayerCycle_def Let_def mortgageStep_dead)
  moreover have "invs_ok (put_inventory p bag2 s)" by (rule invs_ok_put [OF assms b2(2)])
  ultimately show ?thesis using Some
    by (intro exI [of _ "[mkEvent ''income-collected'' (Some p) (IncomeCollected (computeIncome s p))] @ es @ []"]
          exI [of _ "jput p bag2 (gs_inventories s)"]) (simp add: put_inventory_def)
qed

lemma playerCycles_frame:
  "invs_ok s \<Longrightarrow> \<exists>es invs. playerCycles ps s = (Inr es, s\<lparr>gs_inventories := invs\<rparr>) \<and>
     invs_ok (s\<lparr>gs_inventories := invs\<rparr>) \<and> (\<forall>q. (jget invs q = None) = (jget (gs_inventories s) q = None))"
proof (induction ps arbitrary: s)
  case Nil
  then show ?case by (intro exI [of _ "[]"] exI [of _ "gs_inventories s"]) simp
next
  case (Cons p ps)
  obtain es invs where 1: "processPlayerCycle p s = (Inr es, s\<lparr>gs_inventories := invs\<rparr>)"
     "invs_ok (s\<lparr>gs_inventories := invs\<rparr>)" "\<forall>q. (jget invs q = None) = (jget (gs_inventories s) q = None)"
    using processPlayerCycle_frame [OF Cons.prems] by blast
  from Cons.IH [OF 1(2)] obtain es' invs' where
     "playerCycles ps (s\<lparr>gs_inventories := invs\<rparr>) = (Inr es', s\<lparr>gs_inventories := invs'\<rparr>)"
     "invs_ok (s\<lparr>gs_inventories := invs'\<rparr>)" "\<forall>q. (jget invs' q = None) = (jget invs q = None)"
    by auto
  with 1 show ?case by auto
qed

lemma processRoundEnd_frame:
  assumes "invs_ok s"
  shows "\<exists>es invs. processRoundEnd s = (Inr es, s\<lparr>gs_inventories := invs\<rparr>) \<and>
     invs_ok (s\<lparr>gs_inventories := invs\<rparr>) \<and> (\<forall>q. (jget invs q = None) = (jget (gs_inventories s) q = None))"
  using playerCycles_frame [OF assms, of "map pl_id (pm_active (gs_players s))"]
  by (auto simp: processRoundEnd_def Let_def)

section \<open>Facts: loyalty recovers\<close>

definition loyalty_ok :: "(string, tile_loyalty) jsmap \<Rightarrow> bool" where
  "loyalty_ok m \<longleftrightarrow> distinct (jkeys m) \<and> (\<forall>e \<in> set (jvals m). 0 < tl_loyalty e \<and> tl_loyalty e < 100)"

lemma jget_recover_fold:
  "distinct (jkeys es) \<Longrightarrow>
   jget (fold recover_step es m) t =
     (case jget es t of
        None \<Rightarrow> jget m t
      | Some e \<Rightarrow> if tl_loyalty e + 10 \<ge> 100 then None else Some (e\<lparr>tl_loyalty := tl_loyalty e + 10\<rparr>))"
proof (induction es arbitrary: m)
  case (Cons te es)
  obtain k e where te: "te = (k, e)" by (cases te)
  have "jget es k = None" using Cons.prems te by (simp add: map_of_eq_None_iff)
  with Cons te show ?case
    by (auto simp: recover_step_def LOYALTY_RECOVERY_PER_ROUND_def MAX_LOYALTY_def Let_def split: option.split)
qed simp

lemma jget_recoverLoyalty:
  "distinct (jkeys m) \<Longrightarrow>
   jget (recoverLoyalty m) t =
     (case jget m t of None \<Rightarrow> None
      | Some e \<Rightarrow> if tl_loyalty e + 10 \<ge> 100 then None else Some (e\<lparr>tl_loyalty := tl_loyalty e + 10\<rparr>))"
  by (simp add: recoverLoyalty_def jget_recover_fold split: option.split)

lemma distinct_recover_fold: "distinct (jkeys m) \<Longrightarrow> distinct (jkeys (fold recover_step es m))"
  by (induction es arbitrary: m) (auto simp: recover_step_def Let_def split: prod.split)

lemma loyalty_ok_iff:
  "distinct (jkeys m) \<Longrightarrow> loyalty_ok m \<longleftrightarrow> (\<forall>t e. jget m t = Some e \<longrightarrow> 0 < tl_loyalty e \<and> tl_loyalty e < 100)"
  unfolding loyalty_ok_def by (force simp: map_of_eq_Some_iff)

lemma loyalty_ok_recover: "loyalty_ok m \<Longrightarrow> loyalty_ok (recoverLoyalty m)"
proof -
  assume ok': "loyalty_ok m"
  then have d: "distinct (jkeys m)" by (simp add: loyalty_ok_def)
  then have d': "distinct (jkeys (recoverLoyalty m))" by (simp add: recoverLoyalty_def distinct_recover_fold)
  show ?thesis
    unfolding loyalty_ok_iff [OF d'] jget_recoverLoyalty [OF d]
    using ok' unfolding loyalty_ok_iff [OF d] by (fastforce split: option.splits if_splits)
qed

end
