(* ===== verification/KingdomsActions.thy ===== *)
theory KingdomsActions
  imports KingdomsEconomy
begin

text \<open>
  The player actions of Kingdoms of Dominion, \<open>actions/recruit.ts\<close>, \<open>move.ts\<close>, \<open>build.ts\<close>,
  \<open>develop.ts\<close> and \<open>attack.ts\<close>: for each the validator, with its checks in order, and the
  executor, with every mutation in order. A dereference of a missing piece or inventory is a
  \<open>TypeError\<close>.
\<close>

section \<open>Recruit (actions/recruit.ts)\<close>

definition RECRUIT_STRUCTURES :: "string list" where
  "RECRUIT_STRUCTURES = [''capital-base'', ''city'']"

definition nobleCost :: "int \<Rightarrow> (string \<times> int) list" where
  "nobleCost currentNobleCount =
     [(''gold'', \<lceil>8 * (17 / 10 :: real) ^ nat (max 0 (currentNobleCount - 1))\<rceil>), (''iron'', 1), (''food'', 1)]"

definition costOf :: "piece_kind_def \<Rightarrow> (string \<times> int) list" where
  "costOf d = (case pk_cost d of Some c \<Rightarrow> c | None \<Rightarrow> [])"

definition recruitCost :: "kstate \<Rightarrow> string \<Rightarrow> string \<Rightarrow> piece_kind_def \<Rightarrow> (string \<times> int) list" where
  "recruitCost s playerId unitKind d =
     (if unitKind = ''noble'' then nobleCost (countPlayerPiecesOfKind s playerId ''noble'') else costOf d)"

text \<open>\<open>inv?.get(res) ?? 0\<close>: a missing inventory counts as an empty one.\<close>

definition stock :: "kstate \<Rightarrow> string \<Rightarrow> inventory" where
  "stock s playerId = (case jget (gs_inventories s) playerId of Some bag \<Rightarrow> bag | None \<Rightarrow> [])"

definition limitReached :: "piece_kind_def \<Rightarrow> int \<Rightarrow> bool" where
  "limitReached d n = (case pk_limitPerPlayer d of Some l \<Rightarrow> n \<ge> l | None \<Rightarrow> False)"

definition recruitUnitValidator :: "kstate \<Rightarrow> kaction \<Rightarrow> exn + action_error option" where
  "recruitUnitValidator s a =
     (case guardActivePlayer s (ac_playerId a) of
        Some e \<Rightarrow> Inr (Some e)
      | None \<Rightarrow>
        (let t = kp_tileId (ac_payload a); kind = kp_unitKind (ac_payload a); me = actor a
         in if kind \<notin> set UNIT_KINDS then reject ''invalid-kind''
            else if jget (getOwnership s) t \<noteq> Some me then reject ''not-owned''
            else if \<not> isConnected t (connectedTiles s me) then reject ''disconnected''
            else if structureOnTile s t RECRUIT_STRUCTURES = None then reject ''no-structure''
            else case requirePiece kingdomsPieces kind of
                   Inl e \<Rightarrow> Inl e
                 | Inr d \<Rightarrow>
                     if limitReached d (countPlayerPiecesOfKind s me kind) then reject ''unit-limit''
                     else if firstShort (recruitCost s me kind d) (stock s me) \<noteq> None then reject ''insufficient-resources''
                     else (let unitFoodCost = (case jget UNIT_STATS kind of Some st \<Rightarrow> us_foodPerRound st | None \<Rightarrow> 0)
                           in if unitFoodCost > 0 \<and> inv_get (stock s me) ''food'' \<le> 0
                              then reject ''insufficient-food-upkeep'' else accept)))"

definition recruitUnitExecutor :: "kaction \<Rightarrow> (kstate, kevents) effect" where
  "recruitUnitExecutor a s =
     (let t = kp_tileId (ac_payload a); kind = kp_unitKind (ac_payload a); me = actor a
      in case requirePiece kingdomsPieces kind of
           Inl e \<Rightarrow> (Inl e, s)
         | Inr d \<Rightarrow>
             (case jget (gs_inventories s) me of
                None \<Rightarrow> (Inl TypeError, s)
              | Some bag \<Rightarrow>
                  (case payCost (recruitCost s me kind d) bag of
                     (Inl e, bag') \<Rightarrow> (Inl e, put_inventory me bag' s)
                   | (Inr _, bag') \<Rightarrow>
                       (case nextId (put_inventory me bag' s) of
                          (i, s1) \<Rightarrow>
                            (Inr [mkEvent ''unit-recruited'' (Some me) (UnitRecruited i kind t)],
                             place_piece (makeUnitFromRegistry kingdomsPieces i kind me t None None) s1)))))"

section \<open>Move (actions/move.ts)\<close>

text \<open>The tile a piece stands on; \<open>undefined\<close> for a piece that is not on a tile.\<close>

definition locTile :: "piece \<Rightarrow> string option" where
  "locTile p = (case pc_location p of OnTile t \<Rightarrow> Some t | _ \<Rightarrow> None)"

definition moveUnitValidator :: "kstate \<Rightarrow> kaction \<Rightarrow> exn + action_error option" where
  "moveUnitValidator s a =
     (case guardActivePlayer s (ac_playerId a) of
        Some e \<Rightarrow> Inr (Some e)
      | None \<Rightarrow>
        (let pieceId = kp_pieceId (ac_payload a); target = kp_targetTileId (ac_payload a); me = actor a
         in case jget (gs_pieces s) pieceId of
              None \<Rightarrow> reject ''not-your-piece''
            | Some p \<Rightarrow>
                if pc_owner p \<noteq> me then reject ''not-your-piece''
                else if pc_kind p \<notin> set UNIT_KINDS then reject ''not-a-unit''
                else if pieceId \<in> set (getMovedThisTurn s) then reject ''already-moved''
                else if locTile p = Some target then reject ''same-tile''
                else if jget (getOwnership s) target \<noteq> Some me then reject ''not-owned''
                else if \<not> isConnected target (connectedTiles s me) then reject ''disconnected''
                else accept))"

definition moveUnitExecutor :: "kaction \<Rightarrow> (kstate, kevents) effect" where
  "moveUnitExecutor a s =
     (let pieceId = kp_pieceId (ac_payload a); target = kp_targetTileId (ac_payload a); me = actor a
      in case jget (gs_pieces s) pieceId of
           None \<Rightarrow> (Inl TypeError, s)
         | Some p \<Rightarrow>
             (let s1 = s\<lparr>gs_pieces := jput pieceId (p\<lparr>pc_location := OnTile target\<rparr>) (gs_pieces s)\<rparr>;
                  s2 = set_extras (kx_movedThisTurn_update (\<lambda>_. Some (getMovedThisTurn s1 @ [pieceId]))) s1
              in (Inr [mkEvent ''unit-moved'' (Some me) (UnitMoved pieceId (locTile p) target)], s2)))"

section \<open>Build and demolish (actions/build.ts)\<close>

definition buildStructureValidator :: "kstate \<Rightarrow> kaction \<Rightarrow> exn + action_error option" where
  "buildStructureValidator s a =
     (case guardActivePlayer s (ac_playerId a) of
        Some e \<Rightarrow> Inr (Some e)
      | None \<Rightarrow>
        (let t = kp_tileId (ac_payload a); kind = kp_structureKind (ac_payload a); me = actor a
         in if kind \<notin> set BUILDABLE_STRUCTURES then reject ''invalid-kind''
            else if jget (getOwnership s) t \<noteq> Some me then reject ''not-owned''
            else if \<not> isConnected t (connectedTiles s me) then reject ''disconnected''
            else if structureOnTile s t STRUCTURE_KINDS \<noteq> None then reject ''tile-occupied''
            else case requirePiece kingdomsPieces kind of
                   Inl e \<Rightarrow> Inl e
                 | Inr d \<Rightarrow>
                     if limitReached d (countPlayerPiecesOfKind s me kind) then reject ''structure-limit''
                     else if firstShort (costOf d) (stock s me) \<noteq> None then reject ''insufficient-resources''
                     else accept))"

definition buildStructureExecutor :: "kaction \<Rightarrow> (kstate, kevents) effect" where
  "buildStructureExecutor a s =
     (let t = kp_tileId (ac_payload a); kind = kp_structureKind (ac_payload a); me = actor a
      in case requirePiece kingdomsPieces kind of
           Inl e \<Rightarrow> (Inl e, s)
         | Inr d \<Rightarrow>
             (case jget (gs_inventories s) me of
                None \<Rightarrow> (Inl TypeError, s)
              | Some bag \<Rightarrow>
                  (case payCost (costOf d) bag of
                     (Inl e, bag') \<Rightarrow> (Inl e, put_inventory me bag' s)
                   | (Inr _, bag') \<Rightarrow>
                       (case nextId (put_inventory me bag' s) of
                          (i, s1) \<Rightarrow>
                            (Inr [mkEvent ''structure-built'' (Some me) (StructureBuilt i kind t)],
                             place_piece (makeUnitFromRegistry kingdomsPieces i kind me t None None) s1)))))"

definition demolishStructureValidator :: "kstate \<Rightarrow> kaction \<Rightarrow> exn + action_error option" where
  "demolishStructureValidator s a =
     (case guardActivePlayer s (ac_playerId a) of
        Some e \<Rightarrow> Inr (Some e)
      | None \<Rightarrow>
        (let t = kp_tileId (ac_payload a); me = actor a
         in if jget (getOwnership s) t \<noteq> Some me then reject ''not-owned''
            else case structureOnTile s t STRUCTURE_KINDS of
                   None \<Rightarrow> reject ''no-structure''
                 | Some (i, kind, owner) \<Rightarrow>
                     if kind = ''capital-base'' then reject ''cannot-demolish''
                     else if owner \<noteq> me then reject ''not-yours''
                     else accept))"

text \<open>The refund loop: half of every entry of the cost, rounded down, when that is positive.\<close>

fun refundCost :: "(string \<times> int) list \<Rightarrow> (string \<times> int) list \<Rightarrow> (inventory, (string \<times> int) list) effect" where
  "refundCost [] refund bag = (Inr refund, bag)"
| "refundCost ((r, n) # cs) refund bag =
     (let back = n div 2
      in if back > 0
         then (case inv_add r back bag of
                 (Inl e, bag') \<Rightarrow> (Inl e, bag')
               | (Inr _, bag') \<Rightarrow> refundCost cs (jput r back refund) bag')
         else refundCost cs refund bag)"

definition demolishStructureExecutor :: "kaction \<Rightarrow> (kstate, kevents) effect" where
  "demolishStructureExecutor a s =
     (let t = kp_tileId (ac_payload a); me = actor a
      in case structureOnTile s t STRUCTURE_KINDS of
           None \<Rightarrow> (Inl TypeError, s)
         | Some (i, kind, owner) \<Rightarrow>
             (let s1 = s\<lparr>gs_pieces := jdel i (gs_pieces s)\<rparr>;
                  cost = (case getPiece kingdomsPieces kind of Some d \<Rightarrow> costOf d | None \<Rightarrow> [])
              in case jget (gs_inventories s1) me of
                   None \<Rightarrow> (if filter (\<lambda>(r, n). n div 2 > 0) cost = [] then (Inr [mkEvent ''structure-demolished'' (Some me) (StructureDemolished kind t [])], s1)
                            else (Inl TypeError, s1))
                 | Some bag \<Rightarrow>
                     (case refundCost cost [] bag of
                        (Inl e, bag') \<Rightarrow> (Inl e, put_inventory me bag' s1)
                      | (Inr refund, bag') \<Rightarrow>
                          (Inr [mkEvent ''structure-demolished'' (Some me) (StructureDemolished kind t refund)],
                           put_inventory me bag' s1))))"

section \<open>Develop (actions/develop.ts)\<close>

definition developTileValidator :: "kstate \<Rightarrow> kaction \<Rightarrow> exn + action_error option" where
  "developTileValidator s a =
     (case guardActivePlayer s (ac_playerId a) of
        Some e \<Rightarrow> Inr (Some e)
      | None \<Rightarrow>
        (let t = kp_tileId (ac_payload a); me = actor a
         in if jget (getOwnership s) t \<noteq> Some me then reject ''not-owned''
            else if \<not> isConnected t (connectedTiles s me) then reject ''disconnected''
            else if t \<in> set (getDeveloped s) then reject ''already-developed''
            else case tileById (gs_map s) t of
                   None \<Rightarrow> reject ''tile-not-found''
                 | Some tile \<Rightarrow>
                     if prop_str tile ''resourceType'' = None \<and> jget TERRAIN_DEVELOPS_INTO (tile_terrain tile) = None
                     then reject ''cannot-develop''
                     else if inv_get (stock s me) ''gold'' < DEVELOP_COST then reject ''insufficient-resources''
                     else accept))"

definition developTileExecutor :: "kaction \<Rightarrow> (kstate, kevents) effect" where
  "developTileExecutor a s =
     (let t = kp_tileId (ac_payload a); me = actor a
      in case jget (gs_inventories s) me of
           None \<Rightarrow> (Inl TypeError, s)
         | Some bag \<Rightarrow>
             (case inv_remove ''gold'' DEVELOP_COST bag of
                (Inl e, bag') \<Rightarrow> (Inl e, put_inventory me bag' s)
              | (Inr _, bag') \<Rightarrow>
                  (let s1 = put_inventory me bag' s;
                       s2 = set_extras (kx_developed_update (\<lambda>_. Some (getDeveloped s1 @ [t]))) s1
                   in case tileById (gs_map s2) t of
                        None \<Rightarrow> (Inl TypeError, s2)
                      | Some tile \<Rightarrow>
                          (Inr [mkEvent ''tile-developed'' (Some me) (TileDeveloped t DEVELOP_COST (effectiveResource tile))], s2))))"

section \<open>Attack (actions/attack.ts)\<close>

definition LOYALTY_DAMAGE_PER_ATTACK :: int where "LOYALTY_DAMAGE_PER_ATTACK = 45"

definition attackTileValidator :: "kstate \<Rightarrow> kaction \<Rightarrow> exn + action_error option" where
  "attackTileValidator s a =
     (case guardActivePlayer s (ac_playerId a) of
        Some e \<Rightarrow> Inr (Some e)
      | None \<Rightarrow>
        (let from' = kp_fromTileId (ac_payload a); to' = kp_toTileId (ac_payload a); me = actor a;
             ownership = getOwnership s
         in if jget ownership from' \<noteq> Some me then reject ''not-owned''
            else if \<not> isConnected from' (connectedTiles s me) then reject ''disconnected''
            else if jget ownership to' = Some me then reject ''own-tile''
            else if \<not> isAdjacent (gs_map s) from' to' then reject ''not-adjacent''
            else if length (unitsOnTile s from' (Some me) (Some UNIT_KINDS)) = 0 then reject ''no-units''
            else if length (getAttackedFrom s) > 0 then reject ''already-attacked''
            else
              (let eligibleKinds = (if jget ownership to' = None then UNIT_KINDS else COMBAT_UNIT_KINDS)
               in case kp_unitIds (ac_payload a) of
                    Some unitIds \<Rightarrow>
                      if length unitIds = 0 then reject ''no-units-selected''
                      else if \<not> list_all (\<lambda>i. i \<in> set (unitsOnTile s from' (Some me) (Some UNIT_KINDS))) unitIds
                      then reject ''invalid-unit''
                      else if \<not> list_all (\<lambda>i. jget (gs_pieces s) i \<noteq> None) unitIds then Inl TypeError
                      else if \<not> list_ex (\<lambda>i. case jget (gs_pieces s) i of Some p \<Rightarrow> pc_kind p \<in> set eligibleKinds | None \<Rightarrow> False) unitIds
                      then reject ''no-combat-units''
                      else accept
                  | None \<Rightarrow>
                      if length (unitsOnTile s from' (Some me) (Some eligibleKinds)) = 0 then reject ''no-combat-units''
                      else accept)))"

text \<open>
  \<open>pieceAsCombatant(piece) ?? { ..., attack: UNIT_STATS[piece.kind]?.attack ?? 1 }\<close> for the
  piece with an identifier.
\<close>

definition asCombatant :: "kstate \<Rightarrow> string \<Rightarrow> exn + combatant" where
  "asCombatant s i =
     (case jget (gs_pieces s) i of
        None \<Rightarrow> Inl TypeError
      | Some p \<Rightarrow>
          (case pieceAsCombatant p of
             Some c \<Rightarrow> Inr c
           | None \<Rightarrow> Inr \<lparr>cb_id = i, cb_kind = pc_kind p,
                        cb_attack = (case jget UNIT_STATS (pc_kind p) of Some st \<Rightarrow> of_int (us_attack st) | None \<Rightarrow> 1)\<rparr>))"

fun asCombatants :: "kstate \<Rightarrow> string list \<Rightarrow> exn + combatant list" where
  "asCombatants s [] = Inr []"
| "asCombatants s (i # is) =
     (case asCombatant s i of
        Inl e \<Rightarrow> Inl e
      | Inr c \<Rightarrow> (case asCombatants s is of Inl e \<Rightarrow> Inl e | Inr cs \<Rightarrow> Inr (c # cs)))"

definition attackerIds :: "kstate \<Rightarrow> kaction \<Rightarrow> string list" where
  "attackerIds s a =
     (case kp_unitIds (ac_payload a) of
        Some ids \<Rightarrow> if length ids > 0 then ids
                    else unitsOnTile s (kp_fromTileId (ac_payload a)) (Some (actor a)) (Some UNIT_KINDS)
      | None \<Rightarrow> unitsOnTile s (kp_fromTileId (ac_payload a)) (Some (actor a)) (Some UNIT_KINDS))"

definition defenderIds :: "kstate \<Rightarrow> kaction \<Rightarrow> string list" where
  "defenderIds s a = unitsOnTile s (kp_toTileId (ac_payload a)) None (Some UNIT_KINDS)"

definition tileBonus :: "kstate \<Rightarrow> string \<Rightarrow> real" where
  "tileBonus s t = (case tileById (gs_map s) t of Some tile \<Rightarrow> terrainDefenseBonus (tile_terrain tile) | None \<Rightarrow> 1)"

definition structureEffects :: "(string \<times> string \<times> string) option \<Rightarrow> real list" where
  "structureEffects defStructure =
     (case defStructure of
        Some (_, kind, _) \<Rightarrow> [case jget STRUCTURE_STATS kind of Some st \<Rightarrow> ss_defenseMultiplier st | None \<Rightarrow> 1]
      | None \<Rightarrow> [])"

definition survivingNoble :: "kstate \<Rightarrow> string list \<Rightarrow> combat_result \<Rightarrow> string option" where
  "survivingNoble s ids result =
     find (\<lambda>i. (case jget (gs_pieces s) i of Some p \<Rightarrow> pc_kind p = ''noble'' | None \<Rightarrow> False) \<and>
               i \<notin> set (attackerLosses result)) ids"

definition removePieces :: "string list \<Rightarrow> kstate \<Rightarrow> kstate" where
  "removePieces ids s = s\<lparr>gs_pieces := fold jdel ids (gs_pieces s)\<rparr>"

text \<open>The capture of a capital: its owner is eliminated and loses every piece and tile.\<close>

definition eliminateKingdom :: "string \<Rightarrow> string \<Rightarrow> (kstate, kevents) effect" where
  "eliminateKingdom loser me s =
     (case eliminate loser (gs_players s) of
        (Inl e, pm) \<Rightarrow> (Inl e, s\<lparr>gs_players := pm\<rparr>)
      | (Inr _, pm) \<Rightarrow>
          (let s1 = s\<lparr>gs_players := pm\<rparr>;
               eliminatedPieceIds = map fst (filter (\<lambda>(_, p). pc_owner p = loser) (gs_pieces s1));
               s2 = removePieces eliminatedPieceIds s1;
               neutralised = filter (\<lambda>(_, owner). owner \<noteq> loser) (getOwnership s2);
               s3 = set_extras (kx_ownership_update (\<lambda>_. Some neutralised)) s2
           in (Inr [mkEvent ''player-eliminated'' None (PlayerEliminated loser me)], s3)))"

text \<open>What happens to a tile whose loyalty is broken.\<close>

definition captureTile ::
  "string \<Rightarrow> string \<Rightarrow> string option \<Rightarrow> (string \<times> string \<times> string) option \<Rightarrow> (kstate, kevents) effect" where
  "captureTile to' me defenderOwner defStructure s =
     (let s1 = set_extras (kx_tileLoyalty_update (\<lambda>_. Some (jdel to' (getTileLoyalty s)))) s;
          s2 = set_extras (kx_ownership_update (\<lambda>_. Some (jput to' me (getOwnership s1)))) s1;
          captured = mkEvent ''tile-captured'' (Some me) (TileCaptured to' defenderOwner)
      in case defenderOwner of
           None \<Rightarrow> (Inr [captured], s2)
         | Some loser \<Rightarrow>
             if loser = [] then (Inr [captured], s2)
             else if jget (getCapitals s2) loser = Some to'
             then (case eliminateKingdom loser me s2 of
                     (Inl e, s3) \<Rightarrow> (Inl e, s3)
                   | (Inr es, s3) \<Rightarrow> (Inr (captured # es), s3))
             else (case defStructure of
                     None \<Rightarrow> (Inr [captured], s2)
                   | Some (i, _, _) \<Rightarrow>
                       (case jget (gs_pieces s2) i of
                          None \<Rightarrow> (Inr [captured], s2)
                        | Some p \<Rightarrow> (Inr [captured], s2\<lparr>gs_pieces := jput i (p\<lparr>pc_owner := me\<rparr>) (gs_pieces s2)\<rparr>))))"

definition erodeLoyalty ::
  "string \<Rightarrow> string \<Rightarrow> string option \<Rightarrow> (string \<times> string \<times> string) option \<Rightarrow> (kstate, kevents) effect" where
  "erodeLoyalty to' me defenderOwner defStructure s =
     (let currentLoyalty = (case jget (getTileLoyalty s) to' of Some e \<Rightarrow> tl_loyalty e | None \<Rightarrow> MAX_LOYALTY);
          nextLoyalty = currentLoyalty - LOYALTY_DAMAGE_PER_ATTACK
      in if nextLoyalty \<le> 0 then captureTile to' me defenderOwner defStructure s
         else (Inr [mkEvent ''tile-loyalty-reduced'' (Some me) (TileLoyaltyReduced to' nextLoyalty)],
               set_extras (kx_tileLoyalty_update (\<lambda>_.
                 Some (jput to' \<lparr>tl_loyalty = nextLoyalty, tl_lastAttackerId = me\<rparr> (getTileLoyalty s)))) s))"

definition markAttacked :: "string \<Rightarrow> kstate \<Rightarrow> kstate" where
  "markAttacked from' s = set_extras (kx_attackedFrom_update (\<lambda>_. Some (getAttackedFrom s @ [from']))) s"

definition attackTileExecutor :: "kaction \<Rightarrow> (kstate, kevents) effect" where
  "attackTileExecutor a s =
     (let from' = kp_fromTileId (ac_payload a); to' = kp_toTileId (ac_payload a); me = actor a;
          ids = attackerIds s a;
          defenderOwner = jget (getOwnership s) to'
      in case asCombatants s ids of
           Inl e \<Rightarrow> (Inl e, s)
         | Inr attackers \<Rightarrow>
           (case asCombatants s (defenderIds s a) of
              Inl e \<Rightarrow> (Inl e, s)
            | Inr defenders \<Rightarrow>
                (let defStructure = structureOnTile s to' STRUCTURE_KINDS
                 in case resolveAttack attackers defenders (tileBonus s to') (structureEffects defStructure)
                           (Some intInRange) (gs_rng s) of
                      (Inl e, g) \<Rightarrow> (Inl e, s\<lparr>gs_rng := g\<rparr>)
                    | (Inr result, g) \<Rightarrow>
                        (let noble = survivingNoble s ids result;
                             s1 = removePieces (defenderLosses result @ attackerLosses result) (s\<lparr>gs_rng := g\<rparr>);
                             battle = mkEvent ''battle-resolved'' (Some me) (BattleResolved
                               \<lparr>br_fromTileId = from', br_toTileId = to', br_defenderOwner = defenderOwner,
                                br_attackerWins = attackerWins result, br_attackerStrength = attackerStrength result,
                                br_defenderStrength = defenderStrength result,
                                br_attackerCasualties = length (attackerLosses result),
                                br_defenderCasualties = length (defenderLosses result)\<rparr>)
                         in case noble of
                              None \<Rightarrow> (Inr [battle], markAttacked from' s1)
                            | Some i \<Rightarrow>
                                if i = [] then (Inr [battle], markAttacked from' s1)
                                else (case erodeLoyalty to' me defenderOwner defStructure s1 of
                                        (Inl e, s2) \<Rightarrow> (Inl e, s2)
                                      | (Inr es, s2) \<Rightarrow> (Inr (battle # es), markAttacked from' s2))))))"

end
