(* ===== verification/KingdomsInvariant.thy ===== *)
theory KingdomsInvariant
  imports KingdomsActions
begin

text \<open>
  The invariant of a game of Kingdoms of Dominion and its preservation by every executor whose
  validator accepted the action. The invariant says that the roster, the inventories, the board
  and the territory agree: every piece stands on a tile its owner holds, a tile carries at most
  one structure, every tile belongs to a player still in the game, every such player holds their
  capital, contested tiles have a loyalty between 1 and 99, stocks are never negative and no city
  was ever mortgaged.
\<close>

section \<open>The parts of the invariant\<close>

definition default_stats :: "string \<Rightarrow> (string, real) jsmap option" where
  "default_stats kind = (case getDefaultStats kingdomsPieces kind of [] \<Rightarrow> None | st # sts \<Rightarrow> Some (st # sts))"

definition piece_ok :: "(string, string) jsmap \<Rightarrow> string \<Rightarrow> piece \<Rightarrow> bool" where
  "piece_ok own i p \<longleftrightarrow> pc_id p = i \<and> i \<noteq> [] \<and> (pc_kind p \<in> set UNIT_KINDS \<or> pc_kind p \<in> set STRUCTURE_KINDS) \<and>
     pc_stats p = default_stats (pc_kind p) \<and> (\<exists>t. pc_location p = OnTile t \<and> jget own t = Some (pc_owner p))"

definition board_ok :: "(string, string) jsmap \<Rightarrow> (string, piece) jsmap \<Rightarrow> bool" where
  "board_ok own pieces \<longleftrightarrow> distinct (jkeys pieces) \<and>
     (\<forall>i p. jget pieces i = Some p \<longrightarrow> piece_ok own i p) \<and>
     (\<forall>i j p q. jget pieces i = Some p \<longrightarrow> jget pieces j = Some q \<longrightarrow> pc_kind p \<in> set STRUCTURE_KINDS \<longrightarrow>
        pc_kind q \<in> set STRUCTURE_KINDS \<longrightarrow> pc_location p = pc_location q \<longrightarrow> i = j)"

definition territory_ok :: "(string, string) jsmap \<Rightarrow> (string, string) jsmap \<Rightarrow> string set \<Rightarrow> bool" where
  "territory_ok own caps actives \<longleftrightarrow> distinct (jkeys own) \<and>
     (\<forall>t w. jget own t = Some w \<longrightarrow> w \<in> actives) \<and>
     (\<forall>w \<in> actives. \<exists>t. jget caps w = Some t \<and> t \<noteq> [] \<and> jget own t = Some w)"

definition fresh_ids :: "int option \<Rightarrow> (string, piece) jsmap \<Rightarrow> bool" where
  "fresh_ids nxt pieces \<longleftrightarrow> (\<exists>n. nxt = Some n \<and> (\<forall>k > n. jget pieces (''kp-'' @ show_int k) = None))"

definition kingdoms_ok :: "kstate \<Rightarrow> bool" where
  "kingdoms_ok s \<longleftrightarrow> wf_map (gs_map s) \<and> invs_ok s \<and>
     players_ok (gs_players s) (gs_inventories s) (activePlayer (currentTurn (gs_rounds s))) \<and>
     board_ok (getOwnership s) (gs_pieces s) \<and>
     territory_ok (getOwnership s) (getCapitals s) (active_ids (pm_bySeat (gs_players s))) \<and>
     fresh_ids (kx_nextPieceId (gs_extras s)) (gs_pieces s) \<and>
     loyalty_ok (getTileLoyalty s) \<and> kx_mortgagedCities (gs_extras s) = Some []"

lemmas extras_defs = getOwnership_def getCapitals_def getTileLoyalty_def getMovedThisTurn_def getAttackedFrom_def

text \<open>What an executor owes the engine.\<close>

definition executes :: "(kstate, kevents) effect \<Rightarrow> kstate \<Rightarrow> bool" where
  "executes f s \<longleftrightarrow> (\<exists>es s'. f s = (Inr es, s') \<and> kingdoms_ok s' \<and> gs_status s' = gs_status s \<and> gs_history s' = gs_history s)"

lemma executesI:
  "f s = (Inr es, s') \<Longrightarrow> kingdoms_ok s' \<Longrightarrow> gs_status s' = gs_status s \<Longrightarrow> gs_history s' = gs_history s \<Longrightarrow> executes f s"
  by (auto simp: executes_def)

section \<open>The active player\<close>

lemma guard_active:
  assumes "kingdoms_ok s" "guardActivePlayer s (ac_playerId a) = None"
  shows "actor a \<in> active_ids (pm_bySeat (gs_players s))" "\<exists>bag. jget (gs_inventories s) (actor a) = Some bag \<and> inv_ok bag"
    "actor a \<noteq> []" "activePlayer (currentTurn (gs_rounds s)) = actor a"
proof -
  have pl: "players_ok (gs_players s) (gs_inventories s) (activePlayer (currentTurn (gs_rounds s)))" "invs_ok s"
    using assms(1) by (auto simp: kingdoms_ok_def)
  from assms(2) obtain p where p: "ac_playerId a = Some p" "p \<noteq> []" "activePlayer (currentTurn (gs_rounds s)) = p"
    "\<not> isEliminated (gs_players s) p" by (auto simp: guard_None)
  then show "actor a \<noteq> []" "activePlayer (currentTurn (gs_rounds s)) = actor a" by (auto simp: actor_def)
  from pl(1) p(3) obtain q where q: "q \<in> set (pm_bySeat (gs_players s))" "pl_id q = p" "jget (gs_inventories s) p \<noteq> None"
    by (auto simp: players_ok_def)
  with p(4) pl(1) have "is_active q" by (auto simp: players_ok_def isEliminated_iff)
  with q p(1) show "actor a \<in> active_ids (pm_bySeat (gs_players s))" by (auto simp: actor_def active_ids_def)
  from q(3) p(1) pl(2) show "\<exists>bag. jget (gs_inventories s) (actor a) = Some bag \<and> inv_ok bag"
    by (auto simp: actor_def invs_okD)
qed

section \<open>Placing, removing and paying\<close>

lemma board_okD:
  assumes "board_ok own pieces" "jget pieces i = Some p"
  shows "piece_ok own i p"
  using assms by (auto simp: board_ok_def)

lemma board_ok_unique:
  assumes "board_ok own pieces" "jget pieces i = Some p" "jget pieces j = Some q"
    "pc_kind p \<in> set STRUCTURE_KINDS" "pc_kind q \<in> set STRUCTURE_KINDS" "pc_location p = pc_location q"
  shows "i = j"
  using assms unfolding board_ok_def by blast

lemma board_ok_put:
  assumes b: "board_ok own pieces" and p: "piece_ok own i p"
    and one: "pc_kind p \<in> set STRUCTURE_KINDS \<Longrightarrow>
      \<forall>j q. jget pieces j = Some q \<longrightarrow> j \<noteq> i \<longrightarrow> pc_kind q \<in> set STRUCTURE_KINDS \<longrightarrow> pc_location q \<noteq> pc_location p"
  shows "board_ok own (jput i p pieces)"
proof -
  have "distinct (jkeys (jput i p pieces))" using b by (simp add: board_ok_def)
  moreover have "piece_ok own k q" if "jget (jput i p pieces) k = Some q" for k q
    using that b p by (auto simp: board_ok_def split: if_splits)
  moreover have "k = j" if "jget (jput i p pieces) k = Some q" "jget (jput i p pieces) j = Some q'"
      "pc_kind q \<in> set STRUCTURE_KINDS" "pc_kind q' \<in> set STRUCTURE_KINDS" "pc_location q = pc_location q'" for k j q q'
  proof (cases "k = i"; cases "j = i")
    assume "k \<noteq> i" "j \<noteq> i"
    then show ?thesis using that board_ok_unique [OF b, of k q j q'] by simp
  next
    assume "k = i" "j \<noteq> i"
    then show ?thesis using that one by auto
  next
    assume "k \<noteq> i" "j = i"
    then show ?thesis using that one by auto
  qed simp
  ultimately show ?thesis unfolding board_ok_def by blast
qed

lemma board_ok_subset:
  assumes "board_ok own pieces" "distinct (jkeys pieces')" "\<And>i p. jget pieces' i = Some p \<Longrightarrow> jget pieces i = Some p"
  shows "board_ok own pieces'"
  unfolding board_ok_def
proof (intro conjI allI impI)
  show "distinct (jkeys pieces')" by (rule assms(2))
  show "piece_ok own i p" if "jget pieces' i = Some p" for i p
    using assms(1,3) that by (blast dest: board_okD)
  show "i = j" if "jget pieces' i = Some p" "jget pieces' j = Some q" "pc_kind p \<in> set STRUCTURE_KINDS"
      "pc_kind q \<in> set STRUCTURE_KINDS" "pc_location p = pc_location q" for i j p q
    using board_ok_unique [OF assms(1) assms(3) [OF that(1)] assms(3) [OF that(2)] that(3-5)] .
qed

lemma fresh_ids_subset:
  "fresh_ids n pieces \<Longrightarrow> (\<And>i. jget pieces i = None \<Longrightarrow> jget pieces' i = None) \<Longrightarrow> fresh_ids n pieces'"
  by (auto simp: fresh_ids_def)

lemma jget_fold_jdel: "jget (fold jdel ids m) i = (if i \<in> set ids then None else jget m i)"
  by (induction ids arbitrary: m) auto

lemma distinct_fold_jdel: "distinct (jkeys m) \<Longrightarrow> distinct (jkeys (fold jdel ids m))"
  by (induction ids arbitrary: m) auto

text \<open>Two states that agree on what the invariant reads.\<close>

lemma kingdoms_ok_put_inventory:
  assumes "kingdoms_ok s" "inv_ok bag"
  shows "kingdoms_ok (put_inventory me bag s)"
proof -
  have "players_ok (gs_players s) (jput me bag (gs_inventories s)) (activePlayer (currentTurn (gs_rounds s)))"
    using assms(1) by (auto simp: kingdoms_ok_def players_ok_def)
  moreover have "invs_ok (put_inventory me bag s)" using assms by (auto simp: kingdoms_ok_def intro: invs_ok_put)
  ultimately show ?thesis using assms(1) by (auto simp: kingdoms_ok_def put_inventory_def extras_defs)
qed

lemma makeUnitFromRegistry_ok:
  assumes "kind \<in> set UNIT_KINDS \<or> kind \<in> set STRUCTURE_KINDS" "i \<noteq> []" "jget own t = Some me"
  shows "piece_ok own i (makeUnitFromRegistry kingdomsPieces i kind me t None st)"
  using assms by (simp add: piece_ok_def default_stats_def makeUnitFromRegistry_stats)

lemma place_new:
  assumes ok': "kingdoms_ok s" and kind: "kind \<in> set UNIT_KINDS \<or> kind \<in> set STRUCTURE_KINDS"
    and own: "jget (getOwnership s) t = Some me"
    and free: "kind \<in> set STRUCTURE_KINDS \<Longrightarrow> structureOnTile s t STRUCTURE_KINDS = None"
    and n: "nextId s = (i, s1)"
  shows "kingdoms_ok (place_piece (makeUnitFromRegistry kingdomsPieces i kind me t None None) s1)"
proof -
  let ?p = "makeUnitFromRegistry kingdomsPieces i kind me t None None"
  have parts: "wf_map (gs_map s)" "invs_ok s" "players_ok (gs_players s) (gs_inventories s) (activePlayer (currentTurn (gs_rounds s)))"
    "territory_ok (getOwnership s) (getCapitals s) (active_ids (pm_bySeat (gs_players s)))" "loyalty_ok (getTileLoyalty s)"
    "kx_mortgagedCities (gs_extras s) = Some []" and b: "board_ok (getOwnership s) (gs_pieces s)"
    using ok' by (auto simp: kingdoms_ok_def)
  obtain m where m: "kx_nextPieceId (gs_extras s) = Some m" "\<forall>k > m. jget (gs_pieces s) (''kp-'' @ show_int k) = None"
    using ok' by (auto simp: kingdoms_ok_def fresh_ids_def)
  have i: "i = ''kp-'' @ show_int (m + 1)" and s1: "s1 = set_extras (kx_nextPieceId_update (\<lambda>_. Some (m + 1))) s"
    using n m(1) by (auto simp: nextId_def Let_def)
  have "board_ok (getOwnership s) (jput i ?p (gs_pieces s))"
  proof (rule board_ok_put [OF b])
    show "piece_ok (getOwnership s) i ?p" using kind own i by (intro makeUnitFromRegistry_ok) auto
    assume "pc_kind ?p \<in> set STRUCTURE_KINDS"
    then have none: "structureOnTile s t STRUCTURE_KINDS = None" using free by simp
    show "\<forall>j q. jget (gs_pieces s) j = Some q \<longrightarrow> j \<noteq> i \<longrightarrow> pc_kind q \<in> set STRUCTURE_KINDS \<longrightarrow> pc_location q \<noteq> pc_location ?p"
      using none by (auto simp: structureOnTile_None dest!: jget_in_set)
  qed
  moreover have "fresh_ids (Some (m + 1)) (jput i ?p (gs_pieces s))"
    using m(2) by (auto simp: fresh_ids_def i)
  moreover have "invs_ok (place_piece ?p s1)" using parts(2) by (simp add: invs_ok_def place_piece_def s1)
  ultimately show ?thesis
    using parts unfolding kingdoms_ok_def by (simp add: place_piece_def s1 extras_defs)
qed

lemma nextId_frame:
  "nextId s = (i, s1) \<Longrightarrow> gs_status s1 = gs_status s \<and> gs_history s1 = gs_history s"
  by (auto simp: nextId_def Let_def)

lemma put_inventory_frame [simp]:
  "gs_status (put_inventory p bag s) = gs_status s" "gs_history (put_inventory p bag s) = gs_history s"
  "gs_pieces (put_inventory p bag s) = gs_pieces s" "gs_extras (put_inventory p bag s) = gs_extras s"
  "gs_map (put_inventory p bag s) = gs_map s"
  by (simp_all add: put_inventory_def)

lemma place_piece_frame [simp]:
  "gs_status (place_piece p s) = gs_status s" "gs_history (place_piece p s) = gs_history s"
  by (simp_all add: place_piece_def)

lemma structureOnTile_put_inventory [simp]: "structureOnTile (put_inventory p bag s) t ks = structureOnTile s t ks"
  by (simp add: structureOnTile_def)

lemma getOwnership_put_inventory [simp]: "getOwnership (put_inventory p bag s) = getOwnership s"
  by (simp add: getOwnership_def)

text \<open>Paying a cost the validator checked and placing the piece that was paid for.\<close>

lemma pay_and_place:
  assumes ok': "kingdoms_ok s" and bag: "jget (gs_inventories s) me = Some bag" and wf: "cost_wf cost"
    and afford: "firstShort cost bag = None"
    and kind: "kind \<in> set UNIT_KINDS \<or> kind \<in> set STRUCTURE_KINDS" and own: "jget (getOwnership s) t = Some me"
    and free: "kind \<in> set STRUCTURE_KINDS \<Longrightarrow> structureOnTile s t STRUCTURE_KINDS = None"
  shows "\<exists>bag' i s1. payCost cost bag = (Inr (), bag') \<and> inv_ok bag' \<and> nextId (put_inventory me bag' s) = (i, s1) \<and>
     kingdoms_ok (place_piece (makeUnitFromRegistry kingdomsPieces i kind me t None None) s1) \<and>
     gs_status s1 = gs_status s \<and> gs_history s1 = gs_history s"
proof -
  have "inv_ok bag" using ok' bag by (auto simp: kingdoms_ok_def invs_okD)
  obtain bag' where pay: "payCost cost bag = (Inr (), bag')" using payCost_ok [OF wf afford] by blast
  have inv: "inv_ok bag'" using payCost_inv_ok [OF \<open>inv_ok bag\<close>, of cost] pay by simp
  obtain i s1 where n: "nextId (put_inventory me bag' s) = (i, s1)" by fastforce
  have "kingdoms_ok (place_piece (makeUnitFromRegistry kingdomsPieces i kind me t None None) s1)"
    using own free by (intro place_new [OF kingdoms_ok_put_inventory [OF ok' inv] kind _ _ n]) simp_all
  with pay inv n nextId_frame [OF n] show ?thesis by auto
qed

lemma costOf_wf: "getPiece kingdomsPieces kind = Some d \<Longrightarrow> cost_wf (costOf d)"
  using piece_cost_wf [of kind d] by (auto simp: costOf_def cost_wf_def split: option.splits)

lemma nobleCost_wf: "cost_wf (nobleCost n)"
proof -
  have "0 \<le> 8 * (17 / 10 :: real) ^ nat (max 0 (n - 1))" by simp
  then have "0 \<le> \<lceil>8 * (17 / 10 :: real) ^ nat (max 0 (n - 1))\<rceil>" by linarith
  then show ?thesis by (simp add: nobleCost_def cost_wf_def)
qed

section \<open>Recruit, build, demolish, develop and move\<close>

lemma recruit_executes:
  assumes ok': "kingdoms_ok s" and acc: "recruitUnitValidator s a = accept"
  shows "executes (recruitUnitExecutor a) s"
proof -
  let ?t = "kp_tileId (ac_payload a)" and ?kind = "kp_unitKind (ac_payload a)" and ?me = "actor a"
  have g: "guardActivePlayer s (ac_playerId a) = None"
    using acc by (simp add: recruitUnitValidator_def split: option.splits)
  obtain bag where bag: "jget (gs_inventories s) ?me = Some bag" using guard_active(2) [OF ok' g] by blast
  have kind: "?kind \<in> set UNIT_KINDS" and own: "jget (getOwnership s) ?t = Some ?me"
    using acc g by (auto simp: recruitUnitValidator_def Let_def split: if_splits)
  obtain d where d: "requirePiece kingdomsPieces ?kind = Inr d" "getPiece kingdomsPieces ?kind = Some d"
    using requirePiece_known kind by blast
  have afford: "firstShort (recruitCost s ?me ?kind d) bag = None"
    using acc g d bag by (auto simp: recruitUnitValidator_def Let_def stock_def simp del: not_None_eq split: if_splits)
  have wf: "cost_wf (recruitCost s ?me ?kind d)"
    using costOf_wf [OF d(2)] nobleCost_wf by (simp add: recruitCost_def)
  obtain bag' i s1 where r: "payCost (recruitCost s ?me ?kind d) bag = (Inr (), bag')"
     "nextId (put_inventory ?me bag' s) = (i, s1)"
     "kingdoms_ok (place_piece (makeUnitFromRegistry kingdomsPieces i ?kind ?me ?t None None) s1)"
     "gs_status s1 = gs_status s" "gs_history s1 = gs_history s"
    using pay_and_place [OF ok' bag wf afford _ own, of ?kind] kind kinds_disjoint by blast
  have "recruitUnitExecutor a s = (Inr [mkEvent ''unit-recruited'' (Some ?me) (UnitRecruited i ?kind ?t)],
      place_piece (makeUnitFromRegistry kingdomsPieces i ?kind ?me ?t None None) s1)"
    using d bag r by (simp add: recruitUnitExecutor_def Let_def)
  then show ?thesis using r by (simp add: executes_def)
qed

lemma build_executes:
  assumes ok': "kingdoms_ok s" and acc: "buildStructureValidator s a = accept"
  shows "executes (buildStructureExecutor a) s"
proof -
  let ?t = "kp_tileId (ac_payload a)" and ?kind = "kp_structureKind (ac_payload a)" and ?me = "actor a"
  have g: "guardActivePlayer s (ac_playerId a) = None"
    using acc by (simp add: buildStructureValidator_def split: option.splits)
  obtain bag where bag: "jget (gs_inventories s) ?me = Some bag" using guard_active(2) [OF ok' g] by blast
  have "?kind \<in> set BUILDABLE_STRUCTURES" and own: "jget (getOwnership s) ?t = Some ?me"
    and free: "structureOnTile s ?t STRUCTURE_KINDS = None"
    using acc g by (auto simp: buildStructureValidator_def Let_def simp del: not_None_eq split: if_splits)
  then have kind: "?kind \<in> set STRUCTURE_KINDS" by (auto simp: BUILDABLE_STRUCTURES_eq STRUCTURE_KINDS_eq)
  obtain d where d: "requirePiece kingdomsPieces ?kind = Inr d" "getPiece kingdomsPieces ?kind = Some d"
    using requirePiece_known kind by blast
  have afford: "firstShort (costOf d) bag = None"
    using acc g d bag by (auto simp: buildStructureValidator_def Let_def stock_def simp del: not_None_eq split: if_splits)
  obtain bag' i s1 where r: "payCost (costOf d) bag = (Inr (), bag')"
     "nextId (put_inventory ?me bag' s) = (i, s1)"
     "kingdoms_ok (place_piece (makeUnitFromRegistry kingdomsPieces i ?kind ?me ?t None None) s1)"
     "gs_status s1 = gs_status s" "gs_history s1 = gs_history s"
    using pay_and_place [OF ok' bag costOf_wf [OF d(2)] afford _ own, of ?kind] kind free by blast
  have "buildStructureExecutor a s = (Inr [mkEvent ''structure-built'' (Some ?me) (StructureBuilt i ?kind ?t)],
      place_piece (makeUnitFromRegistry kingdomsPieces i ?kind ?me ?t None None) s1)"
    using d bag r by (simp add: buildStructureExecutor_def Let_def)
  then show ?thesis using r by (simp add: executes_def)
qed

lemma kingdoms_ok_pieces:
  assumes "kingdoms_ok s" "board_ok (getOwnership s) pieces" "fresh_ids (kx_nextPieceId (gs_extras s)) pieces"
  shows "kingdoms_ok (s\<lparr>gs_pieces := pieces\<rparr>)"
  using assms by (auto simp: kingdoms_ok_def extras_defs invs_ok_def)

lemma kingdoms_ok_remove:
  assumes "kingdoms_ok s"
  shows "kingdoms_ok (removePieces ids s)"
  unfolding removePieces_def
proof (rule kingdoms_ok_pieces [OF assms])
  have b: "board_ok (getOwnership s) (gs_pieces s)" and f: "fresh_ids (kx_nextPieceId (gs_extras s)) (gs_pieces s)"
    using assms by (simp_all add: kingdoms_ok_def)
  show "board_ok (getOwnership s) (fold jdel ids (gs_pieces s))"
  proof (rule board_ok_subset [OF b])
    show "distinct (jkeys (fold jdel ids (gs_pieces s)))"
      using b by (intro distinct_fold_jdel) (simp add: board_ok_def)
  qed (simp add: jget_fold_jdel split: if_splits)
  show "fresh_ids (kx_nextPieceId (gs_extras s)) (fold jdel ids (gs_pieces s))"
    by (rule fresh_ids_subset [OF f]) (simp add: jget_fold_jdel)
qed

lemma refundCost_ok:
  "inv_ok bag \<Longrightarrow> \<exists>refund' bag'. refundCost cost refund bag = (Inr refund', bag') \<and> inv_ok bag'"
proof (induction cost arbitrary: refund bag)
  case (Cons c cost)
  obtain r n where c: "c = (r, n)" by (cases c)
  show ?case
  proof (cases "0 < n div 2")
    case True
    then have "inv_add r (n div 2) bag = (Inr (), jput r (inv_get bag r + n div 2) bag)" by (simp add: inv_add_ok)
    moreover have "inv_ok (jput r (inv_get bag r + n div 2) bag)"
      using Cons.prems True inv_okD [OF Cons.prems, of r] by (intro inv_jput_ok) auto
    ultimately show ?thesis using Cons.IH True c by (simp add: Let_def)
  next
    case False
    with Cons c show ?thesis by (simp add: Let_def)
  qed
qed simp

lemma demolish_executes:
  assumes ok': "kingdoms_ok s" and acc: "demolishStructureValidator s a = accept"
  shows "executes (demolishStructureExecutor a) s"
proof -
  let ?t = "kp_tileId (ac_payload a)" and ?me = "actor a"
  have g: "guardActivePlayer s (ac_playerId a) = None"
    using acc by (simp add: demolishStructureValidator_def split: option.splits)
  obtain bag where bag: "jget (gs_inventories s) ?me = Some bag" "inv_ok bag" using guard_active(2) [OF ok' g] by blast
  obtain i kind owner where st: "structureOnTile s ?t STRUCTURE_KINDS = Some (i, kind, owner)"
    using acc g by (auto simp: demolishStructureValidator_def Let_def split: if_splits option.splits)
  define cost where "cost = (case getPiece kingdomsPieces kind of Some d \<Rightarrow> costOf d | None \<Rightarrow> [])"
  obtain refund bag' where r: "refundCost cost [] bag = (Inr refund, bag')" "inv_ok bag'"
    using refundCost_ok [OF bag(2)] by blast
  let ?s1 = "removePieces [i] s"
  have "demolishStructureExecutor a s =
     (Inr [mkEvent ''structure-demolished'' (Some ?me) (StructureDemolished kind ?t refund)], put_inventory ?me bag' ?s1)"
    using st bag r by (simp add: demolishStructureExecutor_def Let_def removePieces_def flip: cost_def)
  moreover have "kingdoms_ok (put_inventory ?me bag' ?s1)"
    by (rule kingdoms_ok_put_inventory [OF kingdoms_ok_remove [OF ok'] r(2)])
  ultimately show ?thesis by (rule executesI) (simp_all add: removePieces_def)
qed

lemma kingdoms_ok_extras:
  assumes "kingdoms_ok s" "kx_ownership (f (gs_extras s)) = kx_ownership (gs_extras s)"
    "kx_capitals (f (gs_extras s)) = kx_capitals (gs_extras s)" "kx_nextPieceId (f (gs_extras s)) = kx_nextPieceId (gs_extras s)"
    "kx_tileLoyalty (f (gs_extras s)) = kx_tileLoyalty (gs_extras s)"
    "kx_mortgagedCities (f (gs_extras s)) = kx_mortgagedCities (gs_extras s)"
  shows "kingdoms_ok (set_extras f s)"
  using assms by (simp add: kingdoms_ok_def extras_defs invs_ok_def)

lemma develop_executes:
  assumes ok': "kingdoms_ok s" and acc: "developTileValidator s a = accept"
  shows "executes (developTileExecutor a) s"
proof -
  let ?t = "kp_tileId (ac_payload a)" and ?me = "actor a"
  have g: "guardActivePlayer s (ac_playerId a) = None"
    using acc by (simp add: developTileValidator_def split: option.splits)
  obtain bag where bag: "jget (gs_inventories s) ?me = Some bag" "inv_ok bag" using guard_active(2) [OF ok' g] by blast
  obtain tile where tile: "tileById (gs_map s) ?t = Some tile" and gold: "DEVELOP_COST \<le> inv_get bag ''gold''"
    using acc g bag by (auto simp: developTileValidator_def Let_def stock_def split: if_splits option.splits)
  let ?bag = "jput ''gold'' (inv_get bag ''gold'' - DEVELOP_COST) bag"
  let ?s1 = "put_inventory ?me ?bag s"
  let ?s2 = "set_extras (kx_developed_update (\<lambda>_. Some (getDeveloped ?s1 @ [?t]))) ?s1"
  have "inv_remove ''gold'' DEVELOP_COST bag = (Inr (), ?bag)" using gold by (intro inv_remove_ok) (simp_all add: DEVELOP_COST_def)
  then have "developTileExecutor a s = (Inr [mkEvent ''tile-developed'' (Some ?me) (TileDeveloped ?t DEVELOP_COST (effectiveResource tile))], ?s2)"
    using bag tile by (simp add: developTileExecutor_def Let_def)
  moreover have "inv_ok ?bag" using bag(2) gold by (intro inv_jput_ok) auto
  then have "kingdoms_ok ?s2" by (intro kingdoms_ok_extras kingdoms_ok_put_inventory [OF ok']) simp_all
  ultimately show ?thesis by (rule executesI) simp_all
qed

lemma move_executes:
  assumes ok': "kingdoms_ok s" and acc: "moveUnitValidator s a = accept"
  shows "executes (moveUnitExecutor a) s"
proof -
  let ?i = "kp_pieceId (ac_payload a)" and ?target = "kp_targetTileId (ac_payload a)" and ?me = "actor a"
  have g: "guardActivePlayer s (ac_playerId a) = None"
    using acc by (simp add: moveUnitValidator_def split: option.splits)
  obtain p where p: "jget (gs_pieces s) ?i = Some p"
    using acc g by (cases "jget (gs_pieces s) ?i") (simp_all add: moveUnitValidator_def Let_def)
  then have p': "pc_owner p = ?me" "pc_kind p \<in> set UNIT_KINDS" and own: "jget (getOwnership s) ?target = Some ?me"
    using acc g by (simp_all add: moveUnitValidator_def Let_def split: if_splits)
  let ?p = "p\<lparr>pc_location := OnTile ?target\<rparr>"
  let ?s1 = "s\<lparr>gs_pieces := jput ?i ?p (gs_pieces s)\<rparr>"
  have b: "board_ok (getOwnership s) (gs_pieces s)" and f: "fresh_ids (kx_nextPieceId (gs_extras s)) (gs_pieces s)"
    using ok' by (simp_all add: kingdoms_ok_def)
  have "piece_ok (getOwnership s) ?i ?p" using board_okD [OF b p] p' own by (simp add: piece_ok_def)
  then have "board_ok (getOwnership s) (jput ?i ?p (gs_pieces s))"
    using p'(2) kinds_disjoint by (intro board_ok_put [OF b]) auto
  moreover have "fresh_ids (kx_nextPieceId (gs_extras s)) (jput ?i ?p (gs_pieces s))"
    by (rule fresh_ids_subset [OF f]) (use p in auto)
  ultimately have "kingdoms_ok ?s1" by (rule kingdoms_ok_pieces [OF ok'])
  then have "kingdoms_ok (set_extras (kx_movedThisTurn_update (\<lambda>_. Some (getMovedThisTurn ?s1 @ [?i]))) ?s1)"
    by (intro kingdoms_ok_extras) simp_all
  moreover have "moveUnitExecutor a s = (Inr [mkEvent ''unit-moved'' (Some ?me) (UnitMoved ?i (locTile p) ?target)],
      set_extras (kx_movedThisTurn_update (\<lambda>_. Some (getMovedThisTurn ?s1 @ [?i]))) ?s1)"
    using p by (simp add: moveUnitExecutor_def Let_def)
  ultimately show ?thesis by (simp add: executes_def)
qed

end
