(* ===== verification/KingdomsContract.thy ===== *)
theory KingdomsContract
  imports KingdomsInvariant
begin

text \<open>
  The two remaining actions keep the invariant: the end of a turn, with the economy of the round,
  and the attack, with its captures and eliminations.
\<close>

section \<open>End of turn\<close>

lemma kingdoms_ok_rounds:
  assumes "kingdoms_ok s" "activePlayer (currentTurn rm) \<in> pl_id ` set (pm_bySeat (gs_players s))"
  shows "kingdoms_ok (s\<lparr>gs_rounds := rm\<rparr>)"
  using assms by (simp add: kingdoms_ok_def players_ok_def extras_defs invs_ok_def)

lemma kingdoms_ok_inventories:
  assumes "kingdoms_ok s" "invs_ok (s\<lparr>gs_inventories := invs\<rparr>)" "\<forall>q. (jget invs q = None) = (jget (gs_inventories s) q = None)"
  shows "kingdoms_ok (s\<lparr>gs_inventories := invs\<rparr>)"
  using assms by (simp add: kingdoms_ok_def players_ok_def extras_defs)

lemma kingdoms_ok_loyalty:
  assumes "kingdoms_ok s" "loyalty_ok m"
  shows "kingdoms_ok (set_extras (kx_tileLoyalty_update (\<lambda>_. Some m)) s)"
  using assms by (simp add: kingdoms_ok_def extras_defs invs_ok_def)

lemma endTurn_executes:
  assumes ok': "kingdoms_ok s" and acc: "endTurnValidator s a = accept"
  shows "executes (endTurnExecutor a) s"
proof -
  have g: "guardActivePlayer s (ac_playerId a) = None" using acc by (simp add: endTurnValidator_def)
  define s1 where "s1 = set_extras (kx_movedThisTurn_update (\<lambda>_. Some []) \<circ> kx_attackedFrom_update (\<lambda>_. Some [])) s"
  have s1: "kingdoms_ok s1" unfolding s1_def by (rule kingdoms_ok_extras [OF ok']) simp_all
  have same: "gs_players s1 = gs_players s" "gs_status s1 = gs_status s" "gs_history s1 = gs_history s" by (simp_all add: s1_def)
  have "active_ids (pm_all (gs_players s1)) \<noteq> {}" using guard_active(1) [OF ok' g] by (auto simp: same pm_all_def)
  then obtain te rm where te: "rm_endTurn turn_next (pm_all (gs_players s1)) ''command'' (gs_rounds s1) = (Inr te, rm)"
     "newActivePlayer te \<in> active_ids (pm_all (gs_players s1))" "activePlayer (currentTurn rm) = newActivePlayer te"
    using scenario_order.endTurn_active [of "pm_all (gs_players s1)" "''command''" "gs_rounds s1"] by blast
  have s2: "kingdoms_ok (s1\<lparr>gs_rounds := rm\<rparr>)"
    using te(2,3) by (intro kingdoms_ok_rounds [OF s1]) (auto simp: active_ids_def pm_all_def)
  show ?thesis
  proof (cases "newRound te")
    case False
    then show ?thesis unfolding executes_def endTurnExecutor_def Let_def s1_def [symmetric] using te(1) s2 same by simp
  next
    case True
    have "invs_ok (s1\<lparr>gs_rounds := rm\<rparr>)" using s2 by (simp add: kingdoms_ok_def)
    from processRoundEnd_frame [OF this] obtain es invs where
      pr: "processRoundEnd (s1\<lparr>gs_rounds := rm\<rparr>) = (Inr es, s1\<lparr>gs_rounds := rm, gs_inventories := invs\<rparr>)"
      "invs_ok (s1\<lparr>gs_rounds := rm, gs_inventories := invs\<rparr>)"
      "\<forall>q. (jget invs q = None) = (jget (gs_inventories s1) q = None)" by auto
    define s3 where "s3 = s1\<lparr>gs_rounds := rm, gs_inventories := invs\<rparr>"
    have s3: "kingdoms_ok s3" unfolding s3_def using pr(2,3) by (intro kingdoms_ok_inventories [OF s2]) simp_all
    then have "loyalty_ok (recoverLoyalty (getTileLoyalty s3))" by (intro loyalty_ok_recover) (simp add: kingdoms_ok_def)
    from kingdoms_ok_loyalty [OF s3 this] show ?thesis
      unfolding executes_def endTurnExecutor_def Let_def s1_def [symmetric] using True te(1) pr(1) same by (simp add: s3_def)
  qed
qed

section \<open>The forces of a battle\<close>

lemma asCombatant_ok:
  assumes b: "board_ok own (gs_pieces s)" and p: "jget (gs_pieces s) i = Some p" "pc_kind p \<in> set UNIT_KINDS"
  shows "\<exists>c. asCombatant s i = Inr c \<and> cb_id c = i \<and> 0 \<le> cb_attack c"
proof -
  obtain st :: unit_stats where st: "0 < us_attack st"
     "jget (getDefaultStats kingdomsPieces (pc_kind p)) ''attack'' = Some (real_of_int (us_attack st))"
    using unit_stats_attack [OF p(2)] by blast
  have "piece_ok own i p" using board_okD [OF b p(1)] .
  then have "pc_stats p = Some (getDefaultStats kingdomsPieces (pc_kind p))" "pc_id p = i"
    using st by (auto simp: piece_ok_def default_stats_def split: list.splits)
  with st p show ?thesis by (simp add: asCombatant_def pieceAsCombatant_def)
qed

lemma asCombatants_ok:
  assumes b: "board_ok own (gs_pieces s)"
  shows "\<forall>i \<in> set ids. \<exists>p. jget (gs_pieces s) i = Some p \<and> pc_kind p \<in> set UNIT_KINDS \<Longrightarrow>
    \<exists>cs. asCombatants s ids = Inr cs \<and> map cb_id cs = ids \<and> fighters_ok cs"
proof (induction ids)
  case (Cons i ids)
  then obtain cs where cs: "asCombatants s ids = Inr cs" "map cb_id cs = ids" "fighters_ok cs" by auto
  obtain c where "asCombatant s i = Inr c" "cb_id c = i" "0 \<le> cb_attack c"
    using asCombatant_ok [OF b] Cons.prems by auto
  with cs show ?case by (simp add: fighters_ok_def)
qed (simp add: fighters_ok_def)

lemma tileBonus_nonneg: "0 \<le> tileBonus s t"
  using terrain_defense_ge_1 by (auto simp: tileBonus_def split: option.splits intro: order_trans [OF zero_le_one])

lemma structureEffects_nonneg: "m \<in> set (structureEffects st) \<Longrightarrow> 0 \<le> m"
  using structure_defense_ge_1 by (force simp: structureEffects_def split: option.splits prod.splits)

section \<open>Capture and elimination\<close>

lemma board_ok_own:
  assumes b: "board_ok own pieces" and same: "\<And>i p t. jget pieces i = Some p \<Longrightarrow> pc_location p = OnTile t \<Longrightarrow>
      jget own t = Some (pc_owner p) \<Longrightarrow> jget own' t = Some (pc_owner p)"
  shows "board_ok own' pieces"
proof -
  have "piece_ok own' i p" if "jget pieces i = Some p" for i p
    using board_okD [OF b that] same [OF that] by (auto simp: piece_ok_def)
  then show ?thesis using b unfolding board_ok_def by blast
qed

lemma board_ok_empty_tile:
  assumes "board_ok own pieces" "\<And>i p. jget pieces i = Some p \<Longrightarrow> pc_location p \<noteq> OnTile t"
  shows "board_ok (jput t me own) pieces"
  by (rule board_ok_own [OF assms(1)]) (use assms(2) in auto)

lemma board_ok_take_structure:
  assumes b: "board_ok own pieces" and p: "jget pieces i = Some p" "pc_kind p \<in> set STRUCTURE_KINDS" "pc_location p = OnTile t"
    and units: "\<And>j q. jget pieces j = Some q \<Longrightarrow> pc_location q = OnTile t \<Longrightarrow> pc_kind q \<notin> set UNIT_KINDS"
  shows "board_ok (jput t me own) (jput i (p\<lparr>pc_owner := me\<rparr>) pieces)"
proof -
  have d: "distinct (jkeys pieces)" using b by (simp add: board_ok_def)
  have only: "j = i" if "jget pieces j = Some q" "pc_location q = OnTile t" for j q
    using board_ok_unique [OF b p(1) that(1)] units [OF that] board_okD [OF b that(1)] p that by (auto simp: piece_ok_def)
  have b': "board_ok own (jdel i pieces)"
    by (rule board_ok_subset [OF b]) (use d in \<open>auto split: if_splits\<close>)
  have 1: "board_ok (jput t me own) (jdel i pieces)"
    by (rule board_ok_empty_tile [OF b']) (use only in \<open>auto split: if_splits\<close>)
  have "board_ok (jput t me own) (jput i (p\<lparr>pc_owner := me\<rparr>) (jdel i pieces))"
  proof (rule board_ok_put [OF 1])
    show "piece_ok (jput t me own) i (p\<lparr>pc_owner := me\<rparr>)"
      using board_okD [OF b p(1)] p(3) by (simp add: piece_ok_def)
    show "\<forall>j q. jget (jdel i pieces) j = Some q \<longrightarrow> j \<noteq> i \<longrightarrow> pc_kind q \<in> set STRUCTURE_KINDS \<longrightarrow>
        pc_location q \<noteq> pc_location (p\<lparr>pc_owner := me\<rparr>)"
      using only p(3) by auto
  qed
  then show ?thesis by (rule board_ok_subset) (use d in \<open>auto split: if_splits\<close>)
qed

lemma jget_filter_owner:
  "distinct (jkeys m) \<Longrightarrow> jget (filter (\<lambda>(_, w). w \<noteq> loser) m) t = (case jget m t of None \<Rightarrow> None | Some w \<Rightarrow> if w \<noteq> loser then Some w else None)"
  using filter_map_of [of m "\<lambda>_ w. w \<noteq> loser" t] by simp

lemma territory_okD:
  assumes "territory_ok own caps actives"
  shows "distinct (jkeys own)" "jget own t = Some w \<Longrightarrow> w \<in> actives"
    "w \<in> actives \<Longrightarrow> \<exists>t. jget caps w = Some t \<and> t \<noteq> [] \<and> jget own t = Some w"
  using assms unfolding territory_ok_def by blast+

lemma territory_okI:
  assumes "distinct (jkeys own)" "\<And>t w. jget own t = Some w \<Longrightarrow> w \<in> actives"
    "\<And>w. w \<in> actives \<Longrightarrow> \<exists>t. jget caps w = Some t \<and> t \<noteq> [] \<and> jget own t = Some w"
  shows "territory_ok own caps actives"
  using assms unfolding territory_ok_def by blast

lemma territory_ok_capture:
  assumes t: "territory_ok own caps actives" and me: "me \<in> actives" and nocap: "\<forall>w \<in> actives. w \<noteq> me \<longrightarrow> jget caps w \<noteq> Some to'"
    and notmine: "jget own to' \<noteq> Some me"
  shows "territory_ok (jput to' me own) caps actives"
proof (rule territory_okI)
  show "distinct (jkeys (jput to' me own))" using territory_okD(1) [OF t] by (rule distinct_jput)
  show "w \<in> actives" if "jget (jput to' me own) x = Some w" for x w
    using that me territory_okD(2) [OF t] by (cases "x = to'") auto
  fix w assume w: "w \<in> actives"
  obtain c where c: "jget caps w = Some c" "c \<noteq> []" "jget own c = Some w" using territory_okD(3) [OF t w] by blast
  then have "c \<noteq> to'" using nocap notmine w by auto
  with c show "\<exists>t. jget caps w = Some t \<and> t \<noteq> [] \<and> jget (jput to' me own) t = Some w" by simp
qed

lemma territory_ok_eliminate:
  assumes t: "territory_ok own caps actives" and me: "me \<in> actives" "me \<noteq> loser" and lost: "jget own to' = Some loser"
  shows "territory_ok (filter (\<lambda>(_, w). w \<noteq> loser) (jput to' me own)) caps (actives - {loser})"
proof (rule territory_okI)
  have d: "distinct (jkeys (jput to' me own))" using territory_okD(1) [OF t] by (rule distinct_jput)
  then show "distinct (jkeys (filter (\<lambda>(_, w). w \<noteq> loser) (jput to' me own)))" by (rule distinct_map_filter)
  show "w \<in> actives - {loser}" if "jget (filter (\<lambda>(_, w). w \<noteq> loser) (jput to' me own)) x = Some w" for x w
  proof -
    have "jget (jput to' me own) x = Some w \<and> w \<noteq> loser"
      using that unfolding jget_filter_owner [OF d] by (cases "jget (jput to' me own) x") (simp_all split: if_splits)
    then show ?thesis using me territory_okD(2) [OF t, of x w] by (cases "x = to'") auto
  qed
  fix w assume w: "w \<in> actives - {loser}"
  obtain c where c: "jget caps w = Some c" "c \<noteq> []" "jget own c = Some w" using territory_okD(3) [OF t, of w] w by blast
  then have "c \<noteq> to'" using lost w by auto
  with c w show "\<exists>t. jget caps w = Some t \<and> t \<noteq> [] \<and> jget (filter (\<lambda>(_, w). w \<noteq> loser) (jput to' me own)) t = Some w"
    by (simp add: jget_filter_owner [OF d])
qed

lemma active_ids_eliminate:
  "active_ids (map (\<lambda>p. if pl_id p = i then p\<lparr>pl_status := Some Eliminated\<rparr> else p) ps) = active_ids ps - {i}"
  by (induction ps) (auto simp: active_ids_def is_active_def)

lemma players_ok_eliminate:
  assumes pl: "players_ok pm invs cur" and "loser \<in> pl_id ` set (pm_bySeat pm)" "eliminate loser pm = (r, pm')"
  shows "r = Inr () \<and> players_ok pm' invs cur \<and> active_ids (pm_bySeat pm') = active_ids (pm_bySeat pm) - {loser}"
proof -
  have wf: "pm_wf pm" using pl by (simp add: players_ok_def)
  have r: "r = Inr ()" "pm_bySeat pm' = map (\<lambda>p. if pl_id p = loser then p\<lparr>pl_status := Some Eliminated\<rparr> else p) (pm_bySeat pm)"
    using assms(2,3) by (auto simp: eliminate_cases [OF wf])
  have ids: "pl_id ` set (pm_bySeat pm') = pl_id ` set (pm_bySeat pm)"
  proof -
    have "pl_id \<circ> (\<lambda>p :: player. if pl_id p = loser then p\<lparr>pl_status := Some Eliminated\<rparr> else p) = pl_id" by auto
    then show ?thesis unfolding r(2) set_map image_comp by (simp only:)
  qed
  have "\<forall>p \<in> set (pm_bySeat pm'). pl_id p \<noteq> [] \<and> jget invs (pl_id p) \<noteq> None"
    using pl unfolding r(2) by (auto simp: players_ok_def)
  then have "players_ok pm' invs cur" using pl eliminate_wf [OF wf assms(3)] ids by (simp add: players_ok_def)
  with r show ?thesis by (simp add: active_ids_eliminate)
qed

lemma capture_ok:
  assumes ok': "kingdoms_ok s" and me: "me \<in> active_ids (pm_bySeat (gs_players s))"
    and notmine: "jget (getOwnership s) to' \<noteq> Some me"
    and units: "\<And>j q. jget (gs_pieces s) j = Some q \<Longrightarrow> pc_location q = OnTile to' \<Longrightarrow> pc_kind q \<notin> set UNIT_KINDS"
    and st: "\<And>j q. jget (gs_pieces s) j = Some q \<Longrightarrow> pc_location q = OnTile to' \<Longrightarrow> pc_kind q \<in> set STRUCTURE_KINDS \<Longrightarrow>
        \<exists>k w. st = Some (j, k, w)"
    and st': "\<And>i k w p. st = Some (i, k, w) \<Longrightarrow> jget (gs_pieces s) i = Some p \<Longrightarrow> pc_kind p \<in> set STRUCTURE_KINDS \<and> pc_location p = OnTile to'"
  shows "executes (captureTile to' me (jget (getOwnership s) to') st) s"
proof -
  define own where "own = getOwnership s"
  define caps where "caps = getCapitals s"
  define actives where "actives = active_ids (pm_bySeat (gs_players s))"
  define s2 where "s2 = set_extras (kx_ownership_update (\<lambda>_. Some (jput to' me own)) \<circ>
                                    kx_tileLoyalty_update (\<lambda>_. Some (jdel to' (getTileLoyalty s)))) s"
  have parts: "wf_map (gs_map s)" "invs_ok s" "fresh_ids (kx_nextPieceId (gs_extras s)) (gs_pieces s)"
     "kx_mortgagedCities (gs_extras s) = Some []" "loyalty_ok (getTileLoyalty s)"
    and pl: "players_ok (gs_players s) (gs_inventories s) (activePlayer (currentTurn (gs_rounds s)))"
    and b: "board_ok own (gs_pieces s)" and t: "territory_ok own caps actives"
    using ok' by (simp_all add: kingdoms_ok_def own_def caps_def actives_def)
  have me': "me \<in> actives" "jget own to' \<noteq> Some me" using me notmine by (simp_all add: actives_def own_def)
  have loy: "loyalty_ok (jdel to' (getTileLoyalty s))"
    using parts(5) unfolding loyalty_ok_def by (auto simp: set_jdel)
  have s2_sel: "gs_map s2 = gs_map s" "gs_pieces s2 = gs_pieces s" "gs_players s2 = gs_players s" "gs_inventories s2 = gs_inventories s"
     "gs_rounds s2 = gs_rounds s" "gs_status s2 = gs_status s" "gs_history s2 = gs_history s"
     "getOwnership s2 = jput to' me own" "getCapitals s2 = caps" "getTileLoyalty s2 = jdel to' (getTileLoyalty s)"
     "kx_nextPieceId (gs_extras s2) = kx_nextPieceId (gs_extras s)" "kx_mortgagedCities (gs_extras s2) = Some []"
    using parts by (simp_all add: s2_def extras_defs caps_def)
  have invs2: "invs_ok s2" using parts(2) by (simp add: invs_ok_def s2_sel)
  text \<open>A state like \<open>s2\<close> but with other pieces is good when the board and the capitals agree.\<close>
  have good: "kingdoms_ok (s2\<lparr>gs_pieces := ps\<rparr>)"
    if "board_ok (jput to' me own) ps" "fresh_ids (kx_nextPieceId (gs_extras s)) ps"
       "\<forall>w \<in> actives. w \<noteq> me \<longrightarrow> jget caps w \<noteq> Some to'" for ps
    using that parts pl loy s2_sel invs2 territory_ok_capture [OF t me'(1) that(3) me'(2)]
    by (simp add: kingdoms_ok_def extras_defs invs_ok_def actives_def)
  have run: "captureTile to' me (jget own to') st s =
     (case jget own to' of
        None \<Rightarrow> (Inr [mkEvent ''tile-captured'' (Some me) (TileCaptured to' (jget own to'))], s2)
      | Some loser \<Rightarrow>
          if loser = [] then (Inr [mkEvent ''tile-captured'' (Some me) (TileCaptured to' (jget own to'))], s2)
          else if jget caps loser = Some to'
          then (case eliminateKingdom loser me s2 of
                  (Inl e, s3) \<Rightarrow> (Inl e, s3)
                | (Inr es, s3) \<Rightarrow> (Inr (mkEvent ''tile-captured'' (Some me) (TileCaptured to' (jget own to')) # es), s3))
          else (case st of
                  None \<Rightarrow> (Inr [mkEvent ''tile-captured'' (Some me) (TileCaptured to' (jget own to'))], s2)
                | Some (i, _, _) \<Rightarrow>
                    (case jget (gs_pieces s2) i of
                       None \<Rightarrow> (Inr [mkEvent ''tile-captured'' (Some me) (TileCaptured to' (jget own to'))], s2)
                     | Some p \<Rightarrow> (Inr [mkEvent ''tile-captured'' (Some me) (TileCaptured to' (jget own to'))],
                         s2\<lparr>gs_pieces := jput i (p\<lparr>pc_owner := me\<rparr>) (gs_pieces s2)\<rparr>))))"
  proof -
    have eq: "set_extras (kx_ownership_update (\<lambda>_. Some (jput to' me (getOwnership
          (set_extras (kx_tileLoyalty_update (\<lambda>_. Some (jdel to' (getTileLoyalty s)))) s)))))
        (set_extras (kx_tileLoyalty_update (\<lambda>_. Some (jdel to' (getTileLoyalty s)))) s) = s2"
      by (simp add: s2_def own_def getOwnership_def)
    show ?thesis unfolding captureTile_def Let_def eq s2_sel(9) own_def [symmetric] by (rule refl)
  qed
  have self: "s2\<lparr>gs_pieces := gs_pieces s\<rparr> = s2" using s2_sel(2) by simp
  show ?thesis
    unfolding own_def [symmetric]
  proof (cases "jget own to'")
    case None
    have "board_ok (jput to' me own) (gs_pieces s)"
    proof (rule board_ok_empty_tile [OF b])
      show "pc_location p \<noteq> OnTile to'" if "jget (gs_pieces s) i = Some p" for i p
        using board_okD [OF b that] None by (auto simp: piece_ok_def)
    qed
    moreover have "\<forall>w \<in> actives. w \<noteq> me \<longrightarrow> jget caps w \<noteq> Some to'" using None territory_okD(3) [OF t] by force
    ultimately have "kingdoms_ok s2" using good parts(3) self by metis
    then show "executes (captureTile to' me (jget own to') st) s"
      using None run by (simp add: executes_def s2_sel)
  next
    case (Some loser)
    have active: "loser \<in> actives" using Some by (rule territory_okD(2) [OF t])
    have ne: "loser \<noteq> me" using Some me' by auto
    have mem: "loser \<in> pl_id ` set (pm_bySeat (gs_players s))" using active by (auto simp: actives_def active_ids_def)
    then have nonempty: "loser \<noteq> []" using pl by (auto simp: players_ok_def)
    show "executes (captureTile to' me (jget own to') st) s"
    proof (cases "jget caps loser = Some to'")
      case True
      obtain r pm' where e: "eliminate loser (gs_players s) = (r, pm')" by fastforce
      from players_ok_eliminate [OF pl mem e] have r: "r = Inr ()"
        and pl': "players_ok pm' (gs_inventories s) (activePlayer (currentTurn (gs_rounds s)))"
        and act': "active_ids (pm_bySeat pm') = actives - {loser}" by (simp_all add: actives_def)
      define gone where "gone = map fst (filter (\<lambda>(_, p). pc_owner p = loser) (gs_pieces s))"
      define s3 where "s3 = s2\<lparr>gs_players := pm', gs_pieces := fold jdel gone (gs_pieces s),
          gs_extras := (gs_extras s2)\<lparr>kx_ownership := Some (filter (\<lambda>(_, w). w \<noteq> loser) (jput to' me own))\<rparr>\<rparr>"
      have kill: "eliminateKingdom loser me s2 = (Inr [mkEvent ''player-eliminated'' None (PlayerEliminated loser me)], s3)"
        using e r s2_sel by (simp add: eliminateKingdom_def Let_def removePieces_def s3_def gone_def extras_defs)
      have d: "distinct (jkeys (gs_pieces s))" "distinct (jkeys own)" using b t by (simp_all add: board_ok_def territory_ok_def)
      have left: "jget (gs_pieces s) i = Some p \<and> pc_owner p \<noteq> loser" if "jget (fold jdel gone (gs_pieces s)) i = Some p" for i p
        using that by (force simp: jget_fold_jdel gone_def map_of_eq_Some_iff [OF d(1)] split: if_splits)
      have b2: "board_ok own (fold jdel gone (gs_pieces s))"
        by (rule board_ok_subset [OF b]) (use left d distinct_fold_jdel in auto)
      have "board_ok (filter (\<lambda>(_, w). w \<noteq> loser) (jput to' me own)) (fold jdel gone (gs_pieces s))"
      proof (rule board_ok_own [OF b2])
        fix i p x assume h: "jget (fold jdel gone (gs_pieces s)) i = Some p" "pc_location p = OnTile x" "jget own x = Some (pc_owner p)"
        then have "x \<noteq> to'" using Some left [OF h(1)] by auto
        with h left [OF h(1)] d(2) show "jget (filter (\<lambda>(_, w). w \<noteq> loser) (jput to' me own)) x = Some (pc_owner p)"
          by (simp add: jget_filter_owner)
      qed
      moreover have "fresh_ids (kx_nextPieceId (gs_extras s)) (fold jdel gone (gs_pieces s))"
        by (rule fresh_ids_subset [OF parts(3)]) (simp add: jget_fold_jdel)
      moreover have "territory_ok (filter (\<lambda>(_, w). w \<noteq> loser) (jput to' me own)) caps (actives - {loser})"
        by (rule territory_ok_eliminate [OF t me'(1) ne [symmetric] Some])
      ultimately have "kingdoms_ok s3"
        using parts pl' act' loy s2_sel invs2 by (simp add: kingdoms_ok_def s3_def extras_defs invs_ok_def)
      with Some nonempty True kill run s2_sel show ?thesis by (simp add: executes_def s3_def)
    next
      case False
      have nocap: "\<forall>w \<in> actives. w \<noteq> me \<longrightarrow> jget caps w \<noteq> Some to'" using Some False territory_okD(3) [OF t] by force
      show ?thesis
      proof (cases "\<exists>i k w p. st = Some (i, k, w) \<and> jget (gs_pieces s) i = Some p")
        case True
        then obtain i k w p where p: "st = Some (i, k, w)" "jget (gs_pieces s) i = Some p" by blast
        have "board_ok (jput to' me own) (jput i (p\<lparr>pc_owner := me\<rparr>) (gs_pieces s))"
          using st' [OF p] by (intro board_ok_take_structure [OF b p(2)]) (auto dest: units)
        moreover have "fresh_ids (kx_nextPieceId (gs_extras s)) (jput i (p\<lparr>pc_owner := me\<rparr>) (gs_pieces s))"
          by (rule fresh_ids_subset [OF parts(3)]) (use p in auto)
        ultimately have "kingdoms_ok (s2\<lparr>gs_pieces := jput i (p\<lparr>pc_owner := me\<rparr>) (gs_pieces s)\<rparr>)"
          using good nocap by blast
        with Some nonempty False p run s2_sel show ?thesis by (simp add: executes_def)
      next
        case none: False
        have "board_ok (jput to' me own) (gs_pieces s)"
        proof (rule board_ok_empty_tile [OF b])
          fix j q assume h: "jget (gs_pieces s) j = Some q"
          show "pc_location q \<noteq> OnTile to'"
            using units [OF h] st [OF h] board_okD [OF b h] none h by (auto simp: piece_ok_def)
        qed
        then have "kingdoms_ok s2" using good parts(3) nocap self by metis
        with Some nonempty False none run s2_sel show ?thesis
          by (cases st) (auto simp: executes_def split: option.splits prod.splits)
      qed
    qed
  qed
qed

section \<open>The attack\<close>

lemma kingdoms_ok_rng: "kingdoms_ok s \<Longrightarrow> kingdoms_ok (s\<lparr>gs_rng := g\<rparr>)"
  by (simp add: kingdoms_ok_def extras_defs invs_ok_def)

lemma kingdoms_ok_markAttacked: "kingdoms_ok s \<Longrightarrow> kingdoms_ok (markAttacked t s)"
  unfolding markAttacked_def by (rule kingdoms_ok_extras) simp_all

lemma executes_erodeLoyalty:
  assumes ok': "kingdoms_ok s" and cap: "executes (captureTile to' me w st) s"
  shows "executes (erodeLoyalty to' me w st) s"
proof -
  have loy: "loyalty_ok (getTileLoyalty s)" using ok' by (simp add: kingdoms_ok_def)
  define cur where "cur = (case jget (getTileLoyalty s) to' of Some e \<Rightarrow> tl_loyalty e | None \<Rightarrow> MAX_LOYALTY)"
  have "cur \<le> 100"
    using loy unfolding cur_def by (force simp: loyalty_ok_def MAX_LOYALTY_def split: option.splits dest: jget_in_set)
  then have n: "cur - 45 \<le> 0 \<or> (0 < cur - 45 \<and> cur - 45 < 100)" by linarith
  show ?thesis
  proof (cases "cur - 45 \<le> 0")
    case True
    with cap show ?thesis
      by (simp add: executes_def erodeLoyalty_def Let_def LOYALTY_DAMAGE_PER_ATTACK_def flip: cur_def)
  next
    case False
    let ?m = "jput to' \<lparr>tl_loyalty = cur - 45, tl_lastAttackerId = me\<rparr> (getTileLoyalty s)"
    have d: "distinct (jkeys (getTileLoyalty s))" using loy by (simp add: loyalty_ok_def)
    then have d': "distinct (jkeys ?m)" by simp
    have "loyalty_ok ?m" using loy False n unfolding loyalty_ok_iff [OF d'] loyalty_ok_iff [OF d] by simp
    from kingdoms_ok_loyalty [OF ok' this] False show ?thesis
      by (simp add: executes_def erodeLoyalty_def Let_def LOYALTY_DAMAGE_PER_ATTACK_def flip: cur_def)
  qed
qed

text \<open>What the validator of an attack guarantees about the forces.\<close>

lemma attack_accepted:
  assumes ok': "kingdoms_ok s" and acc: "attackTileValidator s a = accept"
  shows "guardActivePlayer s (ac_playerId a) = None"
    "jget (getOwnership s) (kp_fromTileId (ac_payload a)) = Some (actor a)"
    "jget (getOwnership s) (kp_toTileId (ac_payload a)) \<noteq> Some (actor a)"
    "isAdjacent (gs_map s) (kp_fromTileId (ac_payload a)) (kp_toTileId (ac_payload a))"
    "isConnected (kp_fromTileId (ac_payload a)) (connectedTiles s (actor a))"
    "getAttackedFrom s = []" "attackerIds s a \<noteq> []"
    "set (attackerIds s a) \<subseteq> set (unitsOnTile s (kp_fromTileId (ac_payload a)) (Some (actor a)) (Some UNIT_KINDS))"
proof -
  show g: "guardActivePlayer s (ac_playerId a) = None"
    using acc by (simp add: attackTileValidator_def split: option.splits)
  note v = acc [unfolded attackTileValidator_def Let_def g option.case]
  from v have c: "jget (getOwnership s) (kp_fromTileId (ac_payload a)) = Some (actor a)"
    "isConnected (kp_fromTileId (ac_payload a)) (connectedTiles s (actor a))"
    "jget (getOwnership s) (kp_toTileId (ac_payload a)) \<noteq> Some (actor a)"
    "isAdjacent (gs_map s) (kp_fromTileId (ac_payload a)) (kp_toTileId (ac_payload a))"
    "unitsOnTile s (kp_fromTileId (ac_payload a)) (Some (actor a)) (Some UNIT_KINDS) \<noteq> []" "getAttackedFrom s = []"
    by (simp_all split: if_splits)
  then show "jget (getOwnership s) (kp_fromTileId (ac_payload a)) = Some (actor a)"
    "jget (getOwnership s) (kp_toTileId (ac_payload a)) \<noteq> Some (actor a)"
    "isAdjacent (gs_map s) (kp_fromTileId (ac_payload a)) (kp_toTileId (ac_payload a))"
    "isConnected (kp_fromTileId (ac_payload a)) (connectedTiles s (actor a))" "getAttackedFrom s = []"
    by simp_all
  show "attackerIds s a \<noteq> []" using c(5) by (simp add: attackerIds_def split: option.splits)
  show "set (attackerIds s a) \<subseteq> set (unitsOnTile s (kp_fromTileId (ac_payload a)) (Some (actor a)) (Some UNIT_KINDS))"
  proof (cases "kp_unitIds (ac_payload a)")
    case None
    then show ?thesis by (simp add: attackerIds_def)
  next
    case (Some ids)
    with v c have "list_all (\<lambda>i. i \<in> set (unitsOnTile s (kp_fromTileId (ac_payload a)) (Some (actor a)) (Some UNIT_KINDS))) ids"
      by (simp split: if_splits)
    with Some show ?thesis by (auto simp: attackerIds_def list_all_iff)
  qed
qed

lemma find_mem: "find P xs = Some x \<Longrightarrow> x \<in> set xs"
  by (auto dest: find_SomeD)

text \<open>
  The battle of an accepted attack: it is fought to an outcome, and a noble survives it only in a
  victory, which leaves no unit on the attacked tile.
\<close>

lemma attack_battle:
  assumes ok': "kingdoms_ok s" and acc: "attackTileValidator s a = accept"
  obtains att def' result g where
    "asCombatants s (attackerIds s a) = Inr att" "map cb_id att = attackerIds s a"
    "asCombatants s (defenderIds s a) = Inr def'" "map cb_id def' = defenderIds s a"
    "resolveAttack att def' (tileBonus s (kp_toTileId (ac_payload a)))
       (structureEffects (structureOnTile s (kp_toTileId (ac_payload a)) STRUCTURE_KINDS)) (Some intInRange) (gs_rng s) = (Inr result, g)"
    "battle_spec att def' result"
    "survivingNoble s (attackerIds s a) result \<noteq> None \<Longrightarrow> attackerWins result \<and> defenderLosses result = defenderIds s a"
proof -
  have b: "board_ok (getOwnership s) (gs_pieces s)" using ok' by (simp add: kingdoms_ok_def)
  then have d: "distinct (jkeys (gs_pieces s))" by (simp add: board_ok_def)
  have "\<forall>i \<in> set (attackerIds s a). \<exists>p. jget (gs_pieces s) i = Some p \<and> pc_kind p \<in> set UNIT_KINDS"
    using attack_accepted(8) [OF ok' acc] by (fastforce simp: unitsOnTile_mem [OF d])
  from asCombatants_ok [OF b this] obtain att where att: "asCombatants s (attackerIds s a) = Inr att"
    "map cb_id att = attackerIds s a" "fighters_ok att" by blast
  have "\<forall>i \<in> set (defenderIds s a). \<exists>p. jget (gs_pieces s) i = Some p \<and> pc_kind p \<in> set UNIT_KINDS"
    by (auto simp: defenderIds_def unitsOnTile_mem [OF d])
  from asCombatants_ok [OF b this] obtain def' where def': "asCombatants s (defenderIds s a) = Inr def'"
    "map cb_id def' = defenderIds s a" "fighters_ok def'" by blast
  obtain result g where r: "resolveAttack att def' (tileBonus s (kp_toTileId (ac_payload a)))
       (structureEffects (structureOnTile s (kp_toTileId (ac_payload a)) STRUCTURE_KINDS)) (Some intInRange) (gs_rng s) = (Inr result, g)"
    "battle_spec att def' result"
    using seeded.resolveAttack_spec [OF att(3) def'(3) tileBonus_nonneg] structureEffects_nonneg by blast
  have "attackerWins result \<and> defenderLosses result = defenderIds s a"
    if "survivingNoble s (attackerIds s a) result \<noteq> None"
  proof -
    from that obtain i where i: "i \<in> set (attackerIds s a)" "i \<notin> set (attackerLosses result)"
      by (auto simp: survivingNoble_def dest!: find_SomeD)
    then have "attackerWins result" using r(2) att(2) by (auto simp: battle_spec_def)
    with r(2) def'(2) show ?thesis by (simp add: battle_spec_def)
  qed
  with att def' r show ?thesis by (intro that) blast+
qed

lemma attack_executes:
  assumes ok': "kingdoms_ok s" and acc: "attackTileValidator s a = accept"
  shows "executes (attackTileExecutor a) s"
proof -
  let ?to = "kp_toTileId (ac_payload a)" and ?from = "kp_fromTileId (ac_payload a)" and ?me = "actor a"
  let ?st = "structureOnTile s ?to STRUCTURE_KINDS"
  obtain att def' result g where bt: "asCombatants s (attackerIds s a) = Inr att" "asCombatants s (defenderIds s a) = Inr def'"
    "resolveAttack att def' (tileBonus s ?to) (structureEffects ?st) (Some intInRange) (gs_rng s) = (Inr result, g)"
    "survivingNoble s (attackerIds s a) result \<noteq> None \<Longrightarrow> defenderLosses result = defenderIds s a"
  proof (rule attack_battle [OF ok' acc])
    fix att def' result g
    assume "asCombatants s (attackerIds s a) = Inr att" "asCombatants s (defenderIds s a) = Inr def'"
      "resolveAttack att def' (tileBonus s ?to) (structureEffects ?st) (Some intInRange) (gs_rng s) = (Inr result, g)"
      and n: "survivingNoble s (attackerIds s a) result \<noteq> None \<Longrightarrow> attackerWins result \<and> defenderLosses result = defenderIds s a"
    then show thesis by (intro that [of att def' result g]) (simp_all add: n)
  qed
  define s1 where "s1 = removePieces (defenderLosses result @ attackerLosses result) (s\<lparr>gs_rng := g\<rparr>)"
  have s1: "kingdoms_ok s1" unfolding s1_def by (rule kingdoms_ok_remove [OF kingdoms_ok_rng [OF ok']])
  have sel: "gs_status s1 = gs_status s" "gs_history s1 = gs_history s" "gs_players s1 = gs_players s" "getOwnership s1 = getOwnership s"
    by (simp_all add: s1_def removePieces_def extras_defs)
  have pcs: "jget (gs_pieces s1) i = (if i \<in> set (defenderLosses result @ attackerLosses result) then None else jget (gs_pieces s) i)" for i
    by (simp add: s1_def removePieces_def jget_fold_jdel del: fold_append set_append)
  have b: "board_ok (getOwnership s) (gs_pieces s)" using ok' by (simp add: kingdoms_ok_def)
  then have d: "distinct (jkeys (gs_pieces s))" by (simp add: board_ok_def)
  have ero: "executes (erodeLoyalty ?to ?me (jget (getOwnership s) ?to) ?st) s1" if n: "survivingNoble s (attackerIds s a) result \<noteq> None"
  proof (rule executes_erodeLoyalty [OF s1])
    have "executes (captureTile ?to ?me (jget (getOwnership s1) ?to) ?st) s1"
    proof (rule capture_ok [OF s1])
      show "?me \<in> active_ids (pm_bySeat (gs_players s1))"
        using guard_active(1) [OF ok' attack_accepted(1) [OF ok' acc]] by (simp add: sel)
      show "jget (getOwnership s1) ?to \<noteq> Some ?me" using attack_accepted(3) [OF ok' acc] by (simp add: sel)
    next
      fix j q assume q: "jget (gs_pieces s1) j = Some q" "pc_location q = OnTile ?to"
      then have "jget (gs_pieces s) j = Some q" "j \<notin> set (defenderIds s a)" using bt(4) [OF n] by (auto simp: pcs split: if_splits)
      with q show "pc_kind q \<notin> set UNIT_KINDS" by (auto simp: defenderIds_def unitsOnTile_mem [OF d])
    next
      fix j q assume q: "jget (gs_pieces s1) j = Some q" "pc_location q = OnTile ?to" "pc_kind q \<in> set STRUCTURE_KINDS"
      then have j: "jget (gs_pieces s) j = Some q" by (auto simp: pcs split: if_splits)
      then have "?st \<noteq> None" using q by (auto simp: structureOnTile_None dest!: jget_in_set)
      then obtain i k w where st: "?st = Some (i, k, w)" by auto
      from structureOnTile_Some [OF d st] obtain p where "jget (gs_pieces s) i = Some p" "pc_kind p \<in> set STRUCTURE_KINDS"
        "pc_location p = OnTile ?to" by auto
      with board_ok_unique [OF b this(1) j] q st show "\<exists>k w. ?st = Some (j, k, w)" by auto
    next
      fix i k w p assume "?st = Some (i, k, w)" "jget (gs_pieces s1) i = Some p"
      with structureOnTile_Some [OF d this(1)] show "pc_kind p \<in> set STRUCTURE_KINDS \<and> pc_location p = OnTile ?to"
        by (auto simp: pcs split: if_splits)
    qed
    then show "executes (captureTile ?to ?me (jget (getOwnership s) ?to) ?st) s1" by (simp add: sel)
  qed
  note run = attackTileExecutor_def [of a s, unfolded Let_def bt(1-3) sum.case prod.case, folded s1_def]
  show ?thesis
  proof (cases "survivingNoble s (attackerIds s a) result")
    case None
    then show ?thesis using kingdoms_ok_markAttacked [OF s1] sel by (simp add: executes_def run markAttacked_def)
  next
    case (Some i)
    from ero Some obtain es s2 where e: "erodeLoyalty ?to ?me (jget (getOwnership s) ?to) ?st s1 = (Inr es, s2)" "kingdoms_ok s2"
      "gs_status s2 = gs_status s1" "gs_history s2 = gs_history s1" by (auto simp: executes_def)
    show ?thesis
    proof (cases "i = []")
      case True
      then show ?thesis using Some kingdoms_ok_markAttacked [OF s1] sel by (simp add: executes_def run markAttacked_def)
    next
      case False
      then show ?thesis using Some e kingdoms_ok_markAttacked [OF e(2)] sel by (simp add: executes_def run markAttacked_def)
    qed
  qed
qed

end
