(* ===== verification/KingdomsMap.thy ===== *)
theory KingdomsMap
  imports GameMap SeededRng
begin

text \<open>
  The 61-tile map of Kingdoms of Dominion, \<open>scenarios/kingdoms/map.ts\<close>: the ring walk that
  lists the coordinates, the seeded shuffle of the terrain bag, and the builder that attaches the
  derived properties to every tile.
\<close>

section \<open>Rings of coordinates\<close>

text \<open>One side of a ring: \<open>n\<close> coordinates are pushed, stepping by \<open>(dq, dr)\<close>.\<close>

fun walk_side :: "nat \<Rightarrow> int \<times> int \<Rightarrow> int \<times> int \<Rightarrow> axial list \<times> (int \<times> int)" where
  "walk_side 0 d p = ([], p)"
| "walk_side (Suc n) (dq, dr) (x, y) =
     (case walk_side n (dq, dr) (x + dq, y + dr) of (cs, p) \<Rightarrow> (axial x y # cs, p))"

fun walk_sides :: "nat \<Rightarrow> (int \<times> int) list \<Rightarrow> int \<times> int \<Rightarrow> axial list" where
  "walk_sides n [] p = []"
| "walk_sides n (d # ds) p = (case walk_side n d p of (cs, p') \<Rightarrow> cs @ walk_sides n ds p')"

definition ring :: "nat \<Rightarrow> axial list" where
  "ring radius =
     (if radius = 0 then [axial 0 0]
      else walk_sides radius [(0, -1), (-1, 0), (-1, 1), (0, 1), (1, 0), (1, -1)] (int radius, 0))"

definition ALL_COORDS :: "axial list" where
  "ALL_COORDS = concat (map ring [0, 1, 2, 3, 4])"

definition TERRAIN_BAG :: "string list" where
  "TERRAIN_BAG = replicate 25 ''plains'' @ replicate 15 ''forest'' @ replicate 12 ''hills'' @ replicate 9 ''mountain''"

section \<open>The seeded shuffle\<close>

definition kmap_seedFromString :: "string \<Rightarrow> 32 word" where
  "kmap_seedFromString s = (let h = foldl fnv_step 2166136261 s in if h = 0 then 1 else h)"

fun seededShuffle_loop :: "nat \<Rightarrow> 'a list \<Rightarrow> 32 word \<Rightarrow> 'a list" where
  "seededShuffle_loop 0 xs x = xs"
| "seededShuffle_loop (Suc i) xs x =
     (let x' = xorshift x; j = unat x' mod (Suc i + 1)
      in seededShuffle_loop i (swap (Suc i) j xs) x')"

definition seededShuffle :: "'a list \<Rightarrow> string \<Rightarrow> 'a list" where
  "seededShuffle arr seed = seededShuffle_loop (length arr - 1) arr (kmap_seedFromString seed)"

section \<open>Tile properties and the builder\<close>

definition TERRAIN_RESOURCE :: "(string, string) jsmap" where
  "TERRAIN_RESOURCE = [(''plains'', ''food''), (''forest'', ''wood''), (''hills'', ''iron''), (''mountain'', ''iron'')]"

definition kmap_economicValue :: "int \<Rightarrow> int" where
  "kmap_economicValue ringRadius = max 1 (5 - ringRadius)"

definition TERRAIN_COMBAT_VALUE :: "(string, int) jsmap" where
  "TERRAIN_COMBAT_VALUE = [(''plains'', 1), (''forest'', 2), (''hills'', 2), (''mountain'', 3)]"

definition tileRing :: "axial \<Rightarrow> int" where
  "tileRing c = max (max \<bar>ax_q c\<bar> \<bar>ax_r c\<bar>) \<bar>ax_q c + ax_r c\<bar>"

definition kmap_props :: "axial \<Rightarrow> string \<Rightarrow> (string, tile_value) jsmap" where
  "kmap_props coord terrain =
     [(''resourceType'', case jget TERRAIN_RESOURCE terrain of Some r \<Rightarrow> PStr r | None \<Rightarrow> PNull),
      (''economicValue'', PNum (kmap_economicValue (tileRing coord))),
      (''combatValue'', PNum (case jget TERRAIN_COMBAT_VALUE terrain of Some v \<Rightarrow> v | None \<Rightarrow> 1))]"

definition kmap_place :: "string list \<Rightarrow> nat \<times> axial \<Rightarrow> map_builder \<Rightarrow> map_builder" where
  "kmap_place terrains ic b =
     (case ic of (i, coord) \<Rightarrow>
        let terrain = (if i < length terrains then terrains ! i else ''plains'')
        in setTileProperties (AtCoord coord) (kmap_props coord terrain) (mb_addTile coord terrain None b))"

definition buildKingdomsMap :: "nat \<Rightarrow> string \<Rightarrow> game_map" where
  "buildKingdomsMap playerCount seed =
     (let ts = seededShuffle TERRAIN_BAG seed
      in mb_build (fold (kmap_place ts) (enumerate 0 ALL_COORDS) newMapBuilder))"

definition KINGDOMS_STARTING_COORDS :: "(nat, axial list) jsmap" where
  "KINGDOMS_STARTING_COORDS =
     [(2, [axial 4 (-4), axial (-4) 4]),
      (3, [axial 4 0, axial 0 (-4), axial (-4) 4]),
      (4, [axial 4 0, axial 0 (-4), axial (-4) 0, axial 0 4]),
      (5, [axial 4 0, axial 4 (-4), axial 0 (-4), axial (-4) 0, axial 0 4]),
      (6, [axial 4 0, axial 4 (-4), axial 0 (-4), axial (-4) 0, axial (-4) 4, axial 0 4])]"

section \<open>The coordinates are the tiles within distance four\<close>

lemma walk_side_map:
  "walk_side n (dq, dr) (x, y) =
     (map (\<lambda>j. axial (x + int j * dq) (y + int j * dr)) [0..<n], (x + int n * dq, y + int n * dr))"
proof (induction n arbitrary: x y)
  case (Suc n)
  have "[0..<Suc n] = 0 # map Suc [0..<n]" by (simp add: map_Suc_upt upt_conv_Cons del: upt_Suc)
  with Suc show ?case by (simp add: comp_def algebra_simps del: upt_Suc)
qed simp

lemma ring_sides:
  assumes "0 < k"
  shows "ring k =
     map (\<lambda>j. axial (int k) (- int j)) [0..<k] @ map (\<lambda>j. axial (int k - int j) (- int k)) [0..<k] @
     map (\<lambda>j. axial (- int j) (int j - int k)) [0..<k] @ map (\<lambda>j. axial (- int k) (int j)) [0..<k] @
     map (\<lambda>j. axial (int j - int k) (int k)) [0..<k] @ map (\<lambda>j. axial (int j) (int k - int j)) [0..<k]"
  using assms by (simp add: ring_def walk_side_map algebra_simps)

lemma hexagon_ring:
  fixes x y n :: int
  assumes "0 < n"
  shows "(x = n \<and> - n < y \<and> y \<le> 0) \<or> (y = - n \<and> 0 < x \<and> x \<le> n) \<or> (x + y = - n \<and> - n < x \<and> x \<le> 0) \<or>
     (x = - n \<and> 0 \<le> y \<and> y < n) \<or> (y = n \<and> - n \<le> x \<and> x < 0) \<or> (x + y = n \<and> 0 \<le> x \<and> x < n)
     \<longleftrightarrow> max (max \<bar>x\<bar> \<bar>y\<bar>) \<bar>x + y\<bar> = n"
  using assms by (cases "0 \<le> x"; cases "0 \<le> y"; cases "0 \<le> x + y"; simp add: max_def abs_if) arith+

text \<open>The walk of radius \<open>k\<close> visits exactly the coordinates on ring \<open>k\<close>.\<close>

lemma set_ring: "set (ring k) = {c. tileRing c = int k}"
proof (cases "k = 0")
  case True
  then show ?thesis by (auto simp: ring_def tileRing_def axial_eq_iff)
next
  case False
  then have k: "0 < k" by simp
  have img: "(\<exists>j. j < k \<and> P (int j)) \<longleftrightarrow> (\<exists>j. 0 \<le> j \<and> j < int k \<and> P j)" for P
    by (metis int_nat_eq nat_less_iff of_nat_0_le_iff of_nat_less_iff)
  have "c \<in> set (ring k) \<longleftrightarrow> tileRing c = int k" for c
  proof -
    define x y n where "x = ax_q c" and "y = ax_r c" and "n = int k"
    have n: "0 < n" using k by (simp add: n_def)
    have "c \<in> set (ring k) \<longleftrightarrow>
       (\<exists>j. 0 \<le> j \<and> j < n \<and> x = n \<and> y = - j) \<or> (\<exists>j. 0 \<le> j \<and> j < n \<and> x = n - j \<and> y = - n) \<or>
       (\<exists>j. 0 \<le> j \<and> j < n \<and> x = - j \<and> y = j - n) \<or> (\<exists>j. 0 \<le> j \<and> j < n \<and> x = - n \<and> y = j) \<or>
       (\<exists>j. 0 \<le> j \<and> j < n \<and> x = j - n \<and> y = n) \<or> (\<exists>j. 0 \<le> j \<and> j < n \<and> x = j \<and> y = n - j)"
      unfolding ring_sides [OF k] n_def
      by (simp add: image_iff axial_eq_iff Bex_def flip: x_def y_def img) blast
    also have "\<dots> \<longleftrightarrow> (x = n \<and> - n < y \<and> y \<le> 0) \<or> (y = - n \<and> 0 < x \<and> x \<le> n) \<or>
       (x + y = - n \<and> - n < x \<and> x \<le> 0) \<or> (x = - n \<and> 0 \<le> y \<and> y < n) \<or>
       (y = n \<and> - n \<le> x \<and> x < 0) \<or> (x + y = n \<and> 0 \<le> x \<and> x < n)"
      by (intro arg_cong2 [where f = "(\<or>)"]) presburger+
    also have "\<dots> \<longleftrightarrow> max (max \<bar>x\<bar> \<bar>y\<bar>) \<bar>x + y\<bar> = n"
      using n by (rule hexagon_ring)
    finally show ?thesis by (simp add: tileRing_def x_def y_def n_def)
  qed
  then show ?thesis by blast
qed

lemma tileRing_distance: "tileRing c = hexDistance c (axial 0 0)"
  by (simp add: tileRing_def hexDistance_def axialDistance_max)

lemma tileRing_nonneg: "0 \<le> tileRing c"
  by (simp add: tileRing_def)

lemma set_ALL_COORDS: "set ALL_COORDS = {c. tileRing c \<le> 4}"
proof -
  have "set ALL_COORDS = {c. tileRing c = 0} \<union> {c. tileRing c = 1} \<union> {c. tileRing c = 2} \<union> {c. tileRing c = 3} \<union> {c. tileRing c = 4}"
    by (simp add: ALL_COORDS_def set_ring Un_assoc)
  then show ?thesis using tileRing_nonneg by (auto; smt (verit) tileRing_nonneg)
qed

lemma length_ring: "0 < k \<Longrightarrow> length (ring k) = 6 * k"
  by (simp add: ring_sides)

lemma length_ALL_COORDS: "length ALL_COORDS = 61"
  by (simp add: ALL_COORDS_def length_ring) (simp add: ring_def)

lemma distinct_ALL_COORDS: "distinct ALL_COORDS"
proof -
  have "set ALL_COORDS = set (hexesInRange (axial 0 0) 4)"
    by (simp add: set_ALL_COORDS set_hexesInRange tileRing_distance)
  moreover have "distinct (hexesInRange (axial 0 0) 4)" by code_simp
  moreover have "length (hexesInRange (axial 0 0) 4) = 61"
    using length_hexesInRange [of "axial 0 0" 4] by simp
  ultimately have "card (set ALL_COORDS) = length ALL_COORDS"
    by (simp add: distinct_card length_ALL_COORDS)
  then show ?thesis by (rule card_distinct)
qed

section \<open>The terrains are a permutation of the bag\<close>

lemma seededShuffle_loop_mset: "i < length xs \<or> i = 0 \<Longrightarrow> mset (seededShuffle_loop i xs x) = mset xs"
proof (induction i arbitrary: xs x)
  case (Suc i)
  define j where "j = unat (xorshift x) mod (Suc i + 1)"
  have "j < Suc i + 1" unfolding j_def by (rule mod_less_divisor) simp
  then have j: "j < length xs" using Suc.prems by linarith
  have "seededShuffle_loop (Suc i) xs x = seededShuffle_loop i (swap (Suc i) j xs) (xorshift x)"
    by (simp only: seededShuffle_loop.simps Let_def j_def)
  moreover have "mset (seededShuffle_loop i (swap (Suc i) j xs) (xorshift x)) = mset (swap (Suc i) j xs)"
    using Suc.prems by (intro Suc.IH) auto
  ultimately show ?case using Suc.prems j by simp
qed simp

lemma seededShuffle_mset: "mset (seededShuffle xs seed) = mset xs"
  by (cases xs) (simp_all add: seededShuffle_def seededShuffle_loop_mset)

lemma length_TERRAIN_BAG: "length TERRAIN_BAG = 61"
  by (simp add: TERRAIN_BAG_def)

lemma length_seededShuffle [simp]: "length (seededShuffle xs seed) = length xs"
  using seededShuffle_mset mset_eq_length by blast

section \<open>The finished map\<close>

lemma tile_ref_AtCoord: "tile_ref (AtCoord c) = tileId c"
  by simp

lemma fold_kmap_place:
  "mb_tileDefs (fold (kmap_place ts) ics b) =
     mb_tileDefs b @ map (\<lambda>(i, c). \<lparr>td_coord = c, td_terrain = (if i < length ts then ts ! i else ''plains''), td_numberToken = None\<rparr>) ics"
  by (induction ics arbitrary: b) (auto simp: kmap_place_def mb_addTile_def Let_def)

lemma kmap_props_fold: "fold (\<lambda>(key, v). jput key v) (kmap_props c t) [] = kmap_props c t"
  by (simp add: kmap_props_def)

lemma kmap_props_nonempty: "kmap_props c t \<noteq> []"
  by (simp add: kmap_props_def)

lemma pending_kmap_place:
  "jget (mb_pending b) (tileId c) = None \<Longrightarrow>
   jget (mb_pending (kmap_place ts (i, c) b)) k =
     (if k = tileId c then Some (kmap_props c (if i < length ts then ts ! i else ''plains'')) else jget (mb_pending b) k)"
  by (simp add: kmap_place_def Let_def pending_setTileProperties mb_addTile_def kmap_props_nonempty kmap_props_fold)

lemma pending_fold_kmap_place:
  assumes "distinct (map snd ics)" "\<forall>c \<in> set (map snd ics). jget (mb_pending b) (tileId c) = None"
  shows "jget (mb_pending (fold (kmap_place ts) ics b)) (tileId c) =
     (case map_of (map prod.swap ics) c of
        Some i \<Rightarrow> Some (kmap_props c (if i < length ts then ts ! i else ''plains''))
      | None \<Rightarrow> jget (mb_pending b) (tileId c))"
  using assms
proof (induction ics arbitrary: b)
  case (Cons ic ics)
  obtain i c' where ic: "ic = (i, c')" by (cases ic)
  let ?b = "kmap_place ts (i, c') b"
  have new: "jget (mb_pending b) (tileId c') = None" using Cons.prems ic by simp
  have "\<forall>c \<in> set (map snd ics). jget (mb_pending ?b) (tileId c) = None"
    using Cons.prems ic by (auto simp: pending_kmap_place [OF new])
  from Cons.IH [OF _ this] Cons.prems(1) ic
  have "jget (mb_pending (fold (kmap_place ts) ics ?b)) (tileId c) =
     (case map_of (map prod.swap ics) c of
        Some i \<Rightarrow> Some (kmap_props c (if i < length ts then ts ! i else ''plains''))
      | None \<Rightarrow> jget (mb_pending ?b) (tileId c))" by simp
  moreover have "c' \<notin> set (map snd ics)" using Cons.prems(1) ic by simp
  then have "map_of (map prod.swap ics) c' = None" by (force simp: map_of_eq_None_iff)
  ultimately show ?case using ic by (auto simp: pending_kmap_place [OF new] split: option.split)
qed simp

text \<open>What tile \<open>i\<close> of the map holds.\<close>

definition kmap_tile :: "string \<Rightarrow> nat \<Rightarrow> tile" where
  "kmap_tile seed i =
     (let c = ALL_COORDS ! i; terrain = seededShuffle TERRAIN_BAG seed ! i
      in \<lparr>tile_id = tileId c, tile_coord = c, tile_terrain = terrain, tile_numberToken = None,
          tile_properties = Some (kmap_props c terrain)\<rparr>)"

lemma map_snd_enumerate: "map snd (enumerate 0 ALL_COORDS) = ALL_COORDS"
  by (simp add: enumerate_eq_zip)

lemma map_of_enumerate_swap: "i < 61 \<Longrightarrow> map_of (map prod.swap (enumerate 0 ALL_COORDS)) (ALL_COORDS ! i) = Some i"
proof (intro map_of_is_SomeI)
  assume "i < 61"
  then have "(i, ALL_COORDS ! i) \<in> set (enumerate 0 ALL_COORDS)"
    by (simp add: in_set_enumerate_eq length_ALL_COORDS)
  then show "(ALL_COORDS ! i, i) \<in> set (map prod.swap (enumerate 0 ALL_COORDS))" by force
  have "fst \<circ> prod.swap = (snd :: nat \<times> axial \<Rightarrow> axial)" by auto
  then show "distinct (map fst (map prod.swap (enumerate 0 ALL_COORDS)))"
    by (simp only: map_map map_snd_enumerate distinct_ALL_COORDS)
qed

lemma gm_tile_kingdoms:
  assumes "i < 61"
  shows "gm_tile (buildKingdomsMap n seed) (ALL_COORDS ! i) = Some (kmap_tile seed i)"
proof -
  define ts where "ts = seededShuffle TERRAIN_BAG seed"
  define b where "b = fold (kmap_place ts) (enumerate 0 ALL_COORDS) newMapBuilder"
  define d where "d = \<lparr>td_coord = ALL_COORDS ! i, td_terrain = ts ! i, td_numberToken = None\<rparr>"
  have len: "length ts = 61" by (simp add: ts_def length_TERRAIN_BAG)
  have defs: "mb_tileDefs b = map (\<lambda>(i, c). \<lparr>td_coord = c, td_terrain = (if i < length ts then ts ! i else ''plains''), td_numberToken = None\<rparr>) (enumerate 0 ALL_COORDS)"
    by (simp add: b_def fold_kmap_place newMapBuilder_def)
  have "map td_coord (mb_tileDefs b) = map snd (enumerate 0 ALL_COORDS)"
    unfolding defs map_map by (rule map_cong) auto
  then have dist: "distinct (map td_coord (mb_tileDefs b))"
    by (simp add: map_snd_enumerate distinct_ALL_COORDS)
  have mem: "d \<in> set (mb_tileDefs b)"
    unfolding defs d_def using assms len
    by (force simp: in_set_enumerate_eq length_ALL_COORDS image_iff intro!: bexI [of _ "(i, ALL_COORDS ! i)"])
  have pend: "jget (mb_pending b) (tileId (ALL_COORDS ! i)) = Some (kmap_props (ALL_COORDS ! i) (ts ! i))"
    unfolding b_def using assms len
    by (subst pending_fold_kmap_place)
       (simp_all add: map_snd_enumerate distinct_ALL_COORDS newMapBuilder_def map_of_enumerate_swap)
  have "gm_tile (mb_build b) (td_coord d) = Some (build_tile (mb_pending b) d)"
    by (rule gm_tile_build_distinct [OF dist mem])
  moreover have "buildKingdomsMap n seed = mb_build b"
    by (simp add: buildKingdomsMap_def Let_def b_def ts_def)
  ultimately show ?thesis
    by (simp add: build_tile_def d_def pend kmap_tile_def Let_def ts_def)
qed

lemma wf_kingdoms_map: "wf_map (buildKingdomsMap n seed)"
  by (simp add: buildKingdomsMap_def Let_def wf_map_build)

lemma kingdoms_map_tiles:
  "gm_tile (buildKingdomsMap n seed) c \<noteq> None \<longleftrightarrow> tileRing c \<le> 4"
proof
  assume "tileRing c \<le> 4"
  then have "c \<in> set ALL_COORDS" by (simp add: set_ALL_COORDS)
  then obtain i where "i < 61" "c = ALL_COORDS ! i" by (auto simp: in_set_conv_nth length_ALL_COORDS)
  then show "gm_tile (buildKingdomsMap n seed) c \<noteq> None" by (simp add: gm_tile_kingdoms)
next
  define ts where "ts = seededShuffle TERRAIN_BAG seed"
  define b where "b = fold (kmap_place ts) (enumerate 0 ALL_COORDS) newMapBuilder"
  assume "gm_tile (buildKingdomsMap n seed) c \<noteq> None"
  then have "gm_tile (mb_build b) c \<noteq> None" by (simp add: buildKingdomsMap_def Let_def b_def ts_def)
  then have "c \<in> td_coord ` set (mb_tileDefs b)"
    by (auto simp: gm_tile_build map_of_eq_None_iff image_iff dest!: jget_in_set)
  then have "c \<in> snd ` set (enumerate 0 ALL_COORDS)"
    by (force simp: b_def fold_kmap_place newMapBuilder_def)
  then have "c \<in> set ALL_COORDS" by (metis list.set_map map_snd_enumerate)
  then show "tileRing c \<le> 4" by (simp add: set_ALL_COORDS)
qed

end
