(* ===== verification/KingdomsScenario.thy ===== *)
theory KingdomsScenario
  imports KingdomsContract KingdomsMap
begin

text \<open>
  The scenario object of Kingdoms of Dominion, \<open>scenario.ts\<close>, with its victory condition
  \<open>victory.ts\<close> and its setup hook, and the instance of the engine's contract on it: every
  game the factory creates satisfies the invariant, and no submission ever throws.
\<close>

section \<open>Victory (victory.ts)\<close>

definition lastPlayerStanding :: "kstate victory_condition" where
  "lastPlayerStanding =
     \<lparr>vc_id = ''last-player-standing'',
      vc_evaluate = (\<lambda>s.
        if pm_count (gs_players s) < 2 then Inr None
        else let survivors = pm_active (gs_players s)
             in if length survivors = 1
                then Inr (Some \<lparr>vr_winner = Some (pl_id (survivors ! 0)),
                                vr_reason = pl_displayName (survivors ! 0) @ '' is the last kingdom standing'',
                                vr_conditionId = ''last-player-standing''\<rparr>)
                else if length survivors = 0
                then Inr (Some \<lparr>vr_winner = None, vr_reason = ''All kingdoms fell '' @ [CHR 0xE2, CHR 0x80, CHR 0x94] @ '' the land is silent'',
                                vr_conditionId = ''last-player-standing''\<rparr>)
                else Inr None)\<rparr>"

section \<open>The setup hook (scenario.ts: onSetup)\<close>

type_synonym setup_state = "(string, string) jsmap \<times> (string, string) jsmap \<times> kstate"

definition STARTING_RESOURCES :: "(string \<times> int) list" where
  "STARTING_RESOURCES = [(''wood'', 10), (''food'', 8), (''iron'', 6), (''gold'', 30)]"

fun grantAll :: "(string \<times> int) list \<Rightarrow> (inventory, unit) effect" where
  "grantAll [] bag = (Inr (), bag)"
| "grantAll ((r, n) # rest) bag =
     (case inv_add r n bag of
        (Inl e, bag') \<Rightarrow> (Inl e, bag')
      | (Inr _, bag') \<Rightarrow> grantAll rest bag')"

definition startingPieces :: "string \<Rightarrow> string \<Rightarrow> piece list" where
  "startingPieces i tid =
     [makeUnitFromRegistry kingdomsPieces (''capital-'' @ i) ''capital-base'' i tid None
        (Some [(''hp'', PNum (case jget STRUCTURE_STATS ''capital-base'' of Some st \<Rightarrow> ss_hp st | None \<Rightarrow> 0))]),
      makeUnitFromRegistry kingdomsPieces (''sp-'' @ i @ ''-1'') ''spearman'' i tid None None,
      makeUnitFromRegistry kingdomsPieces (''sp-'' @ i @ ''-2'') ''spearman'' i tid None None,
      makeUnitFromRegistry kingdomsPieces (''noble-'' @ i @ ''-0'') ''noble'' i tid None None]"

definition setupPlayer :: "axial list \<Rightarrow> nat \<times> player \<Rightarrow> (setup_state, unit) effect" where
  "setupPlayer coords ip st =
     (case ip of (k, p) \<Rightarrow>
      case st of (ownership, capitals, s) \<Rightarrow>
        if length coords \<le> k then (Inr (), st)
        else let tid = tileId (coords ! k);
                 s1 = fold place_piece (startingPieces (pl_id p) tid) s;
                 ownership' = jput tid (pl_id p) ownership;
                 capitals' = jput (pl_id p) tid capitals
             in case jget (gs_inventories s1) (pl_id p) of
                  None \<Rightarrow> (Inl TypeError, (ownership', capitals', s1))
                | Some bag \<Rightarrow>
                    (case grantAll STARTING_RESOURCES bag of
                       (r, bag') \<Rightarrow> (r, (ownership', capitals', put_inventory (pl_id p) bag' s1))))"

fun setupPlayers :: "axial list \<Rightarrow> (nat \<times> player) list \<Rightarrow> (setup_state, unit) effect" where
  "setupPlayers coords [] st = (Inr (), st)"
| "setupPlayers coords (ip # ips) st =
     (case setupPlayer coords ip st of
        (Inl e, st') \<Rightarrow> (Inl e, st')
      | (Inr _, st') \<Rightarrow> setupPlayers coords ips st')"

definition kingdomsSetup :: "player list \<Rightarrow> (kstate, unit) effect" where
  "kingdomsSetup players s =
     (let coords = (case jget KINGDOMS_STARTING_COORDS (length players) of
                      Some cs \<Rightarrow> cs
                    | None \<Rightarrow> (case jget KINGDOMS_STARTING_COORDS 2 of Some cs \<Rightarrow> cs | None \<Rightarrow> []))
      in case setupPlayers coords (enumerate 0 players) ([], [], s) of
           (Inl e, (ownership, capitals, s')) \<Rightarrow> (Inl e, s')
         | (Inr _, (ownership, capitals, s')) \<Rightarrow>
             (Inr (), s'\<lparr>gs_extras := (gs_extras s')\<lparr>kx_ownership := Some ownership, kx_capitals := Some capitals,
                kx_nextPieceId := Some 100, kx_movedThisTurn := Some [], kx_attackedFrom := Some [],
                kx_tileLoyalty := Some [], kx_mortgagedCities := Some []\<rparr>\<rparr>))"

section \<open>The scenario object (scenario.ts)\<close>

definition kvalidator :: "string \<Rightarrow> (kstate \<Rightarrow> kaction \<Rightarrow> exn + action_error option) \<Rightarrow> (kextras, kpayload, kevent) validator" where
  "kvalidator ty f = \<lparr>va_type = ty, va_validate = f\<rparr>"

definition kexecutor :: "string \<Rightarrow> (kaction \<Rightarrow> (kstate, kevents) effect) \<Rightarrow> (kextras, kpayload, kevent) executor" where
  "kexecutor ty f = \<lparr>ex_type = ty, ex_execute = f\<rparr>"

definition kingdomsValidators :: "(kextras, kpayload, kevent) validator list" where
  "kingdomsValidators =
     [kvalidator ''recruit-unit'' recruitUnitValidator, kvalidator ''move-unit'' moveUnitValidator,
      kvalidator ''attack-tile'' attackTileValidator, kvalidator ''build-structure'' buildStructureValidator,
      kvalidator ''demolish-structure'' demolishStructureValidator, kvalidator ''develop-tile'' developTileValidator,
      kvalidator ''end-turn'' endTurnValidator]"

definition kingdomsExecutors :: "(kextras, kpayload, kevent) executor list" where
  "kingdomsExecutors =
     [kexecutor ''recruit-unit'' recruitUnitExecutor, kexecutor ''move-unit'' moveUnitExecutor,
      kexecutor ''attack-tile'' attackTileExecutor, kexecutor ''build-structure'' buildStructureExecutor,
      kexecutor ''demolish-structure'' demolishStructureExecutor, kexecutor ''develop-tile'' developTileExecutor,
      kexecutor ''end-turn'' endTurnExecutor]"

definition kingdomsScenario :: "(kextras, kpayload, kevent) scenario" where
  "kingdomsScenario =
     \<lparr>sc_id = ''kingdoms-v1'', sc_name = ''Kingdoms of Dominion'', sc_minPlayers = 2, sc_maxPlayers = 4,
      sc_terrains = kingdomsTerrains, sc_resources = kingdomsResources, sc_pieces = kingdomsPieces,
      sc_phases = [\<lparr>ph_id = ''command'', ph_displayName = ''Command'', ph_nextPhases = [''command'']\<rparr>],
      sc_initialPhaseId = ''command'', sc_turnOrder = Clockwise,
      sc_validators = kingdomsValidators, sc_executors = kingdomsExecutors, sc_rules = [],
      sc_victoryConditions = [lastPlayerStanding],
      sc_buildMap = (\<lambda>n seed. Inr (buildKingdomsMap n seed)),
      sc_onSetup = Some kingdomsSetup, sc_initialExtras = emptyExtras\<rparr>"

section \<open>The setup establishes the invariant\<close>

lemma grantAll_ok: "inv_ok bag \<Longrightarrow> \<forall>(r, n) \<in> set es. 0 \<le> n \<Longrightarrow> \<exists>bag'. grantAll es bag = (Inr (), bag') \<and> inv_ok bag'"
proof (induction es arbitrary: bag)
  case (Cons e es)
  obtain r n where e: "e = (r, n)" by (cases e)
  then have n: "0 \<le> n" using Cons.prems by simp
  have "inv_ok (jput r (inv_get bag r + n) bag)"
    using Cons.prems(1) n inv_okD [OF Cons.prems(1), of r] by (intro inv_jput_ok) auto
  with Cons e n show ?case by (simp add: inv_add_ok)
qed simp

lemma fold_place_piece: "fold place_piece ps s = s\<lparr>gs_pieces := fold (\<lambda>p. jput (pc_id p) p) ps (gs_pieces s)\<rparr>"
  by (induction ps arbitrary: s) (simp_all add: place_piece_def)

text \<open>What holds between two players of the setup loop.\<close>

definition setup_inv :: "string set \<Rightarrow> string set \<Rightarrow> (string, string) jsmap \<Rightarrow> (string, string) jsmap \<Rightarrow> (string, piece) jsmap \<Rightarrow> bool" where
  "setup_inv done' tids own caps pieces \<longleftrightarrow> board_ok own pieces \<and> territory_ok own caps done' \<and>
     set (jkeys own) = tids \<and> (\<forall>k. jget pieces (''kp-'' @ show_int k) = None)"

lemma board_ok_startingPieces:
  assumes b: "board_ok own pieces" and own: "jget own tid = Some i" and free: "\<And>j q. jget pieces j = Some q \<Longrightarrow> pc_location q \<noteq> OnTile tid"
  shows "board_ok own (fold (\<lambda>p. jput (pc_id p) p) (startingPieces i tid) pieces)"
proof -
  let ?c = "makeUnitFromRegistry kingdomsPieces (''capital-'' @ i) ''capital-base'' i tid None
        (Some [(''hp'', PNum (case jget STRUCTURE_STATS ''capital-base'' of Some st \<Rightarrow> ss_hp st | None \<Rightarrow> 0))])"
  have kinds: "''capital-base'' \<in> set STRUCTURE_KINDS" "''spearman'' \<in> set UNIT_KINDS" "''noble'' \<in> set UNIT_KINDS"
    by (simp_all add: UNIT_KINDS_eq STRUCTURE_KINDS_eq)
  have c: "piece_ok own (''capital-'' @ i) ?c"
    by (rule makeUnitFromRegistry_ok) (use own kinds in simp_all)
  have 1: "board_ok own (jput (pc_id ?c) ?c pieces)"
    unfolding makeUnitFromRegistry_sel by (rule board_ok_put [OF b c]) (use free in auto)
  have unit: "board_ok own (jput (pc_id p) p ps)"
    if "board_ok own ps" "p = makeUnitFromRegistry kingdomsPieces j k i tid None None" "k \<in> set UNIT_KINDS" "j \<noteq> []" for ps p j k
    using that own kinds_disjoint [OF that(3)] by (auto intro!: board_ok_put [OF that(1)] makeUnitFromRegistry_ok)
  show ?thesis
    unfolding startingPieces_def fold_simps comp_def id_def
    by (rule unit [OF unit [OF unit [OF 1 refl] refl] refl]) (simp_all add: kinds)
qed

lemma jget_startingPieces_kp:
  "jget (fold (\<lambda>p. jput (pc_id p) p) (startingPieces i tid) pieces) (CHR ''k'' # CHR ''p'' # x) = jget pieces (CHR ''k'' # CHR ''p'' # x)"
  by (simp add: startingPieces_def)

lemma setupPlayer_ok:
  assumes inv: "setup_inv done' tids own caps (gs_pieces s)" and k: "k < length coords"
    and fresh: "tileId (coords ! k) \<notin> tids" "pl_id p \<notin> done'" and bag: "jget (gs_inventories s) (pl_id p) \<noteq> None" and invs: "invs_ok s"
  shows "\<exists>own' caps' pieces invs'. setupPlayer coords (k, p) (own, caps, s) =
       (Inr (), (own', caps', s\<lparr>gs_pieces := pieces, gs_inventories := invs'\<rparr>)) \<and>
     setup_inv (insert (pl_id p) done') (insert (tileId (coords ! k)) tids) own' caps' pieces \<and>
     invs_ok (s\<lparr>gs_inventories := invs'\<rparr>) \<and> (\<forall>q. (jget invs' q = None) = (jget (gs_inventories s) q = None))"
proof -
  define tid where "tid = tileId (coords ! k)"
  define i where "i = pl_id p"
  obtain b0 where b0: "jget (gs_inventories s) i = Some b0" using bag by (auto simp: i_def)
  have "\<forall>(r, n) \<in> set STARTING_RESOURCES. 0 \<le> n" by (simp add: STARTING_RESOURCES_def)
  from grantAll_ok [OF invs_okD [OF invs b0] this] obtain b1 where b1: "grantAll STARTING_RESOURCES b0 = (Inr (), b1)" "inv_ok b1" by blast
  let ?pieces = "fold (\<lambda>p. jput (pc_id p) p) (startingPieces i tid) (gs_pieces s)"
  have b: "board_ok own (gs_pieces s)" and t: "territory_ok own caps done'" and keys: "set (jkeys own) = tids"
    and kp: "\<forall>k. jget (gs_pieces s) (''kp-'' @ show_int k) = None"
    using inv by (simp_all add: setup_inv_def)
  have new: "jget own tid = None" using fresh(1) keys unfolding tid_def by (metis map_of_eq_None_iff list.set_map)
  have free: "pc_location q \<noteq> OnTile tid" if "jget (gs_pieces s) j = Some q" for j q
    using board_okD [OF b that] new by (auto simp: piece_ok_def)
  have "board_ok (jput tid i own) ?pieces"
    by (rule board_ok_startingPieces [OF board_ok_empty_tile [OF b free]]) (use free in auto)
  moreover have "territory_ok (jput tid i own) (jput i tid caps) (insert i done')"
  proof (rule territory_okI)
    show "distinct (jkeys (jput tid i own))" using territory_okD(1) [OF t] by (rule distinct_jput)
    show "w \<in> insert i done'" if "jget (jput tid i own) x = Some w" for x w
      using that territory_okD(2) [OF t, of x w] by (cases "x = tid") auto
    fix w assume w: "w \<in> insert i done'"
    show "\<exists>t. jget (jput i tid caps) w = Some t \<and> t \<noteq> [] \<and> jget (jput tid i own) t = Some w"
    proof (cases "w = i")
      case True
      then show ?thesis by (simp add: tid_def tileId_def)
    next
      case False
      with w obtain c where "jget caps w = Some c" "c \<noteq> []" "jget own c = Some w" using territory_okD(3) [OF t] by blast
      with False new show ?thesis by (intro exI [of _ c]) auto
    qed
  qed
  moreover have "set (jkeys (jput tid i own)) = insert tid tids" by (simp only: jkeys_jput keys)
  ultimately have "setup_inv (insert i done') (insert tid tids) (jput tid i own) (jput i tid caps) ?pieces"
    using kp unfolding setup_inv_def by (simp add: jget_startingPieces_kp)
  moreover have "setupPlayer coords (k, p) (own, caps, s) =
      (Inr (), (jput tid i own, jput i tid caps, s\<lparr>gs_pieces := ?pieces, gs_inventories := jput i b1 (gs_inventories s)\<rparr>))"
    using k b0 b1 by (simp add: setupPlayer_def Let_def fold_place_piece put_inventory_def i_def tid_def)
  moreover have "invs_ok (s\<lparr>gs_inventories := jput i b1 (gs_inventories s)\<rparr>)" using invs b1 by (simp add: invs_ok_def)
  ultimately show ?thesis using b0 unfolding i_def [symmetric] tid_def [symmetric]
    by (intro exI conjI) (assumption, assumption, assumption, simp)
qed

lemma setupPlayers_ok:
  assumes "setup_inv done' (tileId ` (\<lambda>j. coords ! j) ` {..<n}) own caps (gs_pieces s)" "invs_ok s"
    "n + length ps \<le> length coords" "distinct coords" "distinct (map pl_id ps)" "\<forall>p \<in> set ps. pl_id p \<notin> done'"
    "\<forall>p \<in> set ps. jget (gs_inventories s) (pl_id p) \<noteq> None"
  shows "\<exists>own' caps' pieces invs'. setupPlayers coords (enumerate n ps) (own, caps, s) =
       (Inr (), (own', caps', s\<lparr>gs_pieces := pieces, gs_inventories := invs'\<rparr>)) \<and>
     setup_inv (done' \<union> pl_id ` set ps) (tileId ` (\<lambda>j. coords ! j) ` {..<n + length ps}) own' caps' pieces \<and>
     invs_ok (s\<lparr>gs_inventories := invs'\<rparr>) \<and> (\<forall>q. (jget invs' q = None) = (jget (gs_inventories s) q = None))"
  using assms
proof (induction ps arbitrary: n done' own caps s)
  case Nil
  then show ?case by (intro exI [of _ own] exI [of _ caps] exI [of _ "gs_pieces s"] exI [of _ "gs_inventories s"]) simp
next
  case (Cons p ps)
  have n: "n < length coords" using Cons.prems(3) by simp
  have "coords ! n \<notin> (\<lambda>j. coords ! j) ` {..<n}" using Cons.prems(4) n by (auto simp: distinct_conv_nth)
  then have fresh: "tileId (coords ! n) \<notin> tileId ` (\<lambda>j. coords ! j) ` {..<n}" by auto
  obtain own' caps' pieces invs' where 1: "setupPlayer coords (n, p) (own, caps, s) =
       (Inr (), (own', caps', s\<lparr>gs_pieces := pieces, gs_inventories := invs'\<rparr>))"
     "setup_inv (insert (pl_id p) done') (insert (tileId (coords ! n)) (tileId ` (\<lambda>j. coords ! j) ` {..<n})) own' caps' pieces"
     "invs_ok (s\<lparr>gs_inventories := invs'\<rparr>)" "\<forall>q. (jget invs' q = None) = (jget (gs_inventories s) q = None)"
    using setupPlayer_ok [OF Cons.prems(1) n fresh _ _ Cons.prems(2), of p] Cons.prems(6,7) by auto
  let ?s = "s\<lparr>gs_pieces := pieces, gs_inventories := invs'\<rparr>"
  have i1: "setup_inv (insert (pl_id p) done') (tileId ` (\<lambda>j. coords ! j) ` {..<Suc n}) own' caps' (gs_pieces ?s)"
    using 1(2) by (simp add: lessThan_Suc)
  have i2: "invs_ok ?s" using 1(3) by (simp add: invs_ok_def)
  have i3: "\<forall>q \<in> set ps. pl_id q \<notin> insert (pl_id p) done'"
    using Cons.prems(5,6) by (force simp: image_iff)
  have i4: "\<forall>q \<in> set ps. jget (gs_inventories ?s) (pl_id q) \<noteq> None" using Cons.prems(7) 1(4) by simp
  have i5: "Suc n + length ps \<le> length coords" "distinct (map pl_id ps)" using Cons.prems(3,5) by simp_all
  from Cons.IH [OF i1 i2 i5(1) Cons.prems(4) i5(2) i3 i4] obtain own2 caps2 pieces2 invs2 where
    "setupPlayers coords (enumerate (Suc n) ps) (own', caps', ?s) =
       (Inr (), (own2, caps2, s\<lparr>gs_pieces := pieces2, gs_inventories := invs2\<rparr>))"
    "setup_inv (insert (pl_id p) done' \<union> pl_id ` set ps) (tileId ` (\<lambda>j. coords ! j) ` {..<Suc n + length ps}) own2 caps2 pieces2"
    "invs_ok (s\<lparr>gs_inventories := invs2\<rparr>)" "\<forall>q. (jget invs2 q = None) = (jget (gs_inventories s) q = None)"
    using 1(4) by (auto simp: invs_ok_def)
  with 1(1) show ?case by (intro exI [of _ own2] exI [of _ caps2] exI [of _ pieces2] exI [of _ invs2]) simp
qed

lemma starting_coords:
  "2 \<le> n \<Longrightarrow> n \<le> 4 \<Longrightarrow> \<exists>cs. jget KINGDOMS_STARTING_COORDS n = Some cs \<and> length cs = n \<and> distinct cs"
proof -
  assume "2 \<le> n" "n \<le> 4"
  then have "n = 2 \<or> n = 3 \<or> n = 4" by linarith
  then show ?thesis by (elim disjE) (simp_all add: KINGDOMS_STARTING_COORDS_def)
qed

lemma kingdoms_create:
  assumes r: "roster_ok ps"
  shows "\<exists>s. createGameState gid kingdomsScenario ps seed = Inr s \<and> kingdoms_ok s \<and> gs_status s = Setup \<and> gs_history s = [] \<and>
    gs_players s = newPlayerManager ps"
proof -
  have n: "2 \<le> length ps" "length ps \<le> 4" and ids: "distinct (map pl_id ps)" "[] \<notin> pl_id ` set ps"
    using r by (simp_all add: roster_ok_def)
  obtain p where "p \<in> set ps" "is_active p" using r by (auto simp: roster_ok_def list_ex_iff)
  then have "pl_id p \<in> set (turn_initial ps)" by (simp add: turn_initial_def set_activeSorted)
  then obtain first rest where first: "turn_initial ps = first # rest" by (cases "turn_initial ps") auto
  then have "first \<in> set (turn_initial ps)" by simp
  then have mem: "first \<in> pl_id ` set ps" by (auto simp: turn_initial_def set_activeSorted)
  define rounds :: "turn_order round_manager" where
    "rounds = \<lparr>currentRound = 1, currentTurn = \<lparr>turnNumber = 1, activePlayer = first, currentPhaseId = ''command'', flags = []\<rparr>,
       rm_phases = [(''command'', \<lparr>ph_id = ''command'', ph_displayName = ''Command'', ph_nextPhases = [''command'']\<rparr>)], rm_turnOrder = Clockwise\<rparr>"
  have rounds: "newRoundManager ps (sc_turnOrder kingdomsScenario) (sc_phases kingdomsScenario) (sc_initialPhaseId kingdomsScenario) = Inr rounds"
    using first by (simp add: newRoundManager_def Let_def kingdomsScenario_def jhas_def rounds_def)
  define s0 where "s0 = initial_state gid kingdomsScenario ps seed (buildKingdomsMap (length ps) seed) rounds"
  have s0: "gs_pieces s0 = []" "gs_inventories s0 = fold (\<lambda>p. jput (pl_id p) []) ps []" "gs_map s0 = buildKingdomsMap (length ps) seed"
    "gs_players s0 = newPlayerManager ps" "gs_rounds s0 = rounds" "gs_status s0 = Setup" "gs_history s0 = []" "gs_extras s0 = emptyExtras"
    by (simp_all add: s0_def initial_state_def newInventory_def kingdomsScenario_def)
  obtain coords where c: "jget KINGDOMS_STARTING_COORDS (length ps) = Some coords" "length coords = length ps" "distinct coords"
    using starting_coords [OF n] by blast
  have inv0: "jget (gs_inventories s0) i = (if i \<in> pl_id ` set ps then Some [] else None)" for i
    by (simp add: s0 jget_fold_inventories)
  have h1: "setup_inv {} (tileId ` (\<lambda>j. coords ! j) ` {..<0}) [] [] (gs_pieces s0)"
    by (simp add: setup_inv_def board_ok_def territory_ok_def s0)
  have h2: "invs_ok s0" by (simp add: invs_ok_def inv0)
  have h3: "0 + length ps \<le> length coords" using c(2) by simp
  have h4: "\<forall>p \<in> set ps. pl_id p \<notin> {}" "\<forall>p \<in> set ps. jget (gs_inventories s0) (pl_id p) \<noteq> None" by (simp_all add: inv0)
  obtain own caps pieces invs where su: "setupPlayers coords (enumerate 0 ps) ([], [], s0) =
       (Inr (), (own, caps, s0\<lparr>gs_pieces := pieces, gs_inventories := invs\<rparr>))"
     "setup_inv ({} \<union> pl_id ` set ps) (tileId ` (\<lambda>j. coords ! j) ` {..<0 + length ps}) own caps pieces"
     "invs_ok (s0\<lparr>gs_inventories := invs\<rparr>)" "\<forall>q. (jget invs q = None) = (jget (gs_inventories s0) q = None)"
    using setupPlayers_ok [OF h1 h2 h3 c(3) ids(1) h4] by blast
  define s where "s = s0\<lparr>gs_pieces := pieces, gs_inventories := invs,
      gs_extras := emptyExtras\<lparr>kx_ownership := Some own, kx_capitals := Some caps, kx_nextPieceId := Some 100, kx_movedThisTurn := Some [],
        kx_attackedFrom := Some [], kx_tileLoyalty := Some [], kx_mortgagedCities := Some []\<rparr>\<rparr>"
  have run: "kingdomsSetup ps s0 = (Inr (), s)"
    using c su(1) by (simp add: kingdomsSetup_def s_def s0)
  have create: "createGameState gid kingdomsScenario ps seed = Inr s"
  proof -
    have k: "sc_minPlayers kingdomsScenario = 2" "sc_maxPlayers kingdomsScenario = 4" "sc_onSetup kingdomsScenario = Some kingdomsSetup"
      "sc_buildMap kingdomsScenario (length ps) seed = Inr (buildKingdomsMap (length ps) seed)" by (simp_all add: kingdomsScenario_def)
    have "\<not> (int (length ps) < 2 \<or> int (length ps) > 4)" using n by linarith
    then show ?thesis using run unfolding createGameState_def k rounds sum.case Let_def s0_def by simp
  qed
  have pw: "pm_wf (newPlayerManager ps)" by (rule pm_wf_new [OF ids(1)])
  have seated: "pl_id ` set (pm_bySeat (newPlayerManager ps)) = pl_id ` set ps"
    by (simp add: newPlayerManager_def Let_def image_image)
  have act: "active_ids (pm_bySeat (newPlayerManager ps)) = pl_id ` set ps"
  proof -
    have "{p \<in> set (pm_bySeat (newPlayerManager ps)). is_active p} = set (pm_bySeat (newPlayerManager ps))"
      using all_active_new by blast
    then show ?thesis by (simp only: active_ids_def seated)
  qed
  have pl: "players_ok (newPlayerManager ps) invs first"
  proof -
    have "pl_id q \<noteq> [] \<and> jget invs (pl_id q) \<noteq> None" if "q \<in> set (pm_bySeat (newPlayerManager ps))" for q
    proof -
      have "pl_id q \<in> pl_id ` set ps" using that seated by blast
      then show ?thesis using ids(2) su(4) inv0 by auto
    qed
    then show ?thesis using pw seated mem by (simp add: players_ok_def)
  qed
  have "kingdoms_ok s"
    using su(2,3) pl act
    by (simp add: kingdoms_ok_def s_def s0 wf_kingdoms_map setup_inv_def fresh_ids_def loyalty_ok_def invs_ok_def extras_defs rounds_def)
  with create show ?thesis by (simp add: s_def s0)
qed

section \<open>The contract holds\<close>

definition kingdoms_vs :: "(kextras, kpayload, kevent) validator_registry" where
  "kingdoms_vs = map (\<lambda>v. (va_type v, v)) kingdomsValidators"

definition kingdoms_xs :: "(kextras, kpayload, kevent) executor_registry" where
  "kingdoms_xs = map (\<lambda>x. (ex_type x, x)) kingdomsExecutors"

lemma register_kingdoms_validators: "validators.register_all kingdomsValidators [] = Inr kingdoms_vs"
  by (simp add: kingdomsValidators_def kvalidator_def kingdoms_vs_def registerValidator_def reg_insert_def jhas_def)

lemma register_kingdoms_executors: "executors.register_all kingdomsExecutors [] = Inr kingdoms_xs"
  by (simp add: kingdomsExecutors_def kexecutor_def kingdoms_xs_def registerExecutor_def reg_insert_def jhas_def)

lemma newGame_kingdoms:
  "newGame s kingdomsScenario =
     Inr \<lparr>g_state = s, g_events = newEmitter, g_validators = kingdoms_vs, g_executors = kingdoms_xs, g_rules = [],
          g_victories = [lastPlayerStanding], g_machine = gs_status s\<rparr>"
  by (simp add: newGame_def kingdomsScenario_def register_kingdoms_validators register_kingdoms_executors victories_add_def)

lemma kingdoms_lookup:
  assumes "getValidator kingdoms_vs ty = Some v"
  obtains x where "getExecutor kingdoms_xs ty = Some x" "\<And>s a. kingdoms_ok s \<Longrightarrow> va_validate v s a = accept \<Longrightarrow> executes (ex_execute x a) s"
    "\<And>s a. kingdoms_ok s \<Longrightarrow> \<exists>r. va_validate v s a = Inr r"
proof -
  have known: "requirePiece kingdomsPieces k \<noteq> Inl e" if "k \<in> set UNIT_KINDS \<or> k \<in> set STRUCTURE_KINDS" for k e
    using requirePiece_known [OF that] by auto
  have build: "k \<in> set BUILDABLE_STRUCTURES \<Longrightarrow> k \<in> set STRUCTURE_KINDS" for k
    by (auto simp: BUILDABLE_STRUCTURES_eq STRUCTURE_KINDS_eq)
  have total: "\<exists>r. recruitUnitValidator s a = Inr r" "\<exists>r. moveUnitValidator s a = Inr r"
     "\<exists>r. buildStructureValidator s a = Inr r" "\<exists>r. demolishStructureValidator s a = Inr r"
     "\<exists>r. developTileValidator s a = Inr r" "\<exists>r. endTurnValidator s a = Inr r" for s a
    using known build
    by (auto simp: recruitUnitValidator_def moveUnitValidator_def buildStructureValidator_def demolishStructureValidator_def
        developTileValidator_def endTurnValidator_def Let_def split: option.splits sum.splits)
  have attack: "\<exists>r. attackTileValidator s a = Inr r" if "kingdoms_ok s" for s a
  proof -
    have "distinct (jkeys (gs_pieces s))" using that by (simp add: kingdoms_ok_def board_ok_def)
    from unitsOnTile_mem [OF this] show ?thesis
      by (auto simp: attackTileValidator_def Let_def list_all_iff split: option.splits)
  qed
  show ?thesis
    using assms that attack total recruit_executes move_executes attack_executes build_executes demolish_executes develop_executes endTurn_executes
    by (auto simp: getValidator_def kingdoms_vs_def kingdomsValidators_def kvalidator_def getExecutor_def kingdoms_xs_def
        kingdomsExecutors_def kexecutor_def split: if_splits)
qed

interpretation kingdoms: action_system kingdoms_vs kingdoms_xs "[]" "[lastPlayerStanding]" kingdoms_ok
proof
  fix s :: kstate and a :: kaction and es h st
  assume ok': "kingdoms_ok s"
  show "\<exists>r. validate_action kingdoms_vs s a = Inr r"
  proof (cases "getValidator kingdoms_vs (ac_type a)")
    case (Some v)
    show ?thesis by (rule kingdoms_lookup [OF Some]) (simp add: validate_action_def Some ok')
  qed (simp add: validate_action_def)
  show "\<exists>fs. process_all [] s es = Inr fs" by simp
  show "\<exists>v. evaluate_victory [lastPlayerStanding] s = Inr v"
    by (auto simp: lastPlayerStanding_def Let_def split: sum.splits option.splits)
  assume acc: "validate_action kingdoms_vs s a = accept"
  then obtain v where v: "getValidator kingdoms_vs (ac_type a) = Some v" "va_validate v s a = accept"
    by (auto simp: validate_action_def split: option.splits)
  from v(1) obtain x where "getExecutor kingdoms_xs (ac_type a) = Some x" "executes (ex_execute x a) s"
    using ok' v(2) by (elim kingdoms_lookup) blast
  then show "\<exists>es s'. execute_action kingdoms_xs a s = (Inr es, s') \<and> kingdoms_ok s' \<and> gs_status s' = gs_status s \<and> gs_history s' = gs_history s"
    by (simp add: execute_action_def executes_def)
next
  fix s :: kstate and h st
  show "kingdoms_ok (s\<lparr>gs_history := h\<rparr>) = kingdoms_ok s" by (simp add: kingdoms_ok_def extras_defs invs_ok_def)
  show "kingdoms_ok (s\<lparr>gs_status := st\<rparr>) = kingdoms_ok s" by (simp add: kingdoms_ok_def extras_defs invs_ok_def)
qed

end
