(* ===== verification/KingdomsExample.thy ===== *)
theory KingdomsExample
  imports KingdomsScenario
begin

text \<open>
  A small position of Kingdoms of Dominion that satisfies the invariant: three mutually adjacent
  tiles, two players, and a siege about to succeed. The witnesses of the properties evaluate the
  model on it.
\<close>

definition exPlayer :: "string \<Rightarrow> int \<Rightarrow> player" where
  "exPlayer i seat = \<lparr>pl_id = i, pl_displayName = i, pl_color = ''red'', pl_seat = seat, pl_status = None\<rparr>"

definition exRoster :: "player list" where
  "exRoster = [exPlayer ''alice'' 0, exPlayer ''bob'' 1]"

definition exMap :: game_map where
  "exMap = mb_build (mb_addTile (axial 1 0) ''hills'' None
             (mb_addTile (axial 0 1) ''forest'' None (mb_addTile (axial 0 0) ''plains'' None newMapBuilder)))"

definition exBag :: inventory where
  "exBag = [(''wood'', 10), (''food'', 8), (''iron'', 6), (''gold'', 30)]"

definition exPiece :: "string \<Rightarrow> string \<Rightarrow> string \<Rightarrow> axial \<Rightarrow> string \<times> piece" where
  "exPiece i kind owner c = (i, makeUnitFromRegistry kingdomsPieces i kind owner (tileId c) None None)"

definition exPieces :: "(string, piece) jsmap" where
  "exPieces = [exPiece ''capital-alice'' ''capital-base'' ''alice'' (axial 0 0),
     exPiece ''sp-alice-1'' ''spearman'' ''alice'' (axial 0 0),
     exPiece ''noble-alice-0'' ''noble'' ''alice'' (axial 0 0),
     exPiece ''capital-bob'' ''capital-base'' ''bob'' (axial 1 0)]"

definition exOwnership :: "(string, string) jsmap" where
  "exOwnership = [(tileId (axial 0 0), ''alice''), (tileId (axial 0 1), ''alice''), (tileId (axial 1 0), ''bob'')]"

definition exCapitals :: "(string, string) jsmap" where
  "exCapitals = [(''alice'', tileId (axial 0 0)), (''bob'', tileId (axial 1 0))]"

definition exRounds :: "turn_order round_manager" where
  "exRounds = \<lparr>currentRound = 1, currentTurn = \<lparr>turnNumber = 1, activePlayer = ''alice'', currentPhaseId = ''command'', flags = []\<rparr>,
     rm_phases = [], rm_turnOrder = Clockwise\<rparr>"

definition exState :: kstate where
  "exState = \<lparr>gs_gameId = ''g'', gs_scenarioId = ''kingdoms-v1'', gs_status = Playing, gs_map = exMap,
     gs_players = newPlayerManager exRoster, gs_inventories = [(''alice'', exBag), (''bob'', exBag)],
     gs_bank = [], gs_decks = [], gs_hands = [], gs_pieces = exPieces, gs_rounds = exRounds,
     gs_rng = newSeededRandom 7, gs_history = [],
     gs_extras = \<lparr>kx_ownership = Some exOwnership, kx_capitals = Some exCapitals, kx_nextPieceId = Some 100,
       kx_movedThisTurn = Some [], kx_attackedFrom = Some [],
       kx_tileLoyalty = Some [(tileId (axial 1 0), \<lparr>tl_loyalty = 40, tl_lastAttackerId = ''alice''\<rparr>)],
       kx_mortgagedCities = Some [], kx_developed = None\<rparr>\<rparr>"

definition exPayload :: kpayload where
  "exPayload = \<lparr>kp_tileId = tileId (axial 0 0), kp_unitKind = ''spearman'', kp_structureKind = ''farm'',
     kp_pieceId = ''sp-alice-1'', kp_targetTileId = tileId (axial 0 1), kp_fromTileId = tileId (axial 0 0),
     kp_toTileId = tileId (axial 1 0), kp_unitIds = None\<rparr>"

definition exAction :: "string \<Rightarrow> kpayload \<Rightarrow> kaction" where
  "exAction ty p = \<lparr>ac_type = ty, ac_playerId = Some ''alice'', ac_payload = p, ac_clientSeq = None\<rparr>"

section \<open>The position satisfies the invariant\<close>

lemma exState_sel [simp]:
  "gs_map exState = exMap" "gs_players exState = newPlayerManager exRoster"
  "gs_inventories exState = [(''alice'', exBag), (''bob'', exBag)]" "gs_pieces exState = exPieces"
  "gs_rounds exState = exRounds" "gs_status exState = Playing" "gs_history exState = []"
  "getOwnership exState = exOwnership" "getCapitals exState = exCapitals" "getAttackedFrom exState = []"
  "getMovedThisTurn exState = []" "kx_mortgagedCities (gs_extras exState) = Some []" "kx_nextPieceId (gs_extras exState) = Some 100"
  "getTileLoyalty exState = [(tileId (axial 1 0), \<lparr>tl_loyalty = 40, tl_lastAttackerId = ''alice''\<rparr>)]"
  "getDeveloped exState = []"
  by (simp_all add: exState_def extras_defs getDeveloped_def)

lemma exAction_sel [simp]:
  "ac_type (exAction ty p) = ty" "ac_payload (exAction ty p) = p" "actor (exAction ty p) = ''alice''"
  "ac_playerId (exAction ty p) = Some ''alice''"
  by (simp_all add: exAction_def actor_def)

lemma exPiece_kinds: "''capital-base'' \<in> set STRUCTURE_KINDS" "''spearman'' \<in> set UNIT_KINDS" "''noble'' \<in> set UNIT_KINDS"
  by (simp_all add: UNIT_KINDS_eq STRUCTURE_KINDS_eq)

lemma exPieces_eq:
  "exPieces = [(''capital-alice'', snd (exPiece ''capital-alice'' ''capital-base'' ''alice'' (axial 0 0))),
     (''sp-alice-1'', snd (exPiece ''sp-alice-1'' ''spearman'' ''alice'' (axial 0 0))),
     (''noble-alice-0'', snd (exPiece ''noble-alice-0'' ''noble'' ''alice'' (axial 0 0))),
     (''capital-bob'', snd (exPiece ''capital-bob'' ''capital-base'' ''bob'' (axial 1 0)))]"
  by (simp add: exPieces_def exPiece_def)

lemma exPiece_sel [simp]:
  "pc_id (snd (exPiece i k w c)) = i" "pc_kind (snd (exPiece i k w c)) = k" "pc_owner (snd (exPiece i k w c)) = w"
  "pc_location (snd (exPiece i k w c)) = OnTile (tileId c)"
  by (simp_all add: exPiece_def)

lemma exPiece_ok:
  "k \<in> set UNIT_KINDS \<or> k \<in> set STRUCTURE_KINDS \<Longrightarrow> i \<noteq> [] \<Longrightarrow> jget own (tileId c) = Some w \<Longrightarrow> piece_ok own i (snd (exPiece i k w c))"
  unfolding exPiece_def snd_conv by (rule makeUnitFromRegistry_ok)

lemma tileId_nonempty: "tileId c \<noteq> []"
  by (simp add: tileId_def)

lemma exPieces_mem:
  assumes "jget exPieces i = Some p"
  obtains "i = ''capital-alice''" "p = snd (exPiece ''capital-alice'' ''capital-base'' ''alice'' (axial 0 0))"
  | "i = ''sp-alice-1''" "p = snd (exPiece ''sp-alice-1'' ''spearman'' ''alice'' (axial 0 0))"
  | "i = ''noble-alice-0''" "p = snd (exPiece ''noble-alice-0'' ''noble'' ''alice'' (axial 0 0))"
  | "i = ''capital-bob''" "p = snd (exPiece ''capital-bob'' ''capital-base'' ''bob'' (axial 1 0))"
  using assms unfolding exPieces_eq map_of.simps fst_conv snd_conv fun_upd_apply by (metis option.distinct(1) option.inject)

lemma exPiece_kinds_not: "''spearman'' \<notin> set STRUCTURE_KINDS" "''noble'' \<notin> set STRUCTURE_KINDS"
  by (simp_all add: STRUCTURE_KINDS_eq)

lemma exOwnership_get [simp]:
  "jget exOwnership (tileId (axial 0 0)) = Some ''alice''" "jget exOwnership (tileId (axial 0 1)) = Some ''alice''"
  "jget exOwnership (tileId (axial 1 0)) = Some ''bob''"
  by (simp_all add: exOwnership_def)

lemma exBoard_ok: "board_ok exOwnership exPieces"
proof -
  have piece: "piece_ok exOwnership i p" if "jget exPieces i = Some p" for i p
    using that by (cases rule: exPieces_mem) (auto intro!: exPiece_ok simp: exPiece_kinds)
  have built: "(i, pc_location p) \<in> {(''capital-alice'', OnTile (tileId (axial 0 0))), (''capital-bob'', OnTile (tileId (axial 1 0)))}"
    if "jget exPieces i = Some p" "pc_kind p \<in> set STRUCTURE_KINDS" for i p
    using that by (cases rule: exPieces_mem) (simp_all add: exPiece_kinds_not)
  have one: "i = j" if "jget exPieces i = Some p" "jget exPieces j = Some q" "pc_kind p \<in> set STRUCTURE_KINDS"
      "pc_kind q \<in> set STRUCTURE_KINDS" "pc_location p = pc_location q" for i j p q
    using built [OF that(1,3)] built [OF that(2,4)] that(5) by auto
  have "distinct (jkeys exPieces)" by (simp add: exPieces_eq)
  then show ?thesis unfolding board_ok_def using piece one by blast
qed

lemma exRoster_ok: "roster_ok exRoster"
  by (simp add: roster_ok_def exRoster_def exPlayer_def is_active_def)

lemma exPlayers: "pm_bySeat (newPlayerManager exRoster) = map (\<lambda>p. p\<lparr>pl_status := Some Active\<rparr>) exRoster"
  by (simp add: newPlayerManager_def Let_def exRoster_def exPlayer_def)

lemma exActive: "active_ids (pm_bySeat (newPlayerManager exRoster)) = {''alice'', ''bob''}"
proof -
  have "active_ids ps = set (map pl_id (filter is_active ps))" for ps by (auto simp: active_ids_def)
  moreover have "map pl_id (filter is_active (map (\<lambda>p. p\<lparr>pl_status := Some Active\<rparr>) exRoster)) = [''alice'', ''bob'']"
    by (simp add: exRoster_def exPlayer_def is_active_def)
  ultimately show ?thesis unfolding exPlayers by (simp only: list.set)
qed

lemma exState_ok: "kingdoms_ok exState"
proof -
  have "wf_map exMap" unfolding exMap_def by (rule wf_map_build)
  moreover have "invs_ok exState" by (auto simp: invs_ok_def exBag_def inv_ok_def inv_get_def split: if_splits)
  moreover have "players_ok (newPlayerManager exRoster) [(''alice'', exBag), (''bob'', exBag)] ''alice''"
  proof -
    have "pm_wf (newPlayerManager exRoster)" by (rule pm_wf_new) (simp add: exRoster_def exPlayer_def)
    then show ?thesis by (simp add: players_ok_def exPlayers) (simp add: exRoster_def exPlayer_def)
  qed
  moreover have "territory_ok exOwnership exCapitals {''alice'', ''bob''}"
  proof (rule territory_okI)
    show "distinct (jkeys exOwnership)" by (simp add: exOwnership_def)
    show "w \<in> {''alice'', ''bob''}" if "jget exOwnership t = Some w" for t w
      using that by (auto simp: exOwnership_def split: if_splits)
    show "\<exists>t. jget exCapitals w = Some t \<and> t \<noteq> [] \<and> jget exOwnership t = Some w" if "w \<in> {''alice'', ''bob''}" for w
      using that by (auto simp: exCapitals_def tileId_nonempty)
  qed
  moreover have "fresh_ids (Some 100) exPieces" by (auto simp: fresh_ids_def exPieces_eq)
  moreover have "loyalty_ok [(tileId (axial 1 0), \<lparr>tl_loyalty = 40, tl_lastAttackerId = ''alice''\<rparr>)]" by (simp add: loyalty_ok_def)
  ultimately show ?thesis using exBoard_ok by (simp add: kingdoms_ok_def exActive) (simp add: exRounds_def)
qed

lemma exEliminated: "\<not> isEliminated (newPlayerManager exRoster) ''alice''"
proof -
  have "pm_wf (newPlayerManager exRoster)" by (rule pm_wf_new) (simp add: exRoster_def exPlayer_def)
  from isEliminated_iff [OF this] show ?thesis using all_active_new by blast
qed

lemma exGuard: "guardActivePlayer exState (Some ''alice'') = None"
  by (simp add: guard_None exEliminated) (simp add: exRounds_def)

lemma exConnected: "isConnected (tileId (axial 0 0)) (connectedTiles exState ''alice'')"
proof -
  have "distinct (jkeys (getOwnership exState))" by (simp add: exOwnership_def)
  from set_connectedTiles [OF this] show ?thesis
    by (simp add: isConnected_def supplied_def) (simp add: exCapitals_def tileId_nonempty)
qed

lemma exAdjacent: "isAdjacent exMap (tileId (axial 0 0)) (tileId (axial 1 0))"
  by (simp add: isAdjacent_def exMap_def mb_build_def mb_addTile_def newMapBuilder_def emptyMap_def gm_addTile_def
      tileById_def neighboursOf_def isNeighbour_def build_tile_def)

lemma exUnits: "unitsOnTile exState (tileId (axial 0 0)) (Some ''alice'') (Some UNIT_KINDS) = [''sp-alice-1'', ''noble-alice-0'']"
  "unitsOnTile exState (tileId (axial 0 0)) (Some ''alice'') (Some COMBAT_UNIT_KINDS) = [''sp-alice-1'']"
  by (simp_all add: unitsOnTile_def exPieces_eq UNIT_KINDS_eq COMBAT_UNIT_KINDS_eq)

lemma exAttack_accepted: "attackTileValidator exState (exAction ''attack-tile'' exPayload) = accept"
  using exGuard exConnected exAdjacent exUnits
  by (simp add: attackTileValidator_def exPayload_def Let_def)

lemma exEndTurn_accepted: "endTurnValidator exState (exAction ''end-turn'' exPayload) = accept"
  using exGuard by (simp add: endTurnValidator_def)

end
