(* ===== verification/KingdomsProperties.thy ===== *)
theory KingdomsProperties
  imports KingdomsExample
begin

text \<open>
  The properties of Kingdoms of Dominion that span its components: what every game the factory
  creates does, from the first to the last action, and what an attack, a round end and the map
  generator guarantee.
\<close>

section \<open>Whole games\<close>

lemma lastPlayerStanding_fires:
  "evaluate_victory [lastPlayerStanding] s \<noteq> Inr None \<longleftrightarrow> 2 \<le> pm_count (gs_players s) \<and> length (pm_active (gs_players s)) < 2"
  by (auto simp: lastPlayerStanding_def Let_def less_2_cases_iff)

lemma kingdoms_open:
  assumes "roster_ok ps" "gs_players s = newPlayerManager ps"
  shows "evaluate_victory [lastPlayerStanding] (s\<lparr>gs_status := st\<rparr>) = Inr None"
proof -
  have "pm_active (newPlayerManager ps) = pm_bySeat (newPlayerManager ps)"
    using all_active_new by (auto simp: pm_active_def filter_id_conv)
  moreover have "length (pm_bySeat (newPlayerManager ps)) = length ps" by (simp add: newPlayerManager_def Let_def)
  ultimately have "\<not> length (pm_active (gs_players (s\<lparr>gs_status := st\<rparr>))) < 2" using assms by (simp add: roster_ok_def)
  then show ?thesis using lastPlayerStanding_fires by blast
qed

lemma kingdoms_host_play:
  assumes "roster_ok ps"
  obtains rs g' where "host_play ck gid kingdomsScenario ps seed as = Inr (rs, g')"
    "game_loaded kingdoms_vs kingdoms_xs [] [lastPlayerStanding] kingdoms_ok g'"
    "g_machine g' = Playing \<or> g_machine g' = Ended"
    "g_machine g' = Ended \<longleftrightarrow> evaluate_victory [lastPlayerStanding] (g_state g'\<lparr>gs_status := Playing\<rparr>) \<noteq> Inr None"
proof -
  obtain s where s: "createGameState gid kingdomsScenario ps seed = Inr s" "kingdoms_ok s" "gs_status s = Setup" "gs_history s = []"
    "gs_players s = newPlayerManager ps" using kingdoms_create [OF assms] by blast
  obtain g where g: "newGame s kingdomsScenario = Inr g" "g_validators g = kingdoms_vs" "g_executors g = kingdoms_xs"
    "g_rules g = []" "g_victories g = [lastPlayerStanding]" "kingdoms_ok (g_state g)" "g_machine g = Setup" "g_state g = s"
    using s newGame_kingdoms [of s] by auto
  from kingdoms.start_total [OF g(2-7), of ck as] g(8) s(4) kingdoms_open [OF assms s(5)] obtain rs g' where
    "play ck as (game_start g) = (Inr rs, g')" "game_loaded kingdoms_vs kingdoms_xs [] [lastPlayerStanding] kingdoms_ok g'"
    "g_machine g' = Playing \<or> g_machine g' = Ended"
    "g_machine g' = Ended \<longleftrightarrow> evaluate_victory [lastPlayerStanding] (g_state g'\<lparr>gs_status := Playing\<rparr>) \<noteq> Inr None"
    by auto
  with s(1) g(1) show ?thesis by (intro that [of rs g']) (simp_all add: host_play_def)
qed

text \<open> C1: A game of Kingdoms of Dominion never throws: for every legal roster, seed and sequence of
  submitted actions, creating, starting and playing the game returns, and the state it leaves
  satisfies the invariant with a correctly numbered journal. \<close>
theorem kingdoms_never_throws:
  assumes "roster_ok ps"
  shows "\<exists>rs g'. host_play ck gid kingdomsScenario ps seed as = Inr (rs, g') \<and> kingdoms_ok (g_state g') \<and>
    history_wf (gs_history (g_state g')) \<and> (g_machine g' = Playing \<or> g_machine g' = Ended) \<and> g_machine g' = gs_status (g_state g')"
  using kingdoms_host_play [OF assms, of ck gid seed as] by (metis game_loaded_def)

lemma kingdoms_never_throws_witness:
  "\<exists>rs g'. host_play \<lparr>ck_stamp = (\<lambda>n. n), ck_append = int\<rparr> ''g'' kingdomsScenario exRoster ''seed''
      [exAction ''end-turn'' exPayload, exAction ''attack-tile'' exPayload] = Inr (rs, g') \<and> kingdoms_ok (g_state g')"
  using kingdoms_never_throws [OF exRoster_ok] by blast

text \<open> C30: A game is over exactly when fewer than two kingdoms are left: it ends with the action that
  eliminates the last rival, and no game with two surviving kingdoms has ended. \<close>
theorem kingdoms_ends_with_last_rival:
  assumes "roster_ok ps" "host_play ck gid kingdomsScenario ps seed as = Inr (rs, g')"
  shows "g_machine g' = Ended \<longleftrightarrow> 2 \<le> pm_count (gs_players (g_state g')) \<and> length (pm_active (gs_players (g_state g'))) < 2"
proof -
  have "g_machine g' = Ended \<longleftrightarrow> evaluate_victory [lastPlayerStanding] (g_state g'\<lparr>gs_status := Playing\<rparr>) \<noteq> Inr None"
    using kingdoms_host_play [OF assms(1), of ck gid seed as] assms(2) by (metis Pair_inject sum.inject(2))
  then show ?thesis unfolding lastPlayerStanding_fires by simp
qed

lemma kingdoms_ends_with_last_rival_witness:
  "\<exists>rs g'. host_play \<lparr>ck_stamp = (\<lambda>n. n), ck_append = int\<rparr> ''g'' kingdomsScenario exRoster ''seed'' [exAction ''end-turn'' exPayload] =
      Inr (rs, g') \<and>
     (g_machine g' = Ended \<longleftrightarrow> 2 \<le> pm_count (gs_players (g_state g')) \<and> length (pm_active (gs_players (g_state g'))) < 2)"
proof -
  obtain rs g' where "host_play \<lparr>ck_stamp = (\<lambda>n. n), ck_append = int\<rparr> ''g'' kingdomsScenario exRoster ''seed''
      [exAction ''end-turn'' exPayload] = Inr (rs, g')"
    using kingdoms_host_play [OF exRoster_ok] by blast
  with kingdoms_ends_with_last_rival [OF exRoster_ok this] show ?thesis by blast
qed

text \<open> C29: Throughout a game an eliminated kingdom has neither a tile nor a piece left on the board,
  and every kingdom still in the game holds its capital, which its own supply network reaches. \<close>
theorem kingdoms_survivors:
  assumes "roster_ok ps" "host_play ck gid kingdomsScenario ps seed as = Inr (rs, g')"
  defines "s \<equiv> g_state g'"
  shows "(isEliminated (gs_players s) p \<longrightarrow>
       (\<forall>t. jget (getOwnership s) t \<noteq> Some p) \<and> (\<forall>i q. jget (gs_pieces s) i = Some q \<longrightarrow> pc_owner q \<noteq> p)) \<and>
    (p \<in> active_ids (pm_bySeat (gs_players s)) \<longrightarrow>
       (\<exists>cap. jget (getCapitals s) p = Some cap \<and> jget (getOwnership s) cap = Some p \<and> isConnected cap (connectedTiles s p)))"
proof -
  have ok': "kingdoms_ok s" using kingdoms_host_play [OF assms(1), of ck gid seed as] assms(2,3) by (metis game_loaded_def Pair_inject sum.inject(2))
  then have t: "territory_ok (getOwnership s) (getCapitals s) (active_ids (pm_bySeat (gs_players s)))"
    and b: "board_ok (getOwnership s) (gs_pieces s)" and wf: "pm_wf (gs_players s)"
    by (auto simp: kingdoms_ok_def players_ok_def)
  have owner: "jget (getOwnership s) x \<noteq> Some p" if out: "isEliminated (gs_players s) p" for x
  proof
    assume "jget (getOwnership s) x = Some p"
    then have "p \<in> active_ids (pm_bySeat (gs_players s))" using t unfolding territory_ok_def by blast
    moreover obtain q where "q \<in> set (pm_bySeat (gs_players s))" "pl_id q = p" "\<not> is_active q"
      using out by (auto simp: isEliminated_iff [OF wf])
    ultimately show False using pm_bySeat_inj [OF wf] by (auto simp: active_ids_def)
  qed
  have piece: "pc_owner q \<noteq> p" if "isEliminated (gs_players s) p" "jget (gs_pieces s) i = Some q" for i q
    using board_okD [OF b that(2)] owner [OF that(1)] by (auto simp: piece_ok_def)
  have "\<exists>cap. jget (getCapitals s) p = Some cap \<and> jget (getOwnership s) cap = Some p \<and> isConnected cap (connectedTiles s p)"
    if act: "p \<in> active_ids (pm_bySeat (gs_players s))"
  proof -
    obtain cap where cap: "jget (getCapitals s) p = Some cap" "cap \<noteq> []" "jget (getOwnership s) cap = Some p"
      using t act unfolding territory_ok_def by blast
    have "distinct (jkeys (getOwnership s))" using t by (simp add: territory_ok_def)
    from set_connectedTiles [OF this, of p] cap show ?thesis by (simp add: isConnected_def supplied_def)
  qed
  with owner piece show ?thesis by blast
qed

lemma kingdoms_survivors_witness:
  "\<exists>rs g'. host_play \<lparr>ck_stamp = (\<lambda>n. n), ck_append = int\<rparr> ''g'' kingdomsScenario exRoster ''seed'' [] = Inr (rs, g') \<and>
     (''alice'' \<in> active_ids (pm_bySeat (gs_players (g_state g'))) \<longrightarrow>
       (\<exists>cap. jget (getCapitals (g_state g')) ''alice'' = Some cap \<and> isConnected cap (connectedTiles (g_state g') ''alice'')))"
proof -
  obtain rs g' where "host_play \<lparr>ck_stamp = (\<lambda>n. n), ck_append = int\<rparr> ''g'' kingdomsScenario exRoster ''seed'' [] = Inr (rs, g')"
    using kingdoms_host_play [OF exRoster_ok] by blast
  with kingdoms_survivors [OF exRoster_ok this, of "''alice''"] show ?thesis by blast
qed

section \<open>Attacks\<close>

definition loyalty_of :: "kstate \<Rightarrow> string \<Rightarrow> int" where
  "loyalty_of s t = (case jget (getTileLoyalty s) t of Some e \<Rightarrow> tl_loyalty e | None \<Rightarrow> 100)"

definition is_noble :: "kstate \<Rightarrow> string \<Rightarrow> bool" where
  "is_noble s i \<longleftrightarrow> (\<exists>p. jget (gs_pieces s) i = Some p \<and> pc_kind p = ''noble'')"

lemma survivingNoble_iff:
  "survivingNoble s ids r \<noteq> None \<longleftrightarrow> (\<exists>i \<in> set ids. is_noble s i \<and> i \<notin> set (attackerLosses r))"
  "survivingNoble s ids r = Some i \<Longrightarrow> i \<in> set ids \<and> is_noble s i \<and> i \<notin> set (attackerLosses r)"
proof -
  show "survivingNoble s ids r = Some i \<Longrightarrow> i \<in> set ids \<and> is_noble s i \<and> i \<notin> set (attackerLosses r)"
    by (auto simp: survivingNoble_def is_noble_def dest!: find_SomeD split: option.splits)
  have "survivingNoble s ids r = None \<longleftrightarrow> (\<forall>i \<in> set ids. \<not> (is_noble s i \<and> i \<notin> set (attackerLosses r)))"
    unfolding survivingNoble_def find_None_iff is_noble_def by (auto split: option.splits)
  then show "survivingNoble s ids r \<noteq> None \<longleftrightarrow> (\<exists>i \<in> set ids. is_noble s i \<and> i \<notin> set (attackerLosses r))"
    by (auto simp del: not_None_eq)
qed

text \<open>
  What an attack with a given battle result leaves behind: with no surviving noble only the
  casualties are gone, with one the loyalty of the tile is eroded as well.
\<close>

definition attack_leaves :: "kaction \<Rightarrow> kstate \<Rightarrow> combat_result \<Rightarrow> seeded \<Rightarrow> kstate \<Rightarrow> bool" where
  "attack_leaves a s result g s' \<longleftrightarrow>
     (let s1 = removePieces (defenderLosses result @ attackerLosses result) (s\<lparr>gs_rng := g\<rparr>);
          from' = kp_fromTileId (ac_payload a); to' = kp_toTileId (ac_payload a)
      in case survivingNoble s (attackerIds s a) result of
           None \<Rightarrow> s' = markAttacked from' s1
         | Some _ \<Rightarrow>
             (\<exists>es2 s2. erodeLoyalty to' (actor a) (jget (getOwnership s) to') (structureOnTile s to' STRUCTURE_KINDS) s1 = (Inr es2, s2) \<and>
                s' = markAttacked from' s2))"

lemma attack_run:
  assumes ok': "kingdoms_ok s" and acc: "attackTileValidator s a = accept" and run: "attackTileExecutor a s = (Inr es, s')"
  obtains result g where "\<forall>i \<in> set (attackerIds s a). i \<notin> set (defenderLosses result)" "attack_leaves a s result g s'"
proof -
  let ?to = "kp_toTileId (ac_payload a)" and ?from = "kp_fromTileId (ac_payload a)" and ?me = "actor a"
  have b: "board_ok (getOwnership s) (gs_pieces s)" using ok' by (simp add: kingdoms_ok_def)
  then have d: "distinct (jkeys (gs_pieces s))" by (simp add: board_ok_def)
  obtain att def' result g where bt: "asCombatants s (attackerIds s a) = Inr att" "asCombatants s (defenderIds s a) = Inr def'"
    "map cb_id def' = defenderIds s a"
    "resolveAttack att def' (tileBonus s ?to) (structureEffects (structureOnTile s ?to STRUCTURE_KINDS)) (Some intInRange) (gs_rng s) = (Inr result, g)"
    "battle_spec att def' result"
    using attack_battle [OF ok' acc] by metis
  note exec = run [unfolded attackTileExecutor_def Let_def bt(1,2,4) sum.case prod.case]
  have noBracket: "i \<noteq> []" if "survivingNoble s (attackerIds s a) result = Some i" for i
    using survivingNoble_iff(2) [OF that] board_okD [OF b] by (auto simp: is_noble_def piece_ok_def)
  have away: "i \<notin> set (defenderLosses result)" if "i \<in> set (attackerIds s a)" for i
  proof
    assume "i \<in> set (defenderLosses result)"
    moreover have "set (defenderLosses result) \<subseteq> set (map cb_id def')"
      using bt(5) unfolding battle_spec_def by (metis set_mset_mono set_mset_mset)
    ultimately have "i \<in> set (defenderIds s a)" using bt(3) by auto
    then obtain p where "jget (gs_pieces s) i = Some p" "pc_location p = OnTile ?to"
      by (auto simp: defenderIds_def unitsOnTile_mem [OF d])
    moreover have "i \<in> set (unitsOnTile s ?from (Some ?me) (Some UNIT_KINDS))" using that attack_accepted(8) [OF ok' acc] by blast
    ultimately have "?from = ?to" by (auto simp: unitsOnTile_mem [OF d])
    then show False using attack_accepted(2,3) [OF ok' acc] by simp
  qed
  have "attack_leaves a s result g s'"
  proof (cases "survivingNoble s (attackerIds s a) result")
    case None
    with exec show ?thesis by (simp add: attack_leaves_def Let_def)
  next
    case (Some i)
    with exec noBracket [OF Some] show ?thesis by (auto simp: attack_leaves_def Let_def split: sum.splits prod.splits)
  qed
  with away show ?thesis by (intro that [of result g]) blast+
qed

lemma extras_frame [simp]:
  "getOwnership (markAttacked t s) = getOwnership s" "getTileLoyalty (markAttacked t s) = getTileLoyalty s"
  "gs_pieces (markAttacked t s) = gs_pieces s"
  "getOwnership (removePieces ids s) = getOwnership s" "getTileLoyalty (removePieces ids s) = getTileLoyalty s"
  "getOwnership (s\<lparr>gs_rng := g\<rparr>) = getOwnership s" "getTileLoyalty (s\<lparr>gs_rng := g\<rparr>) = getTileLoyalty s"
  "gs_pieces (removePieces ids s) = fold jdel ids (gs_pieces s)" "getCapitals (removePieces ids s) = getCapitals s"
  "getCapitals (s\<lparr>gs_rng := g\<rparr>) = getCapitals s"
  by (simp_all add: markAttacked_def removePieces_def extras_defs)

lemma captureTile_effect:
  assumes run: "captureTile to' me w st s = (Inr es, s')" and w: "w \<noteq> Some me"
    and d: "distinct (jkeys (getOwnership s))" "distinct (jkeys (gs_pieces s))"
  shows "jget (getOwnership s') to' = Some me" "loyalty_of s' to' = 100"
    "jget (gs_pieces s) i = None \<Longrightarrow> jget (gs_pieces s') i = None"
    "jget (gs_pieces s) i = Some p \<Longrightarrow> pc_owner p = me \<Longrightarrow> jget (gs_pieces s') i \<noteq> None"
proof -
  define s2 where "s2 = set_extras (kx_ownership_update (\<lambda>_. Some (jput to' me (getOwnership s))) \<circ>
                                    kx_tileLoyalty_update (\<lambda>_. Some (jdel to' (getTileLoyalty s)))) s"
  have s2: "getOwnership s2 = jput to' me (getOwnership s)" "getTileLoyalty s2 = jdel to' (getTileLoyalty s)" "gs_pieces s2 = gs_pieces s"
    by (simp_all add: s2_def extras_defs)
  have plain: "jget (getOwnership s2) to' = Some me \<and> loyalty_of s2 to' = 100" by (simp add: s2 loyalty_of_def)
  have "(jget (getOwnership s') to' = Some me \<and> loyalty_of s' to' = 100) \<and>
    (jget (gs_pieces s) i = None \<longrightarrow> jget (gs_pieces s') i = None) \<and>
    (\<forall>p. jget (gs_pieces s) i = Some p \<longrightarrow> pc_owner p = me \<longrightarrow> jget (gs_pieces s') i \<noteq> None)"
  proof -
    consider (same) "s' = s2"
      | (structure') j q where "jget (gs_pieces s2) j = Some q" "s' = s2\<lparr>gs_pieces := jput j (q\<lparr>pc_owner := me\<rparr>) (gs_pieces s2)\<rparr>"
      | (eliminated) loser es3 where "w = Some loser" "eliminateKingdom loser me s2 = (Inr es3, s')"
      using run by (auto simp: captureTile_def s2_def Let_def comp_def extras_defs split: option.splits if_splits sum.splits prod.splits)
    then show ?thesis
    proof cases
      case same
      with plain s2 show ?thesis by simp
    next
      case structure'
      with plain s2 show ?thesis by (auto simp: loyalty_of_def extras_defs)
    next
      case eliminated
      define ids where "ids = map fst (filter (\<lambda>(_, p). pc_owner p = loser) (gs_pieces s2))"
      have frame: "gs_pieces s' = fold jdel ids (gs_pieces s2)" "getTileLoyalty s' = getTileLoyalty s2"
        "getOwnership s' = filter (\<lambda>(_, owner). owner \<noteq> loser) (getOwnership s2)"
        using eliminated(2) by (auto simp: eliminateKingdom_def Let_def removePieces_def extras_defs ids_def split: sum.splits prod.splits)
      have "j \<in> set ids \<longleftrightarrow> (\<exists>p. jget (gs_pieces s) j = Some p \<and> pc_owner p = loser)" for j
        using d(2) by (force simp: ids_def s2 map_of_eq_Some_iff)
      moreover have "loser \<noteq> me" using eliminated(1) w by simp
      ultimately show ?thesis using plain d(1) unfolding frame loyalty_of_def s2
        by (auto simp: jget_fold_jdel jget_filter_owner)
    qed
  qed
  then show "jget (getOwnership s') to' = Some me" "loyalty_of s' to' = 100"
    "jget (gs_pieces s) i = None \<Longrightarrow> jget (gs_pieces s') i = None"
    "jget (gs_pieces s) i = Some p \<Longrightarrow> pc_owner p = me \<Longrightarrow> jget (gs_pieces s') i \<noteq> None" by blast+
qed

lemma erodeLoyalty_effect:
  assumes run: "erodeLoyalty to' me w st s = (Inr es, s')" and w: "w \<noteq> Some me"
    and d: "distinct (jkeys (getOwnership s))" "distinct (jkeys (gs_pieces s))"
  shows "if 45 < loyalty_of s to' then getOwnership s' = getOwnership s \<and> loyalty_of s' to' = loyalty_of s to' - 45
     else jget (getOwnership s') to' = Some me \<and> loyalty_of s' to' = 100"
    "jget (gs_pieces s) i = None \<Longrightarrow> jget (gs_pieces s') i = None"
    "jget (gs_pieces s) i = Some p \<Longrightarrow> pc_owner p = me \<Longrightarrow> jget (gs_pieces s') i \<noteq> None"
proof -
  have l: "(case jget (getTileLoyalty s) to' of Some e \<Rightarrow> tl_loyalty e | None \<Rightarrow> MAX_LOYALTY) = loyalty_of s to'"
    unfolding loyalty_of_def MAX_LOYALTY_def by (rule refl)
  note run' = run [unfolded erodeLoyalty_def Let_def l LOYALTY_DAMAGE_PER_ATTACK_def]
  show "if 45 < loyalty_of s to' then getOwnership s' = getOwnership s \<and> loyalty_of s' to' = loyalty_of s to' - 45
     else jget (getOwnership s') to' = Some me \<and> loyalty_of s' to' = 100"
  proof (cases "45 < loyalty_of s to'")
    case True
    with run' have "s' = set_extras (kx_tileLoyalty_update (\<lambda>_. Some (jput to' \<lparr>tl_loyalty = loyalty_of s to' - 45, tl_lastAttackerId = me\<rparr>
        (getTileLoyalty s)))) s" by simp
    with True show ?thesis by (simp add: loyalty_of_def extras_defs)
  next
    case False
    with run' have "captureTile to' me w st s = (Inr es, s')" by simp
    from captureTile_effect(1,2) [OF this w d] False show ?thesis by simp
  qed
  have "(s' = set_extras (kx_tileLoyalty_update (\<lambda>_. Some (jput to' \<lparr>tl_loyalty = loyalty_of s to' - 45, tl_lastAttackerId = me\<rparr>
        (getTileLoyalty s)))) s) \<or> captureTile to' me w st s = (Inr es, s')"
    using run' by (auto split: if_splits)
  then show "jget (gs_pieces s) i = None \<Longrightarrow> jget (gs_pieces s') i = None"
    "jget (gs_pieces s) i = Some p \<Longrightarrow> pc_owner p = me \<Longrightarrow> jget (gs_pieces s') i \<noteq> None"
    using captureTile_effect(3,4) [OF _ w d] by auto
qed

text \<open> C2: The executor conquers territory through nobles only, as the players' guide
  (\<open>docs/kingdoms/04-how-to-play.md\<close>) announces: an accepted attack, won or lost, leaves every owner and every
  loyalty as it was unless one of the attacking nobles survives it; a surviving noble takes 45 off the loyalty of the
  attacked tile, and takes the tile itself when no more than 45 was left. The action catalogue
  (\<open>docs/kingdoms/03-action-catalogue.md\<close>) and the README of the actions still let the winner of any battle take
  the tile; the code does not. \<close>
theorem attack_conquers_by_nobles:
  assumes ok': "kingdoms_ok s" and acc: "attackTileValidator s a = accept" and run: "attackTileExecutor a s = (Inr es, s')"
  defines "to' \<equiv> kp_toTileId (ac_payload a)"
  shows "if \<exists>i \<in> set (attackerIds s a). is_noble s i \<and> jget (gs_pieces s') i \<noteq> None
     then (if 45 < loyalty_of s to' then getOwnership s' = getOwnership s \<and> loyalty_of s' to' = loyalty_of s to' - 45
           else jget (getOwnership s') to' = Some (actor a) \<and> loyalty_of s' to' = 100)
     else getOwnership s' = getOwnership s \<and> getTileLoyalty s' = getTileLoyalty s"
proof -
  obtain result g where away: "\<forall>i \<in> set (attackerIds s a). i \<notin> set (defenderLosses result)"
    and leaves: "attack_leaves a s result g s'" by (rule attack_run [OF ok' acc run])
  define ids where "ids = defenderLosses result @ attackerLosses result"
  define s1 where "s1 = removePieces ids (s\<lparr>gs_rng := g\<rparr>)"
  have s1: "getOwnership s1 = getOwnership s" "getTileLoyalty s1 = getTileLoyalty s" "loyalty_of s1 = loyalty_of s"
    by (simp_all add: s1_def loyalty_of_def fun_eq_iff)
  have pcs: "jget (gs_pieces s1) i = (if i \<in> set ids then None else jget (gs_pieces s) i)" for i
    by (simp add: s1_def jget_fold_jdel)
  have d: "distinct (jkeys (getOwnership s))" "distinct (jkeys (gs_pieces s))"
    using ok' by (auto simp: kingdoms_ok_def territory_ok_def board_ok_def)
  have d1: "distinct (jkeys (getOwnership s1))" "distinct (jkeys (gs_pieces s1))"
    using d by (simp_all add: s1_def distinct_fold_jdel)
  have w: "jget (getOwnership s) to' \<noteq> Some (actor a)" using attack_accepted(3) [OF ok' acc] by (simp add: to'_def)
  have mine: "pc_owner p = actor a" if "i \<in> set (attackerIds s a)" "jget (gs_pieces s) i = Some p" for i p
    using attack_accepted(8) [OF ok' acc] that by (fastforce simp: unitsOnTile_mem [OF d(2)])
  show ?thesis
  proof (cases "survivingNoble s (attackerIds s a) result")
    case None
    with leaves have s': "s' = markAttacked (kp_fromTileId (ac_payload a)) s1" by (simp add: attack_leaves_def Let_def s1_def ids_def)
    have "\<not> (is_noble s i \<and> jget (gs_pieces s') i \<noteq> None)" if "i \<in> set (attackerIds s a)" for i
      using None survivingNoble_iff(1) [of s "attackerIds s a" result] that by (auto simp: s' pcs ids_def)
    then show ?thesis by (auto simp: s' s1)
  next
    case (Some i)
    then obtain es2 s2 where e: "erodeLoyalty to' (actor a) (jget (getOwnership s) to') (structureOnTile s to' STRUCTURE_KINDS) s1 = (Inr es2, s2)"
      "s' = markAttacked (kp_fromTileId (ac_payload a)) s2" using leaves by (auto simp: attack_leaves_def Let_def s1_def ids_def to'_def)
    note eff = erodeLoyalty_effect [OF e(1) w d1]
    from survivingNoble_iff(2) [OF Some] have i: "i \<in> set (attackerIds s a)" "is_noble s i" "i \<notin> set ids"
      using away by (auto simp: ids_def)
    then obtain p where p: "jget (gs_pieces s) i = Some p" by (auto simp: is_noble_def)
    then have "jget (gs_pieces s') i \<noteq> None" using eff(3) [of i p] mine [OF i(1) p] i(3) by (simp add: e(2) pcs)
    with i have ex: "\<exists>i \<in> set (attackerIds s a). is_noble s i \<and> jget (gs_pieces s') i \<noteq> None" by blast
    have "loyalty_of s' = loyalty_of s2" "getOwnership s' = getOwnership s2" by (simp_all add: e(2) loyalty_of_def fun_eq_iff)
    with eff(1) ex show ?thesis by (simp add: s1)
  qed
qed

lemma attack_conquers_by_nobles_witness:
  "\<exists>es s'. attackTileExecutor (exAction ''attack-tile'' exPayload) exState = (Inr es, s') \<and>
    (if \<exists>i \<in> set (attackerIds exState (exAction ''attack-tile'' exPayload)). is_noble exState i \<and> jget (gs_pieces s') i \<noteq> None
     then jget (getOwnership s') (tileId (axial 1 0)) = Some ''alice'' else getOwnership s' = getOwnership exState)"
proof -
  obtain es s' where run: "attackTileExecutor (exAction ''attack-tile'' exPayload) exState = (Inr es, s')"
    using attack_executes [OF exState_ok exAttack_accepted] by (auto simp: executes_def)
  have "kp_toTileId (ac_payload (exAction ''attack-tile'' exPayload)) = tileId (axial 1 0)" by (simp add: exPayload_def)
  moreover have "loyalty_of exState (tileId (axial 1 0)) = 40" by (simp add: loyalty_of_def)
  ultimately show ?thesis using attack_conquers_by_nobles [OF exState_ok exAttack_accepted run] run
    by (intro exI [of _ es] exI [of _ s']) (auto split: if_splits)
qed

section \<open>Properties of the economy\<close>

text \<open> C33: The round-end cycle of a player books exactly the income of the supplied tiles and then
  feeds the army: food is eaten from the stock first, what is missing is bought at three gold a
  unit as far as the gold goes, and what is still missing goes uneaten without any other loss. \<close>
theorem player_cycle_accounts:
  assumes "jget (gs_inventories s) p = Some bag" "inv_ok bag"
  defines "inc \<equiv> computeIncome s p" and "need \<equiv> computeFoodCost s p"
  defines "food \<equiv> inv_get bag ''food'' + max 0 (in_food inc)" and "gold \<equiv> inv_get bag ''gold'' + max 0 (in_gold inc)"
  defines "eaten \<equiv> min food need"
  defines "bought \<equiv> min (need - eaten) (gold div 3)"
  shows "\<exists>es bag'. processPlayerCycle p s = (Inr es, put_inventory p bag' s) \<and> inv_ok bag' \<and>
    inv_get bag' ''food'' = food - eaten + bought \<and> inv_get bag' ''gold'' = gold - 3 * bought \<and>
    inv_get bag' ''wood'' = inv_get bag ''wood'' + max 0 (in_wood inc) \<and>
    inv_get bag' ''iron'' = inv_get bag ''iron'' + max 0 (in_iron inc)"
proof -
  obtain bag1 where b1: "addIncome (income_entries inc) bag = (Inr (), bag1)" "inv_ok bag1"
    using addIncome_ok [OF assms(2)] by blast
  have d: "distinct (map fst (income_entries inc))" by (simp add: income_entries_def)
  note get1 = addIncome_get [OF d b1(1)]
  have stock1: "inv_get bag1 ''food'' = food" "inv_get bag1 ''gold'' = gold"
    "inv_get bag1 ''wood'' = inv_get bag ''wood'' + max 0 (in_wood inc)" "inv_get bag1 ''iron'' = inv_get bag ''iron'' + max 0 (in_iron inc)"
    by (simp_all add: get1 food_def gold_def income_entries_def)
  have "0 \<le> need" unfolding need_def by (rule computeFoodCost_nonneg)
  from consumeFood_spec [OF b1(2) this, of p, unfolded stock1, folded eaten_def, folded bought_def] obtain es bag2 where
    b2: "consumeFood p need bag1 = (Inr es, bag2)" "inv_ok bag2" "inv_get bag2 ''food'' = food - eaten + bought"
      "inv_get bag2 ''gold'' = gold - 3 * bought" "\<forall>r. r \<noteq> ''gold'' \<longrightarrow> r \<noteq> ''food'' \<longrightarrow> inv_get bag2 r = inv_get bag1 r"
    by blast
  have "processPlayerCycle p s = (Inr ([mkEvent ''income-collected'' (Some p) (IncomeCollected inc)] @ es @ []), put_inventory p bag2 s)"
    using assms(1) b1 b2(1,2) by (simp add: processPlayerCycle_def Let_def mortgageStep_dead flip: inc_def need_def)
  with b2 stock1 show ?thesis by (intro exI conjI) (assumption | simp)+
qed

lemma player_cycle_accounts_witness:
  "\<exists>es bag'. processPlayerCycle ''alice'' exState = (Inr es, put_inventory ''alice'' bag' exState) \<and>
    inv_get bag' ''wood'' = 10 + max 0 (in_wood (computeIncome exState ''alice''))"
proof -
  have "jget (gs_inventories exState) ''alice'' = Some exBag" by simp
  moreover have "inv_ok exBag" by (auto simp: exBag_def inv_ok_def inv_get_def)
  ultimately show ?thesis using player_cycle_accounts [of exState "''alice''" exBag]
    by (auto simp: exBag_def inv_get_def)
qed

text \<open> A besieged tile that is left alone recovers ten points of loyalty a round and is forgotten
  once it is back at a hundred; no other tile is touched. \<close>
lemma loyalty_recovers:
  assumes "loyalty_ok m"
  shows "jget ((recoverLoyalty ^^ k) m) t =
     (case jget m t of
        None \<Rightarrow> None
      | Some e \<Rightarrow> if tl_loyalty e + 10 * int k < 100 then Some (e\<lparr>tl_loyalty := tl_loyalty e + 10 * int k\<rparr>) else None)"
proof -
  have "loyalty_ok ((recoverLoyalty ^^ k) m)" for k using assms by (induction k) (simp_all add: loyalty_ok_recover)
  then have d: "distinct (jkeys ((recoverLoyalty ^^ k) m))" for k by (simp add: loyalty_ok_def)
  have small: "tl_loyalty e < 100" if "jget m t = Some e" for e
    using assms that d [of 0] by (simp add: loyalty_ok_iff)
  show ?thesis
  proof (induction k)
    case 0
    with small show ?case by (auto split: option.split)
  next
    case (Suc k)
    then show ?case using jget_recoverLoyalty [OF d [of k], of t] by (auto split: option.splits if_splits)
  qed
qed

lemma loyalty_recovers_witness:
  "jget ((recoverLoyalty ^^ 5) [(''t'', \<lparr>tl_loyalty = 40, tl_lastAttackerId = ''a''\<rparr>)]) ''t'' = Some \<lparr>tl_loyalty = 90, tl_lastAttackerId = ''a''\<rparr> \<and>
   jget ((recoverLoyalty ^^ 6) [(''t'', \<lparr>tl_loyalty = 40, tl_lastAttackerId = ''a''\<rparr>)]) ''t'' = None"
  using loyalty_recovers [of "[(''t'', \<lparr>tl_loyalty = 40, tl_lastAttackerId = ''a''\<rparr>)]" 5 "''t''"]
    loyalty_recovers [of "[(''t'', \<lparr>tl_loyalty = 40, tl_lastAttackerId = ''a''\<rparr>)]" 6 "''t''"]
  by (simp add: loyalty_ok_def)

section \<open>Properties of the generated map\<close>

lemma kingdoms_map_vals: "jvals (gm_tiles (buildKingdomsMap n seed)) = map (kmap_tile seed) [0..<61]"
proof -
  let ?m = "gm_tiles (buildKingdomsMap n seed)"
  let ?b = "fold (kmap_place (seededShuffle TERRAIN_BAG seed)) (enumerate 0 ALL_COORDS) newMapBuilder"
  have defs: "map td_coord (mb_tileDefs ?b) = ALL_COORDS"
    by (simp add: fold_kmap_place newMapBuilder_def comp_def case_prod_beta map_snd_enumerate)
  have keys: "jkeys ?m = map tileId ALL_COORDS"
    using jkeys_build_distinct [of ?b] defs distinct_ALL_COORDS
    by (simp add: buildKingdomsMap_def Let_def) (metis (no_types, lifting) list.map_comp comp_def map_eq_conv defs)
  have d: "distinct (jkeys ?m)" unfolding keys using distinct_ALL_COORDS by (simp add: distinct_map inj_on_def)
  have len: "length ?m = 61" using arg_cong [OF keys, of length] length_ALL_COORDS by simp
  show ?thesis
  proof (rule nth_equalityI)
    fix i assume "i < length (jvals ?m)"
    then have i: "i < 61" "i < length ?m" by (simp_all add: len)
    then have k: "fst (?m ! i) = tileId (ALL_COORDS ! i)" using arg_cong [OF keys, of "\<lambda>xs. xs ! i"] length_ALL_COORDS by simp
    have "jget ?m (fst (?m ! i)) = Some (snd (?m ! i))" using i d by (simp add: map_of_eq_Some_iff)
    then have "gm_tile (buildKingdomsMap n seed) (ALL_COORDS ! i) = Some (snd (?m ! i))" by (simp add: gm_tile_def k)
    with gm_tile_kingdoms [OF i(1), of n seed] i show "jvals ?m ! i = map (kmap_tile seed) [0..<61] ! i" by simp
  qed (simp add: len)
qed

text \<open> C36: For every seed the generated map has exactly the 61 hexes within distance four of the centre,
  carries exactly the terrain bag (25 plains, 15 forest, 12 hills, 9 mountain), and every starting
  table puts its capitals on distinct hexes of the outermost ring. \<close>
theorem kingdoms_map_exact:
  "set (map tile_coord (jvals (gm_tiles (buildKingdomsMap n seed)))) = {c. hexDistance c (axial 0 0) \<le> 4} \<and>
   length (gm_tiles (buildKingdomsMap n seed)) = 61 \<and>
   mset (map tile_terrain (jvals (gm_tiles (buildKingdomsMap n seed)))) = mset TERRAIN_BAG \<and>
   list_all (\<lambda>(k, cs). length cs = k \<and> distinct cs \<and> list_all (\<lambda>c. hexDistance c (axial 0 0) = 4) cs) KINGDOMS_STARTING_COORDS"
proof -
  have "map tile_coord (map (kmap_tile seed) [0..<61]) = map (\<lambda>i. ALL_COORDS ! i) [0..<61]"
    by (simp add: kmap_tile_def Let_def)
  also have "\<dots> = ALL_COORDS" using map_nth [of ALL_COORDS] length_ALL_COORDS by simp
  finally have coords: "map tile_coord (map (kmap_tile seed) [0..<61]) = ALL_COORDS" .
  have "map tile_terrain (map (kmap_tile seed) [0..<61]) = map (\<lambda>i. seededShuffle TERRAIN_BAG seed ! i) [0..<61]"
    by (simp add: kmap_tile_def Let_def)
  also have "\<dots> = seededShuffle TERRAIN_BAG seed" using map_nth [of "seededShuffle TERRAIN_BAG seed"] length_TERRAIN_BAG by simp
  finally have terrain: "mset (map tile_terrain (map (kmap_tile seed) [0..<61])) = mset TERRAIN_BAG" by (simp only: seededShuffle_mset)
  have "length (gm_tiles (buildKingdomsMap n seed)) = 61" using arg_cong [OF kingdoms_map_vals [of n seed], of length] by simp
  moreover have "list_all (\<lambda>(k, cs). length cs = k \<and> distinct cs \<and> list_all (\<lambda>c. hexDistance c (axial 0 0) = 4) cs) KINGDOMS_STARTING_COORDS"
    by (simp add: KINGDOMS_STARTING_COORDS_def hexDistance_def axialDistance_max)
  ultimately show ?thesis unfolding kingdoms_map_vals coords using terrain
    by (simp only: set_ALL_COORDS tileRing_distance)
qed

section \<open>Two places where the code departs from its intent\<close>

text \<open>The combatants of a list of units that is repeated are repeated, and their strength grows with the power 3/2.\<close>

lemma asCombatants_append:
  "asCombatants s is = Inr cs \<Longrightarrow> asCombatants s js = Inr ds \<Longrightarrow> asCombatants s (is @ js) = Inr (cs @ ds)"
  by (induction "is" arbitrary: cs) (auto split: sum.splits)

lemma asCombatants_repeated:
  "asCombatants s ids = Inr cs \<Longrightarrow> asCombatants s (concat (replicate k ids)) = Inr (concat (replicate k cs))"
  by (induction k) (simp_all add: asCombatants_append)

lemma computeStrength_repeated:
  "computeStrength (concat (replicate k cs)) = real k * sqrt (real k) * computeStrength cs"
proof -
  have "sum_list (map cb_attack (concat (replicate k cs))) = real k * sum_list (map cb_attack cs)" "length (concat (replicate k cs)) = k * length cs"
    by (induction k) (simp_all add: algebra_simps)
  then show ?thesis by (simp add: computeStrength_def foldl_attack real_sqrt_mult)
qed

lemma resolveAttack_strength:
  "resolveAttack att def t ms rng g = (Inr r, g') \<Longrightarrow> attackerStrength r = computeStrength att"
  by (auto simp: resolveAttack_def Let_def split: if_splits prod.splits sum.splits)

text \<open>The first event of an attack is the battle, with the strength of the units its action names.\<close>

lemma attack_event:
  assumes ok': "kingdoms_ok s" and acc: "attackTileValidator s a = accept"
  shows "\<exists>b ev es s' att. attackTileExecutor a s = (Inr (ev # es), s') \<and> ev_payload ev = ScenarioPayload (BattleResolved b) \<and>
    asCombatants s (attackerIds s a) = Inr att \<and> br_attackerStrength b = computeStrength att"
proof (rule attack_battle [OF ok' acc])
  fix att def' result g
  assume bt: "asCombatants s (attackerIds s a) = Inr att" "asCombatants s (defenderIds s a) = Inr def'"
    "resolveAttack att def' (tileBonus s (kp_toTileId (ac_payload a)))
       (structureEffects (structureOnTile s (kp_toTileId (ac_payload a)) STRUCTURE_KINDS)) (Some intInRange) (gs_rng s) = (Inr result, g)"
  obtain es s' where "attackTileExecutor a s = (Inr es, s')" using attack_executes [OF ok' acc] by (auto simp: executes_def)
  then show ?thesis using bt resolveAttack_strength [OF bt(3)]
    by (auto simp: attackTileExecutor_def Let_def mkEvent_def split: option.splits if_splits prod.splits sum.splits)
qed

text \<open> C40: The validator of an attack does not notice a unit that is named more than once: whenever an attack is
  accepted, naming its list of units \<open>k\<close> times over is accepted as well, and the battle is then fought with \<open>k * sqrt k\<close>
  times the strength of the same units. \<close>
theorem attack_counts_duplicates:
  assumes ok': "kingdoms_ok s" and acc: "attackTileValidator s a = accept" and ids: "kp_unitIds (ac_payload a) = Some ids" and k: "0 < k"
  defines "a' \<equiv> a\<lparr>ac_payload := (ac_payload a)\<lparr>kp_unitIds := Some (concat (replicate k ids))\<rparr>\<rparr>"
  shows "attackTileValidator s a' = accept \<and>
    (\<exists>b b' ev ev' es es' s1 s1'. attackTileExecutor a s = (Inr (ev # es), s1) \<and> ev_payload ev = ScenarioPayload (BattleResolved b) \<and>
       attackTileExecutor a' s = (Inr (ev' # es'), s1') \<and> ev_payload ev' = ScenarioPayload (BattleResolved b') \<and>
       br_attackerStrength b' = real k * sqrt (real k) * br_attackerStrength b)"
proof -
  have set: "set (concat (replicate k ids)) = set ids" using k by (simp add: set_replicate_conv_if)
  then have ne: "concat (replicate k ids) = [] \<longleftrightarrow> ids = []" using k by auto
  have sel: "ac_playerId a' = ac_playerId a" "actor a' = actor a" "kp_fromTileId (ac_payload a') = kp_fromTileId (ac_payload a)"
    "kp_toTileId (ac_payload a') = kp_toTileId (ac_payload a)" "kp_unitIds (ac_payload a') = Some (concat (replicate k ids))"
    by (simp_all add: a'_def actor_def)
  have acc': "attackTileValidator s a' = accept"
    using acc unfolding attackTileValidator_def sel ids option.case list_all_iff list_ex_iff set length_0_conv ne .
  have named: "attackerIds s a = ids" "attackerIds s a' = concat (replicate k ids)"
    using attack_accepted(7) [OF ok' acc] acc ids sel(5) ne
    by (auto simp: attackerIds_def attackTileValidator_def Let_def split: option.splits if_splits)
  show ?thesis using acc' attack_event [OF ok' acc] attack_event [OF ok' acc']
    by (auto simp: named asCombatants_repeated computeStrength_repeated)
qed

lemma exAttack_fights:
  "attackTileValidator exState (exAction ''attack-tile'' (exPayload\<lparr>kp_unitIds := Some [''sp-alice-1'']\<rparr>)) = accept"
  "asCombatants exState [''sp-alice-1''] = Inr att \<Longrightarrow> 0 < computeStrength att"
proof -
  have sp: "jget exPieces ''sp-alice-1'' = Some (snd (exPiece ''sp-alice-1'' ''spearman'' ''alice'' (axial 0 0)))"
    by (simp add: exPieces_eq)
  show "attackTileValidator exState (exAction ''attack-tile'' (exPayload\<lparr>kp_unitIds := Some [''sp-alice-1'']\<rparr>)) = accept"
    using exGuard exConnected exAdjacent exUnits
    by (simp add: attackTileValidator_def exPayload_def Let_def sp COMBAT_UNIT_KINDS_eq)
  obtain st where st: "jget UNIT_STATS ''spearman'' = Some st" "0 < us_attack st"
     "jget (getDefaultStats kingdomsPieces ''spearman'') ''attack'' = Some (real_of_int (us_attack st))"
    using unit_stats_attack [of "''spearman''"] by (auto simp: UNIT_KINDS_eq)
  then have "pc_stats (snd (exPiece ''sp-alice-1'' ''spearman'' ''alice'' (axial 0 0))) = Some (getDefaultStats kingdomsPieces ''spearman'')"
    by (auto simp: exPiece_def makeUnitFromRegistry_stats split: list.split)
  with sp st have "asCombatant exState ''sp-alice-1'' = Inr \<lparr>cb_id = ''sp-alice-1'', cb_kind = ''spearman'', cb_attack = real_of_int (us_attack st)\<rparr>"
    by (simp add: asCombatant_def pieceAsCombatant_def)
  with st(2) show "asCombatants exState [''sp-alice-1''] = Inr att \<Longrightarrow> 0 < computeStrength att" by (auto simp: computeStrength_def)
qed

text \<open>Three copies of one spearman fight with more than five times the strength of one.\<close>

theorem attack_counts_duplicates_witness:
  "\<exists>b b' ev ev' es es' s1 s1'.
     attackTileExecutor (exAction ''attack-tile'' (exPayload\<lparr>kp_unitIds := Some [''sp-alice-1'']\<rparr>)) exState = (Inr (ev # es), s1) \<and>
     ev_payload ev = ScenarioPayload (BattleResolved b) \<and>
     attackTileExecutor (exAction ''attack-tile'' (exPayload\<lparr>kp_unitIds := Some [''sp-alice-1'', ''sp-alice-1'', ''sp-alice-1'']\<rparr>)) exState = (Inr (ev' # es'), s1') \<and>
     ev_payload ev' = ScenarioPayload (BattleResolved b') \<and>
     br_attackerStrength b' = 3 * sqrt 3 * br_attackerStrength b \<and> 0 < br_attackerStrength b"
proof -
  let ?a = "\<lambda>ids. exAction ''attack-tile'' (exPayload\<lparr>kp_unitIds := Some ids\<rparr>)"
  have ids: "kp_unitIds (ac_payload (?a [''sp-alice-1''])) = Some [''sp-alice-1'']" by (simp add: exAction_def)
  have three: "concat (replicate 3 [''sp-alice-1'']) = [''sp-alice-1'', ''sp-alice-1'', ''sp-alice-1'']" by (simp add: eval_nat_numeral)
  have a': "(?a [''sp-alice-1''])\<lparr>ac_payload := (ac_payload (?a [''sp-alice-1'']))\<lparr>kp_unitIds := Some xs\<rparr>\<rparr> = ?a xs" for xs
    by (simp add: exAction_def)
  have "attackerIds exState (?a [''sp-alice-1'']) = [''sp-alice-1'']" by (simp add: attackerIds_def ids)
  with attack_event [OF exState_ok exAttack_fights(1)] obtain b ev es s1 where
    "attackTileExecutor (?a [''sp-alice-1'']) exState = (Inr (ev # es), s1)" "ev_payload ev = ScenarioPayload (BattleResolved b)"
    "0 < br_attackerStrength b" using exAttack_fights(2) by auto
  with attack_counts_duplicates [OF exState_ok exAttack_fights(1) ids, of 3] show ?thesis unfolding a' three by fastforce
qed

text \<open> The noble after the first three costs 24 gold and the one after nine 559, where the comment
  on \<open>nobleCost\<close> announces 23 and 663; iron and food stay flat. \<close>
lemma noble_cost_values:
  "map nobleCost [0, 1, 2, 3, 9] =
     [[(''gold'', 8), (''iron'', 1), (''food'', 1)], [(''gold'', 8), (''iron'', 1), (''food'', 1)],
      [(''gold'', 14), (''iron'', 1), (''food'', 1)], [(''gold'', 24), (''iron'', 1), (''food'', 1)],
      [(''gold'', 559), (''iron'', 1), (''food'', 1)]]"
  by (simp add: nobleCost_def ceiling_eq_iff power_divide)

section \<open>The engine at work on the scenario\<close>

text \<open> A rejected action leaves the game untouched. The events of an accepted action are numbered
  consecutively from the emitter's counter, and a subscriber of everything receives exactly them,
  once and in order, the closing \<open>game-ended\<close> included. \<close>
lemma submission_numbers_and_delivers:
  assumes "submit ck a g = (Inr r, g')"
  shows "case r of
     Rejected err \<Rightarrow> g' = g \<and> validate_action (g_validators g) (g_state g) a = Inr (Some err)
   | Accepted evs \<Rightarrow>
       validate_action (g_validators g) (g_state g) a = Inr None \<and>
       map ev_seq evs = map (\<lambda>k. Some (em_nextSeq (g_events g) + int k)) [0..<length evs] \<and>
       em_nextSeq (g_events g') = em_nextSeq (g_events g) + int (length evs) \<and>
       (wildcard_only l (g_events g) \<longrightarrow> wildcard_only l (g_events g') \<and> received l (g_events g') = received l (g_events g) @ evs)"
proof (cases r)
  case (Rejected err)
  with submit_rejected assms show ?thesis by fastforce
next
  case (Accepted evs)
  with assms have run: "submit ck a g = (Inr (Accepted evs), g')" by simp
  then have "validate_action (g_validators g) (g_state g) a = Inr None" by (rule submit_accepted)
  with submit_events [OF run] Accepted show ?thesis by simp
qed

definition exGame :: "(kextras, kpayload, kevent) game" where
  "exGame = \<lparr>g_state = exState, g_events = em_onAny 0 newEmitter, g_validators = kingdoms_vs, g_executors = kingdoms_xs,
     g_rules = [], g_victories = [lastPlayerStanding], g_machine = Playing\<rparr>"

lemma exGame_accepts:
  "\<exists>evs g'. submit ck (exAction ''end-turn'' exPayload) exGame = (Inr (Accepted evs), g')"
proof -
  have "game_loaded kingdoms_vs kingdoms_xs [] [lastPlayerStanding] kingdoms_ok exGame"
    using exState_ok by (simp add: game_loaded_def exGame_def)
  from kingdoms.submit_total [OF this, of ck "exAction ''end-turn'' exPayload"] obtain r g' where
    s: "submit ck (exAction ''end-turn'' exPayload) exGame = (Inr r, g')" by (auto simp: exGame_def)
  have "validate_action kingdoms_vs exState (exAction ''end-turn'' exPayload) = accept"
    by (simp add: validate_action_def getValidator_def kingdoms_vs_def kingdomsValidators_def kvalidator_def exEndTurn_accepted)
  with s submit_rejected [of ck "exAction ''end-turn'' exPayload" exGame _ g'] show ?thesis
    by (cases r) (auto simp: exGame_def)
qed

lemma submission_numbers_and_delivers_witness:
  "\<exists>evs g'. submit \<lparr>ck_stamp = (\<lambda>n. n), ck_append = int\<rparr> (exAction ''end-turn'' exPayload) exGame = (Inr (Accepted evs), g') \<and>
     received 0 (g_events g') = evs \<and> em_nextSeq (g_events g') = 1 + int (length evs)"
proof -
  obtain evs g' where run: "submit \<lparr>ck_stamp = (\<lambda>n. n), ck_append = int\<rparr> (exAction ''end-turn'' exPayload) exGame = (Inr (Accepted evs), g')"
    using exGame_accepts by blast
  have "wildcard_only 0 (g_events exGame)" "received 0 (g_events exGame) = []" "em_nextSeq (g_events exGame) = 1"
    by (simp_all add: exGame_def wildcard_only_def em_onAny_def newEmitter_def jadd_def received_def)
  with submission_numbers_and_delivers [OF run, of 0] run show ?thesis by simp
qed

end
