(* ===== verification/FrontierActions.thy ===== *)
theory FrontierActions
  imports Game
begin

text \<open>
  The demo scenario \<open>demo-v1\<close>, "Frontier": its state and its seven actions,
  \<open>scenarios/demo/actions.ts\<close>. Players claim tiles next to their territory, convert and spend the
  resources the tiles yield, and trade them through offers whose goods are reserved when posted.
  Quantities are integers, as every inventory of the framework holds them.
\<close>

section \<open>State, payloads and events\<close>

definition FRONTIER_TERRAIN_VP :: "(string, int) jsmap" where
  "FRONTIER_TERRAIN_VP = [(''grass'', 1), (''forest'', 2), (''mountain'', 3)]"

definition FRONTIER_TERRAIN_RESOURCE :: "(string, string option) jsmap" where
  "FRONTIER_TERRAIN_RESOURCE = [(''grass'', None), (''forest'', Some ''wood''), (''mountain'', Some ''stone'')]"

definition HEX_DIRS :: "axial list" where
  "HEX_DIRS = [axial 1 0, axial (-1) 0, axial 0 1, axial 0 (-1), axial 1 (-1), axial (-1) 1]"

record trade_offer =
  to_id :: string
  to_fromPlayerId :: string
  to_giveWood :: int
  to_giveStone :: int
  to_wantWood :: int
  to_wantStone :: int

record fextras =
  fx_fortifications :: "(string, string) jsmap option"
  fx_tradeOffers :: "trade_offer list option"
  fx_nextOfferId :: "int option"
  fx_homeTiles :: "(string, string) jsmap option"

record fpayload =
  fp_tileId :: string
  fp_resource :: string
  fp_giveWood :: int
  fp_giveStone :: int
  fp_wantWood :: int
  fp_wantStone :: int
  fp_offerId :: string

record claim_report =
  cl_tileId :: string
  cl_terrain :: string
  cl_vp :: int
  cl_claimedBy :: string
  cl_diceRoll :: int
  cl_die1 :: int
  cl_die2 :: int
  cl_bonusVp :: int
  cl_resource :: "string option"

datatype fevent =
    TileClaimed claim_report
  | FTurnEnded string
  | FRoundEnded int
  | FortIncome string int
  | TileIncome int int
  | TradedForVp string int
  | TradedForLeap string
  | Fortified string int int
  | OfferPosted trade_offer
  | OfferAccepted string trade_offer string
  | OfferCancelled string trade_offer

type_synonym fstate = "(fextras, fpayload, fevent) game_state"
type_synonym faction = "fpayload action"
type_synonym fevents = "fevent game_event list"

section \<open>Helpers\<close>

text \<open>The first two checks of every validator.\<close>

definition frontierGuard :: "fstate \<Rightarrow> string option \<Rightarrow> action_error option" where
  "frontierGuard s playerId =
     (case playerId of
        None \<Rightarrow> Some (actionError ''no-player'')
      | Some p \<Rightarrow>
          if p = [] then Some (actionError ''no-player'')
          else if activePlayer (currentTurn (gs_rounds s)) \<noteq> p then Some (actionError ''not-your-turn'')
          else None)"

definition flagSet :: "fstate \<Rightarrow> string \<Rightarrow> bool" where
  "flagSet s name = (jget (flags (currentTurn (gs_rounds s))) name = Some True)"

definition piece_tile :: "piece \<Rightarrow> string option" where
  "piece_tile p = (case pc_location p of OnTile t \<Rightarrow> Some t | _ \<Rightarrow> None)"

definition ownedTileCoords :: "fstate \<Rightarrow> string \<Rightarrow> axial list" where
  "ownedTileCoords s playerId =
     concat (map (\<lambda>(_, p).
       if pc_owner p = playerId
       then (case piece_tile p of
               None \<Rightarrow> []
             | Some t \<Rightarrow> (case tileById (gs_map s) t of None \<Rightarrow> [] | Some hex \<Rightarrow> [tile_coord hex]))
       else []) (gs_pieces s))"

definition isTileOccupied :: "fstate \<Rightarrow> string \<Rightarrow> bool" where
  "isTileOccupied s t = list_ex (\<lambda>p. piece_tile p = Some t) (jvals (gs_pieces s))"

definition tileOwner :: "fstate \<Rightarrow> string \<Rightarrow> string option" where
  "tileOwner s t = map_option pc_owner (find (\<lambda>p. piece_tile p = Some t) (jvals (gs_pieces s)))"

definition getOffers :: "fstate \<Rightarrow> trade_offer list" where
  "getOffers s = (case fx_tradeOffers (gs_extras s) of Some os \<Rightarrow> os | None \<Rightarrow> [])"

definition getForts :: "fstate \<Rightarrow> (string, string) jsmap" where
  "getForts s = (case fx_fortifications (gs_extras s) of Some m \<Rightarrow> m | None \<Rightarrow> [])"

abbreviation set_fextras :: "(fextras \<Rightarrow> fextras) \<Rightarrow> fstate \<Rightarrow> fstate" where
  "set_fextras f s \<equiv> s\<lparr>gs_extras := f (gs_extras s)\<rparr>"

text \<open>
  A mutation of the inventory \<open>state.inventories.get(p)!\<close>, which throws when there is none, and
  a sequence of statements of which the first that throws ends the handler.
\<close>

definition on_inv :: "string \<Rightarrow> (inventory, unit) effect \<Rightarrow> (fstate, unit) effect" where
  "on_inv p f s =
     (case jget (gs_inventories s) p of
        None \<Rightarrow> (Inl TypeError, s)
      | Some bag \<Rightarrow> (case f bag of (r, bag') \<Rightarrow> (r, put_inventory p bag' s)))"

definition guarded :: "bool \<Rightarrow> (fstate, unit) effect \<Rightarrow> (fstate, unit) effect" where
  "guarded c f s = (if c then f s else (Inr (), s))"

definition mutate :: "(fstate \<Rightarrow> fstate) \<Rightarrow> (fstate, unit) effect" where
  "mutate f s = (Inr (), f s)"

fun sequence :: "(fstate, unit) effect list \<Rightarrow> (fstate, unit) effect" where
  "sequence [] s = (Inr (), s)"
| "sequence (f # fs) s = (case f s of (Inl e, s') \<Rightarrow> (Inl e, s') | (Inr _, s') \<Rightarrow> sequence fs s')"

text \<open>A handler that runs its statements and returns its events.\<close>

definition returning :: "'a \<Rightarrow> (fstate, unit) effect \<Rightarrow> (fstate, 'a) effect" where
  "returning a f s = (case f s of (Inl e, s') \<Rightarrow> (Inl e, s') | (Inr _, s') \<Rightarrow> (Inr a, s'))"

definition raise_flag :: "string \<Rightarrow> bool \<Rightarrow> fstate \<Rightarrow> fstate" where
  "raise_flag name v s = s\<lparr>gs_rounds := setFlag name v (gs_rounds s)\<rparr>"

section \<open>claim-tile\<close>

definition claimTileValidator :: "fstate \<Rightarrow> faction \<Rightarrow> exn + action_error option" where
  "claimTileValidator s a =
     (case frontierGuard s (ac_playerId a) of
        Some e \<Rightarrow> Inr (Some e)
      | None \<Rightarrow>
        if currentPhaseId (currentTurn (gs_rounds s)) \<noteq> ''turn'' then reject ''wrong-phase''
        else if flagSet s ''claimedThisTurn'' then reject ''already-claimed''
        else (case tileById (gs_map s) (fp_tileId (ac_payload a)) of
                None \<Rightarrow> reject ''invalid-tile''
              | Some hex \<Rightarrow>
                  if isTileOccupied s (fp_tileId (ac_payload a)) then reject ''tile-occupied''
                  else if \<not> flagSet s ''stoneLeap'' then
                    (let owned = ownedTileCoords s (actor a); tq = ax_q (tile_coord hex); tr = ax_r (tile_coord hex)
                     in if length owned = 0 then reject ''no-territory''
                        else if \<not> list_ex (\<lambda>d. list_ex (\<lambda>c. ax_q c = tq - ax_q d \<and> ax_r c = tr - ax_r d) owned) HEX_DIRS
                        then reject ''not-adjacent'' else accept)
                  else accept))"

definition bonusFor :: "int \<Rightarrow> int" where
  "bonusFor roll = (if roll \<ge> 10 then 2 else if roll \<ge> 7 then 1 else 0)"

definition claimTileExecutor :: "faction \<Rightarrow> (fstate, fevents) effect" where
  "claimTileExecutor a s =
     (let t = fp_tileId (ac_payload a); me = actor a
      in case tileById (gs_map s) t of
           None \<Rightarrow> (Inl TypeError, s)
         | Some hex \<Rightarrow>
             let baseVp = (case jget FRONTIER_TERRAIN_VP (tile_terrain hex) of Some v \<Rightarrow> v | None \<Rightarrow> 1)
             in case intInRange 1 6 (gs_rng s) of
                  (Inl e, g1) \<Rightarrow> (Inl e, s\<lparr>gs_rng := g1\<rparr>)
                | (Inr die1, g1) \<Rightarrow>
                    (case intInRange 1 6 g1 of
                       (Inl e, g2) \<Rightarrow> (Inl e, s\<lparr>gs_rng := g2\<rparr>)
                     | (Inr die2, g2) \<Rightarrow>
                         let diceRoll = die1 + die2;
                             vp = baseVp + bonusFor diceRoll;
                             resource = (case jget FRONTIER_TERRAIN_RESOURCE (tile_terrain hex) of Some r \<Rightarrow> r | None \<Rightarrow> None);
                             pieceId = ''flag-'' @ me @ ''-'' @ t
                         in returning
                              [mkEvent ''tile-claimed'' (Some me) (TileClaimed
                                 \<lparr>cl_tileId = t, cl_terrain = tile_terrain hex, cl_vp = vp, cl_claimedBy = me, cl_diceRoll = diceRoll,
                                  cl_die1 = die1, cl_die2 = die2, cl_bonusVp = bonusFor diceRoll, cl_resource = resource\<rparr>)]
                              (sequence
                                [on_inv me (inv_add ''vp'' vp),
                                 (case resource of Some r \<Rightarrow> guarded (r \<noteq> []) (on_inv me (inv_add r 1)) | None \<Rightarrow> mutate id),
                                 mutate (place_piece (makeUnit pieceId ''flag'' me t None None)),
                                 mutate (raise_flag ''claimedThisTurn'' True),
                                 mutate (raise_flag ''stoneLeap'' False)])
                              (s\<lparr>gs_rng := g2\<rparr>)))"

section \<open>end-turn\<close>

definition frontierEndTurnValidator :: "fstate \<Rightarrow> faction \<Rightarrow> exn + action_error option" where
  "frontierEndTurnValidator s a = Inr (frontierGuard s (ac_playerId a))"

text \<open>\<open>if (inv) \<dots>\<close>: an owner without an inventory earns nothing and causes no event.\<close>

fun fortIncome :: "(string \<times> string) list \<Rightarrow> (fstate, fevents) effect" where
  "fortIncome [] s = (Inr [], s)"
| "fortIncome ((t, ownerId) # forts) s =
     (case jget (gs_inventories s) ownerId of
        None \<Rightarrow> fortIncome forts s
      | Some _ \<Rightarrow>
          (case on_inv ownerId (inv_add ''vp'' 1) s of
             (Inl e, s') \<Rightarrow> (Inl e, s')
           | (Inr _, s') \<Rightarrow>
               (case fortIncome forts s' of
                  (Inl e, s'') \<Rightarrow> (Inl e, s'')
                | (Inr es, s'') \<Rightarrow> (Inr (mkEvent ''fort-income'' (Some ownerId) (FortIncome t 1) # es), s''))))"

text \<open>The table \<open>tileIncome\<close>: wood and stone per owner, in the order the owners first appear.\<close>

definition income_entry :: "game_map \<Rightarrow> string \<times> piece \<Rightarrow> (string, int \<times> int) jsmap \<Rightarrow> (string, int \<times> int) jsmap" where
  "income_entry m ip table =
     (case ip of (_, p) \<Rightarrow>
        case piece_tile p of
          None \<Rightarrow> table
        | Some t \<Rightarrow>
            (case tileById m t of
               None \<Rightarrow> table
             | Some hex \<Rightarrow>
                 (case jget FRONTIER_TERRAIN_RESOURCE (tile_terrain hex) of
                    Some (Some r) \<Rightarrow>
                      if r = [] then table
                      else let (wood, stone) = (case jget table (pc_owner p) of Some e \<Rightarrow> e | None \<Rightarrow> (0, 0))
                           in jput (pc_owner p) (if r = ''wood'' then wood + 1 else wood, if r = ''stone'' then stone + 1 else stone) table
                  | _ \<Rightarrow> table)))"

definition tileIncomeTable :: "fstate \<Rightarrow> (string, int \<times> int) jsmap" where
  "tileIncomeTable s = fold (income_entry (gs_map s)) (gs_pieces s) []"

fun payTileIncome :: "(string \<times> int \<times> int) list \<Rightarrow> (fstate, fevents) effect" where
  "payTileIncome [] s = (Inr [], s)"
| "payTileIncome ((ownerId, wood, stone) # rest) s =
     (case jget (gs_inventories s) ownerId of
        None \<Rightarrow> payTileIncome rest s
      | Some _ \<Rightarrow>
          (case sequence [guarded (wood > 0) (on_inv ownerId (inv_add ''wood'' wood)),
                          guarded (stone > 0) (on_inv ownerId (inv_add ''stone'' stone))] s of
             (Inl e, s') \<Rightarrow> (Inl e, s')
           | (Inr _, s') \<Rightarrow>
               (case payTileIncome rest s' of
                  (Inl e, s'') \<Rightarrow> (Inl e, s'')
                | (Inr es, s'') \<Rightarrow> (Inr (mkEvent ''tile-income'' (Some ownerId) (TileIncome wood stone) # es), s''))))"

definition frontierEndTurnExecutor :: "faction \<Rightarrow> (fstate, fevents) effect" where
  "frontierEndTurnExecutor a s =
     (let prevRound = currentRound (gs_rounds s)
      in case rm_endTurn turn_next (pm_all (gs_players s)) ''turn'' (gs_rounds s) of
           (Inl e, rm) \<Rightarrow> (Inl e, s\<lparr>gs_rounds := rm\<rparr>)
         | (Inr te, rm) \<Rightarrow>
             let s1 = s\<lparr>gs_rounds := rm\<rparr>;
                 ended = mkEvent ''turn-ended'' (ac_playerId a) (FTurnEnded (newActivePlayer te))
             in if \<not> newRound te then (Inr [ended], s1)
                else (case fortIncome (getForts s1) s1 of
                        (Inl e, s2) \<Rightarrow> (Inl e, s2)
                      | (Inr es1, s2) \<Rightarrow>
                          (case payTileIncome (tileIncomeTable s2) s2 of
                             (Inl e, s3) \<Rightarrow> (Inl e, s3)
                           | (Inr es2, s3) \<Rightarrow>
                               (Inr ([ended, mkEvent ''round-ended'' None (FRoundEnded prevRound)] @ es1 @ es2), s3))))"

section \<open>trade\<close>

text \<open>\<open>state.inventories.get(playerId)!\<close> in a validator.\<close>

definition with_inv :: "fstate \<Rightarrow> string \<Rightarrow> (inventory \<Rightarrow> exn + action_error option) \<Rightarrow> exn + action_error option" where
  "with_inv s p f = (case jget (gs_inventories s) p of None \<Rightarrow> Inl TypeError | Some bag \<Rightarrow> f bag)"

definition tradeValidator :: "fstate \<Rightarrow> faction \<Rightarrow> exn + action_error option" where
  "tradeValidator s a =
     (case frontierGuard s (ac_playerId a) of
        Some e \<Rightarrow> Inr (Some e)
      | None \<Rightarrow>
        (let resource = fp_resource (ac_payload a)
         in if resource \<noteq> ''wood'' \<and> resource \<noteq> ''stone'' then reject ''invalid-resource''
            else with_inv s (actor a) (\<lambda>bag.
              if inv_get bag resource < 2 then reject ''insufficient''
              else if resource = ''stone'' \<and> flagSet s ''stoneLeap'' then reject ''already-leaping''
              else accept)))"

definition tradeExecutor :: "faction \<Rightarrow> (fstate, fevents) effect" where
  "tradeExecutor a =
     (let me = actor a; resource = fp_resource (ac_payload a)
      in if resource = ''wood''
         then returning [mkEvent ''trade'' (Some me) (TradedForVp resource 1)]
                (sequence [on_inv me (inv_remove resource 2), on_inv me (inv_add ''vp'' 1)])
         else returning [mkEvent ''trade'' (Some me) (TradedForLeap resource)]
                (sequence [on_inv me (inv_remove resource 2), mutate (raise_flag ''stoneLeap'' True)]))"

section \<open>fortify\<close>

definition fortifyValidator :: "fstate \<Rightarrow> faction \<Rightarrow> exn + action_error option" where
  "fortifyValidator s a =
     (case frontierGuard s (ac_playerId a) of
        Some e \<Rightarrow> Inr (Some e)
      | None \<Rightarrow>
        (let t = fp_tileId (ac_payload a)
         in with_inv s (actor a) (\<lambda>bag.
              if inv_get bag ''wood'' < 2 then reject ''insufficient''
              else if inv_get bag ''stone'' < 1 then reject ''insufficient''
              else if tileById (gs_map s) t = None then reject ''invalid-tile''
              else if tileOwner s t \<noteq> Some (actor a) then reject ''not-yours''
              else if (case jget (getForts s) t of Some w \<Rightarrow> w \<noteq> [] | None \<Rightarrow> False) then reject ''already-fortified''
              else accept)))"

definition fortifyExecutor :: "faction \<Rightarrow> (fstate, fevents) effect" where
  "fortifyExecutor a =
     (let me = actor a; t = fp_tileId (ac_payload a)
      in returning [mkEvent ''fortify'' (Some me) (Fortified t 2 1)]
           (sequence [on_inv me (inv_remove ''wood'' 2), on_inv me (inv_remove ''stone'' 1),
              mutate (\<lambda>s. set_fextras (fx_fortifications_update (\<lambda>_. Some (jput t me (getForts s)))) s)]))"

section \<open>post-offer, accept-offer, cancel-offer\<close>

definition postOfferValidator :: "fstate \<Rightarrow> faction \<Rightarrow> exn + action_error option" where
  "postOfferValidator s a =
     (case frontierGuard s (ac_playerId a) of
        Some e \<Rightarrow> Inr (Some e)
      | None \<Rightarrow>
        (let p = ac_payload a
         in if fp_giveWood p < 0 \<or> fp_giveStone p < 0 \<or> fp_wantWood p < 0 \<or> fp_wantStone p < 0 then reject ''invalid''
            else if fp_giveWood p + fp_giveStone p = 0 then reject ''invalid''
            else if fp_wantWood p + fp_wantStone p = 0 then reject ''invalid''
            else with_inv s (actor a) (\<lambda>bag.
              if inv_get bag ''wood'' < fp_giveWood p then reject ''insufficient''
              else if inv_get bag ''stone'' < fp_giveStone p then reject ''insufficient''
              else if length (filter (\<lambda>o'. to_fromPlayerId o' = actor a) (getOffers s)) \<ge> 3 then reject ''too-many-offers''
              else accept)))"

definition newOffer :: "fstate \<Rightarrow> faction \<Rightarrow> trade_offer" where
  "newOffer s a =
     (let p = ac_payload a; nextId = (case fx_nextOfferId (gs_extras s) of Some k \<Rightarrow> k | None \<Rightarrow> 0) + 1
      in \<lparr>to_id = show_int nextId, to_fromPlayerId = actor a, to_giveWood = fp_giveWood p, to_giveStone = fp_giveStone p,
          to_wantWood = fp_wantWood p, to_wantStone = fp_wantStone p\<rparr>)"

definition postOfferExecutor :: "faction \<Rightarrow> (fstate, fevents) effect" where
  "postOfferExecutor a s =
     (let me = actor a; p = ac_payload a
      in returning [mkEvent ''post-offer'' (Some me) (OfferPosted (newOffer s a))]
           (sequence
             [guarded (fp_giveWood p > 0) (on_inv me (inv_remove ''wood'' (fp_giveWood p))),
              guarded (fp_giveStone p > 0) (on_inv me (inv_remove ''stone'' (fp_giveStone p))),
              mutate (\<lambda>s'. set_fextras (fx_nextOfferId_update (\<lambda>n. Some ((case n of Some k \<Rightarrow> k | None \<Rightarrow> 0) + 1))) s'),
              mutate (\<lambda>s'. set_fextras (fx_tradeOffers_update (\<lambda>_. Some (getOffers s' @ [newOffer s a]))) s')]) s)"

definition findOffer :: "fstate \<Rightarrow> string \<Rightarrow> trade_offer option" where
  "findOffer s i = find (\<lambda>o'. to_id o' = i) (getOffers s)"

definition dropOffer :: "trade_offer \<Rightarrow> trade_offer list \<Rightarrow> fstate \<Rightarrow> fstate" where
  "dropOffer offer offers = set_fextras (fx_tradeOffers_update (\<lambda>_. Some (filter (\<lambda>o'. to_id o' \<noteq> to_id offer) offers)))"

definition acceptOfferValidator :: "fstate \<Rightarrow> faction \<Rightarrow> exn + action_error option" where
  "acceptOfferValidator s a =
     (case frontierGuard s (ac_playerId a) of
        Some e \<Rightarrow> Inr (Some e)
      | None \<Rightarrow>
        (case findOffer s (fp_offerId (ac_payload a)) of
           None \<Rightarrow> reject ''no-offer''
         | Some offer \<Rightarrow>
             if to_fromPlayerId offer = actor a then reject ''own-offer''
             else with_inv s (actor a) (\<lambda>bag.
               if inv_get bag ''wood'' < to_wantWood offer then reject ''insufficient''
               else if inv_get bag ''stone'' < to_wantStone offer then reject ''insufficient''
               else accept)))"

definition acceptOfferExecutor :: "faction \<Rightarrow> (fstate, fevents) effect" where
  "acceptOfferExecutor a s =
     (let me = actor a
      in case findOffer s (fp_offerId (ac_payload a)) of
           None \<Rightarrow> (Inl TypeError, s)
         | Some offer \<Rightarrow>
             returning [mkEvent ''accept-offer'' (Some me) (OfferAccepted (to_id offer) offer me)]
               (sequence
                 [guarded (to_wantWood offer > 0) (on_inv me (inv_remove ''wood'' (to_wantWood offer))),
                  guarded (to_wantStone offer > 0) (on_inv me (inv_remove ''stone'' (to_wantStone offer))),
                  guarded (to_giveWood offer > 0) (on_inv me (inv_add ''wood'' (to_giveWood offer))),
                  guarded (to_giveStone offer > 0) (on_inv me (inv_add ''stone'' (to_giveStone offer))),
                  guarded (to_wantWood offer > 0) (on_inv (to_fromPlayerId offer) (inv_add ''wood'' (to_wantWood offer))),
                  guarded (to_wantStone offer > 0) (on_inv (to_fromPlayerId offer) (inv_add ''stone'' (to_wantStone offer))),
                  mutate (dropOffer offer (getOffers s))]) s)"

definition cancelOfferValidator :: "fstate \<Rightarrow> faction \<Rightarrow> exn + action_error option" where
  "cancelOfferValidator s a =
     (case frontierGuard s (ac_playerId a) of
        Some e \<Rightarrow> Inr (Some e)
      | None \<Rightarrow>
        (case findOffer s (fp_offerId (ac_payload a)) of
           None \<Rightarrow> reject ''no-offer''
         | Some offer \<Rightarrow> if to_fromPlayerId offer \<noteq> actor a then reject ''not-yours'' else accept))"

definition cancelOfferExecutor :: "faction \<Rightarrow> (fstate, fevents) effect" where
  "cancelOfferExecutor a s =
     (let me = actor a
      in case findOffer s (fp_offerId (ac_payload a)) of
           None \<Rightarrow> (Inl TypeError, s)
         | Some offer \<Rightarrow>
             returning [mkEvent ''cancel-offer'' (Some me) (OfferCancelled (to_id offer) offer)]
               (sequence
                 [guarded (to_giveWood offer > 0) (on_inv me (inv_add ''wood'' (to_giveWood offer))),
                  guarded (to_giveStone offer > 0) (on_inv me (inv_add ''stone'' (to_giveStone offer))),
                  mutate (dropOffer offer (getOffers s))]) s)"

end
