(* ===== verification/FrontierScenario.thy ===== *)
theory FrontierScenario
  imports FrontierActions
begin

text \<open>
  The map, the victory conditions, the setup hook and the scenario object of "Frontier",
  \<open>scenarios/demo/map.ts\<close>, \<open>victory.ts\<close> and \<open>scenario.ts\<close>.
\<close>

section \<open>The map (map.ts)\<close>

definition FRONTIER_COORDS :: "axial list" where
  "FRONTIER_COORDS =
     [axial 0 0,
      axial 1 0, axial 1 (-1), axial 0 (-1), axial (-1) 0, axial (-1) 1, axial 0 1,
      axial 2 0, axial 2 (-1), axial 2 (-2), axial 1 (-2), axial 0 (-2), axial (-1) (-1),
      axial (-2) 0, axial (-2) 1, axial (-2) 2, axial (-1) 2, axial 0 2, axial 1 1,
      axial 3 0, axial 3 (-1), axial 3 (-2), axial 3 (-3), axial 2 (-3), axial 1 (-3), axial 0 (-3),
      axial (-1) (-2), axial (-2) (-1), axial (-3) 0, axial (-3) 1, axial (-3) 2, axial (-3) 3,
      axial (-2) 3, axial (-1) 3, axial 0 3, axial 1 2, axial 2 1]"

definition FRONTIER_TERRAIN_BAG :: "string list" where
  "FRONTIER_TERRAIN_BAG = replicate 12 ''grass'' @ replicate 14 ''forest'' @ replicate 11 ''mountain''"

text \<open>
  The loop of the shuffle is the one of \<open>Deck.shuffle\<close>, drawing from a generator of its own.
\<close>

definition buildDemoMap :: "nat \<Rightarrow> string \<Rightarrow> exn + game_map" where
  "buildDemoMap playerCount seed =
     (case shuffle_loop intInRange (length FRONTIER_TERRAIN_BAG - 1) FRONTIER_TERRAIN_BAG (newSeededRandom (seedFromString seed)) of
        (Inl e, _, _) \<Rightarrow> Inl e
      | (Inr _, terrains, _) \<Rightarrow>
          Inr (mb_build (fold (\<lambda>(i, c). mb_addTile c (terrains ! i) None) (enumerate 0 FRONTIER_COORDS) newMapBuilder)))"

section \<open>Victory (victory.ts)\<close>

definition WIN_VP :: int where
  "WIN_VP = 18"

fun firstWinner :: "(string \<times> inventory) list \<Rightarrow> victory_result option" where
  "firstWinner [] = None"
| "firstWinner ((playerId, bag) # rest) =
     (if inv_get bag ''vp'' \<ge> WIN_VP
      then Some \<lparr>vr_winner = Some playerId, vr_reason = ''Reached '' @ show_int WIN_VP @ '' victory points'',
                 vr_conditionId = ''first-to-eighteen-vp''\<rparr>
      else firstWinner rest)"

definition firstToEighteenVP :: "fstate victory_condition" where
  "firstToEighteenVP = \<lparr>vc_id = ''first-to-eighteen-vp'', vc_evaluate = (\<lambda>s. Inr (firstWinner (gs_inventories s)))\<rparr>"

text \<open>The loop over the inventories: winner, best total so far, and whether it is shared.\<close>

fun topScore :: "(string \<times> inventory) list \<Rightarrow> string option \<times> int \<times> bool \<Rightarrow> string option \<times> int \<times> bool" where
  "topScore [] acc = acc"
| "topScore ((playerId, bag) # rest) (winner, topVP, tied) =
     (let vp = inv_get bag ''vp''
      in if vp > topVP then topScore rest (Some playerId, vp, False)
         else if vp = topVP then topScore rest (winner, topVP, True)
         else topScore rest (winner, topVP, tied))"

text \<open>The em dash of the message, in UTF-8.\<close>

definition EM_DASH :: string where
  "EM_DASH = [CHR 0xE2, CHR 0x80, CHR 0x94]"

definition claimedTiles :: "fstate \<Rightarrow> string list" where
  "claimedTiles s = fold jadd (concat (map (\<lambda>p. case piece_tile p of Some t \<Rightarrow> [t] | None \<Rightarrow> []) (jvals (gs_pieces s)))) []"

definition allTilesClaimed :: "fstate victory_condition" where
  "allTilesClaimed =
     \<lparr>vc_id = ''all-tiles-claimed'',
      vc_evaluate = (\<lambda>s.
        if length (claimedTiles s) < length (jvals (gm_tiles (gs_map s))) then Inr None
        else (case topScore (gs_inventories s) (None, -1, False) of
                (winner, topVP, tied) \<Rightarrow>
                  Inr (Some \<lparr>vr_winner = (if tied then None else winner),
                             vr_reason = (if tied then ''Board full '' @ EM_DASH @ '' draw at '' @ show_int topVP @ '' VP!''
                                          else ''Board full '' @ EM_DASH @ '' wins with '' @ show_int topVP @ '' VP''),
                             vr_conditionId = ''all-tiles-claimed''\<rparr>)))\<rparr>"

section \<open>Registries and starting positions (scenario.ts)\<close>

definition fterrain :: "string \<Rightarrow> string \<Rightarrow> real \<Rightarrow> terrain_def" where
  "fterrain i name vp = \<lparr>ter_id = i, ter_name = name, ter_produces = Some ''vp'', ter_meta = Some [(''vp'', vp)]\<rparr>"

definition frontierTerrains :: terrain_registry where
  "frontierTerrains =
     (case terrains.register_all [fterrain ''grass'' ''Plains'' 1, fterrain ''forest'' ''Forest'' 2, fterrain ''mountain'' ''Mountain'' 3] [] of
        Inr r \<Rightarrow> r | Inl _ \<Rightarrow> [])"

definition fresource :: "string \<Rightarrow> string \<Rightarrow> string \<Rightarrow> resource_def" where
  "fresource i name symbol = \<lparr>res_id = i, res_name = name, res_symbol = Some symbol, res_meta = None\<rparr>"

text \<open>The symbols are the star, wood and rock pictographs in UTF-8.\<close>

definition frontierResources :: resource_registry where
  "frontierResources =
     (case resources.register_all
        [fresource ''vp'' ''Victory Points'' [CHR 0xE2, CHR 0x98, CHR 0x85],
         fresource ''wood'' ''Wood'' [CHR 0xF0, CHR 0x9F, CHR 0xAA, CHR 0xB5],
         fresource ''stone'' ''Stone'' [CHR 0xF0, CHR 0x9F, CHR 0xAA, CHR 0xA8]] [] of
        Inr r \<Rightarrow> r | Inl _ \<Rightarrow> [])"

definition frontierPieces :: piece_registry where
  "frontierPieces =
     (case piece_kinds.register_all
        [\<lparr>pk_kind = ''flag'', pk_category = Unit, pk_displayName = ''Settlement'', pk_cost = None,
          pk_limitPerPlayer = Some 19, pk_defaultStats = None, pk_meta = None\<rparr>] [] of
        Inr r \<Rightarrow> r | Inl _ \<Rightarrow> [])"

definition FRONTIER_STARTING_COORDS :: "(nat, axial list) jsmap" where
  "FRONTIER_STARTING_COORDS =
     [(2, [axial 3 (-2), axial (-3) 2]),
      (3, [axial 3 0, axial (-1) (-2), axial (-2) 3]),
      (4, [axial 3 0, axial (-3) 0, axial 0 (-3), axial 0 3])]"

section \<open>The setup hook and the scenario object (scenario.ts)\<close>

text \<open>The body of \<open>players.forEach\<close>; \<open>homeTiles\<close> is threaded along.\<close>

definition homeStep :: "axial list \<Rightarrow> nat \<times> player \<Rightarrow> ((string, string) jsmap \<times> fstate, unit) effect" where
  "homeStep coords ip st =
     (case ip of (i, p) \<Rightarrow>
      case st of (homes, s) \<Rightarrow>
        if length coords \<le> i then (Inr (), st)
        else let t = tileId (coords ! i)
             in case tileById (gs_map s) t of
                  None \<Rightarrow> (Inr (), st)
                | Some hex \<Rightarrow>
                    let vp = (case jget FRONTIER_TERRAIN_VP (tile_terrain hex) of Some v \<Rightarrow> v | None \<Rightarrow> 1);
                        pieceId = ''flag-'' @ pl_id p @ ''-'' @ t;
                        s1 = place_piece (makeUnit pieceId ''flag'' (pl_id p) t None None) s
                    in (case jget (gs_inventories s1) (pl_id p) of
                          None \<Rightarrow> (Inr (), (jput (pl_id p) t homes, s1))
                        | Some _ \<Rightarrow>
                            (case on_inv (pl_id p) (inv_add ''vp'' vp) s1 of
                               (Inl e, s2) \<Rightarrow> (Inl e, (homes, s2))
                             | (Inr _, s2) \<Rightarrow> (Inr (), (jput (pl_id p) t homes, s2)))))"

fun homeSteps :: "axial list \<Rightarrow> (nat \<times> player) list \<Rightarrow> ((string, string) jsmap \<times> fstate, unit) effect" where
  "homeSteps coords [] st = (Inr (), st)"
| "homeSteps coords (ip # ips) st =
     (case homeStep coords ip st of
        (Inl e, st') \<Rightarrow> (Inl e, st')
      | (Inr _, st') \<Rightarrow> homeSteps coords ips st')"

definition frontierSetup :: "player list \<Rightarrow> (fstate, unit) effect" where
  "frontierSetup players s =
     (let coords = (case jget FRONTIER_STARTING_COORDS (length players) of
                      Some cs \<Rightarrow> cs
                    | None \<Rightarrow> (case jget FRONTIER_STARTING_COORDS 2 of Some cs \<Rightarrow> cs | None \<Rightarrow> []))
      in case homeSteps coords (enumerate 0 players) ([], s) of
           (Inl e, (_, s')) \<Rightarrow> (Inl e, s')
         | (Inr _, (homes, s')) \<Rightarrow> (Inr (), set_fextras (fx_homeTiles_update (\<lambda>_. Some homes)) s'))"

definition frontierValidators :: "(fextras, fpayload, fevent) validator list" where
  "frontierValidators =
     [\<lparr>va_type = ''claim-tile'', va_validate = claimTileValidator\<rparr>,
      \<lparr>va_type = ''end-turn'', va_validate = frontierEndTurnValidator\<rparr>,
      \<lparr>va_type = ''trade'', va_validate = tradeValidator\<rparr>,
      \<lparr>va_type = ''fortify'', va_validate = fortifyValidator\<rparr>,
      \<lparr>va_type = ''post-offer'', va_validate = postOfferValidator\<rparr>,
      \<lparr>va_type = ''accept-offer'', va_validate = acceptOfferValidator\<rparr>,
      \<lparr>va_type = ''cancel-offer'', va_validate = cancelOfferValidator\<rparr>]"

definition frontierExecutors :: "(fextras, fpayload, fevent) executor list" where
  "frontierExecutors =
     [\<lparr>ex_type = ''claim-tile'', ex_execute = claimTileExecutor\<rparr>,
      \<lparr>ex_type = ''end-turn'', ex_execute = frontierEndTurnExecutor\<rparr>,
      \<lparr>ex_type = ''trade'', ex_execute = tradeExecutor\<rparr>,
      \<lparr>ex_type = ''fortify'', ex_execute = fortifyExecutor\<rparr>,
      \<lparr>ex_type = ''post-offer'', ex_execute = postOfferExecutor\<rparr>,
      \<lparr>ex_type = ''accept-offer'', ex_execute = acceptOfferExecutor\<rparr>,
      \<lparr>ex_type = ''cancel-offer'', ex_execute = cancelOfferExecutor\<rparr>]"

definition emptyFextras :: fextras where
  "emptyFextras = \<lparr>fx_fortifications = None, fx_tradeOffers = None, fx_nextOfferId = None, fx_homeTiles = None\<rparr>"

definition demoScenario :: "(fextras, fpayload, fevent) scenario" where
  "demoScenario =
     \<lparr>sc_id = ''demo-v1'', sc_name = ''Frontier'', sc_minPlayers = 2, sc_maxPlayers = 4,
      sc_terrains = frontierTerrains, sc_resources = frontierResources, sc_pieces = frontierPieces,
      sc_phases = [\<lparr>ph_id = ''turn'', ph_displayName = ''Your Turn'', ph_nextPhases = [''turn'']\<rparr>],
      sc_initialPhaseId = ''turn'', sc_turnOrder = Clockwise,
      sc_validators = frontierValidators, sc_executors = frontierExecutors, sc_rules = [],
      sc_victoryConditions = [firstToEighteenVP, allTilesClaimed],
      sc_buildMap = buildDemoMap, sc_onSetup = Some frontierSetup, sc_initialExtras = emptyFextras\<rparr>"

end
