(* ===== verification/Bus.thy ===== *)
theory Bus
  imports Events
begin

text \<open>
  The message bus between the services: routing keys (\<open>packages/event-bus/src/topology.ts\<close>), the
  acknowledgement protocol of a consumer (\<open>consumer.ts\<close>) and the messages themselves
  (\<open>packages/shared-types/src/events\<close>). RabbitMQ is not modelled: a publisher appends to a trace,
  and a consumer handles one delivered message.
\<close>

section \<open>Exchanges and routing keys\<close>

definition GameCommandsExchange :: string where "GameCommandsExchange = ''game.commands''"
definition GameEventsExchange :: string where "GameEventsExchange = ''game.events''"
definition LobbyEventsExchange :: string where "LobbyEventsExchange = ''lobby.events''"

definition gameCommandKey :: "string \<Rightarrow> string" where
  "gameCommandKey gameId = ''game.'' @ gameId @ ''.command''"

definition gameEventKey :: "string \<Rightarrow> string \<Rightarrow> string" where
  "gameEventKey gameId eventType = ''game.'' @ gameId @ ''.'' @ eventType"

definition lobbyEventKey :: "string \<Rightarrow> string \<Rightarrow> string" where
  "lobbyEventKey roomId eventType = ''lobby.'' @ roomId @ ''.'' @ eventType"

section \<open>Messages\<close>

text \<open>
  The payload of a game event is the snapshot of the view (\<open>game-started\<close>), an error, or what the
  scenario's executors or the engine put into the event.
\<close>

datatype ('e, 'v) bus_payload = SnapshotPayload 'v | ErrorPayload action_error | EventPayload "'e event_payload"

record ('e, 'v) bus_event =
  be_gameId :: string
  be_seq :: int
  be_type :: string
  be_payload :: "('e, 'v) bus_payload"
  be_at :: int
  be_playerId :: "string option"
  be_privateTo :: "string option"

record 'p command_message =
  cm_gameId :: string
  cm_userId :: string
  cm_type :: string
  cm_payload :: 'p
  cm_clientSeq :: "int option"
  cm_socketId :: "string option"

datatype lobby_event =
    RoomCreated string string int
  | RoomUpdated string int
  | RoomClosed string string int
  | PlayerJoined string string int
  | PlayerLeft string string int
  | PlayerReady string string bool int
  | GameStarting string string string "(string \<times> string) list" int

text \<open>A string field that is copied only when it is truthy.\<close>

definition truthy :: "string option \<Rightarrow> string option" where
  "truthy x = (if x = Some [] then None else x)"

section \<open>A consumer (consumer.ts)\<close>

datatype delivery = Ack | Nack

text \<open>
  \<open>parse\<close> stands for \<open>JSON.parse\<close> on the body. A handler that throws keeps the mutations it has
  made, and its message is rejected for good.
\<close>

definition consume :: "('raw \<Rightarrow> exn + 'm) \<Rightarrow> ('m \<Rightarrow> ('s, unit) effect) \<Rightarrow> 'raw option \<Rightarrow> 's \<Rightarrow> delivery option \<times> 's" where
  "consume parse handler msg s =
     (case msg of
        None \<Rightarrow> (None, s)
      | Some raw \<Rightarrow>
          (case parse raw of
             Inl e \<Rightarrow> (Some Nack, s)
           | Inr m \<Rightarrow> (case handler m s of (Inl e, s') \<Rightarrow> (Some Nack, s') | (Inr _, s') \<Rightarrow> (Some Ack, s'))))"

end
