(* ===== verification/EngineService.thy ===== *)
theory EngineService
  imports Game Bus
begin

text \<open>
  The service that hosts the games, \<open>apps/game-engine/src\<close>: the registry of scenarios
  (\<open>engine/scenario.registry.ts\<close>), the wrapper around one game with its event buffer
  (\<open>engine/game-instance.ts\<close>), the handling of commands (\<open>engine/engine.service.ts\<close>), the
  subscriptions (\<open>engine/game-runner.service.ts\<close>) and the endpoints (\<open>messaging/games.controller.ts\<close>).
  What the service writes to Redis and to the bus is a trace of outputs in the order of the calls.
\<close>

section \<open>Scenarios on offer (scenario.registry.ts)\<close>

type_synonym victory_info = "(string option \<times> string) option"

record ('x, 'p, 'e, 'v) hosted =
  ho_scenario :: "('x, 'p, 'e) scenario"
  ho_buildView :: "(('x, 'p, 'e) game_state \<Rightarrow> player list \<Rightarrow> victory_info \<Rightarrow> 'v) option"

definition ho_id :: "('x, 'p, 'e, 'v) hosted \<Rightarrow> string" where
  "ho_id h = sc_id (ho_scenario h)"

type_synonym ('x, 'p, 'e, 'v) scenario_registry = "(string, ('x, 'p, 'e, 'v) hosted) jsmap"

definition registerScenario ::
  "('x, 'p, 'e, 'v) hosted \<Rightarrow> ('x, 'p, 'e, 'v) scenario_registry \<Rightarrow> exn + ('x, 'p, 'e, 'v) scenario_registry" where
  "registerScenario h m = reg_insert (ho_id h) h m"

definition lookupScenario :: "('x, 'p, 'e, 'v) scenario_registry \<Rightarrow> string \<Rightarrow> ('x, 'p, 'e, 'v) hosted option" where
  "lookupScenario m i = jget m i"

definition getScenario :: "('x, 'p, 'e, 'v) scenario_registry \<Rightarrow> string \<Rightarrow> exn + ('x, 'p, 'e, 'v) hosted" where
  "getScenario m i = (case lookupScenario m i of None \<Rightarrow> Inl (NotFound i) | Some h \<Rightarrow> Inr h)"

definition listScenarios :: "('x, 'p, 'e, 'v) scenario_registry \<Rightarrow> ('x, 'p, 'e, 'v) hosted list" where
  "listScenarios m = jvals m"

interpretation scenarios: registry registerScenario lookupScenario ho_id
  unfolding registerScenario_def lookupScenario_def by (rule registry_reg_insert)

section \<open>One running game (game-instance.ts)\<close>

text \<open>
  The buffer is filled by a wildcard listener. What a listener was called with is recorded by the
  emitter, so the buffer is the part of that record beyond what has been drained; the emitter of a
  new game has no listener yet, so the number 0 is free.
\<close>

record ('x, 'p, 'e, 'v) instance_of =
  gi_gameId :: string
  gi_game :: "('x, 'p, 'e) game"
  gi_hosted :: "('x, 'p, 'e, 'v) hosted"
  gi_drained :: nat

definition newInstance :: "string \<Rightarrow> ('x, 'p, 'e) game \<Rightarrow> ('x, 'p, 'e, 'v) hosted \<Rightarrow> ('x, 'p, 'e, 'v) instance_of" where
  "newInstance gameId g h =
     \<lparr>gi_gameId = gameId, gi_game = g\<lparr>g_events := em_onAny 0 (g_events g)\<rparr>, gi_hosted = h, gi_drained = 0\<rparr>"

definition startInstance :: "('x, 'p, 'e, 'v) instance_of \<Rightarrow> ('x, 'p, 'e, 'v) instance_of" where
  "startInstance i = i\<lparr>gi_game := game_start (gi_game i)\<rparr>"

definition submitInstance :: "clock \<Rightarrow> 'p action \<Rightarrow> (('x, 'p, 'e, 'v) instance_of, 'e action_result) effect" where
  "submitInstance ck a i = (case submit ck a (gi_game i) of (r, g) \<Rightarrow> (r, i\<lparr>gi_game := g\<rparr>))"

definition buffered :: "('x, 'p, 'e, 'v) instance_of \<Rightarrow> 'e game_event list" where
  "buffered i = drop (gi_drained i) (received 0 (g_events (gi_game i)))"

definition drainEvents :: "('x, 'p, 'e, 'v) instance_of \<Rightarrow> 'e game_event list \<times> ('x, 'p, 'e, 'v) instance_of" where
  "drainEvents i = (buffered i, i\<lparr>gi_drained := length (received 0 (g_events (gi_game i)))\<rparr>)"

definition disposeInstance :: "('x, 'p, 'e, 'v) instance_of \<Rightarrow> ('x, 'p, 'e, 'v) instance_of" where
  "disposeInstance i = i\<lparr>gi_game := (gi_game i)\<lparr>g_events := em_offAny 0 (g_events (gi_game i))\<rparr>\<rparr>"

section \<open>Outputs (game-store.service.ts)\<close>

datatype ('x, 'p, 'e, 'v) stored = StoredState "('x, 'p, 'e) game_state" | StoredView 'v

datatype ('x, 'p, 'e, 'v) engine_output =
    RedisSet string "('x, 'p, 'e, 'v) stored"
  | Publish string string "('e, 'v) bus_event"

definition stateKey :: "string \<Rightarrow> string" where
  "stateKey gameId = ''engine:state:'' @ gameId"

definition viewKey :: "string \<Rightarrow> string" where
  "viewKey gameId = ''engine:view:'' @ gameId"

record ('x, 'p, 'e, 'v) engine =
  en_games :: "(string, ('x, 'p, 'e, 'v) instance_of) jsmap"
  en_out :: "('x, 'p, 'e, 'v) engine_output list"

definition emitOut :: "('x, 'p, 'e, 'v) engine_output list \<Rightarrow> ('x, 'p, 'e, 'v) engine \<Rightarrow> ('x, 'p, 'e, 'v) engine" where
  "emitOut os en = en\<lparr>en_out := en_out en @ os\<rparr>"

definition saveState :: "string \<Rightarrow> ('x, 'p, 'e) game_state \<Rightarrow> ('x, 'p, 'e, 'v) engine_output" where
  "saveState gameId s = RedisSet (stateKey gameId) (StoredState s)"

definition saveView :: "string \<Rightarrow> 'v \<Rightarrow> ('x, 'p, 'e, 'v) engine_output" where
  "saveView gameId v = RedisSet (viewKey gameId) (StoredView v)"

text \<open>What a \<open>GET\<close> after these outputs returns: the last value set.\<close>

definition redisGet :: "('x, 'p, 'e, 'v) engine_output list \<Rightarrow> string \<Rightarrow> ('x, 'p, 'e, 'v) stored option" where
  "redisGet os k = fold (\<lambda>out cur. case out of RedisSet k' v \<Rightarrow> if k' = k then Some v else cur | Publish _ _ _ \<Rightarrow> cur) os None"

section \<open>The service (engine.service.ts)\<close>

definition publishEvent :: "string \<Rightarrow> ('e, 'v) bus_event \<Rightarrow> ('x, 'p, 'e, 'v) engine_output" where
  "publishEvent gameId e = Publish GameEventsExchange (gameEventKey gameId (be_type e)) e"

definition busEvent :: "int \<Rightarrow> string \<Rightarrow> 'e game_event \<Rightarrow> ('e, 'v) bus_event" where
  "busEvent now gameId e =
     \<lparr>be_gameId = gameId, be_seq = (case ev_seq e of Some n \<Rightarrow> n | None \<Rightarrow> 0), be_type = ev_type e,
      be_payload = EventPayload (ev_payload e), be_at = (case ev_at e of Some t \<Rightarrow> t | None \<Rightarrow> now),
      be_playerId = truthy (ev_playerId e), be_privateTo = truthy (ev_privateTo e)\<rparr>"

definition flushEvents ::
  "int \<Rightarrow> ('x, 'p, 'e, 'v) instance_of \<Rightarrow> ('x, 'p, 'e, 'v) engine_output list \<times> ('x, 'p, 'e, 'v) instance_of" where
  "flushEvents now i =
     (case drainEvents i of (es, i') \<Rightarrow> (map (\<lambda>e. publishEvent (gi_gameId i) (busEvent now (gi_gameId i) e)) es, i'))"

text \<open>\<open>fallback\<close> is the built-in view of scenarios that bring none.\<close>

definition buildView ::
  "(('x, 'p, 'e) game_state \<Rightarrow> player list \<Rightarrow> victory_info \<Rightarrow> 'v) \<Rightarrow> ('x, 'p, 'e, 'v) hosted \<Rightarrow>
   ('x, 'p, 'e) game_state \<Rightarrow> player list \<Rightarrow> victory_info \<Rightarrow> 'v" where
  "buildView fallback h = (case ho_buildView h of Some b \<Rightarrow> b | None \<Rightarrow> fallback)"

record create_request =
  cr_gameId :: string
  cr_scenarioId :: string
  cr_players :: "player list"
  cr_seed :: string

definition createGame ::
  "(('x, 'p, 'e) game_state \<Rightarrow> player list \<Rightarrow> victory_info \<Rightarrow> 'v) \<Rightarrow> ('x, 'p, 'e, 'v) scenario_registry \<Rightarrow> int \<Rightarrow>
   create_request \<Rightarrow> (('x, 'p, 'e, 'v) engine, unit) effect" where
  "createGame fallback scs now req en =
     (let gameId = cr_gameId req
      in case getScenario scs (cr_scenarioId req) of
           Inl e \<Rightarrow> (Inl e, en)
         | Inr h \<Rightarrow>
           (case createGameState gameId (ho_scenario h) (cr_players req) (cr_seed req) of
              Inl e \<Rightarrow> (Inl e, en)
            | Inr s0 \<Rightarrow>
              (case newGame s0 (ho_scenario h) of
                 Inl e \<Rightarrow> (Inl e, en)
               | Inr g \<Rightarrow>
                 let i = startInstance (newInstance gameId g h);
                     (published, i') = flushEvents now i;
                     s = g_state (gi_game i');
                     view = buildView fallback h s (cr_players req) None;
                     started = \<lparr>be_gameId = gameId, be_seq = 0, be_type = ''game-started'', be_payload = SnapshotPayload view,
                                be_at = now, be_playerId = None, be_privateTo = None\<rparr>
                 in (Inr (), emitOut ([saveState gameId s] @ published @ [saveView gameId view, publishEvent gameId started])
                               (en\<lparr>en_games := jput gameId i' (en_games en)\<rparr>)))))"

text \<open>The payload of the first event of type \<open>game-ended\<close>, read as a victory.\<close>

definition gameEnded :: "'e game_event list \<Rightarrow> 'e game_event option" where
  "gameEnded es = find (\<lambda>e. ev_type e = ''game-ended'') es"

definition victoryOf :: "'e game_event option \<Rightarrow> victory_info" where
  "victoryOf e =
     (case e of
        None \<Rightarrow> None
      | Some ev \<Rightarrow> (case ev_payload ev of GameEndedPayload v \<Rightarrow> Some (vr_winner v, vr_reason v) | ScenarioPayload _ \<Rightarrow> None))"

definition actionOf :: "'p command_message \<Rightarrow> 'p action" where
  "actionOf m = \<lparr>ac_type = cm_type m, ac_playerId = Some (cm_userId m), ac_payload = cm_payload m, ac_clientSeq = cm_clientSeq m\<rparr>"

text \<open>\<open>load\<close> tells whether the store has a state of the game, whoever wrote it.\<close>

definition handleCommand ::
  "(('x, 'p, 'e) game_state \<Rightarrow> player list \<Rightarrow> victory_info \<Rightarrow> 'v) \<Rightarrow> (string \<Rightarrow> bool) \<Rightarrow> clock \<Rightarrow> int \<Rightarrow>
   'p command_message \<Rightarrow> (('x, 'p, 'e, 'v) engine, bool) effect" where
  "handleCommand fallback load ck now m en =
     (let gameId = cm_gameId m
      in case jget (en_games en) gameId of
           None \<Rightarrow> (Inl (if load gameId then Unavailable gameId else NotFound gameId), en)
         | Some i \<Rightarrow>
           (case submitInstance ck (actionOf m) i of
              (Inl e, i1) \<Rightarrow> (Inl e, en\<lparr>en_games := jput gameId i1 (en_games en)\<rparr>)
            | (Inr (Rejected err), i1) \<Rightarrow>
                (Inr True, emitOut [publishEvent gameId
                     \<lparr>be_gameId = gameId, be_seq = 0, be_type = ''error'', be_payload = ErrorPayload err, be_at = now,
                      be_playerId = None, be_privateTo = Some (cm_userId m)\<rparr>]
                   (en\<lparr>en_games := jput gameId i1 (en_games en)\<rparr>))
            | (Inr (Accepted evs), i1) \<Rightarrow>
                let (published, i2) = flushEvents now i1;
                    s = g_state (gi_game i2);
                    ended = gameEnded evs;
                    view = buildView fallback (gi_hosted i2) s (pm_all (gs_players s)) (victoryOf ended)
                in (Inr True, emitOut (published @ [saveState gameId s, saveView gameId view])
                     (en\<lparr>en_games := (case ended of None \<Rightarrow> jput gameId i2 (en_games en)
                                                   | Some _ \<Rightarrow> jdel gameId (en_games en))\<rparr>))))"

section \<open>The subscriptions (game-runner.service.ts)\<close>

definition PLAYER_COLORS :: "string list" where
  "PLAYER_COLORS = [''red'', ''blue'', ''green'', ''yellow'', ''orange'', ''purple'']"

definition seatPlayers :: "(string \<times> string) list \<Rightarrow> player list" where
  "seatPlayers ps =
     map (\<lambda>(i, p). \<lparr>pl_id = fst p, pl_displayName = snd p, pl_color = PLAYER_COLORS ! (i mod length PLAYER_COLORS),
                   pl_seat = int i, pl_status = None\<rparr>) (enumerate 0 ps)"

definition onGameStarting ::
  "(('x, 'p, 'e) game_state \<Rightarrow> player list \<Rightarrow> victory_info \<Rightarrow> 'v) \<Rightarrow> ('x, 'p, 'e, 'v) scenario_registry \<Rightarrow> int \<Rightarrow>
   lobby_event \<Rightarrow> (('x, 'p, 'e, 'v) engine, unit) effect" where
  "onGameStarting fallback scs now ev en =
     (case ev of
        GameStarting roomId gameId scenarioId players at' \<Rightarrow>
          createGame fallback scs now
            \<lparr>cr_gameId = gameId, cr_scenarioId = scenarioId, cr_players = seatPlayers players, cr_seed = gameId\<rparr> en
      | _ \<Rightarrow> (Inr (), en))"

definition onCommand ::
  "(('x, 'p, 'e) game_state \<Rightarrow> player list \<Rightarrow> victory_info \<Rightarrow> 'v) \<Rightarrow> (string \<Rightarrow> bool) \<Rightarrow> clock \<Rightarrow> int \<Rightarrow>
   'p command_message \<Rightarrow> (('x, 'p, 'e, 'v) engine, unit) effect" where
  "onCommand fallback load ck now m en =
     (case handleCommand fallback load ck now m en of (Inl e, en') \<Rightarrow> (Inl e, en') | (Inr _, en') \<Rightarrow> (Inr (), en'))"

section \<open>The view endpoint (games.controller.ts)\<close>

definition initEndpoint :: "('x, 'p, 'e, 'v) engine_output list \<Rightarrow> string \<Rightarrow> exn + 'v" where
  "initEndpoint os gameId = (case redisGet os (viewKey gameId) of Some (StoredView v) \<Rightarrow> Inr v | _ \<Rightarrow> Inl (NotFound gameId))"

section \<open>A stream of commands\<close>

text \<open>Commands arrive as messages, each at its time; what a handler throws costs the message.\<close>

definition serveCommand ::
  "(('x, 'p, 'e) game_state \<Rightarrow> player list \<Rightarrow> victory_info \<Rightarrow> 'v) \<Rightarrow> (string \<Rightarrow> bool) \<Rightarrow> clock \<Rightarrow>
   int \<times> 'p command_message \<Rightarrow> ('x, 'p, 'e, 'v) engine \<Rightarrow> ('x, 'p, 'e, 'v) engine" where
  "serveCommand fallback load ck tm en = snd (consume Inr (onCommand fallback load ck (fst tm)) (Some (snd tm)) en)"

definition published :: "('x, 'p, 'e, 'v) engine_output list \<Rightarrow> ('e, 'v) bus_event list" where
  "published os = concat (map (\<lambda>out. case out of Publish _ _ e \<Rightarrow> [e] | RedisSet _ _ \<Rightarrow> []) os)"

lemma published_simps [simp]:
  "published [] = []" "published (os @ os') = published os @ published os'"
  "published (saveState g s # os) = published os" "published (saveView g v # os) = published os"
  "published (publishEvent g e # os) = e # published os"
  by (simp_all add: published_def saveState_def saveView_def publishEvent_def)

lemma published_map [simp]: "published (map (\<lambda>e. publishEvent g (f e)) es) = map f es"
  by (induction es) simp_all

lemma keys_differ: "stateKey g \<noteq> viewKey g'"
  by (simp add: stateKey_def viewKey_def)

lemma redisGet_append_view: "redisGet (os @ [saveView g v]) (viewKey g) = Some (StoredView v)"
  by (simp add: redisGet_def saveView_def)

lemma redisGet_publish: "redisGet (os @ [publishEvent g e]) k = redisGet os k"
  by (simp add: redisGet_def publishEvent_def)

lemma initEndpoint_view [simp]: "initEndpoint (os @ [saveView g v]) g = Inr v"
  by (simp add: initEndpoint_def redisGet_append_view)

lemma initEndpoint_publish [simp]: "initEndpoint (os @ [publishEvent g e]) g' = initEndpoint os g'"
  by (simp add: initEndpoint_def redisGet_publish)

section \<open>The buffer between the game and the bus\<close>

text \<open>Between two commands the buffer is empty and the listener in place.\<close>

definition attached :: "('x, 'p, 'e, 'v) instance_of \<Rightarrow> bool" where
  "attached i \<longleftrightarrow> wildcard_only 0 (g_events (gi_game i)) \<and> gi_drained i = length (received 0 (g_events (gi_game i)))"

lemma attached_new: "newGame s sc = Inr g \<Longrightarrow> attached (startInstance (newInstance gid g h))"
  by (auto simp: newGame_def attached_def startInstance_def newInstance_def game_start_def newEmitter_def em_onAny_def
      wildcard_only_def received_def jadd_def split: sum.splits)

lemma buffered_empty: "attached i \<Longrightarrow> buffered i = []"
  by (simp add: attached_def buffered_def)

lemma flush_attached: "attached i \<Longrightarrow> flushEvents now i = ([], i)"
  by (simp add: flushEvents_def drainEvents_def buffered_empty) (simp add: attached_def)

text \<open>After an accepted action the buffer holds exactly its events.\<close>

lemma flush_accepted:
  assumes att: "attached i" and run: "submit ck a (gi_game i) = (Inr (Accepted evs), g)"
  obtains i' where "flushEvents now (i\<lparr>gi_game := g\<rparr>) = (map (\<lambda>e. publishEvent (gi_gameId i) (busEvent now (gi_gameId i) e)) evs, i')"
    "attached i'" "gi_game i' = g" "gi_gameId i' = gi_gameId i" "gi_hosted i' = gi_hosted i"
proof -
  have w: "wildcard_only 0 (g_events (gi_game i))" and d: "gi_drained i = length (received 0 (g_events (gi_game i)))"
    using att by (simp_all add: attached_def)
  from submit_events(3) [OF run w] have g: "wildcard_only 0 (g_events g)" "received 0 (g_events g) = received 0 (g_events (gi_game i)) @ evs" by simp_all
  let ?i = "i\<lparr>gi_game := g, gi_drained := length (received 0 (g_events g))\<rparr>"
  show ?thesis
    by (rule that [of ?i]) (use g d in \<open>simp_all add: flushEvents_def drainEvents_def buffered_def attached_def\<close>)
qed

lemma handleCommand_publishes:
  assumes own: "jget (en_games en) (cm_gameId m) = Some i" and att: "attached i" and gid: "gi_gameId i = cm_gameId m"
    and run: "submit ck (actionOf m) (gi_game i) = (Inr r, g)"
  shows "\<exists>en'. handleCommand fb load ck now m en = (Inr True, en') \<and>
    (\<forall>k. k \<noteq> cm_gameId m \<longrightarrow> jget (en_games en') k = jget (en_games en) k) \<and>
    (case r of
       Rejected err \<Rightarrow>
         en_out en' = en_out en @ [publishEvent (cm_gameId m)
           \<lparr>be_gameId = cm_gameId m, be_seq = 0, be_type = ''error'', be_payload = ErrorPayload err, be_at = now,
            be_playerId = None, be_privateTo = Some (cm_userId m)\<rparr>] \<and> jget (en_games en') (cm_gameId m) = Some i
     | Accepted evs \<Rightarrow>
         en_out en' = en_out en @ map (\<lambda>e. publishEvent (cm_gameId m) (busEvent now (cm_gameId m) e)) evs @
           [saveState (cm_gameId m) (g_state g),
            saveView (cm_gameId m) (buildView fb (gi_hosted i) (g_state g) (pm_all (gs_players (g_state g))) (victoryOf (gameEnded evs)))] \<and>
         (case jget (en_games en') (cm_gameId m) of
            None \<Rightarrow> \<exists>e \<in> set evs. ev_type e = ''game-ended''
          | Some i' \<Rightarrow> (\<forall>e \<in> set evs. ev_type e \<noteq> ''game-ended'') \<and> attached i' \<and> gi_game i' = g \<and> gi_gameId i' = cm_gameId m \<and>
              gi_hosted i' = gi_hosted i))"
proof (cases r)
  case (Rejected err)
  have same: "g = gi_game i" using submit_rejected [of ck "actionOf m" "gi_game i" err g] run Rejected by simp
  have "submitInstance ck (actionOf m) i = (Inr (Rejected err), i)" using run Rejected same by (simp add: submitInstance_def)
  then show ?thesis using own Rejected by (simp add: handleCommand_def emitOut_def Let_def)
next
  case (Accepted evs)
  obtain i' where i': "flushEvents now (i\<lparr>gi_game := g\<rparr>) = (map (\<lambda>e. publishEvent (gi_gameId i) (busEvent now (gi_gameId i) e)) evs, i')"
    "attached i'" "gi_game i' = g" "gi_gameId i' = gi_gameId i" "gi_hosted i' = gi_hosted i"
    using flush_accepted [OF att, of ck "actionOf m" evs g] run Accepted by blast
  have sub: "submitInstance ck (actionOf m) i = (Inr (Accepted evs), i\<lparr>gi_game := g\<rparr>)" using run Accepted by (simp add: submitInstance_def)
  show ?thesis
  proof (cases "gameEnded evs")
    case None
    then have "\<forall>e \<in> set evs. ev_type e \<noteq> ''game-ended''" by (simp add: gameEnded_def find_None_iff)
    with own sub i' None gid Accepted show ?thesis by (simp add: handleCommand_def emitOut_def Let_def)
  next
    case (Some e)
    then have "e \<in> set evs" "ev_type e = ''game-ended''" by (auto simp: gameEnded_def dest: find_SomeD)
    then have "\<exists>e \<in> set evs. ev_type e = ''game-ended''" by blast
    with own sub i' Some gid Accepted show ?thesis by (simp add: handleCommand_def emitOut_def Let_def)
  qed
qed

text \<open> C14: A command to a game this replica owns is answered with exactly one batch of messages: a
  rejected one with a single error that only its sender may see, and nothing else changes; an accepted
  one with its events, each once and in the order of their numbers, followed by the new state and the
  new view. Other games are not touched, the game is given up exactly when one of its events ends it, and the buffer is empty again. \<close>
theorem command_publishes:
  assumes own: "jget (en_games en) (cm_gameId m) = Some i" and att: "attached i" and gid: "gi_gameId i = cm_gameId m"
    and run: "submit ck (actionOf m) (gi_game i) = (Inr r, g)"
  shows "\<exists>en'. handleCommand fb load ck now m en = (Inr True, en') \<and>
    (\<forall>k. k \<noteq> cm_gameId m \<longrightarrow> jget (en_games en') k = jget (en_games en) k) \<and>
    (case r of
       Rejected err \<Rightarrow>
         en_out en' = en_out en @ [publishEvent (cm_gameId m)
           \<lparr>be_gameId = cm_gameId m, be_seq = 0, be_type = ''error'', be_payload = ErrorPayload err, be_at = now,
            be_playerId = None, be_privateTo = Some (cm_userId m)\<rparr>] \<and> jget (en_games en') (cm_gameId m) = Some i
     | Accepted evs \<Rightarrow>
         en_out en' = en_out en @ map (\<lambda>e. publishEvent (cm_gameId m) (busEvent now (cm_gameId m) e)) evs @
           [saveState (cm_gameId m) (g_state g),
            saveView (cm_gameId m) (buildView fb (gi_hosted i) (g_state g) (pm_all (gs_players (g_state g))) (victoryOf (gameEnded evs)))] \<and>
         (case jget (en_games en') (cm_gameId m) of
            None \<Rightarrow> \<exists>e \<in> set evs. ev_type e = ''game-ended''
          | Some i' \<Rightarrow> (\<forall>e \<in> set evs. ev_type e \<noteq> ''game-ended'') \<and> attached i' \<and> gi_game i' = g \<and> gi_gameId i' = cm_gameId m \<and>
              gi_hosted i' = gi_hosted i))"
  using assms by (rule handleCommand_publishes)

lemma emitAll_private: "em_emitAll clock es em = (ss, em') \<Longrightarrow> map ev_privateTo ss = map ev_privateTo es"
proof (induction es arbitrary: em ss em')
  case (Cons e es)
  obtain s em1 where e: "em_emit (clock (em_nextSeq em)) e em = (s, em1)" by fastforce
  obtain ss' em2 where es: "em_emitAll clock es em1 = (ss', em2)" by fastforce
  have "ev_privateTo s = ev_privateTo e" using e by (auto simp: em_emit_def Let_def)
  with Cons.IH [OF es] Cons.prems e es show ?case by auto
qed simp

section \<open>The roster of a lobby\<close>

lemma seatPlayers_ids [simp]: "map pl_id (seatPlayers ms) = map fst ms"
proof -
  have "map pl_id (map (\<lambda>(i, p). \<lparr>pl_id = fst p, pl_displayName = snd p, pl_color = c i, pl_seat = int i, pl_status = None\<rparr>) (enumerate n ms)) = map fst ms"
    for c n by (induction ms arbitrary: n) simp_all
  then show ?thesis by (simp add: seatPlayers_def)
qed

lemma seatPlayers_seats: "map pl_seat (seatPlayers ms) = map int [0..<length ms]"
proof -
  have "map pl_seat (map (\<lambda>(i, p). \<lparr>pl_id = fst p, pl_displayName = snd p, pl_color = c i, pl_seat = int i, pl_status = None\<rparr>) (enumerate n ms)) =
      map int [n..<n + length ms]" for c n
    by (induction ms arbitrary: n) (simp_all add: upt_conv_Cons del: upt_Suc)
  from this [of _ 0] show ?thesis by (simp add: seatPlayers_def)
qed

lemma seatPlayers_length [simp]: "length (seatPlayers ms) = length ms"
  by (simp add: seatPlayers_def)

lemma seatPlayers_status: "p \<in> set (seatPlayers ms) \<Longrightarrow> pl_status p = None"
  by (auto simp: seatPlayers_def)

lemma seatPlayers_ok:
  assumes "2 \<le> length ms" "length ms \<le> 4" "distinct (map fst ms)" "[] \<notin> fst ` set ms"
  shows "roster_ok (seatPlayers ms)"
proof -
  have "seatPlayers ms \<noteq> []" using assms(1) by (metis seatPlayers_length length_greater_0_conv less_le_trans zero_less_numeral)
  then obtain p ps where p: "seatPlayers ms = p # ps" by (cases "seatPlayers ms") auto
  then have "list_ex is_active (seatPlayers ms)" using seatPlayers_status [of p ms] by (simp add: is_active_def)
  moreover have "pl_id ` set (seatPlayers ms) = fst ` set ms" by (metis list.set_map seatPlayers_ids)
  ultimately show ?thesis using assms by (simp add: roster_ok_def)
qed

text \<open>Seats are handed out in order, so the manager keeps the order of the lobby.\<close>

lemma seatPlayers_sorted: "sort_key pl_seat (seatPlayers ms) = seatPlayers ms"
proof (rule sort_key_id_if_sorted)
  show "sorted (map pl_seat (seatPlayers ms))" by (simp add: seatPlayers_seats sorted_map)
qed

end
