(* ===== verification/FrontierView.thy ===== *)
theory FrontierView
  imports FrontierScenario EngineService
begin

text \<open>
  The board a player of "Frontier" sees. The server builds it from the state of the game (the
  fallback of \<open>buildView\<close> in \<open>apps/game-engine/src/engine/engine.service.ts\<close>), and every client
  maintains a copy by applying the events it receives (\<open>applyEvent\<close> and the store of
  \<open>apps/web/src/store/game.ts\<close>).
\<close>

section \<open>The view (store/game.ts: DemoView)\<close>

record tile_view =
  tv_id :: string
  tv_q :: int
  tv_r :: int
  tv_terrain :: string
  tv_claimedBy :: "string option"

record player_view =
  pv_id :: string
  pv_displayName :: string
  pv_color :: string
  pv_seat :: int
  pv_vp :: int
  pv_wood :: int
  pv_stone :: int
  pv_isActive :: bool

record demo_view =
  dv_status :: game_status
  dv_tiles :: "tile_view list"
  dv_players :: "player_view list"
  dv_currentActivePlayer :: string
  dv_winner :: "string option"
  dv_winReason :: "string option"
  dv_homeTiles :: "(string, string) jsmap"
  dv_fortifications :: "(string, string) jsmap"
  dv_tradeOffers :: "trade_offer list"
  dv_round :: int

section \<open>Building it from the state (engine.service.ts: buildView)\<close>

definition claimMap :: "fstate \<Rightarrow> (string, string) jsmap" where
  "claimMap s = fold (\<lambda>(_, p) m. case piece_tile p of Some t \<Rightarrow> jput t (pc_owner p) m | None \<Rightarrow> m) (gs_pieces s) []"

definition tileView :: "(string, string) jsmap \<Rightarrow> tile \<Rightarrow> tile_view" where
  "tileView claims t =
     \<lparr>tv_id = tile_id t, tv_q = ax_q (tile_coord t), tv_r = ax_r (tile_coord t), tv_terrain = tile_terrain t,
      tv_claimedBy = jget claims (tile_id t)\<rparr>"

definition stockOr0 :: "fstate \<Rightarrow> string \<Rightarrow> string \<Rightarrow> int" where
  "stockOr0 s p r = (case jget (gs_inventories s) p of Some bag \<Rightarrow> inv_get bag r | None \<Rightarrow> 0)"

definition playerView :: "fstate \<Rightarrow> player \<Rightarrow> player_view" where
  "playerView s p =
     \<lparr>pv_id = pl_id p, pv_displayName = pl_displayName p, pv_color = pl_color p, pv_seat = pl_seat p,
      pv_vp = stockOr0 s (pl_id p) ''vp'', pv_wood = stockOr0 s (pl_id p) ''wood'', pv_stone = stockOr0 s (pl_id p) ''stone'',
      pv_isActive = (pl_id p = activePlayer (currentTurn (gs_rounds s)))\<rparr>"

definition frontierView :: "fstate \<Rightarrow> player list \<Rightarrow> victory_info \<Rightarrow> demo_view" where
  "frontierView s players victory =
     \<lparr>dv_status = gs_status s,
      dv_tiles = map (tileView (claimMap s)) (jvals (gm_tiles (gs_map s))),
      dv_players = map (playerView s) players,
      dv_currentActivePlayer = activePlayer (currentTurn (gs_rounds s)),
      dv_winner = (case victory of Some (w, _) \<Rightarrow> w | None \<Rightarrow> None),
      dv_winReason = map_option snd victory,
      dv_homeTiles = (case fx_homeTiles (gs_extras s) of Some m \<Rightarrow> m | None \<Rightarrow> []),
      dv_fortifications = getForts s,
      dv_tradeOffers = getOffers s,
      dv_round = currentRound (gs_rounds s)\<rparr>"

section \<open>Maintaining it from events (store/game.ts: applyEvent)\<close>

definition mapPlayer :: "string option \<Rightarrow> (player_view \<Rightarrow> player_view) \<Rightarrow> demo_view \<Rightarrow> demo_view" where
  "mapPlayer who f v = v\<lparr>dv_players := map (\<lambda>pl. if Some (pv_id pl) = who then f pl else pl) (dv_players v)\<rparr>"

definition gain :: "int \<Rightarrow> int \<Rightarrow> player_view \<Rightarrow> player_view" where
  "gain wood stone pl = pl\<lparr>pv_wood := pv_wood pl + wood, pv_stone := pv_stone pl + stone\<rparr>"

text \<open>\<open>Math.max(0, \<dots>)\<close> on both stocks.\<close>

definition spend :: "int \<Rightarrow> int \<Rightarrow> player_view \<Rightarrow> player_view" where
  "spend wood stone pl = pl\<lparr>pv_wood := max 0 (pv_wood pl - wood), pv_stone := max 0 (pv_stone pl - stone)\<rparr>"

definition onTileClaimed :: "claim_report \<Rightarrow> demo_view \<Rightarrow> demo_view" where
  "onTileClaimed p v =
     mapPlayer (Some (cl_claimedBy p))
       (\<lambda>pl. pl\<lparr>pv_vp := pv_vp pl + cl_vp p,
               pv_wood := pv_wood pl + (if cl_resource p = Some ''wood'' then 1 else 0),
               pv_stone := pv_stone pl + (if cl_resource p = Some ''stone'' then 1 else 0)\<rparr>)
       (v\<lparr>dv_tiles := map (\<lambda>t. if tv_id t = cl_tileId p then t\<lparr>tv_claimedBy := Some (cl_claimedBy p)\<rparr> else t) (dv_tiles v)\<rparr>)"

text \<open>The computed property \<open>[p.resource]\<close> overrides the field of that name.\<close>

definition lose2 :: "string \<Rightarrow> player_view \<Rightarrow> player_view \<Rightarrow> player_view" where
  "lose2 resource old pl =
     (if resource = ''wood'' then pl\<lparr>pv_wood := max 0 (pv_wood old - 2)\<rparr>
      else if resource = ''stone'' then pl\<lparr>pv_stone := max 0 (pv_stone old - 2)\<rparr>
      else if resource = ''vp'' then pl\<lparr>pv_vp := max 0 (pv_vp old - 2)\<rparr>
      else pl)"

definition onTrade :: "string option \<Rightarrow> fevent \<Rightarrow> demo_view \<Rightarrow> demo_view" where
  "onTrade who p v =
     (case p of
        TradedForVp resource amount \<Rightarrow> mapPlayer who (\<lambda>pl. lose2 resource pl (pl\<lparr>pv_vp := pv_vp pl + amount\<rparr>)) v
      | TradedForLeap resource \<Rightarrow> mapPlayer who (\<lambda>pl. pl\<lparr>pv_stone := max 0 (pv_stone pl - 2)\<rparr>) v
      | _ \<Rightarrow> v)"

definition onFortify :: "string option \<Rightarrow> string \<Rightarrow> int \<Rightarrow> int \<Rightarrow> demo_view \<Rightarrow> demo_view" where
  "onFortify who t wood stone v =
     mapPlayer who (spend wood stone)
       (case who of Some w \<Rightarrow> v\<lparr>dv_fortifications := jput t w (dv_fortifications v)\<rparr> | None \<Rightarrow> v)"

definition onPostOffer :: "string option \<Rightarrow> trade_offer \<Rightarrow> demo_view \<Rightarrow> demo_view" where
  "onPostOffer who off v =
     mapPlayer who (spend (to_giveWood off) (to_giveStone off)) (v\<lparr>dv_tradeOffers := dv_tradeOffers v @ [off]\<rparr>)"

definition withoutOffer :: "string \<Rightarrow> demo_view \<Rightarrow> demo_view" where
  "withoutOffer i v = v\<lparr>dv_tradeOffers := filter (\<lambda>off. to_id off \<noteq> i) (dv_tradeOffers v)\<rparr>"

definition onAcceptOffer :: "string \<Rightarrow> trade_offer \<Rightarrow> string \<Rightarrow> demo_view \<Rightarrow> demo_view" where
  "onAcceptOffer i off acceptedBy v =
     (withoutOffer i v)\<lparr>dv_players := map (\<lambda>pl.
        if pv_id pl = acceptedBy then gain (- to_wantWood off + to_giveWood off) (- to_wantStone off + to_giveStone off) pl
        else if pv_id pl = to_fromPlayerId off then gain (to_wantWood off) (to_wantStone off) pl
        else pl) (dv_players v)\<rparr>"

definition onCancelOffer :: "string option \<Rightarrow> string \<Rightarrow> trade_offer \<Rightarrow> demo_view \<Rightarrow> demo_view" where
  "onCancelOffer who i off v = mapPlayer who (gain (to_giveWood off) (to_giveStone off)) (withoutOffer i v)"

definition onTurnEnded :: "string \<Rightarrow> demo_view \<Rightarrow> demo_view" where
  "onTurnEnded p v =
     v\<lparr>dv_currentActivePlayer := p, dv_players := map (\<lambda>pl. pl\<lparr>pv_isActive := (pv_id pl = p)\<rparr>) (dv_players v)\<rparr>"

definition onGameEnded :: "victory_result \<Rightarrow> demo_view \<Rightarrow> demo_view" where
  "onGameEnded p v = v\<lparr>dv_status := Ended, dv_winner := vr_winner p, dv_winReason := Some (vr_reason p)\<rparr>"

text \<open>
  The reducer dispatches on the type of the event and reads the payload as the one of that type.
  A payload of another shape does not occur: executors pair the two as \<open>mkEvent\<close> does here.
\<close>

definition reduceEvent :: "demo_view \<Rightarrow> (fevent, demo_view) bus_event \<Rightarrow> demo_view" where
  "reduceEvent v e =
     (case (be_type e, be_payload e) of
        (ty, EventPayload (ScenarioPayload p)) \<Rightarrow>
          if ty = ''tile-claimed'' then (case p of TileClaimed c \<Rightarrow> onTileClaimed c v | _ \<Rightarrow> v)
          else if ty = ''tile-income'' then (case p of TileIncome wood stone \<Rightarrow> mapPlayer (be_playerId e) (gain wood stone) v | _ \<Rightarrow> v)
          else if ty = ''trade'' then onTrade (be_playerId e) p v
          else if ty = ''fortify'' then (case p of Fortified t wood stone \<Rightarrow> onFortify (be_playerId e) t wood stone v | _ \<Rightarrow> v)
          else if ty = ''fort-income'' then
            (case p of FortIncome t vp \<Rightarrow> mapPlayer (be_playerId e) (\<lambda>pl. pl\<lparr>pv_vp := pv_vp pl + vp\<rparr>) v | _ \<Rightarrow> v)
          else if ty = ''post-offer'' then (case p of OfferPosted off \<Rightarrow> onPostOffer (be_playerId e) off v | _ \<Rightarrow> v)
          else if ty = ''accept-offer'' then (case p of OfferAccepted i off by' \<Rightarrow> onAcceptOffer i off by' v | _ \<Rightarrow> v)
          else if ty = ''cancel-offer'' then (case p of OfferCancelled i off \<Rightarrow> onCancelOffer (be_playerId e) i off v | _ \<Rightarrow> v)
          else if ty = ''turn-ended'' then (case p of FTurnEnded q \<Rightarrow> onTurnEnded q v | _ \<Rightarrow> v)
          else v
      | (ty, EventPayload (GameEndedPayload w)) \<Rightarrow> if ty = ''game-ended'' then onGameEnded w v else v
      | _ \<Rightarrow> v)"

definition applyEvent :: "demo_view option \<Rightarrow> (fevent, demo_view) bus_event \<Rightarrow> demo_view option" where
  "applyEvent view e =
     (if be_type e = ''game-started'' then (case be_payload e of SnapshotPayload snap \<Rightarrow> Some snap | _ \<Rightarrow> view)
      else map_option (\<lambda>v. reduceEvent v e) view)"

section \<open>The store (store/game.ts: useGame)\<close>

record client_game =
  cg_gameId :: "string option"
  cg_events :: "(fevent, demo_view) bus_event list"
  cg_view :: "demo_view option"

definition emptyClient :: client_game where
  "emptyClient = \<lparr>cg_gameId = None, cg_events = [], cg_view = None\<rparr>"

text \<open>What the socket is asked to emit.\<close>

datatype 'p socket_request = SubscribeGame string | UnsubscribeGame string | GameCommand string string 'p

definition clientConnect :: "string option \<Rightarrow> string \<Rightarrow> (client_game, fpayload socket_request list) effect" where
  "clientConnect token gameId c =
     (if token = None \<or> token = Some [] then (Inl (Forbidden ''Not authenticated''), c)
      else (Inr [SubscribeGame gameId], c\<lparr>cg_gameId := Some gameId\<rparr>))"

definition onGameEvent :: "(fevent, demo_view) bus_event \<Rightarrow> client_game \<Rightarrow> client_game" where
  "onGameEvent e c = c\<lparr>cg_events := cg_events c @ [e], cg_view := applyEvent (cg_view c) e\<rparr>"

definition clientSend :: "string \<Rightarrow> fpayload \<Rightarrow> client_game \<Rightarrow> exn + fpayload socket_request list" where
  "clientSend ty p c =
     (case cg_gameId c of
        None \<Rightarrow> Inl (Forbidden ''Not connected to a game'')
      | Some g \<Rightarrow> if g = [] then Inl (Forbidden ''Not connected to a game'') else Inr [GameCommand g ty p])"

definition clientDisconnect :: "client_game \<Rightarrow> fpayload socket_request list \<times> client_game" where
  "clientDisconnect c =
     ((case cg_gameId c of Some g \<Rightarrow> if g = [] then [] else [UnsubscribeGame g] | None \<Rightarrow> []),
      c\<lparr>cg_gameId := None, cg_events := [], cg_view := None\<rparr>)"

text \<open>The reply of the init endpoint is used only while no event has brought a view.\<close>

definition clientFetchInit :: "exn + demo_view \<Rightarrow> client_game \<Rightarrow> client_game" where
  "clientFetchInit reply c =
     (case reply of
        Inl _ \<Rightarrow> c
      | Inr snapshot \<Rightarrow> c\<lparr>cg_view := (case cg_view c of Some v \<Rightarrow> Some v | None \<Rightarrow> Some snapshot)\<rparr>)"

end
