(* ===== verification/FrontierContract.thy ===== *)
theory FrontierContract
  imports FrontierScenario
begin

text \<open>
  The invariant of a game of "Frontier" and its preservation by the seven executors. The invariant
  says that every tile is claimed at most once and lies on the map, that stocks are never negative,
  and that the open offers have distinct identifiers, non-negative quantities and an offerer with
  an inventory.
\<close>

section \<open>The invariant\<close>

definition offer_ok :: "(string, inventory) jsmap \<Rightarrow> int \<Rightarrow> trade_offer \<Rightarrow> bool" where
  "offer_ok invs n o' \<longleftrightarrow> 0 \<le> to_giveWood o' \<and> 0 \<le> to_giveStone o' \<and> 0 \<le> to_wantWood o' \<and> 0 \<le> to_wantStone o' \<and>
     jget invs (to_fromPlayerId o') \<noteq> None \<and> (\<exists>k \<le> n. to_id o' = show_int k)"

definition offers_ok :: "(string, inventory) jsmap \<Rightarrow> int \<Rightarrow> trade_offer list \<Rightarrow> bool" where
  "offers_ok invs n os \<longleftrightarrow> distinct (map to_id os) \<and> (\<forall>o' \<in> set os. offer_ok invs n o')"

definition flags_ok :: "game_map \<Rightarrow> (string, piece) jsmap \<Rightarrow> bool" where
  "flags_ok m pieces \<longleftrightarrow> distinct (jkeys pieces) \<and>
     (\<forall>i p. jget pieces i = Some p \<longrightarrow> (\<exists>t. piece_tile p = Some t \<and> tileById m t \<noteq> None)) \<and>
     (\<forall>i j p q. jget pieces i = Some p \<longrightarrow> jget pieces j = Some q \<longrightarrow> piece_tile p = piece_tile q \<longrightarrow> i = j)"

definition nextOffer :: "fstate \<Rightarrow> int" where
  "nextOffer s = (case fx_nextOfferId (gs_extras s) of Some k \<Rightarrow> k | None \<Rightarrow> 0)"

definition frontier_ok :: "fstate \<Rightarrow> bool" where
  "frontier_ok s \<longleftrightarrow> distinct (jkeys (gs_inventories s)) \<and> invs_ok s \<and>
     players_ok (gs_players s) (gs_inventories s) (activePlayer (currentTurn (gs_rounds s))) \<and>
     active_ids (pm_bySeat (gs_players s)) \<noteq> {} \<and>
     flags_ok (gs_map s) (gs_pieces s) \<and> offers_ok (gs_inventories s) (nextOffer s) (getOffers s)"

section \<open>Booking on inventories\<close>

definition has_inv :: "string \<Rightarrow> fstate \<Rightarrow> bool" where
  "has_inv p s \<longleftrightarrow> jget (gs_inventories s) p \<noteq> None"

definition stock_of :: "fstate \<Rightarrow> string \<Rightarrow> string \<Rightarrow> int" where
  "stock_of s p r = (case jget (gs_inventories s) p of Some bag \<Rightarrow> inv_get bag r | None \<Rightarrow> 0)"

definition book :: "string \<Rightarrow> string \<Rightarrow> int \<Rightarrow> fstate \<Rightarrow> fstate" where
  "book p r n s = put_inventory p
     (jput r (stock_of s p r + n) (case jget (gs_inventories s) p of Some bag \<Rightarrow> bag | None \<Rightarrow> [])) s"

lemma book_sel [simp]:
  "gs_map (book p r n s) = gs_map s" "gs_players (book p r n s) = gs_players s" "gs_pieces (book p r n s) = gs_pieces s"
  "gs_rounds (book p r n s) = gs_rounds s" "gs_extras (book p r n s) = gs_extras s" "gs_status (book p r n s) = gs_status s"
  "gs_history (book p r n s) = gs_history s" "gs_rng (book p r n s) = gs_rng s"
  "getOffers (book p r n s) = getOffers s" "getForts (book p r n s) = getForts s" "nextOffer (book p r n s) = nextOffer s"
  by (simp_all add: book_def put_inventory_def getOffers_def getForts_def nextOffer_def)

lemma stock_book [simp]: "stock_of (book p r n s) p' r' = stock_of s p' r' + (if p' = p \<and> r' = r then n else 0)"
  by (auto simp: stock_of_def book_def put_inventory_def split: option.split)

lemma has_inv_book [simp]: "has_inv q (book p r n s) \<longleftrightarrow> q = p \<or> has_inv q s"
  by (simp add: has_inv_def book_def put_inventory_def)

lemma on_inv_add: "has_inv p s \<Longrightarrow> 0 \<le> n \<Longrightarrow> on_inv p (inv_add r n) s = (Inr (), book p r n s)"
  by (auto simp: on_inv_def has_inv_def book_def stock_of_def inv_add_ok)

lemma on_inv_remove: "has_inv p s \<Longrightarrow> 0 \<le> n \<Longrightarrow> n \<le> stock_of s p r \<Longrightarrow> on_inv p (inv_remove r n) s = (Inr (), book p r (- n) s)"
  by (auto simp: on_inv_def has_inv_def book_def stock_of_def inv_remove_ok)

lemma stock_nonneg: "invs_ok s \<Longrightarrow> 0 \<le> stock_of s p r"
  by (auto simp: stock_of_def invs_ok_def inv_okD split: option.split)

lemma frontier_okD:
  assumes "frontier_ok s"
  shows "distinct (jkeys (gs_inventories s))" "invs_ok s"
    "players_ok (gs_players s) (gs_inventories s) (activePlayer (currentTurn (gs_rounds s)))"
    "active_ids (pm_bySeat (gs_players s)) \<noteq> {}" "flags_ok (gs_map s) (gs_pieces s)"
    "offers_ok (gs_inventories s) (nextOffer s) (getOffers s)"
  using assms by (simp_all add: frontier_ok_def)

lemma frontier_ok_book:
  assumes ok': "frontier_ok s" and has: "has_inv p s" and n: "0 \<le> stock_of s p r + n"
  shows "frontier_ok (book p r n s)"
proof -
  note parts = frontier_okD [OF ok']
  obtain bag where bag: "jget (gs_inventories s) p = Some bag" using has by (auto simp: has_inv_def)
  let ?bag = "jput r (stock_of s p r + n) bag"
  have b: "book p r n s = put_inventory p ?bag s" by (simp add: book_def bag)
  have invs: "gs_inventories (put_inventory p ?bag s) = jput p ?bag (gs_inventories s)" by (simp add: put_inventory_def)
  have "inv_ok ?bag" using invs_okD [OF parts(2) bag] n by (rule inv_jput_ok)
  then have "invs_ok (put_inventory p ?bag s)" by (rule invs_ok_put [OF parts(2)])
  moreover have "distinct (jkeys (jput p ?bag (gs_inventories s)))" using parts(1) by simp
  moreover have "players_ok (gs_players s) (jput p ?bag (gs_inventories s)) (activePlayer (currentTurn (gs_rounds s)))"
    using parts(3) by (simp add: players_ok_def)
  moreover have "offers_ok (jput p ?bag (gs_inventories s)) (nextOffer s) (getOffers s)"
    using parts(6) by (simp add: offers_ok_def offer_ok_def)
  ultimately show ?thesis using parts(4,5) b book_sel [of p r n s]
    unfolding frontier_ok_def by (simp add: b invs)
qed

lemmas stepping = returning_def guarded_def mutate_def on_inv_add on_inv_remove

section \<open>The guard\<close>

lemma frontierGuard_None:
  assumes "frontier_ok s" "frontierGuard s (ac_playerId a) = None"
  shows "activePlayer (currentTurn (gs_rounds s)) = actor a" "actor a \<noteq> []" "has_inv (actor a) s" "ac_playerId a = Some (actor a)"
proof -
  from assms(2) show a: "activePlayer (currentTurn (gs_rounds s)) = actor a" "actor a \<noteq> []" "ac_playerId a = Some (actor a)"
    by (auto simp: frontierGuard_def actor_def split: option.splits if_splits)
  with frontier_okD(3) [OF assms(1)] show "has_inv (actor a) s" by (auto simp: players_ok_def has_inv_def)
qed

definition fexecutes :: "(fstate, fevents) effect \<Rightarrow> fstate \<Rightarrow> bool" where
  "fexecutes f s \<longleftrightarrow> (\<exists>es s'. f s = (Inr es, s') \<and> frontier_ok s' \<and> gs_status s' = gs_status s \<and> gs_history s' = gs_history s)"

lemma with_inv_accept:
  "has_inv p s \<Longrightarrow> with_inv s p f = accept \<longleftrightarrow> (\<exists>bag. jget (gs_inventories s) p = Some bag \<and> f bag = accept)"
  by (auto simp: with_inv_def has_inv_def)

lemma stock_of_Some: "jget (gs_inventories s) p = Some bag \<Longrightarrow> stock_of s p r = inv_get bag r"
  by (simp add: stock_of_def)

section \<open>Claiming\<close>

lemma frontier_ok_rng [simp]: "frontier_ok (s\<lparr>gs_rng := g\<rparr>) = frontier_ok s"
  by (simp add: frontier_ok_def invs_ok_def getOffers_def nextOffer_def)

lemma has_inv_rng [simp]: "has_inv p (s\<lparr>gs_rng := g\<rparr>) = has_inv p s"
  by (simp add: has_inv_def)

lemma raise_flag_sel [simp]:
  "frontier_ok (raise_flag f v s) = frontier_ok s" "gs_status (raise_flag f v s) = gs_status s"
  "gs_history (raise_flag f v s) = gs_history s" "stock_of (raise_flag f v s) = stock_of s"
  "gs_pieces (raise_flag f v s) = gs_pieces s" "gs_map (raise_flag f v s) = gs_map s"
  "getOffers (raise_flag f v s) = getOffers s" "gs_inventories (raise_flag f v s) = gs_inventories s"
  "gs_extras (raise_flag f v s) = gs_extras s"
  by (simp_all add: raise_flag_def frontier_ok_def invs_ok_def getOffers_def nextOffer_def setFlag_def stock_of_def fun_eq_iff)

lemma isTileOccupied_iff:
  "distinct (jkeys (gs_pieces s)) \<Longrightarrow> isTileOccupied s t \<longleftrightarrow> (\<exists>i p. jget (gs_pieces s) i = Some p \<and> piece_tile p = Some t)"
  by (force simp: isTileOccupied_def list_ex_iff map_of_eq_Some_iff)

lemma frontier_ok_claim:
  assumes ok': "frontier_ok s" and free: "\<not> isTileOccupied s t" and t: "tileById (gs_map s) t \<noteq> None"
  shows "frontier_ok (place_piece (makeUnit i ''flag'' p t None None) s)"
proof -
  note parts = frontier_okD [OF ok']
  have d: "distinct (jkeys (gs_pieces s))" using parts(5) by (simp add: flags_ok_def)
  have new: "piece_tile q \<noteq> Some t" if "jget (gs_pieces s) j = Some q" for j q
    using free that by (auto simp: isTileOccupied_iff [OF d])
  let ?p = "makeUnit i ''flag'' p t None None"
  have tile: "piece_tile ?p = Some t" by (simp add: piece_tile_def)
  have "\<exists>u. piece_tile q = Some u \<and> tileById (gs_map s) u \<noteq> None" if "jget (jput i ?p (gs_pieces s)) j = Some q" for j q
    using that t tile parts(5) by (auto simp: flags_ok_def split: if_splits)
  moreover have "j = k" if "jget (jput i ?p (gs_pieces s)) j = Some q" "jget (jput i ?p (gs_pieces s)) k = Some r" "piece_tile q = piece_tile r" for j k q r
  proof -
    have "jget (gs_pieces s) j = Some q \<Longrightarrow> jget (gs_pieces s) k = Some r \<Longrightarrow> j = k"
      using parts(5) that(3) by (auto simp: flags_ok_def)
    then show ?thesis using that tile new by (auto split: if_splits)
  qed
  moreover have "distinct (jkeys (jput i ?p (gs_pieces s)))" using d by simp
  ultimately have "flags_ok (gs_map s) (jput i ?p (gs_pieces s))" unfolding flags_ok_def by blast
  then show ?thesis using parts by (simp add: frontier_ok_def place_piece_def invs_ok_def getOffers_def nextOffer_def)
qed

lemma frontier_vp_pos: "jget FRONTIER_TERRAIN_VP t = Some v \<Longrightarrow> 1 \<le> v \<and> v \<le> 3"
  by (auto simp: FRONTIER_TERRAIN_VP_def split: if_splits)

lemma bonus_range: "0 \<le> bonusFor n \<and> bonusFor n \<le> 2"
  by (simp add: bonusFor_def)

definition claimVp :: "tile \<Rightarrow> int \<Rightarrow> int" where
  "claimVp hex roll = (case jget FRONTIER_TERRAIN_VP (tile_terrain hex) of Some v \<Rightarrow> v | None \<Rightarrow> 1) + bonusFor roll"

lemma claimVp_range: "1 \<le> claimVp hex roll \<and> claimVp hex roll \<le> 5"
  using bonus_range [of roll] frontier_vp_pos by (fastforce simp: claimVp_def split: option.split)

definition claimYield :: "tile \<Rightarrow> string option" where
  "claimYield hex = (case jget FRONTIER_TERRAIN_RESOURCE (tile_terrain hex) of Some r \<Rightarrow> r | None \<Rightarrow> None)"

text \<open>What the validator of a claim guarantees, and what the executor then does.\<close>

lemma claim_accepted:
  assumes ok': "frontier_ok s" and acc: "claimTileValidator s a = accept"
  obtains hex where "tileById (gs_map s) (fp_tileId (ac_payload a)) = Some hex" "\<not> isTileOccupied s (fp_tileId (ac_payload a))"
    "frontierGuard s (ac_playerId a) = None" "\<not> flagSet s ''claimedThisTurn''"
    "flagSet s ''stoneLeap'' \<or> (\<exists>c \<in> set (ownedTileCoords s (actor a)). \<exists>d \<in> set HEX_DIRS.
       ax_q c = ax_q (tile_coord hex) - ax_q d \<and> ax_r c = ax_r (tile_coord hex) - ax_r d)"
  using acc by (auto simp: claimTileValidator_def Let_def list_ex_iff split: option.splits if_splits)

lemma claim_runs:
  assumes ok': "frontier_ok s" and acc: "claimTileValidator s a = accept"
  obtains hex die1 die2 g where "tileById (gs_map s) (fp_tileId (ac_payload a)) = Some hex" "1 \<le> die1" "die1 \<le> 6" "1 \<le> die2" "die2 \<le> 6"
    "fst (claimTileExecutor a s) = Inr [mkEvent ''tile-claimed'' (Some (actor a)) (TileClaimed
       \<lparr>cl_tileId = fp_tileId (ac_payload a), cl_terrain = tile_terrain hex, cl_vp = claimVp hex (die1 + die2), cl_claimedBy = actor a,
        cl_diceRoll = die1 + die2, cl_die1 = die1, cl_die2 = die2, cl_bonusVp = bonusFor (die1 + die2), cl_resource = claimYield hex\<rparr>)]"
    "snd (claimTileExecutor a s) =
       raise_flag ''stoneLeap'' False (raise_flag ''claimedThisTurn'' True
         (place_piece (makeUnit (''flag-'' @ actor a @ ''-'' @ fp_tileId (ac_payload a)) ''flag'' (actor a) (fp_tileId (ac_payload a)) None None)
           ((case claimYield hex of Some r \<Rightarrow> book (actor a) r 1 | None \<Rightarrow> id)
             (book (actor a) ''vp'' (claimVp hex (die1 + die2)) (s\<lparr>gs_rng := g\<rparr>)))))"
proof -
  obtain hex where hex: "tileById (gs_map s) (fp_tileId (ac_payload a)) = Some hex"
    "frontierGuard s (ac_playerId a) = None" by (rule claim_accepted [OF ok' acc])
  note me = frontierGuard_None [OF ok' hex(2)]
  obtain die1 where d1: "intInRange 1 6 (gs_rng s) = (Inr die1, xorshift (gs_rng s))" "1 \<le> die1" "die1 \<le> 6"
    by (rule intInRange_bounds [of 1 6 "gs_rng s"]) simp_all
  let ?g1 = "xorshift (gs_rng s)"
  obtain die2 where d2: "intInRange 1 6 ?g1 = (Inr die2, xorshift ?g1)" "1 \<le> die2" "die2 \<le> 6"
    by (rule intInRange_bounds [of 1 6 ?g1]) simp_all
  have vp: "0 \<le> claimVp hex (die1 + die2)" using claimVp_range [of hex "die1 + die2"] by simp
  have yield: "claimYield hex \<in> {None, Some ''wood'', Some ''stone''}"
    by (auto simp: claimYield_def FRONTIER_TERRAIN_RESOURCE_def)
  note run = claimTileExecutor_def [of a s, unfolded Let_def hex(1) option.case d1(1) d2(1) sum.case prod.case,
      folded claimVp_def claimYield_def]
  have "fst (claimTileExecutor a s) = Inr [mkEvent ''tile-claimed'' (Some (actor a)) (TileClaimed
       \<lparr>cl_tileId = fp_tileId (ac_payload a), cl_terrain = tile_terrain hex, cl_vp = claimVp hex (die1 + die2), cl_claimedBy = actor a,
        cl_diceRoll = die1 + die2, cl_die1 = die1, cl_die2 = die2, cl_bonusVp = bonusFor (die1 + die2), cl_resource = claimYield hex\<rparr>)] \<and>
    snd (claimTileExecutor a s) =
       raise_flag ''stoneLeap'' False (raise_flag ''claimedThisTurn'' True
         (place_piece (makeUnit (''flag-'' @ actor a @ ''-'' @ fp_tileId (ac_payload a)) ''flag'' (actor a) (fp_tileId (ac_payload a)) None None)
           ((case claimYield hex of Some r \<Rightarrow> book (actor a) r 1 | None \<Rightarrow> id)
             (book (actor a) ''vp'' (claimVp hex (die1 + die2)) (s\<lparr>gs_rng := xorshift ?g1\<rparr>)))))"
    using yield vp me(3) unfolding run by (auto simp: stepping)
  then show ?thesis by (intro that [of hex die1 die2 "xorshift ?g1"]) (simp_all add: hex d1 d2)
qed

lemma claim_executes:
  assumes ok': "frontier_ok s" and acc: "claimTileValidator s a = accept"
  shows "fexecutes (claimTileExecutor a) s"
proof -
  let ?t = "fp_tileId (ac_payload a)"
  obtain hex where h: "tileById (gs_map s) ?t = Some hex" "\<not> isTileOccupied s ?t" "frontierGuard s (ac_playerId a) = None"
    by (rule claim_accepted [OF ok' acc])
  note has = frontierGuard_None(3) [OF ok' h(3)]
  show ?thesis
  proof (rule claim_runs [OF ok' acc])
    fix hex' die1 die2 g
    assume hex': "tileById (gs_map s) ?t = Some hex'"
    let ?s1 = "book (actor a) ''vp'' (claimVp hex' (die1 + die2)) (s\<lparr>gs_rng := g\<rparr>)"
    let ?s2 = "(case claimYield hex' of Some r \<Rightarrow> book (actor a) r 1 | None \<Rightarrow> id) ?s1"
    assume run: "fst (claimTileExecutor a s) = Inr [mkEvent ''tile-claimed'' (Some (actor a)) (TileClaimed
       \<lparr>cl_tileId = ?t, cl_terrain = tile_terrain hex', cl_vp = claimVp hex' (die1 + die2), cl_claimedBy = actor a,
        cl_diceRoll = die1 + die2, cl_die1 = die1, cl_die2 = die2, cl_bonusVp = bonusFor (die1 + die2), cl_resource = claimYield hex'\<rparr>)]"
      "snd (claimTileExecutor a s) = raise_flag ''stoneLeap'' False (raise_flag ''claimedThisTurn'' True
         (place_piece (makeUnit (''flag-'' @ actor a @ ''-'' @ ?t) ''flag'' (actor a) ?t None None) ?s2))"
    have nonneg: "0 \<le> stock_of (s\<lparr>gs_rng := g\<rparr>) (actor a) r" for r
      using stock_nonneg [OF frontier_okD(2) [OF ok']] by (simp add: stock_of_def)
    have s1: "frontier_ok ?s1" using ok' has nonneg claimVp_range [of hex' "die1 + die2"] by (intro frontier_ok_book) (simp_all add: add_nonneg_nonneg)
    have "frontier_ok ?s2"
    proof (cases "claimYield hex'")
      case None
      with s1 show ?thesis by simp
    next
      case (Some r)
      have "0 \<le> stock_of ?s1 (actor a) r + 1" using stock_nonneg [OF frontier_okD(2) [OF s1], of "actor a" r] by linarith
      with Some frontier_ok_book [OF s1] show ?thesis by simp
    qed
    moreover have same: "gs_pieces ?s2 = gs_pieces s" "gs_map ?s2 = gs_map s" "gs_status ?s2 = gs_status s" "gs_history ?s2 = gs_history s"
      by (simp_all split: option.split)
    moreover have "\<not> isTileOccupied ?s2 ?t" using h(2) same(1) by (simp add: isTileOccupied_def)
    ultimately have "frontier_ok (place_piece (makeUnit (''flag-'' @ actor a @ ''-'' @ ?t) ''flag'' (actor a) ?t None None) ?s2)"
      using h(1) by (intro frontier_ok_claim) simp_all
    with run same show ?thesis unfolding fexecutes_def
      by (intro exI conjI prod_eqI) (assumption | simp add: place_piece_def)+
  qed
qed

section \<open>Ending a turn\<close>

text \<open>A step that only books on inventories.\<close>

definition books_only :: "fstate \<Rightarrow> fstate \<Rightarrow> bool" where
  "books_only s s' \<longleftrightarrow> frontier_ok s' \<and> (\<exists>invs. s' = s\<lparr>gs_inventories := invs\<rparr>) \<and> (\<forall>p. has_inv p s' = has_inv p s)"

lemma books_only_refl: "frontier_ok s \<Longrightarrow> books_only s s"
  unfolding books_only_def by (intro conjI exI [of _ "gs_inventories s"]) simp_all

lemma books_only_trans: "books_only s s' \<Longrightarrow> books_only s' s'' \<Longrightarrow> books_only s s''"
  by (auto simp: books_only_def)

lemma books_only_book:
  assumes "frontier_ok s" "has_inv p s" "0 \<le> n"
  shows "books_only s (book p r n s)"
proof -
  have "0 \<le> stock_of s p r + n" using stock_nonneg [OF frontier_okD(2) [OF assms(1)]] assms(3) by (simp add: add_nonneg_nonneg)
  from frontier_ok_book [OF assms(1,2) this] assms(2) show ?thesis
    by (auto simp: books_only_def book_def put_inventory_def has_inv_def)
qed

lemma fortIncome_books: "frontier_ok s \<Longrightarrow> \<exists>es s'. fortIncome forts s = (Inr es, s') \<and> books_only s s'"
proof (induction forts s rule: fortIncome.induct)
  case (2 t owner forts s)
  show ?case
  proof (cases "has_inv owner s")
    case False
    then have none: "jget (gs_inventories s) owner = None" by (simp add: has_inv_def)
    with 2(1) [OF none 2(3)] show ?thesis by simp
  next
    case True
    then obtain bag where bag: "jget (gs_inventories s) owner = Some bag" by (auto simp: has_inv_def)
    have add: "on_inv owner (inv_add ''vp'' 1) s = (Inr (), book owner ''vp'' 1 s)" using True by (simp add: on_inv_add)
    have b: "books_only s (book owner ''vp'' 1 s)" by (rule books_only_book [OF 2(3) True]) simp
    then have "frontier_ok (book owner ''vp'' 1 s)" by (simp add: books_only_def)
    from 2(2) [OF bag add [symmetric] refl this] obtain es s' where
      "fortIncome forts (book owner ''vp'' 1 s) = (Inr es, s')" "books_only (book owner ''vp'' 1 s) s'" by blast
    with bag add books_only_trans [OF b] show ?thesis by simp
  qed
qed (simp add: books_only_refl)

lemma payTileIncome_books: "frontier_ok s \<Longrightarrow> \<exists>es s'. payTileIncome table s = (Inr es, s') \<and> books_only s s'"
proof (induction table s rule: payTileIncome.induct)
  case (2 owner wood stone table s)
  show ?case
  proof (cases "has_inv owner s")
    case False
    then have none: "jget (gs_inventories s) owner = None" by (simp add: has_inv_def)
    with 2(1) [OF none 2(3)] show ?thesis by simp
  next
    case True
    then obtain bag where bag: "jget (gs_inventories s) owner = Some bag" by (auto simp: has_inv_def)
    define s1 where "s1 = (if 0 < wood then book owner ''wood'' wood s else s)"
    define s2 where "s2 = (if 0 < stone then book owner ''stone'' stone s1 else s1)"
    have b1: "books_only s s1" using books_only_book [OF 2(3) True] books_only_refl [OF 2(3)] by (simp add: s1_def)
    then have s1: "frontier_ok s1" "has_inv owner s1" using True by (auto simp: books_only_def)
    then have "books_only s1 s2" using books_only_book [OF s1] books_only_refl [OF s1(1)] by (simp add: s2_def)
    with b1 have b2: "books_only s s2" by (rule books_only_trans)
    have "sequence [guarded (wood > 0) (on_inv owner (inv_add ''wood'' wood)), guarded (stone > 0) (on_inv owner (inv_add ''stone'' stone))] s
        = (Inr (), s2)" using True s1(2) by (simp add: stepping s1_def s2_def)
    note run = this
    have "frontier_ok s2" using b2 by (simp add: books_only_def)
    from 2(2) [OF bag run [symmetric] refl this] obtain es s' where
      "payTileIncome table s2 = (Inr es, s')" "books_only s2 s'" by blast
    with bag run books_only_trans [OF b2] show ?thesis by simp
  qed
qed (simp add: books_only_refl)

lemma endTurn_fexecutes:
  assumes ok': "frontier_ok s"
  shows "fexecutes (frontierEndTurnExecutor a) s"
proof -
  note parts = frontier_okD [OF ok']
  obtain te rm where te: "rm_endTurn turn_next (pm_all (gs_players s)) ''turn'' (gs_rounds s) = (Inr te, rm)"
    "newActivePlayer te \<in> active_ids (pm_all (gs_players s))" "activePlayer (currentTurn rm) = newActivePlayer te"
    using scenario_order.endTurn_active [of "pm_all (gs_players s)" "''turn''" "gs_rounds s"] parts(4) by (auto simp: pm_all_def)
  define s1 where "s1 = s\<lparr>gs_rounds := rm\<rparr>"
  have s1: "frontier_ok s1"
    using parts te(2,3) by (auto simp: frontier_ok_def s1_def invs_ok_def players_ok_def getOffers_def nextOffer_def pm_all_def active_ids_def)
  obtain es1 s2 where f: "fortIncome (getForts s1) s1 = (Inr es1, s2)" "books_only s1 s2" using fortIncome_books [OF s1] by blast
  then have s2: "frontier_ok s2" by (simp add: books_only_def)
  obtain es2 s3 where p: "payTileIncome (tileIncomeTable s2) s2 = (Inr es2, s3)" "books_only s2 s3" using payTileIncome_books [OF s2] by blast
  have "books_only s1 s3" by (rule books_only_trans [OF f(2) p(2)])
  then have s3: "frontier_ok s3" "gs_status s3 = gs_status s" "gs_history s3 = gs_history s" by (auto simp: books_only_def s1_def)
  have "gs_status s1 = gs_status s" "gs_history s1 = gs_history s" by (simp_all add: s1_def)
  with te(1) f(1) p(1) s1 s3 show ?thesis
    by (auto simp: fexecutes_def frontierEndTurnExecutor_def Let_def simp flip: s1_def)
qed

section \<open>Trading with the bank and fortifying\<close>

lemma trade_fexecutes:
  assumes ok': "frontier_ok s" and acc: "tradeValidator s a = accept"
  shows "fexecutes (tradeExecutor a) s"
proof -
  let ?r = "fp_resource (ac_payload a)" and ?me = "actor a"
  have g: "frontierGuard s (ac_playerId a) = None" using acc by (simp add: tradeValidator_def split: option.splits)
  note has = frontierGuard_None(3) [OF ok' g]
  obtain bag where bag: "jget (gs_inventories s) ?me = Some bag" using has by (auto simp: has_inv_def)
  from acc g bag have r: "?r = ''wood'' \<or> ?r = ''stone''" "2 \<le> stock_of s ?me ?r"
    by (auto simp: tradeValidator_def Let_def with_inv_def stock_of_def split: if_splits)
  have s1: "frontier_ok (book ?me ?r (-2) s)" using r(2) by (intro frontier_ok_book [OF ok' has]) simp
  have nonneg: "0 \<le> stock_of (book ?me ?r (-2) s) ?me ''vp''" by (rule stock_nonneg [OF frontier_okD(2) [OF s1]])
  have rem: "on_inv ?me (inv_remove ?r 2) s = (Inr (), book ?me ?r (-2) s)" using has r(2) by (simp add: on_inv_remove)
  show ?thesis
  proof (cases "?r = ''wood''")
    case True
    have "frontier_ok (book ?me ''vp'' 1 (book ?me ?r (-2) s))" using nonneg has by (intro frontier_ok_book [OF s1]) simp_all
    with True rem has show ?thesis by (simp add: fexecutes_def tradeExecutor_def Let_def stepping)
  next
    case False
    with rem s1 show ?thesis by (simp add: fexecutes_def tradeExecutor_def Let_def stepping)
  qed
qed

lemma fortify_fexecutes:
  assumes ok': "frontier_ok s" and acc: "fortifyValidator s a = accept"
  shows "fexecutes (fortifyExecutor a) s"
proof -
  let ?me = "actor a"
  have g: "frontierGuard s (ac_playerId a) = None" using acc by (simp add: fortifyValidator_def split: option.splits)
  note has = frontierGuard_None(3) [OF ok' g]
  obtain bag where bag: "jget (gs_inventories s) ?me = Some bag" using has by (auto simp: has_inv_def)
  from acc g bag have r: "2 \<le> stock_of s ?me ''wood''" "1 \<le> stock_of s ?me ''stone''"
    by (auto simp: fortifyValidator_def Let_def with_inv_def stock_of_def split: if_splits)
  have s1: "frontier_ok (book ?me ''wood'' (-2) s)" using r by (intro frontier_ok_book [OF ok' has]) simp
  have s2: "frontier_ok (book ?me ''stone'' (-1) (book ?me ''wood'' (-2) s))" using r has by (intro frontier_ok_book [OF s1]) simp_all
  have "frontier_ok (s'\<lparr>gs_extras := x\<rparr>) = frontier_ok s'"
    if "fx_tradeOffers x = fx_tradeOffers (gs_extras s')" "fx_nextOfferId x = fx_nextOfferId (gs_extras s')" for x s'
    using that by (simp add: frontier_ok_def invs_ok_def getOffers_def nextOffer_def)
  then show ?thesis using s2 r has by (simp add: fexecutes_def fortifyExecutor_def Let_def stepping)
qed

section \<open>Offers\<close>

lemma frontier_ok_set_offers:
  assumes ok': "frontier_ok s" and os: "offers_ok (gs_inventories s) n os"
    and x: "fx_tradeOffers x = Some os" "(case fx_nextOfferId x of Some k \<Rightarrow> k | None \<Rightarrow> 0) = n"
  shows "frontier_ok (s\<lparr>gs_extras := x\<rparr>)"
proof -
  have "nextOffer (s\<lparr>gs_extras := x\<rparr>) = n" using x(2) by (simp add: nextOffer_def)
  moreover have "getOffers (s\<lparr>gs_extras := x\<rparr>) = os" using x(1) by (simp add: getOffers_def)
  ultimately show ?thesis using frontier_okD [OF ok'] os by (simp add: frontier_ok_def invs_ok_def)
qed

text \<open>Optional bookings, as the executors of the offers make them.\<close>

definition bookIf :: "string \<Rightarrow> string \<Rightarrow> int \<Rightarrow> fstate \<Rightarrow> fstate" where
  "bookIf p r n s = (if n = 0 then s else book p r n s)"

lemma bookIf_sel [simp]:
  "gs_extras (bookIf p r n s) = gs_extras s" "gs_status (bookIf p r n s) = gs_status s" "gs_history (bookIf p r n s) = gs_history s"
  "getOffers (bookIf p r n s) = getOffers s" "nextOffer (bookIf p r n s) = nextOffer s"
  "stock_of (bookIf p r n s) q r' = stock_of s q r' + (if q = p \<and> r' = r then n else 0)"
  by (simp_all add: bookIf_def)

lemma has_inv_bookIf: "has_inv p s \<Longrightarrow> has_inv q (bookIf p r n s) \<longleftrightarrow> has_inv q s"
  by (auto simp: bookIf_def)

lemma frontier_ok_bookIf: "frontier_ok s \<Longrightarrow> has_inv p s \<Longrightarrow> 0 \<le> stock_of s p r + n \<Longrightarrow> frontier_ok (bookIf p r n s)"
  by (simp add: bookIf_def frontier_ok_book)

lemma guarded_add: "has_inv p s \<Longrightarrow> 0 \<le> n \<Longrightarrow> guarded (n > 0) (on_inv p (inv_add r n)) s = (Inr (), bookIf p r n s)"
  by (simp add: guarded_def bookIf_def on_inv_add)

lemma guarded_remove:
  "has_inv p s \<Longrightarrow> 0 \<le> n \<Longrightarrow> n \<le> stock_of s p r \<Longrightarrow> guarded (n > 0) (on_inv p (inv_remove r n)) s = (Inr (), bookIf p r (- n) s)"
  by (simp add: guarded_def bookIf_def on_inv_remove)

lemma offers_ok_keys:
  "(\<And>q. jget invs q = None \<longleftrightarrow> jget invs' q = None) \<Longrightarrow> offers_ok invs n os = offers_ok invs' n os"
  by (simp add: offers_ok_def offer_ok_def)

lemma offers_ok_inv_bookIf:
  assumes "has_inv p s"
  shows "offers_ok (gs_inventories (bookIf p r n s)) k os = offers_ok (gs_inventories s) k os"
proof (rule offers_ok_keys)
  show "jget (gs_inventories (bookIf p r n s)) q = None \<longleftrightarrow> jget (gs_inventories s) q = None" for q
    using has_inv_bookIf [OF assms, of q r n] unfolding has_inv_def by blast
qed

text \<open>The state after a posted offer.\<close>

definition posted :: "faction \<Rightarrow> fstate \<Rightarrow> fstate" where
  "posted a s =
     (let s1 = bookIf (actor a) ''stone'' (- fp_giveStone (ac_payload a)) (bookIf (actor a) ''wood'' (- fp_giveWood (ac_payload a)) s)
      in s1\<lparr>gs_extras := (gs_extras s1)\<lparr>fx_nextOfferId := Some (nextOffer s + 1), fx_tradeOffers := Some (getOffers s @ [newOffer s a])\<rparr>\<rparr>)"

lemma post_accepted:
  assumes ok': "frontier_ok s" and acc: "postOfferValidator s a = accept"
  shows "frontierGuard s (ac_playerId a) = None" "has_inv (actor a) s" "offer_ok (gs_inventories s) (nextOffer s + 1) (newOffer s a)"
    "fp_giveWood (ac_payload a) \<le> stock_of s (actor a) ''wood''" "fp_giveStone (ac_payload a) \<le> stock_of s (actor a) ''stone''"
    "0 \<le> fp_giveWood (ac_payload a)" "0 \<le> fp_giveStone (ac_payload a)"
proof -
  show g: "frontierGuard s (ac_playerId a) = None" using acc by (simp add: postOfferValidator_def split: option.splits)
  show has: "has_inv (actor a) s" by (rule frontierGuard_None(3) [OF ok' g])
  then obtain bag where bag: "jget (gs_inventories s) (actor a) = Some bag" by (auto simp: has_inv_def)
  note v = acc [unfolded postOfferValidator_def g option.case Let_def with_inv_def bag]
  show "fp_giveWood (ac_payload a) \<le> stock_of s (actor a) ''wood''" "fp_giveStone (ac_payload a) \<le> stock_of s (actor a) ''stone''"
    "0 \<le> fp_giveWood (ac_payload a)" "0 \<le> fp_giveStone (ac_payload a)"
    using v by (auto simp: stock_of_Some [OF bag] split: if_splits)
  show "offer_ok (gs_inventories s) (nextOffer s + 1) (newOffer s a)"
    using v bag by (auto simp: offer_ok_def newOffer_def Let_def nextOffer_def split: if_splits)
qed

lemma post_runs:
  assumes ok': "frontier_ok s" and acc: "postOfferValidator s a = accept"
  shows "postOfferExecutor a s = (Inr [mkEvent ''post-offer'' (Some (actor a)) (OfferPosted (newOffer s a))], posted a s)" "frontier_ok (posted a s)"
proof -
  note p = post_accepted [OF ok' acc]
  let ?s1 = "bookIf (actor a) ''wood'' (- fp_giveWood (ac_payload a)) s"
  let ?s2 = "bookIf (actor a) ''stone'' (- fp_giveStone (ac_payload a)) ?s1"
  have ok1: "frontier_ok ?s1" using p by (intro frontier_ok_bookIf [OF ok']) simp_all
  have ok2: "frontier_ok ?s2" using p by (intro frontier_ok_bookIf [OF ok1]) (simp_all add: has_inv_bookIf)
  have run: "fx_tradeOffers (gs_extras s) = fx_tradeOffers (gs_extras ?s2)" by simp
  show "postOfferExecutor a s = (Inr [mkEvent ''post-offer'' (Some (actor a)) (OfferPosted (newOffer s a))], posted a s)"
    using p by (simp add: postOfferExecutor_def posted_def Let_def returning_def mutate_def guarded_remove has_inv_bookIf)
      (simp add: getOffers_def nextOffer_def)
  have "offers_ok (gs_inventories s) (nextOffer s + 1) (getOffers s @ [newOffer s a])"
  proof -
    have os: "offers_ok (gs_inventories s) (nextOffer s) (getOffers s)" by (rule frontier_okD(6) [OF ok'])
    have "to_id (newOffer s a) = show_int (nextOffer s + 1)" by (simp add: newOffer_def Let_def nextOffer_def)
    moreover have "to_id o' \<noteq> show_int (nextOffer s + 1)" if "o' \<in> set (getOffers s)" for o'
      using os that by (fastforce simp: offers_ok_def offer_ok_def)
    moreover have "offer_ok (gs_inventories s) (nextOffer s + 1) o'" if "o' \<in> set (getOffers s)" for o'
      using os that by (fastforce simp: offers_ok_def offer_ok_def)
    ultimately have "to_id (newOffer s a) \<notin> to_id ` set (getOffers s)" "\<forall>o' \<in> set (getOffers s). offer_ok (gs_inventories s) (nextOffer s + 1) o'"
      by (metis imageE, blast)
    then show ?thesis using os p(3) by (simp add: offers_ok_def)
  qed
  then have "offers_ok (gs_inventories ?s2) (nextOffer s + 1) (getOffers s @ [newOffer s a])"
    using p(2) by (simp add: offers_ok_inv_bookIf has_inv_bookIf)
  from frontier_ok_set_offers [OF ok2 this] show "frontier_ok (posted a s)" by (simp add: posted_def Let_def)
qed

lemma offers_ok_drop: "offers_ok invs n os \<Longrightarrow> offers_ok invs n (filter P os)"
  by (auto simp: offers_ok_def intro: distinct_map_filter)

lemma found_offer:
  assumes ok': "frontier_ok s" and f: "findOffer s i = Some offer"
  shows "offer \<in> set (getOffers s)" "offer_ok (gs_inventories s) (nextOffer s) offer" "has_inv (to_fromPlayerId offer) s"
    "0 \<le> to_giveWood offer" "0 \<le> to_giveStone offer" "0 \<le> to_wantWood offer" "0 \<le> to_wantStone offer"
proof -
  show mem: "offer \<in> set (getOffers s)" using f by (auto simp: findOffer_def dest: find_SomeD)
  then show o': "offer_ok (gs_inventories s) (nextOffer s) offer" using frontier_okD(6) [OF ok'] by (simp add: offers_ok_def)
  then show "has_inv (to_fromPlayerId offer) s" "0 \<le> to_giveWood offer" "0 \<le> to_giveStone offer" "0 \<le> to_wantWood offer" "0 \<le> to_wantStone offer"
    by (auto simp: offer_ok_def has_inv_def)
qed

text \<open>The states after an accepted and after a cancelled offer.\<close>

definition accepted :: "string \<Rightarrow> trade_offer \<Rightarrow> fstate \<Rightarrow> fstate" where
  "accepted me offer s =
     dropOffer offer (getOffers s)
       (bookIf (to_fromPlayerId offer) ''stone'' (to_wantStone offer) (bookIf (to_fromPlayerId offer) ''wood'' (to_wantWood offer)
         (bookIf me ''stone'' (to_giveStone offer) (bookIf me ''wood'' (to_giveWood offer)
           (bookIf me ''stone'' (- to_wantStone offer) (bookIf me ''wood'' (- to_wantWood offer) s))))))"

definition cancelled :: "string \<Rightarrow> trade_offer \<Rightarrow> fstate \<Rightarrow> fstate" where
  "cancelled me offer s =
     dropOffer offer (getOffers s) (bookIf me ''stone'' (to_giveStone offer) (bookIf me ''wood'' (to_giveWood offer) s))"

lemma dropOffer_ok:
  assumes ok': "frontier_ok s'" and os: "offers_ok (gs_inventories s') (nextOffer s') os"
  shows "frontier_ok (dropOffer offer os s')"
  unfolding dropOffer_def
  by (rule frontier_ok_set_offers [OF ok' offers_ok_drop [OF os]]) (simp_all add: nextOffer_def)

lemma accept_accepted:
  assumes ok': "frontier_ok s" and acc: "acceptOfferValidator s a = accept"
  obtains offer where "findOffer s (fp_offerId (ac_payload a)) = Some offer" "to_fromPlayerId offer \<noteq> actor a" "has_inv (actor a) s"
    "to_wantWood offer \<le> stock_of s (actor a) ''wood''" "to_wantStone offer \<le> stock_of s (actor a) ''stone''"
proof -
  have g: "frontierGuard s (ac_playerId a) = None" using acc by (simp add: acceptOfferValidator_def split: option.splits)
  have has: "has_inv (actor a) s" by (rule frontierGuard_None(3) [OF ok' g])
  then obtain bag where bag: "jget (gs_inventories s) (actor a) = Some bag" by (auto simp: has_inv_def)
  note v = acc [unfolded acceptOfferValidator_def g option.case Let_def with_inv_def bag]
  obtain offer where "findOffer s (fp_offerId (ac_payload a)) = Some offer" using v by (cases "findOffer s (fp_offerId (ac_payload a))") auto
  with v has show ?thesis by (intro that [of offer]) (auto simp: stock_of_Some [OF bag] split: if_splits)
qed

lemma accept_runs:
  assumes ok': "frontier_ok s" and acc: "acceptOfferValidator s a = accept"
  obtains offer where "findOffer s (fp_offerId (ac_payload a)) = Some offer" "to_fromPlayerId offer \<noteq> actor a" "has_inv (actor a) s"
    "acceptOfferExecutor a s = (Inr [mkEvent ''accept-offer'' (Some (actor a)) (OfferAccepted (to_id offer) offer (actor a))], accepted (actor a) offer s)"
    "frontier_ok (accepted (actor a) offer s)"
proof -
  obtain offer where f: "findOffer s (fp_offerId (ac_payload a)) = Some offer" "to_fromPlayerId offer \<noteq> actor a" "has_inv (actor a) s"
    "to_wantWood offer \<le> stock_of s (actor a) ''wood''" "to_wantStone offer \<le> stock_of s (actor a) ''stone''"
    by (rule accept_accepted [OF ok' acc])
  note o' = found_offer [OF ok' f(1)]
  let ?me = "actor a" and ?him = "to_fromPlayerId offer"
  let ?s1 = "bookIf ?me ''wood'' (- to_wantWood offer) s"
  let ?s2 = "bookIf ?me ''stone'' (- to_wantStone offer) ?s1"
  let ?s3 = "bookIf ?me ''wood'' (to_giveWood offer) ?s2"
  let ?s4 = "bookIf ?me ''stone'' (to_giveStone offer) ?s3"
  let ?s5 = "bookIf ?him ''wood'' (to_wantWood offer) ?s4"
  let ?s6 = "bookIf ?him ''stone'' (to_wantStone offer) ?s5"
  have has: "has_inv ?me ?s1" "has_inv ?me ?s2" "has_inv ?me ?s3" "has_inv ?him ?s4" "has_inv ?him ?s5"
    using f(3) o'(3) by (simp_all add: has_inv_bookIf)
  note nn = stock_nonneg [OF frontier_okD(2)]
  have s1: "frontier_ok ?s1" using f by (intro frontier_ok_bookIf [OF ok']) simp_all
  have s2: "frontier_ok ?s2" using f by (intro frontier_ok_bookIf [OF s1 has(1)]) simp
  have s3: "frontier_ok ?s3" using nn [OF s2] o' by (intro frontier_ok_bookIf [OF s2 has(2)] add_nonneg_nonneg)
  have s4: "frontier_ok ?s4" using nn [OF s3] o' by (intro frontier_ok_bookIf [OF s3 has(3)] add_nonneg_nonneg)
  have s5: "frontier_ok ?s5" using nn [OF s4] o' by (intro frontier_ok_bookIf [OF s4 has(4)] add_nonneg_nonneg)
  have s6: "frontier_ok ?s6" using nn [OF s5] o' by (intro frontier_ok_bookIf [OF s5 has(5)] add_nonneg_nonneg)
  have run: "acceptOfferExecutor a s = (Inr [mkEvent ''accept-offer'' (Some ?me) (OfferAccepted (to_id offer) offer ?me)], accepted ?me offer s)"
    using f o' has by (simp add: acceptOfferExecutor_def accepted_def Let_def returning_def mutate_def guarded_remove guarded_add)
  have "offers_ok (gs_inventories ?s6) (nextOffer ?s6) (getOffers s)"
    using frontier_okD(6) [OF s6] by simp
  from dropOffer_ok [OF s6 this] have "frontier_ok (accepted ?me offer s)" by (simp add: accepted_def)
  with run f show ?thesis by (intro that [of offer])
qed

lemma cancel_runs:
  assumes ok': "frontier_ok s" and acc: "cancelOfferValidator s a = accept"
  obtains offer where "findOffer s (fp_offerId (ac_payload a)) = Some offer" "to_fromPlayerId offer = actor a" "has_inv (actor a) s"
    "cancelOfferExecutor a s = (Inr [mkEvent ''cancel-offer'' (Some (actor a)) (OfferCancelled (to_id offer) offer)], cancelled (actor a) offer s)"
    "frontier_ok (cancelled (actor a) offer s)"
proof -
  have g: "frontierGuard s (ac_playerId a) = None" using acc by (simp add: cancelOfferValidator_def split: option.splits)
  have has: "has_inv (actor a) s" by (rule frontierGuard_None(3) [OF ok' g])
  note v = acc [unfolded cancelOfferValidator_def g option.case]
  obtain offer where f: "findOffer s (fp_offerId (ac_payload a)) = Some offer" "to_fromPlayerId offer = actor a"
    using v by (cases "findOffer s (fp_offerId (ac_payload a))") (auto split: if_splits)
  note o' = found_offer [OF ok' f(1)] and nn = stock_nonneg [OF frontier_okD(2)]
  let ?s1 = "bookIf (actor a) ''wood'' (to_giveWood offer) s"
  let ?s2 = "bookIf (actor a) ''stone'' (to_giveStone offer) ?s1"
  have s1: "frontier_ok ?s1" using nn [OF ok'] o' has by (intro frontier_ok_bookIf [OF ok' has] add_nonneg_nonneg)
  have h1: "has_inv (actor a) ?s1" using has by (simp add: has_inv_bookIf)
  have s2: "frontier_ok ?s2" using nn [OF s1] o' by (intro frontier_ok_bookIf [OF s1 h1] add_nonneg_nonneg)
  have run: "cancelOfferExecutor a s = (Inr [mkEvent ''cancel-offer'' (Some (actor a)) (OfferCancelled (to_id offer) offer)], cancelled (actor a) offer s)"
    using f o' has h1 by (simp add: cancelOfferExecutor_def cancelled_def Let_def returning_def mutate_def guarded_add)
  have "offers_ok (gs_inventories ?s2) (nextOffer ?s2) (getOffers s)" using frontier_okD(6) [OF s2] by simp
  from dropOffer_ok [OF s2 this] have "frontier_ok (cancelled (actor a) offer s)" by (simp add: cancelled_def)
  with run f has show ?thesis by (intro that [of offer])
qed

lemma offers_fexecute:
  assumes "frontier_ok s"
  shows "postOfferValidator s a = accept \<Longrightarrow> fexecutes (postOfferExecutor a) s"
    "acceptOfferValidator s a = accept \<Longrightarrow> fexecutes (acceptOfferExecutor a) s"
    "cancelOfferValidator s a = accept \<Longrightarrow> fexecutes (cancelOfferExecutor a) s"
proof -
  show "fexecutes (postOfferExecutor a) s" if "postOfferValidator s a = accept"
    using post_runs [OF assms that] by (simp add: fexecutes_def posted_def Let_def)
  show "fexecutes (acceptOfferExecutor a) s" if "acceptOfferValidator s a = accept"
    by (rule accept_runs [OF assms that]) (simp add: fexecutes_def accepted_def dropOffer_def)
  show "fexecutes (cancelOfferExecutor a) s" if "cancelOfferValidator s a = accept"
    by (rule cancel_runs [OF assms that]) (simp add: fexecutes_def cancelled_def dropOffer_def)
qed

end
