(* ===== verification/FrontierProperties.thy ===== *)
theory FrontierProperties
  imports FrontierContract
begin

text \<open>
  The engine's contract on "Frontier": the factory creates a game that satisfies the invariant, no
  submission throws, and the properties of its map, its claims, its offers and its end.
\<close>

section \<open>The map\<close>

lemma frontier_coords: "length FRONTIER_COORDS = 37" "distinct FRONTIER_COORDS" "length FRONTIER_TERRAIN_BAG = 37"
  by (simp_all add: FRONTIER_COORDS_def FRONTIER_TERRAIN_BAG_def)

lemma frontier_tileDefs:
  "mb_tileDefs (fold (\<lambda>(i, c). mb_addTile c (ts ! i) None) ics b) =
     mb_tileDefs b @ map (\<lambda>(i, c). \<lparr>td_coord = c, td_terrain = ts ! i, td_numberToken = None\<rparr>) ics"
  by (induction ics arbitrary: b) (auto simp: mb_addTile_def)

lemma buildDemoMap_tiles:
  obtains m ts where "buildDemoMap n seed = Inr m" "mset ts = mset FRONTIER_TERRAIN_BAG" "length ts = 37"
    "gm_tiles m = map (\<lambda>i. (tileId (FRONTIER_COORDS ! i),
       \<lparr>tile_id = tileId (FRONTIER_COORDS ! i), tile_coord = FRONTIER_COORDS ! i, tile_terrain = ts ! i,
        tile_numberToken = None, tile_properties = None\<rparr>)) [0..<37]"
proof -
  obtain ts g where ts: "shuffle_loop intInRange (length FRONTIER_TERRAIN_BAG - 1) FRONTIER_TERRAIN_BAG (newSeededRandom (seedFromString seed)) =
      (Inr (), ts, g)" "mset ts = mset FRONTIER_TERRAIN_BAG" "length ts = length FRONTIER_TERRAIN_BAG"
    using seeded.shuffle_loop_perm [of "length FRONTIER_TERRAIN_BAG - 1" FRONTIER_TERRAIN_BAG] frontier_coords(3) by (metis diff_less less_numeral_extra(1) zero_less_numeral)
  let ?b = "fold (\<lambda>(i, c). mb_addTile c (ts ! i) None) (enumerate 0 FRONTIER_COORDS) newMapBuilder"
  let ?m = "mb_build ?b"
  have defs: "mb_tileDefs ?b = map (\<lambda>i. \<lparr>td_coord = FRONTIER_COORDS ! i, td_terrain = ts ! i, td_numberToken = None\<rparr>) [0..<37]"
    by (simp add: frontier_tileDefs newMapBuilder_def enumerate_eq_zip frontier_coords(1))
      (rule nth_equalityI; simp add: frontier_coords(1))
  have pend: "mb_pending (fold (\<lambda>(i, c). mb_addTile c (ts ! i) None) ics b) = mb_pending b" for ics b
    by (induction ics arbitrary: b) (auto simp: mb_addTile_def)
  have none: "mb_pending ?b = []" unfolding pend by (simp add: newMapBuilder_def)
  have dist: "distinct (map td_coord (mb_tileDefs ?b))"
    using frontier_coords map_nth [of FRONTIER_COORDS] by (simp add: defs comp_def)
  have keys: "jkeys (gm_tiles ?m) = map (\<lambda>i. tileId (FRONTIER_COORDS ! i)) [0..<37]"
    using jkeys_build_distinct [OF dist] by (simp add: defs comp_def)
  have dk: "distinct (jkeys (gm_tiles ?m))" using wf_map_build [of ?b] by (simp add: wf_map_def)
  have "gm_tiles ?m = map (\<lambda>i. (tileId (FRONTIER_COORDS ! i),
       \<lparr>tile_id = tileId (FRONTIER_COORDS ! i), tile_coord = FRONTIER_COORDS ! i, tile_terrain = ts ! i,
        tile_numberToken = None, tile_properties = None\<rparr>)) [0..<37]" (is "_ = map ?f _")
  proof (rule nth_equalityI)
    show len: "length (gm_tiles ?m) = length (map ?f [0..<37])" using arg_cong [OF keys, of length] by simp
    fix i assume "i < length (gm_tiles ?m)"
    then have i: "i < 37" "i < length (gm_tiles ?m)" using len by simp_all
    then have k: "fst (gm_tiles ?m ! i) = tileId (FRONTIER_COORDS ! i)" using arg_cong [OF keys, of "\<lambda>xs. xs ! i"] by simp
    have "jget (gm_tiles ?m) (fst (gm_tiles ?m ! i)) = Some (snd (gm_tiles ?m ! i))" using i dk by (simp add: map_of_eq_Some_iff)
    moreover have "gm_tile ?m (td_coord (mb_tileDefs ?b ! i)) = Some (build_tile (mb_pending ?b) (mb_tileDefs ?b ! i))"
      using gm_tile_build_distinct [OF dist, of "mb_tileDefs ?b ! i"] i(1) by (simp add: defs)
    ultimately have "snd (gm_tiles ?m ! i) = snd (?f i)"
      using i(1) by (simp add: gm_tile_def k defs none build_tile_def)
    with k i show "gm_tiles ?m ! i = map ?f [0..<37] ! i" by (simp add: prod_eq_iff)
  qed
  with ts show ?thesis by (intro that [of ?m ts]) (simp_all add: buildDemoMap_def frontier_coords)
qed

text \<open> For every seed the map of Frontier has exactly the 37 hexes within distance three of the centre
  and the terrain bag of 12 grass, 14 forest and 11 mountain tiles, and every starting table puts
  the home tiles on distinct hexes of the outer ring. \<close>
lemma frontier_map_exact:
  "\<exists>m. buildDemoMap n seed = Inr m \<and> tile_coord ` set (jvals (gm_tiles m)) = {c. hexDistance c (axial 0 0) \<le> 3} \<and>
     length (gm_tiles m) = 37 \<and> mset (map tile_terrain (jvals (gm_tiles m))) = mset FRONTIER_TERRAIN_BAG \<and>
     list_all (\<lambda>(k, cs). length cs = k \<and> distinct cs \<and> list_all (\<lambda>c. hexDistance c (axial 0 0) = 3) cs) FRONTIER_STARTING_COORDS"
proof -
  obtain m ts where m: "buildDemoMap n seed = Inr m" "mset ts = mset FRONTIER_TERRAIN_BAG" "length ts = 37"
    "gm_tiles m = map (\<lambda>i. (tileId (FRONTIER_COORDS ! i),
       \<lparr>tile_id = tileId (FRONTIER_COORDS ! i), tile_coord = FRONTIER_COORDS ! i, tile_terrain = ts ! i,
        tile_numberToken = None, tile_properties = None\<rparr>)) [0..<37]"
    by (rule buildDemoMap_tiles)
  have "tile_coord ` set (jvals (gm_tiles m)) = set (map (\<lambda>i. FRONTIER_COORDS ! i) [0..<37])"
    by (simp add: m(4) image_image comp_def)
  also have "\<dots> = set FRONTIER_COORDS" using map_nth [of FRONTIER_COORDS] frontier_coords(1) by simp
  also have "\<dots> = set (hexesInRange (axial 0 0) 3)"
    by (simp add: FRONTIER_COORDS_def hexesInRange_def upto.simps insert_commute)
  finally have coords: "tile_coord ` set (jvals (gm_tiles m)) = {c. hexDistance c (axial 0 0) \<le> 3}"
    by (simp add: set_hexesInRange)
  have "map tile_terrain (jvals (gm_tiles m)) = ts" using map_nth [of ts] m(3) by (simp add: m(4) comp_def)
  moreover have "list_all (\<lambda>(k, cs). length cs = k \<and> distinct cs \<and> list_all (\<lambda>c. hexDistance c (axial 0 0) = 3) cs) FRONTIER_STARTING_COORDS"
    by (simp add: FRONTIER_STARTING_COORDS_def hexDistance_def axialDistance_max)
  ultimately show ?thesis using m coords by (intro exI [of _ m]) simp
qed

section \<open>The setup\<close>

lemma isTileOccupied_place:
  "distinct (jkeys (gs_pieces s)) \<Longrightarrow> isTileOccupied (place_piece (makeUnit i k p t None None) s) u \<Longrightarrow> u = t \<or> isTileOccupied s u"
proof -
  assume d: "distinct (jkeys (gs_pieces s))" and occ: "isTileOccupied (place_piece (makeUnit i k p t None None) s) u"
  then have "distinct (jkeys (gs_pieces (place_piece (makeUnit i k p t None None) s)))" by (simp add: place_piece_def)
  from isTileOccupied_iff [OF this, of u] isTileOccupied_iff [OF d, of u] occ show ?thesis
    by (auto simp: place_piece_def piece_tile_def split: if_splits)
qed

text \<open>What the setup keeps: the roster, the map, the lifecycle and the absence of offers.\<close>

definition setup_frame :: "fstate \<Rightarrow> fstate \<Rightarrow> bool" where
  "setup_frame s s' \<longleftrightarrow> gs_players s' = gs_players s \<and> gs_map s' = gs_map s \<and> gs_status s' = gs_status s \<and>
     gs_history s' = gs_history s \<and> gs_extras s' = gs_extras s"

lemma home_step:
  assumes ok': "frontier_ok s" and n: "n < length coords" and t: "tileById (gs_map s) (tileId (coords ! n)) = Some hex"
    and free: "\<not> isTileOccupied s (tileId (coords ! n))"
  obtains homes' s' where "homeStep coords (n, p) (homes, s) = (Inr (), (homes', s'))" "frontier_ok s'" "setup_frame s s'"
    "\<And>u. isTileOccupied s' u \<Longrightarrow> u = tileId (coords ! n) \<or> isTileOccupied s u"
    "\<And>q. stock_of s' q ''vp'' \<le> stock_of s q ''vp'' + 3" "length (gs_pieces s') \<le> length (gs_pieces s) + 1"
proof -
  let ?t = "tileId (coords ! n)"
  define vp where "vp = (case jget FRONTIER_TERRAIN_VP (tile_terrain hex) of Some v \<Rightarrow> v | None \<Rightarrow> 1)"
  have vp: "1 \<le> vp" "vp \<le> 3" using frontier_vp_pos by (auto simp: vp_def split: option.split)
  define s1 where "s1 = place_piece (makeUnit (''flag-'' @ pl_id p @ ''-'' @ ?t) ''flag'' (pl_id p) ?t None None) s"
  have ok1: "frontier_ok s1" unfolding s1_def using t by (intro frontier_ok_claim [OF ok' free]) simp
  define s2 where "s2 = (if has_inv (pl_id p) s1 then book (pl_id p) ''vp'' vp s1 else s1)"
  have ok2: "frontier_ok s2"
    using frontier_ok_book [OF ok1, of "pl_id p" "''vp''" vp] ok1 vp stock_nonneg [OF frontier_okD(2) [OF ok1], of "pl_id p" "''vp''"]
    by (simp add: s2_def)
  have d: "distinct (jkeys (gs_pieces s))" using frontier_okD(5) [OF ok'] by (simp add: flags_ok_def)
  have sel: "gs_pieces s2 = gs_pieces s1" "setup_frame s s2"
    by (simp_all add: s2_def s1_def place_piece_def setup_frame_def)
  have occ: "u = ?t \<or> isTileOccupied s u" if "isTileOccupied s2 u" for u
    using that isTileOccupied_place [OF d] unfolding s1_def by (metis isTileOccupied_def s1_def sel(1))
  have st1: "stock_of s1 = stock_of s" by (simp add: s1_def place_piece_def stock_of_def fun_eq_iff)
  have st: "stock_of s2 q ''vp'' \<le> stock_of s q ''vp'' + 3" for q using vp by (simp add: s2_def st1)
  have len: "length (gs_pieces s2) \<le> length (gs_pieces s) + 1"
    by (simp add: sel(1)) (simp add: s1_def place_piece_def length_jput_le)
  have run: "homeStep coords (n, p) (homes, s) =
      (case jget (gs_inventories s1) (pl_id p) of
         None \<Rightarrow> (Inr (), (jput (pl_id p) ?t homes, s1))
       | Some _ \<Rightarrow> (case on_inv (pl_id p) (inv_add ''vp'' vp) s1 of
                      (Inl e, s2) \<Rightarrow> (Inl e, (homes, s2))
                    | (Inr _, s2) \<Rightarrow> (Inr (), (jput (pl_id p) ?t homes, s2))))"
    using n unfolding homeStep_def prod.case Let_def t option.case vp_def s1_def by simp
  have "\<exists>homes'. homeStep coords (n, p) (homes, s) = (Inr (), (homes', s2))"
  proof (cases "jget (gs_inventories s1) (pl_id p)")
    case None
    then show ?thesis by (simp add: run s2_def has_inv_def)
  next
    case (Some bag)
    then have "has_inv (pl_id p) s1" by (simp add: has_inv_def)
    with Some vp show ?thesis by (simp add: run s2_def on_inv_add)
  qed
  then show ?thesis using that ok2 sel(2) occ st len by blast
qed

lemma home_steps:
  assumes "frontier_ok s" "n + length ps \<le> length coords" "distinct coords"
    "\<forall>c \<in> set coords. tileById (gs_map s) (tileId c) \<noteq> None"
    "\<forall>k. n \<le> k \<longrightarrow> k < length coords \<longrightarrow> \<not> isTileOccupied s (tileId (coords ! k))"
  shows "\<exists>homes' s'. homeSteps coords (enumerate n ps) (homes, s) = (Inr (), (homes', s')) \<and> frontier_ok s' \<and> setup_frame s s' \<and>
    (\<forall>q. stock_of s' q ''vp'' \<le> stock_of s q ''vp'' + 3 * int (length ps)) \<and> length (gs_pieces s') \<le> length (gs_pieces s) + length ps"
  using assms
proof (induction ps arbitrary: n homes s)
  case Nil
  then show ?case by (simp add: setup_frame_def)
next
  case (Cons p ps)
  then have n: "n < length coords" by simp
  then obtain hex where hex: "tileById (gs_map s) (tileId (coords ! n)) = Some hex" using Cons.prems(4) nth_mem by blast
  obtain homes1 s1 where h: "homeStep coords (n, p) (homes, s) = (Inr (), (homes1, s1))" "frontier_ok s1" "setup_frame s s1"
    "\<And>u. isTileOccupied s1 u \<Longrightarrow> u = tileId (coords ! n) \<or> isTileOccupied s u"
    "\<And>q. stock_of s1 q ''vp'' \<le> stock_of s q ''vp'' + 3" "length (gs_pieces s1) \<le> length (gs_pieces s) + 1"
    using home_step [OF Cons.prems(1) n hex, of p homes] Cons.prems(5) n by blast
  have "\<not> isTileOccupied s1 (tileId (coords ! k))" if "Suc n \<le> k" "k < length coords" for k
  proof
    assume "isTileOccupied s1 (tileId (coords ! k))"
    with h(4) have "coords ! k = coords ! n \<or> isTileOccupied s (tileId (coords ! k))" by fastforce
    with Cons.prems(3,5) that n show False by (auto simp: nth_eq_iff_index_eq)
  qed
  moreover have "\<forall>c \<in> set coords. tileById (gs_map s1) (tileId c) \<noteq> None" using Cons.prems(4) h(3) by (simp add: setup_frame_def)
  ultimately obtain homes' s' where r: "homeSteps coords (enumerate (Suc n) ps) (homes1, s1) = (Inr (), (homes', s'))" "frontier_ok s'"
    "setup_frame s1 s'" "\<forall>q. stock_of s' q ''vp'' \<le> stock_of s1 q ''vp'' + 3 * int (length ps)"
    "length (gs_pieces s') \<le> length (gs_pieces s1) + length ps"
    using Cons.IH [OF h(2), of "Suc n" homes1] Cons.prems(2,3) by auto
  have "stock_of s' q ''vp'' \<le> stock_of s q ''vp'' + 3 * int (length (p # ps))" for q
    using r(4) [rule_format, of q] h(5) [of q] by simp
  moreover have "setup_frame s s'" using h(3) r(3) by (simp add: setup_frame_def)
  ultimately show ?case using h(1,6) r(1,2,5) by (intro exI [of _ homes'] exI [of _ s']) auto
qed

lemma frontier_starting:
  "2 \<le> n \<Longrightarrow> n \<le> 4 \<Longrightarrow> \<exists>cs. jget FRONTIER_STARTING_COORDS n = Some cs \<and> length cs = n \<and> distinct cs \<and> set cs \<subseteq> set FRONTIER_COORDS"
proof -
  assume "2 \<le> n" "n \<le> 4"
  then have "n = 2 \<or> n = 3 \<or> n = 4" by linarith
  then show ?thesis by (elim disjE) (simp_all add: FRONTIER_STARTING_COORDS_def FRONTIER_COORDS_def)
qed

lemma claimedTiles_le: "length (claimedTiles s) \<le> length (gs_pieces s)"
proof -
  have "length (fold jadd xs acc) \<le> length xs + length acc" for xs acc :: "string list"
  proof (induction xs arbitrary: acc)
    case (Cons a xs)
    show ?case using Cons.IH [of "jadd a acc"] by (simp add: jadd_def split: if_splits)
  qed simp
  moreover have "length (concat (map (\<lambda>p. case piece_tile p of Some t \<Rightarrow> [t] | None \<Rightarrow> []) ps)) \<le> length ps" for ps
    by (induction ps) (auto split: option.split)
  ultimately show ?thesis unfolding claimedTiles_def by (metis (no_types, lifting) add.right_neutral le_trans length_map list.size(3))
qed

lemma firstWinner_None: "firstWinner invs = None \<longleftrightarrow> (\<forall>(p, bag) \<in> set invs. inv_get bag ''vp'' < 18)"
  by (induction invs rule: firstWinner.induct) (auto simp: WIN_VP_def)

text \<open>When the game is over: somebody has eighteen points, or the board is full.\<close>

lemma frontier_victory_fires:
  "evaluate_victory [firstToEighteenVP, allTilesClaimed] s \<noteq> Inr None \<longleftrightarrow>
   (\<exists>(p, bag) \<in> set (gs_inventories s). 18 \<le> inv_get bag ''vp'') \<or> length (gm_tiles (gs_map s)) \<le> length (claimedTiles s)"
proof (cases "firstWinner (gs_inventories s)")
  case None
  then have "\<not> (\<exists>(p, bag) \<in> set (gs_inventories s). 18 \<le> inv_get bag ''vp'')" by (fastforce simp: firstWinner_None)
  with None show ?thesis by (auto simp: firstToEighteenVP_def allTilesClaimed_def split: prod.split)
next
  case (Some w)
  then have "\<not> (\<forall>(p, bag) \<in> set (gs_inventories s). inv_get bag ''vp'' < 18)" using firstWinner_None by (metis option.distinct(1))
  then have "\<exists>(p, bag) \<in> set (gs_inventories s). 18 \<le> inv_get bag ''vp''" by force
  with Some show ?thesis by (simp add: firstToEighteenVP_def)
qed

lemma frontier_create:
  assumes r: "roster_ok ps"
  obtains s where "createGameState gid demoScenario ps seed = Inr s" "frontier_ok s" "gs_status s = Setup" "gs_history s = []"
    "evaluate_victory [firstToEighteenVP, allTilesClaimed] (s\<lparr>gs_status := Playing\<rparr>) = Inr None"
proof -
  have n: "2 \<le> length ps" "length ps \<le> 4" and ids: "distinct (map pl_id ps)" "[] \<notin> pl_id ` set ps"
    using r by (simp_all add: roster_ok_def)
  obtain p where p: "p \<in> set ps" "is_active p" using r by (auto simp: roster_ok_def list_ex_iff)
  then have "pl_id p \<in> set (turn_initial ps)" by (simp add: turn_initial_def set_activeSorted)
  then obtain first rest where first: "turn_initial ps = first # rest" by (cases "turn_initial ps") auto
  then have "first \<in> set (turn_initial ps)" by simp
  then have mem: "first \<in> pl_id ` set ps" by (auto simp: turn_initial_def set_activeSorted)
  obtain rounds where rounds: "newRoundManager ps Clockwise [\<lparr>ph_id = ''turn'', ph_displayName = ''Your Turn'', ph_nextPhases = [''turn'']\<rparr>] ''turn'' = Inr rounds"
    "activePlayer (currentTurn rounds) = first"
    using first by (auto simp: newRoundManager_def Let_def jhas_def)
  obtain m ts where m: "buildDemoMap (length ps) seed = Inr m" "gm_tiles m = map (\<lambda>i. (tileId (FRONTIER_COORDS ! i),
       \<lparr>tile_id = tileId (FRONTIER_COORDS ! i), tile_coord = FRONTIER_COORDS ! i, tile_terrain = ts ! i,
        tile_numberToken = None, tile_properties = None\<rparr>)) [0..<37]"
    by (rule buildDemoMap_tiles)
  have tiles: "tileById m (tileId c) \<noteq> None" if c: "c \<in> set FRONTIER_COORDS" for c
  proof -
    obtain i where "i < 37" "c = FRONTIER_COORDS ! i" using c frontier_coords(1) by (auto simp: in_set_conv_nth)
    then have "tileId c \<in> set (jkeys (gm_tiles m))" by (auto simp: m(2))
    then show ?thesis unfolding tileById_def map_of_eq_None_iff by simp
  qed
  define s0 where "s0 = initial_state gid demoScenario ps seed m rounds"
  have s0: "gs_pieces s0 = []" "gs_inventories s0 = fold (\<lambda>p. jput (pl_id p) []) ps []" "gs_map s0 = m"
    "gs_players s0 = newPlayerManager ps" "gs_rounds s0 = rounds" "gs_status s0 = Setup" "gs_history s0 = []" "gs_extras s0 = emptyFextras"
    by (simp_all add: s0_def initial_state_def newInventory_def demoScenario_def)
  have inv0: "jget (gs_inventories s0) i = (if i \<in> pl_id ` set ps then Some [] else None)" for i
    by (simp add: s0 jget_fold_inventories)
  have dist0: "distinct (jkeys (gs_inventories s0))" unfolding s0(2) by (rule distinct_fold_inventories) simp
  have seated: "pl_id ` set (pm_bySeat (newPlayerManager ps)) = pl_id ` set ps"
    by (simp add: newPlayerManager_def Let_def image_image)
  have pl: "players_ok (newPlayerManager ps) (gs_inventories s0) first"
  proof -
    have "pl_id q \<noteq> [] \<and> jget (gs_inventories s0) (pl_id q) \<noteq> None" if "q \<in> set (pm_bySeat (newPlayerManager ps))" for q
    proof -
      have "pl_id q \<in> pl_id ` set ps" using that seated by blast
      then show ?thesis using ids(2) inv0 by auto
    qed
    then show ?thesis using pm_wf_new [OF ids(1)] seated mem by (simp add: players_ok_def)
  qed
  have act: "active_ids (pm_bySeat (newPlayerManager ps)) \<noteq> {}"
  proof -
    have "{q \<in> set (pm_bySeat (newPlayerManager ps)). is_active q} = set (pm_bySeat (newPlayerManager ps))"
      using all_active_new by blast
    then have "active_ids (pm_bySeat (newPlayerManager ps)) = pl_id ` set ps" by (simp only: active_ids_def seated)
    then show ?thesis using p(1) by auto
  qed
  have ok0: "frontier_ok s0"
    using dist0 pl act by (simp add: frontier_ok_def s0(1,3-8) rounds(2) invs_ok_def inv0 flags_ok_def offers_ok_def getOffers_def emptyFextras_def)
  obtain cs where cs: "jget FRONTIER_STARTING_COORDS (length ps) = Some cs" "length cs = length ps" "distinct cs" "set cs \<subseteq> set FRONTIER_COORDS"
    using frontier_starting [OF n] by blast
  have a1: "0 + length ps \<le> length cs" using cs(2) by simp
  have a2: "\<forall>c \<in> set cs. tileById (gs_map s0) (tileId c) \<noteq> None" using cs(4) tiles by (auto simp: s0(3))
  have a3: "\<forall>k. 0 \<le> k \<longrightarrow> k < length cs \<longrightarrow> \<not> isTileOccupied s0 (tileId (cs ! k))" by (simp add: isTileOccupied_def s0(1))
  obtain homes s1 where su: "homeSteps cs (enumerate 0 ps) ([], s0) = (Inr (), (homes, s1))" "frontier_ok s1" "setup_frame s0 s1"
    "\<forall>q. stock_of s1 q ''vp'' \<le> stock_of s0 q ''vp'' + 3 * int (length ps)" "length (gs_pieces s1) \<le> length (gs_pieces s0) + length ps"
    using home_steps [OF ok0 a1 cs(3) a2 a3, of "[]"] by blast
  define s where "s = set_fextras (fx_homeTiles_update (\<lambda>_. Some homes)) s1"
  have ok1: "frontier_ok s"
    using frontier_okD [OF su(2)] by (simp add: frontier_ok_def s_def invs_ok_def getOffers_def nextOffer_def)
  have "frontierSetup ps s0 = (Inr (), s)" using cs(1) su(1) by (simp add: frontierSetup_def s_def)
  then have create: "createGameState gid demoScenario ps seed = Inr s"
    using n m(1) rounds(1) by (simp add: createGameState_def demoScenario_def Let_def flip: s0_def [unfolded demoScenario_def])
  have low: "inv_get bag ''vp'' < 18" if "(q, bag) \<in> set (gs_inventories s)" for q bag
  proof -
    have "jget (gs_inventories s1) q = Some bag" using that frontier_okD(1) [OF su(2)] by (simp add: s_def map_of_eq_Some_iff)
    then have "inv_get bag ''vp'' \<le> stock_of s0 q ''vp'' + 3 * int (length ps)" using su(4) [rule_format, of q] by (simp add: stock_of_def)
    then show ?thesis using n(2) by (simp add: stock_of_def inv0 split: if_splits)
  qed
  have "gm_tiles (gs_map s) = gm_tiles m" using su(3) by (simp add: s_def setup_frame_def s0(3))
  moreover have "length (claimedTiles s) \<le> 4" using claimedTiles_le [of s] su(5) n(2) by (simp add: s_def s0(1))
  moreover have "claimedTiles (s\<lparr>gs_status := Playing\<rparr>) = claimedTiles s" by (simp add: claimedTiles_def)
  ultimately have "evaluate_victory [firstToEighteenVP, allTilesClaimed] (s\<lparr>gs_status := Playing\<rparr>) = Inr None"
    using frontier_victory_fires [of "s\<lparr>gs_status := Playing\<rparr>"] low by (fastforce simp: m(2))
  with create ok1 su(3) show ?thesis by (intro that [of s]) (simp_all add: s_def setup_frame_def s0)
qed

section \<open>The contract holds\<close>

definition frontier_vs :: "(fextras, fpayload, fevent) validator_registry" where
  "frontier_vs = map (\<lambda>v. (va_type v, v)) frontierValidators"

definition frontier_xs :: "(fextras, fpayload, fevent) executor_registry" where
  "frontier_xs = map (\<lambda>x. (ex_type x, x)) frontierExecutors"

lemma newGame_frontier:
  "newGame s demoScenario =
     Inr \<lparr>g_state = s, g_events = newEmitter, g_validators = frontier_vs, g_executors = frontier_xs, g_rules = [],
          g_victories = [firstToEighteenVP, allTilesClaimed], g_machine = gs_status s\<rparr>"
proof -
  have "validators.register_all frontierValidators [] = Inr frontier_vs"
    by (simp add: frontierValidators_def frontier_vs_def registerValidator_def reg_insert_def jhas_def)
  moreover have "executors.register_all frontierExecutors [] = Inr frontier_xs"
    by (simp add: frontierExecutors_def frontier_xs_def registerExecutor_def reg_insert_def jhas_def)
  ultimately show ?thesis by (simp add: newGame_def demoScenario_def victories_add_def)
qed

lemma frontier_validators_total:
  assumes ok': "frontier_ok s"
  shows "\<exists>r. claimTileValidator s a = Inr r" "\<exists>r. frontierEndTurnValidator s a = Inr r" "\<exists>r. tradeValidator s a = Inr r"
    "\<exists>r. fortifyValidator s a = Inr r" "\<exists>r. postOfferValidator s a = Inr r" "\<exists>r. acceptOfferValidator s a = Inr r"
    "\<exists>r. cancelOfferValidator s a = Inr r"
proof -
  have w: "\<exists>r. with_inv s (actor a) f = Inr r" if "\<And>bag. \<exists>r. f bag = Inr r" "frontierGuard s (ac_playerId a) = None" for f
    using that frontierGuard_None(3) [OF ok' that(2)] by (auto simp: with_inv_def has_inv_def)
  show "\<exists>r. claimTileValidator s a = Inr r" "\<exists>r. frontierEndTurnValidator s a = Inr r" "\<exists>r. tradeValidator s a = Inr r"
    "\<exists>r. fortifyValidator s a = Inr r" "\<exists>r. postOfferValidator s a = Inr r" "\<exists>r. acceptOfferValidator s a = Inr r"
    "\<exists>r. cancelOfferValidator s a = Inr r"
    by (auto simp: claimTileValidator_def frontierEndTurnValidator_def tradeValidator_def fortifyValidator_def postOfferValidator_def
        acceptOfferValidator_def cancelOfferValidator_def Let_def split: option.split intro!: w)
qed

lemma frontier_lookup:
  assumes "getValidator frontier_vs ty = Some v"
  obtains x where "getExecutor frontier_xs ty = Some x" "\<And>s a. frontier_ok s \<Longrightarrow> va_validate v s a = accept \<Longrightarrow> fexecutes (ex_execute x a) s"
    "\<And>s a. frontier_ok s \<Longrightarrow> \<exists>r. va_validate v s a = Inr r"
  using assms that frontier_validators_total claim_executes endTurn_fexecutes trade_fexecutes fortify_fexecutes offers_fexecute
  by (auto simp: getValidator_def frontier_vs_def frontierValidators_def getExecutor_def frontier_xs_def frontierExecutors_def split: if_splits)

interpretation frontier: action_system frontier_vs frontier_xs "[]" "[firstToEighteenVP, allTilesClaimed]" frontier_ok
proof
  fix s :: fstate and a :: faction and es
  assume ok': "frontier_ok s"
  show "\<exists>r. validate_action frontier_vs s a = Inr r"
  proof (cases "getValidator frontier_vs (ac_type a)")
    case (Some v)
    show ?thesis by (rule frontier_lookup [OF Some]) (simp add: validate_action_def Some ok')
  qed (simp add: validate_action_def)
  show "\<exists>fs. process_all [] s es = Inr fs" by simp
  show "\<exists>v. evaluate_victory [firstToEighteenVP, allTilesClaimed] s = Inr v"
    by (auto simp: firstToEighteenVP_def allTilesClaimed_def split: option.split prod.split)
  assume acc: "validate_action frontier_vs s a = accept"
  then obtain v where v: "getValidator frontier_vs (ac_type a) = Some v" "va_validate v s a = accept"
    by (auto simp: validate_action_def split: option.splits)
  from v(1) obtain x where "getExecutor frontier_xs (ac_type a) = Some x" "fexecutes (ex_execute x a) s"
    using ok' v(2) by (elim frontier_lookup) blast
  then show "\<exists>es s'. execute_action frontier_xs a s = (Inr es, s') \<and> frontier_ok s' \<and> gs_status s' = gs_status s \<and> gs_history s' = gs_history s"
    by (simp add: execute_action_def fexecutes_def)
next
  fix s :: fstate and h st
  show "frontier_ok (s\<lparr>gs_history := h\<rparr>) = frontier_ok s" by (simp add: frontier_ok_def invs_ok_def getOffers_def nextOffer_def)
  show "frontier_ok (s\<lparr>gs_status := st\<rparr>) = frontier_ok s" by (simp add: frontier_ok_def invs_ok_def getOffers_def nextOffer_def)
qed

lemma frontier_host_play:
  assumes "roster_ok ps"
  obtains rs g' where "host_play ck gid demoScenario ps seed as = Inr (rs, g')"
    "game_loaded frontier_vs frontier_xs [] [firstToEighteenVP, allTilesClaimed] frontier_ok g'"
    "g_machine g' = Playing \<or> g_machine g' = Ended"
    "g_machine g' = Ended \<longleftrightarrow> evaluate_victory [firstToEighteenVP, allTilesClaimed] (g_state g'\<lparr>gs_status := Playing\<rparr>) \<noteq> Inr None"
proof -
  obtain s where s: "createGameState gid demoScenario ps seed = Inr s" "frontier_ok s" "gs_status s = Setup" "gs_history s = []"
    "evaluate_victory [firstToEighteenVP, allTilesClaimed] (s\<lparr>gs_status := Playing\<rparr>) = Inr None"
    by (rule frontier_create [OF assms])
  obtain g where g: "newGame s demoScenario = Inr g" "g_validators g = frontier_vs" "g_executors g = frontier_xs"
    "g_rules g = []" "g_victories g = [firstToEighteenVP, allTilesClaimed]" "frontier_ok (g_state g)" "g_machine g = Setup" "g_state g = s"
    using s newGame_frontier [of s] by auto
  from frontier.start_total [OF g(2-7), of ck as] g(8) s(4,5) obtain rs g' where
    "play ck as (game_start g) = (Inr rs, g')" "game_loaded frontier_vs frontier_xs [] [firstToEighteenVP, allTilesClaimed] frontier_ok g'"
    "g_machine g' = Playing \<or> g_machine g' = Ended"
    "g_machine g' = Ended \<longleftrightarrow> evaluate_victory [firstToEighteenVP, allTilesClaimed] (g_state g'\<lparr>gs_status := Playing\<rparr>) \<noteq> Inr None"
    by auto
  with s(1) g(1) show ?thesis by (intro that [of rs g']) (simp_all add: host_play_def)
qed

section \<open>A small position\<close>

definition fPlayer :: "string \<Rightarrow> int \<Rightarrow> player" where
  "fPlayer i seat = \<lparr>pl_id = i, pl_displayName = i, pl_color = ''red'', pl_seat = seat, pl_status = None\<rparr>"

definition fRoster :: "player list" where
  "fRoster = [fPlayer ''alice'' 0, fPlayer ''bob'' 1]"

definition fMap :: game_map where
  "fMap = mb_build (mb_addTile (axial 1 0) ''forest'' None (mb_addTile (axial 0 0) ''grass'' None newMapBuilder))"

definition fState :: fstate where
  "fState = \<lparr>gs_gameId = ''g'', gs_scenarioId = ''demo-v1'', gs_status = Playing, gs_map = fMap,
     gs_players = newPlayerManager fRoster, gs_inventories = [(''alice'', [(''wood'', 3), (''stone'', 1)]), (''bob'', [(''vp'', 4)])],
     gs_bank = [], gs_decks = [], gs_hands = [], gs_pieces = [(''f'', makeUnit ''f'' ''flag'' ''alice'' (tileId (axial 0 0)) None None)],
     gs_rounds = \<lparr>currentRound = 1, currentTurn = \<lparr>turnNumber = 1, activePlayer = ''alice'', currentPhaseId = ''turn'', flags = []\<rparr>,
       rm_phases = [], rm_turnOrder = Clockwise\<rparr>,
     gs_rng = newSeededRandom 7, gs_history = [], gs_extras = emptyFextras\<rparr>"

definition fAction :: "string \<Rightarrow> faction" where
  "fAction ty = \<lparr>ac_type = ty, ac_playerId = Some ''alice'', ac_payload =
     \<lparr>fp_tileId = tileId (axial 1 0), fp_resource = ''wood'', fp_giveWood = 2, fp_giveStone = 0, fp_wantWood = 0, fp_wantStone = 1,
      fp_offerId = ''1''\<rparr>, ac_clientSeq = None\<rparr>"

lemma fRoster_ok: "roster_ok fRoster"
  by (simp add: roster_ok_def fRoster_def fPlayer_def is_active_def)

lemma fMap_tiles: "tileById fMap (tileId (axial 0 0)) \<noteq> None"
  "tileById fMap (tileId (axial 1 0)) = Some (build_tile [] \<lparr>td_coord = axial 1 0, td_terrain = ''forest'', td_numberToken = None\<rparr>)"
  "tileById fMap (tileId (axial 0 0)) = Some (build_tile [] \<lparr>td_coord = axial 0 0, td_terrain = ''grass'', td_numberToken = None\<rparr>)"
  by (simp_all add: fMap_def mb_build_def mb_addTile_def newMapBuilder_def emptyMap_def gm_addTile_def tileById_def)

lemma fState_ok: "frontier_ok fState"
proof -
  have seats: "pm_bySeat (newPlayerManager fRoster) = map (\<lambda>p. p\<lparr>pl_status := Some Active\<rparr>) fRoster"
    by (simp add: newPlayerManager_def Let_def fRoster_def fPlayer_def)
  have "pm_wf (newPlayerManager fRoster)" by (rule pm_wf_new) (simp add: fRoster_def fPlayer_def)
  moreover have "active_ids (pm_bySeat (newPlayerManager fRoster)) \<noteq> {}"
    unfolding seats active_ids_def by (auto simp: fRoster_def is_active_def)
  moreover have "flags_ok fMap [(''f'', makeUnit ''f'' ''flag'' ''alice'' (tileId (axial 0 0)) None None)]"
    using fMap_tiles by (auto simp: flags_ok_def piece_tile_def split: if_splits)
  moreover have "inv_ok [(''wood'', 3), (''stone'', 1)]" "inv_ok [(''vp'', 4)]" by (auto simp: inv_ok_def inv_get_def)
  ultimately show ?thesis
    by (simp add: frontier_ok_def fState_def invs_ok_def players_ok_def seats offers_ok_def getOffers_def emptyFextras_def)
      (simp add: fRoster_def fPlayer_def)
qed

lemma fGuard: "frontierGuard fState (Some ''alice'') = None"
  by (simp add: frontierGuard_def fState_def)

lemma fAction_sel [simp]: "ac_playerId (fAction ty) = Some ''alice''" "actor (fAction ty) = ''alice''"
  by (simp_all add: fAction_def actor_def)

section \<open>Properties of whole games\<close>

text \<open> C3: A game of Frontier never throws: for every legal roster, seed and sequence of submitted
  actions it is created, started and played to a state where every tile carries at most one
  settlement, all settlements stand on the map and no stock is negative. \<close>
theorem frontier_never_throws:
  assumes "roster_ok ps"
  shows "\<exists>rs g'. host_play ck gid demoScenario ps seed as = Inr (rs, g') \<and>
    (\<forall>i j p q. jget (gs_pieces (g_state g')) i = Some p \<longrightarrow> jget (gs_pieces (g_state g')) j = Some q \<longrightarrow>
        piece_tile p = piece_tile q \<longrightarrow> i = j) \<and>
    (\<forall>i p. jget (gs_pieces (g_state g')) i = Some p \<longrightarrow>
        (\<exists>t. piece_tile p = Some t \<and> tileById (gs_map (g_state g')) t \<noteq> None)) \<and>
    (\<forall>p r. 0 \<le> stock_of (g_state g') p r)"
proof -
  obtain rs g' where g: "host_play ck gid demoScenario ps seed as = Inr (rs, g')"
    "game_loaded frontier_vs frontier_xs [] [firstToEighteenVP, allTilesClaimed] frontier_ok g'"
    by (rule frontier_host_play [OF assms, of ck gid seed as]) blast
  then have ok': "frontier_ok (g_state g')" by (simp add: game_loaded_def)
  have "flags_ok (gs_map (g_state g')) (gs_pieces (g_state g'))" by (rule frontier_okD(5) [OF ok'])
  then show ?thesis unfolding flags_ok_def using g(1) stock_nonneg [OF frontier_okD(2) [OF ok']] by blast
qed

lemma frontier_never_throws_witness:
  "\<exists>rs g'. host_play \<lparr>ck_stamp = (\<lambda>n. n), ck_append = int\<rparr> ''g'' demoScenario fRoster ''seed'' [fAction ''claim-tile'', fAction ''end-turn''] =
      Inr (rs, g') \<and> 0 \<le> stock_of (g_state g') ''alice'' ''vp''"
  using frontier_never_throws [OF fRoster_ok] by blast

text \<open> C35: A game of Frontier is over exactly when somebody holds eighteen victory points or no tile
  of the map is left unclaimed. \<close>
theorem frontier_ends_exactly:
  assumes "roster_ok ps" "host_play ck gid demoScenario ps seed as = Inr (rs, g')"
  shows "g_machine g' = Ended \<longleftrightarrow>
     (\<exists>(p, bag) \<in> set (gs_inventories (g_state g')). 18 \<le> inv_get bag ''vp'') \<or>
     length (gm_tiles (gs_map (g_state g'))) \<le> length (claimedTiles (g_state g'))"
proof -
  have "g_machine g' = Ended \<longleftrightarrow> evaluate_victory [firstToEighteenVP, allTilesClaimed] (g_state g'\<lparr>gs_status := Playing\<rparr>) \<noteq> Inr None"
    using frontier_host_play [OF assms(1), of ck gid seed as] assms(2) by (metis Pair_inject sum.inject(2))
  then show ?thesis unfolding frontier_victory_fires by (simp add: claimedTiles_def)
qed

lemma frontier_ends_exactly_witness:
  "\<exists>rs g'. host_play \<lparr>ck_stamp = (\<lambda>n. n), ck_append = int\<rparr> ''g'' demoScenario fRoster ''seed'' [fAction ''end-turn''] = Inr (rs, g') \<and>
     (g_machine g' = Ended \<longleftrightarrow>
       (\<exists>(p, bag) \<in> set (gs_inventories (g_state g')). 18 \<le> inv_get bag ''vp'') \<or>
       length (gm_tiles (gs_map (g_state g'))) \<le> length (claimedTiles (g_state g')))"
proof -
  obtain rs g' where "host_play \<lparr>ck_stamp = (\<lambda>n. n), ck_append = int\<rparr> ''g'' demoScenario fRoster ''seed'' [fAction ''end-turn''] = Inr (rs, g')"
    by (rule frontier_host_play [OF fRoster_ok])
  with frontier_ends_exactly [OF fRoster_ok this] show ?thesis by blast
qed

section \<open>Properties of offers\<close>

definition held :: "fstate \<Rightarrow> string \<Rightarrow> int" where
  "held s r = (\<Sum>p \<in> set (jkeys (gs_inventories s)). stock_of s p r)"

definition reserved_by :: "string \<Rightarrow> trade_offer \<Rightarrow> int" where
  "reserved_by r o' = (if r = ''wood'' then to_giveWood o' else if r = ''stone'' then to_giveStone o' else 0)"

text \<open>All of a resource: what the players hold and what their open offers reserve.\<close>

definition total_of :: "fstate \<Rightarrow> string \<Rightarrow> int" where
  "total_of s r = held s r + sum_list (map (reserved_by r) (getOffers s))"

lemma held_bookIf:
  assumes "has_inv p s"
  shows "held (bookIf p r n s) r' = held s r' + (if r' = r then n else 0)"
proof -
  have mem: "p \<in> set (jkeys (gs_inventories s))" using assms by (metis has_inv_def jhas_def jhas_iff)
  have keys: "set (jkeys (gs_inventories (bookIf p r n s))) = set (jkeys (gs_inventories s))"
    using mem by (simp add: bookIf_def book_def put_inventory_def jkeys_jput insert_absorb del: set_map)
  show ?thesis unfolding held_def keys using mem by (simp add: sum.distrib del: set_map)
qed

lemma held_extras [simp]: "held (s\<lparr>gs_extras := x\<rparr>) r = held s r"
  by (simp add: held_def stock_of_def)

lemma sum_without:
  "distinct (map to_id os) \<Longrightarrow> offer \<in> set os \<Longrightarrow>
   sum_list (map f (filter (\<lambda>o'. to_id o' \<noteq> to_id offer) os)) = sum_list (map f os) - (f offer :: int)"
proof (induction os)
  case (Cons o' os)
  show ?case
  proof (cases "o' = offer")
    case True
    with Cons.prems have "filter (\<lambda>o'. to_id o' \<noteq> to_id offer) os = os" by (auto simp: filter_id_conv image_iff)
    with True show ?thesis by simp
  next
    case False
    with Cons show ?thesis by (force simp: image_iff)
  qed
qed simp

lemma total_dropOffer:
  assumes "frontier_ok s" "offer \<in> set (getOffers s)"
  shows "total_of (dropOffer offer (getOffers s) s') r = held s' r + sum_list (map (reserved_by r) (getOffers s)) - reserved_by r offer"
proof -
  have "distinct (map to_id (getOffers s))" using frontier_okD(6) [OF assms(1)] by (simp add: offers_ok_def)
  from sum_without [OF this assms(2), of "reserved_by r"] show ?thesis
    by (simp add: total_of_def dropOffer_def) (simp add: getOffers_def)
qed

text \<open> C31: Trading among players creates and destroys nothing: posting, accepting and cancelling an
  offer leave the total of every resource, held or reserved, as it was. \<close>
theorem offers_conserve_resources:
  assumes ok': "frontier_ok s"
    and step: "(postOfferValidator s a = accept \<and> postOfferExecutor a s = (Inr es, s')) \<or>
      (acceptOfferValidator s a = accept \<and> acceptOfferExecutor a s = (Inr es, s')) \<or>
      (cancelOfferValidator s a = accept \<and> cancelOfferExecutor a s = (Inr es, s'))"
  shows "total_of s' r = total_of s r"
  using step
proof (elim disjE conjE)
  assume acc: "postOfferValidator s a = accept" and run: "postOfferExecutor a s = (Inr es, s')"
  have "s' = posted a s" using post_runs(1) [OF ok' acc] run by simp
  moreover have "getOffers (posted a s) = getOffers s @ [newOffer s a]" by (simp add: posted_def Let_def getOffers_def)
  moreover have "held (posted a s) r = held s r - reserved_by r (newOffer s a)"
    using post_accepted(2) [OF ok' acc] by (simp add: posted_def Let_def held_bookIf has_inv_bookIf reserved_by_def newOffer_def)
  ultimately show ?thesis by (simp add: total_of_def)
next
  assume acc: "acceptOfferValidator s a = accept" and run: "acceptOfferExecutor a s = (Inr es, s')"
  show ?thesis
  proof (rule accept_runs [OF ok' acc])
    fix offer
    assume f: "findOffer s (fp_offerId (ac_payload a)) = Some offer" "has_inv (actor a) s"
      "acceptOfferExecutor a s = (Inr [mkEvent ''accept-offer'' (Some (actor a)) (OfferAccepted (to_id offer) offer (actor a))], accepted (actor a) offer s)"
    then have "s' = accepted (actor a) offer s" using run by simp
    then show ?thesis using f(2) found_offer [OF ok' f(1)]
      by (simp add: accepted_def total_dropOffer [OF ok'] held_bookIf has_inv_bookIf) (simp add: total_of_def reserved_by_def)
  qed
next
  assume acc: "cancelOfferValidator s a = accept" and run: "cancelOfferExecutor a s = (Inr es, s')"
  show ?thesis
  proof (rule cancel_runs [OF ok' acc])
    fix offer
    assume f: "findOffer s (fp_offerId (ac_payload a)) = Some offer" "has_inv (actor a) s"
      "cancelOfferExecutor a s = (Inr [mkEvent ''cancel-offer'' (Some (actor a)) (OfferCancelled (to_id offer) offer)], cancelled (actor a) offer s)"
    then have "s' = cancelled (actor a) offer s" using run by simp
    then show ?thesis using f(2) found_offer [OF ok' f(1)]
      by (simp add: cancelled_def total_dropOffer [OF ok'] held_bookIf has_inv_bookIf) (simp add: total_of_def reserved_by_def)
  qed
qed

lemma offers_conserve_resources_witness:
  "\<exists>es s'. postOfferExecutor (fAction ''post-offer'') fState = (Inr es, s') \<and> stock_of s' ''alice'' ''wood'' = 1 \<and>
     total_of s' ''wood'' = total_of fState ''wood''"
proof -
  have acc: "postOfferValidator fState (fAction ''post-offer'') = accept"
    by (simp add: postOfferValidator_def fGuard with_inv_def Let_def) (simp add: fAction_def fState_def inv_get_def getOffers_def emptyFextras_def)
  from post_runs(1) [OF fState_ok acc] obtain es where run: "postOfferExecutor (fAction ''post-offer'') fState = (Inr es, posted (fAction ''post-offer'') fState)"
    by blast
  have "stock_of (posted (fAction ''post-offer'') fState) ''alice'' ''wood'' = 1"
  proof -
    have ext: "stock_of (s\<lparr>gs_extras := x\<rparr>) = stock_of s" for s x by (simp add: stock_of_def fun_eq_iff)
    show ?thesis by (simp add: posted_def Let_def ext) (simp add: fAction_def fState_def stock_of_def inv_get_def)
  qed
  with run offers_conserve_resources [OF fState_ok, of "fAction ''post-offer''" es "posted (fAction ''post-offer'') fState" "''wood''"] acc
  show ?thesis by blast
qed

section \<open>Properties of claims\<close>

lemma tileOwner_unique:
  assumes fl: "flags_ok m (gs_pieces s)" and p: "jget (gs_pieces s) i = Some p" "piece_tile p = Some t"
  shows "tileOwner s t = Some (pc_owner p)"
proof -
  have d: "distinct (jkeys (gs_pieces s))" using fl by (simp add: flags_ok_def)
  have "p \<in> set (jvals (gs_pieces s))" using jget_in_set [OF p(1)] by force
  moreover have "q = p" if q: "q \<in> set (jvals (gs_pieces s))" "piece_tile q = Some t" for q
  proof -
    obtain j where "(j, q) \<in> set (gs_pieces s)" using q(1) by auto
    then have j: "jget (gs_pieces s) j = Some q" by (simp add: map_of_eq_Some_iff [OF d])
    have "piece_tile q = piece_tile p" using p(2) q(2) by simp
    with fl p(1) j have "j = i" unfolding flags_ok_def by blast
    with j p show ?thesis by simp
  qed
  ultimately have "find (\<lambda>p. piece_tile p = Some t) (jvals (gs_pieces s)) = Some p" using p(2) by (intro find_unique [where p = "\<lambda>p. piece_tile p = Some t"]) blast+
  then show ?thesis by (simp add: tileOwner_def)
qed

text \<open> C34: An accepted claim takes a free tile of the map and makes it the claimer's, for one to five victory
  points. The tile is a neighbour of the claimer's territory, or two stones were spent on a leap, which allows any free
  tile of the map; the claim uses the leap up, and nobody can claim a second tile in the same turn. \<close>
theorem claim_expands_territory:
  assumes ok': "frontier_ok s" and acc: "claimTileValidator s a = accept"
  defines "t \<equiv> fp_tileId (ac_payload a)" and "me \<equiv> actor a"
  shows "\<exists>es s'. claimTileExecutor a s = (Inr es, s') \<and> tileOwner s t = None \<and> tileOwner s' t = Some me \<and>
    stock_of s me ''vp'' + 1 \<le> stock_of s' me ''vp'' \<and> stock_of s' me ''vp'' \<le> stock_of s me ''vp'' + 5 \<and>
    (\<exists>hex. tileById (gs_map s) t = Some hex \<and>
       (flagSet s ''stoneLeap'' \<or> (\<exists>c \<in> set (ownedTileCoords s me). hexDistance c (tile_coord hex) = 1))) \<and>
    \<not> flagSet s' ''stoneLeap'' \<and> claimTileValidator s' b \<noteq> accept"
proof (rule claim_runs [OF ok' acc])
  fix hex die1 die2 g
  assume hex: "tileById (gs_map s) (fp_tileId (ac_payload a)) = Some hex"
  let ?piece = "makeUnit (''flag-'' @ actor a @ ''-'' @ fp_tileId (ac_payload a)) ''flag'' (actor a) (fp_tileId (ac_payload a)) None None"
  let ?s2 = "(case claimYield hex of Some r \<Rightarrow> book (actor a) r 1 | None \<Rightarrow> id)
             (book (actor a) ''vp'' (claimVp hex (die1 + die2)) (s\<lparr>gs_rng := g\<rparr>))"
  assume fst': "fst (claimTileExecutor a s) = Inr [mkEvent ''tile-claimed'' (Some (actor a)) (TileClaimed
       \<lparr>cl_tileId = fp_tileId (ac_payload a), cl_terrain = tile_terrain hex, cl_vp = claimVp hex (die1 + die2), cl_claimedBy = actor a,
        cl_diceRoll = die1 + die2, cl_die1 = die1, cl_die2 = die2, cl_bonusVp = bonusFor (die1 + die2), cl_resource = claimYield hex\<rparr>)]"
    and snd': "snd (claimTileExecutor a s) = raise_flag ''stoneLeap'' False (raise_flag ''claimedThisTurn'' True (place_piece ?piece ?s2))"
  define s' where "s' = snd (claimTileExecutor a s)"
  obtain es where run: "claimTileExecutor a s = (Inr es, s')" using fst' unfolding s'_def by (metis prod.collapse)
  obtain hex' where acc': "tileById (gs_map s) (fp_tileId (ac_payload a)) = Some hex'" "\<not> isTileOccupied s (fp_tileId (ac_payload a))"
    "flagSet s ''stoneLeap'' \<or> (\<exists>c \<in> set (ownedTileCoords s (actor a)). \<exists>d \<in> set HEX_DIRS.
       ax_q c = ax_q (tile_coord hex') - ax_q d \<and> ax_r c = ax_r (tile_coord hex') - ax_r d)"
    by (rule claim_accepted [OF ok' acc])
  then have free: "\<not> isTileOccupied s t" and leap: "flagSet s ''stoneLeap'' \<or> (\<exists>c \<in> set (ownedTileCoords s me). \<exists>d \<in> set HEX_DIRS.
       ax_q c = ax_q (tile_coord hex) - ax_q d \<and> ax_r c = ax_r (tile_coord hex) - ax_r d)"
    using hex by (simp_all add: t_def me_def)
  have none: "tileOwner s t = None" using free by (auto simp: tileOwner_def isTileOccupied_def list_ex_iff find_None_iff)
  have pcs: "gs_pieces s' = jput (pc_id ?piece) ?piece (gs_pieces s)"
    by (simp add: s'_def snd' place_piece_def split: option.split)
  have "fexecutes (claimTileExecutor a) s" by (rule claim_executes [OF ok' acc])
  then have "frontier_ok s'" using run by (simp add: fexecutes_def)
  then have fl: "flags_ok (gs_map s') (gs_pieces s')" by (rule frontier_okD(5))
  have "jget (gs_pieces s') (pc_id ?piece) = Some ?piece" "piece_tile ?piece = Some t" "pc_owner ?piece = me"
    by (simp_all add: pcs piece_tile_def t_def me_def)
  from tileOwner_unique [OF fl this(1,2)] this(3) have own: "tileOwner s' t = Some me" by simp
  have yield: "claimYield hex \<noteq> Some ''vp''" by (auto simp: claimYield_def FRONTIER_TERRAIN_RESOURCE_def split: option.splits)
  have st: "stock_of s' me ''vp'' = stock_of s me ''vp'' + claimVp hex (die1 + die2)"
  proof -
    have "stock_of (place_piece q s1) = stock_of s1" "stock_of (s1\<lparr>gs_rng := g\<rparr>) = stock_of s1" for q s1
      by (simp_all add: place_piece_def stock_of_def fun_eq_iff)
    then show ?thesis using yield by (auto simp: s'_def snd' me_def split: option.split)
  qed
  have near: "\<exists>hex. tileById (gs_map s) t = Some hex \<and>
      (flagSet s ''stoneLeap'' \<or> (\<exists>c \<in> set (ownedTileCoords s me). hexDistance c (tile_coord hex) = 1))"
  proof -
    have "hexDistance c (tile_coord hex) = 1" if "d \<in> set HEX_DIRS" "ax_q c = ax_q (tile_coord hex) - ax_q d" "ax_r c = ax_r (tile_coord hex) - ax_r d" for c d
      using that by (auto simp: HEX_DIRS_def hexDistance_def axialDistance_max)
    with leap hex show ?thesis unfolding t_def by blast
  qed
  have spent: "\<not> flagSet s' ''stoneLeap''" and "flagSet s' ''claimedThisTurn''"
    by (simp_all add: s'_def snd' flagSet_def raise_flag_def setFlag_def)
  then have "claimTileValidator s' b \<noteq> accept"
    by (auto simp: claimTileValidator_def Let_def split: option.split)
  with run none own st near spent claimVp_range [of hex "die1 + die2"] show ?thesis by (intro exI [of _ es] exI [of _ s']) simp
qed

lemma claim_expands_territory_witness:
  "\<exists>es s'. claimTileExecutor (fAction ''claim-tile'') fState = (Inr es, s') \<and> tileOwner s' (tileId (axial 1 0)) = Some ''alice'' \<and>
     1 \<le> stock_of s' ''alice'' ''vp''"
proof -
  have ext: "gs_map fState = fMap" "gs_pieces fState = [(''f'', makeUnit ''f'' ''flag'' ''alice'' (tileId (axial 0 0)) None None)]"
    "currentPhaseId (currentTurn (gs_rounds fState)) = ''turn''" "flags (currentTurn (gs_rounds fState)) = []"
    "fp_tileId (ac_payload (fAction ''claim-tile'')) = tileId (axial 1 0)" "stock_of fState ''alice'' ''vp'' = 0"
    by (simp_all add: fState_def fAction_def stock_of_def inv_get_def)
  have acc: "claimTileValidator fState (fAction ''claim-tile'') = accept"
    by (simp add: claimTileValidator_def fGuard ext flagSet_def fMap_tiles isTileOccupied_def piece_tile_def ownedTileCoords_def Let_def HEX_DIRS_def)
  from claim_expands_territory [OF fState_ok acc, of "fAction ''claim-tile''"] show ?thesis unfolding ext fAction_sel by (metis add_0)
qed

section \<open>Properties of the full board\<close>

text \<open>What the loop knows after a prefix of the inventories.\<close>

definition leads :: "(string \<times> inventory) list \<Rightarrow> string option \<times> int \<times> bool \<Rightarrow> bool" where
  "leads done' acc \<longleftrightarrow>
     (case acc of (winner, topVP, tied) \<Rightarrow>
        (done' = [] \<and> winner = None \<and> topVP = -1 \<and> \<not> tied) \<or>
        (\<exists>w bag. winner = Some w \<and> (w, bag) \<in> set done' \<and> inv_get bag ''vp'' = topVP \<and>
           (\<forall>(q, b) \<in> set done'. inv_get b ''vp'' \<le> topVP) \<and>
           (tied \<longleftrightarrow> (\<exists>(q, b) \<in> set done'. q \<noteq> w \<and> inv_get b ''vp'' = topVP))))"

lemma leads_step:
  assumes "leads done' (winner, topVP, tied)" "p \<notin> fst ` set done'" "0 \<le> inv_get bag ''vp''"
  shows "leads (done' @ [(p, bag)])
     (if inv_get bag ''vp'' > topVP then (Some p, inv_get bag ''vp'', False)
      else if inv_get bag ''vp'' = topVP then (winner, topVP, True) else (winner, topVP, tied))"
proof (cases "done' = []")
  case True
  with assms show ?thesis by (auto simp: leads_def)
next
  case False
  then obtain w b where w: "winner = Some w" "(w, b) \<in> set done'" "inv_get b ''vp'' = topVP"
    "\<forall>(q, b) \<in> set done'. inv_get b ''vp'' \<le> topVP" "tied \<longleftrightarrow> (\<exists>(q, b) \<in> set done'. q \<noteq> w \<and> inv_get b ''vp'' = topVP)"
    using assms(1) by (auto simp: leads_def)
  have "p \<noteq> w" using assms(2) w(2) by force
  consider "inv_get bag ''vp'' > topVP" | "inv_get bag ''vp'' = topVP" | "inv_get bag ''vp'' < topVP" by linarith
  then show ?thesis
  proof cases
    case 1
    with w(4) show ?thesis by (fastforce simp: leads_def)
  next
    case 2
    with w \<open>p \<noteq> w\<close> show ?thesis by (auto simp: leads_def)
  next
    case 3
    with w \<open>p \<noteq> w\<close> show ?thesis by (auto simp: leads_def)
  qed
qed

lemma topScore_leads:
  "leads done' acc \<Longrightarrow> distinct (map fst (done' @ rest)) \<Longrightarrow> \<forall>(p, bag) \<in> set rest. 0 \<le> inv_get bag ''vp'' \<Longrightarrow>
   leads (done' @ rest) (topScore rest acc)"
proof (induction rest arbitrary: done' acc)
  case (Cons e rest)
  obtain p bag where e: "e = (p, bag)" by (cases e)
  obtain w t d where acc: "acc = (w, t, d)" by (cases acc)
  have "p \<notin> fst ` set done'" "0 \<le> inv_get bag ''vp''" using Cons.prems e by auto
  from Cons.IH [OF leads_step [OF Cons.prems(1) [unfolded acc] this]] Cons.prems(2,3) e acc show ?case
    by (simp add: Let_def split: if_splits)
qed simp

text \<open> When the board is full the winner is the one player with strictly more victory points than
  every other, and a game without such a player is declared a draw. \<close>
lemma full_board_winner:
  assumes ok': "frontier_ok s" and full: "vc_evaluate allTilesClaimed s = Inr (Some r)"
  shows "case vr_winner r of
     Some w \<Rightarrow> has_inv w s \<and> (\<forall>q. has_inv q s \<longrightarrow> q \<noteq> w \<longrightarrow> stock_of s q ''vp'' < stock_of s w ''vp'')
   | None \<Rightarrow> (\<exists>p q. p \<noteq> q \<and> has_inv p s \<and> has_inv q s \<and> stock_of s p ''vp'' = stock_of s q ''vp'' \<and>
        (\<forall>x. stock_of s x ''vp'' \<le> stock_of s p ''vp''))"
proof -
  note d = frontier_okD(1) [OF ok'] and nn = stock_nonneg [OF frontier_okD(2) [OF ok']]
  have mem: "(q, b) \<in> set (gs_inventories s) \<longleftrightarrow> jget (gs_inventories s) q = Some b" for q b using d by (simp add: map_of_eq_Some_iff)
  have vps: "\<forall>(p, bag) \<in> set (gs_inventories s). 0 \<le> inv_get bag ''vp''" using frontier_okD(2) [OF ok'] by (auto simp: mem invs_ok_def inv_okD)
  obtain w t tied where top: "topScore (gs_inventories s) (None, -1, False) = (w, t, tied)" by (metis prod_cases3)
  have "leads ([] @ gs_inventories s) (w, t, tied)"
    unfolding top [symmetric] by (rule topScore_leads) (use d vps in \<open>simp_all add: leads_def\<close>)
  moreover have "gs_inventories s \<noteq> []"
  proof -
    have "\<exists>p. jget (gs_inventories s) p \<noteq> None" using frontier_okD(3) [OF ok'] unfolding players_ok_def by blast
    then show ?thesis by auto
  qed
  ultimately obtain p bag where raw: "w = Some p" "(p, bag) \<in> set (gs_inventories s)" "inv_get bag ''vp'' = t"
    "\<forall>(q, b) \<in> set (gs_inventories s). inv_get b ''vp'' \<le> t"
    "tied \<longleftrightarrow> (\<exists>(q, b) \<in> set (gs_inventories s). q \<noteq> p \<and> inv_get b ''vp'' = t)"
    unfolding leads_def prod.case append_Nil by blast
  have p: "w = Some p" "jget (gs_inventories s) p = Some bag" "inv_get bag ''vp'' = t"
    "\<forall>q b. jget (gs_inventories s) q = Some b \<longrightarrow> inv_get b ''vp'' \<le> t"
    "tied \<longleftrightarrow> (\<exists>q b. jget (gs_inventories s) q = Some b \<and> q \<noteq> p \<and> inv_get b ''vp'' = t)"
  proof -
    show "\<forall>q b. jget (gs_inventories s) q = Some b \<longrightarrow> inv_get b ''vp'' \<le> t" using raw(4) mem by blast
    show "tied \<longleftrightarrow> (\<exists>q b. jget (gs_inventories s) q = Some b \<and> q \<noteq> p \<and> inv_get b ''vp'' = t)" using raw(5) mem by blast
  qed (use raw mem in simp_all)
  have r: "vr_winner r = (if tied then None else Some p)" using full by (auto simp: allTilesClaimed_def top p(1) split: if_splits)
  have le: "stock_of s x ''vp'' \<le> stock_of s p ''vp''" for x
    using p(2-4) nn [of p "''vp''"] by (auto simp: stock_of_def split: option.splits)
  show ?thesis
  proof (cases tied)
    case True
    then obtain q b where q: "jget (gs_inventories s) q = Some b" "q \<noteq> p" "inv_get b ''vp'' = t" using p(5) by blast
    then have "stock_of s p ''vp'' = stock_of s q ''vp''" "has_inv p s" "has_inv q s" using p(2,3) by (simp_all add: stock_of_def has_inv_def)
    with le q(2) have "p \<noteq> q \<and> has_inv p s \<and> has_inv q s \<and> stock_of s p ''vp'' = stock_of s q ''vp'' \<and>
        (\<forall>x. stock_of s x ''vp'' \<le> stock_of s p ''vp'')" by blast
    with True r show ?thesis by auto
  next
    case False
    have "stock_of s q ''vp'' < stock_of s p ''vp''" if "has_inv q s" "q \<noteq> p" for q
      using that False p(2-5) by (fastforce simp: stock_of_def has_inv_def)
    with False r p(2) show ?thesis by (auto simp: has_inv_def)
  qed
qed

lemma full_board_winner_witness:
  "frontier_ok (fState\<lparr>gs_map := fMap\<lparr>gm_tiles := [(tileId (axial 0 0), the (tileById fMap (tileId (axial 0 0))))]\<rparr>\<rparr>) \<and>
   (\<exists>r. vc_evaluate allTilesClaimed (fState\<lparr>gs_map := fMap\<lparr>gm_tiles := [(tileId (axial 0 0), the (tileById fMap (tileId (axial 0 0))))]\<rparr>\<rparr>) = Inr (Some r) \<and>
        vr_winner r = Some ''bob'')"
proof -
  let ?m = "fMap\<lparr>gm_tiles := [(tileId (axial 0 0), the (tileById fMap (tileId (axial 0 0))))]\<rparr>"
  let ?s = "fState\<lparr>gs_map := ?m\<rparr>"
  have "flags_ok ?m (gs_pieces fState)"
    by (auto simp: flags_ok_def piece_tile_def tileById_def fState_def split: if_splits)
  then have ok': "frontier_ok ?s" using frontier_okD [OF fState_ok] by (simp add: frontier_ok_def invs_ok_def getOffers_def nextOffer_def)
  have "\<exists>r. vc_evaluate allTilesClaimed ?s = Inr (Some r) \<and> vr_winner r \<noteq> None"
    by (simp add: allTilesClaimed_def claimedTiles_def fState_def piece_tile_def jadd_def inv_get_def)
  then obtain r w where r: "vc_evaluate allTilesClaimed ?s = Inr (Some r)" "vr_winner r = Some w" by auto
  have "stock_of ?s ''bob'' ''vp'' = 4" "has_inv ''bob'' ?s" "stock_of ?s ''alice'' ''vp'' = 0" "has_inv ''alice'' ?s"
    "has_inv w ?s \<Longrightarrow> w = ''alice'' \<or> w = ''bob''"
    by (auto simp: fState_def stock_of_def inv_get_def has_inv_def split: if_splits)
  with full_board_winner [OF ok' r(1)] r(2) have "w = ''bob''" by force
  with ok' r show ?thesis by blast
qed

end
