(* ===== verification/FrontierClient.thy ===== *)
theory FrontierClient
  imports FrontierView FrontierProperties
begin

text \<open>
  The client's board is a mirror of the server's: the simulation between the events an executor
  returns, applied by the client's reducer, and the effect of the executor on the view built from
  the state.
\<close>

section \<open>Names of settlements\<close>

text \<open>
  A settlement is stored under \<open>flag-<owner>-<tile>\<close>. Two names differ whenever their owners or
  tiles do, as long as no owner's identifier ends with a dash.
\<close>

definition plain_id :: "string \<Rightarrow> bool" where
  "plain_id i \<longleftrightarrow> i = [] \<or> last i \<noteq> CHR ''-''"

lemma show_int_dash: "CHR ''-'' \<notin> set (tl (show_int i))"
proof -
  have no: "CHR ''-'' \<notin> set (show_nat n)" for n by (auto dest!: show_nat_digits simp: is_digit_def)
  then have "CHR ''-'' \<notin> set (tl (show_nat n))" for n by (meson list.set_sel(2) show_nat_nonempty)
  with no show ?thesis by (simp add: show_int_def)
qed

lemma tileId_tail:
  assumes "u @ CHR ''-'' # tileId c = tileId d"
  shows "u = []"
proof -
  have no: "CHR '','' \<notin> set (show_int i)" for i using show_int_chars by blast
  have "CHR '','' \<notin> set u"
  proof
    assume "CHR '','' \<in> set u"
    then obtain x y where u: "u = x @ CHR '','' # y" "CHR '','' \<notin> set x" by (meson split_list_first)
    with assms have "x @ CHR '','' # (y @ CHR ''-'' # tileId c) = show_int (ax_q d) @ CHR '','' # show_int (ax_r d)"
      by (simp add: tileId_def)
    from append_sep_inject [OF u(2) no this] have "y @ CHR ''-'' # tileId c = show_int (ax_r d)" by simp
    then have "CHR '','' \<in> set (show_int (ax_r d))" by (metis in_set_conv_decomp tileId_def append.assoc append_Cons)
    with no show False by blast
  qed
  then have sep: "CHR '','' \<notin> set (u @ CHR ''-'' # show_int (ax_q c))" using no by auto
  have "(u @ CHR ''-'' # show_int (ax_q c)) @ CHR '','' # show_int (ax_r c) = show_int (ax_q d) @ CHR '','' # show_int (ax_r d)"
    using assms by (simp add: tileId_def)
  from append_sep_inject [OF sep no this] have "u @ CHR ''-'' # show_int (ax_q c) = show_int (ax_q d)" by simp
  then have "tl (show_int (ax_q d)) = tl u @ CHR ''-'' # show_int (ax_q c)" if "u \<noteq> []" using that by (metis tl_append2)
  then show ?thesis using show_int_dash [of "ax_q d"] by (metis in_set_conv_decomp)
qed

lemma flag_half:
  assumes "a = b @ u" "a @ CHR ''-'' # tileId c = b @ CHR ''-'' # tileId d" "plain_id a"
  shows "a = b \<and> c = d"
proof (cases u)
  case Nil
  with assms show ?thesis by simp
next
  case (Cons x v)
  with assms(1,2) have x: "x = CHR ''-''" "v @ CHR ''-'' # tileId c = tileId d" by auto
  from tileId_tail [OF x(2)] have "v = []" .
  with assms(1,3) Cons x(1) show ?thesis by (simp add: plain_id_def)
qed

lemma flag_id_inject:
  assumes "''flag-'' @ a @ ''-'' @ tileId c = ''flag-'' @ b @ ''-'' @ tileId d" "plain_id a" "plain_id b"
  shows "a = b \<and> c = d"
proof -
  have eq: "a @ CHR ''-'' # tileId c = b @ CHR ''-'' # tileId d" using assms(1) by simp
  then obtain u where "a = b @ u \<or> b = a @ u" by (auto simp: append_eq_append_conv2)
  then show ?thesis using flag_half [OF _ eq assms(2)] flag_half [OF _ eq [symmetric] assms(3)] by blast
qed

section \<open>The mirrored board\<close>

text \<open>
  The board as a client holds it: the view of the state, except that the round stays what it was
  in the snapshot, since no branch of the reducer touches it.
\<close>

definition boardOf :: "int \<Rightarrow> player list \<Rightarrow> fstate \<Rightarrow> demo_view" where
  "boardOf r ps s = (frontierView s ps None)\<lparr>dv_round := r\<rparr>"

definition rawEvent :: "fevent game_event \<Rightarrow> (fevent, demo_view) bus_event" where
  "rawEvent e = busEvent 0 [] e"

definition syncs :: "fstate \<Rightarrow> fevents \<Rightarrow> fstate \<Rightarrow> bool" where
  "syncs s es s' \<longleftrightarrow> (\<forall>r ps. foldl applyEvent (Some (boardOf r ps s)) (map rawEvent es) = Some (boardOf r ps s')) \<and>
     (\<forall>e \<in> set es. ev_privateTo e = None \<and> ev_type e \<noteq> ''game-ended'')"

text \<open>The reducer looks at the type, the payload and the player of an event.\<close>

lemma applyEvent_cong:
  assumes "be_type e = be_type e'" "be_payload e = be_payload e'" "be_playerId e = be_playerId e'"
  shows "applyEvent v e = applyEvent v e'"
  unfolding applyEvent_def reduceEvent_def assms ..

lemma syncs_Nil: "syncs s [] s"
  by (simp add: syncs_def)

lemma syncs_append: "syncs s es s' \<Longrightarrow> syncs s' es' s'' \<Longrightarrow> syncs s (es @ es') s''"
  by (auto simp: syncs_def)

lemma syncs_Cons: "syncs s [e] s' \<Longrightarrow> syncs s' es s'' \<Longrightarrow> syncs s (e # es) s''"
  using syncs_append [of s "[e]" s' es s''] by simp

lemma syncs_single:
  assumes "\<And>r ps. applyEvent (Some (boardOf r ps s)) (rawEvent (mkEvent ty who p)) = Some (boardOf r ps s')" "ty \<noteq> ''game-ended''"
  shows "syncs s [mkEvent ty who p] s'"
  using assms by (simp add: syncs_def mkEvent_def)

lemma stockOr0 [simp]: "stockOr0 s p r = stock_of s p r"
  by (simp add: stockOr0_def stock_of_def)

lemma rawEvent_mkEvent [simp]:
  "be_type (rawEvent (mkEvent ty who p)) = ty" "be_payload (rawEvent (mkEvent ty who p)) = EventPayload (ScenarioPayload p)"
  "be_playerId (rawEvent (mkEvent ty who p)) = truthy who"
  by (simp_all add: rawEvent_def busEvent_def mkEvent_def)

lemma truthy_Some [simp]: "p \<noteq> [] \<Longrightarrow> truthy (Some p) = Some p"
  by (simp add: truthy_def)

text \<open>What the board shows of a state, field by field.\<close>

lemmas board_simps = boardOf_def frontierView_def applyEvent_def reduceEvent_def mapPlayer_def playerView_def

text \<open>Bookings change nothing but the stocks.\<close>

lemma claimMap_pieces: "gs_pieces s = gs_pieces s' \<Longrightarrow> claimMap s = claimMap s'"
  by (simp add: claimMap_def)

lemma claimMap_book [simp]: "claimMap (book p r n s) = claimMap s" "claimMap (bookIf p r n s) = claimMap s"
  by (simp_all add: claimMap_def bookIf_def)

lemma bookIf_frame [simp]:
  "gs_map (bookIf p r n s) = gs_map s" "gs_rounds (bookIf p r n s) = gs_rounds s" "getForts (bookIf p r n s) = getForts s"
  "gs_pieces (bookIf p r n s) = gs_pieces s" "gs_players (bookIf p r n s) = gs_players s"
  by (simp_all add: bookIf_def)

section \<open>Executors and their events\<close>

lemma stock_extras [simp]: "stock_of (s\<lparr>gs_extras := x\<rparr>) = stock_of s"
  by (simp add: stock_of_def fun_eq_iff)

lemma claimMap_extras [simp]: "claimMap (s\<lparr>gs_extras := x\<rparr>) = claimMap s"
  by (simp add: claimMap_def)

text \<open>Trading with the bank.\<close>

lemma trade_runs:
  assumes ok': "frontier_ok s" and acc: "tradeValidator s a = accept"
  defines "me \<equiv> actor a"
  shows "(tradeExecutor a s = (Inr [mkEvent ''trade'' (Some me) (TradedForVp ''wood'' 1)], book me ''vp'' 1 (book me ''wood'' (-2) s)) \<and>
      2 \<le> stock_of s me ''wood'' \<or>
    tradeExecutor a s = (Inr [mkEvent ''trade'' (Some me) (TradedForLeap ''stone'')], raise_flag ''stoneLeap'' True (book me ''stone'' (-2) s)) \<and>
      2 \<le> stock_of s me ''stone'') \<and> me \<noteq> []"
proof -
  let ?r = "fp_resource (ac_payload a)"
  have g: "frontierGuard s (ac_playerId a) = None" using acc by (simp add: tradeValidator_def split: option.splits)
  note has = frontierGuard_None [OF ok' g]
  obtain bag where bag: "jget (gs_inventories s) me = Some bag" using has(3) by (auto simp: has_inv_def me_def)
  from acc g bag have r: "?r = ''wood'' \<or> ?r = ''stone''" "2 \<le> stock_of s me ?r"
    by (auto simp: tradeValidator_def Let_def with_inv_def stock_of_def me_def split: if_splits)
  from r has show ?thesis by (auto simp: tradeExecutor_def Let_def stepping me_def)
qed

lemma trade_syncs:
  assumes "frontier_ok s" "tradeValidator s a = accept" "tradeExecutor a s = (Inr es, s')"
  shows "syncs s es s'"
proof -
  from trade_runs [OF assms(1,2)] assms(3) have me: "actor a \<noteq> []" by blast
  from trade_runs [OF assms(1,2)] assms(3) consider
    (wood) "es = [mkEvent ''trade'' (Some (actor a)) (TradedForVp ''wood'' 1)]" "s' = book (actor a) ''vp'' 1 (book (actor a) ''wood'' (-2) s)"
      "2 \<le> stock_of s (actor a) ''wood''"
  | (stone) "es = [mkEvent ''trade'' (Some (actor a)) (TradedForLeap ''stone'')]"
      "s' = raise_flag ''stoneLeap'' True (book (actor a) ''stone'' (-2) s)" "2 \<le> stock_of s (actor a) ''stone''"
    by auto
  then show ?thesis
  proof cases
    case wood
    then show ?thesis unfolding wood(1) using me by (intro syncs_single) (simp_all add: board_simps onTrade_def lose2_def)
  next
    case stone
    have f: "claimMap (raise_flag g b s1) = claimMap s1" "getForts (raise_flag g b s1) = getForts s1"
      "activePlayer (currentTurn (gs_rounds (raise_flag g b s1))) = activePlayer (currentTurn (gs_rounds s1))" for g b s1
      by (simp_all add: raise_flag_def claimMap_def getForts_def setFlag_def)
    show ?thesis unfolding stone(1) using me stone(2,3) by (intro syncs_single) (simp_all add: board_simps onTrade_def f)
  qed
qed

text \<open>Fortifying.\<close>

lemma fortify_runs:
  assumes ok': "frontier_ok s" and acc: "fortifyValidator s a = accept"
  defines "me \<equiv> actor a" and "t \<equiv> fp_tileId (ac_payload a)"
  shows "fortifyExecutor a s = (Inr [mkEvent ''fortify'' (Some me) (Fortified t 2 1)],
     set_fextras (fx_fortifications_update (\<lambda>_. Some (jput t me (getForts s)))) (book me ''stone'' (-1) (book me ''wood'' (-2) s)))"
    "2 \<le> stock_of s me ''wood''" "1 \<le> stock_of s me ''stone''" "me \<noteq> []"
proof -
  have g: "frontierGuard s (ac_playerId a) = None" using acc by (simp add: fortifyValidator_def split: option.splits)
  note has = frontierGuard_None [OF ok' g]
  obtain bag where bag: "jget (gs_inventories s) me = Some bag" using has(3) by (auto simp: has_inv_def me_def)
  from acc g bag show r: "2 \<le> stock_of s me ''wood''" "1 \<le> stock_of s me ''stone''"
    by (auto simp: fortifyValidator_def Let_def with_inv_def stock_of_def me_def split: if_splits)
  show "me \<noteq> []" using has(2) by (simp add: me_def)
  show "fortifyExecutor a s = (Inr [mkEvent ''fortify'' (Some me) (Fortified t 2 1)],
     set_fextras (fx_fortifications_update (\<lambda>_. Some (jput t me (getForts s)))) (book me ''stone'' (-1) (book me ''wood'' (-2) s)))"
    using r has by (simp add: fortifyExecutor_def Let_def stepping me_def t_def)
qed

lemma fortify_syncs:
  assumes "frontier_ok s" "fortifyValidator s a = accept" "fortifyExecutor a s = (Inr es, s')"
  shows "syncs s es s'"
proof -
  note r = fortify_runs [OF assms(1,2)]
  from r(1) assms(3) have es: "es = [mkEvent ''fortify'' (Some (actor a)) (Fortified (fp_tileId (ac_payload a)) 2 1)]"
    "s' = set_fextras (fx_fortifications_update (\<lambda>_. Some (jput (fp_tileId (ac_payload a)) (actor a) (getForts s))))
       (book (actor a) ''stone'' (-1) (book (actor a) ''wood'' (-2) s))" by simp_all
  have f: "getForts (s1\<lparr>gs_extras := x\<rparr>) = (case fx_fortifications x of Some m \<Rightarrow> m | None \<Rightarrow> [])"
    "getOffers (s1\<lparr>gs_extras := x\<rparr>) = (case fx_tradeOffers x of Some m \<Rightarrow> m | None \<Rightarrow> [])" for s1 :: fstate and x
    by (simp_all add: getForts_def getOffers_def)
  show ?thesis unfolding es(1) using r(2-4)
    by (intro syncs_single) (simp_all add: es(2) board_simps onFortify_def spend_def f, simp add: getOffers_def)
qed

text \<open>Offers.\<close>

lemma post_syncs:
  assumes ok': "frontier_ok s" and acc: "postOfferValidator s a = accept" and run: "postOfferExecutor a s = (Inr es, s')"
  shows "syncs s es s'"
proof -
  note p = post_accepted [OF ok' acc]
  note me = frontierGuard_None(2) [OF ok' p(1)]
  from post_runs(1) [OF ok' acc] run have es: "es = [mkEvent ''post-offer'' (Some (actor a)) (OfferPosted (newOffer s a))]" "s' = posted a s" by simp_all
  have o': "to_giveWood (newOffer s a) = fp_giveWood (ac_payload a)" "to_giveStone (newOffer s a) = fp_giveStone (ac_payload a)"
    by (simp_all add: newOffer_def Let_def)
  have f: "getOffers (s1\<lparr>gs_extras := x\<rparr>) = (case fx_tradeOffers x of Some m \<Rightarrow> m | None \<Rightarrow> [])"
    "getForts (s1\<lparr>gs_extras := x\<rparr>) = (case fx_fortifications x of Some m \<Rightarrow> m | None \<Rightarrow> [])" for s1 :: fstate and x
    by (simp_all add: getForts_def getOffers_def)
  show ?thesis unfolding es(1) using p(4,5) me
    by (intro syncs_single) (simp_all add: es(2) board_simps onPostOffer_def spend_def posted_def Let_def f o', simp add: getForts_def)
qed

lemma dropOffer_sel [simp]:
  "gs_map (dropOffer o' os s) = gs_map s" "gs_rounds (dropOffer o' os s) = gs_rounds s" "claimMap (dropOffer o' os s) = claimMap s"
  "getForts (dropOffer o' os s) = getForts s" "getOffers (dropOffer o' os s) = filter (\<lambda>q. to_id q \<noteq> to_id o') os"
  "stock_of (dropOffer o' os s) = stock_of s" "gs_status (dropOffer o' os s) = gs_status s"
  "fx_homeTiles (gs_extras (dropOffer o' os s)) = fx_homeTiles (gs_extras s)"
  "gs_pieces (dropOffer o' os s) = gs_pieces s" "gs_players (dropOffer o' os s) = gs_players s"
  by (simp_all add: dropOffer_def claimMap_def getForts_def getOffers_def)

lemma accept_syncs:
  assumes ok': "frontier_ok s" and acc: "acceptOfferValidator s a = accept" and run: "acceptOfferExecutor a s = (Inr es, s')"
  shows "syncs s es s'"
proof -
  obtain off where off: "findOffer s (fp_offerId (ac_payload a)) = Some off" "to_fromPlayerId off \<noteq> actor a"
    "acceptOfferExecutor a s = (Inr [mkEvent ''accept-offer'' (Some (actor a)) (OfferAccepted (to_id off) off (actor a))], accepted (actor a) off s)"
    by (rule accept_runs [OF ok' acc])
  then have es: "es = [mkEvent ''accept-offer'' (Some (actor a)) (OfferAccepted (to_id off) off (actor a))]" "s' = accepted (actor a) off s"
    using run by simp_all
  show ?thesis unfolding es(1) using off(2)
    by (intro syncs_single) (simp_all add: es(2) board_simps onAcceptOffer_def withoutOffer_def gain_def accepted_def)
qed

lemma cancel_syncs:
  assumes ok': "frontier_ok s" and acc: "cancelOfferValidator s a = accept" and run: "cancelOfferExecutor a s = (Inr es, s')"
  shows "syncs s es s'"
proof -
  have g: "frontierGuard s (ac_playerId a) = None" using acc by (simp add: cancelOfferValidator_def split: option.splits)
  note me = frontierGuard_None(2) [OF ok' g]
  obtain off where
    "cancelOfferExecutor a s = (Inr [mkEvent ''cancel-offer'' (Some (actor a)) (OfferCancelled (to_id off) off)], cancelled (actor a) off s)"
    by (rule cancel_runs [OF ok' acc])
  then have es: "es = [mkEvent ''cancel-offer'' (Some (actor a)) (OfferCancelled (to_id off) off)]" "s' = cancelled (actor a) off s"
    using run by simp_all
  show ?thesis unfolding es(1) using me
    by (intro syncs_single) (simp_all add: es(2) board_simps onCancelOffer_def withoutOffer_def gain_def cancelled_def)
qed

text \<open>The incomes at the end of a round.\<close>

definition named_invs :: "fstate \<Rightarrow> bool" where
  "named_invs s \<longleftrightarrow> \<not> has_inv [] s"

lemma fort_syncs:
  "frontier_ok s \<Longrightarrow> named_invs s \<Longrightarrow> fortIncome forts s = (Inr es, s') \<Longrightarrow> syncs s es s'"
proof (induction forts s arbitrary: es rule: fortIncome.induct)
  case (1 s)
  then show ?case by (simp add: syncs_Nil)
next
  case (2 t owner forts s)
  show ?case
  proof (cases "jget (gs_inventories s) owner")
    case None
    with 2(1) [OF None 2(3,4)] 2(5) show ?thesis by simp
  next
    case (Some bag)
    then have has: "has_inv owner s" by (simp add: has_inv_def)
    with 2(4) have ne: "owner \<noteq> []" by (auto simp: named_invs_def)
    have add: "on_inv owner (inv_add ''vp'' 1) s = (Inr (), book owner ''vp'' 1 s)" using has by (simp add: on_inv_add)
    have b: "books_only s (book owner ''vp'' 1 s)" by (rule books_only_book [OF 2(3) has]) simp
    then have ok1: "frontier_ok (book owner ''vp'' 1 s)" "named_invs (book owner ''vp'' 1 s)"
      using 2(4) by (auto simp: books_only_def named_invs_def)
    obtain es1 where es1: "fortIncome forts (book owner ''vp'' 1 s) = (Inr es1, s')" "es = mkEvent ''fort-income'' (Some owner) (FortIncome t 1) # es1"
      using 2(5) Some add by (auto split: sum.splits prod.splits)
    have "syncs s [mkEvent ''fort-income'' (Some owner) (FortIncome t 1)] (book owner ''vp'' 1 s)"
      using ne by (intro syncs_single) (simp_all add: board_simps)
    then show ?thesis unfolding es1(2) by (rule syncs_Cons) (rule 2(2) [OF Some add [symmetric] refl ok1 es1(1)])
  qed
qed

definition incomes_nonneg :: "(string \<times> int \<times> int) list \<Rightarrow> bool" where
  "incomes_nonneg table \<longleftrightarrow> (\<forall>p w st. (p, w, st) \<in> set table \<longrightarrow> 0 \<le> w \<and> 0 \<le> st)"

lemma income_entry_nonneg:
  assumes "incomes_nonneg table"
  shows "incomes_nonneg (income_entry m (i, p) table)"
proof -
  obtain w st where cur: "(case jget table (pc_owner p) of Some e \<Rightarrow> e | None \<Rightarrow> (0, 0)) = (w, st)" by fastforce
  then have w: "0 \<le> w" "0 \<le> st" using assms by (auto simp: incomes_nonneg_def split: option.splits dest!: map_of_SomeD)
  have "incomes_nonneg (jput (pc_owner p) (if r = ''wood'' then w + 1 else w, if r = ''stone'' then st + 1 else st) table)" for r
    unfolding incomes_nonneg_def
  proof (intro allI impI)
    fix q w' st'
    assume "(q, w', st') \<in> set (jput (pc_owner p) (if r = ''wood'' then w + 1 else w, if r = ''stone'' then st + 1 else st) table)"
    from set_jput [OF this] w assms show "0 \<le> w' \<and> 0 \<le> st'" by (auto simp: incomes_nonneg_def)
  qed
  with assms show ?thesis unfolding income_entry_def prod.case cur Let_def by (simp split: option.split)
qed

lemma tileIncomeTable_nonneg: "incomes_nonneg (tileIncomeTable s)"
proof -
  have keep: "incomes_nonneg table \<Longrightarrow> incomes_nonneg (fold (income_entry m) ips table)" for m ips table
  proof (induction ips arbitrary: table)
    case (Cons ip ips)
    from Cons.IH [OF income_entry_nonneg [OF Cons.prems, of m "fst ip" "snd ip"]] show ?case by simp
  qed simp
  show ?thesis unfolding tileIncomeTable_def by (rule keep) (simp add: incomes_nonneg_def)
qed

lemma income_syncs:
  "frontier_ok s \<Longrightarrow> named_invs s \<Longrightarrow> incomes_nonneg table \<Longrightarrow> payTileIncome table s = (Inr es, s') \<Longrightarrow> syncs s es s'"
proof (induction table s arbitrary: es rule: payTileIncome.induct)
  case (1 s)
  then show ?case by (simp add: syncs_Nil)
next
  case (2 owner wood stone table s)
  have nn: "0 \<le> wood" "0 \<le> stone" "incomes_nonneg table" using 2(5) by (auto simp: incomes_nonneg_def)
  show ?case
  proof (cases "jget (gs_inventories s) owner")
    case None
    with 2(1) [OF None 2(3,4) nn(3)] 2(6) show ?thesis by simp
  next
    case (Some bag)
    then have has: "has_inv owner s" by (simp add: has_inv_def)
    with 2(4) have ne: "owner \<noteq> []" by (auto simp: named_invs_def)
    let ?s2 = "bookIf owner ''stone'' stone (bookIf owner ''wood'' wood s)"
    have run: "sequence [guarded (wood > 0) (on_inv owner (inv_add ''wood'' wood)), guarded (stone > 0) (on_inv owner (inv_add ''stone'' stone))] s
        = (Inr (), ?s2)" using has nn by (simp add: guarded_add has_inv_bookIf)
    have pos: "0 \<le> stock_of s owner r" for r by (rule stock_nonneg [OF frontier_okD(2) [OF 2(3)]])
    have ok1: "frontier_ok (bookIf owner ''wood'' wood s)" using pos nn by (intro frontier_ok_bookIf [OF 2(3) has]) simp
    have ok2: "frontier_ok ?s2" using pos nn has by (intro frontier_ok_bookIf [OF ok1]) (simp_all add: has_inv_bookIf)
    have n2: "named_invs ?s2" using 2(4) has by (simp add: named_invs_def has_inv_bookIf)
    obtain es1 where es1: "payTileIncome table ?s2 = (Inr es1, s')" "es = mkEvent ''tile-income'' (Some owner) (TileIncome wood stone) # es1"
      using 2(6) Some run by (auto split: sum.splits prod.splits)
    have "syncs s [mkEvent ''tile-income'' (Some owner) (TileIncome wood stone)] ?s2"
      using ne by (intro syncs_single) (simp_all add: board_simps gain_def)
    then show ?thesis unfolding es1(2) by (rule syncs_Cons) (rule 2(2) [OF Some run [symmetric] refl ok2 n2 nn(3) es1(1)])
  qed
qed

lemma endTurn_syncs:
  assumes ok': "frontier_ok s" and named: "named_invs s" and run: "frontierEndTurnExecutor a s = (Inr es, s')"
  shows "syncs s es s'"
proof -
  note parts = frontier_okD [OF ok']
  obtain te rm where te: "rm_endTurn turn_next (pm_all (gs_players s)) ''turn'' (gs_rounds s) = (Inr te, rm)"
    "newActivePlayer te \<in> active_ids (pm_all (gs_players s))" "activePlayer (currentTurn rm) = newActivePlayer te"
    using scenario_order.endTurn_active [of "pm_all (gs_players s)" "''turn''" "gs_rounds s"] parts(4) by (auto simp: pm_all_def)
  define s1 where "s1 = s\<lparr>gs_rounds := rm\<rparr>"
  have s1: "frontier_ok s1" "named_invs s1"
    using parts te(2,3) named
    by (auto simp: frontier_ok_def s1_def invs_ok_def players_ok_def getOffers_def nextOffer_def pm_all_def active_ids_def named_invs_def has_inv_def)
  have turn: "syncs s [mkEvent ''turn-ended'' (ac_playerId a) (FTurnEnded (newActivePlayer te))] s1"
    by (intro syncs_single)
      (simp_all add: s1_def board_simps onTurnEnded_def te(3) stock_of_def claimMap_def getForts_def getOffers_def)
  show ?thesis
  proof (cases "newRound te")
    case False
    with run te(1) turn show ?thesis by (auto simp: frontierEndTurnExecutor_def s1_def)
  next
    case True
    obtain es1 s2 where f: "fortIncome (getForts s1) s1 = (Inr es1, s2)" "books_only s1 s2" using fortIncome_books [OF s1(1)] by blast
    then have s2: "frontier_ok s2" "named_invs s2" using s1(2) by (auto simp: books_only_def named_invs_def)
    obtain es2 s3 where p: "payTileIncome (tileIncomeTable s2) s2 = (Inr es2, s3)" using payTileIncome_books [OF s2(1)] by blast
    have es: "es = mkEvent ''turn-ended'' (ac_playerId a) (FTurnEnded (newActivePlayer te)) #
        mkEvent ''round-ended'' None (FRoundEnded (currentRound (gs_rounds s))) # es1 @ es2" "s' = s3"
      using run te(1) True f(1) p by (simp_all add: frontierEndTurnExecutor_def Let_def flip: s1_def)
    have "syncs s1 [mkEvent ''round-ended'' None (FRoundEnded (currentRound (gs_rounds s)))] s1"
      by (intro syncs_single) (simp_all add: applyEvent_def reduceEvent_def)
    moreover have "syncs s1 (es1 @ es2) s3"
      by (rule syncs_append [OF fort_syncs [OF s1 f(1)] income_syncs [OF s2 tileIncomeTable_nonneg p]])
    ultimately show ?thesis unfolding es by (intro syncs_Cons [OF turn]) (rule syncs_Cons)
  qed
qed

section \<open>Claims\<close>

text \<open>A settlement's key names its owner and its tile.\<close>

definition named_flags :: "(string, piece) jsmap \<Rightarrow> bool" where
  "named_flags pieces \<longleftrightarrow> (\<forall>i p. jget pieces i = Some p \<longrightarrow>
     (\<exists>t. piece_tile p = Some t \<and> i = ''flag-'' @ pc_owner p @ ''-'' @ t \<and> plain_id (pc_owner p)))"

definition mirror_ok :: "fstate \<Rightarrow> bool" where
  "mirror_ok s \<longleftrightarrow> frontier_ok s \<and> named_invs s \<and> wf_map (gs_map s) \<and> named_flags (gs_pieces s) \<and>
     (\<forall>p \<in> set (pm_bySeat (gs_players s)). plain_id (pl_id p))"

lemma claimMap_fold:
  "jget (fold (\<lambda>(_, p) m. case piece_tile p of Some t \<Rightarrow> jput t (pc_owner p) m | None \<Rightarrow> m) ps acc) t =
     (case find (\<lambda>p. piece_tile p = Some t) (rev (jvals ps)) of Some p \<Rightarrow> Some (pc_owner p) | None \<Rightarrow> jget acc t)"
proof (induction ps arbitrary: acc)
  case (Cons ip ps)
  have "find P (xs @ [x]) = (case find P xs of Some y \<Rightarrow> Some y | None \<Rightarrow> if P x then Some x else None)" for P and xs :: "piece list" and x
    by (induction xs) auto
  with Cons show ?case by (cases ip) (auto split: option.split)
qed simp

lemma claimMap_iff:
  assumes fl: "flags_ok m (gs_pieces s)"
  shows "jget (claimMap s) t = Some w \<longleftrightarrow> (\<exists>i p. jget (gs_pieces s) i = Some p \<and> piece_tile p = Some t \<and> pc_owner p = w)"
proof -
  have d: "distinct (jkeys (gs_pieces s))" using fl by (simp add: flags_ok_def)
  have mem: "p \<in> set (jvals (gs_pieces s)) \<longleftrightarrow> (\<exists>i. jget (gs_pieces s) i = Some p)" for p
    unfolding map_of_eq_Some_iff [OF d] by (auto intro: rev_image_eqI)
  have get: "jget (claimMap s) t = map_option pc_owner (find (\<lambda>p. piece_tile p = Some t) (rev (jvals (gs_pieces s))))"
    unfolding claimMap_def claimMap_fold by (simp split: option.split)
  have uniq: "p = q" if "jget (gs_pieces s) i = Some p" "jget (gs_pieces s) j = Some q" "piece_tile p = Some t" "piece_tile q = Some t" for i j p q
  proof -
    have "piece_tile p = piece_tile q" using that(3,4) by simp
    with fl that(1,2) have "i = j" unfolding flags_ok_def by blast
    with that show ?thesis by simp
  qed
  show ?thesis
  proof
    assume "jget (claimMap s) t = Some w"
    then obtain p where p: "find (\<lambda>p. piece_tile p = Some t) (rev (jvals (gs_pieces s))) = Some p" "pc_owner p = w"
      unfolding get by blast
    from find_SomeD [OF p(1)] have "p \<in> set (jvals (gs_pieces s))" "piece_tile p = Some t" by simp_all
    with mem p(2) show "\<exists>i p. jget (gs_pieces s) i = Some p \<and> piece_tile p = Some t \<and> pc_owner p = w" by blast
  next
    assume "\<exists>i p. jget (gs_pieces s) i = Some p \<and> piece_tile p = Some t \<and> pc_owner p = w"
    then obtain i p where p: "jget (gs_pieces s) i = Some p" "piece_tile p = Some t" "pc_owner p = w" by blast
    have "find (\<lambda>p. piece_tile p = Some t) (rev (jvals (gs_pieces s))) = Some p"
    proof (rule find_unique)
      show "p \<in> set (rev (jvals (gs_pieces s)))" unfolding set_rev mem using p(1) by blast
      show "\<And>y. y \<in> set (rev (jvals (gs_pieces s))) \<Longrightarrow> piece_tile y = Some t \<Longrightarrow> y = p"
        unfolding set_rev mem using uniq [OF _ p(1) _ p(2)] by blast
    qed (rule p(2))
    with p(3) get show "jget (claimMap s) t = Some w" by simp
  qed
qed

lemma flag_fresh:
  assumes ok': "mirror_ok s" and t: "tileById (gs_map s) t \<noteq> None" and free: "\<not> isTileOccupied s t" and who: "plain_id me"
  shows "jget (gs_pieces s) (''flag-'' @ me @ ''-'' @ t) = None"
proof (rule ccontr)
  assume "jget (gs_pieces s) (''flag-'' @ me @ ''-'' @ t) \<noteq> None"
  then obtain q where q: "jget (gs_pieces s) (''flag-'' @ me @ ''-'' @ t) = Some q" by blast
  have fl: "flags_ok (gs_map s) (gs_pieces s)" and wf: "wf_map (gs_map s)"
    using ok' frontier_okD(5) by (auto simp: mirror_ok_def)
  have "named_flags (gs_pieces s)" using ok' by (simp add: mirror_ok_def)
  then obtain u where u: "piece_tile q = Some u" "''flag-'' @ me @ ''-'' @ t = ''flag-'' @ pc_owner q @ ''-'' @ u" "plain_id (pc_owner q)"
    using q unfolding named_flags_def by blast
  have "tileById (gs_map s) u \<noteq> None" using fl q u(1) unfolding flags_ok_def by (metis option.inject)
  then obtain c d where cd: "t = tileId c" "u = tileId d" using t tileById_wf [OF wf] by (metis option.exhaust)
  from flag_id_inject [OF u(2) [unfolded cd] who u(3)] have "t = u" by (simp add: cd)
  moreover have "distinct (jkeys (gs_pieces s))" using fl by (simp add: flags_ok_def)
  ultimately show False using free q u(1) isTileOccupied_iff by blast
qed

lemma claimMap_place:
  assumes fl: "flags_ok m (gs_pieces s)" and fl': "flags_ok m' (gs_pieces s')" and pcs: "gs_pieces s' = jput k q (gs_pieces s)"
    and fresh: "jget (gs_pieces s) k = None" and q: "piece_tile q = Some t"
  shows "jget (claimMap s') u = (if u = t then Some (pc_owner q) else jget (claimMap s) u)"
proof (cases "u = t")
  case True
  have "jget (gs_pieces s') k = Some q" by (simp add: pcs)
  with claimMap_iff [OF fl'] q True show ?thesis by simp blast
next
  case False
  have "jget (claimMap s') u = Some w \<longleftrightarrow> jget (claimMap s) u = Some w" for w
  proof -
    have "jget (jput k q (gs_pieces s)) i = Some p \<and> piece_tile p = Some u \<longleftrightarrow> jget (gs_pieces s) i = Some p \<and> piece_tile p = Some u" for i p
      using False q fresh by auto
    then show ?thesis unfolding claimMap_iff [OF fl] claimMap_iff [OF fl'] pcs by blast
  qed
  then have "jget (claimMap s') u = jget (claimMap s) u" by (metis option.exhaust)
  with False show ?thesis by simp
qed

lemma claim_syncs:
  assumes ok': "mirror_ok s" and acc: "claimTileValidator s a = accept" and run: "claimTileExecutor a s = (Inr es, s')"
  shows "syncs s es s' \<and> gs_pieces s' = jput (''flag-'' @ actor a @ ''-'' @ fp_tileId (ac_payload a))
     (makeUnit (''flag-'' @ actor a @ ''-'' @ fp_tileId (ac_payload a)) ''flag'' (actor a) (fp_tileId (ac_payload a)) None None) (gs_pieces s)
     \<and> plain_id (actor a) \<and> gs_map s' = gs_map s \<and> gs_players s' = gs_players s \<and> named_invs s'"
proof (rule claim_runs [OF _ acc])
  show fok: "frontier_ok s" using ok' by (simp add: mirror_ok_def)
  let ?t = "fp_tileId (ac_payload a)" and ?me = "actor a"
  let ?k = "''flag-'' @ ?me @ ''-'' @ ?t"
  let ?piece = "makeUnit ?k ''flag'' ?me ?t None None"
  fix hex die1 die2 g
  let ?s1 = "(case claimYield hex of Some r \<Rightarrow> book ?me r 1 | None \<Rightarrow> id) (book ?me ''vp'' (claimVp hex (die1 + die2)) (s\<lparr>gs_rng := g\<rparr>))"
  assume hex: "tileById (gs_map s) ?t = Some hex"
    and fst': "fst (claimTileExecutor a s) = Inr [mkEvent ''tile-claimed'' (Some ?me) (TileClaimed
       \<lparr>cl_tileId = ?t, cl_terrain = tile_terrain hex, cl_vp = claimVp hex (die1 + die2), cl_claimedBy = ?me,
        cl_diceRoll = die1 + die2, cl_die1 = die1, cl_die2 = die2, cl_bonusVp = bonusFor (die1 + die2), cl_resource = claimYield hex\<rparr>)]"
    and snd': "snd (claimTileExecutor a s) = raise_flag ''stoneLeap'' False (raise_flag ''claimedThisTurn'' True (place_piece ?piece ?s1))"
  have es: "es = [mkEvent ''tile-claimed'' (Some ?me) (TileClaimed
       \<lparr>cl_tileId = ?t, cl_terrain = tile_terrain hex, cl_vp = claimVp hex (die1 + die2), cl_claimedBy = ?me,
        cl_diceRoll = die1 + die2, cl_die1 = die1, cl_die2 = die2, cl_bonusVp = bonusFor (die1 + die2), cl_resource = claimYield hex\<rparr>)]"
    and s': "s' = raise_flag ''stoneLeap'' False (raise_flag ''claimedThisTurn'' True (place_piece ?piece ?s1))"
    using run fst' snd' by simp_all
  obtain g' where free: "\<not> isTileOccupied s ?t" and g': "frontierGuard s (ac_playerId a) = None" by (rule claim_accepted [OF fok acc])
  note me = frontierGuard_None [OF fok g']
  have fl: "flags_ok (gs_map s) (gs_pieces s)" by (rule frontier_okD(5) [OF fok])
  have plain: "plain_id ?me"
    using frontier_okD(3) [OF fok] ok' me(1) by (auto simp: players_ok_def mirror_ok_def)
  have yield: "claimYield hex \<in> {None, Some ''wood'', Some ''stone''}" by (auto simp: claimYield_def FRONTIER_TERRAIN_RESOURCE_def)
  have frame: "gs_pieces s' = jput ?k ?piece (gs_pieces s)" "gs_map s' = gs_map s" "gs_players s' = gs_players s"
    "activePlayer (currentTurn (gs_rounds s')) = activePlayer (currentTurn (gs_rounds s))" "gs_extras s' = gs_extras s" "gs_status s' = gs_status s"
    using yield by (auto simp: s' raise_flag_def place_piece_def setFlag_def)
  have ext: "getForts s' = getForts s" "getOffers s' = getOffers s" using frame(5) by (simp_all add: getForts_def getOffers_def)
  have stock_place: "stock_of (place_piece q s2) = stock_of s2" "stock_of (s2\<lparr>gs_rng := g\<rparr>) = stock_of s2" for q s2
    by (simp_all add: place_piece_def stock_of_def fun_eq_iff)
  have stock: "stock_of s' p r = stock_of s p r + (if p = ?me \<and> r = ''vp'' then claimVp hex (die1 + die2) else 0) +
      (if p = ?me \<and> claimYield hex = Some r then 1 else 0)" for p r
    by (auto simp: s' stock_place split: option.split)
  have "frontier_ok s'" using claim_executes [OF fok acc] run by (simp add: fexecutes_def)
  then have fl': "flags_ok (gs_map s') (gs_pieces s')" by (rule frontier_okD(5))
  have claims: "jget (claimMap s') u = (if u = ?t then Some ?me else jget (claimMap s) u)" for u
    using claimMap_place [OF fl fl' frame(1), of ?t u] flag_fresh [OF ok' _ free plain] hex by (simp add: piece_tile_def)
  have inv: "has_inv p s' \<longleftrightarrow> p = ?me \<or> has_inv p s" for p
  proof -
    have "has_inv p (raise_flag f v s2) = has_inv p s2" "has_inv p (place_piece q s2) = has_inv p s2" for f v q s2
      by (simp_all add: has_inv_def raise_flag_def place_piece_def)
    then show ?thesis by (auto simp: s' split: option.split)
  qed
  have "syncs s es s'" unfolding es
    using yield me(2)
    by (intro syncs_single) (auto simp: board_simps onTileClaimed_def frame ext stock tileView_def claims)
  moreover have "named_invs s'" using ok' inv me(2) by (simp add: named_invs_def mirror_ok_def)
  ultimately show ?thesis using frame plain by simp
qed

section \<open>One submission\<close>

lemma named_bookIf [simp]: "p \<noteq> [] \<Longrightarrow> named_invs (bookIf p r n s) = named_invs s" "p \<noteq> [] \<Longrightarrow> named_invs (book p r n s) = named_invs s"
  by (auto simp: named_invs_def bookIf_def)

lemma named_extras [simp]:
  "named_invs (s\<lparr>gs_extras := x\<rparr>) = named_invs s" "named_invs (raise_flag f v s) = named_invs s" "named_invs (s\<lparr>gs_rounds := rm\<rparr>) = named_invs s"
  by (simp_all add: named_invs_def has_inv_def raise_flag_def)

text \<open>What every executor but the claim leaves alone.\<close>

definition same_board :: "fstate \<Rightarrow> fstate \<Rightarrow> bool" where
  "same_board s s' \<longleftrightarrow> gs_pieces s' = gs_pieces s \<and> gs_map s' = gs_map s \<and> gs_players s' = gs_players s \<and> named_invs s'"

lemma trade_board:
  assumes "frontier_ok s" "named_invs s" "tradeValidator s a = accept" "tradeExecutor a s = (Inr es, s')"
  shows "same_board s s'"
proof -
  from trade_runs [OF assms(1,3)] assms(4) have "actor a \<noteq> []"
    "s' = book (actor a) ''vp'' 1 (book (actor a) ''wood'' (-2) s) \<or> s' = raise_flag ''stoneLeap'' True (book (actor a) ''stone'' (-2) s)" by auto
  with assms(2) show ?thesis by (auto simp: same_board_def) (simp_all add: raise_flag_def)
qed

lemma fortify_board:
  assumes "frontier_ok s" "named_invs s" "fortifyValidator s a = accept" "fortifyExecutor a s = (Inr es, s')"
  shows "same_board s s'"
  using fortify_runs(1,4) [OF assms(1,3)] assms(2,4) by (auto simp: same_board_def)

lemma post_board:
  assumes "frontier_ok s" "named_invs s" "postOfferValidator s a = accept" "postOfferExecutor a s = (Inr es, s')"
  shows "same_board s s'"
proof -
  have "actor a \<noteq> []" by (rule frontierGuard_None(2) [OF assms(1) post_accepted(1) [OF assms(1,3)]])
  with post_runs(1) [OF assms(1,3)] assms(2,4) show ?thesis by (auto simp: same_board_def posted_def Let_def)
qed

lemma named_dropOffer [simp]: "named_invs (dropOffer o' os s) = named_invs s"
  by (simp add: dropOffer_def)

lemma accept_board:
  assumes "frontier_ok s" "named_invs s" "acceptOfferValidator s a = accept" "acceptOfferExecutor a s = (Inr es, s')"
  shows "same_board s s'"
proof -
  obtain off where off: "findOffer s (fp_offerId (ac_payload a)) = Some off" "has_inv (actor a) s"
    "acceptOfferExecutor a s = (Inr [mkEvent ''accept-offer'' (Some (actor a)) (OfferAccepted (to_id off) off (actor a))], accepted (actor a) off s)"
    by (rule accept_runs [OF assms(1,3)])
  have "has_inv (to_fromPlayerId off) s" by (rule found_offer(3) [OF assms(1) off(1)])
  with off(2) assms(2) have "actor a \<noteq> []" "to_fromPlayerId off \<noteq> []" by (auto simp: named_invs_def)
  with off(3) assms(2,4) show ?thesis by (auto simp: same_board_def accepted_def)
qed

lemma cancel_board:
  assumes "frontier_ok s" "named_invs s" "cancelOfferValidator s a = accept" "cancelOfferExecutor a s = (Inr es, s')"
  shows "same_board s s'"
proof -
  obtain off where off: "has_inv (actor a) s"
    "cancelOfferExecutor a s = (Inr [mkEvent ''cancel-offer'' (Some (actor a)) (OfferCancelled (to_id off) off)], cancelled (actor a) off s)"
    by (rule cancel_runs [OF assms(1,3)])
  then have "actor a \<noteq> []" using assms(2) by (auto simp: named_invs_def)
  with off(2) assms(2,4) show ?thesis by (auto simp: same_board_def cancelled_def)
qed

lemma books_only_board: "books_only s s' \<Longrightarrow> named_invs s \<Longrightarrow> same_board s s'"
  by (auto simp: books_only_def same_board_def named_invs_def)

lemma endTurn_board:
  assumes ok': "frontier_ok s" and named: "named_invs s" and run: "frontierEndTurnExecutor a s = (Inr es, s')"
  shows "same_board s s'"
proof -
  note parts = frontier_okD [OF ok']
  obtain te rm where te: "rm_endTurn turn_next (pm_all (gs_players s)) ''turn'' (gs_rounds s) = (Inr te, rm)"
    "newActivePlayer te \<in> active_ids (pm_all (gs_players s))" "activePlayer (currentTurn rm) = newActivePlayer te"
    using scenario_order.endTurn_active [of "pm_all (gs_players s)" "''turn''" "gs_rounds s"] parts(4) by (auto simp: pm_all_def)
  define s1 where "s1 = s\<lparr>gs_rounds := rm\<rparr>"
  have s1: "frontier_ok s1"
    using parts te(2,3) by (auto simp: frontier_ok_def s1_def invs_ok_def players_ok_def getOffers_def nextOffer_def pm_all_def active_ids_def)
  obtain es1 s2 where f: "fortIncome (getForts s1) s1 = (Inr es1, s2)" "books_only s1 s2" using fortIncome_books [OF s1] by blast
  then have s2: "frontier_ok s2" by (simp add: books_only_def)
  obtain es2 s3 where p: "payTileIncome (tileIncomeTable s2) s2 = (Inr es2, s3)" "books_only s2 s3" using payTileIncome_books [OF s2] by blast
  have "s' = s1 \<or> s' = s3" using run te(1) f(1) p(1) by (auto simp: frontierEndTurnExecutor_def Let_def simp flip: s1_def split: if_splits)
  moreover have "same_board s1 s3" by (rule books_only_board [OF books_only_trans [OF f(2) p(2)]]) (simp add: s1_def named)
  moreover have "same_board s s1" by (simp add: same_board_def s1_def named)
  ultimately show ?thesis by (auto simp: same_board_def)
qed

lemma same_board_mirror:
  assumes "mirror_ok s" "frontier_ok s'" "same_board s s'"
  shows "mirror_ok s'"
  using assms by (simp add: mirror_ok_def same_board_def)

lemma mirror_claim:
  assumes ok': "mirror_ok s" and acc: "claimTileValidator s a = accept" and run: "claimTileExecutor a s = (Inr es, s')" and ok2: "frontier_ok s'"
  shows "mirror_ok s'"
proof -
  note c = claim_syncs [OF ok' acc run]
  have "named_flags (gs_pieces s)" using ok' by (simp add: mirror_ok_def)
  then have "named_flags (gs_pieces s')" using c by (simp add: named_flags_def) (simp add: piece_tile_def)
  with ok' ok2 c show ?thesis by (simp add: mirror_ok_def)
qed

lemma mirror_other:
  assumes "mirror_ok s" "frontier_ok s'" "same_board s s'" "syncs s es s'"
  shows "mirror_ok s' \<and> syncs s es s' \<and> gs_players s' = gs_players s"
  using same_board_mirror [OF assms(1-3)] assms(3,4) by (simp add: same_board_def)

text \<open>The simulation step: whatever action is accepted, its events take the old board to the new one.\<close>

lemma mirror_step:
  assumes ok': "mirror_ok s" and acc: "validate_action frontier_vs s a = accept" and run: "execute_action frontier_xs a s = (Inr es, s')"
  shows "mirror_ok s' \<and> syncs s es s' \<and> gs_players s' = gs_players s"
proof -
  have fok: "frontier_ok s" "named_invs s" using ok' by (simp_all add: mirror_ok_def)
  have fok': "frontier_ok s'" using frontier.execute_total [OF fok(1) acc] run by auto
  note flat = validate_action_def getValidator_def frontier_vs_def frontierValidators_def
  note flatx = execute_action_def getExecutor_def frontier_xs_def frontierExecutors_def
  consider "claimTileValidator s a = accept" "claimTileExecutor a s = (Inr es, s')"
    | "frontierEndTurnExecutor a s = (Inr es, s')"
    | "tradeValidator s a = accept" "tradeExecutor a s = (Inr es, s')"
    | "fortifyValidator s a = accept" "fortifyExecutor a s = (Inr es, s')"
    | "postOfferValidator s a = accept" "postOfferExecutor a s = (Inr es, s')"
    | "acceptOfferValidator s a = accept" "acceptOfferExecutor a s = (Inr es, s')"
    | "cancelOfferValidator s a = accept" "cancelOfferExecutor a s = (Inr es, s')"
    using acc run by (auto simp: flat flatx split: if_splits)
  then show ?thesis
  proof cases
    case 1
    then show ?thesis using claim_syncs [OF ok'] mirror_claim [OF ok' _ _ fok'] by blast
  next
    case 2
    show ?thesis by (rule mirror_other [OF ok' fok' endTurn_board [OF fok 2] endTurn_syncs [OF fok 2]])
  next
    case 3
    show ?thesis by (rule mirror_other [OF ok' fok' trade_board [OF fok 3] trade_syncs [OF fok(1) 3]])
  next
    case 4
    show ?thesis by (rule mirror_other [OF ok' fok' fortify_board [OF fok 4] fortify_syncs [OF fok(1) 4]])
  next
    case 5
    show ?thesis by (rule mirror_other [OF ok' fok' post_board [OF fok 5] post_syncs [OF fok(1) 5]])
  next
    case 6
    show ?thesis by (rule mirror_other [OF ok' fok' accept_board [OF fok 6] accept_syncs [OF fok(1) 6]])
  next
    case 7
    show ?thesis by (rule mirror_other [OF ok' fok' cancel_board [OF fok 7] cancel_syncs [OF fok(1) 7]])
  qed
qed

end
