(* ===== verification/FrontierHosted.thy ===== *)
theory FrontierHosted
  imports FrontierClient
begin

text \<open>
  "Frontier" end to end: the engine service hosts a game, commands arrive over the bus, and a client
  folds the events it may see into its board. The board agrees with the snapshot the server keeps
  for page reloads, except for the round.
\<close>

definition demoHosted :: "(fextras, fpayload, fevent, demo_view) hosted" where
  "demoHosted = \<lparr>ho_scenario = demoScenario, ho_buildView = None\<rparr>"

definition demoRegistry :: "(fextras, fpayload, fevent, demo_view) scenario_registry" where
  "demoRegistry = (case registerScenario demoHosted [] of Inr r \<Rightarrow> r | Inl _ \<Rightarrow> [])"

lemma demoRegistry_get [simp]: "getScenario demoRegistry ''demo-v1'' = Inr demoHosted"
  by (simp add: demoRegistry_def registerScenario_def reg_insert_def jhas_def getScenario_def lookupScenario_def ho_id_def
      demoHosted_def demoScenario_def)

text \<open>The hosting of one game from the message of the lobby on, with the commands that follow.\<close>

definition emptyEngine :: "('x, 'p, 'e, 'v) engine" where
  "emptyEngine = \<lparr>en_games = [], en_out = []\<rparr>"

definition hostDemo ::
  "(string \<Rightarrow> bool) \<Rightarrow> clock \<Rightarrow> string \<Rightarrow> (string \<times> string) list \<Rightarrow> int \<Rightarrow> (int \<times> fpayload command_message) list \<Rightarrow>
   (fextras, fpayload, fevent, demo_view) engine" where
  "hostDemo load ck gid ms now cmds =
     fold (serveCommand frontierView load ck) cmds
       (snd (consume Inr (onGameStarting frontierView demoRegistry now)
          (Some (GameStarting ''room'' gid ''demo-v1'' ms now)) emptyEngine))"

text \<open>The messages on the bus that the gateway forwards to a player.\<close>

definition visibleTo :: "string \<Rightarrow> ('e, 'v) bus_event \<Rightarrow> bool" where
  "visibleTo me e \<longleftrightarrow> be_privateTo e = None \<or> be_privateTo e = Some me"

section \<open>The setup names every settlement\<close>

lemma on_inv_frame:
  assumes "on_inv p f s = (r, s')"
  shows "gs_pieces s' = gs_pieces s" "gs_map s' = gs_map s" "gs_players s' = gs_players s" "named_invs s \<Longrightarrow> named_invs s'"
  using assms by (auto simp: on_inv_def put_inventory_def named_invs_def has_inv_def split: option.splits prod.splits)

lemma homeStep_named:
  assumes "homeStep coords (i, p) (homes, s) = (r, (homes', s'))" "plain_id (pl_id p)" "named_flags (gs_pieces s)" "named_invs s"
  shows "named_flags (gs_pieces s') \<and> gs_map s' = gs_map s \<and> gs_players s' = gs_players s \<and> named_invs s'"
proof -
  let ?t = "tileId (coords ! i)"
  let ?s1 = "place_piece (makeUnit (''flag-'' @ pl_id p @ ''-'' @ ?t) ''flag'' (pl_id p) ?t None None) s"
  have s1: "named_flags (gs_pieces ?s1)" "named_invs ?s1"
    using assms(2-4) by (auto simp: named_flags_def place_piece_def piece_tile_def named_invs_def has_inv_def)
  have fr: "gs_map ?s1 = gs_map s" "gs_players ?s1 = gs_players s" by (simp_all add: place_piece_def)
  consider "s' = s" | "s' = ?s1" | f r' where "on_inv (pl_id p) f ?s1 = (r', s')"
    using assms(1) by (auto simp: homeStep_def Let_def split: if_splits option.splits sum.splits prod.splits)
  then show ?thesis
  proof cases
    case 3
    from on_inv_frame [OF 3] s1 fr show ?thesis by simp
  qed (use s1 fr assms in simp_all)
qed

lemma homeSteps_named:
  assumes "homeSteps coords (enumerate n ps) (homes, s) = (r, (homes', s'))" "\<forall>p \<in> set ps. plain_id (pl_id p)"
    "named_flags (gs_pieces s)" "named_invs s"
  shows "named_flags (gs_pieces s') \<and> gs_map s' = gs_map s \<and> gs_players s' = gs_players s \<and> named_invs s'"
  using assms
proof (induction ps arbitrary: n homes s)
  case (Cons p ps)
  obtain r1 homes1 s1 where one: "homeStep coords (n, p) (homes, s) = (r1, (homes1, s1))" by (metis prod.exhaust)
  from homeStep_named [OF one] Cons.prems have s1: "named_flags (gs_pieces s1)" "gs_map s1 = gs_map s" "gs_players s1 = gs_players s" "named_invs s1"
    by simp_all
  show ?case
  proof (cases r1)
    case (Inl e)
    with one Cons.prems(1) s1 show ?thesis by simp
  next
    case (Inr u)
    with one Cons.prems(1) have "homeSteps coords (enumerate (Suc n) ps) (homes1, s1) = (r, (homes', s'))" by simp
    from Cons.IH [OF this] Cons.prems(2) s1 show ?thesis by simp
  qed
qed simp

lemma demo_created:
  assumes create: "createGameState gid demoScenario ps seed = Inr s" and ids: "[] \<notin> pl_id ` set ps" "\<forall>p \<in> set ps. plain_id (pl_id p)"
  shows "wf_map (gs_map s)" "named_flags (gs_pieces s)" "named_invs s" "gs_players s = newPlayerManager ps"
    "\<forall>p \<in> set (pm_bySeat (gs_players s)). plain_id (pl_id p)"
proof -
  obtain m rounds where m: "buildDemoMap (length ps) seed = Inr m"
      and run: "frontierSetup ps (initial_state gid demoScenario ps seed m rounds) = (Inr (), s)"
    using create by (auto simp: createGameState_def demoScenario_def Let_def split: if_splits sum.splits prod.splits)
  define s0 where "s0 = initial_state gid demoScenario ps seed m rounds"
  have s0: "named_flags (gs_pieces s0)" "named_invs s0" "gs_map s0 = m" "gs_players s0 = newPlayerManager ps"
    using ids(1) by (auto simp: s0_def initial_state_def named_flags_def named_invs_def has_inv_def newInventory_def jget_fold_inventories)
  obtain coords homes s1 where steps: "homeSteps coords (enumerate 0 ps) ([], s0) = (Inr (), (homes, s1))"
    "s = set_fextras (fx_homeTiles_update (\<lambda>_. Some homes)) s1"
    using run unfolding s0_def [symmetric] frontierSetup_def Let_def by (auto split: sum.splits prod.splits)
  from homeSteps_named [OF steps(1) ids(2) s0(1,2)] s0(3,4) steps(2)
  have s: "named_flags (gs_pieces s)" "gs_map s = m" "gs_players s = newPlayerManager ps" "named_invs s" by simp_all
  then show "named_flags (gs_pieces s)" "named_invs s" "gs_players s = newPlayerManager ps" by simp_all
  obtain b where "m = mb_build b" using m by (auto simp: buildDemoMap_def split: sum.splits prod.splits)
  then show "wf_map (gs_map s)" using s(2) wf_map_build [of b] by simp
  show "\<forall>p \<in> set (pm_bySeat (gs_players s)). plain_id (pl_id p)"
    using ids(2) by (auto simp: s(3) newPlayerManager_def Let_def)
qed

lemma demo_round1:
  assumes "createGameState gid demoScenario ps seed = Inr s"
  shows "currentRound (gs_rounds s) = 1"
proof -
  have book: "gs_rounds s' = gs_rounds s0" if "on_inv p f s0 = (r, s')" for p f s0 r s'
    using that by (auto simp: on_inv_def put_inventory_def split: option.splits prod.splits)
  have step: "gs_rounds s' = gs_rounds s0" if "homeStep coords ip (homes, s0) = (r, (homes', s'))" for coords ip homes s0 r homes' s'
    using that by (cases ip) (auto simp: homeStep_def Let_def place_piece_def split: if_splits option.splits sum.splits prod.splits dest!: book)
  have steps: "gs_rounds s' = gs_rounds s0" if "homeSteps coords ips (homes, s0) = (r, (homes', s'))" for coords ips homes s0 r homes' s'
    using that
  proof (induction ips arbitrary: homes s0)
    case (Cons ip ips)
    obtain r1 homes1 s1 where one: "homeStep coords ip (homes, s0) = (r1, (homes1, s1))" by (metis prod.exhaust)
    with Cons show ?case by (cases r1) (auto dest: step)
  qed simp
  obtain m rounds where rm: "newRoundManager ps Clockwise [\<lparr>ph_id = ''turn'', ph_displayName = ''Your Turn'', ph_nextPhases = [''turn'']\<rparr>] ''turn'' = Inr rounds"
      and run: "frontierSetup ps (initial_state gid demoScenario ps seed m rounds) = (Inr (), s)"
    using assms by (auto simp: createGameState_def demoScenario_def Let_def split: if_splits sum.splits prod.splits)
  from rm have "currentRound rounds = 1" by (auto simp: newRoundManager_def Let_def split: if_splits list.splits)
  moreover from run have "gs_rounds s = rounds"
    by (auto simp: frontierSetup_def Let_def initial_state_def split: sum.splits prod.splits dest!: steps)
  ultimately show ?thesis by simp
qed

section \<open>One command\<close>

text \<open>What the engine and the bus hold between two commands, as one player sees it.\<close>

definition mirrored :: "string \<Rightarrow> string \<Rightarrow> (fextras, fpayload, fevent, demo_view) engine \<Rightarrow> bool" where
  "mirrored me gid en \<longleftrightarrow>
     (\<forall>k. k \<noteq> gid \<longrightarrow> jget (en_games en) k = None) \<and>
     (case jget (en_games en) gid of
        None \<Rightarrow> (\<exists>v. initEndpoint (en_out en) gid = Inr v \<and>
                  foldl applyEvent None (filter (visibleTo me) (published (en_out en))) = Some (v\<lparr>dv_round := 1\<rparr>))
      | Some i \<Rightarrow> attached i \<and> gi_gameId i = gid \<and> gi_hosted i = demoHosted \<and> g_machine (gi_game i) = Playing \<and>
          game_loaded frontier_vs frontier_xs [] [firstToEighteenVP, allTilesClaimed] frontier_ok (gi_game i) \<and>
          mirror_ok (g_state (gi_game i)) \<and>
          (let s = g_state (gi_game i); ps = pm_all (gs_players s)
           in initEndpoint (en_out en) gid = Inr (frontierView s ps None) \<and>
              foldl applyEvent None (filter (visibleTo me) (published (en_out en))) = Some (boardOf 1 ps s)))"

lemma boardOf_round: "boardOf r ps s = (frontierView s ps None)\<lparr>dv_round := r\<rparr>"
  by (simp add: boardOf_def)

lemma frontierView_frame [simp]:
  "frontierView (s\<lparr>gs_history := h\<rparr>) ps v = frontierView s ps v"
  "boardOf r ps (s\<lparr>gs_history := h\<rparr>) = boardOf r ps s"
  by (simp_all add: boardOf_def frontierView_def claimMap_def playerView_def[abs_def] stockOr0_def getForts_def getOffers_def fun_eq_iff del: stockOr0)

lemma mirror_ok_frame [simp]: "mirror_ok (s\<lparr>gs_history := h\<rparr>) = mirror_ok s" "mirror_ok (s\<lparr>gs_status := st\<rparr>) = mirror_ok s"
  by (simp_all add: mirror_ok_def frontier.invariant_history frontier.invariant_status named_invs_def has_inv_def)

text \<open>Stamping, numbering and sending an event changes nothing the reducer looks at.\<close>

lemma foldl_stamped:
  assumes "em_emitAll clock es em = (st, em')"
  shows "foldl applyEvent v (map (busEvent now gid) st) = foldl applyEvent v (map rawEvent es)"
  using assms
proof (induction es arbitrary: em st em' v)
  case (Cons e es)
  obtain s1 em1 where e: "em_emit (clock (em_nextSeq em)) e em = (s1, em1)" by fastforce
  obtain ss em2 where es: "em_emitAll clock es em1 = (ss, em2)" by fastforce
  have "applyEvent v (busEvent now gid s1) = applyEvent v (rawEvent e)"
    using e by (intro applyEvent_cong) (auto simp: busEvent_def rawEvent_def em_emit_def Let_def)
  with Cons.IH [OF es] Cons.prems e es show ?case by auto
qed simp

lemma stamped_visible:
  assumes "em_emitAll clock es em = (st, em')" "\<forall>e \<in> set es. ev_privateTo e = None"
  shows "filter (visibleTo me) (map (busEvent now gid) st) = (map (busEvent now gid) st :: (fevent, demo_view) bus_event list)"
proof -
  have "set (map ev_privateTo st) = set (map ev_privateTo es)" using emitAll_private [OF assms(1)] by simp
  then have "\<forall>e \<in> set st. ev_privateTo e = None" using assms(2) by (auto simp: image_iff)
  then show ?thesis by (auto simp: filter_id_conv visibleTo_def busEvent_def truthy_def)
qed

text \<open>An accepted submission of a hosted game, taken apart.\<close>

lemma hosted_accepted:
  assumes loaded: "game_loaded frontier_vs frontier_xs [] [firstToEighteenVP, allTilesClaimed] frontier_ok g"
    and mir: "mirror_ok (g_state g)" and run: "submit ck a g = (Inr (Accepted evs), g')"
  obtains s h st where "mirror_ok s" "gs_players s = gs_players (g_state g)" "\<forall>e \<in> set st. ev_type e \<noteq> ''game-ended''"
    "\<And>now gid r ps. foldl applyEvent (Some (boardOf r ps (g_state g))) (map (busEvent now gid) st) = Some (boardOf r ps s)"
    "\<And>me now gid. filter (visibleTo me) (map (busEvent now gid) st) = (map (busEvent now gid) st :: (fevent, demo_view) bus_event list)"
    "evs = st \<and> g_state g' = s\<lparr>gs_history := h\<rparr> \<and> g_machine g' = g_machine g \<or>
     (\<exists>e v. evs = st @ [e] \<and> g_state g' = s\<lparr>gs_history := h, gs_status := Ended\<rparr> \<and> g_machine g' = Ended \<and>
        ev_type e = ''game-ended'' \<and> ev_payload e = GameEndedPayload v \<and> ev_privateTo e = None)"
proof -
  have g: "g_validators g = frontier_vs" "g_executors g = frontier_xs" "g_rules g = []" using loaded by (simp_all add: game_loaded_def)
  obtain s primary st em1 followUps em2 sf where p:
    "validate_action (g_validators g) (g_state g) a = Inr None"
    "execute_action (g_executors g) a (g_state g) = (Inr primary, s)"
    "em_emitAll (ck_stamp ck) primary (g_events g) = (st, em1)"
    "process_all (g_rules g) s st = Inr followUps"
    "em_emitAll (ck_stamp ck) followUps em1 = (sf, em2)" and
    fin: "finish_submit ck (st @ sf)
       (g\<lparr>g_state := s\<lparr>gs_history := history_append (ck_append ck (length (gs_history s))) a (st @ sf) (gs_history s)\<rparr>,
          g_events := em2\<rparr>) = (Inr (Accepted evs), g')"
    using run by (rule submit_accepted)
  have none: "followUps = []" "sf = []" using p(4,5) g(3) by auto
  from mirror_step [OF mir p(1)[unfolded g(1)] p(2)[unfolded g(2)]]
  have ms: "mirror_ok s" "syncs (g_state g) primary s" "gs_players s = gs_players (g_state g)" by simp_all
  let ?h = "history_append (ck_append ck (length (gs_history s))) a (st @ sf) (gs_history s)"
  have types: "\<forall>e \<in> set st. ev_type e \<noteq> ''game-ended''"
  proof -
    have "map ev_type st = map ev_type primary" using emitAll_spec [OF p(3)] by simp
    then have "ev_type ` set st = ev_type ` set primary" by (metis list.set_map)
    moreover have "''game-ended'' \<notin> ev_type ` set primary" using ms(2) by (auto simp: syncs_def)
    ultimately have "''game-ended'' \<notin> ev_type ` set st" by simp
    then show ?thesis by (metis rev_image_eqI)
  qed
  have fold': "foldl applyEvent (Some (boardOf r ps (g_state g))) (map (busEvent now gid) st) = Some (boardOf r ps s)" for now gid r ps
    unfolding foldl_stamped [OF p(3)] using ms(2) by (simp add: syncs_def)
  have vis: "filter (visibleTo me) (map (busEvent now gid) st) = (map (busEvent now gid) st :: (fevent, demo_view) bus_event list)" for me now gid
    using stamped_visible [OF p(3)] ms(2) by (simp add: syncs_def)
  have "evs = st \<and> g_state g' = s\<lparr>gs_history := ?h\<rparr> \<and> g_machine g' = g_machine g \<or>
     (\<exists>e v. evs = st @ [e] \<and> g_state g' = s\<lparr>gs_history := ?h, gs_status := Ended\<rparr> \<and> g_machine g' = Ended \<and>
        ev_type e = ''game-ended'' \<and> ev_payload e = GameEndedPayload v \<and> ev_privateTo e = None)"
    using fin
  proof (cases rule: finish_submit_cases)
    case (ended v e em)
    then have "ev_type e = ''game-ended''" "ev_payload e = GameEndedPayload v" "ev_privateTo e = None"
      by (auto simp: em_emit_def Let_def)
    with ended none show ?thesis by auto
  qed (use none in auto)
  with ms types fold' vis show ?thesis by (intro that [of s st ?h])
qed

lemma demo_view [simp]: "buildView frontierView demoHosted = frontierView"
  by (simp add: buildView_def demoHosted_def)

lemma boardOf_ended:
  "onGameEnded v (boardOf r ps s) = (frontierView (s\<lparr>gs_history := h, gs_status := Ended\<rparr>) ps (Some (vr_winner v, vr_reason v)))\<lparr>dv_round := r\<rparr>"
  by (simp add: onGameEnded_def boardOf_def frontierView_def claimMap_def playerView_def[abs_def] stockOr0_def getForts_def getOffers_def fun_eq_iff del: stockOr0)

text \<open>The two phases of a hosted game, for introduction and elimination.\<close>

lemma mirrored_open:
  assumes "\<And>k. k \<noteq> gid \<Longrightarrow> jget (en_games en) k = None" "jget (en_games en) gid = Some i"
    "attached i" "gi_gameId i = gid" "gi_hosted i = demoHosted" "g_machine (gi_game i) = Playing"
    "game_loaded frontier_vs frontier_xs [] [firstToEighteenVP, allTilesClaimed] frontier_ok (gi_game i)" "mirror_ok (g_state (gi_game i))"
    "initEndpoint (en_out en) gid = Inr (frontierView (g_state (gi_game i)) (pm_all (gs_players (g_state (gi_game i)))) None)"
    "foldl applyEvent None (filter (visibleTo me) (published (en_out en))) = Some (boardOf 1 (pm_all (gs_players (g_state (gi_game i)))) (g_state (gi_game i)))"
  shows "mirrored me gid en"
  unfolding mirrored_def assms(2) option.case Let_def using assms(1,3-) by blast

lemma mirrored_closed:
  assumes "\<And>k. jget (en_games en) k = None" "initEndpoint (en_out en) gid = Inr v"
    "foldl applyEvent None (filter (visibleTo me) (published (en_out en))) = Some (v\<lparr>dv_round := 1\<rparr>)"
  shows "mirrored me gid en"
  unfolding mirrored_def assms(1) option.case using assms(2,3) by blast

lemma mirrored_running:
  assumes "mirrored me gid en" "jget (en_games en) k = Some i"
  shows "k = gid" "\<And>k. k \<noteq> gid \<Longrightarrow> jget (en_games en) k = None" "attached i" "gi_gameId i = gid" "gi_hosted i = demoHosted" "g_machine (gi_game i) = Playing"
    "game_loaded frontier_vs frontier_xs [] [firstToEighteenVP, allTilesClaimed] frontier_ok (gi_game i)" "mirror_ok (g_state (gi_game i))"
    "initEndpoint (en_out en) gid = Inr (frontierView (g_state (gi_game i)) (pm_all (gs_players (g_state (gi_game i)))) None)"
    "foldl applyEvent None (filter (visibleTo me) (published (en_out en))) = Some (boardOf 1 (pm_all (gs_players (g_state (gi_game i)))) (g_state (gi_game i)))"
proof -
  show k: "k = gid" using assms by (metis mirrored_def option.distinct(1))
  have i: "jget (en_games en) gid = Some i" using assms(2) k by simp
  note m = assms(1) [unfolded mirrored_def i option.case Let_def]
  show "\<And>k. k \<noteq> gid \<Longrightarrow> jget (en_games en) k = None" "attached i" "gi_gameId i = gid" "gi_hosted i = demoHosted" "g_machine (gi_game i) = Playing"
    "game_loaded frontier_vs frontier_xs [] [firstToEighteenVP, allTilesClaimed] frontier_ok (gi_game i)" "mirror_ok (g_state (gi_game i))"
    "initEndpoint (en_out en) gid = Inr (frontierView (g_state (gi_game i)) (pm_all (gs_players (g_state (gi_game i)))) None)"
    "foldl applyEvent None (filter (visibleTo me) (published (en_out en))) = Some (boardOf 1 (pm_all (gs_players (g_state (gi_game i)))) (g_state (gi_game i)))"
    using m by blast+
qed

text \<open>A rejection reaches its sender only and changes no board.\<close>

lemma mirrored_rejected:
  assumes mir: "mirrored me gid en" and i: "jget (en_games en) gid = Some i"
    and en': "\<And>k. k \<noteq> gid \<Longrightarrow> jget (en_games en') k = None" "jget (en_games en') gid = Some i"
    and out: "en_out en' = en_out en @ [publishEvent gid e]" and e: "be_type e = ''error''" "be_payload e = ErrorPayload err"
  shows "mirrored me gid en'"
proof -
  note r = mirrored_running [OF mir i]
  have err: "applyEvent v e = v" for v by (cases v) (simp_all add: applyEvent_def reduceEvent_def e)
  show ?thesis
    by (rule mirrored_open [OF en' r(3-8)]) (simp_all add: out r(9,10) err)
qed

lemma mirrored_accepted:
  assumes mir: "mirrored me gid en" and i: "jget (en_games en) gid = Some i"
    and run: "submit ck a (gi_game i) = (Inr (Accepted evs), g)"
    and g: "game_loaded frontier_vs frontier_xs [] [firstToEighteenVP, allTilesClaimed] frontier_ok g"
    and others: "\<And>k. k \<noteq> gid \<Longrightarrow> jget (en_games en') k = None"
    and out: "en_out en' = en_out en @ map (\<lambda>e. publishEvent gid (busEvent now gid e)) evs @
           [saveState gid (g_state g), saveView gid (frontierView (g_state g) (pm_all (gs_players (g_state g))) (victoryOf (gameEnded evs)))]"
    and inst: "case jget (en_games en') gid of
            None \<Rightarrow> \<exists>e \<in> set evs. ev_type e = ''game-ended''
          | Some i' \<Rightarrow> (\<forall>e \<in> set evs. ev_type e \<noteq> ''game-ended'') \<and> attached i' \<and> gi_game i' = g \<and> gi_gameId i' = gid \<and> gi_hosted i' = demoHosted"
  shows "mirrored me gid en'"
proof -
  note r = mirrored_running [OF mir i]
  define s0 where "s0 = g_state (gi_game i)"
  define ps where "ps = pm_all (gs_players s0)"
  have board: "foldl applyEvent None (filter (visibleTo me) (published (en_out en))) = Some (boardOf 1 ps s0)"
    using r(10) by (simp add: s0_def ps_def)
  obtain s h st where sim: "mirror_ok s" "gs_players s = gs_players s0" "\<forall>e \<in> set st. ev_type e \<noteq> ''game-ended''"
    "\<And>now gid r ps. foldl applyEvent (Some (boardOf r ps s0)) (map (busEvent now gid) st) = Some (boardOf r ps s)"
    "\<And>me now gid. filter (visibleTo me) (map (busEvent now gid) st) = (map (busEvent now gid) st :: (fevent, demo_view) bus_event list)" and
    two: "evs = st \<and> g_state g = s\<lparr>gs_history := h\<rparr> \<and> g_machine g = g_machine (gi_game i) \<or>
       (\<exists>e v. evs = st @ [e] \<and> g_state g = s\<lparr>gs_history := h, gs_status := Ended\<rparr> \<and> g_machine g = Ended \<and>
        ev_type e = ''game-ended'' \<and> ev_payload e = GameEndedPayload v \<and> ev_privateTo e = None)"
    by (rule hosted_accepted [OF r(7,8) run, folded s0_def]) (rule that)
  have pub: "published (en_out en') = published (en_out en) @ map (busEvent now gid) evs" by (simp add: out)
  have ini: "initEndpoint (en_out en') gid = Inr (frontierView (g_state g) (pm_all (gs_players (g_state g))) (victoryOf (gameEnded evs)))"
    using initEndpoint_view [of "en_out en @ map (\<lambda>e. publishEvent gid (busEvent now gid e)) evs @ [saveState gid (g_state g)]"]
    by (simp add: out)
  have ps: "pm_all (gs_players s) = ps" using sim(2) by (simp add: ps_def)
  from two show ?thesis
  proof (elim disjE exE conjE)
    assume o': "evs = st" "g_state g = s\<lparr>gs_history := h\<rparr>" "g_machine g = g_machine (gi_game i)"
    obtain i' where i': "jget (en_games en') gid = Some i'" "attached i'" "gi_game i' = g" "gi_gameId i' = gid" "gi_hosted i' = demoHosted"
      using inst sim(3) o'(1) by (cases "jget (en_games en') gid") auto
    have none: "gameEnded evs = None" using sim(3) o'(1) by (simp add: gameEnded_def find_None_iff)
    have "initEndpoint (en_out en') gid = Inr (frontierView s ps None)" unfolding ini none o'(2) by (simp add: victoryOf_def ps)
    moreover have "foldl applyEvent None (filter (visibleTo me) (published (en_out en'))) = Some (boardOf 1 ps s)"
      by (simp add: pub o'(1) board sim(4,5))
    ultimately show ?thesis using others i' r(6) g o' sim(1) ps by (intro mirrored_open [of gid en' i']) simp_all
  next
    fix e v
    assume o': "evs = st @ [e]" "g_state g = s\<lparr>gs_history := h, gs_status := Ended\<rparr>" "ev_type e = ''game-ended''"
      "ev_payload e = GameEndedPayload v" "ev_privateTo e = None"
    have "find (\<lambda>e. ev_type e = ''game-ended'') (st @ [e]) = Some e" using sim(3) o'(3) by (induction st) auto
    then have vic: "victoryOf (gameEnded evs) = Some (vr_winner v, vr_reason v)" using o'(1,4) by (simp add: gameEnded_def victoryOf_def)
    have "initEndpoint (en_out en') gid = Inr (frontierView (s\<lparr>gs_history := h, gs_status := Ended\<rparr>) ps (Some (vr_winner v, vr_reason v)))"
      unfolding ini vic o'(2) by (simp add: ps)
    moreover have "foldl applyEvent None (filter (visibleTo me) (published (en_out en'))) = Some (onGameEnded v (boardOf 1 ps s))"
      using o'(3-5) by (simp add: pub o'(1) board sim(4,5) visibleTo_def busEvent_def truthy_def applyEvent_def reduceEvent_def)
    moreover have "jget (en_games en') k = None" for k
      using others [of k] inst o'(1,3) by (cases "k = gid"; cases "jget (en_games en') gid") auto
    ultimately show ?thesis unfolding boardOf_ended [of v 1 ps s h] by (rule mirrored_closed [rotated])
  qed
qed

lemma mirrored_step:
  assumes mir: "mirrored me gid en"
  shows "mirrored me gid (serveCommand frontierView load ck (now, m) en)"
proof (cases "jget (en_games en) (cm_gameId m)")
  case None
  then have "serveCommand frontierView load ck (now, m) en = en"
    by (simp add: serveCommand_def consume_def onCommand_def handleCommand_def Let_def)
  with mir show ?thesis by simp
next
  case (Some i)
  note r = mirrored_running [OF mir Some]
  have gid: "gi_gameId i = cm_gameId m" using r(1,4) by simp
  obtain res g where run: "submit ck (actionOf m) (gi_game i) = (Inr res, g)"
    and g: "game_loaded frontier_vs frontier_xs [] [firstToEighteenVP, allTilesClaimed] frontier_ok g"
    using frontier.submit_total [OF r(7,6), of ck "actionOf m"] by blast
  note cp = handleCommand_publishes [OF Some r(3) gid run, of frontierView load now, unfolded r(1,5) demo_view]
  obtain en' where en': "handleCommand frontierView load ck now m en = (Inr True, en')"
    using cp by (elim exE conjE)
  have serve: "serveCommand frontierView load ck (now, m) en = en'"
    by (simp add: serveCommand_def consume_def onCommand_def en')
  have others: "jget (en_games en') k = None" if "k \<noteq> gid" for k using cp en' r(2) that by auto
  have i: "jget (en_games en) gid = Some i" using Some r(1) by simp
  show ?thesis unfolding serve
  proof (cases res)
    case (Rejected err)
    have "jget (en_games en') gid = Some i \<and> en_out en' = en_out en @ [publishEvent gid
       \<lparr>be_gameId = gid, be_seq = 0, be_type = ''error'', be_payload = ErrorPayload err, be_at = now,
        be_playerId = None, be_privateTo = Some (cm_userId m)\<rparr>]" using cp en' unfolding Rejected by simp
    then show "mirrored me gid en'" using others by (intro mirrored_rejected [OF mir i]) auto
  next
    case (Accepted evs)
    show "mirrored me gid en'"
      by (rule mirrored_accepted [OF mir i run[unfolded Accepted] g others, where now = now]) (use cp en' in \<open>simp_all add: Accepted\<close>)
  qed
qed

section \<open>A whole game\<close>

lemma serve_mirrored:
  "mirrored me gid en \<Longrightarrow> mirrored me gid (fold (serveCommand frontierView load ck) cmds en)"
proof (induction cmds arbitrary: en)
  case (Cons tm cmds)
  from mirrored_step [OF Cons.prems, of load ck "fst tm" "snd tm"] have "mirrored me gid (serveCommand frontierView load ck tm en)" by simp
  with Cons.IH show ?case by simp
qed simp

lemma hosted_start:
  fixes gid :: string and now :: int
  assumes n: "2 \<le> length ms" "length ms \<le> 4" and ids: "distinct (map fst ms)" "[] \<notin> fst ` set ms" "\<forall>i \<in> fst ` set ms. plain_id i"
  defines "en \<equiv> snd (consume Inr (onGameStarting frontierView demoRegistry now)
          (Some (GameStarting ''room'' gid ''demo-v1'' ms now)) emptyEngine)"
  shows "mirrored me gid en"
proof -
  let ?ps = "seatPlayers ms"
  have r: "roster_ok ?ps" by (rule seatPlayers_ok [OF n ids(1,2)])
  have pid: "pl_id ` set ?ps = fst ` set ms" by (metis list.set_map seatPlayers_ids)
  then have pids: "[] \<notin> pl_id ` set ?ps" "\<forall>p \<in> set ?ps. plain_id (pl_id p)" using ids(2,3) by (metis, metis imageI)
  obtain s where s: "createGameState gid demoScenario ?ps gid = Inr s" "frontier_ok s" "gs_status s = Setup" "gs_history s = []"
    by (rule frontier_create [OF r])
  note c = demo_created [OF s(1) pids]
  obtain g where g: "newGame s demoScenario = Inr g" "g_validators g = frontier_vs" "g_executors g = frontier_xs"
    "g_rules g = []" "g_victories g = [firstToEighteenVP, allTilesClaimed]" "g_machine g = Setup" "g_state g = s"
    using s newGame_frontier [of s] by auto
  define i where "i = startInstance (newInstance gid g demoHosted)"
  have att: "attached i" unfolding i_def by (rule attached_new [OF g(1)])
  have i: "gi_gameId i = gid" "gi_hosted i = demoHosted" "g_machine (gi_game i) = Playing" "g_state (gi_game i) = s\<lparr>gs_status := Playing\<rparr>"
    "g_validators (gi_game i) = frontier_vs" "g_executors (gi_game i) = frontier_xs" "g_rules (gi_game i) = []"
    "g_victories (gi_game i) = [firstToEighteenVP, allTilesClaimed]"
    using g by (simp_all add: i_def startInstance_def newInstance_def game_start_def transitionTo_def canTransitionTo_def)
  have loaded: "game_loaded frontier_vs frontier_xs [] [firstToEighteenVP, allTilesClaimed] frontier_ok (gi_game i)"
    using i s by (simp add: game_loaded_def frontier.invariant_status)
  have mir: "mirror_ok s" using s(2) c by (simp add: mirror_ok_def)
  let ?s = "s\<lparr>gs_status := Playing\<rparr>"
  define view where "view = frontierView ?s ?ps None"
  have same: "view = frontierView ?s (pm_all (gs_players ?s)) None"
  proof -
    have "pm_all (gs_players ?s) = map (\<lambda>p. p\<lparr>pl_status := Some Active\<rparr>) ?ps"
      by (simp add: c(4) pm_all_def newPlayerManager_def Let_def seatPlayers_sorted)
    then have "map (playerView ?s) (pm_all (gs_players ?s)) = map (playerView ?s) ?ps" by (simp add: playerView_def comp_def)
    then show ?thesis by (simp add: view_def frontierView_def)
  qed
  have round1: "dv_round view = 1"
  proof -
    have "currentRound (gs_rounds s) = 1" by (rule demo_round1 [OF s(1)])
    then show ?thesis by (simp add: view_def frontierView_def)
  qed
  let ?started = "\<lparr>be_gameId = gid, be_seq = 0, be_type = ''game-started'', be_payload = SnapshotPayload view,
                   be_at = now, be_playerId = None, be_privateTo = None\<rparr>"
  have en: "en = emitOut [saveState gid ?s, saveView gid view, publishEvent gid ?started] (emptyEngine\<lparr>en_games := [(gid, i)]\<rparr>)"
    using s(1) g(1) flush_attached [OF att] i(1,4)
    by (simp add: en_def consume_def onGameStarting_def createGame_def Let_def demoHosted_def emptyEngine_def view_def
        flip: i_def [unfolded demoHosted_def]) (simp add: buildView_def)
  have out: "en_out en = [saveState gid ?s, saveView gid view] @ [publishEvent gid ?started]" "en_games en = [(gid, i)]"
    by (simp_all add: en emitOut_def emptyEngine_def)
  have "initEndpoint (en_out en) gid = Inr view"
    using initEndpoint_view [of "[saveState gid ?s]" gid view] unfolding out(1) initEndpoint_publish by simp
  moreover have "foldl applyEvent None (filter (visibleTo me) (published (en_out en))) = Some view"
    unfolding out(1) by (simp add: visibleTo_def applyEvent_def)
  moreover have "view = boardOf 1 (pm_all (gs_players ?s)) ?s"
    using same round1 by (simp add: boardOf_def)
  ultimately show ?thesis using same
    by (intro mirrored_open [OF _ _ att i(1-3) loaded]) (simp_all add: out(2) i(4) mir)
qed

text \<open> C4: Whatever commands reach the server, the board a client has built from the start message and the
  events it may see equals the snapshot the server hands out for the game at that moment, tiles,
  claims, stocks, fortifications, offers, turn, status and winner included, except that the client
  still shows round 1: no event updates its round. \<close>
theorem client_mirrors_server:
  fixes gid :: string and now :: int and load :: "string \<Rightarrow> bool" and ck :: clock and cmds :: "(int \<times> fpayload command_message) list"
  assumes "2 \<le> length ms" "length ms \<le> 4" "distinct (map fst ms)" "\<forall>i \<in> fst ` set ms. i \<noteq> [] \<and> last i \<noteq> CHR ''-''"
  defines "out \<equiv> en_out (hostDemo load ck gid ms now cmds)"
  shows "\<exists>v. initEndpoint out gid = Inr v \<and>
    foldl applyEvent None (filter (visibleTo me) (published out)) = Some (v\<lparr>dv_round := 1\<rparr>)"
proof -
  have ids: "[] \<notin> fst ` set ms" "\<forall>i \<in> fst ` set ms. plain_id i" using assms(4) by (auto simp: plain_id_def)
  define en where "en = hostDemo load ck gid ms now cmds"
  have mir: "mirrored me gid en" unfolding en_def hostDemo_def by (rule serve_mirrored [OF hosted_start [OF assms(1-3) ids]])
  show ?thesis unfolding out_def en_def [symmetric]
  proof (cases "jget (en_games en) gid")
    case None
    with mir show "\<exists>v. initEndpoint (en_out en) gid = Inr v \<and>
      foldl applyEvent None (filter (visibleTo me) (published (en_out en))) = Some (v\<lparr>dv_round := 1\<rparr>)"
      by (simp add: mirrored_def)
  next
    case (Some i)
    from mirrored_running(9,10) [OF mir Some] show "\<exists>v. initEndpoint (en_out en) gid = Inr v \<and>
      foldl applyEvent None (filter (visibleTo me) (published (en_out en))) = Some (v\<lparr>dv_round := 1\<rparr>)"
      by (simp add: boardOf_def)
  qed
qed

lemma client_mirrors_server_witness:
  "\<exists>v. initEndpoint (en_out (hostDemo (\<lambda>_. False) \<lparr>ck_stamp = (\<lambda>n. n), ck_append = int\<rparr> ''g'' [(''alice'', ''Alice''), (''bob'', ''Bob'')] 0 [])) ''g'' = Inr v"
  using client_mirrors_server [of "[(''alice'', ''Alice''), (''bob'', ''Bob'')]" "\<lambda>_. False" "\<lparr>ck_stamp = (\<lambda>n. n), ck_append = int\<rparr>" "''g''" 0 "[]" "''alice''"]
  by auto

section \<open>A command that is rejected\<close>

lemma command_publishes_witness:
  "\<exists>en en'. handleCommand frontierView (\<lambda>_. False) \<lparr>ck_stamp = (\<lambda>n. n), ck_append = int\<rparr> 5
     \<lparr>cm_gameId = ''g'', cm_userId = ''alice'', cm_type = ''dance'', cm_payload = ac_payload (fAction ''dance''),
      cm_clientSeq = None, cm_socketId = None\<rparr> en = (Inr True, en') \<and> length (en_out en') = Suc (length (en_out en))"
proof -
  let ?ck = "\<lparr>ck_stamp = (\<lambda>n. n), ck_append = int\<rparr>"
  let ?m = "\<lparr>cm_gameId = ''g'', cm_userId = ''alice'', cm_type = ''dance'', cm_payload = ac_payload (fAction ''dance''),
      cm_clientSeq = None, cm_socketId = None\<rparr>"
  obtain g where g: "newGame fState demoScenario = Inr g" "g_validators g = frontier_vs" using newGame_frontier [of fState] by auto
  define i where "i = startInstance (newInstance ''g'' g demoHosted)"
  have vs: "g_validators (gi_game i) = frontier_vs" using g(2) by (simp add: i_def startInstance_def newInstance_def game_start_def)
  then have run: "submit ?ck (actionOf ?m) (gi_game i) = (Inr (Rejected (actionError ''unknown-action'')), gi_game i)"
    by (simp add: submit_def validate_action_def getValidator_def actionOf_def frontier_vs_def frontierValidators_def)
  define en where "en = (emptyEngine :: (fextras, fpayload, fevent, demo_view) engine)\<lparr>en_games := [(''g'', i)]\<rparr>"
  have own: "jget (en_games en) (cm_gameId ?m) = Some i" by (simp add: en_def)
  have att: "attached i" unfolding i_def by (rule attached_new [OF g(1)])
  have gid: "gi_gameId i = cm_gameId ?m" by (simp add: i_def startInstance_def newInstance_def)
  from command_publishes [OF own att gid run, of frontierView "\<lambda>_. False" 5] show ?thesis by fastforce
qed

end
