(* ===== verification/KingdomsView.thy ===== *)
theory KingdomsView
  imports KingdomsExample EngineService
begin

text \<open>
  The view of Kingdoms of Dominion, \<open>scenarios/kingdoms/view-builder.ts\<close>: what the board UI gets
  instead of the state. The pieces are grouped by tile in one pass; the income previews use the
  formulas of the round-end batch.
\<close>

section \<open>The shape of the view\<close>

record tilepiece_view =
  kv_id :: string
  kv_kind :: string
  kv_owner :: string
  kv_hp :: "int option"
  kv_attack :: "int option"
  kv_defense :: "int option"
  kv_movement :: "int option"
  kv_foodPerRound :: "int option"
  kv_defenseMultiplier :: "real option"

record ktile_view =
  kt_id :: string
  kt_q :: int
  kt_r :: int
  kt_terrain :: string
  kt_resourceType :: "string option"
  kt_economicValue :: int
  kt_combatValue :: int
  kt_owner :: "string option"
  kt_developed :: bool
  kt_pieces :: "tilepiece_view list"
  kt_incomePreview :: "tile_income option"

record kplayer_view =
  kp_id :: string
  kp_displayName :: string
  kp_color :: string
  kp_seat :: int
  kp_isActive :: bool
  kp_isEliminated :: bool
  kp_capitalTileId :: "string option"
  kp_wood :: int
  kp_food :: int
  kp_iron :: int
  kp_gold :: int
  kp_incomePreview :: income_result
  kp_foodBalance :: int
  kp_connectedTileCount :: nat

record kturn_state =
  kts_movedThisTurn :: "string list"
  kts_attackedFrom :: "string list"
  kts_tileLoyalty :: "(string, tile_loyalty) jsmap"

record kingdoms_view =
  kv_status :: game_status
  kv_round :: int
  kv_currentActivePlayer :: string
  kv_winner :: "string option"
  kv_winReason :: "string option"
  kv_tiles :: "ktile_view list"
  kv_players :: "kplayer_view list"
  kv_turnState :: kturn_state

section \<open>Building it\<close>

definition getTileId :: "piece \<Rightarrow> string option" where
  "getTileId p = (case pc_location p of OnTile t \<Rightarrow> Some t | _ \<Rightarrow> None)"

definition viewPiece :: "piece \<Rightarrow> tilepiece_view" where
  "viewPiece p =
     (let unitStats = (if pc_kind p \<in> set UNIT_KINDS then jget UNIT_STATS (pc_kind p) else None);
          structStats = (if pc_kind p \<in> set STRUCTURE_KINDS then jget STRUCTURE_STATS (pc_kind p) else None);
          rawHp = (case pc_state p of None \<Rightarrow> None | Some st \<Rightarrow> jget st ''hp'')
      in \<lparr>kv_id = pc_id p, kv_kind = pc_kind p, kv_owner = pc_owner p,
          kv_hp = (case rawHp of Some (PNum n) \<Rightarrow> Some n | _ \<Rightarrow> None),
          kv_attack = map_option us_attack unitStats, kv_defense = map_option us_defense unitStats,
          kv_movement = map_option us_movement unitStats, kv_foodPerRound = map_option us_foodPerRound unitStats,
          kv_defenseMultiplier = map_option ss_defenseMultiplier structStats\<rparr>)"

text \<open>\<open>list.push\<close> on the list kept under a key, made on its first use.\<close>

definition pushAt :: "'k \<Rightarrow> 'v \<Rightarrow> ('k, 'v list) jsmap \<Rightarrow> ('k, 'v list) jsmap" where
  "pushAt k v m = jput k ((case jget m k of Some l \<Rightarrow> l | None \<Rightarrow> []) @ [v]) m"

text \<open>The pass over the pieces; a missing or empty tile id is skipped.\<close>

definition groupPiece ::
  "string \<times> piece \<Rightarrow> (string, tilepiece_view list) jsmap \<times> (string, string list) jsmap \<Rightarrow>
   (string, tilepiece_view list) jsmap \<times> (string, string list) jsmap" where
  "groupPiece ip acc =
     (case (ip, acc) of ((_, p), (pieces, structures)) \<Rightarrow>
        (case truthy (getTileId p) of
           None \<Rightarrow> (pieces, structures)
         | Some tid \<Rightarrow> (pushAt tid (viewPiece p) pieces,
                       if pc_kind p \<in> set STRUCTURE_KINDS then pushAt tid (pc_kind p) structures else structures)))"

definition groupPieces :: "kstate \<Rightarrow> (string, tilepiece_view list) jsmap \<times> (string, string list) jsmap" where
  "groupPieces s = fold groupPiece (gs_pieces s) ([], [])"

definition connectedByPlayer :: "kstate \<Rightarrow> player list \<Rightarrow> (string, string list) jsmap" where
  "connectedByPlayer s players =
     fold (\<lambda>p. jput (pl_id p) (if isEliminated (gs_players s) (pl_id p) then [] else playerConnectedTiles (gs_map s) s (pl_id p))) players []"

definition tileIncomePreview :: "(string, string list) jsmap \<Rightarrow> (string, string list) jsmap \<Rightarrow> string option \<Rightarrow> tile \<Rightarrow> tile_income option" where
  "tileIncomePreview ownerConnectedSet structuresByTileId tileOwner t =
     (case truthy tileOwner of
        None \<Rightarrow> None
      | Some w \<Rightarrow>
          (case jget ownerConnectedSet w of
             None \<Rightarrow> None
           | Some reach \<Rightarrow>
               if tile_id t \<in> set reach
               then Some (calculateTileIncome t (case jget structuresByTileId (tile_id t) of Some ks \<Rightarrow> ks | None \<Rightarrow> []))
               else None))"

definition viewTile :: "kstate \<Rightarrow> player list \<Rightarrow> tile \<Rightarrow> ktile_view" where
  "viewTile s players t =
     (let tileOwner = jget (getOwnership s) (tile_id t);
          (piecesByTileId, structuresByTileId) = groupPieces s
      in \<lparr>kt_id = tile_id t, kt_q = ax_q (tile_coord t), kt_r = ax_r (tile_coord t), kt_terrain = tile_terrain t,
          kt_resourceType = prop_str t ''resourceType'',
          kt_economicValue = (case prop_num t ''economicValue'' of Some n \<Rightarrow> n | None \<Rightarrow> 1),
          kt_combatValue = (case prop_num t ''combatValue'' of Some n \<Rightarrow> n | None \<Rightarrow> 1),
          kt_owner = tileOwner, kt_developed = tile_id t \<in> set (getDeveloped s),
          kt_pieces = (case jget piecesByTileId (tile_id t) of Some l \<Rightarrow> l | None \<Rightarrow> []),
          kt_incomePreview = tileIncomePreview (connectedByPlayer s players) structuresByTileId tileOwner t\<rparr>)"

definition stockOf :: "kstate \<Rightarrow> string \<Rightarrow> string \<Rightarrow> int" where
  "stockOf s playerId r = (case jget (gs_inventories s) playerId of Some bag \<Rightarrow> inv_get bag r | None \<Rightarrow> 0)"

definition viewPlayer :: "kstate \<Rightarrow> player list \<Rightarrow> player \<Rightarrow> kplayer_view" where
  "viewPlayer s players p =
     (let dead = isEliminated (gs_players s) (pl_id p);
          reach = (case jget (connectedByPlayer s players) (pl_id p) of Some c \<Rightarrow> c | None \<Rightarrow> []);
          incomePreview = (if dead then zeroIncome else computeIncome s (pl_id p));
          foodCost = (if dead then 0 else computeFoodCost s (pl_id p))
      in \<lparr>kp_id = pl_id p, kp_displayName = pl_displayName p, kp_color = pl_color p, kp_seat = pl_seat p,
          kp_isActive = (pl_id p = activePlayer (currentTurn (gs_rounds s))), kp_isEliminated = dead,
          kp_capitalTileId = jget (getCapitals s) (pl_id p),
          kp_wood = stockOf s (pl_id p) ''wood'', kp_food = stockOf s (pl_id p) ''food'',
          kp_iron = stockOf s (pl_id p) ''iron'', kp_gold = stockOf s (pl_id p) ''gold'',
          kp_incomePreview = incomePreview, kp_foodBalance = in_food incomePreview - foodCost,
          kp_connectedTileCount = length reach\<rparr>)"

definition buildKingdomsView :: "kstate \<Rightarrow> player list \<Rightarrow> victory_info \<Rightarrow> kingdoms_view" where
  "buildKingdomsView s players victory =
     \<lparr>kv_status = gs_status s, kv_round = currentRound (gs_rounds s),
      kv_currentActivePlayer = activePlayer (currentTurn (gs_rounds s)),
      kv_winner = (case victory of None \<Rightarrow> None | Some (w, _) \<Rightarrow> w),
      kv_winReason = map_option snd victory,
      kv_tiles = map (viewTile s players) (jvals (gm_tiles (gs_map s))),
      kv_players = map (viewPlayer s players) players,
      kv_turnState = \<lparr>kts_movedThisTurn = getMovedThisTurn s, kts_attackedFrom = getAttackedFrom s, kts_tileLoyalty = getTileLoyalty s\<rparr>\<rparr>"

section \<open>One pass against one scan for each tile\<close>

definition at_tile :: "string \<Rightarrow> string \<times> piece \<Rightarrow> bool" where
  "at_tile t ip \<longleftrightarrow> pc_location (snd ip) = OnTile t"

lemma pushAt_get: "jget (pushAt k v m) k' = (if k' = k then Some ((case jget m k of Some l \<Rightarrow> l | None \<Rightarrow> []) @ [v]) else jget m k')"
  by (simp add: pushAt_def)

lemma groupPiece_get:
  assumes t: "t \<noteq> []" and acc: "groupPiece ip (a, b) = (a', b')"
  shows "case_option [] id (jget a' t) = case_option [] id (jget a t) @ (if at_tile t ip then [viewPiece (snd ip)] else [])"
    "case_option [] id (jget b' t) = case_option [] id (jget b t) @
       (if at_tile t ip \<and> pc_kind (snd ip) \<in> set STRUCTURE_KINDS then [pc_kind (snd ip)] else [])"
  using assms by (auto simp: groupPiece_def getTileId_def truthy_def at_tile_def pushAt_get
      split: prod.splits piece_location.splits if_splits option.splits)

lemma groupPieces_get:
  assumes t: "t \<noteq> []"
  shows "case_option [] id (jget (fst (fold groupPiece ps acc)) t) =
      case_option [] id (jget (fst acc) t) @ map (viewPiece \<circ> snd) (filter (at_tile t) ps) \<and>
    case_option [] id (jget (snd (fold groupPiece ps acc)) t) =
      case_option [] id (jget (snd acc) t) @ map (pc_kind \<circ> snd) (filter (\<lambda>ip. at_tile t ip \<and> pc_kind (snd ip) \<in> set STRUCTURE_KINDS) ps)"
proof (induction ps arbitrary: acc)
  case (Cons ip ps)
  obtain a b where acc: "acc = (a, b)" by (cases acc)
  obtain a' b' where step: "groupPiece ip (a, b) = (a', b')" by fastforce
  note g = groupPiece_get [OF t step]
  show ?case using Cons.IH [of "(a', b')"] unfolding fold.simps comp_def acc step g(1) g(2) fst_conv snd_conv by simp
qed simp

lemma structureMap_get:
  "case_option [] id (jget (buildStructureMap s []) t) =
     map (pc_kind \<circ> snd) (filter (\<lambda>ip. at_tile t ip \<and> pc_kind (snd ip) \<in> set STRUCTURE_KINDS) (gs_pieces s))"
proof -
  let ?f = "\<lambda>(i, p) result.
       if i \<in> set [] then result
       else if pc_kind p \<notin> set STRUCTURE_KINDS then result
       else case pc_location p of
              OnTile t \<Rightarrow> jput t ((case jget result t of Some l \<Rightarrow> l | None \<Rightarrow> []) @ [pc_kind p]) result
            | _ \<Rightarrow> result"
  have "case_option [] id (jget (fold ?f ps acc) t) = case_option [] id (jget acc t) @
     map (pc_kind \<circ> snd) (filter (\<lambda>ip. at_tile t ip \<and> pc_kind (snd ip) \<in> set STRUCTURE_KINDS) ps)" for ps acc
  proof (induction ps arbitrary: acc)
    case (Cons ip ps)
    obtain i p where ip: "ip = (i, p)" by (cases ip)
    show ?case using Cons.IH [of "?f ip acc"] unfolding ip
      by (simp add: at_tile_def split: piece_location.splits option.splits)
  qed simp
  from this [of "gs_pieces s" "[]"] show ?thesis by (simp add: buildStructureMap_def)
qed

lemma case_option_id: "(case x of Some l \<Rightarrow> l | None \<Rightarrow> []) = case_option [] id x"
  by (simp split: option.split)

lemma tile_id_nonempty: "wf_map m \<Longrightarrow> t \<in> set (jvals (gm_tiles m)) \<Longrightarrow> tile_id t \<noteq> []"
  using tileById_wf [of m "tile_id t" t] tileId_nonempty by (metis tileById_mem)

lemma pieces_shown: "t \<noteq> [] \<Longrightarrow> case_option [] id (jget (fst (groupPieces s)) t) = map (viewPiece \<circ> snd) (filter (at_tile t) (gs_pieces s))"
  using groupPieces_get [of t "gs_pieces s" "([], [])"] by (simp add: groupPieces_def)

lemma structures_shown: "t \<noteq> [] \<Longrightarrow> case_option [] id (jget (snd (groupPieces s)) t) = case_option [] id (jget (buildStructureMap s []) t)"
  using groupPieces_get [of t "gs_pieces s" "([], [])"] unfolding structureMap_get by (simp add: groupPieces_def)

lemma viewTile_sel [simp]:
  "kt_id (viewTile s ps x) = tile_id x" "kt_owner (viewTile s ps x) = jget (getOwnership s) (tile_id x)"
  "kt_developed (viewTile s ps x) = (tile_id x \<in> set (getDeveloped s))"
  "kt_pieces (viewTile s ps x) = case_option [] id (jget (fst (groupPieces s)) (tile_id x))"
  "kt_incomePreview (viewTile s ps x) = tileIncomePreview (connectedByPlayer s ps) (snd (groupPieces s)) (jget (getOwnership s) (tile_id x)) x"
  by (simp_all add: viewTile_def split_beta Let_def case_option_id)

text \<open> Grouping the pieces in one pass shows on every tile of the board exactly the pieces that stand on it, in
  the order they entered the game, each with the statistics of its kind, as a scan of all the pieces
  for each tile would. \<close>
lemma view_pieces_exact:
  assumes "wf_map (gs_map s)"
  shows "map (\<lambda>tv. (kt_id tv, kt_pieces tv)) (kv_tiles (buildKingdomsView s ps vic)) =
    map (\<lambda>t. (tile_id t, [viewPiece p. (i, p) \<leftarrow> gs_pieces s, pc_location p = OnTile (tile_id t)])) (jvals (gm_tiles (gs_map s)))"
proof -
  have scan: "map (viewPiece \<circ> snd) (filter (at_tile t) xs) = [viewPiece p. (i, p) \<leftarrow> xs, pc_location p = OnTile t]" for t xs
    by (induction xs) (auto simp: at_tile_def)
  have one: "case_option [] id (jget (fst (groupPieces s)) (tile_id x)) = [viewPiece p. (i, p) \<leftarrow> gs_pieces s, pc_location p = OnTile (tile_id x)]"
    if "x \<in> set (jvals (gm_tiles (gs_map s)))" for x
    unfolding pieces_shown [OF tile_id_nonempty [OF assms that]] scan ..
  have tiles: "kv_tiles (buildKingdomsView s ps vic) = map (viewTile s ps) (jvals (gm_tiles (gs_map s)))" by (simp add: buildKingdomsView_def)
  show ?thesis unfolding tiles map_map by (rule map_cong [OF refl]) (simp add: one)
qed

section \<open>The previews\<close>

text \<open>A sum over the connected tiles is a sum over the board.\<close>

lemma sum_connected:
  fixes f :: "tile \<Rightarrow> int"
  assumes wf: "wf_map m" and d: "distinct reach"
  shows "sum_list (map (\<lambda>i. case tileById m i of None \<Rightarrow> 0 | Some t \<Rightarrow> f t) reach) =
    sum_list (map f (filter (\<lambda>t. tile_id t \<in> set reach) (jvals (gm_tiles m))))"
proof -
  let ?g = "\<lambda>i. case tileById m i of None \<Rightarrow> 0 | Some t \<Rightarrow> f t"
  let ?ts = "filter (\<lambda>t. tile_id t \<in> set reach) (jvals (gm_tiles m))"
  have dk: "distinct (jkeys (gm_tiles m))" using wf by (simp add: wf_map_def)
  have "map tile_id (jvals (gm_tiles m)) = jkeys (gm_tiles m)" using wf by (auto simp: wf_map_def)
  then have di: "distinct (map tile_id ?ts)" using dk by (metis distinct_map_filter)
  have ids: "set (map tile_id ?ts) = {i \<in> set reach. tileById m i \<noteq> None}"
  proof (intro set_eqI iffI)
    fix i assume "i \<in> set (map tile_id ?ts)"
    then obtain t where "t \<in> set (jvals (gm_tiles m))" "i = tile_id t" "i \<in> set reach" by auto
    with tileById_mem [OF wf, of t] show "i \<in> {i \<in> set reach. tileById m i \<noteq> None}" by simp
  next
    fix i assume "i \<in> {i \<in> set reach. tileById m i \<noteq> None}"
    then obtain t where t: "tileById m i = Some t" "i \<in> set reach" by auto
    with tileById_wf [OF wf t(1)] tileById_mem [OF wf, of t] have "t \<in> set ?ts" "tile_id t = i" by simp_all
    then show "i \<in> set (map tile_id ?ts)" by (metis image_eqI list.set_map)
  qed
  have "sum_list (map ?g reach) = (\<Sum>i \<in> set reach. ?g i)" using d by (simp add: sum_list_distinct_conv_sum_set)
  also have "\<dots> = (\<Sum>i \<in> {i \<in> set reach. tileById m i \<noteq> None}. ?g i)" by (rule sum.mono_neutral_right) auto
  also have "\<dots> = sum_list (map ?g (map tile_id ?ts))" unfolding sum_list_distinct_conv_sum_set [OF di] ids ..
  also have "map ?g (map tile_id ?ts) = map f ?ts" 
    using tileById_mem [OF wf] by (simp add: comp_def)
  finally show ?thesis .
qed

lemma sum_twos: "(\<Sum>t \<leftarrow> xs. if P t then 2 else 0 :: int) = 2 * int (length (filter P xs))"
  by (induction xs) auto

text \<open>The amount of a resource a tile shows, and the bonus of a developed tile it does not show.\<close>

definition incomeOf :: "string \<Rightarrow> income_result \<Rightarrow> int" where
  "incomeOf r i = (if r = ''wood'' then in_wood i else if r = ''food'' then in_food i else if r = ''iron'' then in_iron i
     else if r = ''gold'' then in_gold i else 0)"

definition yieldOf :: "string \<Rightarrow> tile_income \<Rightarrow> int" where
  "yieldOf r inc = (if r = ''gold'' then ti_gold inc else if ti_resource inc = Some r then ti_resourceAmount inc else 0)"

definition shownYield :: "string \<Rightarrow> ktile_view \<Rightarrow> int" where
  "shownYield r tv = (case kt_incomePreview tv of None \<Rightarrow> 0 | Some inc \<Rightarrow> yieldOf r inc)"

lemma incomeOf_add:
  "r \<in> {''wood'', ''food'', ''iron'', ''gold''} \<Longrightarrow> incomeOf r (addResource x n a) = incomeOf r a + (if x = r \<and> r \<noteq> ''gold'' then n else 0)"
  by (auto simp: incomeOf_def addResource_def)

lemma incomeOf_gold: "incomeOf r (a\<lparr>in_gold := in_gold a + n\<rparr>) = incomeOf r a + (if r = ''gold'' then n else 0)"
  by (simp add: incomeOf_def)

lemma ti_resource_Some: "ti_resource (calculateTileIncome t ks) = Some x \<Longrightarrow> x \<noteq> [] \<and> 0 < ti_resourceAmount (calculateTileIncome t ks)"
  by (auto simp: calculateTileIncome_def Let_def split: prod.splits if_splits option.splits)

lemma income_step_of:
  assumes r: "r \<in> {''wood'', ''food'', ''iron'', ''gold''}"
  shows "incomeOf r (income_step m ss (getDeveloped s) i acc) = incomeOf r acc +
    (case tileById m i of None \<Rightarrow> 0 | Some t \<Rightarrow> yieldOf r (calculateTileIncome t (case_option [] id (jget ss i))) +
       (if i \<in> set (getDeveloped s) \<and> effectiveResource t = Some r \<and> r \<noteq> ''gold'' then 2 else 0))"
proof (cases "tileById m i")
  case (Some t)
  define inc where "inc = calculateTileIncome t (case_option [] id (jget ss i))"
  define r1 where "r1 = acc\<lparr>in_gold := in_gold acc + ti_gold inc\<rparr>"
  define r2 where "r2 = (case ti_resource inc of None \<Rightarrow> r1
     | Some res \<Rightarrow> if res \<noteq> [] \<and> ti_resourceAmount inc > 0 then addResource res (ti_resourceAmount inc) r1 else r1)"
  have ne: "r \<noteq> []" using r by auto
  have s1: "incomeOf r r1 = incomeOf r acc + (if r = ''gold'' then ti_gold inc else 0)"
    unfolding r1_def by (rule incomeOf_gold)
  have s2: "incomeOf r r2 = incomeOf r r1 + (if r \<noteq> ''gold'' \<and> ti_resource inc = Some r then ti_resourceAmount inc else 0)"
  proof (cases "ti_resource inc")
    case (Some x)
    with ti_resource_Some [of t _ x] have "x \<noteq> []" "0 < ti_resourceAmount inc" by (simp_all add: inc_def)
    with Some show ?thesis by (simp add: r2_def incomeOf_add [OF r])
  qed (simp add: r2_def)
  have s3: "incomeOf r (case effectiveResource t of None \<Rightarrow> r2 | Some res \<Rightarrow> if res \<noteq> [] then addResource res BASE_RESOURCE_YIELD r2 else r2) =
     incomeOf r r2 + (if effectiveResource t = Some r \<and> r \<noteq> ''gold'' then 2 else 0)"
    using ne by (cases "effectiveResource t") (auto simp: incomeOf_add [OF r] BASE_RESOURCE_YIELD_def)
  have step: "income_step m ss (getDeveloped s) i acc = (if i \<in> set (getDeveloped s)
     then (case effectiveResource t of None \<Rightarrow> r2 | Some res \<Rightarrow> if res \<noteq> [] then addResource res BASE_RESOURCE_YIELD r2 else r2) else r2)"
    unfolding income_step_def Some option.case Let_def case_option_id r2_def r1_def inc_def ..
  show ?thesis unfolding step if_distrib [of "incomeOf r"] s3 s2 s1 Some
    by (simp add: yieldOf_def flip: inc_def)
qed (simp add: income_step_def)

lemma income_fold_of:
  assumes "r \<in> {''wood'', ''food'', ''iron'', ''gold''}"
  shows "incomeOf r (fold (income_step m ss (getDeveloped s)) reach acc) = incomeOf r acc + sum_list (map (\<lambda>i.
    case tileById m i of None \<Rightarrow> 0 | Some t \<Rightarrow> yieldOf r (calculateTileIncome t (case_option [] id (jget ss i))) +
       (if i \<in> set (getDeveloped s) \<and> effectiveResource t = Some r \<and> r \<noteq> ''gold'' then 2 else 0)) reach)"
  by (induction reach arbitrary: acc) (simp_all add: income_step_of [OF assms])

lemma connectedByPlayer_get:
  "jget (connectedByPlayer s ps) i = (if i \<in> pl_id ` set ps
     then Some (if isEliminated (gs_players s) i then [] else playerConnectedTiles (gs_map s) s i) else None)"
proof -
  have "jget (fold (\<lambda>p. jput (pl_id p) (f (pl_id p))) ps acc) i = (if i \<in> pl_id ` set ps then Some (f i) else jget acc i)" for f acc
    by (induction ps arbitrary: acc) auto
  from this [of "\<lambda>i. if isEliminated (gs_players s) i then [] else playerConnectedTiles (gs_map s) s i" "[]"]
  show ?thesis by (simp add: connectedByPlayer_def)
qed

text \<open>On the board of a state that satisfies the invariant, a tile shows the income of its owner's network.\<close>

lemma preview_shown:
  assumes ok': "kingdoms_ok s" and p: "p \<in> pl_id ` set ps" "\<not> isEliminated (gs_players s) p" "p \<noteq> []"
    and t: "t \<in> set (jvals (gm_tiles (gs_map s)))" "jget (getOwnership s) (tile_id t) = Some p"
  shows "shownYield r (viewTile s ps t) =
    (if tile_id t \<in> set (connectedTiles s p)
     then yieldOf r (calculateTileIncome t (case_option [] id (jget (buildStructureMap s []) (tile_id t)))) else 0)"
proof -
  have wf: "wf_map (gs_map s)" using ok' by (simp add: kingdoms_ok_def)
  have "truthy (Some p) = Some p" using p(3) by (simp add: truthy_def)
  then show ?thesis
    by (simp add: shownYield_def t(2) tileIncomePreview_def connectedByPlayer_get p(1,2) case_option_id
        structures_shown [OF tile_id_nonempty [OF wf t(1)]] connectedTiles_def)
qed

text \<open> C27: The income a player is shown, in gold or in a resource, is the sum of what the tiles of the player show
  and two more units for every connected developed tile of that resource: the preview of a tile leaves the bonus
  of its development out, the preview of its owner and the round-end batch count it. \<close>
theorem view_income_preview:
  assumes ok': "kingdoms_ok s" and p: "p \<in> set ps" "\<not> isEliminated (gs_players s) (pl_id p)" "pl_id p \<noteq> []"
    and r: "r \<in> {''wood'', ''food'', ''iron'', ''gold''}"
  shows "incomeOf r (kp_incomePreview (viewPlayer s ps p)) =
    (\<Sum>tv \<leftarrow> filter (\<lambda>tv. kt_owner tv = Some (pl_id p)) (kv_tiles (buildKingdomsView s ps vic)). shownYield r tv) +
    2 * int (length (filter (\<lambda>t. tile_id t \<in> set (connectedTiles s (pl_id p)) \<and> tile_id t \<in> set (getDeveloped s) \<and>
        effectiveResource t = Some r \<and> r \<noteq> ''gold'') (jvals (gm_tiles (gs_map s)))))"
proof -
  let ?m = "gs_map s" and ?i = "pl_id p" and ?ts = "jvals (gm_tiles (gs_map s))" and ?reach = "connectedTiles s (pl_id p)"
  let ?y = "\<lambda>t. yieldOf r (calculateTileIncome t (case_option [] id (jget (buildStructureMap s []) (tile_id t))))"
  let ?d = "\<lambda>t. if tile_id t \<in> set (getDeveloped s) \<and> effectiveResource t = Some r \<and> r \<noteq> ''gold'' then 2 else 0 :: int"
  have wf: "wf_map ?m" and own: "distinct (jkeys (getOwnership s))" and mort: "getMortgagedCityIds s = []"
    using ok' by (auto simp: kingdoms_ok_def territory_ok_def getMortgagedCityIds_def)
  have d: "distinct ?reach" by (simp add: connectedTiles_def playerConnectedTiles_def distinct_getConnectedTiles split: option.split)
  have inc: "computeIncome s ?i = fold (income_step ?m (buildStructureMap s []) (getDeveloped s)) ?reach zeroIncome"
    by (auto simp: computeIncome_def Let_def mort connectedTiles_def playerConnectedTiles_def split: option.split)
  have tile: "(case tileById ?m i of None \<Rightarrow> 0 | Some t \<Rightarrow> yieldOf r (calculateTileIncome t (case_option [] id (jget (buildStructureMap s []) i))) +
       (if i \<in> set (getDeveloped s) \<and> effectiveResource t = Some r \<and> r \<noteq> ''gold'' then 2 else 0)) =
     (case tileById ?m i of None \<Rightarrow> 0 | Some t \<Rightarrow> ?y t + ?d t)" for i
    using tileById_wf [OF wf, of i] by (simp split: option.split)
  have "incomeOf r (kp_incomePreview (viewPlayer s ps p)) = incomeOf r (computeIncome s ?i)"
    using p(2) by (simp add: viewPlayer_def Let_def)
  also have "\<dots> = sum_list (map (\<lambda>i. case tileById ?m i of None \<Rightarrow> 0 | Some t \<Rightarrow> ?y t + ?d t) ?reach)"
    unfolding inc income_fold_of [OF r] tile by (simp add: incomeOf_def zeroIncome_def)
  also have "\<dots> = sum_list (map (\<lambda>t. ?y t + ?d t) (filter (\<lambda>t. tile_id t \<in> set ?reach) ?ts))" by (rule sum_connected [OF wf d])
  also have "\<dots> = sum_list (map ?y (filter (\<lambda>t. tile_id t \<in> set ?reach) ?ts)) + sum_list (map ?d (filter (\<lambda>t. tile_id t \<in> set ?reach) ?ts))"
    by (rule sum_list_addf)
  also have "sum_list (map ?d (filter (\<lambda>t. tile_id t \<in> set ?reach) ?ts)) = 2 * int (length (filter (\<lambda>t. tile_id t \<in> set ?reach \<and>
      tile_id t \<in> set (getDeveloped s) \<and> effectiveResource t = Some r \<and> r \<noteq> ''gold'') ?ts))"
    unfolding sum_twos filter_filter by simp
  also have "sum_list (map ?y (filter (\<lambda>t. tile_id t \<in> set ?reach) ?ts)) =
      (\<Sum>tv \<leftarrow> filter (\<lambda>tv. kt_owner tv = Some ?i) (kv_tiles (buildKingdomsView s ps vic)). shownYield r tv)"
  proof -
    have tiles: "kv_tiles (buildKingdomsView s ps vic) = map (viewTile s ps) ?ts" by (simp add: buildKingdomsView_def)
    have mem: "?i \<in> pl_id ` set ps" using p(1) by simp
    have "sum_list (map ?y (filter (\<lambda>t. tile_id t \<in> set ?reach) xs)) =
        sum_list (map (\<lambda>t. shownYield r (viewTile s ps t)) (filter (\<lambda>t. jget (getOwnership s) (tile_id t) = Some ?i) xs))"
      if "set xs \<subseteq> set ?ts" for xs
      using that
    proof (induction xs)
      case (Cons t xs)
      then have t: "t \<in> set ?ts" by simp
      show ?case
      proof (cases "jget (getOwnership s) (tile_id t) = Some ?i")
        case True
        with Cons preview_shown [OF ok' mem p(2,3) t True] show ?thesis by simp
      next
        case False
        then have "tile_id t \<notin> set ?reach" using connectedTiles_owned [OF own] by blast
        with False Cons show ?thesis by simp
      qed
    qed simp
    from this [OF subset_refl] show ?thesis unfolding tiles by (simp add: filter_map comp_def)
  qed
  finally show ?thesis .
qed

lemma view_pieces_exact_witness:
  "map kt_pieces (kv_tiles (buildKingdomsView exState exRoster None)) =
     map (\<lambda>t. [viewPiece p. (i, p) \<leftarrow> exPieces, pc_location p = OnTile (tile_id t)]) (jvals (gm_tiles exMap))"
proof -
  have wf: "wf_map (gs_map exState)" using exState_ok by (simp add: kingdoms_ok_def)
  from arg_cong [OF view_pieces_exact [OF wf, of exRoster None], of "map snd"] show ?thesis by (simp add: comp_def)
qed

lemma view_income_preview_witness:
  "incomeOf ''gold'' (kp_incomePreview (viewPlayer exState exRoster (exPlayer ''alice'' 0))) =
     (\<Sum>tv \<leftarrow> filter (\<lambda>tv. kt_owner tv = Some ''alice'') (kv_tiles (buildKingdomsView exState exRoster None)). shownYield ''gold'' tv)"
proof -
  have "exPlayer ''alice'' 0 \<in> set exRoster" by (simp add: exRoster_def)
  moreover have "\<not> isEliminated (gs_players exState) (pl_id (exPlayer ''alice'' 0))"
    by (simp add: exRoster_def exPlayer_def isEliminated_def newPlayerManager_def pm_get_def)
  ultimately show ?thesis
    using view_income_preview [OF exState_ok, of "exPlayer ''alice'' 0" exRoster "''gold''" None] by (simp add: exPlayer_def)
qed

end
