(* ===== verification/Lobby.thy ===== *)
theory Lobby
  imports Prelude Bus
begin

text \<open>
  The lobby, \<open>apps/lobby-service/src/lobby\<close>: a room (\<open>room.entity.ts\<close>) and the service that keeps
  the rooms (\<open>lobby.service.ts\<close>). What it publishes on the bus is part of its state. The clock and
  the identifiers \<open>randomUUID\<close> returns are arguments; a date is its number of milliseconds.
\<close>

section \<open>A room (room.entity.ts)\<close>

datatype room_status = RoomOpen | RoomStarting | RoomInGame | RoomIsClosed

record room_member =
  me_userId :: string
  me_displayName :: string
  me_ready :: bool

record room =
  ro_roomId :: string
  ro_name :: string
  ro_scenarioId :: string
  ro_hostId :: string
  ro_maxPlayers :: int
  ro_createdAt :: int
  ro_status :: room_status
  ro_gameId :: "string option"
  ro_members :: "(string, room_member) jsmap"

definition newRoom :: "string \<Rightarrow> string \<Rightarrow> string \<Rightarrow> string \<Rightarrow> int \<Rightarrow> int \<Rightarrow> room" where
  "newRoom roomId name scenarioId hostId maxPlayers now =
     \<lparr>ro_roomId = roomId, ro_name = name, ro_scenarioId = scenarioId, ro_hostId = hostId, ro_maxPlayers = maxPlayers,
      ro_createdAt = now, ro_status = RoomOpen, ro_gameId = None, ro_members = []\<rparr>"

definition playerCount :: "room \<Rightarrow> nat" where
  "playerCount r = length (ro_members r)"

definition isFull :: "room \<Rightarrow> bool" where
  "isFull r \<longleftrightarrow> int (playerCount r) \<ge> ro_maxPlayers r"

definition allReady :: "room \<Rightarrow> bool" where
  "allReady r \<longleftrightarrow> playerCount r > 1 \<and> list_all me_ready (jvals (ro_members r))"

definition addPlayer :: "string \<Rightarrow> string \<Rightarrow> room \<Rightarrow> room" where
  "addPlayer userId displayName r =
     (if jhas (ro_members r) userId then r
      else r\<lparr>ro_members := jput userId \<lparr>me_userId = userId, me_displayName = displayName, me_ready = False\<rparr> (ro_members r)\<rparr>)"

definition removePlayer :: "string \<Rightarrow> room \<Rightarrow> room" where
  "removePlayer userId r = r\<lparr>ro_members := jdel userId (ro_members r)\<rparr>"

definition roomSetReady :: "string \<Rightarrow> bool \<Rightarrow> room \<Rightarrow> exn + room" where
  "roomSetReady userId ready r =
     (case jget (ro_members r) userId of
        None \<Rightarrow> Inl (UnknownPlayer userId)
      | Some m \<Rightarrow> Inr (r\<lparr>ro_members := jput userId (m\<lparr>me_ready := ready\<rparr>) (ro_members r)\<rparr>))"

definition markStarting :: "string \<Rightarrow> room \<Rightarrow> room" where
  "markStarting gameId r = r\<lparr>ro_status := RoomStarting, ro_gameId := Some gameId\<rparr>"

definition roomPlayers :: "room \<Rightarrow> (string \<times> string) list" where
  "roomPlayers r = map (\<lambda>m. (me_userId m, me_displayName m)) (jvals (ro_members r))"

record room_summary =
  rs_roomId :: string
  rs_name :: string
  rs_scenarioId :: string
  rs_hostId :: string
  rs_status :: room_status
  rs_playerCount :: nat
  rs_maxPlayers :: int
  rs_createdAt :: int

record room_detail =
  rd_summary :: room_summary
  rd_players :: "(string \<times> string \<times> bool) list"
  rd_gameId :: "string option"

definition toSummary :: "room \<Rightarrow> room_summary" where
  "toSummary r =
     \<lparr>rs_roomId = ro_roomId r, rs_name = ro_name r, rs_scenarioId = ro_scenarioId r, rs_hostId = ro_hostId r,
      rs_status = ro_status r, rs_playerCount = playerCount r, rs_maxPlayers = ro_maxPlayers r, rs_createdAt = ro_createdAt r\<rparr>"

definition toDetail :: "room \<Rightarrow> room_detail" where
  "toDetail r =
     \<lparr>rd_summary = toSummary r,
      rd_players = map (\<lambda>m. (me_userId m, me_displayName m, me_ready m)) (jvals (ro_members r)),
      rd_gameId = truthy (ro_gameId r)\<rparr>"

section \<open>The service (lobby.service.ts)\<close>

definition ROOM_TTL_MS :: int where "ROOM_TTL_MS = 30 * 60 * 1000"
definition SOLO_ROOM_TTL_MS :: int where "SOLO_ROOM_TTL_MS = 3 * 60 * 1000"

record lobby =
  lb_rooms :: "(string, room) jsmap"
  lb_published :: "lobby_event list"

definition emptyLobby :: lobby where
  "emptyLobby = \<lparr>lb_rooms = [], lb_published = []\<rparr>"

definition lobbyPublish :: "lobby_event \<Rightarrow> lobby \<Rightarrow> lobby" where
  "lobbyPublish e lb = lb\<lparr>lb_published := lb_published lb @ [e]\<rparr>"

text \<open>Rooms are objects: a method called on one changes the entry of the map.\<close>

definition putRoom :: "room \<Rightarrow> string \<Rightarrow> lobby \<Rightarrow> lobby" where
  "putRoom r roomId lb = lb\<lparr>lb_rooms := jput roomId r (lb_rooms lb)\<rparr>"

definition dropRoom :: "string \<Rightarrow> lobby \<Rightarrow> lobby" where
  "dropRoom roomId lb = lb\<lparr>lb_rooms := jdel roomId (lb_rooms lb)\<rparr>"

definition listRooms :: "lobby \<Rightarrow> room_summary list" where
  "listRooms lb = map toSummary (jvals (lb_rooms lb))"

definition getRoom :: "string \<Rightarrow> lobby \<Rightarrow> exn + room_detail" where
  "getRoom roomId lb =
     (case jget (lb_rooms lb) roomId of None \<Rightarrow> Inl (NotFound ''Room not found'') | Some r \<Rightarrow> Inr (toDetail r))"

record create_room =
  crm_name :: string
  crm_scenarioId :: string
  crm_maxPlayers :: int

definition createRoom :: "string \<Rightarrow> int \<Rightarrow> string \<Rightarrow> string \<Rightarrow> create_room \<Rightarrow> (lobby, room_detail) effect" where
  "createRoom uuid now userId displayName req lb =
     (let r = addPlayer userId displayName (newRoom uuid (crm_name req) (crm_scenarioId req) userId (crm_maxPlayers req) now)
      in (Inr (toDetail r), lobbyPublish (RoomCreated (ro_roomId r) userId now) (putRoom r (ro_roomId r) lb)))"

definition joinRoom :: "int \<Rightarrow> string \<Rightarrow> string \<Rightarrow> string \<Rightarrow> (lobby, room_detail) effect" where
  "joinRoom now userId displayName roomId lb =
     (case jget (lb_rooms lb) roomId of
        None \<Rightarrow> (Inl (NotFound ''Room not found''), lb)
      | Some r \<Rightarrow>
          if ro_status r \<noteq> RoomOpen then (Inl (Forbidden ''Room is no longer accepting players''), lb)
          else if isFull r then (Inl (Forbidden ''Room is full''), lb)
          else let r' = addPlayer userId displayName r
               in (Inr (toDetail r'), lobbyPublish (PlayerJoined roomId userId now) (putRoom r' roomId lb)))"

definition setReady :: "int \<Rightarrow> string \<Rightarrow> string \<Rightarrow> bool \<Rightarrow> (lobby, room_detail) effect" where
  "setReady now userId roomId ready lb =
     (case jget (lb_rooms lb) roomId of
        None \<Rightarrow> (Inl (NotFound ''Room not found''), lb)
      | Some r \<Rightarrow>
          (case roomSetReady userId ready r of
             Inl e \<Rightarrow> (Inl e, lb)
           | Inr r' \<Rightarrow> (Inr (toDetail r'), lobbyPublish (PlayerReady roomId userId ready now) (putRoom r' roomId lb))))"

definition startGame :: "string \<Rightarrow> int \<Rightarrow> string \<Rightarrow> string \<Rightarrow> (lobby, room_detail) effect" where
  "startGame uuid now userId roomId lb =
     (case jget (lb_rooms lb) roomId of
        None \<Rightarrow> (Inl (NotFound ''Room not found''), lb)
      | Some r \<Rightarrow>
          if ro_hostId r \<noteq> userId then (Inl (Forbidden ''Only the host can start the game''), lb)
          else if playerCount r < 2 then (Inl (Forbidden ''Need at least 2 players to start''), lb)
          else if \<not> allReady r then (Inl (Forbidden ''All players must be ready before starting''), lb)
          else let r' = markStarting uuid r
               in (Inr (toDetail r'),
                   lobbyPublish (GameStarting roomId uuid (ro_scenarioId r') (roomPlayers r') now) (putRoom r' roomId lb)))"

definition leaveRoom :: "int \<Rightarrow> string \<Rightarrow> string \<Rightarrow> (lobby, unit) effect" where
  "leaveRoom now userId roomId lb =
     (case jget (lb_rooms lb) roomId of
        None \<Rightarrow> (Inl (NotFound ''Room not found''), lb)
      | Some r \<Rightarrow>
          if ro_hostId r = userId then (Inl (Forbidden ''Host cannot leave - close the room instead''), lb)
          else let r' = removePlayer userId r;
                   lb1 = lobbyPublish (PlayerLeft roomId userId now) (putRoom r' roomId lb)
               in if playerCount r' \<le> 1
                  then (Inr (), lobbyPublish (RoomClosed roomId ''host-closed'' now) (dropRoom roomId lb1))
                  else (Inr (), lb1))"

definition closeRoom :: "int \<Rightarrow> string \<Rightarrow> string \<Rightarrow> (lobby, unit) effect" where
  "closeRoom now userId roomId lb =
     (case jget (lb_rooms lb) roomId of
        None \<Rightarrow> (Inl (NotFound ''Room not found''), lb)
      | Some r \<Rightarrow>
          if ro_hostId r \<noteq> userId then (Inl (Forbidden ''Only the host can close the room''), lb)
          else (Inr (), lobbyPublish (RoomClosed roomId ''host-closed'' now) (dropRoom roomId lb)))"

definition roomExpired :: "int \<Rightarrow> room \<Rightarrow> bool" where
  "roomExpired now r \<longleftrightarrow> ro_status r = RoomOpen \<and>
     (if playerCount r \<le> 1 then ro_createdAt r < now - SOLO_ROOM_TTL_MS else ro_createdAt r < now - ROOM_TTL_MS)"

definition purgeStep :: "int \<Rightarrow> string \<times> room \<Rightarrow> lobby \<Rightarrow> lobby" where
  "purgeStep now ir lb =
     (case ir of (i, r) \<Rightarrow>
        if roomExpired now r then lobbyPublish (RoomClosed i ''ttl-expired'' now) (dropRoom i lb) else lb)"

definition purgeAbandonedRooms :: "int \<Rightarrow> lobby \<Rightarrow> lobby" where
  "purgeAbandonedRooms now lb = fold (purgeStep now) (lb_rooms lb) lb"

section \<open>Requests\<close>

text \<open>The REST surface (lobby.controller.ts) and the timer. \<open>randomUUID\<close> never repeats an identifier.\<close>

datatype lobby_request =
    CreateRoom string string create_room
  | JoinRoom string string string
  | SetReady string string bool
  | StartGame string string
  | LeaveRoom string string
  | CloseRoom string string
  | PurgeTimer

definition handleRequest :: "string \<Rightarrow> int \<Rightarrow> lobby_request \<Rightarrow> lobby \<Rightarrow> lobby" where
  "handleRequest uuid now req lb =
     (case req of
        CreateRoom userId displayName body \<Rightarrow> snd (createRoom uuid now userId displayName body lb)
      | JoinRoom userId displayName roomId \<Rightarrow> snd (joinRoom now userId displayName roomId lb)
      | SetReady userId roomId ready \<Rightarrow> snd (setReady now userId roomId ready lb)
      | StartGame userId roomId \<Rightarrow> snd (startGame uuid now userId roomId lb)
      | LeaveRoom userId roomId \<Rightarrow> snd (leaveRoom now userId roomId lb)
      | CloseRoom userId roomId \<Rightarrow> snd (closeRoom now userId roomId lb)
      | PurgeTimer \<Rightarrow> purgeAbandonedRooms now lb)"

inductive lobby_reachable :: "lobby \<Rightarrow> bool" where
  start: "lobby_reachable emptyLobby"
| request: "lobby_reachable lb \<Longrightarrow> jget (lb_rooms lb) uuid = None \<Longrightarrow> lobby_reachable (handleRequest uuid now req lb)"

section \<open>The invariant\<close>

definition room_ok :: "string \<Rightarrow> room \<Rightarrow> bool" where
  "room_ok i r \<longleftrightarrow> ro_roomId r = i \<and> distinct (jkeys (ro_members r)) \<and>
     (\<forall>u m. jget (ro_members r) u = Some m \<longrightarrow> me_userId m = u) \<and>
     jhas (ro_members r) (ro_hostId r) \<and> int (playerCount r) \<le> max 1 (ro_maxPlayers r) \<and>
     (ro_status r = RoomOpen \<and> ro_gameId r = None \<or> ro_status r = RoomStarting \<and> ro_gameId r \<noteq> None)"

definition lobby_ok :: "lobby \<Rightarrow> bool" where
  "lobby_ok lb \<longleftrightarrow> distinct (jkeys (lb_rooms lb)) \<and> (\<forall>i r. jget (lb_rooms lb) i = Some r \<longrightarrow> room_ok i r)"

lemma lobby_ok_frame [simp]: "lobby_ok (lobbyPublish e lb) = lobby_ok lb"
  by (simp add: lobby_ok_def lobbyPublish_def)

lemma lobby_ok_put: "lobby_ok lb \<Longrightarrow> room_ok i r \<Longrightarrow> lobby_ok (putRoom r i lb)"
  by (auto simp: lobby_ok_def putRoom_def split: if_splits)

lemma lobby_ok_drop: "lobby_ok lb \<Longrightarrow> lobby_ok (dropRoom i lb)"
  by (auto simp: lobby_ok_def dropRoom_def split: if_splits)

lemma room_ok_new: "room_ok i (addPlayer u n (newRoom i nm sc u mx now))"
  by (simp add: room_ok_def addPlayer_def newRoom_def jhas_def playerCount_def)

lemma length_jput_old: "jget ms k = Some v \<Longrightarrow> length (jput k w ms) = length ms"
  by (induction ms) (auto split: if_splits)

lemma room_okI:
  assumes "ro_roomId r = i" "distinct (jkeys (ro_members r))" "\<And>u m. jget (ro_members r) u = Some m \<Longrightarrow> me_userId m = u"
    "jhas (ro_members r) (ro_hostId r)" "int (playerCount r) \<le> max 1 (ro_maxPlayers r)"
    "ro_status r = RoomOpen \<and> ro_gameId r = None \<or> ro_status r = RoomStarting \<and> ro_gameId r \<noteq> None"
  shows "room_ok i r"
  using assms unfolding room_ok_def by blast

lemma room_okD:
  assumes "room_ok i r"
  shows "ro_roomId r = i" "distinct (jkeys (ro_members r))" "jget (ro_members r) u = Some m \<Longrightarrow> me_userId m = u"
    "jhas (ro_members r) (ro_hostId r)" "int (playerCount r) \<le> max 1 (ro_maxPlayers r)"
    "ro_status r = RoomOpen \<and> ro_gameId r = None \<or> ro_status r = RoomStarting \<and> ro_gameId r \<noteq> None"
  using assms unfolding room_ok_def by blast+

lemma room_ok_put:
  assumes ok': "room_ok i r" and size: "int (length (jput u m (ro_members r))) \<le> max 1 (ro_maxPlayers r)" and u: "me_userId m = u"
  shows "room_ok i (r\<lparr>ro_members := jput u m (ro_members r)\<rparr>)"
proof (rule room_okI)
  show "me_userId m' = u'" if "jget (ro_members (r\<lparr>ro_members := jput u m (ro_members r)\<rparr>)) u' = Some m'" for u' m'
    using that u room_okD(3) [OF ok'] by (cases "u' = u") simp_all
  show "jhas (ro_members (r\<lparr>ro_members := jput u m (ro_members r)\<rparr>)) (ro_hostId (r\<lparr>ro_members := jput u m (ro_members r)\<rparr>))"
    using room_okD(4) [OF ok'] by (simp add: jhas_def)
  show "distinct (jkeys (ro_members (r\<lparr>ro_members := jput u m (ro_members r)\<rparr>)))"
    using distinct_jput [OF room_okD(2) [OF ok']] by simp
qed (use room_okD(1,6) [OF ok'] size in \<open>simp_all add: playerCount_def\<close>)

lemma room_ok_add:
  assumes ok': "room_ok i r" and free: "\<not> isFull r"
  shows "room_ok i (addPlayer u n r)"
proof (cases "jhas (ro_members r) u")
  case False
  have "int (length (jput u m (ro_members r))) \<le> max 1 (ro_maxPlayers r)" for m
    using length_jput_le [of u m "ro_members r"] free by (simp add: isFull_def playerCount_def)
  with False room_ok_put [OF ok'] show ?thesis by (simp add: addPlayer_def)
qed (use ok' in \<open>simp add: addPlayer_def\<close>)

lemma room_ok_ready: "room_ok i r \<Longrightarrow> roomSetReady u b r = Inr r' \<Longrightarrow> room_ok i r'"
proof -
  assume ok': "room_ok i r" and set': "roomSetReady u b r = Inr r'"
  from set' obtain m where m: "jget (ro_members r) u = Some m"
    by (simp add: roomSetReady_def split: option.splits)
  with set' have r': "r' = r\<lparr>ro_members := jput u (m\<lparr>me_ready := b\<rparr>) (ro_members r)\<rparr>" by (simp add: roomSetReady_def)
  show "room_ok i r'" unfolding r'
    by (rule room_ok_put [OF ok']) (use room_okD(3,5) [OF ok'] m in \<open>simp_all add: length_jput_old playerCount_def\<close>)
qed

lemma room_ok_start: "room_ok i r \<Longrightarrow> room_ok i (markStarting g r)"
  by (simp add: room_ok_def markStarting_def playerCount_def)

lemma length_jdel_le: "length (jdel k m) \<le> length m"
  by (simp add: AList.delete_eq)

lemma room_ok_remove:
  assumes ok': "room_ok i r" and u: "u \<noteq> ro_hostId r"
  shows "room_ok i (removePlayer u r)"
proof (rule room_okI)
  show "me_userId m = u'" if "jget (ro_members (removePlayer u r)) u' = Some m" for u' m
    using that room_okD(3) [OF ok'] by (cases "u' = u") (simp_all add: removePlayer_def)
  show "int (playerCount (removePlayer u r)) \<le> max 1 (ro_maxPlayers (removePlayer u r))"
    using length_jdel_le [of u "ro_members r"] room_okD(5) [OF ok'] by (simp add: removePlayer_def playerCount_def)
  show "distinct (jkeys (ro_members (removePlayer u r)))"
    using distinct_jdel [OF room_okD(2) [OF ok']] by (simp add: removePlayer_def)
qed (use room_okD(1,4,6) [OF ok'] u in \<open>simp_all add: removePlayer_def jhas_def\<close>)

lemma purge_ok: "lobby_ok lb \<Longrightarrow> lobby_ok (fold (purgeStep now) rs lb)"
  by (induction rs arbitrary: lb) (auto simp: purgeStep_def lobby_ok_drop)

lemma lobby_okD: "lobby_ok lb \<Longrightarrow> jget (lb_rooms lb) i = Some r \<Longrightarrow> room_ok i r"
  by (simp add: lobby_ok_def)

lemma handleRequest_ok:
  assumes ok': "lobby_ok lb"
  shows "lobby_ok (handleRequest uuid now req lb)"
proof (cases req)
  case (CreateRoom u n body)
  then show ?thesis using lobby_ok_put [OF ok' room_ok_new]
    by (simp add: handleRequest_def createRoom_def Let_def) (simp add: addPlayer_def newRoom_def jhas_def)
next
  case (JoinRoom u n i)
  then show ?thesis using ok' by (auto simp: handleRequest_def joinRoom_def Let_def lobby_ok_put lobby_okD room_ok_add split: option.split)
next
  case (SetReady u i b)
  then show ?thesis using ok'
    by (auto simp: handleRequest_def setReady_def intro!: lobby_ok_put dest: lobby_okD room_ok_ready split: option.split sum.split)
next
  case (StartGame u i)
  then show ?thesis using ok' by (auto simp: handleRequest_def startGame_def Let_def lobby_ok_put lobby_okD room_ok_start split: option.split)
next
  case (LeaveRoom u i)
  then show ?thesis using ok'
    by (auto simp: handleRequest_def leaveRoom_def Let_def lobby_ok_drop lobby_okD room_ok_remove intro!: lobby_ok_put lobby_ok_drop split: option.split)
next
  case (CloseRoom u i)
  then show ?thesis using ok' by (auto simp: handleRequest_def closeRoom_def lobby_ok_drop split: option.split)
next
  case PurgeTimer
  then show ?thesis using ok' by (simp add: handleRequest_def purgeAbandonedRooms_def purge_ok)
qed

lemma reachable_ok: "lobby_reachable lb \<Longrightarrow> lobby_ok lb"
proof (induction rule: lobby_reachable.induct)
  case start
  then show ?case by (simp add: lobby_ok_def emptyLobby_def)
qed (rule handleRequest_ok)

text \<open> C24: In every state the lobby can reach, each listed room has its host among its members, holds at least
  one player and never more than its limit (a limit below one admits the host alone), is stored under its own
  identifier, and carries the identifier of a game exactly when it has been started. \<close>
theorem lobby_rooms_wellformed:
  assumes "lobby_reachable lb" "jget (lb_rooms lb) i = Some r"
  shows "ro_roomId r = i \<and> ro_hostId r \<in> set (jkeys (ro_members r)) \<and> 1 \<le> playerCount r \<and>
    int (playerCount r) \<le> max 1 (ro_maxPlayers r) \<and> map fst (roomPlayers r) = jkeys (ro_members r) \<and>
    distinct (map fst (roomPlayers r)) \<and> ro_status r \<in> {RoomOpen, RoomStarting} \<and> (ro_status r = RoomStarting \<longleftrightarrow> ro_gameId r \<noteq> None)"
proof -
  note ok' = room_okD [OF lobby_okD [OF reachable_ok [OF assms(1)] assms(2)]]
  have host: "ro_hostId r \<in> set (jkeys (ro_members r))" using ok'(4) by (simp only: jhas_iff)
  then have "ro_members r \<noteq> []" by auto
  then have count: "1 \<le> playerCount r" by (simp add: playerCount_def Suc_leI)
  have ids: "map fst (roomPlayers r) = jkeys (ro_members r)"
    using ok'(2,3) by (simp add: roomPlayers_def)
  then have "distinct (map fst (roomPlayers r))" using ok'(2) by (simp only:)
  with ids host count ok'(1,5,6) show ?thesis by auto
qed

definition exampleRequests :: "(string \<times> int \<times> lobby_request) list" where
  "exampleRequests =
     [(''r1'', 0, CreateRoom ''ann'' ''Ann'' \<lparr>crm_name = ''table'', crm_scenarioId = ''demo-v1'', crm_maxPlayers = 2\<rparr>),
      (''r2'', 1, JoinRoom ''bob'' ''Bob'' ''r1''), (''r3'', 2, SetReady ''ann'' ''r1'' True), (''r4'', 3, SetReady ''bob'' ''r1'' True)]"

definition runRequests :: "(string \<times> int \<times> lobby_request) list \<Rightarrow> lobby \<Rightarrow> lobby" where
  "runRequests rs lb = fold (\<lambda>(uuid, now, req). handleRequest uuid now req) rs lb"

definition exampleLobby :: lobby where
  "exampleLobby = runRequests exampleRequests emptyLobby"

lemma reachable_run:
  assumes "lobby_reachable lb" "list_all (\<lambda>n. jget (lb_rooms (runRequests (take n rs) lb)) (fst (rs ! n)) = None) [0..<length rs]"
  shows "lobby_reachable (runRequests rs lb)"
  using assms(2)
proof (induction rs rule: rev_induct)
  case Nil
  show ?case using assms(1) by (simp add: runRequests_def)
next
  case (snoc x rs)
  from snoc.prems have fresh: "jget (lb_rooms (runRequests rs lb)) (fst x) = None" by (simp add: list_all_iff)
  from snoc.prems have "list_all (\<lambda>n. jget (lb_rooms (runRequests (take n rs) lb)) (fst (rs ! n)) = None) [0..<length rs]"
    by (simp add: list_all_iff nth_append)
  from lobby_reachable.request [OF snoc.IH [OF this] fresh, of "fst (snd x)" "snd (snd x)"] show ?case
    by (simp add: runRequests_def split_beta)
qed

lemma example_reachable: "lobby_reachable exampleLobby"
  unfolding exampleLobby_def by (rule reachable_run [OF lobby_reachable.start]) code_simp

definition exampleRoom :: room where
  "exampleRoom = \<lparr>ro_roomId = ''r1'', ro_name = ''table'', ro_scenarioId = ''demo-v1'', ro_hostId = ''ann'', ro_maxPlayers = 2,
     ro_createdAt = 0, ro_status = RoomOpen, ro_gameId = None,
     ro_members = [(''ann'', \<lparr>me_userId = ''ann'', me_displayName = ''Ann'', me_ready = True\<rparr>),
                   (''bob'', \<lparr>me_userId = ''bob'', me_displayName = ''Bob'', me_ready = True\<rparr>)]\<rparr>"

lemma example_rooms: "lb_rooms exampleLobby = [(''r1'', exampleRoom)]"
  by code_simp

lemma lobby_rooms_wellformed_witness: "''ann'' \<in> set (jkeys (ro_members exampleRoom)) \<and> int (playerCount exampleRoom) \<le> max 1 2"
  using lobby_rooms_wellformed [OF example_reachable, of "''r1''" exampleRoom] by (simp add: example_rooms) (simp add: exampleRoom_def)

section \<open>What the published events tell\<close>

text \<open>
  A reader of the bus who knows nothing but the events can keep the list of the rooms with their
  members and who of them is ready: this is its step.
\<close>

type_synonym roster_view = "string \<Rightarrow> (string \<Rightarrow> bool option) option"

definition replayEvent :: "lobby_event \<Rightarrow> roster_view \<Rightarrow> roster_view" where
  "replayEvent e v =
     (case e of
        RoomCreated i host at' \<Rightarrow> v(i \<mapsto> [host \<mapsto> False])
      | RoomUpdated i at' \<Rightarrow> v
      | RoomClosed i reason at' \<Rightarrow> v(i := None)
      | PlayerJoined i u at' \<Rightarrow> v(i := map_option (\<lambda>r. if r u = None then r(u \<mapsto> False) else r) (v i))
      | PlayerLeft i u at' \<Rightarrow> v(i := map_option (\<lambda>r. r(u := None)) (v i))
      | PlayerReady i u b at' \<Rightarrow> v(i := map_option (\<lambda>r. r(u \<mapsto> b)) (v i))
      | GameStarting i g sc ps at' \<Rightarrow> v)"

definition rosterOf :: "room \<Rightarrow> string \<Rightarrow> bool option" where
  "rosterOf r u = map_option me_ready (jget (ro_members r) u)"

definition rosters :: "lobby \<Rightarrow> roster_view" where
  "rosters lb i = map_option rosterOf (jget (lb_rooms lb) i)"

definition replayed :: "lobby \<Rightarrow> bool" where
  "replayed lb \<longleftrightarrow> fold replayEvent (lb_published lb) Map.empty = rosters lb"

lemma replayed_publish:
  assumes "replayed lb" "replayEvent e (rosters lb) = rosters lb'" "lb_published lb' = lb_published lb"
  shows "replayed (lobbyPublish e lb')"
proof -
  have "rosters (lobbyPublish e lb') = rosters lb'" by (simp add: rosters_def lobbyPublish_def fun_eq_iff)
  with assms show ?thesis by (simp add: replayed_def) (simp add: lobbyPublish_def)
qed

lemma rosters_put [simp]: "rosters (putRoom r i lb) = (rosters lb)(i \<mapsto> rosterOf r)"
  by (simp add: rosters_def putRoom_def fun_eq_iff)

lemma rosters_drop [simp]: "rosters (dropRoom i lb) = (rosters lb)(i := None)"
  by (simp add: rosters_def dropRoom_def fun_eq_iff)

lemma rosters_publish [simp]: "rosters (lobbyPublish e lb) = rosters lb"
  by (simp add: rosters_def lobbyPublish_def fun_eq_iff)

lemma published_frame [simp]: "lb_published (putRoom r i lb) = lb_published lb" "lb_published (dropRoom i lb) = lb_published lb"
  by (simp_all add: putRoom_def dropRoom_def)

lemma rosters_get: "jget (lb_rooms lb) i = Some r \<Longrightarrow> rosters lb i = Some (rosterOf r)"
  by (simp add: rosters_def)

lemma rosterOf_add: "rosterOf (addPlayer u n r) = (if rosterOf r u = None then (rosterOf r)(u \<mapsto> False) else rosterOf r)"
  by (auto simp: rosterOf_def addPlayer_def jhas_def fun_eq_iff)

lemma rosterOf_remove: "rosterOf (removePlayer u r) = (rosterOf r)(u := None)"
  by (simp add: rosterOf_def removePlayer_def fun_eq_iff)

lemma rosterOf_ready: "roomSetReady u b r = Inr r' \<Longrightarrow> rosterOf r' = (rosterOf r)(u \<mapsto> b)"
  by (auto simp: roomSetReady_def rosterOf_def fun_eq_iff split: option.splits)

lemma rosterOf_start [simp]: "rosterOf (markStarting g r) = rosterOf r"
  by (simp add: rosterOf_def markStarting_def fun_eq_iff)

lemma replayed_drop: "replayed lb \<Longrightarrow> replayed (lobbyPublish (RoomClosed i reason now) (dropRoom i lb))"
  by (rule replayed_publish) (simp_all add: replayEvent_def)

lemma replayed_purge: "replayed lb \<Longrightarrow> replayed (fold (purgeStep now) rs lb)"
  by (induction rs arbitrary: lb) (auto simp: purgeStep_def replayed_drop)

lemma replayed_leave:
  assumes "replayed lb" "jget (lb_rooms lb) i = Some r"
  shows "replayed (lobbyPublish (PlayerLeft i u now) (putRoom (removePlayer u r) i lb))"
  by (rule replayed_publish [OF assms(1)]) (simp_all add: replayEvent_def rosterOf_remove rosters_get [OF assms(2)])

lemma replayed_request:
  assumes ok': "replayed lb"
  shows "replayed (handleRequest uuid now req lb)"
proof (cases req)
  case (CreateRoom u n body)
  let ?r = "newRoom uuid (crm_name body) (crm_scenarioId body) u (crm_maxPlayers body) now"
  have "rosterOf (addPlayer u n ?r) = [u \<mapsto> False]" by (simp add: rosterOf_def addPlayer_def newRoom_def jhas_def fun_eq_iff)
  moreover have "ro_roomId (addPlayer u n ?r) = uuid" by (simp add: addPlayer_def newRoom_def jhas_def)
  ultimately show ?thesis using CreateRoom
    by (simp add: handleRequest_def createRoom_def Let_def) (rule replayed_publish [OF ok'], simp_all add: replayEvent_def)
next
  case (JoinRoom u n i)
  have "replayed (lobbyPublish (PlayerJoined i u now) (putRoom (addPlayer u n r) i lb))" if "jget (lb_rooms lb) i = Some r" for r
    by (rule replayed_publish [OF ok']) (simp_all add: replayEvent_def rosterOf_add rosters_get [OF that])
  with JoinRoom ok' show ?thesis by (simp add: handleRequest_def joinRoom_def Let_def split: option.split)
next
  case (SetReady u i b)
  have "replayed (lobbyPublish (PlayerReady i u b now) (putRoom r' i lb))"
    if "jget (lb_rooms lb) i = Some r" "roomSetReady u b r = Inr r'" for r r'
    by (rule replayed_publish [OF ok']) (simp_all add: replayEvent_def rosterOf_ready [OF that(2)] rosters_get [OF that(1)])
  with SetReady ok' show ?thesis by (simp add: handleRequest_def setReady_def split: option.split sum.split)
next
  case (StartGame u i)
  have "replayed (lobbyPublish (GameStarting i uuid sc ps now) (putRoom (markStarting uuid r) i lb))" if "jget (lb_rooms lb) i = Some r" for r sc ps
    by (rule replayed_publish [OF ok']) (simp_all add: replayEvent_def rosters_get [OF that] fun_upd_idem)
  with StartGame ok' show ?thesis by (simp add: handleRequest_def startGame_def Let_def split: option.split)
next
  case (LeaveRoom u i)
  with ok' replayed_leave [OF ok'] show ?thesis
    by (simp add: handleRequest_def leaveRoom_def Let_def replayed_drop split: option.split)
next
  case (CloseRoom u i)
  with ok' show ?thesis by (simp add: handleRequest_def closeRoom_def replayed_drop split: option.split)
next
  case PurgeTimer
  with ok' show ?thesis by (simp add: handleRequest_def purgeAbandonedRooms_def replayed_purge)
qed

text \<open> C8: A reader of the bus that folds the lobby's events, and nothing else, always knows exactly which rooms
  exist, who is in each and who is ready, whatever requests were served, refused ones and the timer included. \<close>
theorem lobby_events_replay:
  assumes "lobby_reachable lb"
  shows "fold replayEvent (lb_published lb) Map.empty = (\<lambda>i. map_option (\<lambda>r u. map_option me_ready (jget (ro_members r) u)) (jget (lb_rooms lb) i))"
proof -
  have "replayed lb" using assms
  proof (induction rule: lobby_reachable.induct)
    case start
    show ?case by (simp add: replayed_def emptyLobby_def rosters_def fun_eq_iff)
  qed (rule replayed_request)
  then show ?thesis by (simp add: replayed_def rosters_def rosterOf_def[abs_def] fun_eq_iff)
qed

lemma lobby_events_replay_witness:
  "fold replayEvent (lb_published exampleLobby) Map.empty ''r1'' = Some (\<lambda>u. map_option me_ready (jget (ro_members exampleRoom) u))"
  unfolding lobby_events_replay [OF example_reachable] by (simp add: example_rooms)

section \<open>The timer\<close>

lemma purge_get:
  assumes "distinct (jkeys rs)"
  shows "jget (lb_rooms (fold (purgeStep now) rs lb)) i =
    (case jget rs i of Some r \<Rightarrow> if roomExpired now r then None else jget (lb_rooms lb) i | None \<Rightarrow> jget (lb_rooms lb) i)"
  using assms
proof (induction rs arbitrary: lb)
  case (Cons ir rs)
  obtain j r where ir: "ir = (j, r)" by (cases ir)
  have notin: "jget rs j = None" using Cons.prems ir by (simp add: map_of_eq_None_iff)
  have step: "jget (lb_rooms (purgeStep now ir lb)) k = (if k = j \<and> roomExpired now r then None else jget (lb_rooms lb) k)" for k
    by (simp add: ir purgeStep_def lobbyPublish_def dropRoom_def)
  from Cons.prems have d: "distinct (jkeys rs)" by simp
  show ?case unfolding fold.simps comp_def Cons.IH [OF d] step
    using notin by (auto simp: ir split: option.split)
qed simp

text \<open> The timer removes exactly the rooms that wait for players too long, alone for more than three minutes or
  in company for more than thirty; a room whose game has been started stays. \<close>
lemma purge_exact:
  assumes "lobby_reachable lb"
  shows "jget (lb_rooms (purgeAbandonedRooms now lb)) i =
    (case jget (lb_rooms lb) i of
       None \<Rightarrow> None
     | Some r \<Rightarrow>
         if ro_gameId r = None \<and> now - ro_createdAt r > (if playerCount r = 1 then 180000 else 1800000) then None else Some r)"
proof (cases "jget (lb_rooms lb) i")
  case None
  then show ?thesis using reachable_ok [OF assms] by (simp add: purgeAbandonedRooms_def purge_get lobby_ok_def)
next
  case (Some r)
  have d: "distinct (jkeys (lb_rooms lb))" using reachable_ok [OF assms] by (simp add: lobby_ok_def)
  note ok' = room_okD [OF lobby_okD [OF reachable_ok [OF assms] Some]]
  have "ro_members r \<noteq> []" using ok'(4) by (auto simp: jhas_def)
  then have "playerCount r \<le> 1 \<longleftrightarrow> playerCount r = 1" by (auto simp: playerCount_def le_Suc_eq)
  then have "roomExpired now r \<longleftrightarrow> ro_gameId r = None \<and> now - ro_createdAt r > (if playerCount r = 1 then 180000 else 1800000)"
    using ok'(6) by (auto simp: roomExpired_def SOLO_ROOM_TTL_MS_def ROOM_TTL_MS_def)
  with Some show ?thesis by (simp add: purgeAbandonedRooms_def purge_get [OF d])
qed

lemma purge_exact_witness: "jget (lb_rooms (purgeAbandonedRooms 1800001 exampleLobby)) ''r1'' = None"
  unfolding purge_exact [OF example_reachable] by (simp add: example_rooms) (simp add: exampleRoom_def playerCount_def)

section \<open>Two gaps of the guards\<close>

lemma jdel_jput: "jdel k (jput k v m) = jdel k m"
  by (induction m) (auto simp: AList.delete_eq)

text \<open> Leaving is not checked against the members: whoever is not in a room where the host is still alone closes
  it for the host by leaving it, and readers are told that the host did. \<close>
lemma stranger_closes_room:
  assumes "jget (lb_rooms lb) i = Some r" "jkeys (ro_members r) = [ro_hostId r]" "stranger \<noteq> ro_hostId r"
  shows "leaveRoom now stranger i lb = (Inr (), lb\<lparr>lb_rooms := jdel i (lb_rooms lb),
    lb_published := lb_published lb @ [PlayerLeft i stranger now, RoomClosed i ''host-closed'' now]\<rparr>)"
proof -
  obtain m where m: "ro_members r = [(ro_hostId r, m)]" using assms(2) by (cases "ro_members r") auto
  have "jdel i (jput i r' (lb_rooms lb)) = jdel i (lb_rooms lb)" for r'
    by (simp add: jdel_jput)
  with assms m show ?thesis
    by (simp add: leaveRoom_def Let_def removePlayer_def playerCount_def lobbyPublish_def dropRoom_def putRoom_def)
qed

lemma stranger_closes_room_witness:
  "lb_rooms (snd (leaveRoom 1 ''eve'' ''r1'' (runRequests (take 1 exampleRequests) emptyLobby))) = []"
proof -
  let ?m = "\<lparr>me_userId = ''ann'', me_displayName = ''Ann'', me_ready = False\<rparr>"
  have rooms: "lb_rooms (runRequests (take 1 exampleRequests) emptyLobby) = [(''r1'', exampleRoom\<lparr>ro_members := [(''ann'', ?m)]\<rparr>)]" by code_simp
  show ?thesis
    using stranger_closes_room [of "runRequests (take 1 exampleRequests) emptyLobby" "''r1''" "exampleRoom\<lparr>ro_members := [(''ann'', ?m)]\<rparr>" "''eve''" 1]
    unfolding rooms by (simp add: exampleRoom_def)
qed

text \<open> Starting is not checked against the status: in every state the lobby can reach, a host who starts a room
  twice is obeyed twice, the second start announces another game with the same players, and the room forgets the first. \<close>
lemma start_twice:
  assumes "lobby_reachable lb" "startGame g1 now1 host i lb = (Inr d1, lb1)"
  shows "\<exists>d2 lb2 sc ps. startGame g2 now2 host i lb1 = (Inr d2, lb2) \<and>
    lb_published lb2 = lb_published lb @ [GameStarting i g1 sc ps now1, GameStarting i g2 sc ps now2] \<and>
    map_option ro_gameId (jget (lb_rooms lb2) i) = Some (Some g2)"
proof -
  obtain r where r: "jget (lb_rooms lb) i = Some r" "ro_hostId r = host" "\<not> playerCount r < 2" "allReady r"
    "lb1 = lobbyPublish (GameStarting i g1 (ro_scenarioId r) (roomPlayers r) now1) (putRoom (markStarting g1 r) i lb)"
    using assms(2) by (auto simp: startGame_def Let_def roomPlayers_def markStarting_def split: option.splits if_splits)
  have r1: "jget (lb_rooms lb1) i = Some (markStarting g1 r)" "lb_published lb1 = lb_published lb @ [GameStarting i g1 (ro_scenarioId r) (roomPlayers r) now1]"
    by (simp_all add: r(5) lobbyPublish_def putRoom_def)
  have same: "ro_hostId (markStarting g1 r) = host" "playerCount (markStarting g1 r) = playerCount r" "allReady (markStarting g1 r) = allReady r"
    "roomPlayers (markStarting g2 (markStarting g1 r)) = roomPlayers r" "ro_scenarioId (markStarting g2 (markStarting g1 r)) = ro_scenarioId r"
    "ro_gameId (markStarting g2 (markStarting g1 r)) = Some g2"
    using r(2) by (simp_all add: markStarting_def playerCount_def allReady_def roomPlayers_def)
  show ?thesis
    using r(3,4) by (simp add: startGame_def r1 same Let_def) (simp add: lobbyPublish_def putRoom_def r1 same)
qed

lemma start_twice_witness:
  "length (lb_published (snd (startGame ''g2'' 6 ''ann'' ''r1'' (snd (startGame ''g1'' 5 ''ann'' ''r1'' exampleLobby))))) =
   length (lb_published exampleLobby) + 2"
proof -
  let ?x = "startGame ''g1'' 5 ''ann'' ''r1'' exampleLobby"
  obtain d where d: "?x = (Inr d, snd ?x)"
    by (simp add: startGame_def example_rooms) (simp add: exampleRoom_def playerCount_def allReady_def Let_def)
  from start_twice [OF example_reachable d, of "''g2''" 6] show ?thesis by auto
qed

end
