(* ===== verification/Hosting.thy ===== *)
theory Hosting
  imports FrontierHosted KingdomsView Lobby
begin

text \<open>
  From the lobby to a running game: the scenarios the engine service registers, and what becomes of
  the announcement of a started room when the engine receives it.
\<close>

section \<open>The scenarios on offer\<close>

definition kingdomsHosted :: "(kextras, kpayload, kevent, kingdoms_view) hosted" where
  "kingdomsHosted = \<lparr>ho_scenario = kingdomsScenario, ho_buildView = Some buildKingdomsView\<rparr>"

definition kingdomsRegistry :: "(kextras, kpayload, kevent, kingdoms_view) scenario_registry" where
  "kingdomsRegistry = (case registerScenario kingdomsHosted [] of Inr r \<Rightarrow> r | Inl _ \<Rightarrow> [])"

lemma kingdomsRegistry_get: "getScenario kingdomsRegistry ''kingdoms-v1'' = Inr kingdomsHosted"
  by (simp add: kingdomsRegistry_def registerScenario_def reg_insert_def jhas_def getScenario_def lookupScenario_def ho_id_def
      kingdomsHosted_def kingdomsScenario_def)

section \<open>Hosting succeeds exactly for a legal number of players\<close>

lemma createGame_error:
  assumes "getScenario scs (cr_scenarioId req) = Inr h" "createGameState (cr_gameId req) (ho_scenario h) (cr_players req) (cr_seed req) = Inl e"
  shows "createGame fb scs now req en = (Inl e, en)"
  using assms by (simp add: createGame_def)

lemma createGame_ok:
  assumes "getScenario scs (cr_scenarioId req) = Inr h" "createGameState (cr_gameId req) (ho_scenario h) (cr_players req) (cr_seed req) = Inr s"
    "newGame s (ho_scenario h) = Inr g"
  shows "fst (createGame fb scs now req en) = Inr ()"
  using assms by (simp add: createGame_def Let_def split_beta)

lemma wrong_count:
  "int (length ps) < sc_minPlayers sc \<or> sc_maxPlayers sc < int (length ps) \<Longrightarrow>
   createGameState gid sc ps seed = Inl (WrongPlayerCount (sc_id sc) (sc_minPlayers sc) (sc_maxPlayers sc) (int (length ps)))"
  by (simp add: createGameState_def)

lemma host_announced:
  assumes sc: "getScenario scs sid = Inr h" "sc_minPlayers (ho_scenario h) = 2" "sc_maxPlayers (ho_scenario h) = 4" "sc_id (ho_scenario h) = sid"
    and create: "\<And>gid ps seed. roster_ok ps \<Longrightarrow> \<exists>s. createGameState gid (ho_scenario h) ps seed = Inr s"
    and new: "\<And>s. \<exists>g. newGame s (ho_scenario h) = Inr g"
    and ms: "2 \<le> length ms" "distinct (map fst ms)" "[] \<notin> fst ` set ms"
  shows "fst (onGameStarting fb scs now (GameStarting i gid sid ms at') en) =
    (if length ms \<le> 4 then Inr () else Inl (WrongPlayerCount sid 2 4 (int (length ms))))"
proof (cases "length ms \<le> 4")
  case True
  obtain s where s: "createGameState gid (ho_scenario h) (seatPlayers ms) gid = Inr s"
    using create [OF seatPlayers_ok [OF ms(1) True ms(2,3)]] by blast
  obtain g where "newGame s (ho_scenario h) = Inr g" using new by blast
  with s sc(1) True show ?thesis by (simp add: onGameStarting_def createGame_ok)
next
  case False
  let ?req = "\<lparr>cr_gameId = gid, cr_scenarioId = sid, cr_players = seatPlayers ms, cr_seed = gid\<rparr>"
  have "createGame fb scs now ?req en = (Inl (WrongPlayerCount sid 2 4 (int (length ms))), en)"
    using False sc wrong_count [of "seatPlayers ms" "ho_scenario h"] by (intro createGame_error) simp_all
  with False show ?thesis by (simp add: onGameStarting_def)
qed

text \<open> C26: Starting a room of the lobby announces its members to the engine, which then hosts the game, in either
  scenario, exactly when there are at most four of them: the lobby accepts rooms of any size, and a larger room
  is answered with an exception on the engine's side after the lobby has marked it as starting. \<close>
theorem start_hosts_game:
  assumes lb: "lobby_reachable lb" "jget (lb_rooms lb) i = Some r" and start: "startGame g now host i lb = (Inr d, lb')"
    and ids: "[] \<notin> set (jkeys (ro_members r))"
  shows "\<exists>ev. lb_published lb' = lb_published lb @ [ev] \<and>
    (ro_scenarioId r = ''demo-v1'' \<longrightarrow> fst (onGameStarting fb demoRegistry now' ev en) =
       (if playerCount r \<le> 4 then Inr () else Inl (WrongPlayerCount ''demo-v1'' 2 4 (int (playerCount r))))) \<and>
    (ro_scenarioId r = ''kingdoms-v1'' \<longrightarrow> fst (onGameStarting fb' kingdomsRegistry now' ev en') =
       (if playerCount r \<le> 4 then Inr () else Inl (WrongPlayerCount ''kingdoms-v1'' 2 4 (int (playerCount r)))))"
proof -
  note ok' = room_okD [OF lobby_okD [OF reachable_ok [OF lb(1)] lb(2)]]
  have ev: "lb_published lb' = lb_published lb @ [GameStarting i g (ro_scenarioId r) (roomPlayers r) now]" "\<not> playerCount r < 2"
    using start lb(2) by (auto simp: startGame_def Let_def lobbyPublish_def putRoom_def roomPlayers_def markStarting_def split: if_splits)
  have ms: "map fst (roomPlayers r) = jkeys (ro_members r)" "length (roomPlayers r) = playerCount r"
    using ok'(2,3) by (simp_all add: roomPlayers_def playerCount_def)
  have n: "2 \<le> length (roomPlayers r)" using ev(2) ms(2) by simp
  have d: "distinct (map fst (roomPlayers r))" "[] \<notin> fst ` set (roomPlayers r)"
    using ok'(2) ids by (simp add: ms(1), metis ms(1) list.set_map)
  have demo: "fst (onGameStarting fb demoRegistry now' (GameStarting i g ''demo-v1'' (roomPlayers r) now) en) =
     (if playerCount r \<le> 4 then Inr () else Inl (WrongPlayerCount ''demo-v1'' 2 4 (int (playerCount r))))"
  proof (unfold ms(2) [symmetric], rule host_announced [OF demoRegistry_get _ _ _ _ _ n d])
    show "\<exists>s. createGameState gid (ho_scenario demoHosted) ps seed = Inr s" if "roster_ok ps" for gid ps seed
      using frontier_create [OF that] unfolding demoHosted_def by simp metis
    show "\<exists>g. newGame s (ho_scenario demoHosted) = Inr g" for s by (simp add: demoHosted_def newGame_frontier)
  qed (simp_all add: demoHosted_def demoScenario_def)
  have kingdoms: "fst (onGameStarting fb' kingdomsRegistry now' (GameStarting i g ''kingdoms-v1'' (roomPlayers r) now) en') =
     (if playerCount r \<le> 4 then Inr () else Inl (WrongPlayerCount ''kingdoms-v1'' 2 4 (int (playerCount r))))"
  proof (unfold ms(2) [symmetric], rule host_announced [OF kingdomsRegistry_get _ _ _ _ _ n d])
    show "\<exists>s. createGameState gid (ho_scenario kingdomsHosted) ps seed = Inr s" if "roster_ok ps" for gid ps seed
      using kingdoms_create [OF that, of gid seed] by (auto simp: kingdomsHosted_def)
    show "\<exists>g. newGame s (ho_scenario kingdomsHosted) = Inr g" for s by (simp add: kingdomsHosted_def newGame_kingdoms)
  qed (simp_all add: kingdomsHosted_def kingdomsScenario_def)
  show ?thesis using ev(1) demo kingdoms by (intro exI [of _ "GameStarting i g (ro_scenarioId r) (roomPlayers r) now"]) auto
qed

lemma start_hosts_game_witness:
  "\<exists>ev. lb_published (snd (startGame ''g'' 5 ''ann'' ''r1'' exampleLobby)) = lb_published exampleLobby @ [ev] \<and>
    fst (onGameStarting frontierView demoRegistry 6 ev emptyEngine) = Inr ()"
proof -
  let ?x = "startGame ''g'' 5 ''ann'' ''r1'' exampleLobby"
  obtain d where d: "?x = (Inr d, snd ?x)"
    by (simp add: startGame_def example_rooms) (simp add: exampleRoom_def playerCount_def allReady_def Let_def)
  have r: "jget (lb_rooms exampleLobby) ''r1'' = Some exampleRoom" by (simp add: example_rooms)
  have "[] \<notin> set (jkeys (ro_members exampleRoom))" "ro_scenarioId exampleRoom = ''demo-v1''" "playerCount exampleRoom = 2"
    by (simp_all add: exampleRoom_def playerCount_def)
  with start_hosts_game [OF example_reachable r d, of frontierView 6 emptyEngine] show ?thesis by auto
qed

end
