(* ===== verification/Auth.thy ===== *)
theory Auth
  imports Bus
begin

text \<open>
  The auth service, \<open>apps/auth-service/src\<close>: the table of users (\<open>users.service.ts\<close>), registration,
  login and tokens (\<open>auth.service.ts\<close>) and the guard of the REST services (\<open>jwt.strategy.ts\<close>). The
  packages bcrypt, jsonwebtoken and passport and the two settings of the environment are the fields of a
  record; what the code relies on is stated as laws. The atomic steps of the service are those between
  two \<open>await\<close>s, and requests interleave there.
\<close>

section \<open>The table of users (users.service.ts)\<close>

record register_request =
  rq_username :: string
  rq_password :: string
  rq_email :: "string option"

record login_request =
  lq_username :: string
  lq_password :: string

record user_summary =
  us_userId :: string
  us_username :: string

record auth_response =
  ar_userId :: string
  ar_username :: string
  ar_accessToken :: string
  ar_expiresIn :: nat

record user_row =
  ur_id :: string
  ur_username :: string
  ur_email :: "string option"
  ur_passwordHash :: string
  ur_createdAt :: nat

text \<open>
  Third-party code: \<open>hash\<close> with its salt and \<open>compare\<close> of bcrypt; \<open>sign\<close> and \<open>verify\<close> of jsonwebtoken, with the
  secret and the clock; passport's reading of the header; Postgres' test of an identifier; the settings.
\<close>

record auth_env =
  ae_hash :: "string \<Rightarrow> string \<Rightarrow> string"
  ae_compare :: "string \<Rightarrow> string \<Rightarrow> bool"
  ae_sign :: "string \<Rightarrow> string \<Rightarrow> nat \<Rightarrow> string \<times> string \<Rightarrow> string"
  ae_verify :: "string \<Rightarrow> nat \<Rightarrow> string \<Rightarrow> (string \<times> string) option"
  ae_bearer :: "string \<Rightarrow> string option"
  ae_isUuid :: "string \<Rightarrow> bool"
  ae_secret :: "string option"
  ae_expires :: "string option"

definition findByUsername :: "string \<Rightarrow> user_row list \<Rightarrow> user_row option" where
  "findByUsername name us = find (\<lambda>u. ur_username u = name) us"

definition findByUserId :: "string \<Rightarrow> user_row list \<Rightarrow> user_row option" where
  "findByUserId i us = find (\<lambda>u. ur_id u = i) us"

text \<open>An insertion checks the primary key and the unique constraint of the table.\<close>

definition insertUser :: "user_row \<Rightarrow> (user_row list, user_row) effect" where
  "insertUser u us =
     (if list_ex (\<lambda>v. ur_id v = ur_id u \<or> ur_username v = ur_username u) us
      then (Inl (DatabaseError ''Unique constraint failed''), us) else (Inr u, us @ [u]))"

definition summaryOf :: "user_row \<Rightarrow> user_summary" where
  "summaryOf u = \<lparr>us_userId = ur_id u, us_username = ur_username u\<rparr>"

text \<open>\<open>create\<close> up to the first \<open>await\<close> that leaves the database, and from there on.\<close>

definition createCheck :: "register_request \<Rightarrow> user_row list \<Rightarrow> exn + unit" where
  "createCheck req us =
     (case findByUsername (rq_username req) us of Some _ \<Rightarrow> Inl (Conflict ''Username already taken'') | None \<Rightarrow> Inr ())"

definition createInsert :: "auth_env \<Rightarrow> string \<Rightarrow> string \<Rightarrow> nat \<Rightarrow> register_request \<Rightarrow> (user_row list, user_summary) effect" where
  "createInsert env salt uuid now req us =
     (case insertUser \<lparr>ur_id = uuid, ur_username = rq_username req, ur_email = rq_email req,
        ur_passwordHash = ae_hash env salt (rq_password req), ur_createdAt = now\<rparr> us of
        (Inl e, us') \<Rightarrow> (Inl e, us')
      | (Inr u, us') \<Rightarrow> (Inr (summaryOf u), us'))"

definition verifyPassword :: "auth_env \<Rightarrow> string \<Rightarrow> string \<Rightarrow> user_row list \<Rightarrow> user_summary option" where
  "verifyPassword env username password us =
     (case findByUsername username us of
        None \<Rightarrow> None
      | Some u \<Rightarrow> if ae_compare env password (ur_passwordHash u) then Some (summaryOf u) else None)"

definition findById :: "auth_env \<Rightarrow> string \<Rightarrow> user_row list \<Rightarrow> exn + user_summary" where
  "findById env i us =
     (if \<not> ae_isUuid env i then Inl (DatabaseError ''Inconsistent column data'')
      else case findByUserId i us of None \<Rightarrow> Inl (NotFound ''User not found'') | Some u \<Rightarrow> Inr (summaryOf u))"

section \<open>Registration, login and tokens (auth.service.ts, auth.module.ts, jwt.strategy.ts)\<close>

definition jwtSecret :: "string option \<Rightarrow> string" where
  "jwtSecret setting = (case setting of Some s \<Rightarrow> s | None \<Rightarrow> ''dev-secret-change-me'')"

definition jwtExpiry :: "string option \<Rightarrow> string" where
  "jwtExpiry setting = (case setting of Some s \<Rightarrow> s | None \<Rightarrow> ''7d'')"

definition signToken :: "auth_env \<Rightarrow> nat \<Rightarrow> string \<Rightarrow> string \<Rightarrow> auth_response" where
  "signToken env now userId username =
     \<lparr>ar_userId = userId, ar_username = username,
      ar_accessToken = ae_sign env (jwtSecret (ae_secret env)) (jwtExpiry (ae_expires env)) now (userId, username),
      ar_expiresIn = 60 * 60 * 24 * 7\<rparr>"

text \<open>\<open>register\<close> after the check of \<open>createCheck\<close>.\<close>

definition registerInsert :: "auth_env \<Rightarrow> string \<Rightarrow> string \<Rightarrow> nat \<Rightarrow> register_request \<Rightarrow> (user_row list, auth_response) effect" where
  "registerInsert env salt uuid now req us =
     (case createInsert env salt uuid now req us of
        (Inl e, us') \<Rightarrow> (Inl e, us')
      | (Inr u, us') \<Rightarrow> (Inr (signToken env now (us_userId u) (us_username u)), us'))"

definition login :: "auth_env \<Rightarrow> nat \<Rightarrow> login_request \<Rightarrow> user_row list \<Rightarrow> exn + auth_response" where
  "login env now req us =
     (case verifyPassword env (lq_username req) (lq_password req) us of
        None \<Rightarrow> Inl (Unauthorized ''Invalid credentials'')
      | Some u \<Rightarrow> Inr (signToken env now (us_userId u) (us_username u)))"

text \<open>The guard in front of a REST handler hands it the payload of the token.\<close>

definition jwtGuard :: "auth_env \<Rightarrow> nat \<Rightarrow> string option \<Rightarrow> exn + string \<times> string" where
  "jwtGuard env now header =
     (case Option.bind header (ae_bearer env) of
        None \<Rightarrow> Inl (Unauthorized ''Unauthorized'')
      | Some token \<Rightarrow>
          (case ae_verify env (jwtSecret (ae_secret env)) now token of
             None \<Rightarrow> Inl (Unauthorized ''Unauthorized'')
           | Some payload \<Rightarrow> Inr payload))"

definition findOne :: "auth_env \<Rightarrow> nat \<Rightarrow> string option \<Rightarrow> string \<Rightarrow> user_row list \<Rightarrow> exn + user_summary" where
  "findOne env now header i us =
     (case jwtGuard env now header of Inl e \<Rightarrow> Inl e | Inr _ \<Rightarrow> findById env i us)"

section \<open>Requests that interleave\<close>

text \<open>
  A registration arrives and is checked; if it passes it waits for bcrypt under the number of its request
  and completes later. A login does not change the table, so only the moment it is answered counts.
\<close>

datatype auth_input =
    RegisterArrives nat nat register_request
  | RegisterCompletes nat string string nat
  | LoginServed nat login_request

text \<open>What was answered, in order; \<open>at\<close> is the time a token was made.\<close>

datatype auth_reply =
    Registered nat register_request "exn + auth_response"
  | LoggedIn nat login_request "exn + auth_response"

record auth_world =
  aw_users :: "user_row list"
  aw_pending :: "(nat, register_request) jsmap"
  aw_log :: "auth_reply list"

definition emptyAuth :: auth_world where
  "emptyAuth = \<lparr>aw_users = [], aw_pending = [], aw_log = []\<rparr>"

definition authReply :: "auth_reply \<Rightarrow> auth_world \<Rightarrow> auth_world" where
  "authReply r w = w\<lparr>aw_log := aw_log w @ [r]\<rparr>"

definition authStep :: "auth_env \<Rightarrow> auth_input \<Rightarrow> auth_world \<Rightarrow> auth_world" where
  "authStep env inp w =
     (case inp of
        RegisterArrives now n req \<Rightarrow>
          (case createCheck req (aw_users w) of
             Inl e \<Rightarrow> authReply (Registered now req (Inl e)) w
           | Inr _ \<Rightarrow> w\<lparr>aw_pending := jput n req (aw_pending w)\<rparr>)
      | RegisterCompletes n salt uuid now \<Rightarrow>
          (case jget (aw_pending w) n of
             None \<Rightarrow> w
           | Some req \<Rightarrow>
               (case registerInsert env salt uuid now req (aw_users w) of
                  (res, us) \<Rightarrow> authReply (Registered now req res) (w\<lparr>aw_users := us, aw_pending := jdel n (aw_pending w)\<rparr>)))
      | LoginServed now req \<Rightarrow> authReply (LoggedIn now req (login env now req (aw_users w))) w)"

text \<open>Requests are numbered apart, and Postgres draws a well-formed identifier nobody has.\<close>

definition authAccepts :: "auth_env \<Rightarrow> auth_world \<Rightarrow> auth_input \<Rightarrow> bool" where
  "authAccepts env w inp \<longleftrightarrow>
     (case inp of
        RegisterArrives now n req \<Rightarrow> \<not> jhas (aw_pending w) n
      | RegisterCompletes n salt uuid now \<Rightarrow> jhas (aw_pending w) n \<and> ae_isUuid env uuid \<and> findByUserId uuid (aw_users w) = None
      | LoginServed now req \<Rightarrow> True)"

inductive auth_trace :: "auth_env \<Rightarrow> auth_world \<Rightarrow> bool" for env where
  start: "auth_trace env emptyAuth"
| step: "auth_trace env w \<Longrightarrow> authAccepts env w inp \<Longrightarrow> auth_trace env (authStep env inp w)"

section \<open>The laws of bcrypt and of tokens\<close>

text \<open>
  A password matches the hash of another when bcrypt reads the same key from both (it reads 72 bytes). A token
  shows what was signed, under the secret it was signed with and until the lifetime given by the setting is over.
\<close>

definition bcrypt_laws :: "auth_env \<Rightarrow> (string \<Rightarrow> 'k) \<Rightarrow> bool" where
  "bcrypt_laws env key \<longleftrightarrow> (\<forall>p salt q. ae_compare env p (ae_hash env salt q) \<longleftrightarrow> key p = key q)"

definition jwt_laws :: "auth_env \<Rightarrow> (string \<Rightarrow> nat) \<Rightarrow> bool" where
  "jwt_laws env seconds \<longleftrightarrow> (\<forall>secret expires issued payload now.
     ae_verify env secret now (ae_sign env secret expires issued payload) = (if now < issued + seconds expires then Some payload else None))"

section \<open>The accounts and the answers\<close>

fun granted :: "auth_reply \<Rightarrow> (nat \<times> auth_response) option" where
  "granted (Registered now req (Inr r)) = Some (now, r)"
| "granted (LoggedIn now req (Inr r)) = Some (now, r)"
| "granted _ = None"

definition rowFor :: "auth_env \<Rightarrow> register_request \<Rightarrow> auth_response \<Rightarrow> user_row \<Rightarrow> bool" where
  "rowFor env req r u \<longleftrightarrow> ur_id u = ar_userId r \<and> ur_username u = rq_username req \<and> ur_email u = rq_email req \<and>
     (\<exists>salt. ur_passwordHash u = ae_hash env salt (rq_password req))"

definition accounts_ok :: "auth_env \<Rightarrow> auth_world \<Rightarrow> bool" where
  "accounts_ok env w \<longleftrightarrow>
     distinct (map ur_id (aw_users w)) \<and> distinct (map ur_username (aw_users w)) \<and>
     (\<forall>u \<in> set (aw_users w). ae_isUuid env (ur_id u) \<and> (\<exists>now req r. Registered now req (Inr r) \<in> set (aw_log w) \<and> rowFor env req r u)) \<and>
     (\<forall>now req r. Registered now req (Inr r) \<in> set (aw_log w) \<longrightarrow> (\<exists>u \<in> set (aw_users w). rowFor env req r u)) \<and>
     (\<forall>e \<in> set (aw_log w). \<forall>now r. granted e = Some (now, r) \<longrightarrow>
        r = signToken env now (ar_userId r) (ar_username r) \<and>
        (\<exists>u \<in> set (aw_users w). ur_id u = ar_userId r \<and> ur_username u = ar_username r)) \<and>
     (\<forall>now req r. LoggedIn now req (Inr r) \<in> set (aw_log w) \<longrightarrow>
        (\<exists>u \<in> set (aw_users w). ur_username u = lq_username req \<and> ur_id u = ar_userId r \<and> ae_compare env (lq_password req) (ur_passwordHash u)))"

lemma accounts_okD:
  assumes "accounts_ok env w"
  shows "distinct (map ur_id (aw_users w))" "distinct (map ur_username (aw_users w))"
    "u \<in> set (aw_users w) \<Longrightarrow> ae_isUuid env (ur_id u)"
    "u \<in> set (aw_users w) \<Longrightarrow> \<exists>now req r. Registered now req (Inr r) \<in> set (aw_log w) \<and> rowFor env req r u"
    "Registered now req (Inr r) \<in> set (aw_log w) \<Longrightarrow> \<exists>u \<in> set (aw_users w). rowFor env req r u"
    "e \<in> set (aw_log w) \<Longrightarrow> granted e = Some (now, r) \<Longrightarrow> r = signToken env now (ar_userId r) (ar_username r)"
    "e \<in> set (aw_log w) \<Longrightarrow> granted e = Some (now, r) \<Longrightarrow> \<exists>u \<in> set (aw_users w). ur_id u = ar_userId r \<and> ur_username u = ar_username r"
    "LoggedIn now lreq (Inr r) \<in> set (aw_log w) \<Longrightarrow>
       \<exists>u \<in> set (aw_users w). ur_username u = lq_username lreq \<and> ur_id u = ar_userId r \<and> ae_compare env (lq_password lreq) (ur_passwordHash u)"
  using assms unfolding accounts_ok_def by blast+

lemma signToken_simps [simp]:
  "ar_userId (signToken env now i n) = i" "ar_username (signToken env now i n) = n" "ar_expiresIn (signToken env now i n) = 604800"
  by (simp_all add: signToken_def)

lemma findByUsername_Some: "findByUsername n us = Some u \<Longrightarrow> u \<in> set us \<and> ur_username u = n"
  by (auto simp: findByUsername_def find_Some_iff)

lemma findByUsername_None: "findByUsername n us = None \<longleftrightarrow> (\<forall>u \<in> set us. ur_username u \<noteq> n)"
  by (auto simp: findByUsername_def find_None_iff)

lemma findByUserId_None: "findByUserId i us = None \<longleftrightarrow> (\<forall>u \<in> set us. ur_id u \<noteq> i)"
  by (auto simp: findByUserId_def find_None_iff)

lemma find_own_key: "distinct (map f xs) \<Longrightarrow> x \<in> set xs \<Longrightarrow> find (\<lambda>y. f y = f x) xs = Some x"
  by (induction xs) force+

lemma findByUsername_row: "distinct (map ur_username us) \<Longrightarrow> u \<in> set us \<Longrightarrow> findByUsername (ur_username u) us = Some u"
  unfolding findByUsername_def by (rule find_own_key)

lemma login_Inr:
  "login env now req us = Inr r \<longleftrightarrow> (\<exists>u. findByUsername (lq_username req) us = Some u \<and>
     ae_compare env (lq_password req) (ur_passwordHash u) \<and> r = signToken env now (ur_id u) (ur_username u))"
  by (auto simp: login_def verifyPassword_def summaryOf_def split: option.splits)

text \<open>The two outcomes of an insertion.\<close>

lemma registerInsert_cases:
  obtains u where "registerInsert env salt uuid now req us = (Inr (signToken env now uuid (rq_username req)), us @ [u])"
      "ur_id u = uuid" "ur_username u = rq_username req" "ur_email u = rq_email req" "ur_passwordHash u = ae_hash env salt (rq_password req)"
      "\<forall>v \<in> set us. ur_id v \<noteq> uuid \<and> ur_username v \<noteq> rq_username req"
  | "registerInsert env salt uuid now req us = (Inl (DatabaseError ''Unique constraint failed''), us)"
      "\<exists>v \<in> set us. ur_id v = uuid \<or> ur_username v = rq_username req"
proof (cases "list_ex (\<lambda>v. ur_id v = uuid \<or> ur_username v = rq_username req) us")
  case True
  then show ?thesis by (intro that(2)) (auto simp: registerInsert_def createInsert_def insertUser_def list_ex_iff)
next
  case False
  then show ?thesis
    by (intro that(1) [of "\<lparr>ur_id = uuid, ur_username = rq_username req, ur_email = rq_email req,
        ur_passwordHash = ae_hash env salt (rq_password req), ur_createdAt = now\<rparr>"])
      (auto simp: registerInsert_def createInsert_def insertUser_def list_ex_iff summaryOf_def)
qed

lemma accounts_ok_refused:
  assumes "accounts_ok env w" "granted e = None"
  shows "accounts_ok env (authReply e w)"
  using assms unfolding accounts_ok_def authReply_def by fastforce

lemma accounts_ok_cong: "accounts_ok env w \<Longrightarrow> aw_users w' = aw_users w \<Longrightarrow> aw_log w' = aw_log w \<Longrightarrow> accounts_ok env w'"
  by (simp add: accounts_ok_def)

lemma accounts_ok_login:
  assumes ok': "accounts_ok env w"
  shows "accounts_ok env (authReply (LoggedIn now req (login env now req (aw_users w))) w)"
proof (cases "login env now req (aw_users w)")
  case (Inl e)
  with ok' show ?thesis by (simp add: accounts_ok_refused)
next
  case (Inr r)
  then obtain u where u: "u \<in> set (aw_users w)" "ur_username u = lq_username req" "ae_compare env (lq_password req) (ur_passwordHash u)"
    "r = signToken env now (ur_id u) (ur_username u)" by (auto simp: login_Inr dest: findByUsername_Some)
  then show ?thesis using ok' unfolding accounts_ok_def authReply_def Inr by auto
qed

lemma accounts_ok_insert:
  assumes ok': "accounts_ok env w" and uuid: "ae_isUuid env uuid"
    and u: "ur_id u = uuid" "ur_username u = rq_username req" "ur_email u = rq_email req" "ur_passwordHash u = ae_hash env salt (rq_password req)"
    and free: "\<forall>v \<in> set (aw_users w). ur_id v \<noteq> uuid \<and> ur_username v \<noteq> rq_username req"
  shows "accounts_ok env (authReply (Registered now req (Inr (signToken env now uuid (rq_username req)))) (w\<lparr>aw_users := aw_users w @ [u]\<rparr>))"
    (is "accounts_ok env ?w")
proof -
  have row: "rowFor env req (signToken env now uuid (rq_username req)) u" using u by (auto simp: rowFor_def)
  have users: "set (aw_users ?w) = insert u (set (aw_users w))" by (simp add: authReply_def)
  have log: "set (aw_log ?w) = insert (Registered now req (Inr (signToken env now uuid (rq_username req)))) (set (aw_log w))"
    by (simp add: authReply_def)
  have dist: "distinct (map ur_id (aw_users ?w))" "distinct (map ur_username (aw_users ?w))"
    using accounts_okD(1,2) [OF ok'] free u by (auto simp: authReply_def)
  show ?thesis unfolding accounts_ok_def users log
    by (intro conjI dist) (use ok' row u uuid in \<open>(unfold accounts_ok_def, fastforce)+\<close>)
qed

lemma accounts_ok_step:
  assumes ok': "accounts_ok env w" and acc: "authAccepts env w inp"
  shows "accounts_ok env (authStep env inp w)"
proof (cases inp)
  case (RegisterArrives now n req)
  have "accounts_ok env (w\<lparr>aw_pending := jput n req (aw_pending w)\<rparr>)" by (rule accounts_ok_cong [OF ok']) simp_all
  with RegisterArrives ok' show ?thesis by (simp add: authStep_def accounts_ok_refused split: sum.split)
next
  case (RegisterCompletes n salt uuid now)
  then obtain req where req: "jget (aw_pending w) n = Some req" using acc by (auto simp: authAccepts_def jhas_def)
  have uuid: "ae_isUuid env uuid" using acc RegisterCompletes by (simp add: authAccepts_def)
  show ?thesis
  proof (cases rule: registerInsert_cases [of env salt uuid now req "aw_users w"])
    case (1 u)
    note new = accounts_ok_insert [OF ok' uuid 1(2-6), of now]
    show ?thesis by (rule accounts_ok_cong [OF new]) (simp_all add: RegisterCompletes authStep_def req 1(1) authReply_def)
  next
    case 2
    let ?e = "Registered now req (Inl (DatabaseError ''Unique constraint failed''))"
    have "granted ?e = None" by simp
    from accounts_ok_refused [OF ok' this] show ?thesis
      by (rule accounts_ok_cong) (simp_all add: RegisterCompletes authStep_def req 2(1) authReply_def)
  qed
next
  case (LoginServed now req)
  with accounts_ok_login [OF ok'] show ?thesis by (simp add: authStep_def)
qed

lemma accounts_ok_trace: "auth_trace env w \<Longrightarrow> accounts_ok env w"
proof (induction rule: auth_trace.induct)
  case start
  show ?case by (simp add: accounts_ok_def emptyAuth_def)
next
  case (step w inp)
  from accounts_ok_step [OF step.IH step.hyps(2)] show ?case .
qed

section \<open>What registration and login promise\<close>

text \<open> C13: However registrations and logins interleave, no two accounts share a name or an identifier, and every answer
  that grants access names a stored account and carries a token that shows this account to whoever verifies it, until
  the configured lifetime is over; the answer itself always promises seven days. \<close>
theorem granted_tokens_name_accounts:
  assumes "auth_trace env w" "jwt_laws env seconds"
  shows "distinct (map ur_id (aw_users w)) \<and> distinct (map ur_username (aw_users w)) \<and>
    (\<forall>e \<in> set (aw_log w). case granted e of
       None \<Rightarrow> True
     | Some (issued, r) \<Rightarrow> (\<exists>u \<in> set (aw_users w). ur_id u = ar_userId r \<and> ur_username u = ar_username r) \<and> ar_expiresIn r = 604800 \<and>
         (\<forall>now. ae_verify env (jwtSecret (ae_secret env)) now (ar_accessToken r) =
            (if now < issued + seconds (jwtExpiry (ae_expires env)) then Some (ar_userId r, ar_username r) else None)))"
proof -
  note I = accounts_okD [OF accounts_ok_trace [OF assms(1)]]
  have tok: "ae_verify env (jwtSecret (ae_secret env)) now (ar_accessToken (signToken env issued i n)) =
    (if now < issued + seconds (jwtExpiry (ae_expires env)) then Some (i, n) else None)" for now issued i n
    using assms(2) by (simp add: jwt_laws_def signToken_def)
  have "case granted e of None \<Rightarrow> True
     | Some (issued, r) \<Rightarrow> (\<exists>u \<in> set (aw_users w). ur_id u = ar_userId r \<and> ur_username u = ar_username r) \<and> ar_expiresIn r = 604800 \<and>
         (\<forall>now. ae_verify env (jwtSecret (ae_secret env)) now (ar_accessToken r) =
            (if now < issued + seconds (jwtExpiry (ae_expires env)) then Some (ar_userId r, ar_username r) else None))"
    if "e \<in> set (aw_log w)" for e
  proof (cases "granted e")
    case (Some x)
    obtain issued r where x: "x = (issued, r)" by (cases x)
    note g = Some [unfolded x]
    have r: "r = signToken env issued (ar_userId r) (ar_username r)" by (rule I(6) [OF that g])
    then have "ar_expiresIn r = 604800" using signToken_simps(3) by metis
    with I(7) [OF that g] tok [of _ issued "ar_userId r" "ar_username r"] r show ?thesis by (simp add: g)
  qed simp
  with I(1,2) show ?thesis by blast
qed

text \<open> C12: A login is answered with a token exactly when a registration of that name has been completed with a password
  from which bcrypt reads the same key, and the answer names the account of that registration; every other login, to a
  name nobody has as well as with a wrong password, gets the same error. \<close>
theorem login_needs_password:
  assumes run: "auth_trace env w" and laws: "bcrypt_laws env key"
  shows "(login env now req (aw_users w) = Inr answer \<longleftrightarrow>
      (\<exists>t rreq r. Registered t rreq (Inr r) \<in> set (aw_log w) \<and> rq_username rreq = lq_username req \<and>
        key (rq_password rreq) = key (lq_password req) \<and> answer = signToken env now (ar_userId r) (lq_username req))) \<and>
    (\<not> ok (login env now req (aw_users w)) \<longrightarrow> login env now req (aw_users w) = Inl (Unauthorized ''Invalid credentials''))"
proof -
  note I = accounts_okD [OF accounts_ok_trace [OF run]]
  have cmp: "ae_compare env p (ae_hash env salt q) \<longleftrightarrow> key p = key q" for p salt q using laws by (simp add: bcrypt_laws_def)
  have refused: "\<not> ok (login env now req (aw_users w)) \<longrightarrow> login env now req (aw_users w) = Inl (Unauthorized ''Invalid credentials'')"
    by (simp add: login_def split: option.split)
  have "login env now req (aw_users w) = Inr answer \<longleftrightarrow>
    (\<exists>u \<in> set (aw_users w). ur_username u = lq_username req \<and> ae_compare env (lq_password req) (ur_passwordHash u) \<and>
      answer = signToken env now (ur_id u) (lq_username req))"
    using findByUsername_row [OF I(2)] findByUsername_Some [of "lq_username req" "aw_users w"] unfolding login_Inr by metis
  also have "\<dots> \<longleftrightarrow> (\<exists>t rreq r. Registered t rreq (Inr r) \<in> set (aw_log w) \<and> rq_username rreq = lq_username req \<and>
      key (rq_password rreq) = key (lq_password req) \<and> answer = signToken env now (ar_userId r) (lq_username req))" (is "?stored \<longleftrightarrow> ?registered")
  proof
    assume ?stored
    then obtain u where u: "u \<in> set (aw_users w)" "ur_username u = lq_username req" "ae_compare env (lq_password req) (ur_passwordHash u)"
      "answer = signToken env now (ur_id u) (lq_username req)" by blast
    from I(4) [OF u(1)] obtain t rreq r where r: "Registered t rreq (Inr r) \<in> set (aw_log w)" "rowFor env rreq r u" by blast
    with u cmp show ?registered unfolding rowFor_def by metis
  next
    assume ?registered
    then obtain t rreq r where r: "Registered t rreq (Inr r) \<in> set (aw_log w)" "rq_username rreq = lq_username req"
      "key (rq_password rreq) = key (lq_password req)" "answer = signToken env now (ar_userId r) (lq_username req)" by blast
    from I(5) [OF r(1)] obtain u where "u \<in> set (aw_users w)" "rowFor env rreq r u" by blast
    with r cmp show ?stored unfolding rowFor_def by metis
  qed
  finally show ?thesis using refused by blast
qed

text \<open> C22: Two registrations of one free name that are both checked before either is stored: whatever the table, the
  first to complete gets its account and the second neither the conflict the check exists for nor an account, but
  the raw error of the database. \<close>
theorem register_race:
  assumes run: "auth_trace env w" and free: "findByUsername (rq_username r1) (aw_users w) = None" "rq_username r2 = rq_username r1"
    and numbers: "n1 \<noteq> n2" "\<not> jhas (aw_pending w) n1" "\<not> jhas (aw_pending w) n2"
    and uuids: "uuid1 \<noteq> uuid2" "ae_isUuid env uuid1" "ae_isUuid env uuid2"
      "findByUserId uuid1 (aw_users w) = None" "findByUserId uuid2 (aw_users w) = None"
  shows "\<exists>w'. w' = fold (authStep env) [RegisterArrives t1 n1 r1, RegisterArrives t2 n2 r2,
        RegisterCompletes n1 salt1 uuid1 t3, RegisterCompletes n2 salt2 uuid2 t4] w \<and> auth_trace env w' \<and>
    length (aw_users w') = length (aw_users w) + 1 \<and>
    aw_log w' = aw_log w @ [Registered t3 r1 (Inr (signToken env t3 uuid1 (rq_username r1))),
      Registered t4 r2 (Inl (DatabaseError ''Unique constraint failed''))]"
proof -
  define w1 where "w1 = authStep env (RegisterArrives t1 n1 r1) w"
  define w2 where "w2 = authStep env (RegisterArrives t2 n2 r2) w1"
  define w3 where "w3 = authStep env (RegisterCompletes n1 salt1 uuid1 t3) w2"
  define w4 where "w4 = authStep env (RegisterCompletes n2 salt2 uuid2 t4) w3"
  have w1: "w1 = w\<lparr>aw_pending := jput n1 r1 (aw_pending w)\<rparr>" using free by (simp add: w1_def authStep_def createCheck_def)
  have w2: "w2 = w\<lparr>aw_pending := jput n2 r2 (jput n1 r1 (aw_pending w))\<rparr>" using free by (simp add: w2_def w1 authStep_def createCheck_def)
  have noname: "\<forall>v \<in> set (aw_users w). ur_username v \<noteq> rq_username r1" using free(1) by (simp add: findByUsername_None)
  have noid: "\<forall>v \<in> set (aw_users w). ur_id v \<noteq> uuid1" using uuids(4) by (simp add: findByUserId_None)
  obtain u where u: "registerInsert env salt1 uuid1 t3 r1 (aw_users w) = (Inr (signToken env t3 uuid1 (rq_username r1)), aw_users w @ [u])"
    "ur_id u = uuid1" "ur_username u = rq_username r1"
    by (cases rule: registerInsert_cases [of env salt1 uuid1 t3 r1 "aw_users w"]) (use noname noid in auto)
  have w3: "w3 = authReply (Registered t3 r1 (Inr (signToken env t3 uuid1 (rq_username r1))))
      (w\<lparr>aw_users := aw_users w @ [u], aw_pending := jdel n1 (jput n2 r2 (jput n1 r1 (aw_pending w)))\<rparr>)"
    using numbers(1) by (simp add: w3_def w2 authStep_def u(1) authReply_def)
  have "registerInsert env salt2 uuid2 t4 r2 (aw_users w @ [u]) = (Inl (DatabaseError ''Unique constraint failed''), aw_users w @ [u])"
    by (cases rule: registerInsert_cases [of env salt2 uuid2 t4 r2 "aw_users w @ [u]"]) (use u(3) free(2) in auto)
  then have w4: "aw_users w4 = aw_users w @ [u]" "aw_log w4 = aw_log w3 @ [Registered t4 r2 (Inl (DatabaseError ''Unique constraint failed''))]"
    using numbers(1) by (simp_all add: w4_def w3 authStep_def authReply_def delete_conv')
  have "auth_trace env w1" unfolding w1_def by (rule auth_trace.step [OF run]) (simp add: authAccepts_def numbers)
  then have "auth_trace env w2" unfolding w2_def
    by (rule auth_trace.step) (use numbers in \<open>simp add: authAccepts_def w1 jhas_def\<close>)
  then have "auth_trace env w3" unfolding w3_def
    by (rule auth_trace.step) (use numbers uuids in \<open>simp add: authAccepts_def w2 jhas_def\<close>)
  then have tr: "auth_trace env w4" unfolding w4_def
    by (rule auth_trace.step) (use numbers uuids u(2) in \<open>auto simp: authAccepts_def w3 authReply_def jhas_def delete_conv' findByUserId_None\<close>)
  have "w4 = fold (authStep env) [RegisterArrives t1 n1 r1, RegisterArrives t2 n2 r2,
        RegisterCompletes n1 salt1 uuid1 t3, RegisterCompletes n2 salt2 uuid2 t4] w" by (simp add: w4_def w3_def w2_def w1_def)
  with tr w4 show ?thesis by (intro exI [of _ w4]) (simp add: w3 authReply_def)
qed

text \<open>
  Without the setting the secret is the one in the source: whoever reads it signs a token for any account, and every
  guard that runs without the setting lets the token in.
\<close>

lemma default_secret_forges:
  assumes "jwt_laws env seconds" "ae_secret env = None" "ae_bearer env header = Some (ae_sign env ''dev-secret-change-me'' e t (anyone, name))"
    "now < t + seconds e"
  shows "jwtGuard env now (Some header) = Inr (anyone, name)"
  using assms by (simp add: jwtGuard_def jwtSecret_def jwt_laws_def)

section \<open>A small environment\<close>

fun encodeStr :: "string \<Rightarrow> string" where
  "encodeStr [] = ''.''"
| "encodeStr (c # cs) = CHR ''x'' # c # encodeStr cs"

fun decodeStr :: "string \<Rightarrow> (string \<times> string) option" where
  "decodeStr (m # c # r) = (if m = CHR ''.'' then Some ([], c # r) else map_option (apfst (Cons c)) (decodeStr r))"
| "decodeStr [m] = Some ([], [])"
| "decodeStr [] = None"

lemma decode_encode: "decodeStr (encodeStr s @ r) = Some (s, r)"
proof (induction s)
  case Nil
  show ?case by (cases r) simp_all
qed simp

definition exampleSeconds :: "string \<Rightarrow> nat" where
  "exampleSeconds e = (if e = ''1h'' then 3600 else 604800)"

definition exampleSign :: "string \<Rightarrow> string \<Rightarrow> nat \<Rightarrow> string \<times> string \<Rightarrow> string" where
  "exampleSign secret expires issued payload =
     encodeStr secret @ encodeStr expires @ encodeStr (replicate issued CHR ''i'') @ encodeStr (fst payload) @ encodeStr (snd payload)"

definition exampleCheck :: "string \<Rightarrow> nat \<Rightarrow> string \<Rightarrow> (string \<times> string) option" where
  "exampleCheck secret now token =
     (case decodeStr token of None \<Rightarrow> None | Some (s, r1) \<Rightarrow>
      (case decodeStr r1 of None \<Rightarrow> None | Some (e, r2) \<Rightarrow>
      (case decodeStr r2 of None \<Rightarrow> None | Some (t, r3) \<Rightarrow>
      (case decodeStr r3 of None \<Rightarrow> None | Some (i, r4) \<Rightarrow>
      (case decodeStr r4 of None \<Rightarrow> None | Some (n, r5) \<Rightarrow>
        if s = secret \<and> now < length t + exampleSeconds e then Some (i, n) else None)))))"

definition exampleAuth :: auth_env where
  "exampleAuth = \<lparr>ae_hash = (\<lambda>salt p. CHR ''$'' # p), ae_compare = (\<lambda>p h. h = CHR ''$'' # p), ae_sign = exampleSign,
     ae_verify = exampleCheck, ae_bearer = (\<lambda>h. if take 7 h = ''Bearer '' then Some (drop 7 h) else None), ae_isUuid = (\<lambda>_. True),
     ae_secret = Some ''s'', ae_expires = Some ''1h''\<rparr>"

lemma example_jwt: "jwt_laws exampleAuth exampleSeconds"
proof -
  have "decodeStr (encodeStr s) = Some (s, [])" for s using decode_encode [of s "[]"] by simp
  then show ?thesis by (auto simp: jwt_laws_def exampleAuth_def exampleSign_def exampleCheck_def decode_encode)
qed

lemma example_bcrypt: "bcrypt_laws exampleAuth id"
  by (auto simp: bcrypt_laws_def exampleAuth_def)

definition exampleAnn :: register_request where
  "exampleAnn = \<lparr>rq_username = ''ann'', rq_password = ''pw'', rq_email = None\<rparr>"

definition exampleWorld :: auth_world where
  "exampleWorld = authStep exampleAuth (RegisterCompletes 0 ''salt'' ''u1'' 5) (authStep exampleAuth (RegisterArrives 5 0 exampleAnn) emptyAuth)"

lemma example_world: "auth_trace exampleAuth exampleWorld"
proof -
  have "auth_trace exampleAuth (authStep exampleAuth (RegisterArrives 5 0 exampleAnn) emptyAuth)"
    by (rule auth_trace.step [OF auth_trace.start]) (simp add: authAccepts_def emptyAuth_def jhas_def)
  then show ?thesis unfolding exampleWorld_def
    by (rule auth_trace.step) (simp add: authAccepts_def authStep_def emptyAuth_def createCheck_def findByUsername_def findByUserId_def jhas_def exampleAuth_def)
qed

lemma example_parts:
  "aw_log exampleWorld = [Registered 5 exampleAnn (Inr (signToken exampleAuth 5 ''u1'' ''ann''))]" "aw_pending exampleWorld = []"
  "aw_users exampleWorld = [\<lparr>ur_id = ''u1'', ur_username = ''ann'', ur_email = None, ur_passwordHash = ''$pw'', ur_createdAt = 5\<rparr>]"
  by (simp_all add: exampleWorld_def authStep_def emptyAuth_def createCheck_def findByUsername_def registerInsert_def createInsert_def
      insertUser_def summaryOf_def authReply_def exampleAnn_def) (simp add: exampleAuth_def)

lemma granted_tokens_name_accounts_witness:
  "ae_verify exampleAuth ''s'' 3604 (ar_accessToken (signToken exampleAuth 5 ''u1'' ''ann'')) = Some (''u1'', ''ann'') \<and>
   ae_verify exampleAuth ''s'' 3605 (ar_accessToken (signToken exampleAuth 5 ''u1'' ''ann'')) = None"
  using granted_tokens_name_accounts [OF example_world example_jwt]
  by (simp add: example_parts) (simp add: exampleAuth_def jwtSecret_def jwtExpiry_def exampleSeconds_def)

lemma login_needs_password_witness:
  "login exampleAuth 9 \<lparr>lq_username = ''ann'', lq_password = ''pw''\<rparr> (aw_users exampleWorld) = Inr (signToken exampleAuth 9 ''u1'' ''ann'') \<and>
   \<not> ok (login exampleAuth 9 \<lparr>lq_username = ''ann'', lq_password = ''pW''\<rparr> (aw_users exampleWorld))"
  using login_needs_password [OF example_world example_bcrypt, of 9 "\<lparr>lq_username = ''ann'', lq_password = ''pw''\<rparr>" "signToken exampleAuth 9 ''u1'' ''ann''"]
    login_needs_password [OF example_world example_bcrypt, of 9 "\<lparr>lq_username = ''ann'', lq_password = ''pW''\<rparr>"]
  by (auto simp: ok_iff example_parts(1) exampleAnn_def)

lemma register_race_witness:
  "\<exists>w'. auth_trace exampleAuth w' \<and> Registered 9 \<lparr>rq_username = ''bob'', rq_password = ''b'', rq_email = None\<rparr>
     (Inl (DatabaseError ''Unique constraint failed'')) \<in> set (aw_log w')"
  using register_race [OF example_world, of "\<lparr>rq_username = ''bob'', rq_password = ''a'', rq_email = None\<rparr>"
      "\<lparr>rq_username = ''bob'', rq_password = ''b'', rq_email = None\<rparr>" 1 2 "''u2''" "''u3''" 6 7 "''x''" 8 "''y''" 9]
  by (auto simp: example_parts findByUsername_def findByUserId_def jhas_def exampleAuth_def)

end
