(* ===== verification/Gateway.thy ===== *)
theory Gateway
  imports Bus
begin

text \<open>
  The realtime gateway, \<open>apps/realtime-gateway/src/realtime\<close>: the registry of subscriptions
  (\<open>room-registry.service.ts\<close>), the handlers of a socket (\<open>realtime.gateway.ts\<close>) and the relay of
  bus events (\<open>event-relay.service.ts\<close>). What the gateway asks of Socket.io and of the bus is a trace
  of outputs in the order of the calls. The verification of a token is a parameter; so is the
  membership of Socket.io's rooms, of which only the documented laws are assumed.
\<close>

section \<open>The registry (room-registry.service.ts)\<close>

record gw_registry =
  rr_bySocket :: "(string, string list) jsmap"
  rr_byGame :: "(string, (string, string option) jsmap) jsmap"

definition emptyRegistry :: gw_registry where
  "emptyRegistry = \<lparr>rr_bySocket = [], rr_byGame = []\<rparr>"

definition attach :: "string \<Rightarrow> string \<Rightarrow> string option \<Rightarrow> gw_registry \<Rightarrow> gw_registry" where
  "attach gameId socketId userId rr =
     (let byGame = (if jhas (rr_byGame rr) gameId then rr_byGame rr else jput gameId [] (rr_byGame rr));
          byGame1 = jput gameId (jput socketId userId (case jget byGame gameId of Some m \<Rightarrow> m | None \<Rightarrow> [])) byGame;
          bySocket = (if jhas (rr_bySocket rr) socketId then rr_bySocket rr else jput socketId [] (rr_bySocket rr));
          bySocket1 = jput socketId (jadd gameId (case jget bySocket socketId of Some gs \<Rightarrow> gs | None \<Rightarrow> [])) bySocket
      in \<lparr>rr_bySocket = bySocket1, rr_byGame = byGame1\<rparr>)"

text \<open>\<open>map.get(k)?.delete(x)\<close>\<close>

definition dropFromGame :: "string \<Rightarrow> string \<Rightarrow> gw_registry \<Rightarrow> gw_registry" where
  "dropFromGame socketId gameId rr =
     (case jget (rr_byGame rr) gameId of
        None \<Rightarrow> rr
      | Some m \<Rightarrow> rr\<lparr>rr_byGame := jput gameId (jdel socketId m) (rr_byGame rr)\<rparr>)"

definition detach :: "string \<Rightarrow> string \<Rightarrow> gw_registry \<Rightarrow> gw_registry" where
  "detach gameId socketId rr =
     (let rr1 = dropFromGame socketId gameId rr
      in case jget (rr_bySocket rr1) socketId of
           None \<Rightarrow> rr1
         | Some gs \<Rightarrow> rr1\<lparr>rr_bySocket := jput socketId (filter (\<lambda>g. g \<noteq> gameId) gs) (rr_bySocket rr1)\<rparr>)"

definition removeSocket :: "string \<Rightarrow> gw_registry \<Rightarrow> gw_registry" where
  "removeSocket socketId rr =
     (case jget (rr_bySocket rr) socketId of
        None \<Rightarrow> rr
      | Some games \<Rightarrow> (fold (dropFromGame socketId) games rr)\<lparr>rr_bySocket := jdel socketId (rr_bySocket rr)\<rparr>)"

definition socketsForGame :: "string \<Rightarrow> gw_registry \<Rightarrow> (string, string option) jsmap" where
  "socketsForGame gameId rr = (case jget (rr_byGame rr) gameId of Some m \<Rightarrow> m | None \<Rightarrow> [])"

section \<open>The handlers of a socket (realtime.gateway.ts)\<close>

text \<open>The first occurrence of a pattern is replaced, as \<open>String.replace\<close> with a string does.\<close>

fun replaceFirst :: "string \<Rightarrow> string \<Rightarrow> string \<Rightarrow> string" where
  "replaceFirst pat r [] = (if pat = [] then r else [])"
| "replaceFirst pat r (c # cs) =
     (if take (length pat) (c # cs) = pat then r @ drop (length pat) (c # cs) else c # replaceFirst pat r cs)"

record 'p command_body =
  cb_gameId :: string
  cb_type :: string
  cb_payload :: 'p
  cb_clientSeq :: "int option"

text \<open>What passes from the gateway to its sockets and to the bus. A socket without a verified token has no user.\<close>

datatype ('p, 'e, 'v) gw_output =
    Join string string
  | Leave string string
  | Emit string "('e, 'v) bus_event"
  | EmitError string string
  | Disconnect string
  | Opened string
  | Closed string
  | PublishCommand string "string option" "'p command_body" string

record ('p, 'e, 'v) gateway =
  gw_data :: "(string, string \<times> string) jsmap"
  gw_registry :: gw_registry
  gw_out :: "('p, 'e, 'v) gw_output list"

definition emptyGateway :: "('p, 'e, 'v) gateway" where
  "emptyGateway = \<lparr>gw_data = [], gw_registry = emptyRegistry, gw_out = []\<rparr>"

definition gwOut :: "('p, 'e, 'v) gw_output list \<Rightarrow> ('p, 'e, 'v) gateway \<Rightarrow> ('p, 'e, 'v) gateway" where
  "gwOut os gw = gw\<lparr>gw_out := gw_out gw @ os\<rparr>"

definition tokenOf :: "string option \<Rightarrow> string option \<Rightarrow> string option" where
  "tokenOf authToken authorization =
     (case authToken of Some t \<Rightarrow> Some t | None \<Rightarrow> map_option (replaceFirst ''Bearer '' '''') authorization)"

definition handleConnection ::
  "(string \<Rightarrow> (string \<times> string) option) \<Rightarrow> string \<Rightarrow> string option \<Rightarrow> string option \<Rightarrow> ('p, 'e, 'v) gateway \<Rightarrow> ('p, 'e, 'v) gateway" where
  "handleConnection verify sid authToken authorization gw =
     (case truthy (tokenOf authToken authorization) of
        None \<Rightarrow> gwOut [EmitError sid ''no-token'', Disconnect sid] gw
      | Some token \<Rightarrow>
          (case verify token of
             Some payload \<Rightarrow> gw\<lparr>gw_data := jput sid payload (gw_data gw)\<rparr>
           | None \<Rightarrow> gwOut [EmitError sid ''bad-token'', Disconnect sid] gw))"

definition handleDisconnect :: "string \<Rightarrow> ('p, 'e, 'v) gateway \<Rightarrow> ('p, 'e, 'v) gateway" where
  "handleDisconnect sid gw = gw\<lparr>gw_registry := removeSocket sid (gw_registry gw)\<rparr>"

definition userOf :: "string \<Rightarrow> ('p, 'e, 'v) gateway \<Rightarrow> string option" where
  "userOf sid gw = map_option fst (jget (gw_data gw) sid)"

definition gameRoom :: "string \<Rightarrow> string" where
  "gameRoom gameId = ''game:'' @ gameId"

definition subscribeGame :: "string \<Rightarrow> string \<Rightarrow> ('p, 'e, 'v) gateway \<Rightarrow> ('p, 'e, 'v) gateway" where
  "subscribeGame sid gameId gw =
     gwOut [Join sid (gameRoom gameId)] (gw\<lparr>gw_registry := attach gameId sid (userOf sid gw) (gw_registry gw)\<rparr>)"

definition unsubscribeGame :: "string \<Rightarrow> string \<Rightarrow> ('p, 'e, 'v) gateway \<Rightarrow> ('p, 'e, 'v) gateway" where
  "unsubscribeGame sid gameId gw =
     gwOut [Leave sid (gameRoom gameId)] (gw\<lparr>gw_registry := detach gameId sid (gw_registry gw)\<rparr>)"

definition gwCommand :: "string \<Rightarrow> 'p command_body \<Rightarrow> ('p, 'e, 'v) gateway \<Rightarrow> ('p, 'e, 'v) gateway" where
  "gwCommand sid body gw = gwOut [PublishCommand (gameCommandKey (cb_gameId body)) (userOf sid gw) body sid] gw"

section \<open>The relay (event-relay.service.ts)\<close>

definition dispatch :: "('e, 'v) bus_event \<Rightarrow> ('p, 'e, 'v) gateway \<Rightarrow> ('p, 'e, 'v) gateway" where
  "dispatch event gw =
     (case truthy (be_privateTo event) of
        Some user \<Rightarrow>
          gwOut (map (\<lambda>(sid, uid). Emit sid event)
            (filter (\<lambda>(sid, uid). uid = Some user) (socketsForGame (be_gameId event) (gw_registry gw)))) gw
      | None \<Rightarrow> gwOut [Emit (gameRoom (be_gameId event)) event] gw)"

section \<open>Runs of the gateway\<close>

text \<open>
  Socket.io opens a socket under a fresh identifier (which never looks like a room of a game), puts it
  into the room of that name, and takes it out of all rooms when it closes; only open sockets send.
\<close>

datatype ('p, 'e, 'v) gw_input =
    Connect string "string option" "string option"
  | Disconnected string
  | Subscribe string string
  | Unsubscribe string string
  | GameCommand string "'p command_body"
  | BusEvent "('e, 'v) bus_event"

definition gwStep ::
  "(string \<Rightarrow> (string \<times> string) option) \<Rightarrow> ('p, 'e, 'v) gw_input \<Rightarrow> ('p, 'e, 'v) gateway \<Rightarrow> ('p, 'e, 'v) gateway" where
  "gwStep verify inp gw =
     (case inp of
        Connect sid authToken authorization \<Rightarrow> handleConnection verify sid authToken authorization (gwOut [Opened sid] gw)
      | Disconnected sid \<Rightarrow> handleDisconnect sid (gwOut [Closed sid] gw)
      | Subscribe sid gameId \<Rightarrow> subscribeGame sid gameId gw
      | Unsubscribe sid gameId \<Rightarrow> unsubscribeGame sid gameId gw
      | GameCommand sid body \<Rightarrow> gwCommand sid body gw
      | BusEvent event \<Rightarrow> dispatch event gw)"

definition opened :: "('p, 'e, 'v) gw_input list \<Rightarrow> string \<Rightarrow> bool" where
  "opened ins sid \<longleftrightarrow> (\<exists>a h. Connect sid a h \<in> set ins)"

definition isOpen :: "('p, 'e, 'v) gw_input list \<Rightarrow> string \<Rightarrow> bool" where
  "isOpen ins sid \<longleftrightarrow> opened ins sid \<and> Disconnected sid \<notin> set ins"

definition gwAccepts :: "('p, 'e, 'v) gw_input list \<Rightarrow> ('p, 'e, 'v) gw_input \<Rightarrow> bool" where
  "gwAccepts ins inp \<longleftrightarrow>
     (case inp of
        Connect sid a h \<Rightarrow> \<not> opened ins sid \<and> (\<forall>g. sid \<noteq> gameRoom g)
      | Disconnected sid \<Rightarrow> isOpen ins sid
      | Subscribe sid g \<Rightarrow> isOpen ins sid
      | Unsubscribe sid g \<Rightarrow> isOpen ins sid
      | GameCommand sid b \<Rightarrow> isOpen ins sid
      | BusEvent e \<Rightarrow> True)"

inductive gw_trace :: "(string \<Rightarrow> (string \<times> string) option) \<Rightarrow> ('p, 'e, 'v) gw_input list \<Rightarrow> ('p, 'e, 'v) gateway \<Rightarrow> bool" for verify where
  start: "gw_trace verify [] emptyGateway"
| step: "gw_trace verify ins gw \<Longrightarrow> gwAccepts ins inp \<Longrightarrow> gw_trace verify (ins @ [inp]) (gwStep verify inp gw)"

text \<open>The laws of Socket.io's rooms: who is in a room after a sequence of calls.\<close>

definition room_laws :: "(('p, 'e, 'v) gw_output list \<Rightarrow> string \<Rightarrow> string \<Rightarrow> bool) \<Rightarrow> bool" where
  "room_laws inRoom \<longleftrightarrow> (\<forall>os room x.
     \<not> inRoom [] room x \<and>
     (\<forall>s. inRoom (os @ [Opened s]) room x = (inRoom os room x \<or> x = s \<and> room = s)) \<and>
     (\<forall>s. inRoom (os @ [Closed s]) room x = (inRoom os room x \<and> x \<noteq> s)) \<and>
     (\<forall>s r. inRoom (os @ [Join s r]) room x = (inRoom os room x \<or> x = s \<and> room = r)) \<and>
     (\<forall>s r. inRoom (os @ [Leave s r]) room x = (inRoom os room x \<and> \<not> (x = s \<and> room = r))) \<and>
     (\<forall>t e. inRoom (os @ [Emit t e]) room x = inRoom os room x) \<and>
     (\<forall>s c. inRoom (os @ [EmitError s c]) room x = inRoom os room x) \<and>
     (\<forall>s. inRoom (os @ [Disconnect s]) room x = inRoom os room x) \<and>
     (\<forall>k u b s. inRoom (os @ [PublishCommand k u b s]) room x = inRoom os room x))"

section \<open>What the inputs say\<close>

text \<open>The sockets that follow a game, and the user a socket has proved to be.\<close>

fun follows_step :: "string \<Rightarrow> string \<Rightarrow> ('p, 'e, 'v) gw_input \<Rightarrow> bool \<Rightarrow> bool" where
  "follows_step g x (Subscribe s g') b = (b \<or> s = x \<and> g' = g)"
| "follows_step g x (Unsubscribe s g') b = (b \<and> \<not> (s = x \<and> g' = g))"
| "follows_step g x (Disconnected s) b = (b \<and> s \<noteq> x)"
| "follows_step g x _ b = b"

definition follows :: "('p, 'e, 'v) gw_input list \<Rightarrow> string \<Rightarrow> string \<Rightarrow> bool" where
  "follows ins g x = fold (follows_step g x) ins False"

definition provedUser :: "(string \<Rightarrow> (string \<times> string) option) \<Rightarrow> ('p, 'e, 'v) gw_input list \<Rightarrow> string \<Rightarrow> string \<Rightarrow> bool" where
  "provedUser verify ins x u \<longleftrightarrow> (\<exists>a h token n. Connect x a h \<in> set ins \<and> tokenOf a h = Some token \<and> token \<noteq> [] \<and> verify token = Some (u, n))"

definition receivers :: "(('p, 'e, 'v) gw_output list \<Rightarrow> string \<Rightarrow> string \<Rightarrow> bool) \<Rightarrow> ('p, 'e, 'v) gw_output list \<Rightarrow> ('p, 'e, 'v) gw_output list \<Rightarrow> string \<Rightarrow> bool" where
  "receivers inRoom before sent x \<longleftrightarrow> (\<exists>target e. Emit target e \<in> set sent \<and> inRoom before target x)"

section \<open>The two indexes of the registry\<close>

definition regUser :: "gw_registry \<Rightarrow> string \<Rightarrow> string \<Rightarrow> string option option" where
  "regUser rr g x = (case jget (rr_byGame rr) g of None \<Rightarrow> None | Some m \<Rightarrow> jget m x)"

definition regGame :: "gw_registry \<Rightarrow> string \<Rightarrow> string \<Rightarrow> bool" where
  "regGame rr x g \<longleftrightarrow> (\<exists>gs. jget (rr_bySocket rr) x = Some gs \<and> g \<in> set gs)"

text \<open>The indexes list the same pairs, and a game lists a socket once.\<close>

definition registry_ok :: "gw_registry \<Rightarrow> bool" where
  "registry_ok rr \<longleftrightarrow> (\<forall>x g. regGame rr x g \<longleftrightarrow> regUser rr g x \<noteq> None) \<and>
     (\<forall>g m. jget (rr_byGame rr) g = Some m \<longrightarrow> distinct (jkeys m))"

lemma regUser_attach: "regUser (attach g s u rr) g' x = (if g' = g \<and> x = s then Some u else regUser rr g' x)"
  by (auto simp: regUser_def attach_def Let_def jhas_def split: option.split)

lemma regGame_attach: "regGame (attach g s u rr) x g' = (g' = g \<and> x = s \<or> regGame rr x g')"
  by (auto simp: regGame_def attach_def Let_def jhas_def split: option.split if_splits)

lemma byGame_attach:
  "jget (rr_byGame (attach g s u rr)) g' = (if g' = g then Some (jput s u (case jget (rr_byGame rr) g of Some m \<Rightarrow> m | None \<Rightarrow> [])) else jget (rr_byGame rr) g')"
  by (auto simp: attach_def Let_def jhas_def split: option.split)

lemma dropFromGame_parts [simp]:
  "regUser (dropFromGame s g rr) g' x = (if g' = g \<and> x = s then None else regUser rr g' x)"
  "rr_bySocket (dropFromGame s g rr) = rr_bySocket rr"
  "jget (rr_byGame (dropFromGame s g rr)) g' = (if g' = g then map_option (jdel s) (jget (rr_byGame rr) g) else jget (rr_byGame rr) g')"
  by (auto simp: regUser_def dropFromGame_def split: option.split)

lemma regUser_bySocket [simp]: "regUser (rr\<lparr>rr_bySocket := b\<rparr>) = regUser rr"
  by (simp add: regUser_def fun_eq_iff)

lemma regUser_detach: "regUser (detach g s rr) g' x = (if g' = g \<and> x = s then None else regUser rr g' x)"
  by (simp add: detach_def Let_def split: option.split)

lemma regGame_detach: "regGame (detach g s rr) x g' = (regGame rr x g' \<and> \<not> (g' = g \<and> x = s))"
  by (auto simp: regGame_def detach_def Let_def split: option.split if_splits)

lemma dropAll_user: "regUser (fold (dropFromGame s) gs rr) g x = (if g \<in> set gs \<and> x = s then None else regUser rr g x)"
  by (induction gs arbitrary: rr) simp_all

lemma dropAll_bySocket [simp]: "rr_bySocket (fold (dropFromGame s) gs rr) = rr_bySocket rr"
  by (induction gs arbitrary: rr) simp_all

definition keysDistinct :: "gw_registry \<Rightarrow> bool" where
  "keysDistinct rr \<longleftrightarrow> (\<forall>g m. jget (rr_byGame rr) g = Some m \<longrightarrow> distinct (jkeys m))"

lemma drop_distinct: "keysDistinct rr \<Longrightarrow> keysDistinct (dropFromGame s g rr)"
  by (auto simp: keysDistinct_def)

lemma dropAll_distinct: "keysDistinct rr \<Longrightarrow> keysDistinct (fold (dropFromGame s) gs rr)"
  by (induction gs arbitrary: rr) (simp_all add: drop_distinct)

lemma registry_ok_iff: "registry_ok rr \<longleftrightarrow> (\<forall>x g. regGame rr x g \<longleftrightarrow> regUser rr g x \<noteq> None) \<and> keysDistinct rr"
  by (simp add: registry_ok_def keysDistinct_def)

lemma registry_okD: "registry_ok rr \<Longrightarrow> \<not> regGame rr x g \<Longrightarrow> regUser rr g x = None"
  by (simp add: registry_ok_def)

lemma regUser_remove:
  assumes "registry_ok rr"
  shows "regUser (removeSocket s rr) g x = (if x = s then None else regUser rr g x)"
proof (cases "jget (rr_bySocket rr) s")
  case None
  then have "regUser rr g s = None" using registry_okD [OF assms] by (simp add: regGame_def)
  with None show ?thesis by (simp add: removeSocket_def)
next
  case (Some gs)
  have "g \<notin> set gs \<Longrightarrow> regUser rr g s = None" using registry_okD [OF assms, of s g] Some by (simp add: regGame_def)
  with Some show ?thesis by (auto simp: removeSocket_def dropAll_user)
qed

lemma regGame_remove: "regGame (removeSocket s rr) x g = (x \<noteq> s \<and> regGame rr x g)"
  by (auto simp: regGame_def removeSocket_def split: option.split)

lemma registry_ok_attach:
  assumes "registry_ok rr"
  shows "registry_ok (attach g s u rr)"
proof -
  have k: "keysDistinct rr" using assms by (simp add: registry_ok_iff)
  then have "distinct (jkeys (case jget (rr_byGame rr) g of Some m \<Rightarrow> m | None \<Rightarrow> []))"
    by (simp add: keysDistinct_def split: option.split)
  from distinct_jput [OF this] k have "keysDistinct (attach g s u rr)"
    unfolding keysDistinct_def byGame_attach by (metis option.inject)
  with assms show ?thesis by (auto simp add: registry_ok_iff regUser_attach regGame_attach)
qed

lemma registry_ok_detach:
  assumes "registry_ok rr"
  shows "registry_ok (detach g s rr)"
proof -
  have "rr_byGame (detach g s rr) = rr_byGame (dropFromGame s g rr)" by (simp add: detach_def Let_def split: option.split)
  then have "keysDistinct (detach g s rr)" using assms drop_distinct [of rr s g] by (simp add: registry_ok_iff keysDistinct_def)
  with assms show ?thesis by (simp add: registry_ok_iff regUser_detach regGame_detach)
qed

lemma registry_ok_remove:
  assumes "registry_ok rr"
  shows "registry_ok (removeSocket s rr)"
proof -
  have "keysDistinct (rr\<lparr>rr_bySocket := b\<rparr>) = keysDistinct rr" for rr b by (simp add: keysDistinct_def)
  then have "keysDistinct (removeSocket s rr)"
    using assms dropAll_distinct [of rr s] by (simp add: removeSocket_def registry_ok_iff split: option.split)
  with assms show ?thesis unfolding registry_ok_iff [of "removeSocket s rr"] regUser_remove [OF assms] regGame_remove
    by (simp add: registry_ok_iff)
qed

section \<open>The invariant of a run\<close>

lemma inRoom_snoc:
  assumes "room_laws inRoom"
  shows "\<not> inRoom [] room x" "inRoom (os @ [Opened s]) room x = (inRoom os room x \<or> x = s \<and> room = s)"
    "inRoom (os @ [Closed s]) room x = (inRoom os room x \<and> x \<noteq> s)"
    "inRoom (os @ [Join s r]) room x = (inRoom os room x \<or> x = s \<and> room = r)"
    "inRoom (os @ [Leave s r]) room x = (inRoom os room x \<and> \<not> (x = s \<and> room = r))"
    "inRoom (os @ [Emit r ev]) room x = inRoom os room x"
    "inRoom (os @ [EmitError s c]) room x = inRoom os room x" "inRoom (os @ [Disconnect s]) room x = inRoom os room x"
    "inRoom (os @ [PublishCommand k u b s]) room x = inRoom os room x"
  using assms unfolding room_laws_def by simp_all

lemma inRoom_refused: "room_laws inRoom \<Longrightarrow> inRoom (os @ [EmitError s c, Disconnect s]) room x = inRoom os room x"
  using inRoom_snoc(8) [of inRoom "os @ [EmitError s c]" s room x] inRoom_snoc(7) [of inRoom os s c room x] by simp

lemma inRoom_emits:
  assumes "room_laws inRoom"
  shows "inRoom (os @ map (\<lambda>i. Emit (f i) e) xs) room x = inRoom os room x"
proof (induction xs arbitrary: os)
  case (Cons i xs)
  from Cons.IH [of "os @ [Emit (f i) e]"] show ?case by (simp add: inRoom_snoc(6) [OF assms])
qed simp

lemma gameRoom_inj [simp]: "gameRoom g = gameRoom g' \<longleftrightarrow> g = g'"
  by (simp add: gameRoom_def)

lemma follows_snoc: "follows (ins @ [inp]) g x = follows_step g x inp (follows ins g x)"
  by (simp add: follows_def)

definition gw_inv ::
  "(string \<Rightarrow> (string \<times> string) option) \<Rightarrow> ('p, 'e, 'v) gw_input list \<Rightarrow> ('p, 'e, 'v) gateway \<Rightarrow> bool" where
  "gw_inv verify ins gw \<longleftrightarrow> registry_ok (gw_registry gw) \<and>
     (\<forall>g x. regUser (gw_registry gw) g x = (if follows ins g x then Some (userOf x gw) else None)) \<and>
     (\<forall>x u. userOf x gw = Some u \<longleftrightarrow> provedUser verify ins x u) \<and>
     (\<forall>g x. follows ins g x \<longrightarrow> isOpen ins x) \<and> (\<forall>x. Disconnected x \<in> set ins \<longrightarrow> opened ins x) \<and> (\<forall>x g. opened ins x \<longrightarrow> x \<noteq> gameRoom g) \<and>
     (\<forall>k u b x. PublishCommand k u b x \<in> set (gw_out gw) \<longrightarrow> k = gameCommandKey (cb_gameId b) \<and> opened ins x \<and> u = userOf x gw)"

definition rooms_inv ::
  "(('p, 'e, 'v) gw_output list \<Rightarrow> string \<Rightarrow> string \<Rightarrow> bool) \<Rightarrow> ('p, 'e, 'v) gw_input list \<Rightarrow> ('p, 'e, 'v) gateway \<Rightarrow> bool" where
  "rooms_inv inRoom ins gw \<longleftrightarrow> (\<forall>g x. inRoom (gw_out gw) (gameRoom g) x = follows ins g x) \<and>
     (\<forall>r x. (\<forall>g. r \<noteq> gameRoom g) \<longrightarrow> inRoom (gw_out gw) r x = (x = r \<and> isOpen ins x))"

lemma opened_snoc: "opened (ins @ [inp]) x \<longleftrightarrow> opened ins x \<or> (\<exists>a h. inp = Connect x a h)"
  by (auto simp: opened_def)

lemma isOpen_simps [simp]:
  "isOpen (ins @ [Disconnected s]) x \<longleftrightarrow> isOpen ins x \<and> x \<noteq> s" "isOpen (ins @ [Subscribe s g]) x = isOpen ins x"
  "isOpen (ins @ [Unsubscribe s g]) x = isOpen ins x" "isOpen (ins @ [GameCommand s b]) x = isOpen ins x"
  "isOpen (ins @ [BusEvent e]) x = isOpen ins x"
  by (auto simp: isOpen_def opened_snoc)

lemma provedUser_snoc:
  "provedUser verify (ins @ [inp]) x u \<longleftrightarrow> provedUser verify ins x u \<or>
     (\<exists>a h token n. inp = Connect x a h \<and> tokenOf a h = Some token \<and> token \<noteq> [] \<and> verify token = Some (u, n))"
  by (auto simp: provedUser_def)

lemma gwOut_sel [simp]:
  "gw_data (gwOut os gw) = gw_data gw" "gw_registry (gwOut os gw) = gw_registry gw" "gw_out (gwOut os gw) = gw_out gw @ os"
  "userOf x (gwOut os gw) = userOf x gw"
  by (simp_all add: gwOut_def userOf_def)

lemma gw_invD:
  assumes "gw_inv verify ins gw"
  shows "registry_ok (gw_registry gw)" "regUser (gw_registry gw) g x = (if follows ins g x then Some (userOf x gw) else None)"
    "userOf x gw = Some u \<longleftrightarrow> provedUser verify ins x u" "follows ins g x \<Longrightarrow> isOpen ins x"
    "Disconnected x \<in> set ins \<Longrightarrow> opened ins x" "opened ins x \<Longrightarrow> x \<noteq> gameRoom g"
    "PublishCommand k u' b x \<in> set (gw_out gw) \<Longrightarrow> k = gameCommandKey (cb_gameId b) \<and> opened ins x \<and> u' = userOf x gw"
  using assms unfolding gw_inv_def by blast+

lemma gw_invI:
  assumes "registry_ok (gw_registry gw)" "\<And>g x. regUser (gw_registry gw) g x = (if follows ins g x then Some (userOf x gw) else None)"
    "\<And>x u. userOf x gw = Some u \<longleftrightarrow> provedUser verify ins x u" "\<And>g x. follows ins g x \<Longrightarrow> isOpen ins x"
    "\<And>x. Disconnected x \<in> set ins \<Longrightarrow> opened ins x" "\<And>x g. opened ins x \<Longrightarrow> x \<noteq> gameRoom g"
    "\<And>k u b x. PublishCommand k u b x \<in> set (gw_out gw) \<Longrightarrow> k = gameCommandKey (cb_gameId b) \<and> opened ins x \<and> u = userOf x gw"
  shows "gw_inv verify ins gw"
  using assms unfolding gw_inv_def by blast

lemma gw_inv_start: "gw_inv verify [] emptyGateway"
  by (rule gw_invI) (simp_all add: emptyGateway_def emptyRegistry_def registry_ok_def regUser_def regGame_def follows_def userOf_def
      provedUser_def opened_def)

lemma connect_cases:
  fixes gw :: "('p, 'e, 'v) gateway"
  assumes gw': "gw' = handleConnection verify s a h gw"
  obtains token p where "tokenOf a h = Some token" "token \<noteq> []" "verify token = Some p" "gw' = gw\<lparr>gw_data := jput s p (gw_data gw)\<rparr>"
  | c where "\<And>token. tokenOf a h = Some token \<Longrightarrow> token \<noteq> [] \<Longrightarrow> verify token = None" "gw' = gwOut [EmitError s c, Disconnect s] gw"
  using assms by (cases "tokenOf a h"; cases "verify (the (tokenOf a h))")
    (auto simp: handleConnection_def truthy_def split: option.splits if_splits)

lemma fresh_unproved: "\<not> opened ins s \<Longrightarrow> \<not> provedUser verify ins s u"
  by (auto simp: opened_def provedUser_def)

lemma isOpen_opened: "isOpen ins x \<Longrightarrow> opened ins x"
  by (simp add: isOpen_def)

lemma gw_inv_connect:
  assumes inv: "gw_inv verify ins gw" and acc: "gwAccepts ins (Connect s a h)"
  shows "gw_inv verify (ins @ [Connect s a h]) (gwStep verify (Connect s a h) gw)" (is "gw_inv verify ?ins ?gw'")
proof -
  note I = gw_invD [OF inv]
  have fresh: "\<not> opened ins s" "\<And>g. s \<noteq> gameRoom g" using acc by (simp_all add: gwAccepts_def)
  have none: "userOf s gw = None" using I(3) [of s] fresh_unproved [OF fresh(1)] by (cases "userOf s gw") auto
  have fol: "follows ?ins g x = follows ins g x" for g x by (simp add: follows_snoc)
  have notfol: "follows ins g x \<Longrightarrow> x \<noteq> s" for g x using I(4) isOpen_opened fresh(1) by blast
  let ?gw1 = "gwOut [Opened s] gw"
  have gw': "?gw' = handleConnection verify s a h ?gw1" by (simp add: gwStep_def)
  have frame: "gw_registry ?gw' = gw_registry gw \<and>
    (\<forall>k u b x. PublishCommand k u b x \<in> set (gw_out ?gw') \<longrightarrow> PublishCommand k u b x \<in> set (gw_out gw)) \<and>
    (\<forall>x. x \<noteq> s \<longrightarrow> userOf x ?gw' = userOf x gw) \<and>
    (\<forall>u. userOf s ?gw' = Some u \<longleftrightarrow> (\<exists>token n. tokenOf a h = Some token \<and> token \<noteq> [] \<and> verify token = Some (u, n)))"
    using gw'
  proof (cases rule: connect_cases)
    case (1 token p)
    then show ?thesis by (cases p) (auto simp: userOf_def)
  next
    case (2 c)
    then show ?thesis using none by (auto simp: userOf_def)
  qed
  show ?thesis
  proof (rule gw_invI)
    show "registry_ok (gw_registry ?gw')" using frame I(1) by simp
    show "regUser (gw_registry ?gw') g x = (if follows ?ins g x then Some (userOf x ?gw') else None)" for g x
      using frame I(2) [of g x] notfol [of g x] by (simp add: fol)
    show "userOf x ?gw' = Some u \<longleftrightarrow> provedUser verify ?ins x u" for x u
      using frame I(3) [of x u] fresh_unproved [OF fresh(1)] by (cases "x = s") (auto simp: provedUser_snoc)
    show "follows ?ins g x \<Longrightarrow> isOpen ?ins x" for g x using I(4) [of g x] by (simp add: fol isOpen_def opened_snoc)
    show "Disconnected x \<in> set ?ins \<Longrightarrow> opened ?ins x" for x using I(5) [of x] by (simp add: opened_snoc)
    show "opened ?ins x \<Longrightarrow> x \<noteq> gameRoom g" for x g using I(6) [of x g] fresh(2) by (auto simp: opened_snoc)
    show "k = gameCommandKey (cb_gameId b) \<and> opened ?ins x \<and> u = userOf x ?gw'" if "PublishCommand k u b x \<in> set (gw_out ?gw')" for k u b x
      using frame that I(7) [of k u b x] fresh(1) by (cases "x = s") (auto simp: opened_snoc)
  qed
qed

lemma gw_inv_other:
  assumes inv: "gw_inv verify ins gw" and acc: "gwAccepts ins inp" and notc: "\<And>s a h. inp \<noteq> Connect s a h"
    and data: "gw_data gw' = gw_data gw" and reg: "registry_ok (gw_registry gw')"
    and users: "\<And>g x. regUser (gw_registry gw') g x = (if follows (ins @ [inp]) g x then Some (userOf x gw) else None)"
    and open': "\<And>g x. follows (ins @ [inp]) g x \<Longrightarrow> isOpen (ins @ [inp]) x"
    and out: "\<And>k u b x. PublishCommand k u b x \<in> set (gw_out gw') \<Longrightarrow> PublishCommand k u b x \<in> set (gw_out gw) \<or>
      (k = gameCommandKey (cb_gameId b) \<and> isOpen ins x \<and> u = userOf x gw)"
  shows "gw_inv verify (ins @ [inp]) gw'"
proof (rule gw_invI)
  note I = gw_invD [OF inv]
  have user: "userOf x gw' = userOf x gw" for x by (simp add: userOf_def data)
  have op: "opened (ins @ [inp]) x = opened ins x" for x using notc by (auto simp: opened_snoc)
  show "registry_ok (gw_registry gw')" by (rule reg)
  show "regUser (gw_registry gw') g x = (if follows (ins @ [inp]) g x then Some (userOf x gw') else None)" for g x
    using users by (simp add: user)
  show "userOf x gw' = Some u \<longleftrightarrow> provedUser verify (ins @ [inp]) x u" for x u
    using I(3) [of x u] notc by (simp add: user provedUser_snoc)
  show "follows (ins @ [inp]) g x \<Longrightarrow> isOpen (ins @ [inp]) x" for g x by (rule open')
  show "Disconnected x \<in> set (ins @ [inp]) \<Longrightarrow> opened (ins @ [inp]) x" for x
    using I(5) [of x] acc by (auto simp: op gwAccepts_def isOpen_opened)
  show "opened (ins @ [inp]) x \<Longrightarrow> x \<noteq> gameRoom g" for x g using I(6) [of x g] by (simp add: op)
  show "k = gameCommandKey (cb_gameId b) \<and> opened (ins @ [inp]) x \<and> u = userOf x gw'" if "PublishCommand k u b x \<in> set (gw_out gw')" for k u b x
    using out [OF that] I(7) [of k u b x] isOpen_opened [of ins x] by (auto simp: op user)
qed

lemma isOpen_keep: "isOpen ins x \<Longrightarrow> inp \<noteq> Disconnected x \<Longrightarrow> isOpen (ins @ [inp]) x"
  by (auto simp: isOpen_def opened_snoc)

lemma gw_inv_step:
  assumes inv: "gw_inv verify ins gw" and acc: "gwAccepts ins inp"
  shows "gw_inv verify (ins @ [inp]) (gwStep verify inp gw)"
proof (cases inp)
  case (Connect s a h)
  with gw_inv_connect [OF inv] acc show ?thesis by simp
next
  case (Disconnected s)
  note I = gw_invD [OF inv]
  show ?thesis
  proof (rule gw_inv_other [OF inv acc])
    show "registry_ok (gw_registry (gwStep verify inp gw))"
      using registry_ok_remove [OF I(1)] by (simp add: Disconnected gwStep_def handleDisconnect_def)
    show "regUser (gw_registry (gwStep verify inp gw)) g x = (if follows (ins @ [inp]) g x then Some (userOf x gw) else None)" for g x
      using I(2) [of g x] by (simp add: Disconnected gwStep_def handleDisconnect_def regUser_remove [OF I(1)] follows_snoc)
    show "isOpen (ins @ [inp]) x" if "follows (ins @ [inp]) g x" for g x
      using that I(4) [of g x] by (auto simp: Disconnected follows_snoc intro: isOpen_keep)
  qed (auto simp: Disconnected gwStep_def handleDisconnect_def)
next
  case (Subscribe s g')
  note I = gw_invD [OF inv]
  have op: "isOpen ins s" using acc by (simp add: Subscribe gwAccepts_def)
  show ?thesis
  proof (rule gw_inv_other [OF inv acc])
    show "registry_ok (gw_registry (gwStep verify inp gw))"
      using registry_ok_attach [OF I(1)] by (simp add: Subscribe gwStep_def subscribeGame_def)
    show "regUser (gw_registry (gwStep verify inp gw)) g x = (if follows (ins @ [inp]) g x then Some (userOf x gw) else None)" for g x
      using I(2) [of g x] by (auto simp: Subscribe gwStep_def subscribeGame_def regUser_attach follows_snoc)
    show "isOpen (ins @ [inp]) x" if "follows (ins @ [inp]) g x" for g x
      using that I(4) [of g x] op by (auto simp: Subscribe follows_snoc intro: isOpen_keep)
  qed (auto simp: Subscribe gwStep_def subscribeGame_def)
next
  case (Unsubscribe s g')
  note I = gw_invD [OF inv]
  show ?thesis
  proof (rule gw_inv_other [OF inv acc])
    show "registry_ok (gw_registry (gwStep verify inp gw))"
      using registry_ok_detach [OF I(1)] by (simp add: Unsubscribe gwStep_def unsubscribeGame_def)
    show "regUser (gw_registry (gwStep verify inp gw)) g x = (if follows (ins @ [inp]) g x then Some (userOf x gw) else None)" for g x
      using I(2) [of g x] by (auto simp: Unsubscribe gwStep_def unsubscribeGame_def regUser_detach follows_snoc)
    show "isOpen (ins @ [inp]) x" if "follows (ins @ [inp]) g x" for g x
      using that I(4) [of g x] by (auto simp: Unsubscribe follows_snoc intro: isOpen_keep)
  qed (auto simp: Unsubscribe gwStep_def unsubscribeGame_def)
next
  case (GameCommand s b)
  note I = gw_invD [OF inv]
  have op: "isOpen ins s" using acc by (simp add: GameCommand gwAccepts_def)
  show ?thesis
  proof (rule gw_inv_other [OF inv acc])
    show "isOpen (ins @ [inp]) x" if "follows (ins @ [inp]) g x" for g x
      using that I(4) [of g x] by (auto simp: GameCommand follows_snoc intro: isOpen_keep)
  qed (use I(1,2) op in \<open>auto simp: GameCommand gwStep_def gwCommand_def follows_snoc\<close>)
next
  case (BusEvent e)
  note I = gw_invD [OF inv]
  have reg: "gw_registry (dispatch e gw) = gw_registry gw" "gw_data (dispatch e gw) = gw_data gw" by (simp_all add: dispatch_def split: option.split)
  show ?thesis
  proof (rule gw_inv_other [OF inv acc])
    show "isOpen (ins @ [inp]) x" if "follows (ins @ [inp]) g x" for g x
      using that I(4) [of g x] by (auto simp: BusEvent follows_snoc intro: isOpen_keep)
    show "PublishCommand k u b x \<in> set (gw_out gw) \<or> (k = gameCommandKey (cb_gameId b) \<and> isOpen ins x \<and> u = userOf x gw)"
      if "PublishCommand k u b x \<in> set (gw_out (gwStep verify inp gw))" for k u b x
      using that by (auto simp: BusEvent gwStep_def dispatch_def split: option.splits)
  qed (use I(1,2) in \<open>auto simp: BusEvent gwStep_def reg follows_snoc\<close>)
qed

lemma gw_trace_inv: "gw_trace verify ins gw \<Longrightarrow> gw_inv verify ins gw"
proof (induction rule: gw_trace.induct)
  case (step ins gw inp)
  from gw_inv_step [OF step.IH step.hyps(2)] show ?case .
qed (rule gw_inv_start)

section \<open>Rooms\<close>

lemma emit_fst: "(\<lambda>(sid, uid). Emit sid e) = (\<lambda>i. Emit (fst i) e)"
  by (simp add: fun_eq_iff split_beta)

lemma rooms_inv_step:
  assumes laws: "room_laws inRoom" and inv: "gw_inv verify ins gw" and rooms: "rooms_inv inRoom ins gw" and acc: "gwAccepts ins inp"
  shows "rooms_inv inRoom (ins @ [inp]) (gwStep verify inp gw)"
proof -
  note I = gw_invD [OF inv]
  note L = inRoom_snoc [OF laws]
  have game: "inRoom (gw_out gw) (gameRoom g) x = follows ins g x" for g x using rooms by (simp add: rooms_inv_def)
  have own: "(\<And>g. r \<noteq> gameRoom g) \<Longrightarrow> inRoom (gw_out gw) r x = (x = r \<and> isOpen ins x)" for r x using rooms by (simp add: rooms_inv_def)
  have notgame: "isOpen ins x \<Longrightarrow> x \<noteq> gameRoom g" for x g using I(6) isOpen_opened by blast
  show ?thesis
  proof (cases inp)
    case (Connect s a h)
    have fresh: "\<not> opened ins s" "\<And>g. s \<noteq> gameRoom g" using acc by (simp_all add: Connect gwAccepts_def)
    have "Disconnected s \<notin> set ins" using I(5) fresh(1) by blast
    then have op: "isOpen (ins @ [Connect s a h]) x = (isOpen ins x \<or> x = s)" for x by (auto simp: isOpen_def opened_snoc)
    have ng: "s \<noteq> gameRoom g" "gameRoom g \<noteq> s" for g using fresh(2) [of g] by simp_all
    have "inRoom (gw_out (gwStep verify inp gw)) r x = (inRoom (gw_out gw) r x \<or> x = s \<and> r = s)" for r x
    proof -
      have gw': "gwStep verify inp gw = handleConnection verify s a h (gwOut [Opened s] gw)" by (simp add: Connect gwStep_def)
      then show ?thesis
        by (cases rule: connect_cases) (simp_all add: L(2) inRoom_refused [OF laws, of "gw_out gw @ [Opened s]", simplified])
    qed
    then show ?thesis using game own ng by (auto simp: rooms_inv_def op follows_snoc Connect)
  next
    case (Disconnected s)
    then show ?thesis using game own
      by (auto simp: rooms_inv_def gwStep_def handleDisconnect_def L(3) follows_snoc)
  next
    case (Subscribe s g)
    then show ?thesis using game own
      by (auto simp: rooms_inv_def gwStep_def subscribeGame_def L(4) follows_snoc)
  next
    case (Unsubscribe s g)
    then show ?thesis using game own
      by (auto simp: rooms_inv_def gwStep_def unsubscribeGame_def L(5) follows_snoc)
  next
    case (GameCommand s b)
    then show ?thesis using game own
      by (auto simp: rooms_inv_def gwStep_def gwCommand_def L(9) follows_snoc)
  next
    case (BusEvent e)
    have "inRoom (gw_out (gwStep verify inp gw)) r x = inRoom (gw_out gw) r x" for r x
      by (simp add: BusEvent gwStep_def dispatch_def L(6) emit_fst inRoom_emits [OF laws] split: option.split)
    then show ?thesis using game own by (auto simp: rooms_inv_def BusEvent follows_snoc)
  qed
qed

lemma gw_trace_rooms:
  assumes "room_laws inRoom" "gw_trace verify ins gw"
  shows "rooms_inv inRoom ins gw"
  using assms(2)
proof (induction rule: gw_trace.induct)
  case start
  show ?case by (simp add: rooms_inv_def emptyGateway_def follows_def isOpen_def opened_def inRoom_snoc(1) [OF assms(1)])
next
  case (step ins gw inp)
  from rooms_inv_step [OF assms(1) gw_trace_inv [OF step.hyps(1)] step.IH step.hyps(2)] show ?case .
qed

section \<open>Who receives what\<close>

lemma socketsForGame_get: "jget (socketsForGame g rr) x = regUser rr g x"
  by (simp add: socketsForGame_def regUser_def split: option.split)

lemma distinct_sockets: "registry_ok rr \<Longrightarrow> distinct (jkeys (socketsForGame g rr))"
  by (simp add: registry_ok_def socketsForGame_def split: option.split)

definition sentBy :: "('p, 'e, 'v) gateway \<Rightarrow> ('p, 'e, 'v) gateway \<Rightarrow> ('p, 'e, 'v) gw_output list" where
  "sentBy gw gw' = drop (length (gw_out gw)) (gw_out gw')"

lemma relay_receivers:
  assumes run: "gw_trace verify ins gw" and laws: "room_laws inRoom"
  shows "(receivers inRoom (gw_out gw) (sentBy gw (dispatch e gw)) x \<longleftrightarrow> follows ins (be_gameId e) x \<and>
      (case truthy (be_privateTo e) of None \<Rightarrow> True | Some u \<Rightarrow> provedUser verify ins x u)) \<and>
    distinct (sentBy gw (dispatch e gw)) \<and> (\<forall>out \<in> set (sentBy gw (dispatch e gw)). \<exists>target. out = Emit target e)"
proof -
  note I = gw_invD [OF gw_trace_inv [OF run]]
  have rooms: "rooms_inv inRoom ins gw" by (rule gw_trace_rooms [OF laws run])
  have game: "inRoom (gw_out gw) (gameRoom g) y = follows ins g y" for g y using rooms by (simp add: rooms_inv_def)
  have own: "inRoom (gw_out gw) r y = (y = r \<and> isOpen ins y)" if "isOpen ins r" for r y
  proof -
    have "\<forall>g. r \<noteq> gameRoom g" using I(6) isOpen_opened [OF that] by blast
    then show ?thesis using rooms by (simp add: rooms_inv_def)
  qed
  define sent where "sent = sentBy gw (dispatch e gw)"
  have "(receivers inRoom (gw_out gw) sent x \<longleftrightarrow> follows ins (be_gameId e) x \<and>
      (case truthy (be_privateTo e) of None \<Rightarrow> True | Some u \<Rightarrow> provedUser verify ins x u)) \<and>
    distinct sent \<and> (\<forall>out \<in> set sent. \<exists>target. out = Emit target e)"
  proof (cases "truthy (be_privateTo e)")
    case None
    then have "sent = [Emit (gameRoom (be_gameId e)) e]" by (simp add: sent_def sentBy_def dispatch_def)
    with None show ?thesis by (simp add: receivers_def game)
  next
    case (Some u)
    define ss where "ss = filter (\<lambda>(sid, uid). uid = Some u) (socketsForGame (be_gameId e) (gw_registry gw))"
    have sent: "sent = map (\<lambda>i. Emit (fst i) e) ss" using Some by (simp add: sent_def sentBy_def dispatch_def ss_def emit_fst)
    have targets: "Emit target e' \<in> set sent \<longleftrightarrow> e' = e \<and> (\<exists>uid. (target, uid) \<in> set ss)" for target e'
    proof -
      have "target \<in> fst ` set ss \<longleftrightarrow> (\<exists>uid. (target, uid) \<in> set ss)" by (simp add: image_iff Bex_def)
      moreover have "Emit target e' \<in> set sent \<longleftrightarrow> e' = e \<and> target \<in> fst ` set ss" unfolding sent by auto
      ultimately show ?thesis by simp
    qed
    have keys: "distinct (jkeys (socketsForGame (be_gameId e) (gw_registry gw)))" by (rule distinct_sockets [OF I(1)])
    have mem: "(\<exists>uid. (sid, uid) \<in> set ss) \<longleftrightarrow> follows ins (be_gameId e) sid \<and> provedUser verify ins sid u" for sid
    proof -
      have "(\<exists>uid. (sid, uid) \<in> set ss) \<longleftrightarrow> jget (socketsForGame (be_gameId e) (gw_registry gw)) sid = Some (Some u)"
      proof -
        have "(sid, uid) \<in> set ss \<longleftrightarrow> uid = Some u \<and> (sid, uid) \<in> set (socketsForGame (be_gameId e) (gw_registry gw))" for uid
          by (auto simp: ss_def)
        then show ?thesis using map_of_eq_Some_iff [OF keys, of sid "Some u"] by simp
      qed
      also have "\<dots> \<longleftrightarrow> follows ins (be_gameId e) sid \<and> provedUser verify ins sid u"
        using I(2) [of "be_gameId e" sid] I(3) [of sid u] by (simp add: socketsForGame_get)
      finally show ?thesis .
    qed
    have "receivers inRoom (gw_out gw) sent x \<longleftrightarrow> (\<exists>sid. (\<exists>uid. (sid, uid) \<in> set ss) \<and> inRoom (gw_out gw) sid x)"
      unfolding receivers_def targets by blast
    also have "\<dots> \<longleftrightarrow> follows ins (be_gameId e) x \<and> provedUser verify ins x u"
    proof -
      have "inRoom (gw_out gw) sid x \<longleftrightarrow> sid = x" if "follows ins (be_gameId e) sid" for sid
        using own [OF I(4) [OF that], of x] I(4) [OF that] by auto
      then show ?thesis unfolding mem by blast
    qed
    finally have "receivers inRoom (gw_out gw) sent x \<longleftrightarrow> follows ins (be_gameId e) x \<and> provedUser verify ins x u" .
    moreover have "distinct sent"
    proof -
      have "distinct (map fst ss)" unfolding ss_def by (rule distinct_map_filter [OF keys])
      then have "distinct (map (\<lambda>sid. Emit sid e) (map fst ss))" by (rule distinct_map [THEN iffD2, OF conjI]) (simp add: inj_on_def)
      then show ?thesis by (simp add: sent comp_def)
    qed
    moreover have "\<forall>out \<in> set sent. \<exists>target. out = Emit target e" by (simp add: sent)
    ultimately show ?thesis using Some by simp
  qed
  then show ?thesis unfolding sent_def .
qed

text \<open> C25: Whatever sockets connected, subscribed, unsubscribed and left, an event from the bus is sent, each socket
  once, to exactly the sockets that follow its game; an event meant for one player reaches, of these, only sockets
  that opened with a token proving that player. \<close>
theorem relay_reaches_exactly:
  assumes run: "gw_trace verify ins gw" and laws: "room_laws inRoom"
  shows "(receivers inRoom (gw_out gw) (sentBy gw (dispatch e gw)) x \<longleftrightarrow> follows ins (be_gameId e) x \<and>
      (case truthy (be_privateTo e) of None \<Rightarrow> True | Some u \<Rightarrow> provedUser verify ins x u)) \<and>
    distinct (sentBy gw (dispatch e gw)) \<and> (\<forall>out \<in> set (sentBy gw (dispatch e gw)). \<exists>target. out = Emit target e)"
  by (rule relay_receivers [OF run laws])

text \<open> Every command the gateway has put on the bus goes to the queue of the game it names and carries exactly the
  player the socket proved to be when it connected, whatever its body says; a socket that proved nothing sends no player. \<close>
lemma commands_authentic:
  assumes "gw_trace verify ins gw" "PublishCommand k u b x \<in> set (gw_out gw)"
  shows "k = gameCommandKey (cb_gameId b) \<and> opened ins x \<and> (\<forall>v. u = Some v \<longleftrightarrow> provedUser verify ins x v)"
proof -
  note I = gw_invD [OF gw_trace_inv [OF assms(1)]]
  from I(7) [OF assms(2)] I(3) show ?thesis by simp
qed

section \<open>A small run\<close>

text \<open>An implementation of the rooms that obeys the laws.\<close>

fun room_step :: "string \<Rightarrow> string \<Rightarrow> ('p, 'e, 'v) gw_output \<Rightarrow> bool \<Rightarrow> bool" where
  "room_step r x (Opened s) b = (b \<or> x = s \<and> r = s)"
| "room_step r x (Closed s) b = (b \<and> x \<noteq> s)"
| "room_step r x (Join s r') b = (b \<or> x = s \<and> r = r')"
| "room_step r x (Leave s r') b = (b \<and> \<not> (x = s \<and> r = r'))"
| "room_step r x _ b = b"

definition replayRooms :: "('p, 'e, 'v) gw_output list \<Rightarrow> string \<Rightarrow> string \<Rightarrow> bool" where
  "replayRooms os r x = fold (room_step r x) os False"

lemma replayRooms_laws: "room_laws replayRooms"
  by (simp add: room_laws_def replayRooms_def)

definition exampleVerify :: "string \<Rightarrow> (string \<times> string) option" where
  "exampleVerify token = (if token = ''tA'' then Some (''ann'', ''Ann'') else if token = ''tB'' then Some (''bob'', ''Bob'') else None)"

definition exampleInputs :: "(unit, unit, unit) gw_input list" where
  "exampleInputs =
     [Connect ''s1'' (Some ''tA'') None, Connect ''s2'' None (Some ''Bearer tB''), Subscribe ''s1'' ''g'', Subscribe ''s2'' ''g'',
      GameCommand ''s2'' \<lparr>cb_gameId = ''g'', cb_type = ''end-turn'', cb_payload = (), cb_clientSeq = None\<rparr>]"

definition exampleGateway :: "(unit, unit, unit) gateway" where
  "exampleGateway = fold (gwStep exampleVerify) exampleInputs emptyGateway"

lemma gw_run:
  "gw_trace verify ins gw \<Longrightarrow> (\<And>n. n < length xs \<Longrightarrow> gwAccepts (ins @ take n xs) (xs ! n)) \<Longrightarrow> gw_trace verify (ins @ xs) (fold (gwStep verify) xs gw)"
proof (induction xs arbitrary: ins gw)
  case (Cons x xs)
  from gw_trace.step [OF Cons.prems(1)] Cons.prems(2) [of 0] have "gw_trace verify (ins @ [x]) (gwStep verify x gw)" by simp
  from Cons.IH [OF this] Cons.prems(2) [of "Suc n" for n] show ?case by simp
qed simp

lemma example_run: "gw_trace exampleVerify exampleInputs exampleGateway"
proof -
  have "gwAccepts ([] @ take n exampleInputs) (exampleInputs ! n)" if "n < length exampleInputs" for n
  proof -
    from that consider "n = 0" | "n = Suc 0" | "n = Suc (Suc 0)" | "n = Suc (Suc (Suc 0))" | "n = Suc (Suc (Suc (Suc 0)))"
      by (simp add: exampleInputs_def) linarith
    then show ?thesis by cases (auto simp: exampleInputs_def gwAccepts_def isOpen_def opened_def gameRoom_def)
  qed
  from gw_run [OF gw_trace.start this] show ?thesis by (simp add: exampleGateway_def)
qed

definition exampleEvent :: "(unit, unit) bus_event" where
  "exampleEvent = \<lparr>be_gameId = ''g'', be_seq = 0, be_type = ''error'', be_payload = SnapshotPayload (), be_at = 0,
     be_playerId = None, be_privateTo = Some ''bob''\<rparr>"

lemma relay_reaches_exactly_witness:
  "\<forall>x. receivers replayRooms (gw_out exampleGateway) (sentBy exampleGateway (dispatch exampleEvent exampleGateway)) x \<longleftrightarrow> x = ''s2''"
proof
  fix x
  have who: "follows exampleInputs ''g'' x \<longleftrightarrow> x = ''s1'' \<or> x = ''s2''" by (auto simp: follows_def exampleInputs_def)
  have "provedUser exampleVerify exampleInputs ''s2'' ''bob''" "\<not> provedUser exampleVerify exampleInputs ''s1'' ''bob''"
    by (auto simp: provedUser_def exampleInputs_def tokenOf_def exampleVerify_def)
  with who relay_reaches_exactly [OF example_run replayRooms_laws, of exampleEvent x]
  show "receivers replayRooms (gw_out exampleGateway) (sentBy exampleGateway (dispatch exampleEvent exampleGateway)) x \<longleftrightarrow> x = ''s2''"
    by (auto simp: exampleEvent_def truthy_def)
qed

lemma commands_authentic_witness:
  "\<exists>k u b. PublishCommand k u b ''s2'' \<in> set (gw_out exampleGateway) \<and> (u = Some ''bob'' \<longleftrightarrow> provedUser exampleVerify exampleInputs ''s2'' ''bob'')"
proof -
  have "\<exists>k u b. PublishCommand k u b ''s2'' \<in> set (gw_out exampleGateway)"
    by (simp add: exampleGateway_def exampleInputs_def gwStep_def gwCommand_def) blast
  with commands_authentic [OF example_run] show ?thesis by metis
qed

end
