(* ===== verification/Accounts.thy ===== *)
theory Accounts
  imports Auth Gateway
begin

text \<open>
  The auth service and the realtime gateway side by side. They share nothing but the secret of the tokens
  (\<open>JWT_SECRET\<close>, read by \<open>auth.module.ts\<close> and by \<open>realtime.gateway.ts\<close>); requests to the one and sockets of
  the other interleave freely. The theorem follows a command on the bus back to a password.
\<close>

section \<open>The platform\<close>

text \<open>The gateway reads the setting itself and verifies with the clock of the moment.\<close>

definition gatewayVerify :: "auth_env \<Rightarrow> nat \<Rightarrow> string \<Rightarrow> (string \<times> string) option" where
  "gatewayVerify env now token = ae_verify env (jwtSecret (ae_secret env)) now token"

record ('p, 'e, 'v) platform =
  pf_auth :: auth_world
  pf_gateway :: "('p, 'e, 'v) gateway"
  pf_inputs :: "(nat \<times> ('p, 'e, 'v) gw_input) list"

datatype ('p, 'e, 'v) platform_input =
    AuthInput auth_input
  | SocketInput nat "('p, 'e, 'v) gw_input"

definition emptyPlatform :: "('p, 'e, 'v) platform" where
  "emptyPlatform = \<lparr>pf_auth = emptyAuth, pf_gateway = emptyGateway, pf_inputs = []\<rparr>"

definition platformStep :: "auth_env \<Rightarrow> ('p, 'e, 'v) platform_input \<Rightarrow> ('p, 'e, 'v) platform \<Rightarrow> ('p, 'e, 'v) platform" where
  "platformStep env inp s =
     (case inp of
        AuthInput i \<Rightarrow> s\<lparr>pf_auth := authStep env i (pf_auth s)\<rparr>
      | SocketInput now i \<Rightarrow> s\<lparr>pf_gateway := gwStep (gatewayVerify env now) i (pf_gateway s), pf_inputs := pf_inputs s @ [(now, i)]\<rparr>)"

text \<open>
  Whoever opens a socket may present any string, one signed with the secret by somebody else included: nothing is
  assumed about tokens the auth service has not issued.
\<close>

definition platformAccepts :: "auth_env \<Rightarrow> ('p, 'e, 'v) platform \<Rightarrow> ('p, 'e, 'v) platform_input \<Rightarrow> bool" where
  "platformAccepts env s inp \<longleftrightarrow>
     (case inp of
        AuthInput i \<Rightarrow> authAccepts env (pf_auth s) i
      | SocketInput now i \<Rightarrow> gwAccepts (map snd (pf_inputs s)) i)"

inductive platform_trace :: "auth_env \<Rightarrow> ('p, 'e, 'v) platform \<Rightarrow> bool" for env where
  start: "platform_trace env emptyPlatform"
| step: "platform_trace env s \<Longrightarrow> platformAccepts env s inp \<Longrightarrow> platform_trace env (platformStep env inp s)"

section \<open>What a socket has shown\<close>

definition presented :: "auth_env \<Rightarrow> ('p, 'e, 'v) platform \<Rightarrow> string \<Rightarrow> string \<Rightarrow> nat \<Rightarrow> string \<Rightarrow> bool" where
  "presented env s x u now token \<longleftrightarrow> (\<exists>a h n. (now, Connect x a h) \<in> set (pf_inputs s) \<and> tokenOf a h = Some token \<and>
     gatewayVerify env now token = Some (u, n))"

text \<open>
  What the auth service knows of a token it has issued: the request it answered with it, which named the account \<open>u\<close> with
  the password of its registration (one bcrypt cannot tell from it, that is), less than a lifetime before.
\<close>

definition issued :: "auth_world \<Rightarrow> string \<Rightarrow> bool" where
  "issued w token \<longleftrightarrow> (\<exists>e \<in> set (aw_log w). \<exists>t r. granted e = Some (t, r) \<and> ar_accessToken r = token)"

definition earned :: "auth_env \<Rightarrow> (string \<Rightarrow> nat) \<Rightarrow> (string \<Rightarrow> string) \<Rightarrow> auth_world \<Rightarrow> string \<Rightarrow> nat \<Rightarrow> string \<Rightarrow> bool" where
  "earned env seconds key w u now token \<longleftrightarrow> (\<exists>e t r t0 req r0. e \<in> set (aw_log w) \<and> granted e = Some (t, r) \<and>
     ar_accessToken r = token \<and> ar_userId r = u \<and> now < t + seconds (jwtExpiry (ae_expires env)) \<and>
     Registered t0 req (Inr r0) \<in> set (aw_log w) \<and> ar_userId r0 = u \<and>
     (case e of
        Registered t1 req' res \<Rightarrow> req' = req
      | LoggedIn t1 lreq res \<Rightarrow> lq_username lreq = rq_username req \<and> key (lq_password lreq) = key (rq_password req)))"

definition platform_inv :: "auth_env \<Rightarrow> ('p, 'e, 'v) platform \<Rightarrow> bool" where
  "platform_inv env s \<longleftrightarrow> auth_trace env (pf_auth s) \<and>
     (\<forall>x u. userOf x (pf_gateway s) = Some u \<longrightarrow> (\<exists>now token. presented env s x u now token)) \<and>
     (\<forall>k u b x. PublishCommand k (Some u) b x \<in> set (gw_out (pf_gateway s)) \<longrightarrow>
        k = gameCommandKey (cb_gameId b) \<and> (\<exists>now token. presented env s x u now token))"

lemma gwStep_user:
  assumes "userOf x (gwStep verify inp gw) = Some u"
  shows "userOf x gw = Some u \<or> (\<exists>a h token n. inp = Connect x a h \<and> tokenOf a h = Some token \<and> verify token = Some (u, n))"
proof (cases inp)
  case (Connect s a h)
  have gw': "gwStep verify inp gw = handleConnection verify s a h (gwOut [Opened s] gw)" by (simp add: Connect gwStep_def)
  then show ?thesis
  proof (cases rule: connect_cases)
    case (1 token p)
    with assms Connect show ?thesis by (cases p) (auto simp: userOf_def split: if_splits)
  next
    case (2 c)
    with assms show ?thesis by (simp add: userOf_def)
  qed
qed (use assms in \<open>auto simp: gwStep_def userOf_def handleDisconnect_def subscribeGame_def unsubscribeGame_def gwCommand_def dispatch_def
    split: option.splits\<close>)

lemma gwStep_command:
  assumes "PublishCommand k u b x \<in> set (gw_out (gwStep verify inp gw))"
  shows "PublishCommand k u b x \<in> set (gw_out gw) \<or> k = gameCommandKey (cb_gameId b) \<and> u = userOf x gw"
proof (cases inp)
  case (Connect s a h)
  have gw': "gwStep verify inp gw = handleConnection verify s a h (gwOut [Opened s] gw)" by (simp add: Connect gwStep_def)
  then show ?thesis by (cases rule: connect_cases) (use assms in auto)
qed (use assms in \<open>auto simp: gwStep_def handleDisconnect_def subscribeGame_def unsubscribeGame_def gwCommand_def dispatch_def
    split: option.splits\<close>)

lemma presented_mono: "presented env s x u now token \<Longrightarrow> set (pf_inputs s) \<subseteq> set (pf_inputs s') \<Longrightarrow> presented env s' x u now token"
  unfolding presented_def by blast

lemma platform_inv_step:
  assumes inv: "platform_inv env s" and acc: "platformAccepts env s inp"
  shows "platform_inv env (platformStep env inp s)"
proof (cases inp)
  case (AuthInput i)
  have "auth_trace env (pf_auth (platformStep env inp s))"
    using auth_trace.step [of env "pf_auth s" i] inv acc by (simp add: AuthInput platformStep_def platformAccepts_def platform_inv_def)
  moreover have "pf_gateway (platformStep env inp s) = pf_gateway s" "pf_inputs (platformStep env inp s) = pf_inputs s"
    by (simp_all add: AuthInput platformStep_def)
  ultimately show ?thesis using inv by (simp add: platform_inv_def presented_def)
next
  case (SocketInput now i)
  let ?s = "platformStep env inp s"
  have s': "pf_auth ?s = pf_auth s" "pf_gateway ?s = gwStep (gatewayVerify env now) i (pf_gateway s)" "pf_inputs ?s = pf_inputs s @ [(now, i)]"
    by (simp_all add: SocketInput platformStep_def)
  have mono: "presented env s x u t token \<Longrightarrow> presented env ?s x u t token" for x u t token
    by (erule presented_mono) (auto simp: s')
  have users: "\<exists>t token. presented env ?s x u t token" if "userOf x (pf_gateway s) = Some u" for x u
    using inv that mono unfolding platform_inv_def by blast
  have "\<exists>t token. presented env ?s x u t token" if "userOf x (pf_gateway ?s) = Some u" for x u
    using gwStep_user [OF that [unfolded s']] users [of x u] by (fastforce simp: presented_def s')
  moreover have "k = gameCommandKey (cb_gameId b) \<and> (\<exists>t token. presented env ?s x u t token)"
    if "PublishCommand k (Some u) b x \<in> set (gw_out (pf_gateway ?s))" for k u b x
    using gwStep_command [OF that [unfolded s']]
  proof
    assume "PublishCommand k (Some u) b x \<in> set (gw_out (pf_gateway s))"
    with inv mono show ?thesis unfolding platform_inv_def by blast
  qed (use users [of x u] in simp)
  ultimately show ?thesis using inv by (simp add: platform_inv_def s')
qed

lemma platform_trace_inv: "platform_trace env s \<Longrightarrow> platform_inv env s"
proof (induction rule: platform_trace.induct)
  case start
  show ?case by (simp add: platform_inv_def emptyPlatform_def auth_trace.start userOf_def emptyGateway_def)
next
  case (step s inp)
  from platform_inv_step [OF step.IH step.hyps(2)] show ?case .
qed

text \<open>A token the auth service has issued and the gateway accepts was earned.\<close>

lemma issued_earned:
  assumes tr: "auth_trace env w" and laws: "jwt_laws env seconds" "bcrypt_laws env key"
    and token: "issued w token" "gatewayVerify env now token = Some (u, n)"
  shows "earned env seconds key w u now token"
proof -
  note I = accounts_okD [OF accounts_ok_trace [OF tr]]
  from token(1) obtain e t r where e: "e \<in> set (aw_log w)" "granted e = Some (t, r)" "ar_accessToken r = token"
    by (auto simp: issued_def)
  have "gatewayVerify env now (ar_accessToken (signToken env t v w)) = (if now < t + seconds (jwtExpiry (ae_expires env)) then Some (v, w) else None)" for v w
    using laws by (simp add: jwt_laws_def gatewayVerify_def signToken_def)
  from this [of "ar_userId r" "ar_username r"] I(6) [OF e(1,2)] token(2) e(3)
  have live: "now < t + seconds (jwtExpiry (ae_expires env))" "ar_userId r = u" by (simp_all split: if_splits)
  show ?thesis
  proof (cases e)
    case (Registered t' req res)
    with e have reg: "Registered t' req (Inr r) \<in> set (aw_log w)" by (cases res) simp_all
    with e live Registered show ?thesis unfolding earned_def
      by (intro exI [of _ e] exI [of _ t] exI [of _ r] exI [of _ t'] exI [of _ req]) simp
  next
    case (LoggedIn t' lreq res)
    with e have "LoggedIn t' lreq (Inr r) \<in> set (aw_log w)" by (cases res) simp_all
    from I(8) [OF this] obtain v where v: "v \<in> set (aw_users w)" "ur_username v = lq_username lreq" "ur_id v = ar_userId r"
      "ae_compare env (lq_password lreq) (ur_passwordHash v)" by blast
    from I(4) [OF v(1)] obtain t0 req r0 where r0: "Registered t0 req (Inr r0) \<in> set (aw_log w)" "rowFor env req r0 v" by blast
    have "ar_userId r0 = u" "lq_username lreq = rq_username req" "key (lq_password lreq) = key (rq_password req)"
      using r0(2) v(2-4) live(2) laws(2) by (auto simp: rowFor_def bcrypt_laws_def)
    with e live r0(1) LoggedIn show ?thesis unfolding earned_def
      by (rule_tac x = e in exI, rule_tac x = t in exI, rule_tac x = r in exI, rule_tac x = t0 in exI, rule_tac x = req in exI, rule_tac x = r0 in exI) simp
  qed
qed

text \<open> C9: Every command on the bus that carries a player goes to the queue of its game and comes from a socket that
  presented, when it was opened, a token the gateway verified for just this player, whatever strings anybody presents. If
  this token is one the auth service has issued, then it was within its lifetime, and it was issued for the player's account
  to someone who had just registered it or logged in to it with a password bcrypt cannot tell from the registered one.
  (Who knows the secret can sign tokens of his own; with the secret the source falls back to that is everybody, see
  \<open>fallback_secret_commands\<close>.) \<close>
theorem commands_by_account:
  assumes run: "platform_trace env s" and laws: "jwt_laws env seconds" "bcrypt_laws env key"
    and command: "PublishCommand k (Some u) b x \<in> set (gw_out (pf_gateway s))"
  shows "k = gameCommandKey (cb_gameId b) \<and>
    (\<exists>now a h token name. (now, Connect x a h) \<in> set (pf_inputs s) \<and> tokenOf a h = Some token \<and>
       gatewayVerify env now token = Some (u, name) \<and>
       (issued (pf_auth s) token \<longrightarrow> earned env seconds key (pf_auth s) u now token))"
proof -
  have inv: "platform_inv env s" by (rule platform_trace_inv [OF run])
  then have tr: "auth_trace env (pf_auth s)" by (simp add: platform_inv_def)
  from inv command have "k = gameCommandKey (cb_gameId b) \<and> (\<exists>now token. presented env s x u now token)"
    unfolding platform_inv_def by blast
  then show ?thesis unfolding presented_def using issued_earned [OF tr laws] by blast
qed

text \<open>
  Without \<open>JWT_SECRET\<close> a stranger to an auth service without a single account gets a command published for any player.
\<close>

lemma fallback_secret_commands:
  assumes laws: "jwt_laws env seconds" and secret: "ae_secret env = None"
    and token: "token = ae_sign env ''dev-secret-change-me'' e t (u, name)" "token \<noteq> []" "now < t + seconds e" and x: "\<forall>g. x \<noteq> gameRoom g"
  shows "\<exists>s :: ('p, 'e, 'v) platform. platform_trace env s \<and> pf_auth s = emptyAuth \<and>
    PublishCommand (gameCommandKey (cb_gameId b)) (Some u) b x \<in> set (gw_out (pf_gateway s))"
proof -
  have v: "gatewayVerify env now token = Some (u, name)" using assms by (simp add: gatewayVerify_def jwtSecret_def jwt_laws_def)
  have shows': "tokenOf (Some token) None = Some token" using token(2) by (simp add: tokenOf_def truthy_def)
  let ?s1 = "platformStep env (SocketInput now (Connect x (Some token) None)) (emptyPlatform :: ('p, 'e, 'v) platform)"
  have 1: "platform_trace env ?s1"
    by (rule platform_trace.step [OF platform_trace.start]) (use x in \<open>simp add: platformAccepts_def gwAccepts_def opened_def emptyPlatform_def\<close>)
  have s1: "pf_inputs ?s1 = [(now, Connect x (Some token) None)]" "userOf x (pf_gateway ?s1) = Some u" "pf_auth ?s1 = emptyAuth"
    using token(2) by (simp_all add: platformStep_def emptyPlatform_def gwStep_def handleConnection_def shows' v userOf_def gwOut_def truthy_def)
  have "platform_trace env (platformStep env (SocketInput now (GameCommand x b)) ?s1)"
    by (rule platform_trace.step [OF 1]) (simp only: platformAccepts_def s1, simp add: gwAccepts_def isOpen_def opened_def)
  moreover have "PublishCommand (gameCommandKey (cb_gameId b)) (Some u) b x \<in> set (gw_out (pf_gateway (platformStep env (SocketInput now (GameCommand x b)) ?s1)))"
    using s1(2) [symmetric] by (simp add: platformStep_def [of _ "SocketInput now (GameCommand x b)"] gwStep_def [of _ "GameCommand x b"] gwCommand_def gwOut_def)
  ultimately show ?thesis using s1(3) by (intro exI [of _ "platformStep env (SocketInput now (GameCommand x b)) ?s1"]) (simp add: platformStep_def)
qed

section \<open>A small run\<close>

definition exampleBody :: "unit command_body" where
  "exampleBody = \<lparr>cb_gameId = ''g'', cb_type = ''end-turn'', cb_payload = (), cb_clientSeq = None\<rparr>"

definition annsToken :: string where
  "annsToken = ar_accessToken (signToken exampleAuth 5 ''u1'' ''ann'')"

definition exampleSockets :: "(unit, unit, unit) gw_input list" where
  "exampleSockets = [Connect ''s1'' (Some annsToken) None, GameCommand ''s1'' exampleBody]"

definition examplePlatform :: "(unit, unit, unit) platform" where
  "examplePlatform =
     \<lparr>pf_auth = exampleWorld,
      pf_gateway = \<lparr>gw_data = [(''s1'', ''u1'', ''ann'')], gw_registry = emptyRegistry,
        gw_out = [Opened ''s1'', PublishCommand (gameCommandKey ''g'') (Some ''u1'') exampleBody ''s1'']\<rparr>,
      pf_inputs = map (Pair 9) exampleSockets\<rparr>"

lemma annsToken_verifies: "gatewayVerify exampleAuth 9 annsToken = Some (''u1'', ''ann'')" "annsToken \<noteq> []"
proof -
  have "gatewayVerify exampleAuth 9 (ar_accessToken (signToken exampleAuth 5 ''u1'' ''ann'')) = Some (''u1'', ''ann'')"
    using example_jwt by (simp add: gatewayVerify_def signToken_def jwt_laws_def exampleSeconds_def)
  then show "gatewayVerify exampleAuth 9 annsToken = Some (''u1'', ''ann'')" by (simp add: annsToken_def)
  show "annsToken \<noteq> []" by (simp add: annsToken_def signToken_def exampleAuth_def exampleSign_def jwtSecret_def)
qed

text \<open>The auth service runs first, as in the small run of its theory; then ann connects and moves.\<close>

lemma auth_first: "auth_trace exampleAuth w \<Longrightarrow> platform_trace exampleAuth (emptyPlatform\<lparr>pf_auth := w\<rparr> :: (unit, unit, unit) platform)"
proof (induction rule: auth_trace.induct)
  case start
  have same: "emptyPlatform\<lparr>pf_auth := emptyAuth\<rparr> = (emptyPlatform :: (unit, unit, unit) platform)" by (simp add: emptyPlatform_def)
  show ?case unfolding same by (rule platform_trace.start)
next
  case (step w inp)
  from platform_trace.step [OF step.IH, of "AuthInput inp"] step.hyps(2) show ?case
    by (simp add: platformAccepts_def platformStep_def)
qed

lemma example_platform: "platform_trace exampleAuth examplePlatform"
proof -
  define s0 :: "(unit, unit, unit) platform" where "s0 = emptyPlatform\<lparr>pf_auth := exampleWorld\<rparr>"
  define s1 where "s1 = platformStep exampleAuth (SocketInput 9 (Connect ''s1'' (Some annsToken) None)) s0"
  have "platformAccepts exampleAuth s0 (SocketInput 9 (Connect ''s1'' (Some annsToken) None))"
    by (auto simp: s0_def platformAccepts_def gwAccepts_def emptyPlatform_def opened_def gameRoom_def tokenOf_def)
  then have 1: "platform_trace exampleAuth s1"
    unfolding s1_def by (rule platform_trace.step [OF auth_first [OF example_world], folded s0_def])
  have s1: "s1 = \<lparr>pf_auth = exampleWorld, pf_gateway = \<lparr>gw_data = [(''s1'', ''u1'', ''ann'')], gw_registry = emptyRegistry, gw_out = [Opened ''s1'']\<rparr>,
      pf_inputs = [(9, Connect ''s1'' (Some annsToken) None)]\<rparr>"
    by (simp add: s1_def s0_def platformStep_def gwStep_def handleConnection_def tokenOf_def truthy_def annsToken_verifies gwOut_def
        emptyPlatform_def emptyGateway_def)
  have "platform_trace exampleAuth (platformStep exampleAuth (SocketInput 9 (GameCommand ''s1'' exampleBody)) s1)"
    by (rule platform_trace.step [OF 1]) (simp add: s1 platformAccepts_def gwAccepts_def isOpen_def opened_def)
  also have "platformStep exampleAuth (SocketInput 9 (GameCommand ''s1'' exampleBody)) s1 = examplePlatform"
    unfolding s1 by (simp add: examplePlatform_def exampleSockets_def platformStep_def gwStep_def gwCommand_def gwOut_def userOf_def exampleBody_def)
  finally show ?thesis .
qed

lemma commands_by_account_witness:
  "\<exists>now token. presented exampleAuth examplePlatform ''s1'' ''u1'' now token \<and>
     earned exampleAuth exampleSeconds id (pf_auth examplePlatform) ''u1'' now token"
proof -
  have "PublishCommand (gameCommandKey ''g'') (Some ''u1'') exampleBody ''s1'' \<in> set (gw_out (pf_gateway examplePlatform))"
    by (simp add: examplePlatform_def)
  from commands_by_account [OF example_platform example_jwt example_bcrypt this] obtain now a h token name where
    c: "(now, Connect ''s1'' a h) \<in> set (pf_inputs examplePlatform)" "tokenOf a h = Some token"
      "gatewayVerify exampleAuth now token = Some (''u1'', name)"
      "issued (pf_auth examplePlatform) token \<longrightarrow> earned exampleAuth exampleSeconds id (pf_auth examplePlatform) ''u1'' now token" by blast
  have "token = annsToken" using c(1,2) annsToken_verifies(2) by (simp add: examplePlatform_def exampleSockets_def tokenOf_def truthy_def)
  then have "issued (pf_auth examplePlatform) token" by (auto simp: examplePlatform_def issued_def example_parts annsToken_def)
  with c show ?thesis unfolding presented_def by blast
qed

end
