(* ===== verification/LobbyClient.thy ===== *)
theory LobbyClient
  imports Lobby Auth
begin

text \<open>
  The lobby in the browser: the REST surface with its guard (\<open>lobby.controller.ts\<close>), the stores
  \<open>store/auth.ts\<close> and \<open>store/lobby.ts\<close>, and \<open>pages/LobbyPage.tsx\<close> with its form, its panel and its list. A
  handler is split at its \<open>await\<close>: it starts a task, the service answers some time later, and the answer arrives
  later still, in any order; other users and the poll of the panel act in between.
\<close>

section \<open>The REST surface (lobby.controller.ts)\<close>

datatype lobby_call =
    GetRooms
  | GetRoom string
  | PostRoom create_room
  | PostJoin string
  | PostReady string bool
  | PostStart string
  | PostLeave string
  | DeleteRoom string

datatype lobby_answer =
    RoomList "room_summary list"
  | OneRoom room_detail
  | NoContent

definition withRoom :: "(exn + room_detail) \<times> lobby \<Rightarrow> (exn + lobby_answer) \<times> lobby" where
  "withRoom x = (case x of (Inl e, lb) \<Rightarrow> (Inl e, lb) | (Inr d, lb) \<Rightarrow> (Inr (OneRoom d), lb))"

definition withNothing :: "(exn + unit) \<times> lobby \<Rightarrow> (exn + lobby_answer) \<times> lobby" where
  "withNothing x = (case x of (Inl e, lb) \<Rightarrow> (Inl e, lb) | (Inr _, lb) \<Rightarrow> (Inr NoContent, lb))"

definition lobbyController :: "string \<Rightarrow> int \<Rightarrow> string \<times> string \<Rightarrow> lobby_call \<Rightarrow> (lobby, lobby_answer) effect" where
  "lobbyController uuid now user call lb =
     (case user of (sub, username) \<Rightarrow>
       (case call of
          GetRooms \<Rightarrow> (Inr (RoomList (listRooms lb)), lb)
        | GetRoom i \<Rightarrow> withRoom (getRoom i lb, lb)
        | PostRoom body \<Rightarrow> withRoom (createRoom uuid now sub username body lb)
        | PostJoin i \<Rightarrow> withRoom (joinRoom now sub username i lb)
        | PostReady i ready \<Rightarrow> withRoom (setReady now sub i ready lb)
        | PostStart i \<Rightarrow> withRoom (startGame uuid now sub i lb)
        | PostLeave i \<Rightarrow> withNothing (leaveRoom now sub i lb)
        | DeleteRoom i \<Rightarrow> withNothing (closeRoom now sub i lb)))"

definition serveLobby :: "auth_env \<Rightarrow> nat \<Rightarrow> string option \<Rightarrow> string \<Rightarrow> int \<Rightarrow> lobby_call \<Rightarrow> (lobby, lobby_answer) effect" where
  "serveLobby env clock header uuid now call lb =
     (case jwtGuard env clock header of
        Inl e \<Rightarrow> (Inl e, lb)
      | Inr user \<Rightarrow> lobbyController uuid now user call lb)"

section \<open>The stores (store/auth.ts, store/lobby.ts)\<close>

record auth_session =
  as_userId :: "string option"
  as_username :: "string option"
  as_token :: "string option"

definition signedOut :: auth_session where
  "signedOut = \<lparr>as_userId = None, as_username = None, as_token = None\<rparr>"

definition signedIn :: "auth_response \<Rightarrow> auth_session" where
  "signedIn r = \<lparr>as_userId = Some (ar_userId r), as_username = Some (ar_username r), as_token = Some (ar_accessToken r)\<rparr>"

definition storeToken :: "auth_session \<Rightarrow> exn + string" where
  "storeToken s = (case truthy (as_token s) of None \<Rightarrow> Inl (Unauthorized ''Not authenticated'') | Some t \<Rightarrow> Inr t)"

text \<open>
  What is awaited. The number is the instance of the component whose handler waits: React drops what a handler
  writes into the state of a component that has been unmounted.
\<close>

datatype lobby_task =
    TRefresh
  | TRefreshCurrent string
  | TCreate nat nat create_room
  | TJoin nat string
  | TReady nat string bool
  | TStart nat string string
  | TLeave nat string
  | TClose nat string

definition taskCall :: "lobby_task \<Rightarrow> lobby_call" where
  "taskCall t =
     (case t of
        TRefresh \<Rightarrow> GetRooms
      | TRefreshCurrent i \<Rightarrow> GetRoom i
      | TCreate n m body \<Rightarrow> PostRoom body
      | TJoin n i \<Rightarrow> PostJoin i
      | TReady n i ready \<Rightarrow> PostReady i ready
      | TStart n i scenarioId \<Rightarrow> PostStart i
      | TLeave n i \<Rightarrow> PostLeave i
      | TClose n i \<Rightarrow> DeleteRoom i)"

text \<open>The store and the local state of the components; \<open>pg_route\<close> is where the browser is.\<close>

record lobby_page =
  pg_session :: auth_session
  pg_rooms :: "room_summary list"
  pg_current :: "room_detail option"
  pg_authError :: string
  pg_loading :: bool
  pg_error :: string
  pg_creating :: bool
  pg_createError :: string
  pg_showCreate :: bool
  pg_joiningId :: "string option"
  pg_joinError :: string
  pg_route :: string
  pg_panel :: nat
  pg_form :: nat
  pg_visit :: nat

definition detailId :: "room_detail \<Rightarrow> string" where
  "detailId d = rs_roomId (rd_summary d)"

definition clearIf :: "string \<Rightarrow> room_detail option \<Rightarrow> room_detail option" where
  "clearIf i current = (if map_option detailId current = Some i then None else current)"

text \<open>What the store does with an answer.\<close>

definition storeDone :: "lobby_task \<Rightarrow> exn + lobby_answer \<Rightarrow> lobby_page \<Rightarrow> lobby_page" where
  "storeDone t res pg =
     (case res of
        Inl e \<Rightarrow>
          (case t of
             TRefreshCurrent i \<Rightarrow> (case e of NotFound m \<Rightarrow> pg\<lparr>pg_current := None\<rparr> | _ \<Rightarrow> pg)
           | _ \<Rightarrow> pg)
      | Inr ans \<Rightarrow>
          (case t of
             TRefresh \<Rightarrow> (case ans of RoomList rs \<Rightarrow> pg\<lparr>pg_rooms := rs\<rparr> | _ \<Rightarrow> pg)
           | TLeave n i \<Rightarrow> pg\<lparr>pg_current := clearIf i (pg_current pg)\<rparr>
           | TClose n i \<Rightarrow> pg\<lparr>pg_current := clearIf i (pg_current pg), pg_rooms := filter (\<lambda>r. rs_roomId r \<noteq> i) (pg_rooms pg)\<rparr>
           | _ \<Rightarrow> (case ans of OneRoom d \<Rightarrow> pg\<lparr>pg_current := Some d\<rparr> | _ \<Rightarrow> pg)))"

definition clearCurrent :: "lobby_page \<Rightarrow> lobby_page" where
  "clearCurrent pg = pg\<lparr>pg_current := None\<rparr>"

section \<open>The page (pages/LobbyPage.tsx)\<close>

definition gameRoute :: "string \<Rightarrow> string \<Rightarrow> string" where
  "gameRoute scenarioId gameId = (if scenarioId = ''kingdoms-v1'' then ''/kingdoms/'' @ gameId else ''/games/'' @ gameId)"

definition SCENARIOS :: "string list" where
  "SCENARIOS = [''demo-v1'', ''kingdoms-v1'']"

text \<open>The message of the error the service answers with.\<close>

definition apiMessage :: "exn \<Rightarrow> string" where
  "apiMessage e = (case e of NotFound m \<Rightarrow> m | Forbidden m \<Rightarrow> m | Unauthorized m \<Rightarrow> m | Conflict m \<Rightarrow> m | _ \<Rightarrow> ''Internal server error'')"

definition panelMe :: "auth_session \<Rightarrow> room_detail \<Rightarrow> (string \<times> string \<times> bool) option" where
  "panelMe s d = find (\<lambda>p. Some (fst p) = as_userId s) (rd_players d)"

definition panelIsHost :: "auth_session \<Rightarrow> room_detail \<Rightarrow> bool" where
  "panelIsHost s d \<longleftrightarrow> Some (rs_hostId (rd_summary d)) = as_userId s"

definition panelAllReady :: "room_detail \<Rightarrow> bool" where
  "panelAllReady d \<longleftrightarrow> length (rd_players d) > 1 \<and> list_all (\<lambda>p. snd (snd p)) (rd_players d)"

definition startBlockReason :: "auth_session \<Rightarrow> room_detail \<Rightarrow> string option" where
  "startBlockReason s d =
     (if \<not> panelIsHost s d then None
      else if length (rd_players d) < 2 then Some ''Need at least 2 players - share the room ID below''
      else if \<not> panelAllReady d then Some ''Waiting for all players to ready up''
      else None)"

datatype lobby_click =
    RefreshRooms
  | OpenCreate
  | CloseCreate
  | SubmitCreate string string int
  | JoinClick string
  | LeaveView
  | ToggleReady
  | StartClick
  | RefreshRoom
  | CloseClick bool
  | LeaveClick
  | SignOut

definition joinEnabled :: "lobby_page \<Rightarrow> room_summary \<Rightarrow> bool" where
  "joinEnabled pg r \<longleftrightarrow> \<not> (pg_joiningId pg = Some (rs_roomId r) \<or> rs_status r \<noteq> RoomOpen \<or> int (rs_playerCount r) \<ge> rs_maxPlayers r)"

text \<open>Which buttons are there and enabled: first those of the panel of a room, then those of the page.\<close>

definition panelOffered :: "lobby_page \<Rightarrow> room_detail \<Rightarrow> lobby_click \<Rightarrow> bool" where
  "panelOffered pg d c \<longleftrightarrow> \<not> pg_loading pg \<and>
     (case c of
        ToggleReady \<Rightarrow> panelMe (pg_session pg) d \<noteq> None
      | StartClick \<Rightarrow> panelIsHost (pg_session pg) d \<and> startBlockReason (pg_session pg) d = None
      | RefreshRoom \<Rightarrow> True
      | CloseClick confirmed \<Rightarrow> panelIsHost (pg_session pg) d
      | LeaveClick \<Rightarrow> \<not> panelIsHost (pg_session pg) d \<and> panelMe (pg_session pg) d \<noteq> None
      | _ \<Rightarrow> False)"

text \<open>The form offers two to four players, the two scenarios, and one submission at a time.\<close>

definition formOffered :: "lobby_page \<Rightarrow> string \<Rightarrow> int \<Rightarrow> bool" where
  "formOffered pg scenarioId maxPlayers \<longleftrightarrow> \<not> pg_creating pg \<and> scenarioId \<in> set SCENARIOS \<and> maxPlayers \<in> {2, 3, 4}"

definition onLobby :: "lobby_page \<Rightarrow> bool" where
  "onLobby pg \<longleftrightarrow> pg_route pg = ''/lobby'' \<and> ok (storeToken (pg_session pg))"

definition lobbyOffered :: "lobby_page \<Rightarrow> lobby_click \<Rightarrow> bool" where
  "lobbyOffered pg c \<longleftrightarrow> onLobby pg \<and>
     (case c of
        RefreshRooms \<Rightarrow> True
      | OpenCreate \<Rightarrow> \<not> pg_showCreate pg
      | CloseCreate \<Rightarrow> pg_showCreate pg
      | SubmitCreate name scenarioId maxPlayers \<Rightarrow> pg_showCreate pg \<and> formOffered pg scenarioId maxPlayers
      | JoinClick i \<Rightarrow> list_ex (\<lambda>r. rs_roomId r = i \<and> joinEnabled pg r) (pg_rooms pg)
      | LeaveView \<Rightarrow> pg_current pg \<noteq> None
      | SignOut \<Rightarrow> True
      | _ \<Rightarrow> (case pg_current pg of None \<Rightarrow> False | Some d \<Rightarrow> panelOffered pg d c))"

text \<open>A component that is unmounted forgets its state, and the next one of its kind starts afresh.\<close>

definition unmountPanel :: "lobby_page \<Rightarrow> lobby_page" where
  "unmountPanel pg = pg\<lparr>pg_loading := False, pg_error := [], pg_panel := Suc (pg_panel pg)\<rparr>"

definition unmountForm :: "lobby_page \<Rightarrow> lobby_page" where
  "unmountForm pg = pg\<lparr>pg_creating := False, pg_createError := [], pg_form := Suc (pg_form pg)\<rparr>"

definition unmountPage :: "lobby_page \<Rightarrow> lobby_page" where
  "unmountPage pg = (unmountForm (unmountPanel pg))
     \<lparr>pg_showCreate := False, pg_joiningId := None, pg_joinError := [], pg_visit := Suc (pg_visit pg)\<rparr>"

definition navigate :: "string \<Rightarrow> lobby_page \<Rightarrow> lobby_page" where
  "navigate route pg = (unmountPage pg)\<lparr>pg_route := route\<rparr>"

text \<open>The handlers up to their \<open>await\<close>, with the task they then wait for.\<close>

definition panelHandler :: "lobby_click \<Rightarrow> room_detail \<Rightarrow> lobby_page \<Rightarrow> lobby_page \<times> lobby_task option" where
  "panelHandler c d pg =
     (case c of
        ToggleReady \<Rightarrow>
          (case panelMe (pg_session pg) d of
             None \<Rightarrow> (pg, None)
           | Some me \<Rightarrow> (pg\<lparr>pg_loading := True, pg_error := []\<rparr>, Some (TReady (pg_panel pg) (detailId d) (\<not> snd (snd me)))))
      | StartClick \<Rightarrow> (pg\<lparr>pg_loading := True, pg_error := []\<rparr>, Some (TStart (pg_panel pg) (detailId d) (rs_scenarioId (rd_summary d))))
      | LeaveClick \<Rightarrow> (pg\<lparr>pg_loading := True\<rparr>, Some (TLeave (pg_panel pg) (detailId d)))
      | CloseClick confirmed \<Rightarrow>
          if confirmed then (pg\<lparr>pg_loading := True\<rparr>, Some (TClose (pg_panel pg) (detailId d))) else (pg, None)
      | RefreshRoom \<Rightarrow> (pg, Some (TRefreshCurrent (detailId d)))
      | _ \<Rightarrow> (pg, None))"

definition formSubmit :: "string \<Rightarrow> string \<Rightarrow> int \<Rightarrow> lobby_page \<Rightarrow> lobby_page \<times> lobby_task option" where
  "formSubmit name scenarioId maxPlayers pg =
     (pg\<lparr>pg_creating := True, pg_createError := []\<rparr>,
      Some (TCreate (pg_form pg) (pg_visit pg)
        \<lparr>crm_name = (if name = [] then ''New Room'' else name), crm_scenarioId = scenarioId, crm_maxPlayers = maxPlayers\<rparr>))"

definition clickHandler :: "lobby_click \<Rightarrow> lobby_page \<Rightarrow> lobby_page \<times> lobby_task option" where
  "clickHandler c pg =
     (case c of
        RefreshRooms \<Rightarrow> (pg, Some TRefresh)
      | OpenCreate \<Rightarrow> (pg\<lparr>pg_showCreate := True\<rparr>, None)
      | CloseCreate \<Rightarrow> ((unmountForm pg)\<lparr>pg_showCreate := False\<rparr>, None)
      | SubmitCreate name scenarioId maxPlayers \<Rightarrow> formSubmit name scenarioId maxPlayers pg
      | JoinClick i \<Rightarrow> (pg\<lparr>pg_joinError := [], pg_joiningId := Some i\<rparr>, Some (TJoin (pg_visit pg) i))
      | LeaveView \<Rightarrow> (clearCurrent pg, None)
      | SignOut \<Rightarrow> (unmountForm (unmountPanel (pg\<lparr>pg_session := signedOut\<rparr>)), None)
      | _ \<Rightarrow> (case pg_current pg of None \<Rightarrow> (pg, None) | Some d \<Rightarrow> panelHandler c d pg))"

text \<open>The handlers after their \<open>await\<close>; the form asks for the list again once its room is there.\<close>

definition inPanel :: "nat \<Rightarrow> (lobby_page \<Rightarrow> lobby_page) \<Rightarrow> lobby_page \<Rightarrow> lobby_page" where
  "inPanel n f pg = (if pg_panel pg = n then f pg else pg)"

definition formDone :: "nat \<Rightarrow> nat \<Rightarrow> exn + lobby_answer \<Rightarrow> lobby_page \<Rightarrow> lobby_page \<times> lobby_task option" where
  "formDone n m res pg =
     (case res of
        Inr _ \<Rightarrow> (if pg_visit pg = m then (unmountForm pg)\<lparr>pg_showCreate := False\<rparr> else pg, Some TRefresh)
      | Inl e \<Rightarrow> (if pg_form pg = n then pg\<lparr>pg_creating := False, pg_createError := apiMessage e\<rparr> else pg, None))"

definition handlerDone :: "lobby_task \<Rightarrow> exn + lobby_answer \<Rightarrow> lobby_page \<Rightarrow> lobby_page \<times> lobby_task option" where
  "handlerDone t res pg =
     (case t of
        TRefresh \<Rightarrow> (pg, None)
      | TRefreshCurrent i \<Rightarrow> (pg, None)
      | TCreate n m body \<Rightarrow> formDone n m res pg
      | TJoin n i \<Rightarrow>
          (if pg_visit pg = n
           then pg\<lparr>pg_joiningId := None, pg_joinError := (case res of Inl e \<Rightarrow> apiMessage e | Inr _ \<Rightarrow> pg_joinError pg)\<rparr> else pg, None)
      | TReady n i ready \<Rightarrow>
          (inPanel n (\<lambda>p. p\<lparr>pg_loading := False, pg_error := (case res of Inl e \<Rightarrow> apiMessage e | Inr _ \<Rightarrow> pg_error p)\<rparr>) pg, None)
      | TStart n i scenarioId \<Rightarrow>
          (let pg1 = inPanel n (\<lambda>p. p\<lparr>pg_loading := False, pg_error := (case res of Inl e \<Rightarrow> apiMessage e | Inr _ \<Rightarrow> pg_error p)\<rparr>) pg
           in (case res of
                 Inr (OneRoom d) \<Rightarrow> (case rd_gameId d of Some g \<Rightarrow> navigate (gameRoute scenarioId g) pg1 | None \<Rightarrow> pg1)
               | _ \<Rightarrow> pg1, None))
      | TLeave n i \<Rightarrow>
          (case res of Inr _ \<Rightarrow> pg | Inl e \<Rightarrow> inPanel n (\<lambda>p. p\<lparr>pg_loading := False, pg_error := apiMessage e\<rparr>) pg, None)
      | TClose n i \<Rightarrow>
          (case res of Inr _ \<Rightarrow> pg | Inl e \<Rightarrow> inPanel n (\<lambda>p. p\<lparr>pg_loading := False, pg_error := apiMessage e\<rparr>) pg, None))"

text \<open>
  What rendering does: the panel goes with the room it shows, and as long as it shows a started room its effect
  leads to the game.
\<close>

definition rendered :: "lobby_page \<Rightarrow> lobby_page \<Rightarrow> lobby_page" where
  "rendered old new =
     (let pg = (if pg_current old \<noteq> None \<and> pg_current new = None then unmountPanel new else new)
      in case pg_current pg of
           None \<Rightarrow> pg
         | Some d \<Rightarrow>
             (case rd_gameId d of
                Some g \<Rightarrow>
                  if onLobby pg \<and> rs_status (rd_summary d) = RoomStarting
                  then navigate (gameRoute (rs_scenarioId (rd_summary d)) g) pg else pg
              | None \<Rightarrow> pg))"

section \<open>One browser and the service\<close>

record lobby_flight =
  fl_task :: lobby_task
  fl_token :: string
  fl_result :: "(exn + lobby_answer) option"
  fl_dead :: bool

record lobby_net =
  ln_page :: lobby_page
  ln_flights :: "(nat, lobby_flight) jsmap"
  ln_next :: nat
  ln_lobby :: lobby

datatype lobby_net_input =
    Click lobby_click
  | Poll
  | Visit string
  | SignIn "exn + auth_response"
  | Reload
  | Serve nat nat string int
  | Arrive nat
  | Others string int lobby_request

definition launch :: "lobby_task option \<Rightarrow> lobby_net \<Rightarrow> lobby_net" where
  "launch t net =
     (case t of
        None \<Rightarrow> net
      | Some task \<Rightarrow>
          (case storeToken (pg_session (ln_page net)) of
             Inl e \<Rightarrow> net\<lparr>ln_page := rendered (ln_page net) (fst (handlerDone task (Inl e) (storeDone task (Inl e) (ln_page net))))\<rparr>
           | Inr token \<Rightarrow>
               net\<lparr>ln_flights := jput (ln_next net) \<lparr>fl_task = task, fl_token = token, fl_result = None, fl_dead = False\<rparr> (ln_flights net), ln_next := Suc (ln_next net)\<rparr>))"

definition withPage :: "lobby_page \<times> lobby_task option \<Rightarrow> lobby_net \<Rightarrow> lobby_net" where
  "withPage x net = launch (snd x) (net\<lparr>ln_page := rendered (ln_page net) (fst x)\<rparr>)"

text \<open>
  A page just loaded; the session survives in the storage of the browser. What the page before had asked for is
  still served, but its answers find nobody.
\<close>

definition freshPage :: "auth_session \<Rightarrow> string \<Rightarrow> lobby_page" where
  "freshPage s route = \<lparr>pg_session = s, pg_rooms = [], pg_current = None, pg_authError = [], pg_loading = False, pg_error = [],
     pg_creating = False, pg_createError = [], pg_showCreate = False, pg_joiningId = None, pg_joinError = [], pg_route = route,
     pg_panel = 0, pg_form = 0, pg_visit = 0\<rparr>"

text \<open>The effect of the page: the list is fetched when it is mounted with a token and when a token appears.\<close>

definition mountTask :: "lobby_page \<Rightarrow> lobby_task option" where
  "mountTask pg = (if onLobby pg then Some TRefresh else None)"

text \<open>The answer of the auth service to the panel that signs in or registers.\<close>

definition authPanelDone :: "exn + auth_response \<Rightarrow> lobby_page \<Rightarrow> lobby_page" where
  "authPanelDone res pg =
     (case res of
        Inr r \<Rightarrow> pg\<lparr>pg_session := signedIn r, pg_authError := []\<rparr>
      | Inl e \<Rightarrow> pg\<lparr>pg_authError := apiMessage e\<rparr>)"

definition lobbyNetStep :: "auth_env \<Rightarrow> lobby_net_input \<Rightarrow> lobby_net \<Rightarrow> lobby_net" where
  "lobbyNetStep env inp net =
     (case inp of
        Click c \<Rightarrow> if lobbyOffered (ln_page net) c then withPage (clickHandler c (ln_page net)) net else net
      | Poll \<Rightarrow>
          (case pg_current (ln_page net) of
             Some d \<Rightarrow> if onLobby (ln_page net) then withPage (ln_page net, Some (TRefreshCurrent (detailId d))) net else net
           | None \<Rightarrow> net)
      | Visit route \<Rightarrow> (let pg = navigate route (ln_page net) in withPage (pg, mountTask pg) net)
      | SignIn res \<Rightarrow>
          (let pg = authPanelDone res (ln_page net) in withPage (pg, if ok res then mountTask pg else None) net)
      | Reload \<Rightarrow>
          (let pg = freshPage (pg_session (ln_page net)) (pg_route (ln_page net))
           in launch (mountTask pg) (net\<lparr>ln_page := pg, ln_flights := map (apsnd (fl_dead_update (\<lambda>_. True))) (ln_flights net)\<rparr>))
      | Serve n clock uuid now \<Rightarrow>
          (case jget (ln_flights net) n of
             None \<Rightarrow> net
           | Some f \<Rightarrow>
               if fl_result f \<noteq> None then net
               else case serveLobby env clock (Some (''Bearer '' @ fl_token f)) uuid now (taskCall (fl_task f)) (ln_lobby net) of
                      (res, lb) \<Rightarrow> net\<lparr>ln_lobby := lb, ln_flights := jput n (f\<lparr>fl_result := Some res\<rparr>) (ln_flights net)\<rparr>)
      | Arrive n \<Rightarrow>
          (case jget (ln_flights net) n of
             None \<Rightarrow> net
           | Some f \<Rightarrow>
               (case fl_result f of
                  None \<Rightarrow> net
                | Some res \<Rightarrow>
                    if fl_dead f then net\<lparr>ln_flights := jdel n (ln_flights net)\<rparr>
                    else withPage (handlerDone (fl_task f) res (storeDone (fl_task f) res (ln_page net)))
                      (net\<lparr>ln_flights := jdel n (ln_flights net)\<rparr>)))
      | Others uuid now req \<Rightarrow> net\<lparr>ln_lobby := handleRequest uuid now req (ln_lobby net)\<rparr>)"

section \<open>The buttons of an up-to-date page\<close>

definition upToDate :: "lobby_page \<Rightarrow> lobby \<Rightarrow> bool" where
  "upToDate pg lb \<longleftrightarrow> pg_rooms pg = listRooms lb \<and>
     (case pg_current pg of None \<Rightarrow> True | Some d \<Rightarrow> (\<exists>r. jget (lb_rooms lb) (detailId d) = Some r \<and> d = toDetail r))"

lemma toDetail_parts [simp]:
  "detailId (toDetail r) = ro_roomId r" "rs_hostId (rd_summary (toDetail r)) = ro_hostId r" "rs_status (rd_summary (toDetail r)) = ro_status r"
  "length (rd_players (toDetail r)) = playerCount r" "panelAllReady (toDetail r) = allReady r"
  by (simp_all add: detailId_def toDetail_def toSummary_def playerCount_def panelAllReady_def allReady_def list.pred_map comp_def)

lemma toSummary_parts [simp]:
  "rs_roomId (toSummary r) = ro_roomId r" "rs_status (toSummary r) = ro_status r" "rs_playerCount (toSummary r) = playerCount r"
  "rs_maxPlayers (toSummary r) = ro_maxPlayers r"
  by (simp_all add: toSummary_def)

lemma panelMe_iff:
  assumes "room_ok i r" "as_userId s = Some u"
  shows "panelMe s (toDetail r) \<noteq> None \<longleftrightarrow> jhas (ro_members r) u"
proof -
  have ids: "me_userId m = k" if "(k, m) \<in> set (ro_members r)" for k m
    using room_okD(3) [OF assms(1)] map_of_is_SomeI [OF room_okD(2) [OF assms(1)] that] .
  have "panelMe s (toDetail r) \<noteq> None \<longleftrightarrow> (\<exists>m \<in> snd ` set (ro_members r). me_userId m = u)"
    unfolding panelMe_def find_None_iff by (auto simp: toDetail_def assms(2))
  also have "\<dots> \<longleftrightarrow> u \<in> fst ` set (ro_members r)" using ids by force
  finally show ?thesis by (simp add: jhas_iff)
qed

lemma controller_ok:
  "ok (fst (lobbyController uuid now (u, name) (PostStart i) lb)) = ok (fst (startGame uuid now u i lb))"
  "ok (fst (lobbyController uuid now (u, name) (DeleteRoom i) lb)) = ok (fst (closeRoom now u i lb))"
  "ok (fst (lobbyController uuid now (u, name) (PostLeave i) lb)) = ok (fst (leaveRoom now u i lb))"
  "ok (fst (lobbyController uuid now (u, name) (PostReady i b) lb)) = ok (fst (setReady now u i b lb))"
  "ok (fst (lobbyController uuid now (u, name) (PostJoin i) lb)) = ok (fst (joinRoom now u name i lb))"
  by (auto simp: lobbyController_def withRoom_def withNothing_def ok_def split: prod.splits sum.splits)

lemma controller_always:
  "ok (fst (lobbyController uuid now user GetRooms lb))" "ok (fst (lobbyController uuid now user (PostRoom body) lb))"
  by (cases user; simp add: lobbyController_def withRoom_def createRoom_def ok_def Let_def)+

lemma server_accepts:
  assumes "jget (lb_rooms lb) i = Some r"
  shows "ok (fst (startGame uuid now u i lb)) \<longleftrightarrow> ro_hostId r = u \<and> \<not> playerCount r < 2 \<and> allReady r"
    "ok (fst (closeRoom now u i lb)) \<longleftrightarrow> ro_hostId r = u"
    "ok (fst (leaveRoom now u i lb)) \<longleftrightarrow> ro_hostId r \<noteq> u"
    "ok (fst (setReady now u i b lb)) \<longleftrightarrow> jhas (ro_members r) u"
    "ok (fst (joinRoom now u name i lb)) \<longleftrightarrow> ro_status r = RoomOpen \<and> \<not> isFull r"
  using assms by (auto simp: startGame_def closeRoom_def leaveRoom_def setReady_def joinRoom_def roomSetReady_def jhas_def Let_def split: option.split)

lemma panel_clicks:
  assumes "onLobby pg" "pg_current pg = Some d" "c \<in> {ToggleReady, StartClick, RefreshRoom, CloseClick b, LeaveClick}"
  shows "lobbyOffered pg c = panelOffered pg d c" "clickHandler c pg = panelHandler c d pg"
  using assms by (auto simp: lobbyOffered_def clickHandler_def)

lemma list_button:
  assumes lobby: "lobby_ok lb" and rooms: "pg_rooms pg = listRooms lb"
  shows "list_ex (\<lambda>r. rs_roomId r = i \<and> joinEnabled pg r) (pg_rooms pg) \<longleftrightarrow>
    pg_joiningId pg \<noteq> Some i \<and> ok (fst (joinRoom now u name i lb))"
proof -
  have keys: "distinct (jkeys (lb_rooms lb))" using lobby by (simp add: lobby_ok_def)
  have ids: "(k, r) \<in> set (lb_rooms lb) \<Longrightarrow> ro_roomId r = k" for k r
    using room_okD(1) [OF lobby_okD [OF lobby map_of_is_SomeI [OF keys]]] by blast
  have "list_ex (\<lambda>r. rs_roomId r = i \<and> joinEnabled pg r) (pg_rooms pg) \<longleftrightarrow>
      (\<exists>k r. (k, r) \<in> set (lb_rooms lb) \<and> ro_roomId r = i \<and> joinEnabled pg (toSummary r))"
    by (force simp: rooms listRooms_def list_ex_iff)
  also have "\<dots> \<longleftrightarrow> (\<exists>r. jget (lb_rooms lb) i = Some r \<and> ro_roomId r = i \<and> joinEnabled pg (toSummary r))"
    using ids map_of_eq_Some_iff [OF keys] by metis
  also have "\<dots> \<longleftrightarrow> pg_joiningId pg \<noteq> Some i \<and> (\<exists>r. jget (lb_rooms lb) i = Some r \<and> ro_status r = RoomOpen \<and> \<not> isFull r)"
    using lobby_okD [OF lobby] by (auto simp: joinEnabled_def isFull_def dest: room_okD(1))
  also have "\<dots> \<longleftrightarrow> pg_joiningId pg \<noteq> Some i \<and> ok (fst (joinRoom now u name i lb))"
    by (cases "jget (lb_rooms lb) i") (simp add: joinRoom_def, simp add: server_accepts)
  finally show ?thesis .
qed

text \<open>The buttons of the panel, in terms of the room it shows.\<close>

lemma panel_buttons:
  assumes lobby: "lobby_ok lb" and page: "onLobby pg" "as_userId (pg_session pg) = Some u"
    and room: "pg_current pg = Some (toDetail r)" "jget (lb_rooms lb) i = Some r"
  shows "lobbyOffered pg StartClick \<longleftrightarrow> \<not> pg_loading pg \<and> ro_hostId r = u \<and> \<not> playerCount r < 2 \<and> allReady r"
    "lobbyOffered pg (CloseClick c) \<longleftrightarrow> \<not> pg_loading pg \<and> ro_hostId r = u"
    "lobbyOffered pg ToggleReady \<longleftrightarrow> \<not> pg_loading pg \<and> jhas (ro_members r) u"
    "lobbyOffered pg LeaveClick \<longleftrightarrow> \<not> pg_loading pg \<and> ro_hostId r \<noteq> u \<and> u \<in> fst ` set (rd_players (toDetail r))"
proof -
  note off = panel_clicks(1) [OF page(1) room(1)]
  note me = panelMe_iff [OF lobby_okD [OF lobby room(2)] page(2)]
  have member: "panelMe (pg_session pg) (toDetail r) \<noteq> None \<longleftrightarrow> u \<in> fst ` set (rd_players (toDetail r))"
    by (force simp: panelMe_def find_None_iff page(2))
  have host: "panelIsHost (pg_session pg) (toDetail r) \<longleftrightarrow> ro_hostId r = u" by (simp add: panelIsHost_def page(2))
  show "lobbyOffered pg StartClick \<longleftrightarrow> \<not> pg_loading pg \<and> ro_hostId r = u \<and> \<not> playerCount r < 2 \<and> allReady r"
    using off [of StartClick] by (simp add: panelOffered_def startBlockReason_def host)
  show "lobbyOffered pg (CloseClick c) \<longleftrightarrow> \<not> pg_loading pg \<and> ro_hostId r = u"
    using off [of "CloseClick c" c] by (simp add: panelOffered_def host)
  show "lobbyOffered pg ToggleReady \<longleftrightarrow> \<not> pg_loading pg \<and> jhas (ro_members r) u"
    using off [of ToggleReady] me by (simp add: panelOffered_def)
  show "lobbyOffered pg LeaveClick \<longleftrightarrow> \<not> pg_loading pg \<and> ro_hostId r \<noteq> u \<and> u \<in> fst ` set (rd_players (toDetail r))"
    using off [of LeaveClick] member by (simp add: panelOffered_def host)
qed

lemma panel_sends:
  assumes lobby: "lobby_ok lb" and page: "onLobby pg" "as_userId (pg_session pg) = Some u"
    and room: "pg_current pg = Some (toDetail r)" "jget (lb_rooms lb) i = Some r"
    and click: "lobbyOffered pg c" "c \<in> {ToggleReady, StartClick, RefreshRoom, CloseClick b, LeaveClick}"
       "snd (clickHandler c pg) = Some t"
  shows "ok (fst (lobbyController uuid now (u, name) (taskCall t) lb))"
proof -
  note off = panel_buttons [OF lobby page room]
  note acc = server_accepts [OF room(2)]
  have i: "ro_roomId r = i" by (rule room_okD(1) [OF lobby_okD [OF lobby room(2)]])
  have h: "snd (panelHandler c (toDetail r) pg) = Some t"
    using panel_clicks(2) [OF page(1) room(1) click(2)] click(3) by simp
  from click(2) consider "c = ToggleReady" | "c = StartClick" | "c = RefreshRoom" | "c = CloseClick b" | "c = LeaveClick" by blast
  then show ?thesis
  proof cases
    case 3
    with h room(2) i show ?thesis by (auto simp: panelHandler_def taskCall_def lobbyController_def getRoom_def withRoom_def)
  next
    case 1
    then show ?thesis using h click(1) off(3) by (auto simp: panelHandler_def taskCall_def controller_ok acc i split: option.splits)
  next
    case 2
    then show ?thesis using h click(1) off(1) by (auto simp: panelHandler_def taskCall_def controller_ok acc i)
  next
    case 4
    then show ?thesis using h click(1) off(2) by (auto simp: panelHandler_def taskCall_def controller_ok acc i split: if_splits)
  next
    case 5
    then show ?thesis using h click(1) off(4) by (auto simp: panelHandler_def taskCall_def controller_ok acc i)
  qed
qed

text \<open> C10: On a lobby page that shows the rooms as the service has them, the button of a room in the list is enabled
  exactly when the service would let the user in and the page is not already waiting for an answer about this room. Without a room of its
  own the page has no panel. With one, and while the panel waits for no answer, its buttons to start, to close and to change
  one's readiness are enabled exactly when the service would accept; the button to leave is there exactly for the members the
  service would let go, although the service lets anyone go but the host. While the panel waits none of them is enabled.
  Whatever button of the page is clicked, the service accepts the request it sends, if it sends one. \<close>
theorem lobby_buttons_fit:
  assumes lobby: "lobby_reachable lb" and page: "onLobby pg" "upToDate pg lb" "as_userId (pg_session pg) = Some u"
  shows "(lobbyOffered pg (JoinClick j) \<longleftrightarrow>
      pg_joiningId pg \<noteq> Some j \<and> ok (fst (lobbyController uuid now (u, name) (PostJoin j) lb))) \<and>
    (case pg_current pg of
       None \<Rightarrow> \<not> lobbyOffered pg StartClick \<and> \<not> lobbyOffered pg (CloseClick c) \<and> \<not> lobbyOffered pg ToggleReady \<and> \<not> lobbyOffered pg LeaveClick
     | Some d \<Rightarrow>
         (lobbyOffered pg StartClick \<longleftrightarrow>
            \<not> pg_loading pg \<and> ok (fst (lobbyController uuid now (u, name) (PostStart (detailId d)) lb))) \<and>
         (lobbyOffered pg (CloseClick c) \<longleftrightarrow>
            \<not> pg_loading pg \<and> ok (fst (lobbyController uuid now (u, name) (DeleteRoom (detailId d)) lb))) \<and>
         (lobbyOffered pg ToggleReady \<longleftrightarrow>
            \<not> pg_loading pg \<and> ok (fst (lobbyController uuid now (u, name) (PostReady (detailId d) b) lb))) \<and>
         (lobbyOffered pg LeaveClick \<longleftrightarrow>
            \<not> pg_loading pg \<and> u \<in> fst ` set (rd_players d) \<and> ok (fst (lobbyController uuid now (u, name) (PostLeave (detailId d)) lb)))) \<and>
    (\<forall>click t. lobbyOffered pg click \<and> snd (clickHandler click pg) = Some t \<longrightarrow>
       ok (fst (lobbyController uuid now (u, name) (taskCall t) lb)))"
proof -
  have lok: "lobby_ok lb" by (rule reachable_ok [OF lobby])
  have join: "lobbyOffered pg (JoinClick j) \<longleftrightarrow> pg_joiningId pg \<noteq> Some j \<and> ok (fst (joinRoom now u name j lb))" for j
    using list_button [OF lok] page(1,2) by (simp add: lobbyOffered_def upToDate_def)
  have shown: "\<exists>r. d = toDetail r \<and> jget (lb_rooms lb) (detailId d) = Some r" if "pg_current pg = Some d" for d
    using that page(2) by (auto simp: upToDate_def)
  have sent: "ok (fst (lobbyController uuid now (u, name) (taskCall t) lb))"
    if c: "lobbyOffered pg click" "snd (clickHandler click pg) = Some t" for click t
  proof (cases "\<exists>b. click \<in> {ToggleReady, StartClick, RefreshRoom, CloseClick b, LeaveClick}")
    case True
    then obtain b where b: "click \<in> {ToggleReady, StartClick, RefreshRoom, CloseClick b, LeaveClick}" by blast
    then obtain d where d: "pg_current pg = Some d" using c(1) by (auto simp: lobbyOffered_def split: option.splits)
    with shown [OF d] panel_sends [OF lok page(1,3) _ _ c(1) b c(2)] show ?thesis by blast
  next
    case False
    with c show ?thesis using join
      by (cases click) (auto simp: clickHandler_def formSubmit_def taskCall_def controller_ok controller_always)
  qed
  show ?thesis
  proof (cases "pg_current pg")
    case None
    then have "\<not> lobbyOffered pg x" if "x \<in> {StartClick, CloseClick c, ToggleReady, LeaveClick}" for x
      using that by (auto simp: lobbyOffered_def)
    then show ?thesis unfolding controller_ok join None option.case using sent by blast
  next
    case (Some d)
    with shown obtain r where r: "d = toDetail r" "jget (lb_rooms lb) (detailId d) = Some r" by blast
    show ?thesis unfolding controller_ok join server_accepts [OF r(2)] Some option.case
      using panel_buttons [OF lok page(1,3) Some [unfolded r(1)] r(2)] r(1) sent by blast
  qed
qed

section \<open>Lost behind a reload\<close>

text \<open>Identifiers are fresh, and others leave the room \<open>i\<close> as it is.\<close>

definition inputFits :: "string \<Rightarrow> lobby_net \<Rightarrow> lobby_net_input \<Rightarrow> bool" where
  "inputFits i net inp \<longleftrightarrow>
     (case inp of
        Serve n clock uuid now \<Rightarrow> jget (lb_rooms (ln_lobby net)) uuid = None
      | Others uuid now req \<Rightarrow> jget (lb_rooms (ln_lobby net)) uuid = None \<and>
          jget (lb_rooms (handleRequest uuid now req (ln_lobby net))) i = jget (lb_rooms (ln_lobby net)) i
      | _ \<Rightarrow> True)"

inductive lobby_run :: "auth_env \<Rightarrow> string \<Rightarrow> lobby_net \<Rightarrow> lobby_net \<Rightarrow> bool" for env i net0 where
  start: "lobby_run env i net0 net0"
| step: "lobby_run env i net0 net \<Longrightarrow> inputFits i net inp \<Longrightarrow> lobby_run env i net0 (lobbyNetStep env inp net)"

definition shut :: "room_summary \<Rightarrow> bool" where
  "shut r \<longleftrightarrow> rs_status r \<noteq> RoomOpen \<or> int (rs_playerCount r) \<ge> rs_maxPlayers r"

definition locked :: "string \<Rightarrow> lobby_page \<Rightarrow> bool" where
  "locked i pg \<longleftrightarrow> map_option detailId (pg_current pg) \<noteq> Some i \<and> (\<forall>r \<in> set (pg_rooms pg). rs_roomId r = i \<longrightarrow> shut r)"

fun taskRoom :: "lobby_task \<Rightarrow> string option" where
  "taskRoom TRefresh = None"
| "taskRoom (TRefreshCurrent i) = Some i"
| "taskRoom (TCreate n m body) = None"
| "taskRoom (TJoin n i) = Some i"
| "taskRoom (TReady n i b) = Some i"
| "taskRoom (TStart n i sc) = Some i"
| "taskRoom (TLeave n i) = Some i"
| "taskRoom (TClose n i) = Some i"

definition answerLocked :: "string \<Rightarrow> exn + lobby_answer \<Rightarrow> bool" where
  "answerLocked i res \<longleftrightarrow>
     (case res of
        Inr (OneRoom d) \<Rightarrow> detailId d \<noteq> i
      | Inr (RoomList rs) \<Rightarrow> (\<forall>r \<in> set rs. rs_roomId r = i \<longrightarrow> shut r)
      | _ \<Rightarrow> True)"

definition flightLocked :: "string \<Rightarrow> lobby_flight \<Rightarrow> bool" where
  "flightLocked i f \<longleftrightarrow> taskRoom (fl_task f) \<noteq> Some i \<and> (\<forall>res. fl_result f = Some res \<longrightarrow> answerLocked i res)"

lemma unmount_keeps [simp]:
  "pg_current (unmountPanel pg) = pg_current pg" "pg_rooms (unmountPanel pg) = pg_rooms pg"
  "pg_current (unmountForm pg) = pg_current pg" "pg_rooms (unmountForm pg) = pg_rooms pg"
  "pg_current (navigate route pg) = pg_current pg" "pg_rooms (navigate route pg) = pg_rooms pg"
  by (simp_all add: unmountPanel_def unmountForm_def navigate_def unmountPage_def)

lemma rendered_keeps [simp]: "pg_current (rendered old new) = pg_current new" "pg_rooms (rendered old new) = pg_rooms new"
  by (simp_all add: rendered_def Let_def split: option.split)

lemma formDone_keeps [simp]:
  "pg_current (fst (formDone n m res pg)) = pg_current pg" "pg_rooms (fst (formDone n m res pg)) = pg_rooms pg"
  "snd (formDone n m res pg) \<in> {None, Some TRefresh}"
  by (simp_all add: formDone_def split: sum.split)

lemma handlerDone_keeps [simp]:
  "pg_current (fst (handlerDone t res pg)) = pg_current pg" "pg_rooms (fst (handlerDone t res pg)) = pg_rooms pg"
  by (simp_all add: handlerDone_def inPanel_def Let_def split: lobby_task.split sum.split lobby_answer.split option.split)

lemma handlerDone_task: "snd (handlerDone t res pg) \<in> {None, Some TRefresh}"
  using formDone_keeps(3) by (simp add: handlerDone_def Let_def split: lobby_task.split sum.split)

lemma panelHandler_keeps [simp]:
  "pg_current (fst (panelHandler c d pg)) = pg_current pg" "pg_rooms (fst (panelHandler c d pg)) = pg_rooms pg"
  by (simp_all add: panelHandler_def split: lobby_click.split option.split)

lemma panelHandler_task: "snd (panelHandler c d pg) = Some t \<Longrightarrow> taskRoom t = Some (detailId d)"
  by (auto simp: panelHandler_def split: lobby_click.splits option.splits if_splits)

lemma locked_cong: "locked i pg \<Longrightarrow> pg_current pg' = pg_current pg \<Longrightarrow> pg_rooms pg' = pg_rooms pg \<Longrightarrow> locked i pg'"
  by (simp add: locked_def)

lemma locked_rendered [simp]: "locked i (rendered old new) = locked i new"
  by (simp add: locked_def)

lemma locked_handlerDone [simp]: "locked i (fst (handlerDone t res pg)) = locked i pg"
  by (simp add: locked_def)

lemma locked_storeDone: "locked i pg \<Longrightarrow> answerLocked i res \<Longrightarrow> locked i (storeDone t res pg)"
  by (auto simp: locked_def storeDone_def answerLocked_def clearIf_def split: sum.splits lobby_task.splits lobby_answer.splits exn.splits)

lemma clickHandler_locked:
  assumes "locked i pg" "lobbyOffered pg c"
  shows "locked i (fst (clickHandler c pg))" "snd (clickHandler c pg) = Some t \<Longrightarrow> taskRoom t \<noteq> Some i"
proof -
  show "locked i (fst (clickHandler c pg))"
    using assms(1) by (cases c) (auto simp: clickHandler_def formSubmit_def locked_def clearCurrent_def split: option.split)
  have join: "taskRoom t \<noteq> Some i" if "c = JoinClick j" "t = TJoin (pg_visit pg) j" for j
    using assms that by (auto simp: lobbyOffered_def list_ex_iff joinEnabled_def locked_def shut_def)
  have panel: "taskRoom t \<noteq> Some i" if "pg_current pg = Some d" "snd (panelHandler c d pg) = Some t" for d
    using panelHandler_task [OF that(2)] assms(1) that(1) by (simp add: locked_def)
  show "snd (clickHandler c pg) = Some t \<Longrightarrow> taskRoom t \<noteq> Some i"
    using join panel by (cases c) (auto simp: clickHandler_def formSubmit_def split: option.splits)
qed

text \<open>What the service does for a request about another room.\<close>

definition callRoom :: "lobby_call \<Rightarrow> string option" where
  "callRoom call = (case call of GetRooms \<Rightarrow> None | GetRoom i \<Rightarrow> Some i | PostRoom body \<Rightarrow> None | PostJoin i \<Rightarrow> Some i
     | PostReady i b \<Rightarrow> Some i | PostStart i \<Rightarrow> Some i | PostLeave i \<Rightarrow> Some i | DeleteRoom i \<Rightarrow> Some i)"

lemma callRoom_task [simp]: "callRoom (taskCall t) = taskRoom t"
  by (simp add: callRoom_def taskCall_def split: lobby_task.split)

lemma rooms_frame [simp]:
  "lb_rooms (lobbyPublish e lb) = lb_rooms lb" "lb_rooms (putRoom r i lb) = jput i r (lb_rooms lb)" "lb_rooms (dropRoom i lb) = jdel i (lb_rooms lb)"
  by (simp_all add: lobbyPublish_def putRoom_def dropRoom_def)

lemma roomId_frame [simp]:
  "ro_roomId (addPlayer u n r) = ro_roomId r" "ro_roomId (markStarting g r) = ro_roomId r" "ro_roomId (removePlayer u r) = ro_roomId r"
  "ro_roomId (newRoom uuid nm sc h mx now) = uuid"
  by (simp_all add: addPlayer_def markStarting_def removePlayer_def newRoom_def)

lemma roomSetReady_id: "roomSetReady u b r = Inr r' \<Longrightarrow> ro_roomId r' = ro_roomId r"
  by (auto simp: roomSetReady_def split: option.splits)

text \<open>The requests of the controller are those of the runs of the lobby.\<close>

definition asRequest :: "string \<times> string \<Rightarrow> lobby_call \<Rightarrow> lobby_request option" where
  "asRequest user call =
     (case call of
        GetRooms \<Rightarrow> None
      | GetRoom i \<Rightarrow> None
      | PostRoom body \<Rightarrow> Some (CreateRoom (fst user) (snd user) body)
      | PostJoin i \<Rightarrow> Some (JoinRoom (fst user) (snd user) i)
      | PostReady i b \<Rightarrow> Some (SetReady (fst user) i b)
      | PostStart i \<Rightarrow> Some (StartGame (fst user) i)
      | PostLeave i \<Rightarrow> Some (LeaveRoom (fst user) i)
      | DeleteRoom i \<Rightarrow> Some (CloseRoom (fst user) i))"

lemma controller_request:
  "snd (lobbyController uuid now user call lb) = (case asRequest user call of None \<Rightarrow> lb | Some req \<Rightarrow> handleRequest uuid now req lb)"
  by (auto simp: lobbyController_def asRequest_def handleRequest_def withRoom_def withNothing_def split: lobby_call.split prod.split sum.split)

lemma serve_reachable:
  assumes "lobby_reachable lb" "jget (lb_rooms lb) uuid = None"
  shows "lobby_reachable (snd (serveLobby env clock h uuid now call lb))"
  using assms lobby_reachable.request [OF assms] by (simp add: serveLobby_def controller_request split: sum.split option.split)

lemma controller_elsewhere:
  assumes lobby: "lobby_ok lb" and fresh: "jget (lb_rooms lb) uuid = None" and i: "jget (lb_rooms lb) i = Some r" "callRoom call \<noteq> Some i"
    and out: "shut (toSummary r)"
  shows "jget (lb_rooms (snd (lobbyController uuid now user call lb))) i = Some r"
    "answerLocked i (fst (lobbyController uuid now user call lb))"
proof -
  obtain u name where user: "user = (u, name)" by (cases user)
  have ui: "uuid \<noteq> i" using fresh i by auto
  have id: "jget (lb_rooms lb) j = Some r' \<Longrightarrow> ro_roomId r' = j" for j r' using room_okD(1) [OF lobby_okD [OF lobby]] .
  have keys: "distinct (jkeys (lb_rooms lb))" using lobby by (simp add: lobby_ok_def)
  have listed: "\<forall>s \<in> set (listRooms lb). rs_roomId s = i \<longrightarrow> shut s"
  proof -
    have "r' = r" if "(k, r') \<in> set (lb_rooms lb)" "ro_roomId r' = i" for k r'
      using map_of_is_SomeI [OF keys that(1)] id i(1) that(2) by force
    then show ?thesis using out by (auto simp: listRooms_def)
  qed
  show "jget (lb_rooms (snd (lobbyController uuid now user call lb))) i = Some r"
    using i ui
    by (cases call) (auto simp: user callRoom_def lobbyController_def withRoom_def withNothing_def createRoom_def joinRoom_def setReady_def startGame_def
        leaveRoom_def closeRoom_def Let_def split: option.split sum.split)
  show "answerLocked i (fst (lobbyController uuid now user call lb))"
  proof (cases call)
    case GetRooms
    with listed show ?thesis by (simp add: user lobbyController_def answerLocked_def)
  next
    case (PostReady j b)
    with i id show ?thesis
      by (auto simp: user callRoom_def lobbyController_def withRoom_def setReady_def answerLocked_def dest: roomSetReady_id split: option.split sum.split)
  qed (use i ui id in \<open>auto simp: user callRoom_def lobbyController_def withRoom_def withNothing_def getRoom_def createRoom_def joinRoom_def
      startGame_def leaveRoom_def closeRoom_def answerLocked_def Let_def split: option.split sum.split\<close>)
qed

lemma serve_elsewhere:
  assumes "lobby_ok lb" "jget (lb_rooms lb) uuid = None" "jget (lb_rooms lb) i = Some r" "callRoom call \<noteq> Some i" "shut (toSummary r)"
  shows "jget (lb_rooms (snd (serveLobby env clock h uuid now call lb))) i = Some r"
    "answerLocked i (fst (serveLobby env clock h uuid now call lb))"
proof -
  note else = controller_elsewhere [OF assms]
  show "jget (lb_rooms (snd (serveLobby env clock h uuid now call lb))) i = Some r"
    using else(1) assms(3) by (simp add: serveLobby_def split: sum.split)
  show "answerLocked i (fst (serveLobby env clock h uuid now call lb))"
  proof (cases "jwtGuard env clock h")
    case (Inl e)
    then show ?thesis by (simp add: serveLobby_def answerLocked_def)
  next
    case (Inr user)
    with else(2) [of now user] show ?thesis by (simp add: serveLobby_def)
  qed
qed

definition lockedOut :: "string \<Rightarrow> room \<Rightarrow> lobby_net \<Rightarrow> bool" where
  "lockedOut i r net \<longleftrightarrow> lobby_reachable (ln_lobby net) \<and> jget (lb_rooms (ln_lobby net)) i = Some r \<and> locked i (ln_page net) \<and>
     (\<forall>n f. jget (ln_flights net) n = Some f \<longrightarrow> flightLocked i f)"

lemma lockedOutD:
  assumes "lockedOut i r net"
  shows "lobby_reachable (ln_lobby net)" "jget (lb_rooms (ln_lobby net)) i = Some r" "locked i (ln_page net)"
    "jget (ln_flights net) n = Some f \<Longrightarrow> flightLocked i f"
  using assms unfolding lockedOut_def by blast+

lemma lockedOut_launch:
  assumes net: "lockedOut i r net" and t: "\<And>t. task = Some t \<Longrightarrow> taskRoom t \<noteq> Some i"
  shows "lockedOut i r (launch task net)"
proof (cases task)
  case None
  with net show ?thesis by (simp add: launch_def)
next
  case (Some t')
  have "answerLocked i (Inl e)" for e by (simp add: answerLocked_def)
  with locked_storeDone [OF lockedOutD(3) [OF net]] t [OF Some] lockedOutD [OF net] show ?thesis
    unfolding lockedOut_def by (auto simp: Some launch_def flightLocked_def split: sum.split)
qed

lemma lockedOut_withPage:
  assumes "lockedOut i r net" "locked i (fst x)" "\<And>t. snd x = Some t \<Longrightarrow> taskRoom t \<noteq> Some i"
  shows "lockedOut i r (withPage x net)"
proof -
  have "lockedOut i r (net\<lparr>ln_page := rendered (ln_page net) (fst x)\<rparr>)" using assms(1,2) by (simp add: lockedOut_def)
  from lockedOut_launch [OF this] assms(3) show ?thesis by (simp add: withPage_def)
qed

lemma mountTask_free: "mountTask pg = Some t \<Longrightarrow> taskRoom t \<noteq> Some i"
  by (auto simp: mountTask_def split: if_splits)

lemma lockedOut_fresh: "locked i (freshPage s route)"
  by (simp add: locked_def freshPage_def)

lemma map_of_dead: "map_of (map (apsnd g) fs) n = map_option g (map_of fs n)"
  by (induction fs) auto

lemma lockedOut_serve:
  assumes net: "lockedOut i r net" and out: "shut (toSummary r)" and fit: "inputFits i net (Serve n clock uuid now)"
  shows "lockedOut i r (lobbyNetStep env (Serve n clock uuid now) net)"
proof (cases "jget (ln_flights net) n")
  case None
  with net show ?thesis by (simp add: lobbyNetStep_def)
next
  case (Some f)
  note N = lockedOutD [OF net]
  have fresh: "jget (lb_rooms (ln_lobby net)) uuid = None" using fit by (simp add: inputFits_def)
  have room: "callRoom (taskCall (fl_task f)) \<noteq> Some i" using N(4) [OF Some] by (simp add: flightLocked_def)
  define x where "x = serveLobby env clock (Some (''Bearer '' @ fl_token f)) uuid now (taskCall (fl_task f)) (ln_lobby net)"
  have x: "lobby_reachable (snd x)" "jget (lb_rooms (snd x)) i = Some r" "answerLocked i (fst x)"
    unfolding x_def by (rule serve_reachable [OF N(1) fresh], rule serve_elsewhere(1) [OF reachable_ok [OF N(1)] fresh N(2) room out],
      rule serve_elsewhere(2) [OF reachable_ok [OF N(1)] fresh N(2) room out])
  have step: "lobbyNetStep env (Serve n clock uuid now) net = (if fl_result f \<noteq> None then net
      else net\<lparr>ln_lobby := snd x, ln_flights := jput n (f\<lparr>fl_result := Some (fst x)\<rparr>) (ln_flights net)\<rparr>)"
    using Some by (simp add: lobbyNetStep_def x_def split_beta)
  have "flightLocked i (f\<lparr>fl_result := Some (fst x)\<rparr>)" using N(4) [OF Some] x(3) by (simp add: flightLocked_def)
  with x N show ?thesis unfolding step lockedOut_def by auto
qed

lemma lockedOut_arrive:
  assumes net: "lockedOut i r net"
  shows "lockedOut i r (lobbyNetStep env (Arrive n) net)"
proof (cases "\<exists>f res. jget (ln_flights net) n = Some f \<and> fl_result f = Some res")
  case False
  with net show ?thesis by (auto simp: lobbyNetStep_def split: option.split)
next
  case True
  then obtain f res where f: "jget (ln_flights net) n = Some f" "fl_result f = Some res" by blast
  note N = lockedOutD [OF net]
  have rest: "lockedOut i r (net\<lparr>ln_flights := jdel n (ln_flights net)\<rparr>)" using N unfolding lockedOut_def by (auto simp: delete_conv' split: if_splits)
  have "locked i (storeDone (fl_task f) res (ln_page net))"
    using locked_storeDone [OF N(3)] N(4) [OF f(1)] f(2) by (simp add: flightLocked_def)
  then have "lockedOut i r (withPage (handlerDone (fl_task f) res (storeDone (fl_task f) res (ln_page net))) (net\<lparr>ln_flights := jdel n (ln_flights net)\<rparr>))"
    using handlerDone_task [of "fl_task f" res "storeDone (fl_task f) res (ln_page net)"]
    by (intro lockedOut_withPage [OF rest]) auto
  with rest f show ?thesis by (simp add: lobbyNetStep_def)
qed

lemma lockedOut_step:
  assumes net: "lockedOut i r net" and out: "shut (toSummary r)" and fit: "inputFits i net inp"
  shows "lockedOut i r (lobbyNetStep env inp net)"
proof (cases inp)
  case (Click c)
  with net clickHandler_locked [OF lockedOutD(3) [OF net]] show ?thesis
    by (auto simp: lobbyNetStep_def intro!: lockedOut_withPage)
next
  case Poll
  have "detailId d \<noteq> i" if "pg_current (ln_page net) = Some d" for d using lockedOutD(3) [OF net] that by (simp add: locked_def)
  with net lockedOutD(3) [OF net] Poll show ?thesis
    by (auto simp: lobbyNetStep_def intro!: lockedOut_withPage split: option.split)
next
  case (Visit route)
  have "locked i (navigate route (ln_page net))" by (rule locked_cong [OF lockedOutD(3) [OF net]]) simp_all
  with net Visit mountTask_free show ?thesis by (auto simp: lobbyNetStep_def Let_def intro!: lockedOut_withPage)
next
  case (SignIn res)
  have "locked i (authPanelDone res (ln_page net))"
    by (rule locked_cong [OF lockedOutD(3) [OF net]]) (simp_all add: authPanelDone_def split: sum.split)
  with net SignIn mountTask_free show ?thesis by (auto simp: lobbyNetStep_def Let_def intro!: lockedOut_withPage split: if_splits)
next
  case Reload
  let ?fs = "map (apsnd (fl_dead_update (\<lambda>_. True))) (ln_flights net)"
  have "lockedOut i r (net\<lparr>ln_page := freshPage (pg_session (ln_page net)) (pg_route (ln_page net)), ln_flights := ?fs\<rparr>)"
    using lockedOutD [OF net] unfolding lockedOut_def by (auto simp: lockedOut_fresh map_of_dead flightLocked_def)
  from lockedOut_launch [OF this] mountTask_free Reload show ?thesis by (auto simp: lobbyNetStep_def Let_def)
next
  case (Serve n clock uuid now)
  with lockedOut_serve [OF net out] fit show ?thesis by simp
next
  case (Arrive n)
  with lockedOut_arrive [OF net] show ?thesis by simp
next
  case (Others uuid now req)
  with net fit lobby_reachable.request [of "ln_lobby net" uuid now req] show ?thesis
    by (simp add: lockedOut_def lobbyNetStep_def inputFits_def)
qed

text \<open> C11: A reload of the page loses the room for good: once the room takes no new players, because it is full or has
  been started, nothing its host or a member who reloads can do on the page, whatever is clicked and in whatever order
  answers arrive, brings it back, as long as the others leave it as it is: its button stays disabled, and the service
  refuses even the member because it looks at the places before it looks at the members. \<close>
theorem reload_locks_out:
  assumes lobby: "lobby_reachable (ln_lobby net0)" "jget (lb_rooms (ln_lobby net0)) i = Some r" "ro_status r \<noteq> RoomOpen \<or> isFull r"
    and idle: "ln_flights net0 = []" and run: "lobby_run env i (lobbyNetStep env Reload net0) net"
  shows "jget (lb_rooms (ln_lobby net)) i = Some r \<and> map_option detailId (pg_current (ln_page net)) \<noteq> Some i \<and>
    \<not> lobbyOffered (ln_page net) (JoinClick i) \<and> \<not> ok (fst (lobbyController uuid now user (PostJoin i) (ln_lobby net)))"
proof -
  have out: "shut (toSummary r)" using lobby(3) by (auto simp: shut_def isFull_def)
  have "lockedOut i r (net0\<lparr>ln_page := freshPage (pg_session (ln_page net0)) (pg_route (ln_page net0)), ln_flights := []\<rparr>)"
    using lobby(1,2) by (simp add: lockedOut_def lockedOut_fresh)
  from lockedOut_launch [OF this] mountTask_free idle have first: "lockedOut i r (lobbyNetStep env Reload net0)"
    by (auto simp: lobbyNetStep_def Let_def)
  from run have "lockedOut i r net"
  proof (induction rule: lobby_run.induct)
    case start
    show ?case by (rule first)
  next
    case (step net inp)
    from lockedOut_step [OF step.IH out step.hyps(2)] show ?case .
  qed
  note N = lockedOutD [OF this]
  obtain u name where user: "user = (u, name)" by (cases user)
  have "\<not> lobbyOffered (ln_page net) (JoinClick i)"
    using N(3) by (auto simp: lobbyOffered_def list_ex_iff joinEnabled_def locked_def shut_def)
  moreover have "\<not> ok (fst (lobbyController uuid now user (PostJoin i) (ln_lobby net)))"
    using lobby(3) unfolding user controller_ok server_accepts [OF N(2)] by blast
  ultimately show ?thesis using N(2,3) by (simp add: locked_def)
qed

section \<open>A poll that overtakes a departure\<close>

lemma rendered_open: "(\<And>d. pg_current new = Some d \<Longrightarrow> rd_gameId d = None) \<Longrightarrow>
  rendered old new = (if pg_current old \<noteq> None \<and> pg_current new = None then unmountPanel new else new)"
  by (auto simp: rendered_def Let_def unmountPanel_def split: option.split)

definition departure :: "lobby_net_input list" where
  "departure = [Poll, Serve 0 0 ''x'' 0, Click LeaveClick, Serve 1 0 ''x'' 0, Arrive 1, Arrive 0]"

definition returned :: "lobby_page \<Rightarrow> room_detail \<Rightarrow> lobby_page" where
  "returned pg d = (unmountPanel (pg\<lparr>pg_loading := True, pg_current := None\<rparr>))\<lparr>pg_current := Some d\<rparr>"

lemma departure_run:
  assumes page: "onLobby pg" "pg_current pg = Some d" "lobbyOffered pg LeaveClick" "storeToken (pg_session pg) = Inr token"
    and d: "detailId d = i" "rd_gameId d = None"
    and served: "serveLobby env 0 (Some (''Bearer '' @ token)) ''x'' 0 (GetRoom i) lb = (Inr (OneRoom d), lb)"
      "serveLobby env 0 (Some (''Bearer '' @ token)) ''x'' 0 (PostLeave i) lb = (Inr NoContent, lb')"
  shows "fold (lobbyNetStep env) departure \<lparr>ln_page = pg, ln_flights = [], ln_next = 0, ln_lobby = lb\<rparr> =
    \<lparr>ln_page = returned pg d, ln_flights = [], ln_next = 2, ln_lobby = lb'\<rparr>"
proof -
  define f0 where "f0 = \<lparr>fl_task = TRefreshCurrent i, fl_token = token, fl_result = None, fl_dead = False\<rparr>"
  define f0' where "f0' = f0\<lparr>fl_result := Some (Inr (OneRoom d))\<rparr>"
  define f1 where "f1 = \<lparr>fl_task = TLeave (pg_panel pg) i, fl_token = token, fl_result = None, fl_dead = False\<rparr>"
  define f1' where "f1' = f1\<lparr>fl_result := Some (Inr NoContent)\<rparr>"
  define pg1 where "pg1 = pg\<lparr>pg_loading := True\<rparr>"
  define pg2 where "pg2 = unmountPanel (pg1\<lparr>pg_current := None\<rparr>)"
  have same: "rendered p q = q" if "pg_current q = Some d" for p q using rendered_open [of q p] d(2) that by simp
  have gone: "rendered p q = unmountPanel q" if "pg_current q = None" "pg_current p = Some d" for p q using rendered_open [of q p] that by simp
  have p1: "pg_current pg1 = Some d" "storeToken (pg_session pg1) = Inr token" using page by (simp_all add: pg1_def)
  have s1: "lobbyNetStep env Poll \<lparr>ln_page = pg, ln_flights = [], ln_next = 0, ln_lobby = lb\<rparr> =
      \<lparr>ln_page = pg, ln_flights = [(0, f0)], ln_next = 1, ln_lobby = lb\<rparr>" (is "_ = ?n1")
    using page d by (simp add: lobbyNetStep_def withPage_def launch_def same f0_def)
  have s2: "lobbyNetStep env (Serve 0 0 ''x'' 0) ?n1 = \<lparr>ln_page = pg, ln_flights = [(0, f0')], ln_next = 1, ln_lobby = lb\<rparr>" (is "_ = ?n2")
    using served(1) by (simp add: lobbyNetStep_def f0_def f0'_def taskCall_def)
  have "clickHandler LeaveClick pg = (pg1, Some (TLeave (pg_panel pg) i))"
    using page(2) d(1) by (simp add: clickHandler_def panelHandler_def pg1_def)
  then have s3: "lobbyNetStep env (Click LeaveClick) ?n2 = \<lparr>ln_page = pg1, ln_flights = [(0, f0'), (1, f1)], ln_next = 2, ln_lobby = lb\<rparr>" (is "_ = ?n3")
    using page(3) p1 by (simp add: lobbyNetStep_def withPage_def launch_def same f1_def)
  have s4: "lobbyNetStep env (Serve 1 0 ''x'' 0) ?n3 = \<lparr>ln_page = pg1, ln_flights = [(0, f0'), (1, f1')], ln_next = 2, ln_lobby = lb'\<rparr>" (is "_ = ?n4")
    using served(2) by (simp add: lobbyNetStep_def f1_def f1'_def taskCall_def)
  have "storeDone (TLeave (pg_panel pg) i) (Inr NoContent) pg1 = pg1\<lparr>pg_current := None\<rparr>"
    using p1(1) d(1) by (simp add: storeDone_def clearIf_def)
  then have s5: "lobbyNetStep env (Arrive 1) ?n4 = \<lparr>ln_page = pg2, ln_flights = [(0, f0')], ln_next = 2, ln_lobby = lb'\<rparr>" (is "_ = ?n5")
    using p1(1) by (simp add: lobbyNetStep_def f1'_def f1_def handlerDone_def withPage_def launch_def gone pg2_def)
  have "storeDone (TRefreshCurrent i) (Inr (OneRoom d)) pg2 = returned pg d" "pg_current (returned pg d) = Some d"
    by (simp_all add: storeDone_def returned_def pg2_def pg1_def)
  then have s6: "lobbyNetStep env (Arrive 0) ?n5 = \<lparr>ln_page = returned pg d, ln_flights = [], ln_next = 2, ln_lobby = lb'\<rparr>"
    by (simp add: lobbyNetStep_def f0'_def f0_def handlerDone_def withPage_def launch_def same)
  show ?thesis unfolding departure_def fold.simps comp_def id_apply s1 s2 s3 s4 s5 s6 ..
qed

text \<open> C21: A poll answered before the departure and delivered after it: a member leaves, the service takes the member
  off the room, and yet the page shows the room again with the member in it and offers its buttons, whose requests the
  service then refuses. \<close>
theorem left_room_reappears:
  assumes lobby: "lobby_reachable (ln_lobby net)" "jget (lb_rooms (ln_lobby net)) i = Some r" "ro_status r = RoomOpen"
    and member: "jhas (ro_members r) u" "ro_hostId r \<noteq> u"
    and page: "onLobby (ln_page net)" "\<not> pg_loading (ln_page net)" "pg_current (ln_page net) = Some (toDetail r)" "as_userId (pg_session (ln_page net)) = Some u"
    and token: "as_token (pg_session (ln_page net)) = Some token" "jwtGuard env 0 (Some (''Bearer '' @ token)) = Inr (u, name)"
    and idle: "ln_flights net = []" "ln_next net = 0"
  shows "\<exists>net'. fold (lobbyNetStep env) departure net = net' \<and>
    \<not> (\<exists>r'. jget (lb_rooms (ln_lobby net')) i = Some r' \<and> jhas (ro_members r') u) \<and>
    pg_current (ln_page net') = Some (toDetail r) \<and> lobbyOffered (ln_page net') ToggleReady \<and>
    \<not> ok (fst (lobbyController uuid now (u, name) (PostReady i b) (ln_lobby net')))"
proof -
  define lb where "lb = ln_lobby net"
  define pg where "pg = ln_page net"
  define d where "d = toDetail r"
  define lb' where "lb' = snd (leaveRoom 0 u i lb)"
  note rok = lobby_okD [OF reachable_ok [OF lobby(1)] lobby(2)]
  have id: "detailId d = i" by (simp add: d_def room_okD(1) [OF rok])
  have g: "rd_gameId d = None" using room_okD(6) [OF rok] lobby(3) by (auto simp: d_def toDetail_def truthy_def)
  have get: "jget (lb_rooms lb) i = Some r" using lobby(2) by (simp add: lb_def)
  have tok: "storeToken (pg_session pg) = Inr token"
    using page(1) token(1) by (auto simp: pg_def onLobby_def storeToken_def truthy_def split: if_splits)
  have me: "panelMe (pg_session pg) d \<noteq> None" using panelMe_iff [OF rok page(4)] member(1) by (simp add: d_def pg_def)
  have host: "\<not> panelIsHost (pg_session pg) d" using member(2) page(4) by (simp add: panelIsHost_def d_def pg_def)
  have cur: "pg_current pg = Some d" and on: "onLobby pg" using page(1,3) by (simp_all add: pg_def d_def)
  have off: "lobbyOffered pg LeaveClick"
    using panel_clicks(1) [OF on cur, of LeaveClick] page(2) me host by (simp add: panelOffered_def pg_def [symmetric])
  have "serveLobby env 0 (Some (''Bearer '' @ token)) ''x'' 0 (GetRoom i) lb = (Inr (OneRoom d), lb)"
    using get by (simp add: serveLobby_def token(2) [simplified] lobbyController_def getRoom_def withRoom_def d_def)
  moreover have "serveLobby env 0 (Some (''Bearer '' @ token)) ''x'' 0 (PostLeave i) lb = (Inr NoContent, lb')"
    using get member(2) by (simp add: serveLobby_def token(2) [simplified] lobbyController_def withNothing_def lb'_def leaveRoom_def Let_def)
  moreover have "net = \<lparr>ln_page = pg, ln_flights = [], ln_next = 0, ln_lobby = lb\<rparr>" using idle by (simp add: pg_def lb_def)
  ultimately have run: "fold (lobbyNetStep env) departure net = \<lparr>ln_page = returned pg d, ln_flights = [], ln_next = 2, ln_lobby = lb'\<rparr>"
    using departure_run [OF on cur off tok id g] by simp
  have p: "onLobby (returned pg d)" "pg_current (returned pg d) = Some d" "\<not> pg_loading (returned pg d)" "pg_session (returned pg d) = pg_session pg"
    using on by (simp_all add: returned_def unmountPanel_def onLobby_def)
  have ready: "lobbyOffered (returned pg d) ToggleReady"
    using panel_clicks(1) [OF p(1,2), of ToggleReady] p(3,4) me by (simp add: panelOffered_def)
  have away: "\<not> (\<exists>r'. jget (lb_rooms lb') i = Some r' \<and> jhas (ro_members r') u)"
    using get member(2) by (auto simp: lb'_def leaveRoom_def Let_def removePlayer_def jhas_def split: if_splits)
  then have "\<not> ok (fst (lobbyController uuid now (u, name) (PostReady i b) lb'))"
    using server_accepts(4) [of lb' i _ now u b] unfolding controller_ok by (cases "jget (lb_rooms lb') i") (auto simp: setReady_def)
  with away p(2) ready show ?thesis unfolding run by (simp add: d_def)
qed

section \<open>A small page\<close>

definition bobsToken :: string where
  "bobsToken = exampleSign ''s'' ''1h'' 0 (''bob'', ''Bob'')"

definition bobsSession :: auth_session where
  "bobsSession = \<lparr>as_userId = Some ''bob'', as_username = Some ''Bob'', as_token = Some bobsToken\<rparr>"

definition bobsPage :: lobby_page where
  "bobsPage = (freshPage bobsSession ''/lobby'')\<lparr>pg_rooms := listRooms exampleLobby, pg_current := Some (toDetail exampleRoom)\<rparr>"

definition bobsNet :: lobby_net where
  "bobsNet = \<lparr>ln_page = bobsPage, ln_flights = [], ln_next = 0, ln_lobby = exampleLobby\<rparr>"

lemma bobs_token: "bobsToken \<noteq> []" "jwtGuard exampleAuth 0 (Some (''Bearer '' @ bobsToken)) = Inr (''bob'', ''Bob'')"
proof -
  show "bobsToken \<noteq> []" by (simp add: bobsToken_def exampleSign_def)
  have "ae_verify exampleAuth ''s'' 0 (ae_sign exampleAuth ''s'' ''1h'' 0 (''bob'', ''Bob'')) = Some (''bob'', ''Bob'')"
    using example_jwt by (simp add: jwt_laws_def exampleSeconds_def)
  then show "jwtGuard exampleAuth 0 (Some (''Bearer '' @ bobsToken)) = Inr (''bob'', ''Bob'')"
    by (simp add: jwtGuard_def jwtSecret_def exampleAuth_def bobsToken_def)
qed

lemma bobs_page:
  "onLobby bobsPage" "upToDate bobsPage exampleLobby" "as_userId (pg_session bobsPage) = Some ''bob''" "\<not> pg_loading bobsPage"
  "pg_current bobsPage = Some (toDetail exampleRoom)" "detailId (toDetail exampleRoom) = ''r1''" "pg_joiningId bobsPage = None"
  "as_token (pg_session bobsPage) = Some bobsToken"
  by (simp_all add: bobsPage_def freshPage_def onLobby_def storeToken_def truthy_def bobsSession_def bobs_token upToDate_def example_rooms)
    (simp_all add: exampleRoom_def)

lemma lobby_buttons_fit_witness:
  "\<not> lobbyOffered bobsPage StartClick \<and> lobbyOffered bobsPage LeaveClick \<and> \<not> lobbyOffered bobsPage (JoinClick ''r1'')"
proof -
  have r: "jget (lb_rooms exampleLobby) ''r1'' = Some exampleRoom" by (simp add: example_rooms)
  from lobby_buttons_fit [OF example_reachable bobs_page(1-3), of "''r1''" "''x''" 0 "''Bob''" True True]
  show ?thesis unfolding bobs_page(5) option.case bobs_page(6) controller_ok server_accepts [OF r] using bobs_page(4)
    by (simp add: exampleRoom_def toDetail_def isFull_def playerCount_def)
qed

lemma reload_locks_out_witness:
  "\<not> lobbyOffered (ln_page (lobbyNetStep exampleAuth (Serve 0 0 ''x'' 0) (lobbyNetStep exampleAuth Reload bobsNet))) (JoinClick ''r1'')"
proof -
  have "lobby_run exampleAuth ''r1'' (lobbyNetStep exampleAuth Reload bobsNet) (lobbyNetStep exampleAuth (Serve 0 0 ''x'' 0) (lobbyNetStep exampleAuth Reload bobsNet))"
    by (rule lobby_run.step [OF lobby_run.start])
      (simp add: inputFits_def lobbyNetStep_def Let_def launch_def bobsNet_def example_rooms split: option.split sum.split)
  moreover have "lobby_reachable (ln_lobby bobsNet)" "jget (lb_rooms (ln_lobby bobsNet)) ''r1'' = Some exampleRoom"
    "ro_status exampleRoom \<noteq> RoomOpen \<or> isFull exampleRoom" "ln_flights bobsNet = []"
    by (simp_all add: bobsNet_def example_reachable example_rooms) (simp add: exampleRoom_def isFull_def playerCount_def)
  ultimately show ?thesis using reload_locks_out by blast
qed

lemma left_room_reappears_witness:
  "pg_current (ln_page (fold (lobbyNetStep exampleAuth) departure bobsNet)) = Some (toDetail exampleRoom)"
proof -
  have "jget (lb_rooms (ln_lobby bobsNet)) ''r1'' = Some exampleRoom" "lobby_reachable (ln_lobby bobsNet)" "ln_page bobsNet = bobsPage"
    "ln_flights bobsNet = []" "ln_next bobsNet = 0" by (simp_all add: bobsNet_def example_rooms example_reachable)
  moreover have "ro_status exampleRoom = RoomOpen" "jhas (ro_members exampleRoom) ''bob''" "ro_hostId exampleRoom \<noteq> ''bob''"
    by (simp_all add: exampleRoom_def jhas_def)
  ultimately show ?thesis
    using left_room_reappears [of bobsNet "''r1''" exampleRoom "''bob''" bobsToken exampleAuth "''Bob''"] bobs_page bobs_token(2) by auto
qed

end
