(* ===== verification/KingdomsPanel.thy ===== *)
theory KingdomsPanel
  imports KingdomsView KingdomsProperties KingdomsExample
begin

text \<open>
  What the board UI of Kingdoms of Dominion computes from the view before a player commits to an
  action: the strength preview of \<open>MilitaryPanel.tsx\<close> and the costs of \<open>ActionPanel.tsx\<close>. These
  duplicate formulas of the server; the lemmas compare them.
\<close>

section \<open>The strength preview (MilitaryPanel.tsx)\<close>

definition TERRAIN_DEFENSE_BONUS :: "(string, real) jsmap" where
  "TERRAIN_DEFENSE_BONUS = [(''plains'', 1), (''hills'', 13 / 10), (''forest'', 3 / 2), (''mountain'', 2)]"

definition STRUCTURE_DEFENSE_MULT :: "(string, real) jsmap" where
  "STRUCTURE_DEFENSE_MULT = [(''capital-base'', 2), (''castle'', 2)]"

definition UI_LOYALTY_DAMAGE :: int where "UI_LOYALTY_DAMAGE = 45"
definition UI_MAX_LOYALTY :: int where "UI_MAX_LOYALTY = 100"

record strength_breakdown =
  sb_totalAtk :: int
  sb_count :: nat
  sb_terrainBonus :: real
  sb_structDefMult :: real
  sb_strength :: real

definition previewStrength :: "ktile_view \<Rightarrow> string \<Rightarrow> bool \<Rightarrow> string list option \<Rightarrow> strength_breakdown" where
  "previewStrength tile ownerId asDefender unitFilter =
     (let combatUnits = filter (\<lambda>p. kv_attack p \<noteq> None \<and> kv_owner p = ownerId \<and>
                                  (case unitFilter of None \<Rightarrow> True | Some ids \<Rightarrow> kv_id p \<in> set ids)) (kt_pieces tile);
          totalAtk = foldl (\<lambda>sum u. sum + (case kv_attack u of Some n \<Rightarrow> n | None \<Rightarrow> 0)) 0 combatUnits;
          count = length combatUnits;
          terrainBonus = (if asDefender then (case jget TERRAIN_DEFENSE_BONUS (kt_terrain tile) of Some b \<Rightarrow> b | None \<Rightarrow> 1) else 1);
          structDefMult = (if asDefender
            then foldl (\<lambda>mx p. max mx (case jget STRUCTURE_DEFENSE_MULT (kv_kind p) of Some m \<Rightarrow> m | None \<Rightarrow> 1)) 1
                   (filter (\<lambda>p. kv_defenseMultiplier p \<noteq> None) (kt_pieces tile))
            else 1)
      in \<lparr>sb_totalAtk = totalAtk, sb_count = count, sb_terrainBonus = terrainBonus, sb_structDefMult = structDefMult,
          sb_strength = (if count = 0 then 0 else real_of_int totalAtk * sqrt (real count) * terrainBonus * structDefMult)\<rparr>)"

definition estimateCasualties :: "nat \<Rightarrow> nat \<Rightarrow> real \<Rightarrow> real \<Rightarrow> bool \<times> int" where
  "estimateCasualties attackerCount defenderCount attackerStr defenderStr =
     (if defenderCount = 0 then (True, 0)
      else if attackerStr > defenderStr
      then (True, \<lfloor>real attackerCount * (defenderStr / attackerStr) * (1 / 2)\<rfloor>)
      else (False, \<lfloor>real defenderCount * (attackerStr / defenderStr) * (2 / 5)\<rfloor>))"

text \<open>The truthy keys of a record of flags, as \<open>Object.entries\<close> lists them.\<close>

definition stagedIds :: "(string, bool) jsmap \<Rightarrow> string list" where
  "stagedIds chosen = map fst (filter snd chosen)"

record attack_preview =
  ap_atk :: strength_breakdown
  ap_def :: strength_breakdown
  ap_attackerWins :: bool
  ap_casualties :: int
  ap_hasNoble :: bool
  ap_currentLoyalty :: int
  ap_nextLoyalty :: int

definition attackPreview :: "kingdoms_view \<Rightarrow> ktile_view \<Rightarrow> ktile_view \<Rightarrow> (string, bool) jsmap option \<Rightarrow> attack_preview" where
  "attackPreview view selectedTile attackingTile attackUnitIds =
     (let attackerOwner = (case kt_owner selectedTile of Some w \<Rightarrow> w | None \<Rightarrow> kv_currentActivePlayer view);
          unitFilter = map_option stagedIds attackUnitIds;
          atk = previewStrength selectedTile attackerOwner False unitFilter;
          defr = (case truthy (kt_owner attackingTile) of
                    Some w \<Rightarrow> previewStrength attackingTile w True None
                  | None \<Rightarrow> \<lparr>sb_totalAtk = 0, sb_count = 0, sb_terrainBonus = 1, sb_structDefMult = 1, sb_strength = 0\<rparr>);
          (wins, casualties) = estimateCasualties (sb_count atk) (sb_count defr) (sb_strength atk) (sb_strength defr);
          hasNoble = list_ex (\<lambda>p. kv_kind p = ''noble'' \<and> kv_owner p = attackerOwner \<and>
                        (case unitFilter of None \<Rightarrow> True | Some ids \<Rightarrow> kv_id p \<in> set ids)) (kt_pieces selectedTile);
          currentLoyalty = (case jget (kts_tileLoyalty (kv_turnState view)) (kt_id attackingTile) of
                              Some e \<Rightarrow> tl_loyalty e | None \<Rightarrow> UI_MAX_LOYALTY)
      in \<lparr>ap_atk = atk, ap_def = defr, ap_attackerWins = wins, ap_casualties = casualties, ap_hasNoble = hasNoble,
          ap_currentLoyalty = currentLoyalty, ap_nextLoyalty = currentLoyalty - UI_LOYALTY_DAMAGE\<rparr>)"

section \<open>Costs (ActionPanel.tsx)\<close>

text \<open>A cost names some of four resources; a missing entry counts as zero.\<close>

definition UNIT_COSTS :: "(string, (string \<times> int) list) jsmap" where
  "UNIT_COSTS = [(''spearman'', [(''gold'', 10), (''food'', 1)]), (''cannoneer'', [(''gold'', 20), (''iron'', 2)])]"

definition STRUCTURE_COSTS :: "(string, (string \<times> int) list) jsmap" where
  "STRUCTURE_COSTS = [(''farm'', [(''wood'', 2)]), (''city'', [(''wood'', 3), (''iron'', 2)]),
     (''castle'', [(''wood'', 4), (''iron'', 3)]), (''gate'', [(''wood'', 2), (''iron'', 1)])]"

definition UI_DEVELOP_COST :: int where "UI_DEVELOP_COST = 8"

definition UI_RECRUIT_STRUCTURES :: "string list" where
  "UI_RECRUIT_STRUCTURES = [''capital-base'', ''city'']"

definition dynamicNobleCost :: "int \<Rightarrow> (string \<times> int) list" where
  "dynamicNobleCost currentNobleCount =
     [(''gold'', \<lceil>8 * (17 / 10 :: real) ^ nat (max 0 (currentNobleCount - 1))\<rceil>), (''iron'', 1), (''food'', 1)]"

definition costEntry :: "(string \<times> int) list \<Rightarrow> string \<Rightarrow> int" where
  "costEntry cost r = (case jget cost r of Some n \<Rightarrow> n | None \<Rightarrow> 0)"

definition canAfford :: "kplayer_view \<Rightarrow> (string \<times> int) list \<Rightarrow> bool" where
  "canAfford player cost =
     (if costEntry cost ''gold'' > kp_gold player then False
      else if costEntry cost ''wood'' > kp_wood player then False
      else if costEntry cost ''iron'' > kp_iron player then False
      else if costEntry cost ''food'' > kp_food player then False
      else True)"

text \<open>The tooltip of a row that cannot be afforded; the emoji of a resource is replaced by its name.\<close>

fun joinWith :: "string \<Rightarrow> string list \<Rightarrow> string" where
  "joinWith sep [] = []"
| "joinWith sep [x] = x"
| "joinWith sep (x # y # ys) = x @ sep @ joinWith sep (y # ys)"

definition missingResourceText :: "kplayer_view \<Rightarrow> (string \<times> int) list \<Rightarrow> string option" where
  "missingResourceText player cost =
     (let short = (\<lambda>r have. if costEntry cost r > have then [show_int (costEntry cost r - have) @ r] else []);
          missing = short ''gold'' (kp_gold player) @ short ''wood'' (kp_wood player) @
                    short ''iron'' (kp_iron player) @ short ''food'' (kp_food player)
      in if length missing > 0 then Some (''need '' @ joinWith '' '' missing @ '' more'') else None)"

definition myNobleCount :: "kingdoms_view \<Rightarrow> string \<Rightarrow> int" where
  "myNobleCount view userId =
     foldl (\<lambda>sum t. sum + int (length (filter (\<lambda>p. kv_kind p = ''noble'' \<and> kv_owner p = userId) (kt_pieces t)))) 0 (kv_tiles view)"

definition effectiveUnitCosts :: "kingdoms_view \<Rightarrow> string option \<Rightarrow> (string, (string \<times> int) list) jsmap" where
  "effectiveUnitCosts view userId =
     jput ''noble'' (dynamicNobleCost (case truthy userId of Some u \<Rightarrow> myNobleCount view u | None \<Rightarrow> 0)) UNIT_COSTS"

section \<open>The preview against the battle\<close>

lemma foldl_sum_int: "foldl (\<lambda>sum u. sum + f u) (a :: int) us = a + sum_list (map f us)"
  by (induction us arbitrary: a) auto

lemma viewPiece_unit:
  assumes "pc_kind p \<in> set UNIT_KINDS \<or> pc_kind p \<in> set STRUCTURE_KINDS"
  shows "kv_attack (viewPiece p) \<noteq> None \<longleftrightarrow> pc_kind p \<in> set UNIT_KINDS"
    "kv_defenseMultiplier (viewPiece p) \<noteq> None \<longleftrightarrow> pc_kind p \<in> set STRUCTURE_KINDS"
    "kv_id (viewPiece p) = pc_id p" "kv_kind (viewPiece p) = pc_kind p" "kv_owner (viewPiece p) = pc_owner p"
proof -
  show "kv_attack (viewPiece p) \<noteq> None \<longleftrightarrow> pc_kind p \<in> set UNIT_KINDS"
    using unit_stats_attack [of "pc_kind p"] by (auto simp: viewPiece_def Let_def)
  have "k \<in> set STRUCTURE_KINDS \<Longrightarrow> jget STRUCTURE_STATS k \<noteq> None" for k
    by (auto simp: STRUCTURE_KINDS_eq STRUCTURE_STATS_def STRUCTURE_DEFS_def)
  then show "kv_defenseMultiplier (viewPiece p) \<noteq> None \<longleftrightarrow> pc_kind p \<in> set STRUCTURE_KINDS"
    by (simp add: viewPiece_def Let_def)
qed (simp_all add: viewPiece_def Let_def)

definition attackOf :: "piece \<Rightarrow> int" where
  "attackOf p = (case kv_attack (viewPiece p) of Some n \<Rightarrow> n | None \<Rightarrow> 0)"

lemma asCombatant_attack:
  assumes b: "board_ok own (gs_pieces s)" and p: "jget (gs_pieces s) i = Some p" "pc_kind p \<in> set UNIT_KINDS"
  shows "\<exists>c. asCombatant s i = Inr c \<and> cb_attack c = real_of_int (attackOf p)"
proof -
  obtain st :: unit_stats where st: "jget UNIT_STATS (pc_kind p) = Some st"
     "jget (getDefaultStats kingdomsPieces (pc_kind p)) ''attack'' = Some (real_of_int (us_attack st))"
    using unit_stats_attack [OF p(2)] by blast
  have "piece_ok own i p" using board_okD [OF b p(1)] .
  then have "pc_stats p = Some (getDefaultStats kingdomsPieces (pc_kind p))" "pc_id p = i"
    using st by (auto simp: piece_ok_def default_stats_def split: list.splits)
  with st p show ?thesis by (simp add: asCombatant_def pieceAsCombatant_def attackOf_def viewPiece_def Let_def)
qed

lemma asCombatants_sum:
  assumes b: "board_ok own (gs_pieces s)"
  shows "asCombatants s ids = Inr cs \<Longrightarrow> \<forall>i \<in> set ids. \<exists>p. jget (gs_pieces s) i = Some p \<and> pc_kind p \<in> set UNIT_KINDS \<Longrightarrow>
    length cs = length ids \<and> sum_list (map cb_attack cs) = real_of_int (\<Sum>i \<leftarrow> ids. attackOf (the (jget (gs_pieces s) i)))"
proof (induction ids arbitrary: cs)
  case (Cons i ids)
  obtain p where p: "jget (gs_pieces s) i = Some p" "pc_kind p \<in> set UNIT_KINDS" using Cons.prems(2) by auto
  obtain c where c: "asCombatant s i = Inr c" "cb_attack c = real_of_int (attackOf p)" using asCombatant_attack [OF b p] by blast
  from Cons.prems(1) c(1) obtain cs' where "asCombatants s ids = Inr cs'" "cs = c # cs'" by (auto split: sum.splits)
  with Cons.IH [of cs'] Cons.prems(2) c(2) p(1) show ?case by simp
qed simp

text \<open>A force named by distinct identifiers counts and weighs what a scan of the pieces finds.\<close>

lemma keys_of_filter:
  assumes "distinct (jkeys pieces)"
  shows "i \<in> set (map fst (filter Q pieces)) \<longleftrightarrow> (\<exists>p. jget pieces i = Some p \<and> Q (i, p))"
  unfolding map_of_eq_Some_iff [OF assms] by (auto simp: image_iff)

lemma values_of_filter:
  assumes d: "distinct (jkeys pieces)"
  shows "map (\<lambda>ip. f (snd ip)) (filter Q pieces) = map (\<lambda>i. f (the (jget pieces i))) (map fst (filter Q pieces))"
proof -
  have "f (snd ip) = f (the (jget pieces (fst ip)))" if "ip \<in> set (filter Q pieces)" for ip
  proof -
    have "(fst ip, snd ip) \<in> set pieces" using that by simp
    then have "jget pieces (fst ip) = Some (snd ip)" by (rule map_of_eq_Some_iff [OF d, THEN iffD2])
    then show ?thesis by simp
  qed
  then show ?thesis by simp
qed

lemma force_by_scan:
  fixes pieces :: "('a, piece) jsmap" and f :: "piece \<Rightarrow> int"
  assumes d: "distinct (jkeys pieces)" "distinct ids"
    and ids: "\<And>i. i \<in> set ids \<longleftrightarrow> (\<exists>p. jget pieces i = Some p \<and> Q (i, p))"
  shows "length (filter Q pieces) = length ids" "(\<Sum>ip \<leftarrow> filter Q pieces. f (snd ip)) = (\<Sum>i \<leftarrow> ids. f (the (jget pieces i)))"
proof -
  let ?ks = "map fst (filter Q pieces)"
  have dk: "distinct ?ks" by (rule distinct_map_filter [OF d(1)])
  have "set ?ks = set ids" by (rule set_eqI) (simp only: keys_of_filter [OF d(1)] ids)
  then have m: "mset ?ks = mset ids" using set_eq_iff_mset_eq_distinct [OF dk d(2)] by blast
  then have "length ?ks = length ids" by (rule mset_eq_length)
  then show "length (filter Q pieces) = length ids" by simp
  have "sum_list (map g ?ks) = sum_list (map g ids)" for g :: "'a \<Rightarrow> int"
    using m by (metis mset_map sum_mset_sum_list)
  then show "(\<Sum>ip \<leftarrow> filter Q pieces. f (snd ip)) = (\<Sum>i \<leftarrow> ids. f (the (jget pieces i)))"
    unfolding values_of_filter [OF d(1)] .
qed

text \<open>A force as the view shows it and as the pieces of the state are.\<close>

definition inForce :: "string \<Rightarrow> string \<Rightarrow> string list option \<Rightarrow> string \<times> piece \<Rightarrow> bool" where
  "inForce t w ids ip \<longleftrightarrow> at_tile t ip \<and> pc_kind (snd ip) \<in> set UNIT_KINDS \<and> pc_owner (snd ip) = w \<and>
     (case ids of None \<Rightarrow> True | Some is \<Rightarrow> fst ip \<in> set is)"

lemma tile_pieces:
  assumes "kingdoms_ok s" "x \<in> set (jvals (gm_tiles (gs_map s)))"
  shows "kt_pieces (viewTile s ps x) = map (viewPiece \<circ> snd) (filter (at_tile (tile_id x)) (gs_pieces s))"
  using assms tile_id_nonempty [of "gs_map s" x] pieces_shown by (simp add: kingdoms_ok_def)

lemma filter_shown:
  assumes b: "board_ok own pieces"
    and P: "\<And>i p. piece_ok own i p \<Longrightarrow> P (viewPiece p) \<longleftrightarrow> R (i, p)"
  shows "filter P (map (viewPiece \<circ> snd) (filter (at_tile t) pieces)) = map (viewPiece \<circ> snd) (filter (\<lambda>ip. at_tile t ip \<and> R ip) pieces)"
proof -
  have d: "distinct (jkeys pieces)" using b by (simp add: board_ok_def)
  have ok': "piece_ok own i p" if "(i, p) \<in> set pieces" for i p
    using board_okD [OF b] map_of_eq_Some_iff [OF d] that by blast
  have "filter (P \<circ> (viewPiece \<circ> snd)) (filter (at_tile t) pieces) = filter (\<lambda>ip. at_tile t ip \<and> R ip) pieces"
    unfolding filter_filter by (rule filter_cong [OF refl]) (use P [OF ok'] in auto)
  then show ?thesis by (simp add: filter_map comp_def)
qed

lemma piece_ok_parts: "piece_ok own i p \<Longrightarrow> (pc_kind p \<in> set UNIT_KINDS \<or> pc_kind p \<in> set STRUCTURE_KINDS) \<and> pc_id p = i"
  by (simp add: piece_ok_def)

lemma units_shown:
  assumes ok': "kingdoms_ok s" and x: "x \<in> set (jvals (gm_tiles (gs_map s)))"
  shows "filter (\<lambda>p. kv_attack p \<noteq> None \<and> kv_owner p = w \<and> (case ids of None \<Rightarrow> True | Some is \<Rightarrow> kv_id p \<in> set is)) (kt_pieces (viewTile s ps x)) =
    map (viewPiece \<circ> snd) (filter (inForce (tile_id x) w ids) (gs_pieces s))"
proof -
  have b: "board_ok (getOwnership s) (gs_pieces s)" using ok' by (simp add: kingdoms_ok_def)
  let ?R = "\<lambda>ip. pc_kind (snd ip) \<in> set UNIT_KINDS \<and> pc_owner (snd ip) = w \<and> (case ids of None \<Rightarrow> True | Some is \<Rightarrow> fst ip \<in> set is)"
  have inf: "inForce (tile_id x) w ids = (\<lambda>ip. at_tile (tile_id x) ip \<and> ?R ip)" by (simp add: inForce_def fun_eq_iff)
  show ?thesis unfolding tile_pieces [OF ok' x] inf
    by (rule filter_shown [OF b]) (use piece_ok_parts viewPiece_unit in \<open>auto split: option.split\<close>)
qed

lemma previewStrength_view:
  assumes ok': "kingdoms_ok s" and x: "x \<in> set (jvals (gm_tiles (gs_map s)))"
  shows "sb_count (previewStrength (viewTile s ps x) w d ids) = length (filter (inForce (tile_id x) w ids) (gs_pieces s))"
    "sb_totalAtk (previewStrength (viewTile s ps x) w d ids) = (\<Sum>ip \<leftarrow> filter (inForce (tile_id x) w ids) (gs_pieces s). attackOf (snd ip))"
  unfolding previewStrength_def Let_def units_shown [OF ok' x]
  by (simp_all add: foldl_sum_int comp_def flip: attackOf_def)

lemma terrain_table: "(case jget TERRAIN_DEFENSE_BONUS ter of Some b \<Rightarrow> b | None \<Rightarrow> 1) = terrainDefenseBonus ter"
proof -
  have k: "kingdomsTerrains =
     [(''plains'', kterrain ''plains'' ''Plains'' 1 1), (''hills'', kterrain ''hills'' ''Hills'' (13 / 10) 2),
      (''forest'', kterrain ''forest'' ''Forest'' (3 / 2) 2), (''mountain'', kterrain ''mountain'' ''Mountain'' 2 3)]"
    by (simp add: kingdomsTerrains_def registerTerrain_def reg_insert_def jhas_def kterrain_def)
  show ?thesis unfolding terrainDefenseBonus_def getTerrain_def k by (simp add: TERRAIN_DEFENSE_BONUS_def kterrain_def)
qed

lemma structure_table:
  "k \<in> set STRUCTURE_KINDS \<Longrightarrow> (case jget STRUCTURE_DEFENSE_MULT k of Some m \<Rightarrow> m | None \<Rightarrow> 1) =
     (case jget STRUCTURE_STATS k of Some st \<Rightarrow> ss_defenseMultiplier st | None \<Rightarrow> 1)"
  by (auto simp: STRUCTURE_KINDS_eq STRUCTURE_STATS_def STRUCTURE_DEFS_def STRUCTURE_DEFENSE_MULT_def)

lemma find_filter_hd: "find P xs = (case filter P xs of [] \<Rightarrow> None | x # _ \<Rightarrow> Some x)"
  by (induction xs) auto

text \<open>A tile carries at most one structure, so the maximum of the panel is the product of the server.\<close>

lemma structure_factor:
  assumes ok': "kingdoms_ok s" and x: "x \<in> set (jvals (gm_tiles (gs_map s)))"
  shows "foldl (\<lambda>mx p. max mx (case jget STRUCTURE_DEFENSE_MULT (kv_kind p) of Some m \<Rightarrow> m | None \<Rightarrow> 1)) 1
      (filter (\<lambda>p. kv_defenseMultiplier p \<noteq> None) (kt_pieces (viewTile s ps x))) =
    foldl (\<lambda>acc m. acc * m) 1 (structureEffects (structureOnTile s (tile_id x) STRUCTURE_KINDS))"
proof -
  have b: "board_ok (getOwnership s) (gs_pieces s)" using ok' by (simp add: kingdoms_ok_def)
  then have d: "distinct (jkeys (gs_pieces s))" by (simp add: board_ok_def)
  let ?Q = "\<lambda>ip. at_tile (tile_id x) ip \<and> pc_kind (snd ip) \<in> set STRUCTURE_KINDS"
  have shown: "filter (\<lambda>p. kv_defenseMultiplier p \<noteq> None) (kt_pieces (viewTile s ps x)) = map (viewPiece \<circ> snd) (filter ?Q (gs_pieces s))"
    unfolding tile_pieces [OF ok' x] by (rule filter_shown [OF b]) (use piece_ok_parts viewPiece_unit in \<open>auto split: option.split\<close>)
  have find: "structureOnTile s (tile_id x) STRUCTURE_KINDS = map_option (\<lambda>(i, p). (i, pc_kind p, pc_owner p)) (find ?Q (gs_pieces s))"
    unfolding structureOnTile_def by (rule arg_cong [where f = "map_option _"], rule find_cong) (auto simp: at_tile_def)
  have one: "length (filter ?Q (gs_pieces s)) \<le> 1"
  proof (rule ccontr)
    assume "\<not> ?thesis"
    then obtain a b' rest where ab: "filter ?Q (gs_pieces s) = a # b' # rest"
      by (cases "filter ?Q (gs_pieces s)" rule: list.exhaust; cases "tl (filter ?Q (gs_pieces s))") auto
    have "distinct (map fst (filter ?Q (gs_pieces s)))" by (rule distinct_map_filter [OF d])
    then have ne: "fst a \<noteq> fst b'" by (simp add: ab)
    have "a \<in> set (filter ?Q (gs_pieces s))" "b' \<in> set (filter ?Q (gs_pieces s))" by (simp_all add: ab)
    then have "jget (gs_pieces s) (fst a) = Some (snd a)" "jget (gs_pieces s) (fst b') = Some (snd b')" "?Q a" "?Q b'"
      using map_of_eq_Some_iff [OF d] by auto
    from board_ok_unique [OF b this(1,2)] this(3,4) ne show False by (simp add: at_tile_def)
  qed
  show ?thesis
  proof (cases "filter ?Q (gs_pieces s)")
    case Nil
    then have "find ?Q (gs_pieces s) = None" by (metis filter_empty_conv find_None_iff)
    then show ?thesis unfolding shown Nil find by (simp add: structureEffects_def)
  next
    case (Cons a rest)
    with one have rest: "rest = []" by simp
    have fa: "find ?Q (gs_pieces s) = Some a" using find_filter_hd [of ?Q "gs_pieces s"] Cons by simp
    have "a \<in> set (filter ?Q (gs_pieces s))" using Cons by simp
    then have q: "pc_kind (snd a) \<in> set STRUCTURE_KINDS" by simp
    show ?thesis unfolding shown Cons rest find fa
      using structure_table [OF q] viewPiece_unit(4) [of "snd a"] q structure_defense_ge_1
      by (cases a) (simp add: structureEffects_def split: option.splits)
  qed
qed

text \<open>What the panel estimates from the strengths is what the battle yields.\<close>

lemma resolveAttack_estimate:
  assumes f: "fighters_ok att" "fighters_ok df" and m: "0 \<le> t" "\<forall>m \<in> set ms. 0 \<le> m"
    and r: "resolveAttack att df t ms (Some intInRange) g = (Inr r, g')"
    and D: "D = computeStrength df * compositeDefenseBonus t ms"
  shows "attackerStrength r = computeStrength att" "defenderStrength r = D"
    "estimateCasualties (length att) (length df) (computeStrength att) D =
       (attackerWins r, int (length (if attackerWins r then attackerLosses r else defenderLosses r)))"
proof -
  define A where "A = computeStrength att"
  have nonneg: "0 \<le> A" "0 \<le> D"
    using f m unfolding A_def D by (auto intro!: mult_nonneg_nonneg computeStrength_nonneg compositeDefenseBonus_nonneg)
  have pick: "\<exists>ys g'. pickRandom (Some intInRange) xs n g = (Inr ys, g') \<and> int (length ys) = n"
    if "0 \<le> n" "real_of_int n \<le> real (length xs)" for xs :: "combatant list" and n
  proof -
    obtain ys g' where "pickRandom (Some intInRange) xs n g = (Inr ys, g')" "length ys = min (nat n) (length xs)"
      using seeded.pickRandom_spec by blast
    then show ?thesis using that by (intro exI conjI) (auto simp: min_def)
  qed
  have all: "attackerStrength r = A \<and> defenderStrength r = D \<and> estimateCasualties (length att) (length df) A D =
      (attackerWins r, int (length (if attackerWins r then attackerLosses r else defenderLosses r)))"
  proof (cases "df = []")
    case True
    then show ?thesis using r D by (auto simp: resolveAttack_def Let_def estimateCasualties_def A_def computeStrength_def)
  next
    case ne: False
    show ?thesis
    proof (cases "D < A")
      case True
      let ?n = "\<lfloor>real (length att) * (D / A) * (1 / 2)\<rfloor>"
      have "real_of_int ?n \<le> real (length att) * (1 / 2)" "0 \<le> ?n" using casualties_bound [of D A "1 / 2"] nonneg True by simp_all
      then have "real_of_int ?n \<le> real (length att)" "0 \<le> ?n" by simp_all
      with pick [of ?n att] obtain ys h where p: "pickRandom (Some intInRange) att ?n g = (Inr ys, h)" "int (length ys) = ?n" by blast
      have "r = \<lparr>attackerWins = True, attackerStrength = A, defenderStrength = D, attackerLosses = map cb_id ys,
          defenderLosses = map cb_id df, tileConquered = True\<rparr>"
        using r ne True p(1) unfolding resolveAttack_def Let_def A_def [symmetric] D [symmetric] by simp
      with ne True p(2) show ?thesis by (simp add: estimateCasualties_def)
    next
      case False
      let ?n = "\<lfloor>real (length df) * (A / D) * (2 / 5)\<rfloor>"
      have "real_of_int ?n \<le> real (length df) * (2 / 5)" "0 \<le> ?n" using casualties_bound [of A D "2 / 5"] nonneg False by simp_all
      then have "real_of_int ?n \<le> real (length df)" "0 \<le> ?n" by simp_all
      with pick [of ?n df] obtain ys h where p: "pickRandom (Some intInRange) df ?n g = (Inr ys, h)" "int (length ys) = ?n" by blast
      have "r = \<lparr>attackerWins = False, attackerStrength = A, defenderStrength = D, attackerLosses = map cb_id att,
          defenderLosses = map cb_id ys, tileConquered = False\<rparr>"
        using r ne False p(1) unfolding resolveAttack_def Let_def A_def [symmetric] D [symmetric] by simp
      with ne False p(2) show ?thesis by (simp add: estimateCasualties_def)
    qed
  qed
  from all show "attackerStrength r = computeStrength att" "defenderStrength r = D"
    "estimateCasualties (length att) (length df) (computeStrength att) D =
       (attackerWins r, int (length (if attackerWins r then attackerLosses r else defenderLosses r)))"
    unfolding A_def by blast+
qed

text \<open>A force the panel adds up from the view has the count and the strength of the combatants of the server.\<close>

lemma force_shown:
  assumes ok': "kingdoms_ok s" and x: "x \<in> set (jvals (gm_tiles (gs_map s)))" and d: "distinct is" and cs: "asCombatants s is = Inr cs"
    and mem: "\<And>i. i \<in> set is \<longleftrightarrow> (\<exists>p. jget (gs_pieces s) i = Some p \<and> inForce (tile_id x) w ids (i, p))"
  shows "sb_count (previewStrength (viewTile s ps x) w b ids) = length cs"
    "real_of_int (sb_totalAtk (previewStrength (viewTile s ps x) w b ids)) * sqrt (real (length cs)) = computeStrength cs"
proof -
  have b: "board_ok (getOwnership s) (gs_pieces s)" using ok' by (simp add: kingdoms_ok_def)
  then have dp: "distinct (jkeys (gs_pieces s))" by (simp add: board_ok_def)
  have "\<forall>i \<in> set is. \<exists>p. jget (gs_pieces s) i = Some p \<and> pc_kind p \<in> set UNIT_KINDS"
  proof
    fix i assume "i \<in> set is"
    with mem [of i] show "\<exists>p. jget (gs_pieces s) i = Some p \<and> pc_kind p \<in> set UNIT_KINDS" by (auto simp: inForce_def)
  qed
  note sum = asCombatants_sum [OF b cs this]
  note scan = force_by_scan [OF dp d mem]
  show "sb_count (previewStrength (viewTile s ps x) w b ids) = length cs"
    unfolding previewStrength_view [OF ok' x] scan using sum by simp
  show "real_of_int (sb_totalAtk (previewStrength (viewTile s ps x) w b ids)) * sqrt (real (length cs)) = computeStrength cs"
    unfolding previewStrength_view [OF ok' x] scan computeStrength_sum using sum by simp
qed

text \<open>The two forces of an accepted attack, by the units that stand on the two tiles.\<close>

lemma attackers_inForce:
  assumes ok': "kingdoms_ok s" and acc: "attackTileValidator s a = accept" and sel: "kp_unitIds (ac_payload a) = ids"
  shows "i \<in> set (attackerIds s a) \<longleftrightarrow> (\<exists>p. jget (gs_pieces s) i = Some p \<and> inForce (kp_fromTileId (ac_payload a)) (actor a) ids (i, p))"
proof -
  have d: "distinct (jkeys (gs_pieces s))" using ok' by (simp add: kingdoms_ok_def board_ok_def)
  have sub: "set (attackerIds s a) \<subseteq> set (unitsOnTile s (kp_fromTileId (ac_payload a)) (Some (actor a)) (Some UNIT_KINDS))"
    by (rule attack_accepted(8) [OF ok' acc])
  have ne: "ids \<noteq> Some []"
    using acc attack_accepted(1) [OF ok' acc] sel by (auto simp: attackTileValidator_def Let_def split: if_splits)
  show ?thesis
  proof (cases ids)
    case None
    then show ?thesis using sel by (auto simp: attackerIds_def unitsOnTile_mem [OF d] inForce_def at_tile_def)
  next
    case (Some l)
    with sel ne have l: "attackerIds s a = l" by (simp add: attackerIds_def)
    with sub have "i \<in> set l \<Longrightarrow> i \<in> set (unitsOnTile s (kp_fromTileId (ac_payload a)) (Some (actor a)) (Some UNIT_KINDS))" by blast
    with l Some show ?thesis by (auto simp: unitsOnTile_mem [OF d] inForce_def at_tile_def)
  qed
qed

lemma defenders_inForce:
  assumes ok': "kingdoms_ok s" and w: "jget (getOwnership s) (kp_toTileId (ac_payload a)) = Some w"
  shows "i \<in> set (defenderIds s a) \<longleftrightarrow> (\<exists>p. jget (gs_pieces s) i = Some p \<and> inForce (kp_toTileId (ac_payload a)) w None (i, p))"
proof -
  have b: "board_ok (getOwnership s) (gs_pieces s)" using ok' by (simp add: kingdoms_ok_def)
  then have d: "distinct (jkeys (gs_pieces s))" by (simp add: board_ok_def)
  have "pc_owner p = w" if "jget (gs_pieces s) i = Some p" "pc_location p = OnTile (kp_toTileId (ac_payload a))" for p
    using board_okD [OF b that(1)] that(2) w by (auto simp: piece_ok_def)
  then show ?thesis by (auto simp: defenderIds_def unitsOnTile_mem [OF d] inForce_def at_tile_def)
qed

lemma no_defenders:
  assumes ok': "kingdoms_ok s" and w: "jget (getOwnership s) (kp_toTileId (ac_payload a)) = None"
  shows "defenderIds s a = []"
proof -
  have b: "board_ok (getOwnership s) (gs_pieces s)" using ok' by (simp add: kingdoms_ok_def)
  then have d: "distinct (jkeys (gs_pieces s))" by (simp add: board_ok_def)
  have "i \<notin> set (defenderIds s a)" for i
    using board_okD [OF b] w by (force simp: defenderIds_def unitsOnTile_mem [OF d] piece_ok_def)
  then show ?thesis by (cases "defenderIds s a") (metis list.set_intros(1))+
qed

lemma attackPreview_sel:
  assumes x: "x \<in> set (jvals (gm_tiles (gs_map s)))" and me: "jget (getOwnership s) (tile_id x) = Some me"
  shows "ap_atk (attackPreview v (viewTile s ps x) ty st) = previewStrength (viewTile s ps x) me False (map_option stagedIds st)"
    "ap_hasNoble (attackPreview v (viewTile s ps x) ty st) \<longleftrightarrow>
       (\<exists>p \<in> set (kt_pieces (viewTile s ps x)). kv_kind p = ''noble'' \<and> kv_owner p = me \<and>
          (case map_option stagedIds st of None \<Rightarrow> True | Some ids \<Rightarrow> kv_id p \<in> set ids))"
    "ap_def (attackPreview v tx (viewTile s ps y) st) = (case truthy (jget (getOwnership s) (tile_id y)) of
        Some w \<Rightarrow> previewStrength (viewTile s ps y) w True None
      | None \<Rightarrow> \<lparr>sb_totalAtk = 0, sb_count = 0, sb_terrainBonus = 1, sb_structDefMult = 1, sb_strength = 0\<rparr>)"
    "(ap_attackerWins (attackPreview v tx ty st), ap_casualties (attackPreview v tx ty st)) =
       estimateCasualties (sb_count (ap_atk (attackPreview v tx ty st))) (sb_count (ap_def (attackPreview v tx ty st)))
         (sb_strength (ap_atk (attackPreview v tx ty st))) (sb_strength (ap_def (attackPreview v tx ty st)))"
  by (simp_all add: attackPreview_def Let_def me list_ex_iff split: prod.split)

lemma sb_strength_eq: "sb_strength (previewStrength t w b ids) = (let r = previewStrength t w b ids in
    real_of_int (sb_totalAtk r) * sqrt (real (sb_count r)) * sb_terrainBonus r * sb_structDefMult r)"
  by (simp add: previewStrength_def Let_def)

lemma preview_attackers:
  assumes ok': "kingdoms_ok s" and x: "x \<in> set (jvals (gm_tiles (gs_map s)))" and d: "distinct is" and cs: "asCombatants s is = Inr cs"
    and mem: "\<And>i. i \<in> set is \<longleftrightarrow> (\<exists>p. jget (gs_pieces s) i = Some p \<and> inForce (tile_id x) w ids (i, p))"
  shows "sb_strength (previewStrength (viewTile s ps x) w False ids) = computeStrength cs"
proof -
  have "sb_terrainBonus (previewStrength (viewTile s ps x) w False ids) = 1" "sb_structDefMult (previewStrength (viewTile s ps x) w False ids) = 1"
    by (simp_all add: previewStrength_def Let_def)
  then show ?thesis using force_shown [OF ok' x d cs mem, of ps False] by (simp add: sb_strength_eq Let_def)
qed

lemma preview_defenders:
  assumes ok': "kingdoms_ok s" and y: "y \<in> set (jvals (gm_tiles (gs_map s)))" and d: "distinct is" and cs: "asCombatants s is = Inr cs"
    and mem: "\<And>i. i \<in> set is \<longleftrightarrow> (\<exists>p. jget (gs_pieces s) i = Some p \<and> inForce (tile_id y) w ids (i, p))"
  shows "sb_strength (previewStrength (viewTile s ps y) w True ids) =
    computeStrength cs * compositeDefenseBonus (tileBonus s (tile_id y)) (structureEffects (structureOnTile s (tile_id y) STRUCTURE_KINDS))"
proof -
  have wf: "wf_map (gs_map s)" using ok' by (simp add: kingdoms_ok_def)
  have "tileById (gs_map s) (tile_id y) = Some y" using tileById_mem [OF wf] y by blast
  then have tb: "tileBonus s (tile_id y) = terrainDefenseBonus (tile_terrain y)" by (simp add: tileBonus_def)
  have ter: "kt_terrain (viewTile s ps y) = tile_terrain y" by (simp add: viewTile_def Let_def split_beta)
  have "sb_terrainBonus (previewStrength (viewTile s ps y) w True ids) = tileBonus s (tile_id y)"
    unfolding previewStrength_def Let_def by (simp only: strength_breakdown.simps if_True ter terrain_table tb)
  moreover have "sb_structDefMult (previewStrength (viewTile s ps y) w True ids) =
      foldl (\<lambda>acc m. acc * m) 1 (structureEffects (structureOnTile s (tile_id y) STRUCTURE_KINDS))"
    unfolding previewStrength_def Let_def by (simp only: strength_breakdown.simps if_True structure_factor [OF ok' y])
  ultimately show ?thesis
    using force_shown [OF ok' y d cs mem, of ps True] by (simp add: sb_strength_eq Let_def compositeDefenseBonus_def)
qed

lemma survivor_shown:
  assumes ok': "kingdoms_ok s" and acc: "attackTileValidator s a = accept" and sel: "kp_unitIds (ac_payload a) = map_option stagedIds staged"
    and x: "x \<in> set (jvals (gm_tiles (gs_map s)))" "tile_id x = kp_fromTileId (ac_payload a)"
    and sv: "survivingNoble s (attackerIds s a) r \<noteq> None"
  shows "ap_hasNoble (attackPreview v (viewTile s ps x) ty staged)"
proof -
  have b: "board_ok (getOwnership s) (gs_pieces s)" using ok' by (simp add: kingdoms_ok_def)
  then have d: "distinct (jkeys (gs_pieces s))" by (simp add: board_ok_def)
  from sv obtain i where i: "i \<in> set (attackerIds s a)" "is_noble s i" unfolding survivingNoble_iff by blast
  then obtain p where p: "jget (gs_pieces s) i = Some p" "inForce (tile_id x) (actor a) (map_option stagedIds staged) (i, p)"
    unfolding attackers_inForce [OF ok' acc sel] x(2) [symmetric] by blast
  with i have k: "pc_kind p = ''noble''" by (auto simp: is_noble_def split: option.splits)
  have "(i, p) \<in> set (gs_pieces s)" using p(1) by (rule jget_in_set)
  with p(2) have "(i, p) \<in> set (filter (at_tile (tile_id x)) (gs_pieces s))" by (simp add: inForce_def)
  then have mem: "viewPiece p \<in> set (kt_pieces (viewTile s ps x))" unfolding tile_pieces [OF ok' x(1)] by force
  have "pc_id p = i" using piece_ok_parts [OF board_okD [OF b p(1)]] by simp
  with p(2) k mem show ?thesis unfolding attackPreview_sel(2) [OF x(1) attack_accepted(2) [OF ok' acc, folded x(2)]]
    by (intro bexI [of _ "viewPiece p"]) (auto simp: inForce_def viewPiece_def Let_def split: option.splits)
qed

lemma preview_outcome:
  assumes ok': "kingdoms_ok s" and acc: "attackTileValidator s a = accept" and sel: "kp_unitIds (ac_payload a) = map_option stagedIds staged"
    and st: "case staged of None \<Rightarrow> True | Some chosen \<Rightarrow> distinct (jkeys chosen)"
    and x: "x \<in> set (jvals (gm_tiles (gs_map s)))" "tile_id x = kp_fromTileId (ac_payload a)"
    and y: "y \<in> set (jvals (gm_tiles (gs_map s)))" "tile_id y = kp_toTileId (ac_payload a)"
    and pv: "pv = attackPreview v (viewTile s ps x) (viewTile s ps y) staged"
    and cs: "asCombatants s (attackerIds s a) = Inr att" "asCombatants s (defenderIds s a) = Inr df" "fighters_ok att" "fighters_ok df"
    and r: "resolveAttack att df (tileBonus s (kp_toTileId (ac_payload a)))
      (structureEffects (structureOnTile s (kp_toTileId (ac_payload a)) STRUCTURE_KINDS)) (Some intInRange) (gs_rng s) = (Inr r, g)"
  shows "attackerStrength r = sb_strength (ap_atk pv)" "defenderStrength r = sb_strength (ap_def pv)"
    "(ap_attackerWins pv, ap_casualties pv) = (attackerWins r, int (length (if attackerWins r then attackerLosses r else defenderLosses r)))"
proof -
  let ?to = "kp_toTileId (ac_payload a)" and ?D = "structureEffects (structureOnTile s (kp_toTileId (ac_payload a)) STRUCTURE_KINDS)"
  let ?X = "viewTile s ps x" and ?Y = "viewTile s ps y" and ?ids = "map_option stagedIds staged"
  have dp: "distinct (jkeys (gs_pieces s))" using ok' by (simp add: kingdoms_ok_def board_ok_def)
  have du: "distinct (unitsOnTile s t w k)" for t w k unfolding unitsOnTile_def by (rule distinct_map_filter [OF dp])
  have da: "distinct (attackerIds s a)"
    using st du by (auto simp: attackerIds_def sel stagedIds_def distinct_map_filter split: option.splits)
  have me: "jget (getOwnership s) (tile_id x) = Some (actor a)" unfolding x(2) by (rule attack_accepted(2) [OF ok' acc])
  note at = attackers_inForce [OF ok' acc sel, folded x(2)]
  have atk: "ap_atk pv = previewStrength ?X (actor a) False ?ids" unfolding pv by (rule attackPreview_sel(1) [OF x(1) me])
  have na: "sb_count (ap_atk pv) = length att" unfolding atk by (rule force_shown(1) [OF ok' x(1) da cs(1) at])
  have sa: "sb_strength (ap_atk pv) = computeStrength att" unfolding atk by (rule preview_attackers [OF ok' x(1) da cs(1) at])
  have D: "sb_count (ap_def pv) = length df \<and> sb_strength (ap_def pv) = computeStrength df * compositeDefenseBonus (tileBonus s ?to) ?D"
  proof (cases "jget (getOwnership s) ?to")
    case None
    then have "df = []" using no_defenders [OF ok' None] cs(2) by simp
    then show ?thesis unfolding pv attackPreview_sel(3) [OF x(1) me] y(2) None by (simp add: truthy_def computeStrength_def)
  next
    case (Some w)
    have "w \<in> active_ids (pm_bySeat (gs_players s))" using ok' Some by (simp add: kingdoms_ok_def territory_ok_def)
    then have "w \<noteq> []" using ok' by (auto simp: kingdoms_ok_def players_ok_def active_ids_def)
    then have df: "ap_def pv = previewStrength ?Y w True None"
      unfolding pv attackPreview_sel(3) [OF x(1) me] y(2) Some by (simp add: truthy_def)
    note dm = defenders_inForce [OF ok' Some, folded y(2)]
    have dd: "distinct (defenderIds s a)" unfolding defenderIds_def by (rule du)
    show ?thesis unfolding df y(2) [symmetric]
      using force_shown(1) [OF ok' y(1) dd cs(2) dm] preview_defenders [OF ok' y(1) dd cs(2) dm] by blast
  qed
  have nn: "\<forall>m \<in> set ?D. 0 \<le> m" using structureEffects_nonneg by blast
  note est = resolveAttack_estimate [OF cs(3,4) tileBonus_nonneg nn r refl]
  show "attackerStrength r = sb_strength (ap_atk pv)" unfolding sa by (rule est(1))
  show "defenderStrength r = sb_strength (ap_def pv)" using D est(2) by simp
  have "(ap_attackerWins pv, ap_casualties pv) =
      estimateCasualties (sb_count (ap_atk pv)) (sb_count (ap_def pv)) (sb_strength (ap_atk pv)) (sb_strength (ap_def pv))"
    unfolding pv by (rule attackPreview_sel(4) [OF x(1) me])
  then show "(ap_attackerWins pv, ap_casualties pv) = (attackerWins r, int (length (if attackerWins r then attackerLosses r else defenderLosses r)))"
    unfolding na sa conjunct1 [OF D] conjunct2 [OF D] est(3) .
qed

lemma battle_event:
  assumes run: "attackTileExecutor a s = (Inr es0, s')"
    and bt: "asCombatants s (attackerIds s a) = Inr att" "asCombatants s (defenderIds s a) = Inr df"
    "resolveAttack att df (tileBonus s (kp_toTileId (ac_payload a)))
       (structureEffects (structureOnTile s (kp_toTileId (ac_payload a)) STRUCTURE_KINDS)) (Some intInRange) (gs_rng s) = (Inr r, g)"
  obtains b es where "br_attackerWins b = attackerWins r" "br_attackerStrength b = attackerStrength r" "br_defenderStrength b = defenderStrength r"
      "br_attackerCasualties b = length (attackerLosses r)" "br_defenderCasualties b = length (defenderLosses r)"
      "es0 = mkEvent ''battle-resolved'' (Some (actor a)) (BattleResolved b) # es" "survivingNoble s (attackerIds s a) r = None \<Longrightarrow> es = []"
proof -
  let ?to = "kp_toTileId (ac_payload a)"
  let ?b = "\<lparr>br_fromTileId = kp_fromTileId (ac_payload a), br_toTileId = ?to, br_defenderOwner = jget (getOwnership s) ?to,
      br_attackerWins = attackerWins r, br_attackerStrength = attackerStrength r, br_defenderStrength = defenderStrength r,
      br_attackerCasualties = length (attackerLosses r), br_defenderCasualties = length (defenderLosses r)\<rparr>"
  let ?er = "erodeLoyalty ?to (actor a) (jget (getOwnership s) ?to) (structureOnTile s ?to STRUCTURE_KINDS)
      (removePieces (defenderLosses r @ attackerLosses r) (s\<lparr>gs_rng := g\<rparr>))"
  note exec = run [unfolded attackTileExecutor_def Let_def bt sum.case prod.case]
  consider "survivingNoble s (attackerIds s a) r = None" | "survivingNoble s (attackerIds s a) r = Some []"
    | i where "survivingNoble s (attackerIds s a) r = Some i" "i \<noteq> []" by (cases "survivingNoble s (attackerIds s a) r") blast+
  then have "\<exists>es. mkEvent ''battle-resolved'' (Some (actor a)) (BattleResolved ?b) # es = es0 \<and>
      (survivingNoble s (attackerIds s a) r = None \<longrightarrow> es = [])"
  proof cases
    case 3
    obtain q s2 where q: "?er = (q, s2)" by (cases ?er)
    show ?thesis
    proof (cases q)
      case (Inr es)
      with exec 3 q have "mkEvent ''battle-resolved'' (Some (actor a)) (BattleResolved ?b) # es = es0" by simp
      with 3 show ?thesis by (intro exI [of _ es]) simp
    qed (use exec 3 q in simp)
  qed (use exec in simp_all, blast?)
  then show thesis by (elim exE conjE) (rule that [of ?b], simp_all)
qed

text \<open> C7: The preview of an attack that the server accepts is the battle that follows: from the view alone the
  panel computes the winner, both strengths and the casualties of the winning side, although it takes the
  largest structure bonus where the server multiplies them; and an attack previewed without a noble leads to
  nothing but the battle. \<close>
theorem preview_matches_battle:
  assumes ok': "kingdoms_ok s" and acc: "attackTileValidator s a = accept"
    and sel: "kp_unitIds (ac_payload a) = map_option stagedIds staged"
    and st: "case staged of None \<Rightarrow> True | Some chosen \<Rightarrow> distinct (jkeys chosen)"
    and v: "v = buildKingdomsView s ps vic"
    and tx: "tx \<in> set (kv_tiles v)" "kt_id tx = kp_fromTileId (ac_payload a)"
    and ty: "ty \<in> set (kv_tiles v)" "kt_id ty = kp_toTileId (ac_payload a)"
    and pv: "pv = attackPreview v tx ty staged"
  shows "\<exists>b es s'. attackTileExecutor a s = (Inr (mkEvent ''battle-resolved'' (Some (actor a)) (BattleResolved b) # es), s') \<and>
    br_attackerWins b = ap_attackerWins pv \<and>
    br_attackerStrength b = sb_strength (ap_atk pv) \<and> br_defenderStrength b = sb_strength (ap_def pv) \<and>
    int (if ap_attackerWins pv then br_attackerCasualties b else br_defenderCasualties b) = ap_casualties pv \<and>
    (\<not> ap_hasNoble pv \<longrightarrow> es = [])"
proof -
  let ?to = "kp_toTileId (ac_payload a)"
  have tiles: "kv_tiles v = map (viewTile s ps) (jvals (gm_tiles (gs_map s)))" unfolding v buildKingdomsView_def by simp
  obtain x where x: "x \<in> set (jvals (gm_tiles (gs_map s)))" "tx = viewTile s ps x" using tx(1) unfolding tiles by auto
  obtain y where y: "y \<in> set (jvals (gm_tiles (gs_map s)))" "ty = viewTile s ps y" using ty(1) unfolding tiles by auto
  have xy: "tile_id x = kp_fromTileId (ac_payload a)" "tile_id y = ?to" using tx(2) ty(2) x(2) y(2) by simp_all
  obtain es0 s' where run: "attackTileExecutor a s = (Inr es0, s')" using attack_executes [OF ok' acc] by (auto simp: executes_def)
  have b: "board_ok (getOwnership s) (gs_pieces s)" using ok' by (simp add: kingdoms_ok_def)
  then have d: "distinct (jkeys (gs_pieces s))" by (simp add: board_ok_def)
  obtain att df r g where bt: "asCombatants s (attackerIds s a) = Inr att" "asCombatants s (defenderIds s a) = Inr df"
    "resolveAttack att df (tileBonus s ?to) (structureEffects (structureOnTile s ?to STRUCTURE_KINDS)) (Some intInRange) (gs_rng s) = (Inr r, g)"
    using attack_battle [OF ok' acc] by metis
  have f: "fighters_ok att" "fighters_ok df"
  proof -
    have "\<forall>i \<in> set (attackerIds s a). \<exists>p. jget (gs_pieces s) i = Some p \<and> pc_kind p \<in> set UNIT_KINDS"
      unfolding Ball_def attackers_inForce [OF ok' acc sel] by (auto simp: inForce_def)
    from asCombatants_ok [OF b this] bt(1) show "fighters_ok att" by auto
    have "\<forall>i \<in> set (defenderIds s a). \<exists>p. jget (gs_pieces s) i = Some p \<and> pc_kind p \<in> set UNIT_KINDS"
      by (auto simp: defenderIds_def unitsOnTile_mem [OF d])
    from asCombatants_ok [OF b this] bt(2) show "fighters_ok df" by auto
  qed
  note out = preview_outcome [OF ok' acc sel st x(1) xy(1) y(1) xy(2) pv [unfolded x(2) y(2)] bt(1,2) f bt(3)]
  have none: "survivingNoble s (attackerIds s a) r = None" if "\<not> ap_hasNoble pv"
    using survivor_shown [OF ok' acc sel x(1) xy(1)] that unfolding pv x(2) by blast
  obtain b es where b: "br_attackerWins b = attackerWins r" "br_attackerStrength b = attackerStrength r" "br_defenderStrength b = defenderStrength r"
      "br_attackerCasualties b = length (attackerLosses r)" "br_defenderCasualties b = length (defenderLosses r)"
    and es: "es0 = mkEvent ''battle-resolved'' (Some (actor a)) (BattleResolved b) # es" "survivingNoble s (attackerIds s a) r = None \<Longrightarrow> es = []"
    by (rule battle_event [OF run bt], rule that, simp_all)
  have "\<not> ap_hasNoble pv \<longrightarrow> es = []" using none es(2) by blast
  with out run [unfolded es(1)] show ?thesis
    by (intro exI [of _ b] exI [of _ es] exI [of _ s'] conjI) (simp_all add: b)
qed

lemma preview_matches_battle_witness:
  "\<exists>tx ty b es s'. tx \<in> set (kv_tiles (buildKingdomsView exState exRoster None)) \<and> kt_id tx = tileId (axial 0 0) \<and>
    ty \<in> set (kv_tiles (buildKingdomsView exState exRoster None)) \<and> kt_id ty = tileId (axial 1 0) \<and>
    attackTileExecutor (exAction ''attack-tile'' (exPayload\<lparr>kp_unitIds := Some [''sp-alice-1'']\<rparr>)) exState =
      (Inr (mkEvent ''battle-resolved'' (Some ''alice'') (BattleResolved b) # es), s') \<and>
    br_attackerWins b = ap_attackerWins (attackPreview (buildKingdomsView exState exRoster None) tx ty
      (Some [(''sp-alice-1'', True), (''noble-alice-0'', False)]))"
proof -
  let ?a = "exAction ''attack-tile'' (exPayload\<lparr>kp_unitIds := Some [''sp-alice-1'']\<rparr>)" and ?v = "buildKingdomsView exState exRoster None"
    and ?st = "Some [(''sp-alice-1'', True), (''noble-alice-0'', False)]"
  have sp: "jget exPieces ''sp-alice-1'' = Some (snd (exPiece ''sp-alice-1'' ''spearman'' ''alice'' (axial 0 0)))" by (simp add: exPieces_eq)
  have acc: "attackTileValidator exState ?a = accept"
    using exGuard exConnected exAdjacent exUnits by (simp add: attackTileValidator_def exPayload_def Let_def sp COMBAT_UNIT_KINDS_eq)
  have sel: "kp_unitIds (ac_payload ?a) = map_option stagedIds ?st" by (simp add: stagedIds_def)
  have "tileId (axial 0 0) \<in> kt_id ` set (kv_tiles ?v)" "tileId (axial 1 0) \<in> kt_id ` set (kv_tiles ?v)"
    by (simp_all add: buildKingdomsView_def exMap_def mb_build_def mb_addTile_def newMapBuilder_def emptyMap_def gm_addTile_def
        build_tile_def image_image)
  then obtain tx ty where t: "tx \<in> set (kv_tiles ?v)" "kt_id tx = tileId (axial 0 0)" "ty \<in> set (kv_tiles ?v)" "kt_id ty = tileId (axial 1 0)"
    by (elim imageE) metis
  obtain b es s' where r: "attackTileExecutor ?a exState = (Inr (mkEvent ''battle-resolved'' (Some (actor ?a)) (BattleResolved b) # es), s')"
    "br_attackerWins b = ap_attackerWins (attackPreview ?v tx ty ?st)"
    using preview_matches_battle [OF exState_ok acc sel _ refl t(1) _ t(3) _ refl] t(2,4) by (auto simp: exPayload_def)
  have "actor ?a = ''alice''" by (simp add: actor_def exAction_def)
  with t r(1,2) show ?thesis by metis
qed

end
