(* ===== verification/KingdomsPage.thy ===== *)
theory KingdomsPage
  imports KingdomsPanel
begin

text \<open>
  The interaction of the Kingdoms page: \<open>apps/web/src/pages/KingdomsPage.tsx\<close> keeps what the player has
  selected and staged, \<open>games/kingdoms/ActionPanel.tsx\<close> decides which buttons are there. A click is offered
  by the panel and handled by the page, which may send commands to the server.
\<close>

section \<open>Adjacency (KingdomsPage.tsx)\<close>

definition PAGE_HEX_DIRS :: "(int \<times> int) list" where
  "PAGE_HEX_DIRS = [(1, 0), (-1, 0), (0, 1), (0, -1), (1, -1), (-1, 1)]"

definition getNeighbours :: "kingdoms_view \<Rightarrow> ktile_view \<Rightarrow> ktile_view list" where
  "getNeighbours view tile =
     List.map_filter (\<lambda>(q, r). find (\<lambda>t. kt_q t = kt_q tile + q \<and> kt_r t = kt_r tile + r) (kv_tiles view)) PAGE_HEX_DIRS"

text \<open>The tiles the code collects in a \<open>Set\<close> of identifiers.\<close>

definition computeAttackable :: "kingdoms_view \<Rightarrow> string \<Rightarrow> string set" where
  "computeAttackable view userId =
     fold (\<lambda>tile result. if kt_owner tile \<noteq> Some userId then result
             else fold (\<lambda>n acc. if kt_owner n \<noteq> Some userId then insert (kt_id n) acc else acc) (getNeighbours view tile) result)
       (kv_tiles view) {}"

definition findAttackSource :: "kingdoms_view \<Rightarrow> ktile_view \<Rightarrow> string \<Rightarrow> string list \<Rightarrow> ktile_view option" where
  "findAttackSource view targetTile userId attackedFrom =
     (let targetIsUnowned = (kt_owner targetTile = None);
          (best, bestCount) = fold (\<lambda>n (best, bestCount).
             if kt_owner n \<noteq> Some userId then (best, bestCount)
             else if kt_id n \<in> set attackedFrom then (best, bestCount)
             else (let eligible = int (length (filter (\<lambda>p. (case kv_attack p of Some k \<Rightarrow> k > 0 | None \<Rightarrow> False) \<and>
                         kv_owner p = userId \<and> (targetIsUnowned \<or> kv_kind p \<noteq> ''noble'')) (kt_pieces n)))
                   in if eligible > bestCount then (Some n, eligible) else (best, bestCount)))
             (getNeighbours view targetTile) (None, -1)
      in if bestCount > 0 then best else None)"

section \<open>The interaction state (KingdomsPage.tsx)\<close>

datatype page_mode = ModeIdle | ModeAttack | ModeAttackSelect | ModeSendTroops

record kpage =
  pg_selectedTileId :: "string option"
  pg_mode :: page_mode
  pg_attackingFromTileId :: "string option"
  pg_attackToTileId :: "string option"
  pg_attackUnitIds :: "(string, bool) jsmap"
  pg_sendFromTileId :: "string option"
  pg_sendToTileId :: "string option"
  pg_sendCounts :: "(string, int) jsmap"
  pg_errorToast :: "string option"

definition tileOf :: "kingdoms_view \<Rightarrow> string option \<Rightarrow> ktile_view option" where
  "tileOf view i = find (\<lambda>t. Some (kt_id t) = i) (kv_tiles view)"

definition isMyTurn :: "kingdoms_view \<Rightarrow> string option \<Rightarrow> bool" where
  "isMyTurn view userId \<longleftrightarrow> truthy userId \<noteq> None \<and> Some (kv_currentActivePlayer view) = userId"

definition myCapitalTileId :: "kingdoms_view \<Rightarrow> string option \<Rightarrow> string option" where
  "myCapitalTileId view userId =
     (case truthy userId of
        None \<Rightarrow> None
      | Some u \<Rightarrow> (case find (\<lambda>p. kp_id p = u) (kv_players view) of Some p \<Rightarrow> kp_capitalTileId p | None \<Rightarrow> None))"

definition resetInteraction :: "kingdoms_view \<Rightarrow> string option \<Rightarrow> kpage \<Rightarrow> kpage" where
  "resetInteraction view userId pg =
     pg\<lparr>pg_mode := ModeIdle, pg_selectedTileId := myCapitalTileId view userId, pg_attackingFromTileId := None,
        pg_attackToTileId := None, pg_attackUnitIds := [], pg_sendFromTileId := None, pg_sendToTileId := None,
        pg_sendCounts := []\<rparr>"

text \<open>Derived data of a render.\<close>

definition selectedTile :: "kingdoms_view \<Rightarrow> kpage \<Rightarrow> ktile_view option" where
  "selectedTile view pg = tileOf view (pg_selectedTileId pg)"

definition attackableTiles :: "kingdoms_view \<Rightarrow> string option \<Rightarrow> string set" where
  "attackableTiles view userId = (case truthy userId of None \<Rightarrow> {} | Some u \<Rightarrow> computeAttackable view u)"

definition attackSourceTile :: "kingdoms_view \<Rightarrow> string option \<Rightarrow> kpage \<Rightarrow> ktile_view option" where
  "attackSourceTile view userId pg =
     (case (truthy userId, selectedTile view pg) of
        (Some u, Some t) \<Rightarrow>
          if kt_owner t = userId then None
          else if kt_id t \<notin> attackableTiles view userId then None
          else findAttackSource view t u (kts_attackedFrom (kv_turnState view))
      | _ \<Rightarrow> None)"

definition attackTargetTiles :: "kingdoms_view \<Rightarrow> string option \<Rightarrow> kpage \<Rightarrow> string set" where
  "attackTargetTiles view userId pg =
     (if pg_mode pg \<noteq> ModeAttack \<or> truthy (pg_attackingFromTileId pg) = None \<or> truthy userId = None then {}
      else case tileOf view (pg_attackingFromTileId pg) of
             None \<Rightarrow> {}
           | Some from' \<Rightarrow> kt_id ` set (filter (\<lambda>n. kt_owner n \<noteq> userId) (getNeighbours view from')))"

section \<open>The handlers (KingdomsPage.tsx)\<close>

text \<open>A command the page sends: its type and payload. Fields that a payload does not carry are empty.\<close>

type_synonym kcommand = "string \<times> kpayload"

definition noPayload :: kpayload where
  "noPayload = \<lparr>kp_tileId = [], kp_unitKind = [], kp_structureKind = [], kp_pieceId = [], kp_targetTileId = [],
     kp_fromTileId = [], kp_toTileId = [], kp_unitIds = None\<rparr>"

text \<open>The units that join an attack at first: all of them against an unowned tile, no noble otherwise.\<close>

definition initialForce :: "kingdoms_view \<Rightarrow> string option \<Rightarrow> string option \<Rightarrow> string option \<Rightarrow> (string, bool) jsmap" where
  "initialForce view userId fromTileId toTileId =
     (let targetIsUnowned = (case tileOf view toTileId of Some t \<Rightarrow> kt_owner t = None | None \<Rightarrow> False);
          pieces = (case tileOf view fromTileId of Some f \<Rightarrow> kt_pieces f | None \<Rightarrow> [])
      in fold (\<lambda>p initial. if Some (kv_owner p) = userId \<and> kv_attack p \<noteq> None
                 then jput (kv_id p) (targetIsUnowned \<or> kv_kind p \<noteq> ''noble'') initial else initial) pieces [])"

text \<open>The texts of the two toasts are shortened.\<close>

definition handleTileClick :: "kingdoms_view \<Rightarrow> string option \<Rightarrow> string \<Rightarrow> kpage \<Rightarrow> kpage" where
  "handleTileClick view userId clicked pg =
     (if pg_mode pg = ModeAttack \<and> truthy (pg_attackingFromTileId pg) \<noteq> None
      then (if clicked \<in> attackTargetTiles view userId pg
            then pg\<lparr>pg_attackUnitIds := initialForce view userId (pg_attackingFromTileId pg) (Some clicked),
                    pg_attackToTileId := Some clicked, pg_mode := ModeAttackSelect\<rparr>
            else pg\<lparr>pg_errorToast := Some ''Attack cancelled'', pg_mode := ModeIdle, pg_attackingFromTileId := None\<rparr>)
      else if pg_mode pg = ModeSendTroops \<and> truthy (pg_sendFromTileId pg) \<noteq> None \<and> truthy (pg_sendToTileId pg) = None
      then (if (case tileOf view (Some clicked) of Some t \<Rightarrow> kt_owner t = userId | None \<Rightarrow> False) \<and> Some clicked \<noteq> pg_sendFromTileId pg
            then (let movable = filter (\<lambda>p. kv_attack p \<noteq> None \<and> kv_id p \<notin> set (kts_movedThisTurn (kv_turnState view)))
                        (case tileOf view (pg_sendFromTileId pg) of Some f \<Rightarrow> kt_pieces f | None \<Rightarrow> [])
                  in pg\<lparr>pg_sendToTileId := Some clicked, pg_sendCounts := fold (\<lambda>p. jput (kv_id p) 0) movable []\<rparr>)
            else resetInteraction view userId (pg\<lparr>pg_errorToast := Some ''Send Troops cancelled''\<rparr>))
      else pg\<lparr>pg_selectedTileId := (if Some clicked = pg_selectedTileId pg then None else Some clicked),
              pg_sendToTileId := None, pg_sendCounts := [],
              pg_mode := (if pg_mode pg \<noteq> ModeSendTroops then ModeIdle else pg_mode pg)\<rparr>)"

definition handleEndTurn :: "kingdoms_view \<Rightarrow> string option \<Rightarrow> kpage \<Rightarrow> kpage \<times> kcommand list" where
  "handleEndTurn view userId pg = (resetInteraction view userId pg, [(''end-turn'', noPayload)])"

definition handleStartAttackFromTile :: "string \<Rightarrow> kpage \<Rightarrow> kpage" where
  "handleStartAttackFromTile fromTileId pg =
     pg\<lparr>pg_attackingFromTileId := Some fromTileId, pg_mode := ModeAttack, pg_selectedTileId := None\<rparr>"

definition handleAttackTarget :: "kingdoms_view \<Rightarrow> string option \<Rightarrow> string \<Rightarrow> string \<Rightarrow> kpage \<Rightarrow> kpage" where
  "handleAttackTarget view userId fromTileId toTileId pg =
     pg\<lparr>pg_attackingFromTileId := Some fromTileId, pg_attackToTileId := Some toTileId,
        pg_attackUnitIds := initialForce view userId (Some fromTileId) (Some toTileId),
        pg_mode := ModeAttackSelect, pg_selectedTileId := None\<rparr>"

text \<open>The units of a kind the steppers work on.\<close>

definition unitsOfKind :: "string option \<Rightarrow> string \<Rightarrow> ktile_view \<Rightarrow> string list" where
  "unitsOfKind userId kind tile =
     map kv_id (filter (\<lambda>p. kv_kind p = kind \<and> Some (kv_owner p) = userId \<and> kv_attack p \<noteq> None) (kt_pieces tile))"

definition chosen :: "(string, bool) jsmap \<Rightarrow> string \<Rightarrow> bool" where
  "chosen m i = (jget m i = Some True)"

definition staged :: "(string, int) jsmap \<Rightarrow> string \<Rightarrow> bool" where
  "staged m i = (case jget m i of Some n \<Rightarrow> n > 0 | None \<Rightarrow> False)"

definition handleAttackUnitCountChange :: "kingdoms_view \<Rightarrow> string option \<Rightarrow> string \<Rightarrow> int \<Rightarrow> kpage \<Rightarrow> kpage" where
  "handleAttackUnitCountChange view userId kind delta pg =
     (case tileOf view (pg_attackingFromTileId pg) of
        None \<Rightarrow> pg
      | Some f \<Rightarrow>
          (let ids = unitsOfKind userId kind f; prev = pg_attackUnitIds pg
           in pg\<lparr>pg_attackUnitIds :=
                (if delta > 0 then fold (\<lambda>i. jput i True) (take (nat delta) (filter (\<lambda>i. \<not> chosen prev i) ids)) prev
                 else if delta < 0 then fold (\<lambda>i. jput i False) (take (nat (- delta)) (filter (chosen prev) ids)) prev
                 else prev)\<rparr>))"

definition handleConfirmAttack :: "kingdoms_view \<Rightarrow> string option \<Rightarrow> kpage \<Rightarrow> kpage \<times> kcommand list" where
  "handleConfirmAttack view userId pg =
     (case (truthy (pg_attackingFromTileId pg), truthy (pg_attackToTileId pg)) of
        (Some f, Some t) \<Rightarrow>
          (resetInteraction view userId pg,
           [(''attack-tile'', noPayload\<lparr>kp_fromTileId := f, kp_toTileId := t, kp_unitIds := Some (stagedIds (pg_attackUnitIds pg))\<rparr>)])
      | _ \<Rightarrow> (pg, []))"

definition handleStartSendTroops :: "string \<Rightarrow> kpage \<Rightarrow> kpage" where
  "handleStartSendTroops fromTileId pg =
     pg\<lparr>pg_sendFromTileId := Some fromTileId, pg_sendToTileId := None, pg_sendCounts := [], pg_mode := ModeSendTroops,
        pg_selectedTileId := Some fromTileId\<rparr>"

definition handleSendUnitCountChange :: "kingdoms_view \<Rightarrow> string option \<Rightarrow> string \<Rightarrow> int \<Rightarrow> kpage \<Rightarrow> kpage" where
  "handleSendUnitCountChange view userId kind delta pg =
     (case tileOf view (pg_sendFromTileId pg) of
        None \<Rightarrow> pg
      | Some f \<Rightarrow>
          (let ids = unitsOfKind userId kind f; prev = pg_sendCounts pg
           in pg\<lparr>pg_sendCounts :=
                (if delta > 0 then fold (\<lambda>i. jput i 1) (take (nat delta) (filter (\<lambda>i. \<not> staged prev i) ids)) prev
                 else if delta < 0 then fold (\<lambda>i. jput i 0) (take (nat (- delta)) (filter (staged prev) ids)) prev
                 else prev)\<rparr>))"

definition handleConfirmSend :: "kingdoms_view \<Rightarrow> string option \<Rightarrow> kpage \<Rightarrow> kpage \<times> kcommand list" where
  "handleConfirmSend view userId pg =
     (case (truthy (pg_sendFromTileId pg), truthy (pg_sendToTileId pg)) of
        (Some f, Some t) \<Rightarrow>
          (resetInteraction view userId pg,
           [(''move-unit'', noPayload\<lparr>kp_pieceId := i, kp_targetTileId := t\<rparr>). (i, n) \<leftarrow> pg_sendCounts pg, n > 0])
      | _ \<Rightarrow> (pg, []))"

text \<open>Recruiting, building, demolishing and developing send one command for the selected tile.\<close>

definition sendForSelected :: "string \<Rightarrow> (kpayload \<Rightarrow> kpayload) \<Rightarrow> kpage \<Rightarrow> kpage \<times> kcommand list" where
  "sendForSelected ty fill pg =
     (case truthy (pg_selectedTileId pg) of
        None \<Rightarrow> (pg, [])
      | Some t \<Rightarrow> (pg, [(ty, fill (noPayload\<lparr>kp_tileId := t\<rparr>))]))"

definition handleRecruit :: "string \<Rightarrow> kpage \<Rightarrow> kpage \<times> kcommand list" where
  "handleRecruit unitKind = sendForSelected ''recruit-unit'' (kp_unitKind_update (\<lambda>_. unitKind))"

definition handleBuild :: "string \<Rightarrow> kpage \<Rightarrow> kpage \<times> kcommand list" where
  "handleBuild structureKind = sendForSelected ''build-structure'' (kp_structureKind_update (\<lambda>_. structureKind))"

definition handleDemolish :: "string \<Rightarrow> kpage \<Rightarrow> kpage \<times> kcommand list" where
  "handleDemolish structureKind = sendForSelected ''demolish-structure'' (kp_structureKind_update (\<lambda>_. structureKind))"

definition handleDevelop :: "kpage \<Rightarrow> kpage \<times> kcommand list" where
  "handleDevelop = sendForSelected ''develop-tile'' id"

section \<open>The buttons (ActionPanel.tsx)\<close>

datatype click =
    TileClick string
  | EndTurnClick
  | StartAttack string
  | AttackTarget string string
  | AttackUnits string int
  | ConfirmAttack
  | CancelClick
  | StartSend string
  | SendUnits string int
  | ConfirmSend
  | Recruit string
  | Build string
  | Demolish string
  | Develop

definition perform :: "kingdoms_view \<Rightarrow> string option \<Rightarrow> click \<Rightarrow> kpage \<Rightarrow> kpage \<times> kcommand list" where
  "perform view userId c pg =
     (case c of
        TileClick t \<Rightarrow> (handleTileClick view userId t pg, [])
      | EndTurnClick \<Rightarrow> handleEndTurn view userId pg
      | StartAttack f \<Rightarrow> (handleStartAttackFromTile f pg, [])
      | AttackTarget f t \<Rightarrow> (handleAttackTarget view userId f t pg, [])
      | AttackUnits k d \<Rightarrow> (handleAttackUnitCountChange view userId k d pg, [])
      | ConfirmAttack \<Rightarrow> handleConfirmAttack view userId pg
      | CancelClick \<Rightarrow> (resetInteraction view userId pg, [])
      | StartSend f \<Rightarrow> (handleStartSendTroops f pg, [])
      | SendUnits k d \<Rightarrow> (handleSendUnitCountChange view userId k d pg, [])
      | ConfirmSend \<Rightarrow> handleConfirmSend view userId pg
      | Recruit k \<Rightarrow> handleRecruit k pg
      | Build k \<Rightarrow> handleBuild k pg
      | Demolish k \<Rightarrow> handleDemolish k pg
      | Develop \<Rightarrow> handleDevelop pg)"

text \<open>The unit steppers: a row for every kind, with the number selected out of the number there.\<close>

definition stepperOffered :: "tilepiece_view list \<Rightarrow> (string \<Rightarrow> bool) \<Rightarrow> string \<Rightarrow> int \<Rightarrow> bool" where
  "stepperOffered candidates isIn kind delta =
     (let units = filter (\<lambda>u. kv_kind u = kind) candidates;
          selectedCount = length (filter (\<lambda>u. isIn (kv_id u)) units)
      in units \<noteq> [] \<and> (delta = -1 \<and> selectedCount \<noteq> 0 \<or> delta = 1 \<and> selectedCount < length units))"

definition attackSelectOffered :: "string option \<Rightarrow> ktile_view \<Rightarrow> ktile_view \<Rightarrow> (string, bool) jsmap \<Rightarrow> click \<Rightarrow> bool" where
  "attackSelectOffered userId attackFromTile attackToTile attackUnitIds c =
     (let targetIsUnowned = (kt_owner attackToTile = None);
          candidateUnits = filter (\<lambda>p. kv_attack p \<noteq> None \<and> Some (kv_owner p) = userId) (kt_pieces attackFromTile);
          validSelection = (if targetIsUnowned then list_ex (\<lambda>u. chosen attackUnitIds (kv_id u)) candidateUnits
                            else list_ex (\<lambda>u. kv_kind u \<noteq> ''noble'' \<and> chosen attackUnitIds (kv_id u)) candidateUnits)
      in case c of
           AttackUnits k d \<Rightarrow> stepperOffered candidateUnits (chosen attackUnitIds) k d
         | ConfirmAttack \<Rightarrow> validSelection
         | CancelClick \<Rightarrow> True
         | _ \<Rightarrow> False)"

definition movableUnits :: "kingdoms_view \<Rightarrow> string option \<Rightarrow> ktile_view \<Rightarrow> tilepiece_view list" where
  "movableUnits view userId tile =
     filter (\<lambda>p. kv_attack p \<noteq> None \<and> kv_id p \<notin> set (kts_movedThisTurn (kv_turnState view)) \<and> Some (kv_owner p) = userId) (kt_pieces tile)"

definition sendSelectOffered :: "kingdoms_view \<Rightarrow> string option \<Rightarrow> ktile_view \<Rightarrow> (string, int) jsmap \<Rightarrow> click \<Rightarrow> bool" where
  "sendSelectOffered view userId sendFromTile sendCounts c =
     (case c of
        SendUnits k d \<Rightarrow> stepperOffered (movableUnits view userId sendFromTile) (staged sendCounts) k d
      | ConfirmSend \<Rightarrow> list_ex (\<lambda>p. staged sendCounts (kv_id p)) (movableUnits view userId sendFromTile)
      | CancelClick \<Rightarrow> True
      | _ \<Rightarrow> False)"

definition idleOffered :: "kingdoms_view \<Rightarrow> string option \<Rightarrow> ktile_view option \<Rightarrow> ktile_view option \<Rightarrow> click \<Rightarrow> bool" where
  "idleOffered view userId selected source c =
     (case selected of
        None \<Rightarrow> False
      | Some t \<Rightarrow>
          (let me = (case truthy userId of None \<Rightarrow> None | Some u \<Rightarrow> find (\<lambda>p. kp_id p = u) (kv_players view));
               isOwnTile = (truthy userId \<noteq> None \<and> kt_owner t = userId);
               isConnected = (isOwnTile \<and> kt_incomePreview t \<noteq> None);
               hasRecruitStructure = list_ex (\<lambda>p. kv_defenseMultiplier p \<noteq> None \<and> kv_kind p \<in> set UI_RECRUIT_STRUCTURES) (kt_pieces t);
               existingStructures = map kv_kind (filter (\<lambda>p. kv_defenseMultiplier p \<noteq> None) (kt_pieces t));
               hasAttackedThisTurn = (length (kts_attackedFrom (kv_turnState view)) > 0);
               attackUnitsOnOwnTile = (if isOwnTile then filter (\<lambda>p. kv_attack p \<noteq> None \<and> Some (kv_owner p) = userId) (kt_pieces t) else []);
               isAttackableTile = (kt_owner t \<noteq> userId \<and> source \<noteq> None \<and> \<not> hasAttackedThisTurn)
           in isMyTurn view userId \<and>
              (case c of
                 AttackTarget f to' \<Rightarrow> isAttackableTile \<and> map_option kt_id source = Some f \<and> to' = kt_id t
               | StartAttack f \<Rightarrow> isOwnTile \<and> length attackUnitsOnOwnTile > 0 \<and> \<not> hasAttackedThisTurn \<and> f = kt_id t
               | StartSend f \<Rightarrow> isOwnTile \<and> movableUnits view userId t \<noteq> [] \<and> f = kt_id t
               | Recruit k \<Rightarrow> isOwnTile \<and> hasRecruitStructure \<and>
                   (case (me, jget (effectiveUnitCosts view userId) k) of (Some m, Some cost) \<Rightarrow> canAfford m cost | _ \<Rightarrow> False)
               | Build k \<Rightarrow> isConnected \<and>
                   (case (me, jget STRUCTURE_COSTS k) of (Some m, Some cost) \<Rightarrow> canAfford m cost \<and> existingStructures = [] | _ \<Rightarrow> False)
               | Demolish k \<Rightarrow> isOwnTile \<and> k \<in> set (filter (\<lambda>x. x \<noteq> ''capital-base'') existingStructures)
               | Develop \<Rightarrow> isConnected \<and> \<not> kt_developed t \<and> (case me of Some m \<Rightarrow> kp_gold m \<ge> UI_DEVELOP_COST | None \<Rightarrow> False)
               | _ \<Rightarrow> False)))"

text \<open>Every tile of the board can be clicked; the end of the turn has a button of its own below the panel.\<close>

definition offered :: "kingdoms_view \<Rightarrow> string option \<Rightarrow> kpage \<Rightarrow> click \<Rightarrow> bool" where
  "offered view userId pg c =
     (case c of
        TileClick t \<Rightarrow> t \<in> kt_id ` set (kv_tiles view)
      | EndTurnClick \<Rightarrow> isMyTurn view userId
      | _ \<Rightarrow>
          (case (pg_mode pg, tileOf view (pg_attackingFromTileId pg), tileOf view (pg_attackToTileId pg),
                 tileOf view (pg_sendFromTileId pg), tileOf view (pg_sendToTileId pg)) of
             (ModeAttack, _) \<Rightarrow> c = CancelClick
           | (ModeAttackSelect, Some f, Some t, _) \<Rightarrow> attackSelectOffered userId f t (pg_attackUnitIds pg) c
           | (ModeSendTroops, _, _, Some f, None) \<Rightarrow> c = CancelClick
           | (ModeSendTroops, _, _, Some f, Some t) \<Rightarrow> sendSelectOffered view userId f (pg_sendCounts pg) c
           | _ \<Rightarrow> idleOffered view userId (selectedTile view pg) (attackSourceTile view userId pg) c))"

section \<open>What the interaction maintains\<close>

inductive page_reachable :: "kingdoms_view \<Rightarrow> string option \<Rightarrow> kpage \<Rightarrow> bool" for view userId where
  idle: "pg_mode pg = ModeIdle \<Longrightarrow> page_reachable view userId pg"
| click: "page_reachable view userId pg \<Longrightarrow> offered view userId pg c \<Longrightarrow> page_reachable view userId (fst (perform view userId c pg))"

definition own_source :: "kingdoms_view \<Rightarrow> string option \<Rightarrow> string option \<Rightarrow> bool" where
  "own_source view u i \<longleftrightarrow> isMyTurn view u \<and> (\<exists>f. tileOf view i = Some f \<and> kt_owner f = u)"

definition own_fighters :: "string option \<Rightarrow> ktile_view \<Rightarrow> string set" where
  "own_fighters u t = {kv_id p |p. p \<in> set (kt_pieces t) \<and> kv_attack p \<noteq> None \<and> Some (kv_owner p) = u}"

definition borders :: "kingdoms_view \<Rightarrow> ktile_view \<Rightarrow> ktile_view \<Rightarrow> bool" where
  "borders view f t \<longleftrightarrow> t \<in> set (getNeighbours view f) \<or> f \<in> set (getNeighbours view t)"

definition attack_staged :: "kingdoms_view \<Rightarrow> string option \<Rightarrow> kpage \<Rightarrow> bool" where
  "attack_staged view u pg \<longleftrightarrow> kts_attackedFrom (kv_turnState view) = [] \<and> own_source view u (pg_attackingFromTileId pg) \<and>
     (\<exists>f t. tileOf view (pg_attackingFromTileId pg) = Some f \<and> tileOf view (pg_attackToTileId pg) = Some t \<and> borders view f t \<and>
        kt_owner t \<noteq> u \<and> set (jkeys (pg_attackUnitIds pg)) \<subseteq> own_fighters u f \<and> distinct (jkeys (pg_attackUnitIds pg)))"

definition send_staged :: "kingdoms_view \<Rightarrow> string option \<Rightarrow> kpage \<Rightarrow> bool" where
  "send_staged view u pg \<longleftrightarrow> own_source view u (pg_sendFromTileId pg) \<and>
     (\<forall>t. pg_sendToTileId pg = Some t \<longrightarrow> own_source view u (Some t) \<and> pg_sendFromTileId pg \<noteq> Some t) \<and>
     (\<forall>i n f. (i, n) \<in> set (pg_sendCounts pg) \<longrightarrow> n > 0 \<longrightarrow> tileOf view (pg_sendFromTileId pg) = Some f \<longrightarrow> i \<in> own_fighters u f)"

definition page_inv :: "kingdoms_view \<Rightarrow> string option \<Rightarrow> kpage \<Rightarrow> bool" where
  "page_inv view u pg \<longleftrightarrow>
     (case pg_mode pg of
        ModeIdle \<Rightarrow> True
      | ModeAttack \<Rightarrow> own_source view u (pg_attackingFromTileId pg) \<and> kts_attackedFrom (kv_turnState view) = []
      | ModeAttackSelect \<Rightarrow> attack_staged view u pg
      | ModeSendTroops \<Rightarrow> send_staged view u pg)"

definition tiles_distinct :: "kingdoms_view \<Rightarrow> bool" where
  "tiles_distinct view \<longleftrightarrow> distinct (map kt_id (kv_tiles view))"

lemma tileOf_Some: "tileOf view i = Some t \<Longrightarrow> t \<in> set (kv_tiles view) \<and> i = Some (kt_id t)"
  by (auto simp: tileOf_def dest!: find_SomeD)

lemma tileOf_tile:
  assumes d: "tiles_distinct view" and t: "t \<in> set (kv_tiles view)"
  shows "tileOf view (Some (kt_id t)) = Some t"
proof (cases "tileOf view (Some (kt_id t))")
  case None
  with t have False unfolding tileOf_def find_None_iff by blast
  then show ?thesis ..
next
  case (Some x)
  then have "x \<in> set (kv_tiles view)" "kt_id x = kt_id t" using tileOf_Some [OF Some] by simp_all
  moreover have "inj_on kt_id (set (kv_tiles view))" using d by (simp add: tiles_distinct_def distinct_map)
  ultimately show ?thesis using Some t by (metis inj_onD)
qed

lemma getNeighbours_find:
  "t \<in> set (getNeighbours view f) \<Longrightarrow>
     \<exists>q r. (q, r) \<in> set PAGE_HEX_DIRS \<and> find (\<lambda>t. kt_q t = kt_q f + q \<and> kt_r t = kt_r f + r) (kv_tiles view) = Some t"
  by (force simp: getNeighbours_def List.map_filter_def)

lemma getNeighbours_tile:
  assumes "t \<in> set (getNeighbours view f)"
  shows "t \<in> set (kv_tiles view)" "(kt_q t - kt_q f, kt_r t - kt_r f) \<in> set PAGE_HEX_DIRS"
proof -
  obtain q r where qr: "(q, r) \<in> set PAGE_HEX_DIRS" "find (\<lambda>t. kt_q t = kt_q f + q \<and> kt_r t = kt_r f + r) (kv_tiles view) = Some t"
    using getNeighbours_find [OF assms] by blast
  then have "t \<in> set (kv_tiles view)" "kt_q t = kt_q f + q" "kt_r t = kt_r f + r" by (auto dest!: find_SomeD)
  with qr(1) show "t \<in> set (kv_tiles view)" "(kt_q t - kt_q f, kt_r t - kt_r f) \<in> set PAGE_HEX_DIRS" by simp_all
qed

lemma isMyTurn_user: "isMyTurn view u \<Longrightarrow> u = Some (kv_currentActivePlayer view) \<and> truthy u = u"
  by (auto simp: isMyTurn_def truthy_def split: option.splits if_splits)

lemma reset_inv: "page_inv view u (resetInteraction view u pg)"
  by (simp add: page_inv_def resetInteraction_def)

text \<open>The initial force of an attack: units of the player on the source tile, each once.\<close>

lemma initialForce_keys:
  assumes "tileOf view i = Some f"
  shows "set (jkeys (initialForce view u i j)) \<subseteq> own_fighters u f \<and> distinct (jkeys (initialForce view u i j))"
proof -
  define un where "un = (case tileOf view j of Some t \<Rightarrow> kt_owner t = None | None \<Rightarrow> False)"
  have "set ps \<subseteq> set (kt_pieces f) \<Longrightarrow> set (jkeys m) \<subseteq> own_fighters u f \<Longrightarrow> distinct (jkeys m) \<Longrightarrow>
      set (jkeys (fold (\<lambda>p initial. if Some (kv_owner p) = u \<and> kv_attack p \<noteq> None
         then jput (kv_id p) (un \<or> kv_kind p \<noteq> ''noble'') initial else initial) ps m)) \<subseteq> own_fighters u f \<and>
      distinct (jkeys (fold (\<lambda>p initial. if Some (kv_owner p) = u \<and> kv_attack p \<noteq> None
         then jput (kv_id p) (un \<or> kv_kind p \<noteq> ''noble'') initial else initial) ps m))" for ps m
  proof (induction ps arbitrary: m)
    case (Cons p ps)
    have "Some (kv_owner p) = u \<Longrightarrow> kv_attack p \<noteq> None \<Longrightarrow> kv_id p \<in> own_fighters u f"
      using Cons.prems(1) by (auto simp: own_fighters_def)
    with Cons.prems show ?case unfolding fold_Cons comp_def
      by (intro Cons.IH) (auto simp: jkeys_jput simp del: set_map)
  qed simp
  from this [of "kt_pieces f" "[]"] show ?thesis
    unfolding initialForce_def Let_def assms option.case un_def [symmetric] by simp
qed

lemma unitsOfKind_own: "i \<in> set (unitsOfKind u k f) \<Longrightarrow> i \<in> own_fighters u f"
  by (auto simp: unitsOfKind_def own_fighters_def)

lemma jkeys_fold_jput: "set (jkeys (fold (\<lambda>i. jput i v) is m)) = set is \<union> set (jkeys m)"
  by (induction "is" arbitrary: m) (auto simp: jkeys_jput simp del: set_map)

lemma distinct_fold_jput: "distinct (jkeys m) \<Longrightarrow> distinct (jkeys (fold (\<lambda>i. jput i v) is m))"
  by (induction "is" arbitrary: m) auto

lemma set_fold_jput: "(a, b) \<in> set (fold (\<lambda>i. jput i v) is m) \<Longrightarrow> a \<in> set is \<and> b = v \<or> (a, b) \<in> set m"
  by (induction "is" arbitrary: m) (fastforce dest: set_jput)+

lemma attack_units_inv:
  assumes "attack_staged view u pg"
  shows "attack_staged view u (handleAttackUnitCountChange view u k d pg)"
proof -
  obtain f t where f: "tileOf view (pg_attackingFromTileId pg) = Some f" "tileOf view (pg_attackToTileId pg) = Some t" "borders view f t"
    "kt_owner t \<noteq> u" "set (jkeys (pg_attackUnitIds pg)) \<subseteq> own_fighters u f" "distinct (jkeys (pg_attackUnitIds pg))"
    using assms unfolding attack_staged_def by blast
  have sub: "set (take n (filter P (unitsOfKind u k f))) \<subseteq> own_fighters u f" for n P
    using unitsOfKind_own by (auto dest!: in_set_takeD)
  let ?m = "pg_attackUnitIds (handleAttackUnitCountChange view u k d pg)"
  have "set (jkeys ?m) \<subseteq> own_fighters u f \<and> distinct (jkeys ?m)"
    using f(5,6) sub by (simp add: handleAttackUnitCountChange_def f(1) Let_def jkeys_fold_jput distinct_fold_jput del: set_map)
  moreover have "pg_attackingFromTileId (handleAttackUnitCountChange view u k d pg) = pg_attackingFromTileId pg"
    "pg_attackToTileId (handleAttackUnitCountChange view u k d pg) = pg_attackToTileId pg"
    by (simp_all add: handleAttackUnitCountChange_def Let_def split: option.split)
  ultimately show ?thesis using assms f unfolding attack_staged_def by metis
qed

lemma send_units_inv:
  assumes "send_staged view u pg"
  shows "send_staged view u (handleSendUnitCountChange view u k d pg)"
proof -
  let ?p = "handleSendUnitCountChange view u k d pg"
  have sel: "pg_sendFromTileId ?p = pg_sendFromTileId pg" "pg_sendToTileId ?p = pg_sendToTileId pg"
    by (simp_all add: handleSendUnitCountChange_def Let_def split: option.split)
  have "i \<in> own_fighters u f" if e: "(i, n) \<in> set (pg_sendCounts ?p)" "n > 0" and f: "tileOf view (pg_sendFromTileId pg) = Some f" for i n f
  proof -
    have "i \<in> set (unitsOfKind u k f) \<or> (i, n) \<in> set (pg_sendCounts pg)"
      using e f by (auto simp: handleSendUnitCountChange_def Let_def dest!: set_fold_jput in_set_takeD split: if_splits)
    then show ?thesis using unitsOfKind_own assms e(2) f unfolding send_staged_def by blast
  qed
  with assms show ?thesis unfolding send_staged_def sel by blast
qed

lemma find_source:
  assumes "findAttackSource view t u af = Some n"
  shows "n \<in> set (getNeighbours view t) \<and> kt_owner n = Some u"
proof -
  define st where "st = (\<lambda>(n :: ktile_view) (best, bestCount :: int).
     if kt_owner n \<noteq> Some u then (best, bestCount)
     else if kt_id n \<in> set af then (best, bestCount)
     else (let eligible = int (length (filter (\<lambda>p. (case kv_attack p of Some k \<Rightarrow> k > 0 | None \<Rightarrow> False) \<and>
                 kv_owner p = u \<and> (kt_owner t = None \<or> kv_kind p \<noteq> ''noble'')) (kt_pieces n)))
           in if eligible > bestCount then (Some n, eligible) else (best, bestCount)))"
  have inv: "(case fst acc of None \<Rightarrow> True | Some b \<Rightarrow> b \<in> S \<and> kt_owner b = Some u) \<Longrightarrow> set ns \<subseteq> S \<Longrightarrow>
      (case fst (fold st ns acc) of None \<Rightarrow> True | Some b \<Rightarrow> b \<in> S \<and> kt_owner b = Some u)" for ns acc S
    by (induction ns arbitrary: acc) (auto simp: st_def Let_def split: prod.splits)
  have "fst (fold st (getNeighbours view t) (None, -1)) = Some n"
    using assms unfolding findAttackSource_def Let_def st_def [unfolded Let_def, symmetric]
    by (auto split: prod.splits if_splits)
  with inv [where acc = "(None, -1)" and S = "set (getNeighbours view t)" and ns = "getNeighbours view t"] show ?thesis by simp
qed

lemma zero_counts: "(i, n) \<in> set (fold (\<lambda>p. jput (kv_id p) (0 :: int)) ps m) \<Longrightarrow> n = 0 \<or> (i, n) \<in> set m"
  by (induction ps arbitrary: m) (fastforce dest: set_jput)+

lemma tile_click_inv:
  assumes d: "tiles_distinct view" and inv: "page_inv view u pg"
  shows "page_inv view u (handleTileClick view u c pg)"
proof -
  consider (target) "pg_mode pg = ModeAttack" "truthy (pg_attackingFromTileId pg) \<noteq> None" "c \<in> attackTargetTiles view u pg"
    | (dest) "pg_mode pg = ModeSendTroops" "truthy (pg_sendFromTileId pg) \<noteq> None" "truthy (pg_sendToTileId pg) = None"
       "(case tileOf view (Some c) of Some t \<Rightarrow> kt_owner t = u | None \<Rightarrow> False) \<and> Some c \<noteq> pg_sendFromTileId pg"
    | (again) "pg_mode pg = ModeSendTroops" "\<not> (truthy (pg_sendFromTileId pg) \<noteq> None \<and> truthy (pg_sendToTileId pg) = None)"
    | (other) "pg_mode (handleTileClick view u c pg) = ModeIdle"
  proof -
    have "(pg_mode pg = ModeAttack \<and> truthy (pg_attackingFromTileId pg) \<noteq> None \<and> c \<in> attackTargetTiles view u pg) \<or>
      (pg_mode pg = ModeSendTroops \<and> truthy (pg_sendFromTileId pg) \<noteq> None \<and> truthy (pg_sendToTileId pg) = None \<and>
         (case tileOf view (Some c) of Some t \<Rightarrow> kt_owner t = u | None \<Rightarrow> False) \<and> Some c \<noteq> pg_sendFromTileId pg) \<or>
      (pg_mode pg = ModeSendTroops \<and> \<not> (truthy (pg_sendFromTileId pg) \<noteq> None \<and> truthy (pg_sendToTileId pg) = None)) \<or>
      pg_mode (handleTileClick view u c pg) = ModeIdle"
      by (simp add: handleTileClick_def resetInteraction_def)
    then show thesis by (elim disjE conjE) (rule that(1), assumption+, rule that(2), assumption+, blast, rule that(3), assumption+, rule that(4))
  qed
  then show ?thesis
  proof cases
    case target
    then obtain f where f: "tileOf view (pg_attackingFromTileId pg) = Some f"
      and "c \<in> kt_id ` set (filter (\<lambda>n. kt_owner n \<noteq> u) (getNeighbours view f))"
      by (auto simp: attackTargetTiles_def split: if_splits option.splits)
    then obtain t where t: "t \<in> set (getNeighbours view f)" "kt_owner t \<noteq> u" "c = kt_id t" by auto
    have "tileOf view (Some c) = Some t" unfolding t(3) by (rule tileOf_tile [OF d getNeighbours_tile(1) [OF t(1)]])
    then have "attack_staged view u (handleTileClick view u c pg)"
      using inv target f t initialForce_keys [OF f]
      by (simp add: handleTileClick_def page_inv_def attack_staged_def borders_def)
    with target show ?thesis by (simp add: page_inv_def handleTileClick_def)
  next
    case dest
    then obtain t where t: "tileOf view (Some c) = Some t" "kt_owner t = u" by (auto split: option.splits)
    have zero: "(i, n) \<in> set (fold (\<lambda>p. jput (kv_id p) (0 :: int)) ps []) \<Longrightarrow> n = 0" for i n and ps :: "tilepiece_view list"
      using zero_counts [of i n ps "[]"] by simp
    have "send_staged view u (handleTileClick view u c pg)"
      using inv dest t unfolding page_inv_def send_staged_def own_source_def
      by (auto simp: handleTileClick_def Let_def dest!: zero)
    with dest show ?thesis by (simp add: page_inv_def handleTileClick_def Let_def)
  next
    case again
    then show ?thesis using inv by (auto simp: page_inv_def handleTileClick_def send_staged_def)
  next
    case other
    then show ?thesis by (simp add: page_inv_def)
  qed
qed

text \<open>Which part of the panel offers which click.\<close>

lemmas panel_defs = offered_def attackSelectOffered_def sendSelectOffered_def idleOffered_def

lemma offered_idle:
  "offered view u pg (StartAttack f) \<Longrightarrow> idleOffered view u (selectedTile view pg) (attackSourceTile view u pg) (StartAttack f)"
  "offered view u pg (AttackTarget f t) \<Longrightarrow> idleOffered view u (selectedTile view pg) (attackSourceTile view u pg) (AttackTarget f t)"
  "offered view u pg (StartSend f) \<Longrightarrow> idleOffered view u (selectedTile view pg) (attackSourceTile view u pg) (StartSend f)"
  "offered view u pg (Recruit k) \<Longrightarrow> idleOffered view u (selectedTile view pg) (attackSourceTile view u pg) (Recruit k)"
  "offered view u pg (Build k) \<Longrightarrow> idleOffered view u (selectedTile view pg) (attackSourceTile view u pg) (Build k)"
  "offered view u pg (Demolish k) \<Longrightarrow> idleOffered view u (selectedTile view pg) (attackSourceTile view u pg) (Demolish k)"
  "offered view u pg Develop \<Longrightarrow> idleOffered view u (selectedTile view pg) (attackSourceTile view u pg) Develop"
  by (simp_all add: offered_def attackSelectOffered_def sendSelectOffered_def Let_def split: page_mode.splits option.splits)

lemma not_idle: "c \<in> {AttackUnits k d, ConfirmAttack, CancelClick, SendUnits k d, ConfirmSend} \<Longrightarrow> \<not> idleOffered view u sel src c"
  by (auto simp: idleOffered_def Let_def split: option.splits)

lemma offered_select:
  "offered view u pg (AttackUnits k dl) \<Longrightarrow> pg_mode pg = ModeAttackSelect"
  "offered view u pg (SendUnits k dl) \<Longrightarrow> pg_mode pg = ModeSendTroops"
  "offered view u pg ConfirmSend \<Longrightarrow> pg_mode pg = ModeSendTroops"
  by (simp_all add: offered_def attackSelectOffered_def sendSelectOffered_def not_idle Let_def split: page_mode.splits option.splits)

lemma offered_attack:
  assumes "offered view u pg ConfirmAttack"
  shows "pg_mode pg = ModeAttackSelect" "tileOf view (pg_attackingFromTileId pg) = Some f \<Longrightarrow> tileOf view (pg_attackToTileId pg) = Some t \<Longrightarrow>
     attackSelectOffered u f t (pg_attackUnitIds pg) ConfirmAttack"
  using assms by (simp_all add: offered_def sendSelectOffered_def not_idle split: page_mode.splits option.splits)

lemma page_inv_reachable:
  assumes d: "tiles_distinct view" and r: "page_reachable view u pg"
  shows "page_inv view u pg"
  using r
proof induction
  case (idle pg)
  then show ?case by (simp add: page_inv_def)
next
  case (click pg c)
  show ?case
  proof (cases c)
    case (TileClick t)
    then show ?thesis using tile_click_inv [OF d click.IH] by (simp add: perform_def)
  next
    case EndTurnClick
    then show ?thesis using reset_inv by (simp add: perform_def handleEndTurn_def)
  next
    case (StartAttack f)
    then have "idleOffered view u (selectedTile view pg) (attackSourceTile view u pg) (StartAttack f)"
      using click.hyps(2) offered_idle(1) by simp
    then obtain t where t: "selectedTile view pg = Some t" "isMyTurn view u" "kt_owner t = u" "kts_attackedFrom (kv_turnState view) = []" "f = kt_id t"
      by (auto simp: idleOffered_def Let_def split: option.splits)
    then have "tileOf view (Some f) = Some t" using tileOf_Some by (auto simp: selectedTile_def)
    with t StartAttack show ?thesis by (simp add: perform_def handleStartAttackFromTile_def page_inv_def own_source_def)
  next
    case (AttackTarget f t)
    then have "idleOffered view u (selectedTile view pg) (attackSourceTile view u pg) (AttackTarget f t)"
      using click.hyps(2) offered_idle(2) by simp
    then obtain x y where t: "selectedTile view pg = Some x" "isMyTurn view u" "kt_owner x \<noteq> u" "kts_attackedFrom (kv_turnState view) = []"
      "attackSourceTile view u pg = Some y" "f = kt_id y" "t = kt_id x"
      by (auto simp: idleOffered_def Let_def split: option.splits)
    have x: "tileOf view (Some t) = Some x" using t(1,7) tileOf_Some by (auto simp: selectedTile_def)
    obtain w where w: "u = Some w" "findAttackSource view x w (kts_attackedFrom (kv_turnState view)) = Some y"
      using t(1,3,5) isMyTurn_user [OF t(2)] by (auto simp: attackSourceTile_def split: if_splits option.splits)
    have y: "y \<in> set (getNeighbours view x)" "kt_owner y = u" using find_source [OF w(2)] w(1) by simp_all
    have "tileOf view (Some f) = Some y" unfolding t(6) by (rule tileOf_tile [OF d getNeighbours_tile(1) [OF y(1)]])
    with t x y AttackTarget initialForce_keys [OF this] show ?thesis
      by (simp add: perform_def handleAttackTarget_def page_inv_def attack_staged_def own_source_def borders_def)
  next
    case (AttackUnits k dl)
    then have m: "pg_mode pg = ModeAttackSelect" using click.hyps(2) offered_select(1) by simp
    then have "attack_staged view u (handleAttackUnitCountChange view u k dl pg)"
      using click.IH attack_units_inv by (simp add: page_inv_def)
    moreover have "pg_mode (handleAttackUnitCountChange view u k dl pg) = ModeAttackSelect"
      using m by (simp add: handleAttackUnitCountChange_def Let_def split: option.split)
    ultimately show ?thesis using AttackUnits by (simp add: perform_def page_inv_def)
  next
    case ConfirmAttack
    then show ?thesis using click.IH reset_inv by (simp add: perform_def handleConfirmAttack_def split: option.split)
  next
    case CancelClick
    then show ?thesis using reset_inv by (simp add: perform_def)
  next
    case (StartSend f)
    then have "idleOffered view u (selectedTile view pg) (attackSourceTile view u pg) (StartSend f)"
      using click.hyps(2) offered_idle(3) by simp
    then obtain t where t: "selectedTile view pg = Some t" "isMyTurn view u" "kt_owner t = u" "f = kt_id t"
      by (auto simp: idleOffered_def Let_def split: option.splits)
    then have "tileOf view (Some f) = Some t" using tileOf_Some by (auto simp: selectedTile_def)
    with t StartSend show ?thesis by (simp add: perform_def handleStartSendTroops_def page_inv_def send_staged_def own_source_def)
  next
    case (SendUnits k dl)
    then have m: "pg_mode pg = ModeSendTroops" using click.hyps(2) offered_select(2) by simp
    then have "send_staged view u (handleSendUnitCountChange view u k dl pg)"
      using click.IH send_units_inv by (simp add: page_inv_def)
    moreover have "pg_mode (handleSendUnitCountChange view u k dl pg) = ModeSendTroops"
      using m by (simp add: handleSendUnitCountChange_def Let_def split: option.split)
    ultimately show ?thesis using SendUnits by (simp add: perform_def page_inv_def)
  next
    case ConfirmSend
    then show ?thesis using click.IH reset_inv by (simp add: perform_def handleConfirmSend_def split: option.split)
  qed (use click.IH in \<open>simp_all add: perform_def handleRecruit_def handleBuild_def handleDemolish_def handleDevelop_def sendForSelected_def split: option.split\<close>)
qed

section \<open>What the server makes of the commands\<close>

definition verdict :: "kstate \<Rightarrow> string option \<Rightarrow> kcommand \<Rightarrow> exn + action_error option" where
  "verdict s u cmd = validate_action kingdoms_vs s \<lparr>ac_type = fst cmd, ac_playerId = u, ac_payload = snd cmd, ac_clientSeq = None\<rparr>"

lemma verdict_cases:
  "verdict s u (''attack-tile'', pl) = attackTileValidator s \<lparr>ac_type = ''attack-tile'', ac_playerId = u, ac_payload = pl, ac_clientSeq = None\<rparr>"
  "verdict s u (''move-unit'', pl) = moveUnitValidator s \<lparr>ac_type = ''move-unit'', ac_playerId = u, ac_payload = pl, ac_clientSeq = None\<rparr>"
  "verdict s u (''recruit-unit'', pl) = recruitUnitValidator s \<lparr>ac_type = ''recruit-unit'', ac_playerId = u, ac_payload = pl, ac_clientSeq = None\<rparr>"
  "verdict s u (''build-structure'', pl) = buildStructureValidator s \<lparr>ac_type = ''build-structure'', ac_playerId = u, ac_payload = pl, ac_clientSeq = None\<rparr>"
  "verdict s u (''demolish-structure'', pl) = demolishStructureValidator s \<lparr>ac_type = ''demolish-structure'', ac_playerId = u, ac_payload = pl, ac_clientSeq = None\<rparr>"
  "verdict s u (''develop-tile'', pl) = developTileValidator s \<lparr>ac_type = ''develop-tile'', ac_playerId = u, ac_payload = pl, ac_clientSeq = None\<rparr>"
  "verdict s u (''end-turn'', pl) = endTurnValidator s \<lparr>ac_type = ''end-turn'', ac_playerId = u, ac_payload = pl, ac_clientSeq = None\<rparr>"
  by (simp_all add: verdict_def validate_action_def getValidator_def kingdoms_vs_def kingdomsValidators_def kvalidator_def)

text \<open>The view of a position shows its tiles, each once.\<close>

lemma shown_tile:
  assumes "kingdoms_ok s" "t \<in> set (kv_tiles (buildKingdomsView s ps vic))"
  obtains x where "x \<in> set (jvals (gm_tiles (gs_map s)))" "t = viewTile s ps x" "tileById (gs_map s) (kt_id t) = Some x"
    "kt_id t = tile_id x" "kt_owner t = jget (getOwnership s) (kt_id t)" "kt_id t \<noteq> []"
proof -
  have wf: "wf_map (gs_map s)" using assms(1) by (simp add: kingdoms_ok_def)
  obtain x where x: "x \<in> set (jvals (gm_tiles (gs_map s)))" "t = viewTile s ps x" using assms(2) by (auto simp: buildKingdomsView_def)
  then have "tileById (gs_map s) (kt_id t) = Some x" "kt_id t \<noteq> []" using tileById_mem [OF wf] tile_id_nonempty [OF wf] by simp_all
  with x show thesis by (intro that) simp_all
qed

lemma view_tiles_distinct:
  assumes "kingdoms_ok s"
  shows "tiles_distinct (buildKingdomsView s ps vic)"
proof -
  have wf: "wf_map (gs_map s)" using assms by (simp add: kingdoms_ok_def)
  then have "map tile_id (jvals (gm_tiles (gs_map s))) = jkeys (gm_tiles (gs_map s))" by (auto simp: wf_map_def)
  moreover have "distinct (jkeys (gm_tiles (gs_map s)))" using wf by (simp add: wf_map_def)
  ultimately have "distinct (map tile_id (jvals (gm_tiles (gs_map s))))" by metis
  then show ?thesis unfolding tiles_distinct_def buildKingdomsView_def by (simp only: kingdoms_view.simps map_map comp_def viewTile_sel)
qed

lemma hex_dirs_neighbour:
  "(dq, dr) \<in> set PAGE_HEX_DIRS \<Longrightarrow> ax_q b = ax_q a + dq \<Longrightarrow> ax_r b = ax_r a + dr \<Longrightarrow> isNeighbour a b \<and> isNeighbour b a"
  by (auto simp: PAGE_HEX_DIRS_def isNeighbour_def axialEquals_def Let_def)

lemma borders_adjacent:
  assumes ok': "kingdoms_ok s" and v: "v = buildKingdomsView s ps vic" and b: "borders v f t" "f \<in> set (kv_tiles v)" "t \<in> set (kv_tiles v)"
  shows "isAdjacent (gs_map s) (kt_id f) (kt_id t)"
proof -
  have wf: "wf_map (gs_map s)" using ok' by (simp add: kingdoms_ok_def)
  obtain x where x: "f = viewTile s ps x" "tileById (gs_map s) (kt_id f) = Some x" using shown_tile [OF ok' b(2) [unfolded v]] by metis
  obtain y where y: "t = viewTile s ps y" "tileById (gs_map s) (kt_id t) = Some y" "kt_id t = tile_id y"
    using shown_tile [OF ok' b(3) [unfolded v]] by metis
  have q: "kt_q f = ax_q (tile_coord x)" "kt_r f = ax_r (tile_coord x)" "kt_q t = ax_q (tile_coord y)" "kt_r t = ax_r (tile_coord y)"
    by (simp_all add: x(1) y(1) viewTile_def Let_def split_beta)
  have "isNeighbour (tile_coord x) (tile_coord y)"
    using b(1) unfolding borders_def
  proof
    assume "t \<in> set (getNeighbours v f)"
    from getNeighbours_tile(2) [OF this] hex_dirs_neighbour show ?thesis unfolding q by fastforce
  next
    assume "f \<in> set (getNeighbours v t)"
    from getNeighbours_tile(2) [OF this] hex_dirs_neighbour show ?thesis unfolding q by fastforce
  qed
  then have "y \<in> set (neighboursOf (gs_map s) (tile_coord x))" using y(2,3) by (simp add: neighboursOf_iff [OF wf])
  then show ?thesis unfolding isAdjacent_def list_ex_iff x(2) option.case y(3) by blast
qed

text \<open>The pieces a tile shows are the pieces that stand on it.\<close>

lemma shown_piece:
  assumes ok': "kingdoms_ok s" and x: "x \<in> set (jvals (gm_tiles (gs_map s)))" and p: "p \<in> set (kt_pieces (viewTile s ps x))"
  obtains q where "p = viewPiece q" "jget (gs_pieces s) (kv_id p) = Some q" "pc_location q = OnTile (tile_id x)" "kv_kind p = pc_kind q"
    "kv_owner p = pc_owner q" "kv_attack p \<noteq> None \<longleftrightarrow> pc_kind q \<in> set UNIT_KINDS"
    "kv_defenseMultiplier p \<noteq> None \<longleftrightarrow> pc_kind q \<in> set STRUCTURE_KINDS" "jget (getOwnership s) (tile_id x) = Some (pc_owner q)"
proof -
  have b: "board_ok (getOwnership s) (gs_pieces s)" using ok' by (simp add: kingdoms_ok_def)
  then have d: "distinct (jkeys (gs_pieces s))" by (simp add: board_ok_def)
  obtain i q where q: "(i, q) \<in> set (gs_pieces s)" "at_tile (tile_id x) (i, q)" "p = viewPiece q"
    using p unfolding tile_pieces [OF ok' x] by auto
  have g: "jget (gs_pieces s) i = Some q" by (rule map_of_eq_Some_iff [OF d, THEN iffD2, OF q(1)])
  have po: "piece_ok (getOwnership s) i q" by (rule board_okD [OF b g])
  note k = piece_ok_parts [OF po]
  have u: "pc_kind q \<in> set UNIT_KINDS \<or> pc_kind q \<in> set STRUCTURE_KINDS" using k by blast
  note vp = viewPiece_unit [OF u, folded q(3)]
  show thesis
    by (rule that [of q]) (use g k po vp q(2,3) in \<open>auto simp: piece_ok_def at_tile_def\<close>)
qed

lemma own_fighters_units:
  assumes ok': "kingdoms_ok s" and x: "x \<in> set (jvals (gm_tiles (gs_map s)))" and i: "i \<in> own_fighters (Some w) (viewTile s ps x)"
  shows "i \<in> set (unitsOnTile s (tile_id x) (Some w) (Some UNIT_KINDS))"
proof -
  have d: "distinct (jkeys (gs_pieces s))" using ok' by (simp add: kingdoms_ok_def board_ok_def)
  obtain p where p: "p \<in> set (kt_pieces (viewTile s ps x))" "i = kv_id p" "kv_attack p \<noteq> None" "kv_owner p = w"
    using i unfolding own_fighters_def by blast
  show ?thesis by (rule shown_piece [OF ok' x p(1)]) (use p in \<open>auto simp: unitsOnTile_mem [OF d]\<close>)
qed

lemma guard_shown:
  assumes "isMyTurn (buildKingdomsView s ps vic) (Some w)" "\<not> isEliminated (gs_players s) w"
  shows "guardActivePlayer s (Some w) = None"
  using assms by (auto simp: isMyTurn_def buildKingdomsView_def guardActivePlayer_def truthy_def split: if_splits)

lemma attack_verdict:
  assumes ok': "kingdoms_ok s" and alive: "\<not> isEliminated (gs_players s) w" and v: "v = buildKingdomsView s ps vic"
    and st: "attack_staged v (Some w) pg" and off: "offered v (Some w) pg ConfirmAttack"
    and cmd: "cmd \<in> set (snd (handleConfirmAttack v (Some w) pg))"
  shows "fst cmd = ''attack-tile'' \<and> (verdict s (Some w) cmd = accept \<or> verdict s (Some w) cmd = reject ''disconnected'')"
proof -
  obtain f t where f: "tileOf v (pg_attackingFromTileId pg) = Some f" "tileOf v (pg_attackToTileId pg) = Some t" "borders v f t"
    "kt_owner t \<noteq> Some w" "set (jkeys (pg_attackUnitIds pg)) \<subseteq> own_fighters (Some w) f" "kts_attackedFrom (kv_turnState v) = []"
    and own: "own_source v (Some w) (pg_attackingFromTileId pg)" and dk: "distinct (jkeys (pg_attackUnitIds pg))"
    using st unfolding attack_staged_def by blast
  have fm: "f \<in> set (kv_tiles v)" "pg_attackingFromTileId pg = Some (kt_id f)" using tileOf_Some [OF f(1)] by simp_all
  have tm: "t \<in> set (kv_tiles v)" "pg_attackToTileId pg = Some (kt_id t)" using tileOf_Some [OF f(2)] by simp_all
  have of: "kt_owner f = Some w" "isMyTurn v (Some w)" using own f(1) by (auto simp: own_source_def)
  obtain x where x: "x \<in> set (jvals (gm_tiles (gs_map s)))" "f = viewTile s ps x" "kt_id f = tile_id x"
    "kt_owner f = jget (getOwnership s) (kt_id f)" "kt_id f \<noteq> []" using shown_tile [OF ok' fm(1) [unfolded v]] by metis
  have to: "kt_owner t = jget (getOwnership s) (kt_id t)" "kt_id t \<noteq> []" using shown_tile [OF ok' tm(1) [unfolded v]] by metis+
  let ?ids = "stagedIds (pg_attackUnitIds pg)" and ?us = "unitsOnTile s (kt_id f) (Some w) (Some UNIT_KINDS)"
  let ?a = "\<lparr>ac_type = ''attack-tile'', ac_playerId = Some w, ac_payload = noPayload\<lparr>kp_fromTileId := kt_id f, kp_toTileId := kt_id t,
    kp_unitIds := Some ?ids\<rparr>, ac_clientSeq = None\<rparr>"
  have c: "cmd = (''attack-tile'', noPayload\<lparr>kp_fromTileId := kt_id f, kp_toTileId := kt_id t, kp_unitIds := Some ?ids\<rparr>)"
    using cmd x(5) to(2) by (simp add: handleConfirmAttack_def fm(2) tm(2) truthy_def)
  have mem: "i \<in> set ?us \<and> (\<exists>p. jget (gs_pieces s) i = Some p)" if "i \<in> set ?ids" for i
  proof -
    have "i \<in> own_fighters (Some w) f" using that f(5) by (auto simp: stagedIds_def)
    then have "i \<in> set ?us" using own_fighters_units [OF ok' x(1)] x(2,3) by metis
    then show ?thesis using ok' by (auto simp: unitsOnTile_mem kingdoms_ok_def board_ok_def)
  qed
  have chosen: "chosen (pg_attackUnitIds pg) i \<Longrightarrow> i \<in> set ?ids" for i
    by (auto simp: chosen_def stagedIds_def dest!: jget_in_set intro: image_eqI [where x = "(i, True)"])
  obtain u where u: "u \<in> set (kt_pieces f)" "kv_attack u \<noteq> None" "kv_owner u = w" "chosen (pg_attackUnitIds pg) (kv_id u)"
    "kt_owner t \<noteq> None \<longrightarrow> kv_kind u \<noteq> ''noble''"
    using offered_attack(2) [OF off f(1,2)] by (auto simp: attackSelectOffered_def Let_def list_ex_iff split: if_splits)
  obtain q where q: "jget (gs_pieces s) (kv_id u) = Some q" "kv_kind u = pc_kind q" "pc_kind q \<in> set UNIT_KINDS"
    using shown_piece [OF ok' x(1) u(1) [unfolded x(2)]] u(2) by metis
  have elig: "list_ex (\<lambda>i. case jget (gs_pieces s) i of Some p \<Rightarrow> pc_kind p \<in> set K | None \<Rightarrow> False) ?ids"
    if "K = (if jget (getOwnership s) (kt_id t) = None then UNIT_KINDS else COMBAT_UNIT_KINDS)" for K
    unfolding list_ex_iff using that chosen [OF u(4)] q u(5) to(1)
    by (intro bexI [of _ "kv_id u"]) (auto simp: UNIT_KINDS_eq COMBAT_UNIT_KINDS_eq)
  have ne: "?ids \<noteq> []" "?us \<noteq> []" using chosen [OF u(4)] mem by fastforce+
  have g: "guardActivePlayer s (Some w) = None" by (rule guard_shown [OF of(2) [unfolded v] alive])
  have af: "getAttackedFrom s = []" using f(6) by (simp add: v buildKingdomsView_def)
  have adj: "isAdjacent (gs_map s) (kt_id f) (kt_id t)" by (rule borders_adjacent [OF ok' v f(3) fm(1) tm(1)])
  have all: "list_all (\<lambda>i. i \<in> set ?us) ?ids" "list_all (\<lambda>i. jget (gs_pieces s) i \<noteq> None) ?ids"
    using mem by (auto simp: list_all_iff)
  from elig adj ne af all of(1) x(4) to(1) f(4) have "attackTileValidator s ?a = accept \<or> attackTileValidator s ?a = reject ''disconnected''"
    unfolding attackTileValidator_def actor_def by (cases "jget (getOwnership s) (kt_id t)") (simp_all add: g Let_def noPayload_def)
  then show ?thesis unfolding c verdict_cases fst_conv by simp
qed

subsection \<open>The costs of the panel\<close>

lemma stockOf_stock: "stockOf s w r = inv_get (stock s w) r"
  by (simp add: stockOf_def stock_def inv_get_def split: option.split)

lemma canAfford_firstShort:
  assumes inv: "invs_ok s" and c: "set (map fst cost) \<subseteq> {''gold'', ''wood'', ''iron'', ''food''}" "distinct (map fst cost)"
  shows "canAfford (viewPlayer s ps p) cost \<longleftrightarrow> firstShort cost (stock s (pl_id p)) = None"
proof -
  have nn: "0 \<le> inv_get (stock s (pl_id p)) r" for r
    using inv invs_okD [OF inv] by (auto simp: stock_def inv_ok_def split: option.split)
  have ent: "costEntry cost r \<le> inv_get (stock s (pl_id p)) r \<longleftrightarrow> (\<forall>n. (r, n) \<in> set cost \<longrightarrow> n \<le> inv_get (stock s (pl_id p)) r)" for r
    unfolding map_of_eq_Some_iff [OF c(2), symmetric] costEntry_def using nn [of r] by (auto split: option.split)
  have "canAfford (viewPlayer s ps p) cost \<longleftrightarrow>
      (\<forall>r \<in> {''gold'', ''wood'', ''iron'', ''food''}. costEntry cost r \<le> inv_get (stock s (pl_id p)) r)"
    by (simp add: canAfford_def viewPlayer_def Let_def stockOf_stock linorder_not_less)
  also have "\<dots> \<longleftrightarrow> (\<forall>(r, n) \<in> set cost. n \<le> inv_get (stock s (pl_id p)) r)" unfolding ent using c(1) by fastforce
  finally show ?thesis by (simp only: firstShort_None)
qed

lemma count_by_tile:
  assumes d: "distinct ts"
  shows "(\<forall>ip \<in> set xs. Q ip \<longrightarrow> (\<exists>t \<in> set ts. at_tile t ip)) \<Longrightarrow>
    (\<Sum>t \<leftarrow> ts. int (length (filter (\<lambda>ip. at_tile t ip \<and> Q ip) xs))) = int (length (filter Q xs))"
proof (induction xs)
  case (Cons ip xs)
  have one: "(\<Sum>t \<leftarrow> ts. if at_tile t ip \<and> Q ip then 1 else 0 :: int) = (if Q ip then 1 else 0)"
  proof (cases "Q ip")
    case True
    then obtain u where u: "u \<in> set ts" "pc_location (snd ip) = OnTile u" using Cons.prems by (auto simp: at_tile_def)
    have "(\<Sum>t \<leftarrow> ts. if at_tile t ip \<and> Q ip then 1 else 0 :: int) = (\<Sum>t \<in> set ts. if t = u then 1 else 0)"
      unfolding sum_list_distinct_conv_sum_set [OF d] by (rule sum.cong) (use True u in \<open>auto simp: at_tile_def\<close>)
    with u True show ?thesis by simp
  qed simp
  have "(\<Sum>t \<leftarrow> ts. int (length (filter (\<lambda>ip. at_tile t ip \<and> Q ip) (ip # xs)))) =
      (\<Sum>t \<leftarrow> ts. (if at_tile t ip \<and> Q ip then 1 else 0) + int (length (filter (\<lambda>ip. at_tile t ip \<and> Q ip) xs)))"
    by (rule arg_cong [where f = sum_list], rule map_cong) simp_all
  with one Cons show ?case by (simp add: sum_list_addf)
qed simp

text \<open>Every owned tile lies on the board: then the panel counts all the nobles of the player.\<close>

definition owned_on_map :: "kstate \<Rightarrow> bool" where
  "owned_on_map s \<longleftrightarrow> (\<forall>t w. jget (getOwnership s) t = Some w \<longrightarrow> tileById (gs_map s) t \<noteq> None)"

lemma myNobleCount_exact:
  assumes ok': "kingdoms_ok s" and on: "owned_on_map s"
  shows "myNobleCount (buildKingdomsView s ps vic) w = countPlayerPiecesOfKind s w ''noble''"
proof -
  let ?ts = "jvals (gm_tiles (gs_map s))" and ?Q = "\<lambda>ip. pc_kind (snd ip) = ''noble'' \<and> pc_owner (snd ip) = w"
  have wf: "wf_map (gs_map s)" and b: "board_ok (getOwnership s) (gs_pieces s)" using ok' by (simp_all add: kingdoms_ok_def)
  have d: "distinct (jkeys (gs_pieces s))" using b by (simp add: board_ok_def)
  have dt: "distinct (map tile_id ?ts)"
    using view_tiles_distinct [OF ok', of ps vic] unfolding tiles_distinct_def buildKingdomsView_def
    by (simp only: kingdoms_view.simps map_map comp_def viewTile_sel)
  have "length (filter (\<lambda>p. kv_kind p = ''noble'' \<and> kv_owner p = w) (kt_pieces (viewTile s ps x))) =
      length (filter (\<lambda>ip. at_tile (tile_id x) ip \<and> ?Q ip) (gs_pieces s))" if "x \<in> set ?ts" for x
    unfolding tile_pieces [OF ok' that] filter_shown [OF b, where P = "\<lambda>p. kv_kind p = ''noble'' \<and> kv_owner p = w" and R = ?Q, simplified viewPiece_def Let_def tilepiece_view.simps snd_conv, OF refl]
    by simp
  then have "myNobleCount (buildKingdomsView s ps vic) w =
      (\<Sum>t \<leftarrow> map tile_id ?ts. int (length (filter (\<lambda>ip. at_tile t ip \<and> ?Q ip) (gs_pieces s))))"
    by (simp add: myNobleCount_def foldl_sum_int buildKingdomsView_def comp_def cong: map_cong)
  also have "\<dots> = int (length (filter ?Q (gs_pieces s)))"
  proof (rule count_by_tile [OF dt], intro ballI impI)
    fix ip assume ip: "ip \<in> set (gs_pieces s)"
    have "jget (gs_pieces s) (fst ip) = Some (snd ip)" using ip map_of_eq_Some_iff [OF d, of "fst ip" "snd ip"] by simp
    from board_okD [OF b this] obtain t where t: "pc_location (snd ip) = OnTile t" "jget (getOwnership s) t = Some (pc_owner (snd ip))"
      by (auto simp: piece_ok_def)
    then obtain x where "tileById (gs_map s) t = Some x" using on by (auto simp: owned_on_map_def)
    then have "x \<in> set ?ts" "tile_id x = t" using tileById_wf [OF wf] tileById_mem [OF wf, of x] by auto
    with t show "\<exists>t \<in> set (map tile_id ?ts). at_tile t ip" by (auto simp: at_tile_def)
  qed
  finally show ?thesis by (simp add: countPlayerPiecesOfKind_def case_prod_unfold conj_commute)
qed

lemma unit_price:
  assumes ok': "kingdoms_ok s" and on: "owned_on_map s" and w: "w \<noteq> []"
    and k: "jget (effectiveUnitCosts (buildKingdomsView s ps vic) (Some w)) k = Some cost" and d: "getPiece kingdomsPieces k = Some d"
  shows "k \<in> set UNIT_KINDS" "cost = recruitCost s w k d"
proof -
  have c: "jget (effectiveUnitCosts (buildKingdomsView s ps vic) (Some w)) k =
      (if k = ''noble'' then Some (nobleCost (countPlayerPiecesOfKind s w ''noble'')) else jget UNIT_COSTS k)"
    using w by (simp add: effectiveUnitCosts_def truthy_def myNobleCount_exact [OF ok' on] dynamicNobleCost_def nobleCost_def)
  then have cases: "k = ''noble'' \<or> k = ''spearman'' \<or> k = ''cannoneer''" using k by (auto simp: UNIT_COSTS_def split: if_splits)
  then show "k \<in> set UNIT_KINDS" by (auto simp: UNIT_KINDS_eq)
  have ent: "costOf d = cost" if "k \<noteq> ''noble''"
    using that cases k d unfolding c getPiece_kingdoms
    by (auto simp: UNIT_COSTS_def STRUCTURE_DEFS_def UNIT_DEFS_def structure_entry_def unit_entry_def costOf_def)
  show "cost = recruitCost s w k d"
    using k ent unfolding c by (auto simp: recruitCost_def)
qed

lemma structure_price:
  assumes "jget STRUCTURE_COSTS k = Some cost" "getPiece kingdomsPieces k = Some d"
  shows "k \<in> set BUILDABLE_STRUCTURES" "cost = costOf d"
proof -
  have cases: "k = ''farm'' \<or> k = ''city'' \<or> k = ''castle'' \<or> k = ''gate''" using assms(1) by (auto simp: STRUCTURE_COSTS_def split: if_splits)
  then show "k \<in> set BUILDABLE_STRUCTURES" by (auto simp: BUILDABLE_STRUCTURES_eq)
  show "cost = costOf d" using cases assms unfolding getPiece_kingdoms
    by (auto simp: STRUCTURE_COSTS_def STRUCTURE_DEFS_def UNIT_DEFS_def structure_entry_def unit_entry_def costOf_def)
qed

lemma price_resources:
  assumes "getPiece kingdomsPieces k = Some d"
  shows "set (map fst (recruitCost s w k' d)) \<subseteq> {''gold'', ''wood'', ''iron'', ''food''} \<and> distinct (map fst (recruitCost s w k' d))"
    "set (map fst (costOf d)) \<subseteq> {''gold'', ''wood'', ''iron'', ''food''} \<and> distinct (map fst (costOf d))"
proof -
  show c: "set (map fst (costOf d)) \<subseteq> {''gold'', ''wood'', ''iron'', ''food''} \<and> distinct (map fst (costOf d))"
    using assms unfolding getPiece_kingdoms
    by (auto simp: STRUCTURE_DEFS_def UNIT_DEFS_def structure_entry_def unit_entry_def costOf_def split: if_splits)
  then show "set (map fst (recruitCost s w k' d)) \<subseteq> {''gold'', ''wood'', ''iron'', ''food''} \<and> distinct (map fst (recruitCost s w k' d))"
    by (simp add: recruitCost_def nobleCost_def)
qed

subsection \<open>The other commands\<close>

lemma viewPlayer_id [simp]: "kp_id (viewPlayer s ps p) = pl_id p"
  by (simp add: viewPlayer_def Let_def)

lemma me_shown:
  assumes "find (\<lambda>p. kp_id p = w) (kv_players (buildKingdomsView s ps vic)) = Some m"
  obtains p where "m = viewPlayer s ps p" "pl_id p = w"
proof -
  have "m \<in> set (kv_players (buildKingdomsView s ps vic))" "kp_id m = w" using find_SomeD [OF assms] by simp_all
  moreover have "kv_players (buildKingdomsView s ps vic) = map (viewPlayer s ps) ps" by (simp add: buildKingdomsView_def)
  ultimately obtain p where p: "m = viewPlayer s ps p" by auto
  with \<open>kp_id m = w\<close> show thesis by (intro that [OF p]) simp
qed

lemma connected_shown:
  assumes "kt_owner (viewTile s ps x) = Some w" "w \<noteq> []" "kt_incomePreview (viewTile s ps x) \<noteq> None"
  shows "isConnected (tile_id x) (connectedTiles s w)"
  using assms by (auto simp: tileIncomePreview_def connectedByPlayer_get truthy_def isConnected_def connectedTiles_def split: option.splits if_splits)

lemma structures_on_tile:
  assumes ok': "kingdoms_ok s" and x: "x \<in> set (jvals (gm_tiles (gs_map s)))" and p: "p \<in> set (kt_pieces (viewTile s ps x))" "kv_defenseMultiplier p \<noteq> None"
    and ks: "kv_kind p \<in> set ks" "set ks \<subseteq> set STRUCTURE_KINDS"
  shows "structureOnTile s (tile_id x) ks = Some (kv_id p, kv_kind p, kv_owner p)"
proof -
  have b: "board_ok (getOwnership s) (gs_pieces s)" using ok' by (simp add: kingdoms_ok_def)
  then have d: "distinct (jkeys (gs_pieces s))" by (simp add: board_ok_def)
  obtain q where q: "jget (gs_pieces s) (kv_id p) = Some q" "pc_location q = OnTile (tile_id x)" "kv_kind p = pc_kind q"
    "kv_owner p = pc_owner q" "pc_kind q \<in> set STRUCTURE_KINDS" using shown_piece [OF ok' x p(1)] p(2) by metis
  then have "structureOnTile s (tile_id x) ks \<noteq> None" using ks(1) unfolding structureOnTile_None by (auto dest!: jget_in_set)
  then obtain i k w where st: "structureOnTile s (tile_id x) ks = Some (i, k, w)" by auto
  from structureOnTile_Some [OF d this] obtain r where r: "jget (gs_pieces s) i = Some r" "pc_kind r = k" "pc_owner r = w" "k \<in> set ks" "pc_location r = OnTile (tile_id x)"
    by blast
  have "i = kv_id p" by (rule board_ok_unique [OF b r(1) q(1)]) (use r q ks in auto)
  with r q st show ?thesis by simp
qed

lemma no_structure_shown:
  assumes ok': "kingdoms_ok s" and x: "x \<in> set (jvals (gm_tiles (gs_map s)))"
    and none: "filter (\<lambda>p. kv_defenseMultiplier p \<noteq> None) (kt_pieces (viewTile s ps x)) = []"
  shows "structureOnTile s (tile_id x) STRUCTURE_KINDS = None"
proof (rule ccontr)
  have b: "board_ok (getOwnership s) (gs_pieces s)" using ok' by (simp add: kingdoms_ok_def)
  then have d: "distinct (jkeys (gs_pieces s))" by (simp add: board_ok_def)
  assume "\<not> ?thesis"
  then obtain i k w where st: "structureOnTile s (tile_id x) STRUCTURE_KINDS = Some (i, k, w)" by auto
  from structureOnTile_Some [OF d this] obtain r where r: "jget (gs_pieces s) i = Some r" "pc_kind r \<in> set STRUCTURE_KINDS" "pc_location r = OnTile (tile_id x)"
    by blast
  then have "viewPiece r \<in> set (kt_pieces (viewTile s ps x))"
    unfolding tile_pieces [OF ok' x] by (auto simp: at_tile_def image_iff intro!: bexI [of _ "(i, r)"] dest!: jget_in_set)
  moreover have "kv_defenseMultiplier (viewPiece r) \<noteq> None" using viewPiece_unit(2) [of r] r(2) by simp
  ultimately show False using none by (simp add: filter_empty_conv)
qed

text \<open>The selected tile of an idle page on which a button of the player is offered.\<close>

lemma idle_tile:
  assumes ok': "kingdoms_ok s" and v: "v = buildKingdomsView s ps vic" and off: "idleOffered v (Some w) (selectedTile v pg) src c"
    and c: "c \<in> {Recruit k, Build k, Demolish k, Develop}"
  obtains x where "x \<in> set (jvals (gm_tiles (gs_map s)))" "selectedTile v pg = Some (viewTile s ps x)" "pg_selectedTileId pg = Some (tile_id x)"
    "tileById (gs_map s) (tile_id x) = Some x" "tile_id x \<noteq> []" "jget (getOwnership s) (tile_id x) = Some w" "isMyTurn v (Some w)" "w \<noteq> []"
proof -
  obtain t where t: "selectedTile v pg = Some t" "isMyTurn v (Some w)" "kt_owner t = Some w"
    using off c by (auto simp: idleOffered_def Let_def split: option.splits)
  have m: "t \<in> set (kv_tiles v)" "pg_selectedTileId pg = Some (kt_id t)" using tileOf_Some t(1) by (auto simp: selectedTile_def)
  have w: "w \<noteq> []" using isMyTurn_user [OF t(2)] by (auto simp: truthy_def)
  show thesis by (rule shown_tile [OF ok' m(1) [unfolded v]]) (use t m w in \<open>auto intro!: that\<close>)
qed

lemma sendForSelected_cmd:
  assumes "pg_selectedTileId pg = Some t" "t \<noteq> []" "cmd \<in> set (snd (sendForSelected ty fill pg))"
  shows "cmd = (ty, fill (noPayload\<lparr>kp_tileId := t\<rparr>))"
  using assms by (simp add: sendForSelected_def truthy_def)

lemma recruit_verdict:
  assumes ok': "kingdoms_ok s" and alive: "\<not> isEliminated (gs_players s) w" and on: "owned_on_map s" and v: "v = buildKingdomsView s ps vic"
    and off: "offered v (Some w) pg (Recruit k)" and cmd: "cmd \<in> set (snd (handleRecruit k pg))"
  shows "fst cmd = ''recruit-unit'' \<and> (verdict s (Some w) cmd = accept \<or>
    (\<exists>r \<in> set [''disconnected'', ''unit-limit'', ''insufficient-food-upkeep'']. verdict s (Some w) cmd = reject r))"
proof -
  note idle = offered_idle(4) [OF off]
  obtain x where x: "x \<in> set (jvals (gm_tiles (gs_map s)))" "selectedTile v pg = Some (viewTile s ps x)" "pg_selectedTileId pg = Some (tile_id x)"
    "tile_id x \<noteq> []" "jget (getOwnership s) (tile_id x) = Some w" "isMyTurn v (Some w)" "w \<noteq> []"
    by (rule idle_tile [OF ok' v idle, of k]) auto
  have tw: "truthy (Some w) = Some w" using x(7) by (simp add: truthy_def)
  obtain m cost p where m: "find (\<lambda>p. kp_id p = w) (kv_players v) = Some m" "jget (effectiveUnitCosts v (Some w)) k = Some cost" "canAfford m cost"
    and p: "p \<in> set (kt_pieces (viewTile s ps x))" "kv_defenseMultiplier p \<noteq> None" "kv_kind p \<in> set UI_RECRUIT_STRUCTURES"
    using idle by (auto simp: idleOffered_def x(2) tw Let_def list_ex_iff simp del: viewTile_sel split: option.splits)
  obtain q where q: "m = viewPlayer s ps q" "pl_id q = w" by (rule me_shown [OF m(1) [unfolded v]])
  have sub: "UI_RECRUIT_STRUCTURES = RECRUIT_STRUCTURES" "set RECRUIT_STRUCTURES \<subseteq> set STRUCTURE_KINDS"
    by (auto simp: UI_RECRUIT_STRUCTURES_def RECRUIT_STRUCTURES_def STRUCTURE_KINDS_eq)
  have st: "structureOnTile s (tile_id x) RECRUIT_STRUCTURES \<noteq> None" using structures_on_tile [OF ok' x(1) p [unfolded sub(1)] sub(2)] by simp
  have gd: "getPiece kingdomsPieces k = Some d \<Longrightarrow> k \<in> set UNIT_KINDS \<and> cost = recruitCost s w k d" for d
    using unit_price [OF ok' on x(7) m(2) [unfolded v]] by blast
  have "k = ''noble'' \<or> k = ''spearman'' \<or> k = ''cannoneer''"
    using m(2) by (auto simp: effectiveUnitCosts_def UNIT_COSTS_def split: if_splits)
  then have ku: "k \<in> set UNIT_KINDS" by (auto simp: UNIT_KINDS_eq)
  then obtain d where d: "requirePiece kingdomsPieces k = Inr d" "getPiece kingdomsPieces k = Some d" using requirePiece_known by blast
  have inv: "invs_ok s" using ok' by (simp add: kingdoms_ok_def)
  have fs: "firstShort (recruitCost s w k d) (stock s w) = None"
    using m(3) canAfford_firstShort [OF inv, of "recruitCost s w k d" ps q] price_resources(1) [OF d(2), of s w k] gd [OF d(2)] q by simp
  have g: "guardActivePlayer s (Some w) = None" by (rule guard_shown [OF x(6) [unfolded v] alive])
  have c: "cmd = (''recruit-unit'', noPayload\<lparr>kp_tileId := tile_id x, kp_unitKind := k\<rparr>)"
    using sendForSelected_cmd [OF x(3,4)] cmd unfolding handleRecruit_def by simp
  show ?thesis unfolding c verdict_cases recruitUnitValidator_def
    using ku x(5) st d(1) fs by (auto simp: g actor_def Let_def)
qed

lemma build_verdict:
  assumes ok': "kingdoms_ok s" and alive: "\<not> isEliminated (gs_players s) w" and v: "v = buildKingdomsView s ps vic"
    and off: "offered v (Some w) pg (Build k)" and cmd: "cmd \<in> set (snd (handleBuild k pg))"
  shows "fst cmd = ''build-structure'' \<and> (verdict s (Some w) cmd = accept \<or> verdict s (Some w) cmd = reject ''structure-limit'')"
proof -
  note idle = offered_idle(5) [OF off]
  obtain x where x: "x \<in> set (jvals (gm_tiles (gs_map s)))" "selectedTile v pg = Some (viewTile s ps x)" "pg_selectedTileId pg = Some (tile_id x)"
    "tile_id x \<noteq> []" "jget (getOwnership s) (tile_id x) = Some w" "isMyTurn v (Some w)" "w \<noteq> []"
    by (rule idle_tile [OF ok' v idle, of k]) auto
  have tw: "truthy (Some w) = Some w" using x(7) by (simp add: truthy_def)
  obtain m cost where m: "find (\<lambda>p. kp_id p = w) (kv_players v) = Some m" "jget STRUCTURE_COSTS k = Some cost" "canAfford m cost"
    and i: "kt_incomePreview (viewTile s ps x) \<noteq> None" "filter (\<lambda>p. kv_defenseMultiplier p \<noteq> None) (kt_pieces (viewTile s ps x)) = []"
    using idle by (auto simp: idleOffered_def x(2) tw Let_def simp del: viewTile_sel split: option.splits)
  obtain q where q: "m = viewPlayer s ps q" "pl_id q = w" by (rule me_shown [OF m(1) [unfolded v]])
  have con: "isConnected (tile_id x) (connectedTiles s w)" by (rule connected_shown [OF _ x(7) i(1)]) (simp add: x(5))
  have st: "structureOnTile s (tile_id x) STRUCTURE_KINDS = None" by (rule no_structure_shown [OF ok' x(1) i(2)])
  have "k \<in> {''farm'', ''city'', ''castle'', ''gate''}" using m(2) by (auto simp: STRUCTURE_COSTS_def split: if_splits)
  then have kb: "k \<in> set BUILDABLE_STRUCTURES" "k \<in> set STRUCTURE_KINDS" by (auto simp: BUILDABLE_STRUCTURES_eq STRUCTURE_KINDS_eq)
  then obtain d where d: "requirePiece kingdomsPieces k = Inr d" "getPiece kingdomsPieces k = Some d" using requirePiece_known by blast
  have inv: "invs_ok s" using ok' by (simp add: kingdoms_ok_def)
  have fs: "firstShort (costOf d) (stock s w) = None"
    using m(3) canAfford_firstShort [OF inv, of "costOf d" ps q] price_resources(2) [OF d(2)] structure_price(2) [OF m(2) d(2)] q by simp
  have g: "guardActivePlayer s (Some w) = None" by (rule guard_shown [OF x(6) [unfolded v] alive])
  have c: "cmd = (''build-structure'', noPayload\<lparr>kp_tileId := tile_id x, kp_structureKind := k\<rparr>)"
    using sendForSelected_cmd [OF x(3,4)] cmd unfolding handleBuild_def by simp
  show ?thesis unfolding c verdict_cases buildStructureValidator_def
    using kb(1) x(5) con st d(1) fs by (auto simp: g actor_def Let_def)
qed

lemma demolish_verdict:
  assumes ok': "kingdoms_ok s" and alive: "\<not> isEliminated (gs_players s) w" and v: "v = buildKingdomsView s ps vic"
    and off: "offered v (Some w) pg (Demolish k)" and cmd: "cmd \<in> set (snd (handleDemolish k pg))"
  shows "fst cmd = ''demolish-structure'' \<and> verdict s (Some w) cmd = accept"
proof -
  note idle = offered_idle(6) [OF off]
  obtain x where x: "x \<in> set (jvals (gm_tiles (gs_map s)))" "selectedTile v pg = Some (viewTile s ps x)" "pg_selectedTileId pg = Some (tile_id x)"
    "tile_id x \<noteq> []" "jget (getOwnership s) (tile_id x) = Some w" "isMyTurn v (Some w)"
    by (rule idle_tile [OF ok' v idle, of k]) auto
  obtain p where p: "p \<in> set (kt_pieces (viewTile s ps x))" "kv_defenseMultiplier p \<noteq> None" "kv_kind p \<noteq> ''capital-base''"
    using idle by (auto simp: idleOffered_def x(2) Let_def simp del: viewTile_sel)
  obtain q :: piece where q: "kv_kind p = pc_kind q" "kv_owner p = pc_owner q" "jget (getOwnership s) (tile_id x) = Some (pc_owner q)"
    "kv_defenseMultiplier p \<noteq> None \<longleftrightarrow> pc_kind q \<in> set STRUCTURE_KINDS"
    using shown_piece [OF ok' x(1) p(1)] by metis
  have st: "structureOnTile s (tile_id x) STRUCTURE_KINDS = Some (kv_id p, kv_kind p, kv_owner p)"
    by (rule structures_on_tile [OF ok' x(1) p(1,2)]) (use q p(2) in auto)
  have g: "guardActivePlayer s (Some w) = None" by (rule guard_shown [OF x(6) [unfolded v] alive])
  have c: "cmd = (''demolish-structure'', noPayload\<lparr>kp_tileId := tile_id x, kp_structureKind := k\<rparr>)"
    using sendForSelected_cmd [OF x(3,4)] cmd unfolding handleDemolish_def by simp
  show ?thesis unfolding c verdict_cases demolishStructureValidator_def
    using x(5) st p(3) q by (auto simp: g actor_def Let_def)
qed

lemma develop_verdict:
  assumes ok': "kingdoms_ok s" and alive: "\<not> isEliminated (gs_players s) w" and v: "v = buildKingdomsView s ps vic"
    and off: "offered v (Some w) pg Develop" and cmd: "cmd \<in> set (snd (handleDevelop pg))"
  shows "fst cmd = ''develop-tile'' \<and> (verdict s (Some w) cmd = accept \<or> verdict s (Some w) cmd = reject ''cannot-develop'')"
proof -
  note idle = offered_idle(7) [OF off]
  obtain x where x: "x \<in> set (jvals (gm_tiles (gs_map s)))" "selectedTile v pg = Some (viewTile s ps x)" "pg_selectedTileId pg = Some (tile_id x)"
    "tile_id x \<noteq> []" "jget (getOwnership s) (tile_id x) = Some w" "isMyTurn v (Some w)" "w \<noteq> []" "tileById (gs_map s) (tile_id x) = Some x"
    by (rule idle_tile [OF ok' v idle, of "[]"]) auto
  have tw: "truthy (Some w) = Some w" using x(7) by (simp add: truthy_def)
  obtain m where m: "find (\<lambda>p. kp_id p = w) (kv_players v) = Some m" "kp_gold m \<ge> UI_DEVELOP_COST"
    and i: "kt_incomePreview (viewTile s ps x) \<noteq> None" "\<not> kt_developed (viewTile s ps x)"
    using idle by (auto simp: idleOffered_def x(2) tw Let_def simp del: viewTile_sel split: option.splits)
  obtain q where q: "m = viewPlayer s ps q" "pl_id q = w" by (rule me_shown [OF m(1) [unfolded v]])
  have gold: "\<not> inv_get (stock s w) ''gold'' < DEVELOP_COST"
    using m(2) q by (simp add: viewPlayer_def Let_def stockOf_stock UI_DEVELOP_COST_def DEVELOP_COST_def)
  have con: "isConnected (tile_id x) (connectedTiles s w)" by (rule connected_shown [OF _ x(7) i(1)]) (simp add: x(5))
  have g: "guardActivePlayer s (Some w) = None" by (rule guard_shown [OF x(6) [unfolded v] alive])
  have c: "cmd = (''develop-tile'', noPayload\<lparr>kp_tileId := tile_id x\<rparr>)"
    using sendForSelected_cmd [OF x(3,4), of cmd "''develop-tile''" id] cmd unfolding handleDevelop_def by simp
  show ?thesis unfolding c verdict_cases developTileValidator_def
    using x(5,8) con i(2) gold by (auto simp: g actor_def Let_def)
qed

lemma send_verdict:
  assumes ok': "kingdoms_ok s" and alive: "\<not> isEliminated (gs_players s) w" and v: "v = buildKingdomsView s ps vic"
    and st: "send_staged v (Some w) pg" and cmd: "cmd \<in> set (snd (handleConfirmSend v (Some w) pg))"
  shows "fst cmd = ''move-unit'' \<and> (verdict s (Some w) cmd = accept \<or>
    (\<exists>r \<in> set [''disconnected'', ''already-moved'']. verdict s (Some w) cmd = reject r))"
proof -
  obtain ff t i n where ft: "truthy (pg_sendFromTileId pg) = Some ff" "truthy (pg_sendToTileId pg) = Some t"
    and e: "(i, n) \<in> set (pg_sendCounts pg)" "n > 0" and c: "cmd = (''move-unit'', noPayload\<lparr>kp_pieceId := i, kp_targetTileId := t\<rparr>)"
    using cmd by (auto simp: handleConfirmSend_def split: option.splits if_splits)
  have ids: "pg_sendFromTileId pg = Some ff" "pg_sendToTileId pg = Some t"
    using ft by (auto simp: truthy_def split: option.splits if_splits)
  obtain f where f: "tileOf v (Some ff) = Some f" "kt_owner f = Some w" "isMyTurn v (Some w)" "i \<in> own_fighters (Some w) f"
    using st e unfolding send_staged_def own_source_def ids by blast
  obtain g where to: "tileOf v (Some t) = Some g" "kt_owner g = Some w" "ff \<noteq> t"
    using st unfolding send_staged_def own_source_def ids by blast
  have fm: "f \<in> set (kv_tiles v)" "ff = kt_id f" and gm: "g \<in> set (kv_tiles v)" "t = kt_id g"
    using tileOf_Some [OF f(1)] tileOf_Some [OF to(1)] by simp_all
  obtain x where x: "x \<in> set (jvals (gm_tiles (gs_map s)))" "f = viewTile s ps x" "kt_id f = tile_id x" using shown_tile [OF ok' fm(1) [unfolded v]] by metis
  have own: "jget (getOwnership s) t = Some w" using shown_tile [OF ok' gm(1) [unfolded v]] to(2) gm(2) by metis
  have d: "distinct (jkeys (gs_pieces s))" using ok' by (simp add: kingdoms_ok_def board_ok_def)
  have "i \<in> set (unitsOnTile s (tile_id x) (Some w) (Some UNIT_KINDS))" by (rule own_fighters_units [OF ok' x(1) f(4) [unfolded x(2)]])
  then obtain p where p: "jget (gs_pieces s) i = Some p" "pc_kind p \<in> set UNIT_KINDS" "pc_location p = OnTile ff" "pc_owner p = w"
    unfolding fm(2) x(3) by (auto simp: unitsOnTile_mem [OF d])
  have gd: "guardActivePlayer s (Some w) = None" by (rule guard_shown [OF f(3) [unfolded v] alive])
  show ?thesis unfolding c verdict_cases moveUnitValidator_def
    using p own to(3) by (auto simp: gd actor_def Let_def locTile_def noPayload_def)
qed

text \<open>What the panel does not check before it offers a command.\<close>

definition leftUnchecked :: "string \<Rightarrow> string list" where
  "leftUnchecked ty =
     (if ty = ''attack-tile'' then [''disconnected'']
      else if ty = ''move-unit'' then [''disconnected'', ''already-moved'']
      else if ty = ''recruit-unit'' then [''disconnected'', ''unit-limit'', ''insufficient-food-upkeep'']
      else if ty = ''build-structure'' then [''structure-limit'']
      else if ty = ''develop-tile'' then [''cannot-develop'']
      else [])"

text \<open> C5: Whatever a player clicks on a board that is up to date, the buttons offered send only commands the server
  accepts, except for the checks the panel leaves out: of the many reasons for a rejection a player meets a cut off
  tile, a limit of pieces, a unit that has moved, food upkeep and a tile that yields nothing to develop,
  and none at all when a structure is demolished or the turn ends. \<close>
theorem offered_commands_fit:
  assumes ok': "kingdoms_ok s" and alive: "\<not> isEliminated (gs_players s) w" and on: "owned_on_map s"
    and v: "v = buildKingdomsView s ps vic" and r: "page_reachable v (Some w) pg" and off: "offered v (Some w) pg c"
    and cmd: "cmd \<in> set (snd (perform v (Some w) c pg))"
  shows "verdict s (Some w) cmd = accept \<or> (\<exists>r \<in> set (leftUnchecked (fst cmd)). verdict s (Some w) cmd = reject r)"
proof -
  have inv: "page_inv v (Some w) pg" by (rule page_inv_reachable [OF _ r]) (simp add: v view_tiles_distinct [OF ok'])
  show ?thesis
  proof (cases c)
    case EndTurnClick
    then have "isMyTurn v (Some w)" "cmd = (''end-turn'', noPayload)" using off cmd by (auto simp: offered_def perform_def handleEndTurn_def)
    then show ?thesis using guard_shown [OF _ alive] v by (simp add: verdict_cases endTurnValidator_def)
  next
    case ConfirmAttack
    note off' = off [unfolded ConfirmAttack]
    have "attack_staged v (Some w) pg" using inv offered_attack(1) [OF off'] by (simp add: page_inv_def)
    from attack_verdict [OF ok' alive v this off'] cmd show ?thesis by (auto simp: ConfirmAttack perform_def leftUnchecked_def)
  next
    case ConfirmSend
    have "send_staged v (Some w) pg" using inv offered_select(3) off by (simp add: page_inv_def ConfirmSend)
    from send_verdict [OF ok' alive v this] cmd show ?thesis by (auto simp: ConfirmSend perform_def leftUnchecked_def)
  next
    case (Recruit k)
    from recruit_verdict [OF ok' alive on v off [unfolded Recruit]] cmd show ?thesis by (auto simp: Recruit perform_def leftUnchecked_def)
  next
    case (Build k)
    from build_verdict [OF ok' alive v off [unfolded Build]] cmd show ?thesis by (auto simp: Build perform_def leftUnchecked_def)
  next
    case (Demolish k)
    from demolish_verdict [OF ok' alive v off [unfolded Demolish]] cmd show ?thesis by (auto simp: Demolish perform_def)
  next
    case Develop
    from develop_verdict [OF ok' alive v off [unfolded Develop]] cmd show ?thesis by (auto simp: Develop perform_def leftUnchecked_def)
  qed (use cmd in \<open>simp_all add: perform_def\<close>)
qed

lemma exTiles:
  assumes "i \<in> {tileId (axial 0 0), tileId (axial 0 1), tileId (axial 1 0)}"
  shows "i \<in> tile_id ` set (jvals (gm_tiles exMap))" "tileById exMap i \<noteq> None"
  using assms by (auto simp: exMap_def mb_build_def mb_addTile_def newMapBuilder_def emptyMap_def gm_addTile_def build_tile_def tileById_def)

lemma exOwned_on_map: "owned_on_map exState"
  using exTiles(2) by (auto simp: owned_on_map_def exOwnership_def split: if_splits)

lemma exMe: "find (\<lambda>p. kp_id p = ''alice'') (kv_players (buildKingdomsView exState exRoster None)) = Some (viewPlayer exState exRoster (exPlayer ''alice'' 0))"
  by (simp add: buildKingdomsView_def exRoster_def) (simp add: exPlayer_def)

text \<open>A tile of the example as the page finds it.\<close>

lemma exTile_shown:
  assumes s: "gs_map s = exMap" and i: "i \<in> {tileId (axial 0 0), tileId (axial 0 1), tileId (axial 1 0)}" and ok': "kingdoms_ok s"
  obtains x where "x \<in> set (jvals (gm_tiles (gs_map s)))" "tile_id x = i" "tileOf (buildKingdomsView s exRoster None) (Some i) = Some (viewTile s exRoster x)"
proof -
  obtain x where x: "x \<in> set (jvals (gm_tiles (gs_map s)))" "tile_id x = i" using exTiles(1) [OF i] s by auto
  have "kv_tiles (buildKingdomsView s exRoster None) = map (viewTile s exRoster) (jvals (gm_tiles (gs_map s)))"
    by (simp add: buildKingdomsView_def)
  then have "viewTile s exRoster x \<in> set (kv_tiles (buildKingdomsView s exRoster None))" using x(1) by (simp only: set_map imageI)
  from tileOf_tile [OF view_tiles_distinct [OF ok'] this] x show thesis by (intro that) simp_all
qed

lemma offered_commands_fit_witness:
  "\<exists>pg cmd. page_reachable (buildKingdomsView exState exRoster None) (Some ''alice'') pg \<and>
    offered (buildKingdomsView exState exRoster None) (Some ''alice'') pg Develop \<and>
    cmd \<in> set (snd (perform (buildKingdomsView exState exRoster None) (Some ''alice'') Develop pg)) \<and>
    (verdict exState (Some ''alice'') cmd = accept \<or> (\<exists>r \<in> set (leftUnchecked (fst cmd)). verdict exState (Some ''alice'') cmd = reject r))"
proof -
  let ?v = "buildKingdomsView exState exRoster None" and ?i = "tileId (axial 0 0)"
  let ?pg = "\<lparr>pg_selectedTileId = Some ?i, pg_mode = ModeIdle, pg_attackingFromTileId = None, pg_attackToTileId = None,
     pg_attackUnitIds = [], pg_sendFromTileId = None, pg_sendToTileId = None, pg_sendCounts = [], pg_errorToast = None\<rparr>"
  have r: "page_reachable ?v (Some ''alice'') ?pg" by (rule page_reachable.idle) simp
  obtain x where x: "x \<in> set (jvals (gm_tiles exMap))" "tile_id x = ?i" "tileOf ?v (Some ?i) = Some (viewTile exState exRoster x)"
    by (rule exTile_shown [of exState ?i]) (simp_all add: exState_ok)
  have alive: "\<not> isEliminated (gs_players exState) ''alice''" using exEliminated by simp
  have turn: "isMyTurn ?v (Some ''alice'')" by (simp add: isMyTurn_def truthy_def buildKingdomsView_def exRounds_def)
  have con: "?i \<in> set (playerConnectedTiles exMap exState ''alice'')"
    using exConnected by (simp add: isConnected_def connectedTiles_def)
  have "''alice'' \<in> pl_id ` set exRoster" by (simp add: exRoster_def exPlayer_def)
  with alive con have inc: "kt_incomePreview (viewTile exState exRoster x) \<noteq> None"
    by (simp add: tileIncomePreview_def x(2) truthy_def connectedByPlayer_get)
  have gold: "UI_DEVELOP_COST \<le> kp_gold (viewPlayer exState exRoster (exPlayer ''alice'' 0))"
    by (simp add: UI_DEVELOP_COST_def viewPlayer_def Let_def stockOf_def) (simp add: exPlayer_def exBag_def inv_get_def)
  have off: "offered ?v (Some ''alice'') ?pg Develop"
    using turn inc gold x(2,3) by (simp add: offered_def idleOffered_def selectedTile_def Let_def truthy_def exMe)
  have cmd: "(''develop-tile'', noPayload\<lparr>kp_tileId := ?i\<rparr>) \<in> set (snd (perform ?v (Some ''alice'') Develop ?pg))"
    by (simp add: perform_def handleDevelop_def sendForSelected_def truthy_def tileId_nonempty)
  show ?thesis
    using offered_commands_fit [OF exState_ok alive exOwned_on_map refl r off cmd] r off cmd by blast
qed

text \<open> C20: The + button of the troops panel picks units that have already moved: it stages the first unit of the
  kind on the tile, moved or not, the counter the player sees, which leaves moved units out, does not change,
  and once the troops are sent the server rejects the command for that unit. \<close>
theorem send_stages_moved_unit:
  assumes ok': "kingdoms_ok s" and alive: "\<not> isEliminated (gs_players s) w" and v: "v = buildKingdomsView s ps vic"
    and r: "page_reachable v (Some w) pg" and off: "offered v (Some w) pg (SendUnits k 1)"
    and f: "tileOf v (pg_sendFromTileId pg) = Some f" and us: "unitsOfKind (Some w) k f = a # rest"
    and moved: "a \<in> set (getMovedThisTurn s)" and free: "\<not> staged (pg_sendCounts pg) a"
    and pg': "pg' = fst (perform v (Some w) (SendUnits k 1) pg)"
  shows "(\<forall>p \<in> set (movableUnits v (Some w) f). staged (pg_sendCounts pg') (kv_id p) = staged (pg_sendCounts pg) (kv_id p)) \<and>
    (\<exists>cmd \<in> set (snd (perform v (Some w) ConfirmSend pg')). fst cmd = ''move-unit'' \<and> kp_pieceId (snd cmd) = a \<and>
       verdict s (Some w) cmd = reject ''already-moved'')"
proof -
  have m: "pg_mode pg = ModeSendTroops" by (rule offered_select(2) [OF off])
  have st: "send_staged v (Some w) pg"
    using page_inv_reachable [OF _ r] m view_tiles_distinct [OF ok'] by (simp add: page_inv_def v)
  obtain g where to: "tileOf v (pg_sendToTileId pg) = Some g"
    using off m f by (auto simp: offered_def split: option.splits)
  have gm: "g \<in> set (kv_tiles v)" "pg_sendToTileId pg = Some (kt_id g)" using tileOf_Some [OF to] by simp_all
  have fm: "f \<in> set (kv_tiles v)" "pg_sendFromTileId pg = Some (kt_id f)" using tileOf_Some [OF f] by simp_all
  have ne: "kt_id f \<noteq> []" "kt_id g \<noteq> []" using shown_tile [OF ok'] fm(1) gm(1) v by metis+
  have counts: "pg_sendCounts pg' = jput a 1 (pg_sendCounts pg)" "pg_sendFromTileId pg' = Some (kt_id f)" "pg_sendToTileId pg' = Some (kt_id g)"
    using f us free fm(2) gm(2) by (simp_all add: pg' perform_def handleSendUnitCountChange_def Let_def)
  have other: "kv_id p \<noteq> a" if "p \<in> set (movableUnits v (Some w) f)" for p
    using that moved by (auto simp: movableUnits_def v buildKingdomsView_def)
  let ?cmd = "(''move-unit'', noPayload\<lparr>kp_pieceId := a, kp_targetTileId := kt_id g\<rparr>)"
  have "(a, 1) \<in> set (jput a 1 (pg_sendCounts pg))" by (rule jget_in_set) simp
  then have cmd: "?cmd \<in> set (snd (perform v (Some w) ConfirmSend pg'))"
    using ne by (force simp: perform_def handleConfirmSend_def counts truthy_def)
  obtain x where x: "x \<in> set (jvals (gm_tiles (gs_map s)))" "f = viewTile s ps x" using shown_tile [OF ok' fm(1) [unfolded v]] by metis
  have "a \<in> own_fighters (Some w) f" using unitsOfKind_own [of a "Some w" k f] us by simp
  from own_fighters_units [OF ok' x(1) this [unfolded x(2)]]
  obtain q where q: "jget (gs_pieces s) a = Some q" "pc_kind q \<in> set UNIT_KINDS" "pc_owner q = w"
    using ok' by (auto simp: unitsOnTile_mem kingdoms_ok_def board_ok_def)
  have "isMyTurn v (Some w)" using st by (simp add: send_staged_def own_source_def)
  then have gd: "guardActivePlayer s (Some w) = None" using guard_shown alive v by blast
  have "verdict s (Some w) ?cmd = reject ''already-moved''"
    unfolding verdict_cases moveUnitValidator_def using q moved by (simp add: gd actor_def Let_def noPayload_def)
  with cmd other show ?thesis by (auto simp: counts staged_def intro!: bexI [OF _ cmd])
qed

text \<open>A second spearman is recruited beside one that has moved.\<close>

definition exMoved :: kstate where
  "exMoved = set_extras (kx_movedThisTurn_update (\<lambda>_. Some [''sp-alice-1'']))
     (place_piece (makeUnitFromRegistry kingdomsPieces (fst (nextId exState)) ''spearman'' ''alice'' (tileId (axial 0 0)) None None) (snd (nextId exState)))"

lemma exMoved_ok: "kingdoms_ok exMoved"
proof -
  have "kingdoms_ok (place_piece (makeUnitFromRegistry kingdomsPieces (fst (nextId exState)) ''spearman'' ''alice'' (tileId (axial 0 0)) None None) (snd (nextId exState)))"
    by (rule place_new [OF exState_ok]) (simp_all add: exPiece_kinds exPiece_kinds_not)
  then show ?thesis unfolding exMoved_def by (rule kingdoms_ok_extras) simp_all
qed

lemma exMoved_sel:
  "gs_map exMoved = exMap" "getOwnership exMoved = exOwnership" "getMovedThisTurn exMoved = [''sp-alice-1'']"
  "gs_players exMoved = newPlayerManager exRoster" "gs_rounds exMoved = exRounds"
  "gs_pieces exMoved = exPieces @ [exPiece (fst (nextId exState)) ''spearman'' ''alice'' (axial 0 0)]"
  by (simp_all add: exMoved_def place_piece_def nextId_def Let_def extras_defs exPieces_eq exPiece_def exState_def)

lemma send_stages_moved_unit_witness:
  "\<exists>pg. page_reachable (buildKingdomsView exMoved exRoster None) (Some ''alice'') pg \<and>
    offered (buildKingdomsView exMoved exRoster None) (Some ''alice'') pg (SendUnits ''spearman'' 1) \<and>
    (\<exists>cmd \<in> set (snd (perform (buildKingdomsView exMoved exRoster None) (Some ''alice'') ConfirmSend
        (fst (perform (buildKingdomsView exMoved exRoster None) (Some ''alice'') (SendUnits ''spearman'' 1) pg)))).
       kp_pieceId (snd cmd) = ''sp-alice-1'' \<and> verdict exMoved (Some ''alice'') cmd = reject ''already-moved'')"
proof -
  let ?v = "buildKingdomsView exMoved exRoster None" and ?i = "tileId (axial 0 0)" and ?j = "tileId (axial 0 1)" and ?n = "fst (nextId exState)"
  let ?pg0 = "\<lparr>pg_selectedTileId = Some ?i, pg_mode = ModeIdle, pg_attackingFromTileId = None, pg_attackToTileId = None,
     pg_attackUnitIds = [], pg_sendFromTileId = None, pg_sendToTileId = None, pg_sendCounts = [], pg_errorToast = None\<rparr>"
  let ?pg1 = "fst (perform ?v (Some ''alice'') (StartSend ?i) ?pg0)"
  let ?pg2 = "fst (perform ?v (Some ''alice'') (TileClick ?j) ?pg1)"
  obtain x where x: "x \<in> set (jvals (gm_tiles (gs_map exMoved)))" "tile_id x = ?i" "tileOf ?v (Some ?i) = Some (viewTile exMoved exRoster x)"
    by (rule exTile_shown [of exMoved ?i]) (simp_all add: exMoved_ok exMoved_sel)
  obtain y where y: "tile_id y = ?j" "tileOf ?v (Some ?j) = Some (viewTile exMoved exRoster y)"
    by (rule exTile_shown [of exMoved ?j]) (simp_all add: exMoved_ok exMoved_sel)
  have id: "?n \<noteq> ''sp-alice-1''" by (simp add: nextId_def Let_def)
  have kinds: "jget UNIT_STATS k = None \<longleftrightarrow> k \<notin> set UNIT_KINDS" for k
    by (auto simp: UNIT_STATS_def UNIT_DEFS_def UNIT_KINDS_eq)
  have at: "kv_attack (viewPiece p) = None \<longleftrightarrow> pc_kind p \<notin> set UNIT_KINDS" for p
    using kinds by (simp add: viewPiece_def Let_def)
  have vp: "kv_id (viewPiece p) = pc_id p" "kv_kind (viewPiece p) = pc_kind p" "kv_owner (viewPiece p) = pc_owner p" for p
    by (simp_all add: viewPiece_def Let_def)
  have pcs: "kt_pieces (viewTile exMoved exRoster x) = map viewPiece [snd (exPiece ''capital-alice'' ''capital-base'' ''alice'' (axial 0 0)),
      snd (exPiece ''sp-alice-1'' ''spearman'' ''alice'' (axial 0 0)), snd (exPiece ''noble-alice-0'' ''noble'' ''alice'' (axial 0 0)),
      snd (exPiece ?n ''spearman'' ''alice'' (axial 0 0))]"
    unfolding tile_pieces [OF exMoved_ok x(1)] by (simp add: exMoved_sel exPieces_eq at_tile_def x(2) axial_eq_iff)
  have us: "unitsOfKind (Some ''alice'') ''spearman'' (viewTile exMoved exRoster x) = [''sp-alice-1'', ?n]"
    unfolding unitsOfKind_def pcs by (simp add: at vp UNIT_KINDS_eq del: not_None_eq)
  have mv: "movableUnits ?v (Some ''alice'') (viewTile exMoved exRoster x) = map viewPiece [snd (exPiece ''noble-alice-0'' ''noble'' ''alice'' (axial 0 0)),
      snd (exPiece ?n ''spearman'' ''alice'' (axial 0 0))]"
    unfolding movableUnits_def pcs using id by (simp add: at vp UNIT_KINDS_eq buildKingdomsView_def exMoved_sel del: not_None_eq)
  have turn: "isMyTurn ?v (Some ''alice'')" by (simp add: isMyTurn_def truthy_def buildKingdomsView_def exMoved_sel exRounds_def)
  have r0: "page_reachable ?v (Some ''alice'') ?pg0" by (rule page_reachable.idle) simp
  have "offered ?v (Some ''alice'') ?pg0 (StartSend ?i)"
    using turn x(2,3) mv by (simp add: offered_def idleOffered_def selectedTile_def Let_def truthy_def exMoved_sel del: viewTile_sel(4))
  then have r1: "page_reachable ?v (Some ''alice'') ?pg1" by (rule page_reachable.click [OF r0])
  have "?j \<in> kt_id ` set (kv_tiles ?v)" using tileOf_Some [OF y(2)] by (metis image_eqI option.inject)
  then have "offered ?v (Some ''alice'') ?pg1 (TileClick ?j)" by (simp add: offered_def)
  then have r2: "page_reachable ?v (Some ''alice'') ?pg2" by (rule page_reachable.click [OF r1])
  have p2: "pg_mode ?pg2 = ModeSendTroops" "pg_sendFromTileId ?pg2 = Some ?i" "pg_sendToTileId ?pg2 = Some ?j"
    using y by (auto simp: perform_def handleStartSendTroops_def handleTileClick_def truthy_def tileId_nonempty exMoved_sel axial_eq_iff Let_def)
  have p3: "\<exists>ps :: tilepiece_view list. pg_sendCounts ?pg2 = fold (\<lambda>p. jput (kv_id p) 0) ps []"
    using y by (simp add: perform_def handleStartSendTroops_def handleTileClick_def truthy_def tileId_nonempty exMoved_sel axial_eq_iff Let_def)
      (rule exI, rule refl)
  have none: "\<not> staged (pg_sendCounts ?pg2) i" for i
  proof -
    obtain ps :: "tilepiece_view list" where "pg_sendCounts ?pg2 = fold (\<lambda>p. jput (kv_id p) 0) ps []" using p3 by blast
    then have "(i, n) \<in> set (pg_sendCounts ?pg2) \<Longrightarrow> n = 0" for n using zero_counts [of i n ps "[]"] by simp
    then show ?thesis by (auto simp: staged_def dest!: jget_in_set split: option.split)
  qed
  have "stepperOffered (movableUnits ?v (Some ''alice'') (viewTile exMoved exRoster x)) (staged (pg_sendCounts ?pg2)) ''spearman'' 1"
    unfolding mv stepperOffered_def Let_def by (simp add: vp none)
  then have off: "offered ?v (Some ''alice'') ?pg2 (SendUnits ''spearman'' 1)"
    by (simp add: offered_def p2(1-3) x(3) y(2) sendSelectOffered_def del: viewTile_sel)
  have alive: "\<not> isEliminated (gs_players exMoved) ''alice''" using exEliminated by (simp add: exMoved_sel)
  have f: "tileOf ?v (pg_sendFromTileId ?pg2) = Some (viewTile exMoved exRoster x)" unfolding p2(2) by (rule x(3))
  have "''sp-alice-1'' \<in> set (getMovedThisTurn exMoved)" by (simp add: exMoved_sel)
  from send_stages_moved_unit [OF exMoved_ok alive refl r2 off f us this none refl] r2 off show ?thesis by blast
qed

end
