(* ===== verification/EventLog.thy ===== *)
theory EventLog
  imports KingdomsProperties Hosting
begin

text \<open>
  The event log of the Kingdoms page, \<open>apps/web/src/games/kingdoms/EventLog.tsx\<close>, with the colours of
  \<open>player-visuals.ts\<close>: a fold over the events the store has collected. The lines keep the parts their
  template strings put together; icons are named by what they picture. The theorems set the log beside the
  game that emitted the events.
\<close>

section \<open>Names, colours and lines\<close>

datatype econ_part =
    Income "(string \<times> int) list"
  | Upkeep int
  | BoughtFood int int
  | MortgagedCities int

datatype log_text =
    EconomyLine string "econ_part list"
  | RoundCompleteLine int
  | RecruitedLine string string
  | BuiltLine string string
  | DemolishedLine string string string
  | DevelopedLine string "string option"
  | BattleWonLine string string "nat option"
  | BattleRepelledLine string string
  | LoyaltyLine string int
  | CapturedLine string string
  | EliminatedLine string string

record log_entry =
  le_id :: string
  le_round :: int
  le_icon :: string
  le_color :: string
  le_text :: log_text

definition PAGE_COLORS :: "(string \<times> string) list" where
  "PAGE_COLORS = [(''red'', ''#4090d0''), (''blue'', ''#e08020''), (''green'', ''#20b0a0''), (''yellow'', ''#c050a0''),
     (''orange'', ''#c8a030''), (''purple'', ''#8050c0'')]"

definition playerColor :: "string \<Rightarrow> string" where
  "playerColor colorKey = (case map_of PAGE_COLORS colorKey of Some c \<Rightarrow> c | None \<Rightarrow> ''#888888'')"

definition nameOf :: "kplayer_view list \<Rightarrow> string option \<Rightarrow> string" where
  "nameOf players i =
     (case truthy i of
        None \<Rightarrow> ''Someone''
      | Some k \<Rightarrow> (case find (\<lambda>p. kp_id p = k) players of Some p \<Rightarrow> kp_displayName p | None \<Rightarrow> ''Someone''))"

definition colorOf :: "kplayer_view list \<Rightarrow> string option \<Rightarrow> string" where
  "colorOf players i =
     (case truthy i of
        None \<Rightarrow> ''var(--fg-dim)''
      | Some k \<Rightarrow> (case find (\<lambda>p. kp_id p = k) players of Some p \<Rightarrow> playerColor (kp_color p) | None \<Rightarrow> ''var(--fg-dim)''))"

text \<open>The pieces that have an icon of their own (\<open>strings.ts\<close>).\<close>

definition ALL_PIECE_ICONS :: "string list" where
  "ALL_PIECE_ICONS = [''spearman'', ''cannoneer'', ''noble'', ''farm'', ''city'', ''castle'', ''gate'']"

definition pieceIcon :: "string \<Rightarrow> string \<Rightarrow> string" where
  "pieceIcon fallback kind = (if kind \<in> set ALL_PIECE_ICONS then kind else fallback)"

text \<open>\<open>cond ? `${nameOf(players, owner)}'s tile` : 'an unowned tile'\<close>\<close>

definition tileName :: "kplayer_view list \<Rightarrow> string option \<Rightarrow> string" where
  "tileName players owner =
     (case truthy owner of Some w \<Rightarrow> nameOf players (Some w) @ CHR 0x27 # ''s tile'' | None \<Rightarrow> ''an unowned tile'')"

section \<open>The economy of a round (flushEconomy)\<close>

record econ_accum =
  ea_gold :: int
  ea_wood :: int
  ea_food :: int
  ea_iron :: int
  ea_foodConsumed :: int
  ea_foodPurchased :: int
  ea_mortgaged :: int

definition zeroAccum :: econ_accum where
  "zeroAccum = \<lparr>ea_gold = 0, ea_wood = 0, ea_food = 0, ea_iron = 0, ea_foodConsumed = 0, ea_foodPurchased = 0, ea_mortgaged = 0\<rparr>"

text \<open>\<open>ensure(pid)\<close> and the change of the object it returns.\<close>

definition accumulate :: "string option \<Rightarrow> (econ_accum \<Rightarrow> econ_accum) \<Rightarrow> (string option, econ_accum) jsmap \<Rightarrow> (string option, econ_accum) jsmap" where
  "accumulate pid f pending = jput pid (f (case jget pending pid of Some e \<Rightarrow> e | None \<Rightarrow> zeroAccum)) pending"

definition econParts :: "econ_accum \<Rightarrow> econ_part list" where
  "econParts e =
     (let gains = filter (\<lambda>(r, n). n \<noteq> 0) [(''gold'', ea_gold e), (''wood'', ea_wood e), (''food'', ea_food e), (''iron'', ea_iron e)]
      in (if gains \<noteq> [] then [Income gains] else []) @
         (if ea_foodConsumed e \<noteq> 0 then [Upkeep (ea_foodConsumed e)] else []) @
         (if ea_foodPurchased e \<noteq> 0 then [BoughtFood (ea_foodPurchased e) (ea_foodPurchased e * 3)] else []) @
         (if ea_mortgaged e \<noteq> 0 then [MortgagedCities (ea_mortgaged e)] else []))"

definition econEntry :: "kplayer_view list \<Rightarrow> int \<Rightarrow> string option \<times> econ_accum \<Rightarrow> log_entry option" where
  "econEntry players rd pe =
     (let parts = econParts (snd pe)
      in if parts = [] then None
         else Some \<lparr>le_id = ''econ-'' @ show_int rd @ ''-'' @ (case fst pe of Some p \<Rightarrow> p | None \<Rightarrow> ''undefined''), le_round = rd,
                le_icon = ''coin'', le_color = colorOf players (fst pe), le_text = EconomyLine (nameOf players (fst pe)) parts\<rparr>)"

record log_state =
  lg_entries :: "log_entry list"
  lg_currentRound :: int
  lg_economyRound :: "int option"
  lg_pending :: "(string option, econ_accum) jsmap"

definition flushEconomy :: "kplayer_view list \<Rightarrow> int \<Rightarrow> log_state \<Rightarrow> log_state" where
  "flushEconomy players rd lg =
     lg\<lparr>lg_entries := lg_entries lg @ List.map_filter (econEntry players rd) (lg_pending lg), lg_pending := []\<rparr>"

section \<open>The fold over the events (buildLogEntries)\<close>

type_synonym klog_event = "(kevent, kingdoms_view) bus_event"

text \<open>The payload of a scenario's event; its shape is the one its type announces.\<close>

definition scenarioPayload :: "klog_event \<Rightarrow> kevent option" where
  "scenarioPayload ev = (case be_payload ev of EventPayload (ScenarioPayload p) \<Rightarrow> Some p | _ \<Rightarrow> None)"

text \<open>The four events that are merged into one line for each player.\<close>

definition econChange :: "klog_event \<Rightarrow> (econ_accum \<Rightarrow> econ_accum) option" where
  "econChange ev =
     (case scenarioPayload ev of
        Some (IncomeCollected i) \<Rightarrow>
          if be_type ev = ''income-collected''
          then Some (\<lambda>e. e\<lparr>ea_gold := ea_gold e + in_gold i, ea_wood := ea_wood e + in_wood i,
                          ea_food := ea_food e + in_food i, ea_iron := ea_iron e + in_iron i\<rparr>) else None
      | Some (FoodConsumed used cost) \<Rightarrow>
          if be_type ev = ''food-consumed'' then Some (\<lambda>e. e\<lparr>ea_foodConsumed := ea_foodConsumed e + used\<rparr>) else None
      | Some (FoodPurchased n spent) \<Rightarrow>
          if be_type ev = ''food-purchased'' then Some (\<lambda>e. e\<lparr>ea_foodPurchased := ea_foodPurchased e + n\<rparr>) else None
      | Some (CityMortgaged city) \<Rightarrow>
          if be_type ev = ''city-mortgaged'' then Some (\<lambda>e. e\<lparr>ea_mortgaged := ea_mortgaged e + 1\<rparr>) else None
      | _ \<Rightarrow> None)"

text \<open>An object inside a template string.\<close>

definition objectString :: string where
  "objectString = ''[object Object]''"

text \<open>The line of an event that gets one, with its icon and the player whose colour it has.\<close>

definition eventLine :: "kplayer_view list \<Rightarrow> klog_event \<Rightarrow> (string \<times> string option \<times> log_text) option" where
  "eventLine players ev =
     (let who = be_playerId ev; name = nameOf players who
      in case scenarioPayload ev of
           Some (UnitRecruited pieceId kind t) \<Rightarrow>
             if be_type ev = ''unit-recruited'' then Some (pieceIcon ''bullet'' kind, who, RecruitedLine name kind) else None
         | Some (StructureBuilt pieceId kind t) \<Rightarrow>
             if be_type ev = ''structure-built'' then Some (pieceIcon ''crane'' kind, who, BuiltLine name kind) else None
         | Some (StructureDemolished kind t refund) \<Rightarrow>
             if be_type ev = ''structure-demolished'' then Some (''explosion'', who, DemolishedLine name kind objectString) else None
         | Some (TileDeveloped t spent unlocked) \<Rightarrow>
             if be_type ev = ''tile-developed'' then Some (''crane'', who, DevelopedLine name (truthy unlocked)) else None
         | Some (BattleResolved b) \<Rightarrow>
             if be_type ev = ''battle-resolved''
             then Some (''swords'', who,
               if br_attackerWins b
               then BattleWonLine name (tileName players (br_defenderOwner b)) (if br_attackerCasualties b \<noteq> 0 then Some (br_attackerCasualties b) else None)
               else BattleRepelledLine name (tileName players (br_defenderOwner b))) else None
         | Some (TileLoyaltyReduced t loyalty) \<Rightarrow>
             if be_type ev = ''tile-loyalty-reduced'' then Some (''queen'', who, LoyaltyLine name loyalty) else None
         | Some (TileCaptured t previous) \<Rightarrow>
             if be_type ev = ''tile-captured'' then Some (''flag'', who, CapturedLine name (tileName players previous)) else None
         | Some (PlayerEliminated loser by') \<Rightarrow>
             if be_type ev = ''player-eliminated''
             then Some (''skull'', Some loser, EliminatedLine (nameOf players (Some loser)) (nameOf players (Some by'))) else None
         | _ \<Rightarrow> None)"

definition logEntry :: "kplayer_view list \<Rightarrow> int \<Rightarrow> klog_event \<Rightarrow> log_entry option" where
  "logEntry players rd ev =
     map_option (\<lambda>(icon, who, text').
       \<lparr>le_id = show_int (be_seq ev), le_round = rd, le_icon = icon, le_color = colorOf players who, le_text = text'\<rparr>)
     (eventLine players ev)"

definition roundMarker :: "int \<Rightarrow> int \<Rightarrow> log_entry" where
  "roundMarker next' rd =
     \<lparr>le_id = ''round-marker-'' @ show_int next', le_round = rd, le_icon = ''cycle'', le_color = ''var(--fg-dim)'', le_text = RoundCompleteLine rd\<rparr>"

definition logStep :: "kplayer_view list \<Rightarrow> klog_event \<Rightarrow> log_state \<Rightarrow> log_state" where
  "logStep players ev lg =
     (case econChange ev of
        Some f \<Rightarrow> lg\<lparr>lg_pending := accumulate (be_playerId ev) f (lg_pending lg)\<rparr>
      | None \<Rightarrow>
          (case scenarioPayload ev of
             Some (TurnEnded q newRound' rd) \<Rightarrow>
               if be_type ev = ''turn-ended'' \<and> newRound' then lg\<lparr>lg_economyRound := Some (rd - 1)\<rparr> else lg
           | Some (RoundEnded next') \<Rightarrow>
               if be_type ev = ''round-ended''
               then let rd = (case lg_economyRound lg of Some r \<Rightarrow> r | None \<Rightarrow> lg_currentRound lg);
                        lg1 = flushEconomy players rd lg
                    in lg1\<lparr>lg_entries := lg_entries lg1 @ [roundMarker next' rd], lg_currentRound := next', lg_economyRound := None\<rparr>
               else lg
           | _ \<Rightarrow>
               (case logEntry players (lg_currentRound lg) ev of
                  Some e \<Rightarrow> lg\<lparr>lg_entries := lg_entries lg @ [e]\<rparr>
                | None \<Rightarrow> lg)))"

definition emptyLog :: log_state where
  "emptyLog = \<lparr>lg_entries = [], lg_currentRound = 1, lg_economyRound = None, lg_pending = []\<rparr>"

definition buildLogEntries :: "klog_event list \<Rightarrow> kplayer_view list \<Rightarrow> log_entry list" where
  "buildLogEntries events players =
     (let lg = fold (logStep players) events emptyLog
      in lg_entries (flushEconomy players (case lg_economyRound lg of Some r \<Rightarrow> r | None \<Rightarrow> lg_currentRound lg) lg))"

section \<open>What the panel shows (EventLog)\<close>

definition groupByRound :: "log_entry list \<Rightarrow> (int, log_entry list) jsmap" where
  "groupByRound entries =
     fold (\<lambda>e m. jput (le_round e) ((case jget m (le_round e) of Some es \<Rightarrow> es | None \<Rightarrow> []) @ [e]) m) entries []"

definition shownLog :: "log_entry list \<Rightarrow> log_entry list" where
  "shownLog entries =
     (let byRound = groupByRound entries
      in concat (map (\<lambda>r. rev (case jget byRound r of Some es \<Rightarrow> es | None \<Rightarrow> [])) (rev (sort (jkeys byRound)))))"

section \<open>The panel shows the newest line first\<close>

lemma groupByRound_get: "jget (groupByRound entries) r = (let es = filter (\<lambda>e. le_round e = r) entries in if es = [] then None else Some es)"
  by (induction entries rule: rev_induct) (auto simp: groupByRound_def Let_def)

lemma groupByRound_keys: "set (jkeys (groupByRound entries)) = le_round ` set entries" "distinct (jkeys (groupByRound entries))"
proof -
  have "k \<in> set (jkeys (groupByRound entries)) \<longleftrightarrow> k \<in> le_round ` set entries" for k
  proof -
    have "k \<in> set (jkeys (groupByRound entries)) \<longleftrightarrow> jget (groupByRound entries) k \<noteq> None" by (simp add: map_of_eq_None_iff)
    also have "\<dots> \<longleftrightarrow> k \<in> le_round ` set entries" unfolding groupByRound_get by (force simp: Let_def filter_empty_conv)
    finally show ?thesis .
  qed
  then show "set (jkeys (groupByRound entries)) = le_round ` set entries" by blast
  show "distinct (jkeys (groupByRound entries))"
    by (induction entries rule: rev_induct) (auto simp: groupByRound_def distinct_jput)
qed

lemma concat_by_key: "sorted (map f xs) \<Longrightarrow> sorted ks \<Longrightarrow> distinct ks \<Longrightarrow> f ` set xs \<subseteq> set ks \<Longrightarrow>
  concat (map (\<lambda>k. filter (\<lambda>x. f x = k) xs) ks) = xs"
proof (induction ks arbitrary: xs)
  case (Cons k ks)
  have low: "f x = k \<or> k < f x" if "x \<in> set xs" for x
    using Cons.prems(2,3,4) that by (force simp: less_le)
  have split: "filter (\<lambda>x. f x = k) xs @ filter (\<lambda>x. f x \<noteq> k) xs = xs"
    using Cons.prems(1) low
  proof (induction xs)
    case (Cons x xs)
    show ?case
    proof (cases "f x = k")
      case False
      then have "\<forall>y \<in> set xs. f y \<noteq> k" using Cons.prems by force
      with False show ?thesis by (simp add: filter_False)
    qed (use Cons in simp)
  qed simp
  have rest: "concat (map (\<lambda>j. filter (\<lambda>x. f x = j) (filter (\<lambda>x. f x \<noteq> k) xs)) ks) = filter (\<lambda>x. f x \<noteq> k) xs"
    using Cons.prems by (intro Cons.IH) (auto simp: sorted_filter)
  have same: "map (\<lambda>j. filter (\<lambda>x. f x = j) (filter (\<lambda>x. f x \<noteq> k) xs)) ks = map (\<lambda>j. filter (\<lambda>x. f x = j) xs) ks"
    using Cons.prems(3) by (intro map_cong) (auto intro!: filter_cong)
  have "concat (map (\<lambda>j. filter (\<lambda>x. f x = j) xs) ks) = filter (\<lambda>x. f x \<noteq> k) xs" unfolding same [symmetric] by (rule rest)
  with split show ?case by simp
qed simp

lemma shownLog_newest_first:
  assumes "sorted (map le_round entries)"
  shows "shownLog entries = rev entries"
proof -
  let ?ks = "sort (jkeys (groupByRound entries))"
  have get: "(case jget (groupByRound entries) r of Some es \<Rightarrow> es | None \<Rightarrow> []) = filter (\<lambda>e. le_round e = r) entries" for r
    by (simp add: groupByRound_get Let_def)
  have "concat (map (\<lambda>r. filter (\<lambda>e. le_round e = r) entries) ?ks) = entries"
    using groupByRound_keys [of entries] by (intro concat_by_key [OF assms]) simp_all
  then have "rev (concat (map (\<lambda>r. filter (\<lambda>e. le_round e = r) entries) ?ks)) = rev entries" by simp
  then show ?thesis unfolding shownLog_def Let_def get by (simp add: rev_concat rev_map comp_def)
qed

section \<open>Runs of economy events\<close>

text \<open>What a list of events adds up to for one player.\<close>

definition accumOf :: "string option \<Rightarrow> klog_event list \<Rightarrow> econ_accum" where
  "accumOf pid es = fold (\<lambda>ev a. case econChange ev of Some f \<Rightarrow> if be_playerId ev = pid then f a else a | None \<Rightarrow> a) es zeroAccum"

lemma accumOf_snoc: "accumOf pid (es @ [ev]) =
    (case econChange ev of Some f \<Rightarrow> if be_playerId ev = pid then f (accumOf pid es) else accumOf pid es | None \<Rightarrow> accumOf pid es)"
  unfolding accumOf_def by (simp split: option.split)

lemma accumOf_skip: "\<forall>ev \<in> set es. econChange ev = None \<Longrightarrow> fold (\<lambda>ev a. case econChange ev of Some f \<Rightarrow> if be_playerId ev = pid then f a else a | None \<Rightarrow> a) es a = a"
  by (induction es arbitrary: a) simp_all

lemma jput_map:
  assumes "distinct ks" "\<And>j. j \<in> set ks \<Longrightarrow> j \<noteq> k \<Longrightarrow> g' j = g j"
  shows "jput k (g' k) (map (\<lambda>j. (j, g j)) ks) = map (\<lambda>j. (j, g' j)) (jadd k ks)"
  using assms
proof (induction ks)
  case (Cons j ks)
  show ?case
  proof (cases "j = k")
    case True
    then have "k \<notin> set ks" using Cons.prems(1) by simp
    then have "map (\<lambda>j. (j, g j)) ks = map (\<lambda>j. (j, g' j)) ks"
      using Cons.prems(2) by (intro map_cong refl) (metis list.set_intros(2))
    with True show ?thesis by (simp add: jadd_def)
  next
    case False
    with Cons show ?thesis by (auto simp: jadd_def)
  qed
qed (simp add: jadd_def)

lemma pending_run:
  assumes "\<forall>ev \<in> set es. econChange ev \<noteq> None"
  shows "fold (logStep pl) es (lg\<lparr>lg_pending := []\<rparr>) = lg\<lparr>lg_pending := map (\<lambda>k. (k, accumOf k es)) (fold jadd (map be_playerId es) [])\<rparr>"
  using assms
proof (induction es rule: rev_induct)
  case (snoc ev es)
  let ?ks = "fold jadd (map be_playerId es) []"
  obtain f where f: "econChange ev = Some f" using snoc.prems by auto
  have d: "distinct (fold jadd xs ys)" if "distinct ys" for xs ys :: "string option list" using that by (induction xs arbitrary: ys) simp_all
  let ?k = "be_playerId ev"
  have get: "(case jget (map (\<lambda>k. (k, accumOf k es)) ?ks) ?k of Some e \<Rightarrow> e | None \<Rightarrow> zeroAccum) = accumOf ?k es"
  proof -
    have mem: "set (fold jadd xs ys) = set xs \<union> set ys" for xs ys :: "string option list" by (induction xs arbitrary: ys) auto
    have none: "accumOf ?k es = zeroAccum" if "?k \<notin> be_playerId ` set es"
      using that unfolding accumOf_def by (induction es rule: rev_induct) (auto split: option.split)
    have "jget (map (\<lambda>k. (k, accumOf k es)) ks) ?k = (if ?k \<in> set ks then Some (accumOf ?k es) else None)" for ks
      by (induction ks) auto
    with none show ?thesis by (simp add: mem)
  qed
  have "accumulate ?k f (map (\<lambda>k. (k, accumOf k es)) ?ks) = jput ?k (accumOf ?k (es @ [ev])) (map (\<lambda>k. (k, accumOf k es)) ?ks)"
    unfolding accumulate_def get by (simp add: accumOf_snoc f)
  also have "\<dots> = map (\<lambda>k. (k, accumOf k (es @ [ev]))) (jadd ?k ?ks)"
    by (rule jput_map) (auto simp: d accumOf_snoc f)
  finally show ?case using snoc by (simp add: logStep_def f)
qed (simp add: accumOf_def)

text \<open>One block of events for each player, none of them empty.\<close>

definition cycleOf :: "string \<Rightarrow> klog_event list \<Rightarrow> bool" where
  "cycleOf p es \<longleftrightarrow> es \<noteq> [] \<and> (\<forall>ev \<in> set es. econChange ev \<noteq> None \<and> be_playerId ev = Some p)"

lemma cycle_keys:
  "list_all2 cycleOf ps cs \<Longrightarrow> distinct ps \<Longrightarrow> Some ` set ps \<inter> set acc = {} \<Longrightarrow>
   fold jadd (map be_playerId (concat cs)) acc = acc @ map Some ps"
proof (induction ps cs arbitrary: acc rule: list_all2_induct)
  case (Cons p ps c cs)
  have same: "fold jadd xs ys = (if xs = [] then ys else jadd (Some p) ys)" if "set xs \<subseteq> {Some p}" for xs ys
    using that by (induction xs arbitrary: ys) (auto simp: jadd_def)
  have "fold jadd (map be_playerId c) acc = acc @ [Some p]"
    using Cons.hyps(1) Cons.prems(2) same [of "map be_playerId c" acc] by (auto simp: cycleOf_def jadd_def)
  with Cons.IH [of "acc @ [Some p]"] Cons.prems show ?case by auto
qed simp

lemma cycles_econ: "list_all2 cycleOf ps cs \<Longrightarrow> \<forall>ev \<in> set (concat cs). econChange ev \<noteq> None"
  by (induction ps cs rule: list_all2_induct) (auto simp: cycleOf_def)

section \<open>A round end in the log\<close>

text \<open>The events of the end of a turn that ends the round.\<close>

definition roundEvents :: "string list \<Rightarrow> int \<Rightarrow> klog_event list \<Rightarrow> bool" where
  "roundEvents ps next' es \<longleftrightarrow> (\<exists>ended cs ds marker q. es = ended # concat cs @ ds @ [marker] \<and> list_all2 cycleOf ps cs \<and>
     be_type ended = ''turn-ended'' \<and> scenarioPayload ended = Some (TurnEnded q True next') \<and>
     (\<forall>d \<in> set ds. \<exists>ts. scenarioPayload d = Some (TerritoryDisconnected ts)) \<and>
     be_type marker = ''round-ended'' \<and> scenarioPayload marker = Some (RoundEnded next'))"

definition steady :: "log_state \<Rightarrow> bool" where
  "steady lg \<longleftrightarrow> lg_pending lg = [] \<and> lg_economyRound lg = None"

lemma quiet_step: "scenarioPayload ev = Some (TerritoryDisconnected ts) \<Longrightarrow> logStep pl ev lg = lg \<and> econChange ev = None"
  by (simp add: logStep_def econChange_def logEntry_def eventLine_def Let_def)

lemma quiet_run: "\<forall>d \<in> set ds. \<exists>ts. scenarioPayload d = Some (TerritoryDisconnected ts) \<Longrightarrow> fold (logStep pl) ds lg = lg \<and> (\<forall>d \<in> set ds. econChange d = None)"
  by (induction ds arbitrary: lg) (auto simp: quiet_step)

lemma round_run:
  assumes r: "roundEvents ps (rd + 1) es" "distinct ps" and lg: "steady lg"
  shows "fold (logStep pl) es lg = lg\<lparr>lg_entries := lg_entries lg @ List.map_filter (\<lambda>p. econEntry pl rd (Some p, accumOf (Some p) es)) ps @
      [roundMarker (rd + 1) rd], lg_currentRound := rd + 1\<rparr>"
proof -
  obtain ended cs ds marker q where es: "es = ended # concat cs @ ds @ [marker]" "list_all2 cycleOf ps cs"
     "be_type ended = ''turn-ended''" "scenarioPayload ended = Some (TurnEnded q True (rd + 1))"
     "\<forall>d \<in> set ds. \<exists>ts. scenarioPayload d = Some (TerritoryDisconnected ts)"
     "be_type marker = ''round-ended''" "scenarioPayload marker = Some (RoundEnded (rd + 1))"
    using r(1) unfolding roundEvents_def by blast
  have nochange: "econChange ended = None" "econChange marker = None" using es(4,7) by (simp_all add: econChange_def)
  define lg1 where "lg1 = lg\<lparr>lg_economyRound := Some rd\<rparr>"
  have 1: "logStep pl ended lg = lg1" using es(3,4) nochange by (simp add: logStep_def lg1_def)
  have "lg1 = lg1\<lparr>lg_pending := []\<rparr>" using lg by (simp add: lg1_def steady_def)
  then have 2: "fold (logStep pl) (concat cs) lg1 = lg1\<lparr>lg_pending := map (\<lambda>p. (Some p, accumOf (Some p) (concat cs))) ps\<rparr>" (is "_ = ?lg2")
    using pending_run [OF cycles_econ [OF es(2)], of pl lg1] cycle_keys [OF es(2) r(2), of "[]"] by (simp add: comp_def)
  have 3: "fold (logStep pl) ds ?lg2 = ?lg2" using quiet_run [OF es(5)] by blast
  have acc: "accumOf (Some p) es = accumOf (Some p) (concat cs)" for p
    unfolding accumOf_def es(1) using nochange quiet_run [OF es(5)] by (simp add: accumOf_skip)
  have "logStep pl marker ?lg2 = lg\<lparr>lg_entries := lg_entries lg @ List.map_filter (\<lambda>p. econEntry pl rd (Some p, accumOf (Some p) es)) ps @
      [roundMarker (rd + 1) rd], lg_currentRound := rd + 1\<rparr>"
    using es(6,7) nochange lg unfolding acc
    by (simp add: logStep_def flushEconomy_def lg1_def steady_def Let_def map_filter_def filter_map comp_def)
  with 1 2 3 show ?thesis by (simp add: es(1))
qed

text \<open>Events that only add their own line.\<close>

definition plainEvent :: "klog_event \<Rightarrow> bool" where
  "plainEvent ev \<longleftrightarrow> econChange ev = None \<and>
     (case scenarioPayload ev of Some (TurnEnded q b r) \<Rightarrow> \<not> b | Some (RoundEnded r) \<Rightarrow> False | _ \<Rightarrow> True)"

lemma plain_step: "plainEvent ev \<Longrightarrow>
  logStep pl ev lg = lg\<lparr>lg_entries := lg_entries lg @ (case logEntry pl (lg_currentRound lg) ev of Some e \<Rightarrow> [e] | None \<Rightarrow> [])\<rparr>"
  by (cases "scenarioPayload ev")
    (auto simp: plainEvent_def logStep_def logEntry_def eventLine_def Let_def split: kevent.splits option.splits)

lemma plain_run: "\<forall>ev \<in> set es. plainEvent ev \<Longrightarrow>
  fold (logStep pl) es lg = lg\<lparr>lg_entries := lg_entries lg @ List.map_filter (logEntry pl (lg_currentRound lg)) es\<rparr>"
  by (induction es arbitrary: lg) (simp_all add: plain_step map_filter_simps split: option.split)

section \<open>What the executors emit\<close>

text \<open>The events as they reach the client; stamps do not matter to the fold of a round end.\<close>

definition onBus :: "int \<Rightarrow> string \<Rightarrow> kevent game_event list \<Rightarrow> klog_event list" where
  "onBus now gid es = map (busEvent now gid) es"

definition sig :: "klog_event \<Rightarrow> string \<times> string option \<times> (kevent, kingdoms_view) bus_payload" where
  "sig ev = (be_type ev, be_playerId ev, be_payload ev)"

lemma sig_payload: "sig ev = sig ev' \<Longrightarrow> scenarioPayload ev = scenarioPayload ev' \<and> be_type ev = be_type ev' \<and> be_playerId ev = be_playerId ev'"
  by (simp add: sig_def scenarioPayload_def)

lemma sig_change: "sig ev = sig ev' \<Longrightarrow> econChange ev = econChange ev' \<and> plainEvent ev = plainEvent ev'"
proof -
  assume "sig ev = sig ev'"
  from sig_payload [OF this] have same: "scenarioPayload ev = scenarioPayload ev'" "be_type ev = be_type ev'" by blast+
  have "econChange ev = econChange ev'" unfolding econChange_def same ..
  then show ?thesis unfolding plainEvent_def same by simp
qed

lemma map_eq_concat: "map f xs = concat yss \<Longrightarrow> \<exists>xss. xs = concat xss \<and> map (map f) xss = yss"
proof (induction yss arbitrary: xs)
  case (Cons ys yss)
  then obtain us vs where u: "xs = us @ vs" "map f us = ys" "map f vs = concat yss" by (auto simp: map_eq_append_conv)
  from Cons.IH [OF u(3)] obtain xss where "vs = concat xss" "map (map f) xss = yss" by blast
  with u show ?case by (intro exI [of _ "us # xss"]) simp
qed simp

lemma map_split3:
  assumes "map f zs = as @ bs @ [c]"
  shows "\<exists>xs ys z. zs = xs @ ys @ [z] \<and> map f xs = as \<and> map f ys = bs \<and> f z = c"
proof (intro exI conjI)
  let ?xs = "take (length as) zs" and ?w = "drop (length as) zs"
  have w: "map f ?w = bs @ [c]" using assms by (simp flip: drop_map)
  then have ne: "?w \<noteq> []" by auto
  show "zs = ?xs @ butlast ?w @ [last ?w]" unfolding append_butlast_last_id [OF ne] by simp
  show "map f ?xs = as" using assms by (simp flip: take_map)
  show "map f (butlast ?w) = bs" using w by (simp add: map_butlast)
  show "f (last ?w) = c" using w ne by (metis last_map last_snoc)
qed

lemma cycle_sig:
  assumes "cycleOf p c'" "map sig c = map sig c'"
  shows "cycleOf p c"
proof -
  have "econChange ev \<noteq> None \<and> be_playerId ev = Some p" if ev: "ev \<in> set c" for ev
  proof -
    have "sig ev \<in> set (map sig c')" using ev by (simp flip: assms(2))
    then obtain ev' where "ev' \<in> set c'" "sig ev = sig ev'" by auto
    with assms(1) sig_change [of ev ev'] sig_payload [of ev ev'] show ?thesis by (simp add: cycleOf_def)
  qed
  moreover have "c \<noteq> []" using assms by (auto simp: cycleOf_def)
  ultimately show ?thesis by (simp add: cycleOf_def)
qed

lemma cycles_sig: "list_all2 cycleOf ps cs' \<Longrightarrow> map (map sig) cs = map (map sig) cs' \<Longrightarrow> list_all2 cycleOf ps cs"
proof (induction ps cs' arbitrary: cs rule: list_all2_induct)
  case (Cons p ps c' cs')
  then obtain c cs1 where "cs = c # cs1" "map sig c = map sig c'" "map (map sig) cs1 = map (map sig) cs'" by (cases cs) auto
  with Cons.IH [of cs1] cycle_sig [OF Cons.hyps(1)] show ?case by simp
qed simp

lemma roundEvents_sig:
  assumes "roundEvents ps n es'" "map sig es = map sig es'"
  shows "roundEvents ps n es"
proof -
  obtain ended cs ds marker q where r: "es' = ended # concat cs @ ds @ [marker]" "list_all2 cycleOf ps cs"
     "be_type ended = ''turn-ended''" "scenarioPayload ended = Some (TurnEnded q True n)"
     "\<forall>d \<in> set ds. \<exists>ts. scenarioPayload d = Some (TerritoryDisconnected ts)"
     "be_type marker = ''round-ended''" "scenarioPayload marker = Some (RoundEnded n)"
    using assms(1) unfolding roundEvents_def by blast
  have "map sig es = sig ended # concat (map (map sig) cs) @ map sig ds @ [sig marker]" using assms(2) by (simp add: r(1) map_concat)
  then obtain ended' rest where 1: "es = ended' # rest" "sig ended' = sig ended" "map sig rest = concat (map (map sig) cs) @ map sig ds @ [sig marker]"
    by (auto simp: map_eq_Cons_conv)
  from map_split3 [OF 1(3)] obtain xs ds' marker' where 2: "rest = xs @ ds' @ [marker']" "map sig xs = concat (map (map sig) cs)"
    "map sig ds' = map sig ds" "sig marker' = sig marker" by blast
  have e: "es = ended' # xs @ ds' @ [marker']" "sig ended' = sig ended" "map sig xs = concat (map (map sig) cs)"
     "map sig ds' = map sig ds" "sig marker' = sig marker" using 1 2 by simp_all
  from map_eq_concat [OF e(3)] obtain cs' where cs': "xs = concat cs'" "map (map sig) cs' = map (map sig) cs" by blast
  have ds: "\<exists>ts. scenarioPayload d = Some (TerritoryDisconnected ts)" if "d \<in> set ds'" for d
  proof -
    have "sig d \<in> set (map sig ds)" using that by (simp flip: e(4))
    then obtain d' where "d' \<in> set ds" "sig d = sig d'" by auto
    with r(5) sig_payload [of d d'] show ?thesis by simp
  qed
  have "es = ended' # concat cs' @ ds' @ [marker']" using e(1) cs'(1) by simp
  moreover note cycles_sig [OF r(2) cs'(2)]
  moreover have "be_type ended' = ''turn-ended''" "scenarioPayload ended' = Some (TurnEnded q True n)"
    "be_type marker' = ''round-ended''" "scenarioPayload marker' = Some (RoundEnded n)"
    using r(3,4,6,7) sig_payload [OF e(2)] sig_payload [OF e(5)] by simp_all
  moreover have "\<forall>d \<in> set ds'. \<exists>ts. scenarioPayload d = Some (TerritoryDisconnected ts)" using ds by blast
  ultimately show ?thesis unfolding roundEvents_def by blast
qed

lemma plain_sig: "\<forall>ev \<in> set es'. plainEvent ev \<Longrightarrow> map sig es = map sig es' \<Longrightarrow> \<forall>ev \<in> set es. plainEvent ev"
proof
  fix ev assume a: "\<forall>ev \<in> set es'. plainEvent ev" "map sig es = map sig es'" "ev \<in> set es"
  have "sig ev \<in> set (map sig es')" using a(3) by (simp flip: a(2))
  then obtain ev' where "ev' \<in> set es'" "sig ev = sig ev'" by auto
  with a(1) sig_change [of ev ev'] show "plainEvent ev" by simp
qed

lemma bus_simps [simp]:
  "be_type (busEvent now gid e) = ev_type e" "be_playerId (busEvent now gid e) = truthy (ev_playerId e)"
  "scenarioPayload (busEvent now gid (mkEvent ty p k)) = Some k" "ev_type (mkEvent ty p k) = ty" "ev_playerId (mkEvent ty p k) = p"
  by (simp_all add: busEvent_def scenarioPayload_def mkEvent_def)

lemma sig_bus: "sig (busEvent now gid e) = (ev_type e, truthy (ev_playerId e), EventPayload (ev_payload e))"
  by (simp add: sig_def busEvent_def)

text \<open>Every action but the end of a turn emits plain events and leaves the round alone.\<close>

definition plainRun :: "kstate \<Rightarrow> kevents \<Rightarrow> kstate \<Rightarrow> bool" where
  "plainRun s es s' \<longleftrightarrow> gs_rounds s' = gs_rounds s \<and> (\<forall>now gid. \<forall>e \<in> set es. plainEvent (busEvent now gid e))"

lemma plain_mk: "plainEvent (busEvent now gid (mkEvent ty p k)) \<longleftrightarrow>
  (case k of IncomeCollected i \<Rightarrow> ty \<noteq> ''income-collected'' | FoodConsumed u c \<Rightarrow> ty \<noteq> ''food-consumed'' | FoodPurchased n g \<Rightarrow> ty \<noteq> ''food-purchased''
     | CityMortgaged c \<Rightarrow> ty \<noteq> ''city-mortgaged'' | TurnEnded q b r \<Rightarrow> \<not> b | RoundEnded r \<Rightarrow> False | _ \<Rightarrow> True)"
  by (cases k) (simp_all add: plainEvent_def econChange_def)

lemma nextId_kept: "nextId s = (i, s') \<Longrightarrow> gs_rounds s' = gs_rounds s \<and> gs_players s' = gs_players s"
  by (auto simp: nextId_def Let_def)

lemma other_plain:
  "recruitUnitExecutor a s = (Inr es, s') \<Longrightarrow> plainRun s es s'"
  "moveUnitExecutor a s = (Inr es, s') \<Longrightarrow> plainRun s es s'"
  "buildStructureExecutor a s = (Inr es, s') \<Longrightarrow> plainRun s es s'"
  "demolishStructureExecutor a s = (Inr es, s') \<Longrightarrow> plainRun s es s'"
  "developTileExecutor a s = (Inr es, s') \<Longrightarrow> plainRun s es s'"
  by (auto simp: recruitUnitExecutor_def moveUnitExecutor_def buildStructureExecutor_def demolishStructureExecutor_def developTileExecutor_def
      Let_def plainRun_def plain_mk place_piece_def put_inventory_def
      split: option.splits sum.splits prod.splits if_splits dest!: nextId_kept)

lemma eliminate_plain: "eliminateKingdom l me s = (Inr es, s') \<Longrightarrow> plainRun s es s'"
  by (auto simp: eliminateKingdom_def Let_def plainRun_def plain_mk removePieces_def split: sum.splits prod.splits)

lemma capture_plain:
  assumes "captureTile t me w st s = (Inr es, s')"
  shows "plainRun s es s'"
proof -
  have p: "plainEvent (busEvent now gid (mkEvent ''tile-captured'' p (TileCaptured t w)))" for now gid p t w by (simp add: plain_mk)
  from assms show ?thesis
    by (auto simp: captureTile_def Let_def p plainRun_def dest!: eliminate_plain split: option.splits sum.splits prod.splits if_splits)
qed

lemma erode_plain: "erodeLoyalty t me w st s = (Inr es, s') \<Longrightarrow> plainRun s es s'"
  by (auto simp: erodeLoyalty_def Let_def plainRun_def plain_mk dest: capture_plain [unfolded plainRun_def] split: if_splits)

lemma attack_plain:
  assumes "attackTileExecutor a s = (Inr es, s')"
  shows "plainRun s es s'"
proof -
  have p: "plainEvent (busEvent now gid (mkEvent ''battle-resolved'' p (BattleResolved b)))" for now gid p b by (simp add: plain_mk)
  from assms show ?thesis
    by (auto simp: attackTileExecutor_def Let_def p plainRun_def markAttacked_def removePieces_def
        dest!: erode_plain split: option.splits sum.splits prod.splits if_splits)
qed

text \<open>The end of a turn.\<close>

lemma consumeFood_cycle:
  assumes "consumeFood p c bag = (Inr es, bag')" "e \<in> set es"
  shows "ev_playerId e = Some p \<and> econChange (busEvent now gid e) \<noteq> None"
  using assms by (auto simp: consumeFood_def Let_def econChange_def split: if_splits sum.splits prod.splits)

lemma processPlayerCycle_cycle:
  assumes run: "processPlayerCycle p s = (Inr es, s')" and inv: "jget (gs_inventories s) p \<noteq> None" and p: "p \<noteq> []"
  shows "cycleOf p (onBus now gid es)"
proof -
  obtain bag where bag: "jget (gs_inventories s) p = Some bag" using inv by blast
  obtain bag1 bag2 es1 where 1: "consumeFood p (computeFoodCost s p) bag1 = (Inr es1, bag2)" and
    es: "es = [mkEvent ''income-collected'' (Some p) (IncomeCollected (computeIncome s p))] @ es1 @ fst (mortgageStep p bag2 (put_inventory p bag2 s))"
    using run by (auto simp: processPlayerCycle_def bag Let_def split: sum.splits prod.splits)
  have "e \<in> set (fst (mortgageStep p bag2 s1)) \<Longrightarrow> ev_playerId e = Some p \<and> econChange (busEvent now gid e) \<noteq> None" for e s1
    by (auto simp: mortgageStep_def Let_def econChange_def split: if_splits option.splits)
  moreover have "econChange (busEvent now gid (mkEvent ''income-collected'' (Some p) (IncomeCollected (computeIncome s p)))) \<noteq> None"
    by (simp add: econChange_def)
  ultimately have "ev_playerId e = Some p \<and> econChange (busEvent now gid e) \<noteq> None" if "e \<in> set es" for e
    using that consumeFood_cycle [OF 1] unfolding es by auto
  then have "\<forall>e \<in> set es. econChange (busEvent now gid e) \<noteq> None \<and> be_playerId (busEvent now gid e) = Some p"
    using p by (simp add: truthy_def)
  moreover have "es \<noteq> []" by (simp add: es)
  ultimately show ?thesis by (simp add: cycleOf_def onBus_def)
qed

lemma playerCycles_cycles:
  "playerCycles ps s = (Inr es, s') \<Longrightarrow> invs_ok s \<Longrightarrow> (\<And>p. p \<in> set ps \<Longrightarrow> jget (gs_inventories s) p \<noteq> None \<and> p \<noteq> []) \<Longrightarrow>
   \<exists>cs. onBus now gid es = concat cs \<and> list_all2 cycleOf ps cs \<and> gs_rounds s' = gs_rounds s \<and> gs_players s' = gs_players s"
proof (induction ps arbitrary: s es)
  case Nil
  then show ?case by (intro exI [of _ "[]"]) (simp add: onBus_def)
next
  case (Cons p ps)
  obtain es1 invs where 1: "processPlayerCycle p s = (Inr es1, s\<lparr>gs_inventories := invs\<rparr>)" "invs_ok (s\<lparr>gs_inventories := invs\<rparr>)"
    "\<forall>q. (jget invs q = None) = (jget (gs_inventories s) q = None)" using processPlayerCycle_frame [OF Cons.prems(2)] by blast
  obtain es2 where 2: "playerCycles ps (s\<lparr>gs_inventories := invs\<rparr>) = (Inr es2, s')" "es = es1 @ es2"
    using Cons.prems(1) 1(1) by (auto split: sum.splits prod.splits)
  have "\<exists>cs. onBus now gid es2 = concat cs \<and> list_all2 cycleOf ps cs \<and> gs_rounds s' = gs_rounds s \<and> gs_players s' = gs_players s"
    using Cons.IH [OF 2(1) 1(2)] Cons.prems(3) 1(3) by simp
  then obtain cs where "onBus now gid es2 = concat cs" "list_all2 cycleOf ps cs" "gs_rounds s' = gs_rounds s" "gs_players s' = gs_players s" by blast
  moreover have "cycleOf p (onBus now gid es1)" using processPlayerCycle_cycle [OF 1(1)] Cons.prems(3) by simp
  ultimately show ?case by (intro exI [of _ "onBus now gid es1 # cs"]) (simp add: onBus_def 2(2))
qed

lemma active_listed:
  assumes "players_ok pm invs cur" "p \<in> set (map pl_id (pm_active pm))"
  shows "jget invs p \<noteq> None \<and> p \<noteq> []"
  using assms by (auto simp: players_ok_def pm_active_def)

lemma processRoundEnd_events:
  assumes s: "invs_ok s" "players_ok (gs_players s) (gs_inventories s) cur" and run: "processRoundEnd s = (Inr es, s')"
    and ended: "ended = mkEvent ''turn-ended'' who (TurnEnded q True (currentRound (gs_rounds s)))"
  shows "roundEvents (map pl_id (pm_active (gs_players s))) (currentRound (gs_rounds s)) (onBus now gid (ended # es)) \<and> gs_rounds s' = gs_rounds s"
proof -
  let ?ps = "map pl_id (pm_active (gs_players s))"
  obtain es1 where 1: "playerCycles ?ps s = (Inr es1, s')" and
    es: "es = es1 @ disconnectedEvents s' ?ps @ [mkEvent ''round-ended'' None (RoundEnded (currentRound (gs_rounds s')))]"
    using run by (auto simp: processRoundEnd_def Let_def split: sum.splits prod.splits)
  obtain cs where cs: "onBus now gid es1 = concat cs" "list_all2 cycleOf ?ps cs" "gs_rounds s' = gs_rounds s"
    using playerCycles_cycles [OF 1 s(1)] active_listed [OF s(2)] by blast
  let ?ds = "onBus now gid (disconnectedEvents s' ?ps)"
  have ds: "\<forall>d \<in> set ?ds. \<exists>ts. scenarioPayload d = Some (TerritoryDisconnected ts)"
    by (auto simp: onBus_def disconnectedEvents_def Let_def split: if_splits)
  show ?thesis unfolding roundEvents_def
    by (intro conjI exI [of _ "busEvent now gid ended"] exI [of _ cs] exI [of _ ?ds] exI [of _ q]
        exI [of _ "busEvent now gid (mkEvent ''round-ended'' None (RoundEnded (currentRound (gs_rounds s'))))"])
      (use cs ds in \<open>simp_all add: ended es onBus_def\<close>)
qed

text \<open>What an accepted action does to the log: nothing but its own lines, or a round end.\<close>

definition logged :: "kstate \<Rightarrow> kevents \<Rightarrow> kstate \<Rightarrow> bool" where
  "logged s es s' \<longleftrightarrow>
     currentRound (gs_rounds s') = currentRound (gs_rounds s) \<and> (\<forall>now gid. \<forall>ev \<in> set (onBus now gid es). plainEvent ev) \<or>
     currentRound (gs_rounds s') = currentRound (gs_rounds s) + 1 \<and>
     (\<forall>now gid. roundEvents (map pl_id (pm_active (gs_players s))) (currentRound (gs_rounds s) + 1) (onBus now gid es))"

lemma plain_logged: "plainRun s es s' \<Longrightarrow> logged s es s'"
  by (auto simp: plainRun_def logged_def onBus_def)

lemma endTurn_logged:
  assumes ok': "kingdoms_ok s" and run: "endTurnExecutor a s = (Inr es, s')" and active: "active_ids (pm_all (gs_players s)) \<noteq> {}"
  shows "logged s es s'"
proof -
  define s1 where "s1 = set_extras (kx_movedThisTurn_update (\<lambda>_. Some []) \<circ> kx_attackedFrom_update (\<lambda>_. Some [])) s"
  have same: "gs_players s1 = gs_players s" "gs_rounds s1 = gs_rounds s" "gs_inventories s1 = gs_inventories s" by (simp_all add: s1_def)
  obtain te rm where te: "rm_endTurn turn_next (pm_all (gs_players s1)) ''command'' (gs_rounds s1) = (Inr te, rm)"
     "currentRound rm = currentRound (gs_rounds s) + (if newRound te then 1 else 0)"
    using scenario_order.endTurn_active [OF active, of "''command''" "gs_rounds s"] by (auto simp: same)
  define ended where "ended = mkEvent ''turn-ended'' (Some (actor a)) (TurnEnded (newActivePlayer te) (newRound te) (currentRound rm))"
  note run' = run [unfolded endTurnExecutor_def Let_def, folded s1_def, unfolded te(1), simplified, folded ended_def]
  show ?thesis
  proof (cases "newRound te")
    case False
    have "es = [ended]" "s' = s1\<lparr>gs_rounds := rm\<rparr>"
      using run' False by (simp_all add: ended_def)
    then show ?thesis using te(2) False by (simp add: logged_def onBus_def ended_def plain_mk)
  next
    case True
    obtain es1 s3 where pr: "processRoundEnd (s1\<lparr>gs_rounds := rm\<rparr>) = (Inr es1, s3)" and es: "es = ended # es1" and s': "gs_rounds s' = gs_rounds s3"
      using run' True by (auto simp: ended_def split: sum.splits prod.splits)
    have "invs_ok (s1\<lparr>gs_rounds := rm\<rparr>)" "players_ok (gs_players (s1\<lparr>gs_rounds := rm\<rparr>)) (gs_inventories (s1\<lparr>gs_rounds := rm\<rparr>)) (activePlayer (currentTurn (gs_rounds s)))"
      using ok' by (simp_all add: kingdoms_ok_def same invs_ok_def)
    from processRoundEnd_events [OF this pr, of ended "Some (actor a)" "newActivePlayer te"] True te(2)
    have "roundEvents (map pl_id (pm_active (gs_players s))) (currentRound (gs_rounds s) + 1) (onBus now gid es) \<and> gs_rounds s3 = rm" for now gid
      by (simp add: ended_def es same)
    with True te(2) s' show ?thesis by (simp add: logged_def)
  qed
qed

lemma executor_logged:
  assumes ok': "kingdoms_ok s" and val: "validate_action kingdoms_vs s a = Inr None" and run: "execute_action kingdoms_xs a s = (Inr es, s')"
  shows "logged s es s'"
proof -
  define P where "P \<longleftrightarrow> logged s es s'"
  obtain f where f: "getExecutor kingdoms_xs (ac_type a) = Some f" "ex_execute f a s = (Inr es, s')"
    using run by (auto simp: execute_action_def split: option.splits)
  from f(1) consider "ac_type a = ''end-turn'' \<and> ex_execute f = endTurnExecutor"
    | "ex_execute f \<in> {attackTileExecutor, recruitUnitExecutor, moveUnitExecutor, buildStructureExecutor, demolishStructureExecutor, developTileExecutor}"
    by (auto simp: getExecutor_def kingdoms_xs_def kingdomsExecutors_def kexecutor_def split: if_splits)
  then show ?thesis
  proof cases
    case 1
    have "guardActivePlayer s (ac_playerId a) = None"
      using val 1 by (simp add: validate_action_def getValidator_def kingdoms_vs_def kingdomsValidators_def kvalidator_def endTurnValidator_def)
    from guard_active(1) [OF ok' this] have "active_ids (pm_all (gs_players s)) \<noteq> {}" by (auto simp: pm_all_def)
    with endTurn_logged [OF ok'] 1 f(2) show ?thesis by simp
  next
    case 2
    note facts = attack_plain [of a s es s', THEN plain_logged] other_plain [of a s es s', THEN plain_logged]
    note facts = facts [folded P_def]
    from 2 f(2) facts have P by auto
    then show ?thesis by (simp add: P_def)
  qed
qed

section \<open>The log beside the game\<close>

lemma emitAll_sig:
  assumes "em_emitAll clock es em = (ss, em')"
  shows "map sig (onBus now gid ss) = map sig (onBus now gid es)"
proof -
  note spec = emitAll_spec [OF assms]
  have "map (\<lambda>e. sig (busEvent now gid e)) xs = map (\<lambda>e. sig (busEvent now gid e)) ys"
    if "map ev_type xs = map ev_type ys" "map ev_payload xs = map ev_payload ys" "map ev_playerId xs = map ev_playerId ys"
    for xs ys :: "kevent game_event list"
    using that
  proof (induction xs arbitrary: ys)
    case (Cons x xs)
    then obtain y ys' where "ys = y # ys'" by (cases ys) auto
    with Cons show ?case by (simp add: sig_bus)
  qed simp
  from this [of ss es] spec show ?thesis by (simp add: onBus_def comp_def)
qed

text \<open>The events of an accepted action in any game of Kingdoms.\<close>

definition loggedEvents :: "kstate \<Rightarrow> int \<Rightarrow> klog_event list \<Rightarrow> bool" where
  "loggedEvents s rd es \<longleftrightarrow>
     rd = currentRound (gs_rounds s) \<and> (\<forall>ev \<in> set es. plainEvent ev) \<or>
     rd = currentRound (gs_rounds s) + 1 \<and>
     (\<exists>main rest. es = main @ rest \<and> roundEvents (map pl_id (pm_active (gs_players s))) rd main \<and> (\<forall>ev \<in> set rest. scenarioPayload ev = None))"

abbreviation kingdomsLoaded :: "(kextras, kpayload, kevent) game \<Rightarrow> bool" where
  "kingdomsLoaded g \<equiv> game_loaded kingdoms_vs kingdoms_xs [] [lastPlayerStanding] kingdoms_ok g"

lemma submit_logged:
  assumes g: "kingdomsLoaded g" and run: "submit ck a g = (Inr (Accepted es), g')"
  shows "loggedEvents (g_state g) (currentRound (gs_rounds (g_state g'))) (onBus now gid es)"
proof -
  have l: "g_validators g = kingdoms_vs" "g_executors g = kingdoms_xs" "g_rules g = []" "kingdoms_ok (g_state g)"
    using g by (simp_all add: game_loaded_def)
  obtain s primary st em1 followUps em2 sf where p: "validate_action (g_validators g) (g_state g) a = Inr None"
    "execute_action (g_executors g) a (g_state g) = (Inr primary, s)"
    "em_emitAll (ck_stamp ck) primary (g_events g) = (st, em1)"
    "process_all (g_rules g) s st = Inr followUps"
    "em_emitAll (ck_stamp ck) followUps em1 = (sf, em2)" and
    fin: "finish_submit ck (st @ sf)
       (g\<lparr>g_state := s\<lparr>gs_history := history_append (ck_append ck (length (gs_history s))) a (st @ sf) (gs_history s)\<rparr>,
          g_events := em2\<rparr>) = (Inr (Accepted es), g')"
    using run by (rule submit_accepted)
  have none: "sf = []" using p(4,5) l(3) by auto
  have main: "logged (g_state g) primary s" using executor_logged l p(1,2) by simp
  obtain rest where es: "es = st @ rest" "\<forall>e \<in> set rest. \<exists>v. ev_payload e = GameEndedPayload v" "gs_rounds (g_state g') = gs_rounds s"
    using fin
  proof (cases rule: finish_submit_cases)
    case (ended v e em)
    from ended(4) have "ev_payload e = GameEndedPayload v" by (auto simp: em_emit_def Let_def)
    with ended none show ?thesis by (intro that [of "[e]"]) auto
  qed (use none in \<open>auto intro: that [of "[]"]\<close>)
  have rest: "\<forall>ev \<in> set (onBus now gid rest). scenarioPayload ev = None"
    using es(2) by (fastforce simp: onBus_def busEvent_def scenarioPayload_def)
  then have quiet: "\<forall>ev \<in> set (onBus now gid rest). plainEvent ev" by (simp add: plainEvent_def econChange_def)
  note same = emitAll_sig [OF p(3), of now gid]
  have split: "onBus now gid es = onBus now gid st @ onBus now gid rest" by (simp add: es(1) onBus_def)
  from main show ?thesis unfolding logged_def
  proof (elim disjE conjE)
    assume r: "currentRound (gs_rounds s) = currentRound (gs_rounds (g_state g))" "\<forall>now gid. \<forall>ev \<in> set (onBus now gid primary). plainEvent ev"
    then have "\<forall>ev \<in> set (onBus now gid st). plainEvent ev" using plain_sig [OF _ same] by blast
    with r(1) quiet show ?thesis unfolding loggedEvents_def split es(3) by auto
  next
    assume r: "currentRound (gs_rounds s) = currentRound (gs_rounds (g_state g)) + 1"
      "\<forall>now gid. roundEvents (map pl_id (pm_active (gs_players (g_state g)))) (currentRound (gs_rounds (g_state g)) + 1) (onBus now gid primary)"
    then have "roundEvents (map pl_id (pm_active (gs_players (g_state g)))) (currentRound (gs_rounds (g_state g)) + 1) (onBus now gid st)"
      using roundEvents_sig [OF _ same] by blast
    with r(1) rest show ?thesis unfolding loggedEvents_def split es(3) by (intro disjI2) auto
  qed
qed

text \<open>The lines an action adds.\<close>

definition newLines :: "kplayer_view list \<Rightarrow> kstate \<Rightarrow> int \<Rightarrow> klog_event list \<Rightarrow> log_entry list" where
  "newLines pl s next' es =
     (let rd = currentRound (gs_rounds s)
      in if next' = rd then List.map_filter (logEntry pl rd) es
         else List.map_filter (\<lambda>p. econEntry pl rd (Some p, accumOf (Some p) es)) (map pl_id (pm_active (gs_players s))) @ [roundMarker next' rd])"

definition inStep :: "log_state \<Rightarrow> int \<Rightarrow> bool" where
  "inStep lg rd \<longleftrightarrow> steady lg \<and> lg_currentRound lg = rd \<and> sorted (map le_round (lg_entries lg)) \<and> (\<forall>e \<in> set (lg_entries lg). le_round e \<le> rd)"

lemma active_distinct: "kingdoms_ok s \<Longrightarrow> distinct (map pl_id (pm_active (gs_players s)))"
  by (auto simp: kingdoms_ok_def players_ok_def pm_wf_def pm_active_def intro: distinct_map_filter)

lemma logEntry_round: "logEntry pl rd ev = Some e \<Longrightarrow> le_round e = rd"
  by (auto simp: logEntry_def)

lemma econEntry_round: "econEntry pl rd x = Some e \<Longrightarrow> le_round e = rd"
  by (auto simp: econEntry_def Let_def split: if_splits)

lemma newLines_round: "e \<in> set (newLines pl s next' es) \<Longrightarrow> le_round e = currentRound (gs_rounds s)"
  by (auto simp: newLines_def Let_def map_filter_def roundMarker_def dest: logEntry_round econEntry_round split: if_splits)

lemma silent_run: "\<forall>ev \<in> set rest. scenarioPayload ev = None \<Longrightarrow> fold (logStep pl) rest lg = lg \<and> (\<forall>ev \<in> set rest. econChange ev = None)"
  by (induction rest arbitrary: lg) (simp_all add: logStep_def econChange_def logEntry_def eventLine_def Let_def)

lemma logged_run:
  assumes es: "loggedEvents s next' es" and ok': "kingdoms_ok s" and lg: "inStep lg (currentRound (gs_rounds s))"
  shows "lg_entries (fold (logStep pl) es lg) = lg_entries lg @ newLines pl s next' es" "inStep (fold (logStep pl) es lg) next'"
proof -
  let ?rd = "currentRound (gs_rounds s)"
  have st: "steady lg" "lg_currentRound lg = ?rd" using lg by (simp_all add: inStep_def)
  have run: "fold (logStep pl) es lg = lg\<lparr>lg_entries := lg_entries lg @ newLines pl s next' es, lg_currentRound := next'\<rparr>"
    using es unfolding loggedEvents_def
  proof (elim disjE conjE exE)
    assume p: "next' = ?rd" "\<forall>ev \<in> set es. plainEvent ev"
    have "lg\<lparr>lg_currentRound := ?rd\<rparr> = lg" using st(2) by simp
    then have "lg\<lparr>lg_entries := xs\<rparr> = lg\<lparr>lg_entries := xs, lg_currentRound := ?rd\<rparr>" for xs using st(2) by (cases lg) simp
    with plain_run [OF p(2), of pl lg] st(2) p(1) show ?thesis by (simp add: newLines_def)
  next
    fix main rest
    assume r: "next' = ?rd + 1" "es = main @ rest" "roundEvents (map pl_id (pm_active (gs_players s))) next' main"
      "\<forall>ev \<in> set rest. scenarioPayload ev = None"
    have acc: "accumOf p es = accumOf p main" for p
      unfolding accumOf_def r(2) using silent_run [OF r(4)] by (simp add: accumOf_skip)
    from r(3) have m: "roundEvents (map pl_id (pm_active (gs_players s))) (?rd + 1) main" by (simp add: r(1))
    show ?thesis
      using round_run [OF m active_distinct [OF ok'] st(1)] silent_run [OF r(4)]
      by (simp add: newLines_def r(1,2) acc [unfolded r(2)] Let_def)
  qed
  show "lg_entries (fold (logStep pl) es lg) = lg_entries lg @ newLines pl s next' es" by (simp add: run)
  have "?rd \<le> next'" using es by (auto simp: loggedEvents_def)
  moreover have "sorted (map le_round xs)" if "\<forall>e \<in> set xs. le_round e = c" for xs c
    using that by (induction xs) auto
  ultimately show "inStep (fold (logStep pl) es lg) next'"
    using lg newLines_round [of _ pl s next' es] unfolding run inStep_def by (auto simp: steady_def sorted_append intro: order_trans)
qed

text \<open>The events a client has received of a list of results.\<close>

definition eventsOf :: "int \<Rightarrow> string \<Rightarrow> kevent action_result list \<Rightarrow> klog_event list" where
  "eventsOf now gid rs = onBus now gid (concat (map (\<lambda>r. case r of Accepted es \<Rightarrow> es | Rejected e \<Rightarrow> []) rs))"

lemma play_inStep:
  "play ck as g = (Inr rs, g') \<Longrightarrow> kingdomsLoaded g \<Longrightarrow> g_machine g = Playing \<or> g_machine g = Ended \<Longrightarrow> inStep lg (currentRound (gs_rounds (g_state g))) \<Longrightarrow>
   inStep (fold (logStep pl) (eventsOf now gid rs) lg) (currentRound (gs_rounds (g_state g')))"
proof (induction as arbitrary: g rs lg)
  case Nil
  then show ?case by (simp add: eventsOf_def onBus_def)
next
  case (Cons a as)
  show ?case
  proof (cases "g_machine g = Ended")
    case True
    with Cons.prems show ?thesis by (simp add: eventsOf_def onBus_def)
  next
    case False
    with Cons.prems have playing: "g_machine g = Playing" by simp
    obtain r g1 where total: "submit ck a g = (Inr r, g1) \<and> kingdomsLoaded g1 \<and> (g_machine g1 = Playing \<or> g_machine g1 = Ended) \<and>
        (case r of Rejected e \<Rightarrow> g1 = g
         | Accepted evs \<Rightarrow> length (gs_history (g_state g1)) = length (gs_history (g_state g)) + 1 \<and>
             (g_machine g1 = Ended \<longleftrightarrow> evaluate_victory [lastPlayerStanding] (g_state g1\<lparr>gs_status := Playing\<rparr>) \<noteq> Inr None))"
      using kingdoms.submit_total [OF Cons.prems(2) playing, of ck a] by blast
    then have s: "submit ck a g = (Inr r, g1)" "kingdomsLoaded g1" "g_machine g1 = Playing \<or> g_machine g1 = Ended"
      "case r of Rejected e \<Rightarrow> g1 = g | Accepted evs \<Rightarrow> True" by (auto split: action_result.split)
    obtain rs1 where rs: "play ck as g1 = (Inr rs1, g')" "rs = r # rs1"
      using Cons.prems(1) False s(1) by (auto split: sum.splits prod.splits)
    define lg1 where "lg1 = fold (logStep pl) (eventsOf now gid [r]) lg"
    have "inStep lg1 (currentRound (gs_rounds (g_state g1)))"
    proof (cases r)
      case (Rejected e)
      with s(4) Cons.prems(4) show ?thesis by (simp add: lg1_def eventsOf_def onBus_def)
    next
      case (Accepted es)
      have "kingdoms_ok (g_state g)" using Cons.prems(2) by (simp add: game_loaded_def)
      with logged_run(2) [OF submit_logged [OF Cons.prems(2) s(1) [unfolded Accepted], of now gid] _ Cons.prems(4), of pl] Accepted
      show ?thesis by (simp add: lg1_def eventsOf_def)
    qed
    from Cons.IH [OF rs(1) s(2,3) this] show ?thesis by (simp add: lg1_def rs(2) eventsOf_def onBus_def)
  qed
qed

lemma built: "steady lg \<Longrightarrow> lg_entries (flushEconomy pl r lg) = lg_entries lg"
  by (simp add: flushEconomy_def steady_def map_filter_simps)

lemma placed_rounds: "gs_rounds (fold place_piece ps s) = gs_rounds s"
  by (induction ps arbitrary: s) (simp_all add: place_piece_def)

lemma setupPlayer_rounds: "setupPlayer coords ip (own, caps, s) = (r, (own', caps', s')) \<Longrightarrow> gs_rounds s' = gs_rounds s"
  by (auto simp: setupPlayer_def Let_def put_inventory_def placed_rounds split: prod.splits if_splits option.splits)

lemma setupPlayers_rounds: "setupPlayers coords ips (own, caps, s) = (r, (own', caps', s')) \<Longrightarrow> gs_rounds s' = gs_rounds s"
proof (induction ips arbitrary: own caps s)
  case (Cons ip ips)
  obtain r1 own1 caps1 s1 where one: "setupPlayer coords ip (own, caps, s) = (r1, (own1, caps1, s1))" by (metis prod.exhaust)
  with Cons setupPlayer_rounds [OF one] show ?case by (cases r1) auto
qed simp

lemma kingdoms_first_round:
  assumes "createGameState gid kingdomsScenario ps seed = Inr s"
  shows "currentRound (gs_rounds s) = 1" "rm_turnOrder (gs_rounds s) = Clockwise"
proof -
  obtain m rounds where rm: "newRoundManager ps (sc_turnOrder kingdomsScenario) (sc_phases kingdomsScenario) (sc_initialPhaseId kingdomsScenario) = Inr rounds"
    and run: "kingdomsSetup ps (initial_state gid kingdomsScenario ps seed m rounds) = (Inr (), s)"
    using assms by (auto simp: createGameState_def Let_def kingdomsScenario_def split: if_splits sum.splits prod.splits)
  from rm have "currentRound rounds = 1" "rm_turnOrder rounds = Clockwise"
    by (auto simp: newRoundManager_def kingdomsScenario_def Let_def split: if_splits list.splits)
  moreover from run have "gs_rounds s = rounds"
    by (auto simp: kingdomsSetup_def Let_def initial_state_def split: sum.splits prod.splits dest!: setupPlayers_rounds)
  ultimately show "currentRound (gs_rounds s) = 1" "rm_turnOrder (gs_rounds s) = Clockwise" by simp_all
qed

lemma kingdoms_opening:
  assumes "roster_ok ps" "host_play ck gid kingdomsScenario ps seed as = Inr (rs, g)"
  shows "\<exists>g0. kingdomsLoaded g0 \<and> g_machine g0 = Playing \<and> currentRound (gs_rounds (g_state g0)) = 1 \<and> play ck as g0 = (Inr rs, g) \<and>
    gs_players (g_state g0) = newPlayerManager ps"
proof -
  obtain s where s: "createGameState gid kingdomsScenario ps seed = Inr s" "kingdoms_ok s" "gs_status s = Setup" "gs_history s = []"
    "gs_players s = newPlayerManager ps" using kingdoms_create [OF assms(1)] by blast
  obtain g1 where g1: "newGame s kingdomsScenario = Inr g1" "g_validators g1 = kingdoms_vs" "g_executors g1 = kingdoms_xs"
    "g_rules g1 = []" "g_victories g1 = [lastPlayerStanding]" "g_machine g1 = Setup" "g_state g1 = s"
    using s(3) by (simp add: newGame_kingdoms)
  have g0: "g_machine (game_start g1) = Playing" "g_state (game_start g1) = s\<lparr>gs_status := Playing\<rparr>"
    using g1(6,7) by (simp_all add: game_start_def transitionTo_def canTransitionTo_def)
  have "kingdoms_ok (s\<lparr>gs_status := Playing\<rparr>)" using s(2) by (simp add: kingdoms_ok_def extras_defs invs_ok_def)
  then have "kingdomsLoaded (game_start g1)"
    using g0 g1(2-5) s(4) by (simp add: game_loaded_def) (simp add: game_start_def)
  moreover have "play ck as (game_start g1) = (Inr rs, g)"
    using assms(2) s(1) g1(1) by (auto simp: host_play_def split: sum.splits prod.splits)
  ultimately show ?thesis using g0 kingdoms_first_round [OF s(1)] s(5) by (intro exI [of _ "game_start g1"]) simp
qed

text \<open>A log that begins with the action, after a reload or a late join.\<close>

lemma logEntry_refiled: "logEntry pl 1 ev = map_option (le_round_update (\<lambda>_. 1)) (logEntry pl rd ev)"
  by (cases "eventLine pl ev") (auto simp: logEntry_def)

lemma late_lines:
  assumes es: "loggedEvents s next' es" and ok': "kingdoms_ok s"
  shows "buildLogEntries es pl =
    (if next' = currentRound (gs_rounds s) then map (le_round_update (\<lambda>_. 1)) (newLines pl s next' es) else newLines pl s next' es)"
  using es unfolding loggedEvents_def
proof (elim disjE conjE exE)
  assume p: "next' = currentRound (gs_rounds s)" "\<forall>ev \<in> set es. plainEvent ev"
  have "buildLogEntries es pl = List.map_filter (logEntry pl 1) es"
    using plain_run [OF p(2), of pl emptyLog] by (simp add: buildLogEntries_def emptyLog_def Let_def flushEconomy_def map_filter_simps)
  moreover have "List.map_filter (logEntry pl 1) es = map (le_round_update (\<lambda>_. 1)) (List.map_filter (logEntry pl (currentRound (gs_rounds s))) es)"
    by (induction es) (auto simp: map_filter_simps logEntry_refiled [of pl _ "currentRound (gs_rounds s)"] split: option.split)
  ultimately show ?thesis by (simp add: newLines_def p(1))
next
  fix main rest
  assume r: "next' = currentRound (gs_rounds s) + 1" "es = main @ rest" "roundEvents (map pl_id (pm_active (gs_players s))) next' main"
    "\<forall>ev \<in> set rest. scenarioPayload ev = None"
  have acc: "accumOf p es = accumOf p main" for p
    unfolding accumOf_def r(2) using silent_run [OF r(4)] by (simp add: accumOf_skip)
  have st: "steady emptyLog" by (simp add: steady_def emptyLog_def)
  from round_run [OF r(3) [unfolded r(1)] active_distinct [OF ok'] st, of pl] silent_run [OF r(4)]
  show ?thesis
    by (simp add: newLines_def r(1,2) acc [unfolded r(2)] Let_def buildLogEntries_def flushEconomy_def emptyLog_def map_filter_simps)
qed

text \<open> C18: In every game of Kingdoms, played from its start with any roster, seed and actions, the log a client keeps
  of all its events grows with each accepted action by lines of the round the action was made in: one for each event
  worth a line, or, when the action ends the round, at most one for each player still in the game, with what income, upkeep
  and purchases of just this round add up to if they add up to anything, then the marker; the panel shows the lines newest
  first. A client that has seen nothing before this action files the same lines under round 1, whatever the round, unless
  the action ends a round: then it files them under the right one. \<close>
theorem log_follows_game:
  assumes ps: "roster_ok ps" and played: "host_play ck gid kingdomsScenario ps seed as = Inr (rs, g)"
    and run: "submit ck a g = (Inr (Accepted es), g')"
    and past: "past = eventsOf now gid rs" and new: "new = onBus now gid es" and next': "next' = currentRound (gs_rounds (g_state g'))"
  shows "buildLogEntries (past @ new) pl = buildLogEntries past pl @ newLines pl (g_state g) next' new \<and>
    (\<forall>e \<in> set (newLines pl (g_state g) next' new). le_round e = currentRound (gs_rounds (g_state g))) \<and>
    shownLog (buildLogEntries (past @ new) pl) = rev (buildLogEntries (past @ new) pl) \<and>
    buildLogEntries new pl = (if next' = currentRound (gs_rounds (g_state g))
       then map (le_round_update (\<lambda>_. 1)) (newLines pl (g_state g) next' new) else newLines pl (g_state g) next' new)"
proof -
  obtain g0 where start: "kingdomsLoaded g0" "g_machine g0 = Playing" "currentRound (gs_rounds (g_state g0)) = 1" "play ck as g0 = (Inr rs, g)"
    using kingdoms_opening [OF ps played] by blast
  have g: "kingdomsLoaded g" "kingdoms_ok (g_state g)" using kingdoms_host_play [OF ps, of ck gid seed as] played by (auto simp: game_loaded_def)
  note logged = submit_logged [OF g(1) run, of now gid, folded new next']
  define lg where "lg = fold (logStep pl) past emptyLog"
  have "inStep emptyLog (currentRound (gs_rounds (g_state g0)))" by (simp add: inStep_def steady_def emptyLog_def start(3))
  from play_inStep [OF start(4,1) _ this, of pl now gid] start(2) have lg: "inStep lg (currentRound (gs_rounds (g_state g)))"
    by (simp add: lg_def past)
  note step = logged_run [OF logged g(2) lg, of pl]
  have old: "buildLogEntries past pl = lg_entries lg" using lg by (simp add: buildLogEntries_def Let_def built inStep_def flip: lg_def)
  have all: "buildLogEntries (past @ new) pl = lg_entries (fold (logStep pl) new lg)"
    using step(2) by (simp add: buildLogEntries_def Let_def built inStep_def flip: lg_def)
  have shown: "shownLog (buildLogEntries (past @ new) pl) = rev (buildLogEntries (past @ new) pl)"
    unfolding all by (rule shownLog_newest_first) (use step(2) in \<open>simp add: inStep_def\<close>)
  show ?thesis using step(1) newLines_round shown late_lines [OF logged g(2), of pl] unfolding all old by blast
qed

section \<open>A first turn\<close>

lemma endTurn_accepted:
  assumes g: "kingdomsLoaded g" "g_machine g = Playing" "gs_players (g_state g) = newPlayerManager ps"
    and a: "ac_type a = ''end-turn''" "ac_playerId a = Some (activePlayer (currentTurn (gs_rounds (g_state g))))"
  shows "\<exists>es g'. submit ck a g = (Inr (Accepted es), g')"
proof -
  let ?p = "activePlayer (currentTurn (gs_rounds (g_state g)))"
  have pl: "players_ok (newPlayerManager ps) (gs_inventories (g_state g)) ?p"
    using g(1,3) by (simp add: game_loaded_def kingdoms_ok_def)
  then have "?p \<noteq> []" "\<not> isEliminated (newPlayerManager ps) ?p"
    using all_active_new isEliminated_iff [of "newPlayerManager ps" ?p] by (auto simp: players_ok_def)
  then have "endTurnValidator (g_state g) a = accept" using g(3) by (simp add: endTurnValidator_def guard_None a)
  then have val: "validate_action kingdoms_vs (g_state g) a = accept"
    by (simp add: validate_action_def getValidator_def kingdoms_vs_def kingdomsValidators_def kvalidator_def a)
  from kingdoms.submit_total [OF g(1,2), of ck a] obtain r g' where s: "submit ck a g = (Inr r, g')" by blast
  have "g_validators g = kingdoms_vs" using g(1) by (simp add: game_loaded_def)
  with s val submit_rejected [of ck a g _ g'] have "\<exists>es. r = Accepted es" by (cases r) auto
  with s show ?thesis by blast
qed

lemma first_turn:
  assumes "roster_ok ps"
  shows "\<exists>rs g a es g'. host_play ck gid kingdomsScenario ps seed [] = Inr (rs, g) \<and> submit ck a g = (Inr (Accepted es), g')"
proof -
  obtain rs g where h: "host_play ck gid kingdomsScenario ps seed [] = Inr (rs, g)" using kingdoms_host_play [OF assms] by blast
  from kingdoms_opening [OF assms h] have g: "kingdomsLoaded g" "g_machine g = Playing" "gs_players (g_state g) = newPlayerManager ps" by auto
  define a :: kaction where "a = \<lparr>ac_type = ''end-turn'', ac_playerId = Some (activePlayer (currentTurn (gs_rounds (g_state g)))),
    ac_payload = exPayload, ac_clientSeq = None\<rparr>"
  have "ac_type a = ''end-turn''" "ac_playerId a = Some (activePlayer (currentTurn (gs_rounds (g_state g))))" by (simp_all add: a_def)
  from endTurn_accepted [OF g this, of ck] h show ?thesis by blast
qed

lemma log_follows_game_witness:
  "\<exists>rs g a es g'. submit \<lparr>ck_stamp = (\<lambda>n. n), ck_append = int\<rparr> a g = (Inr (Accepted es), g') \<and>
     buildLogEntries (eventsOf 0 ''g'' rs @ onBus 0 ''g'' es) [] =
     buildLogEntries (eventsOf 0 ''g'' rs) [] @ newLines [] (g_state g) (currentRound (gs_rounds (g_state g'))) (onBus 0 ''g'' es)"
proof -
  let ?ck = "\<lparr>ck_stamp = (\<lambda>n. n), ck_append = int\<rparr>"
  obtain rs g a es g' where "host_play ?ck ''g'' kingdomsScenario exRoster ''seed'' [] = Inr (rs, g)" "submit ?ck a g = (Inr (Accepted es), g')"
    using first_turn [OF exRoster_ok] by blast
  from this(2) log_follows_game [where now = 0 and pl = "[]", OF exRoster_ok this refl refl refl] show ?thesis by blast
qed

end
