(* ===== verification/KingdomsBoard.thy ===== *)
theory KingdomsBoard
  imports KingdomsPage EventLog
begin

text \<open>
  The board of the Kingdoms page, \<open>apps/web/src/games/kingdoms/KingdomsBoard.tsx\<close>: what a tile shows (its
  bubbles, its siege, whether it is dimmed), and the state machine of pointer, wheel and touch that pans and zooms
  the view box and decides which clicks reach the page. Doubles are real numbers; a view box with a coordinate that
  is NaN is \<open>None\<close>.
\<close>

section \<open>What a tile shows (HexTile)\<close>

record unit_bubble =
  ub_ownerId :: string
  ub_kind :: string
  ub_color :: string
  ub_count :: nat

definition bubbleKey :: "tilepiece_view \<Rightarrow> string" where
  "bubbleKey p = kv_owner p @ '':'' @ kv_kind p"

definition addBubble :: "kplayer_view list \<Rightarrow> tilepiece_view \<Rightarrow> (string, unit_bubble) jsmap \<Rightarrow> (string, unit_bubble) jsmap" where
  "addBubble players p m =
     (if kv_attack p = None then m
      else if kv_owner p \<in> kp_id ` set (filter kp_isEliminated players) then m
      else case find (\<lambda>q. kp_id q = kv_owner p) players of
             None \<Rightarrow> m
           | Some pView \<Rightarrow>
               jput (bubbleKey p)
                 (case jget m (bubbleKey p) of
                    Some entry \<Rightarrow> entry\<lparr>ub_count := ub_count entry + 1\<rparr>
                  | None \<Rightarrow> \<lparr>ub_ownerId = kv_owner p, ub_kind = kv_kind p, ub_color = playerColor (kp_color pView), ub_count = 1\<rparr>) m)"

definition buildUnitBubbles :: "ktile_view \<Rightarrow> kplayer_view list \<Rightarrow> unit_bubble list" where
  "buildUnitBubbles t players = take 3 (jvals (fold (addBubble players) (kt_pieces t) []))"

record occupation_info =
  oi_color :: string
  oi_loyalty :: int

definition occupationMap :: "kturn_state \<Rightarrow> kplayer_view list \<Rightarrow> (string, occupation_info) jsmap" where
  "occupationMap ts players =
     fold (\<lambda>(tileId, l) m.
         case find (\<lambda>p. kp_id p = tl_lastAttackerId l) players of
           Some pView \<Rightarrow> jput tileId \<lparr>oi_color = playerColor (kp_color pView), oi_loyalty = tl_loyalty l\<rparr> m
         | None \<Rightarrow> m)
       (kts_tileLoyalty ts) []"

definition capturedPct :: "occupation_info option \<Rightarrow> int" where
  "capturedPct occupation = (case occupation of Some oi \<Rightarrow> 100 - oi_loyalty oi | None \<Rightarrow> 0)"

datatype board_mode = BoardIdle | BoardMove | BoardAttack

definition isDimmedForAction :: "board_mode \<Rightarrow> bool \<Rightarrow> bool \<Rightarrow> bool \<Rightarrow> bool" where
  "isDimmedForAction mode isSelected isMoveTarget isAttackTarget \<longleftrightarrow>
     \<not> isSelected \<and> (mode = BoardAttack \<and> \<not> isAttackTarget \<or> mode = BoardMove \<and> \<not> isMoveTarget)"

definition cursorClass :: "board_mode \<Rightarrow> bool \<Rightarrow> bool \<Rightarrow> string" where
  "cursorClass mode isMoveTarget isAttackTarget =
     (if mode = BoardMove \<and> isMoveTarget then ''k-hex--move-target''
      else if mode = BoardAttack \<and> isAttackTarget then ''k-hex--attack-target''
      else ''k-hex--selectable'')"

section \<open>What the page hands to the board\<close>

definition boardMode :: "kpage \<Rightarrow> board_mode" where
  "boardMode pg =
     (if pg_mode pg = ModeAttack \<or> pg_mode pg = ModeAttackSelect then BoardAttack
      else if pg_mode pg = ModeSendTroops \<and> truthy (pg_sendToTileId pg) = None then BoardMove
      else BoardIdle)"

definition reachableTiles :: "kingdoms_view \<Rightarrow> string option \<Rightarrow> kpage \<Rightarrow> string set" where
  "reachableTiles view userId pg =
     (if truthy userId \<noteq> None \<and> pg_mode pg = ModeSendTroops \<and> truthy (pg_sendFromTileId pg) \<noteq> None \<and> truthy (pg_sendToTileId pg) = None
      then kt_id ` set (filter (\<lambda>t. kt_owner t = userId \<and> Some (kt_id t) \<noteq> pg_sendFromTileId pg) (kv_tiles view)) else {})"

definition tileDimmed :: "kingdoms_view \<Rightarrow> string option \<Rightarrow> kpage \<Rightarrow> string \<Rightarrow> bool" where
  "tileDimmed view userId pg t =
     isDimmedForAction (boardMode pg) (Some t = pg_selectedTileId pg) (t \<in> reachableTiles view userId pg)
       (t \<in> (if pg_mode pg = ModeAttack then attackTargetTiles view userId pg else attackableTiles view userId))"

section \<open>Panning and zooming (KingdomsBoard)\<close>

record viewbox =
  vb_x :: real
  vb_y :: real
  vb_w :: real
  vb_h :: real

type_synonym screen_point = "real \<times> real"

text \<open>The box of the drawing on the screen (\<open>getBoundingClientRect\<close>).\<close>

record client_rect =
  cr_left :: real
  cr_top :: real
  cr_width :: real
  cr_height :: real

record drag =
  dg_client :: screen_point
  dg_vb :: "(real \<times> real) option"
  dg_moved :: bool

record pinch =
  pi_dist :: real
  pi_vb :: "viewbox option"
  pi_mid :: "real \<times> real"

text \<open>
  The state the board keeps in hooks and closures. A handler runs to its end, with the render and the effect
  that follows, before the next event; so \<open>vb\<close>, the \<open>prev\<close> of an update and \<open>vbRef.current\<close> are one value.
\<close>

record board_state =
  bs_vb :: "viewbox option"
  bs_drag :: "drag option"
  bs_justPanned :: bool
  bs_pinch :: "pinch option"

definition INITIAL_VB :: viewbox where
  "INITIAL_VB = \<lparr>vb_x = -380, vb_y = -330, vb_w = 760, vb_h = 660\<rparr>"

definition MIN_VB_W :: real where
  "MIN_VB_W = 200"

definition MAX_VB_W :: real where
  "MAX_VB_W = 1100"

definition freshBoard :: board_state where
  "freshBoard = \<lparr>bs_vb = Some INITIAL_VB, bs_drag = None, bs_justPanned = False, bs_pinch = None\<rparr>"

definition startDrag :: "screen_point \<Rightarrow> board_state \<Rightarrow> board_state" where
  "startDrag c b = b\<lparr>bs_drag := Some \<lparr>dg_client = c, dg_vb = map_option (\<lambda>v. (vb_x v, vb_y v)) (bs_vb b), dg_moved = False\<rparr>\<rparr>"

definition onSvgMouseDown :: "int \<Rightarrow> screen_point \<Rightarrow> board_state \<Rightarrow> board_state" where
  "onSvgMouseDown button c b = (if button \<noteq> 0 then b else startDrag c b)"

text \<open>\<open>Math.abs(dx) < 4 && Math.abs(dy) < 4\<close>\<close>

definition nearby :: "screen_point \<Rightarrow> screen_point \<Rightarrow> bool" where
  "nearby p c \<longleftrightarrow> \<bar>fst c - fst p\<bar> < 4 \<and> \<bar>snd c - snd p\<bar> < 4"

definition panTo :: "client_rect \<Rightarrow> screen_point \<Rightarrow> screen_point \<Rightarrow> real \<times> real \<Rightarrow> viewbox \<Rightarrow> viewbox" where
  "panTo rect start c vb0 v =
     v\<lparr>vb_x := fst vb0 - (fst c - fst start) * (vb_w v / cr_width rect),
       vb_y := snd vb0 - (snd c - snd start) * (vb_h v / cr_height rect)\<rparr>"

definition onSvgMouseMove :: "client_rect \<Rightarrow> screen_point \<Rightarrow> board_state \<Rightarrow> board_state" where
  "onSvgMouseMove rect c b =
     (case bs_drag b of
        None \<Rightarrow> b
      | Some d \<Rightarrow>
          if \<not> dg_moved d \<and> nearby (dg_client d) c then b
          else b\<lparr>bs_drag := Some (d\<lparr>dg_moved := True\<rparr>),
                 bs_vb := (case (dg_vb d, bs_vb b) of (Some vb0, Some v) \<Rightarrow> Some (panTo rect (dg_client d) c vb0 v) | _ \<Rightarrow> None)\<rparr>)"

definition panned :: "board_state \<Rightarrow> bool" where
  "panned b = (case bs_drag b of Some d \<Rightarrow> dg_moved d | None \<Rightarrow> False)"

text \<open>Also the handler of the pointer that leaves the drawing.\<close>

definition onSvgMouseUp :: "board_state \<Rightarrow> board_state" where
  "onSvgMouseUp b = b\<lparr>bs_justPanned := (bs_justPanned b \<or> panned b), bs_drag := None\<rparr>"

text \<open>The result says whether the click goes on to the tile.\<close>

definition onSvgClickCapture :: "board_state \<Rightarrow> bool \<times> board_state" where
  "onSvgClickCapture b = (if bs_justPanned b then (False, b\<lparr>bs_justPanned := False\<rparr>) else (True, b))"

definition clampW :: "real \<Rightarrow> real" where
  "clampW w = max MIN_VB_W (min MAX_VB_W w)"

text \<open>The position of a point of the screen, as a share of the box.\<close>

definition share :: "client_rect \<Rightarrow> screen_point \<Rightarrow> real \<times> real" where
  "share rect c = ((fst c - cr_left rect) / cr_width rect, (snd c - cr_top rect) / cr_height rect)"

definition zoomTo :: "real \<times> real \<Rightarrow> real \<Rightarrow> viewbox \<Rightarrow> viewbox" where
  "zoomTo p newW v =
     (let newH = newW * (vb_h v / vb_w v)
      in \<lparr>vb_x = vb_x v + fst p * (vb_w v - newW), vb_y = vb_y v + snd p * (vb_h v - newH), vb_w = newW, vb_h = newH\<rparr>)"

definition onWheel :: "client_rect \<Rightarrow> real \<Rightarrow> screen_point \<Rightarrow> board_state \<Rightarrow> board_state" where
  "onWheel rect deltaY c b =
     (let factor = (if deltaY > 0 then 1.14 else 0.88)
      in b\<lparr>bs_vb := map_option (\<lambda>v. zoomTo (share rect c) (clampW (vb_w v * factor)) v) (bs_vb b)\<rparr>)"

subsection \<open>Touch\<close>

definition touchDist :: "screen_point \<Rightarrow> screen_point \<Rightarrow> real" where
  "touchDist a b = sqrt ((fst b - fst a)\<^sup>2 + (snd b - snd a)\<^sup>2)"

definition onTouchStart :: "client_rect \<Rightarrow> screen_point list \<Rightarrow> board_state \<Rightarrow> board_state" where
  "onTouchStart rect touches b =
     (case touches of
        [t] \<Rightarrow> startDrag t b
      | [t, u] \<Rightarrow>
          b\<lparr>bs_drag := None,
            bs_pinch := Some \<lparr>pi_dist = touchDist t u, pi_vb = bs_vb b,
                              pi_mid = share rect ((fst t + fst u) / 2, (snd t + snd u) / 2)\<rparr>\<rparr>
      | _ \<Rightarrow> b)"

text \<open>
  \<open>pinchStartW * (pinchStartDist / touchDist(\<dots>))\<close>, between the limits: fingers that meet at one point give the quotient
  \<open>Infinity\<close>, and fingers that never were apart the quotient \<open>NaN\<close>.
\<close>

definition pinchWidth :: "real \<Rightarrow> real \<Rightarrow> real \<Rightarrow> real option" where
  "pinchWidth w d0 d = (if d = 0 then (if d0 = 0 then None else Some MAX_VB_W) else Some (clampW (w * (d0 / d))))"

definition onTouchMove :: "client_rect \<Rightarrow> screen_point list \<Rightarrow> board_state \<Rightarrow> board_state" where
  "onTouchMove rect touches b =
     (case (touches, bs_pinch b) of
        ([t, u], Some p) \<Rightarrow>
          b\<lparr>bs_vb :=
              (case pi_vb p of
                 None \<Rightarrow> None
               | Some v \<Rightarrow> map_option (\<lambda>newW. zoomTo (pi_mid p) newW v) (pinchWidth (vb_w v) (pi_dist p) (touchDist t u)))\<rparr>
      | ([t], _) \<Rightarrow> onSvgMouseMove rect t b
      | _ \<Rightarrow> b)"

definition onTouchEnd :: "screen_point list \<Rightarrow> board_state \<Rightarrow> board_state" where
  "onTouchEnd touches b =
     (let b1 = b\<lparr>bs_justPanned := (bs_justPanned b \<or> panned b)\<rparr>
      in if touches = [] then b1\<lparr>bs_drag := None, bs_pinch := None\<rparr> else b1)"

subsection \<open>Events\<close>

text \<open>
  What the browser reports. A click and a key name the tile they fall on; the lists of touches are the fingers that
  stay on the board. Whether a click follows a press and a release is the browser's choice: it does when both are on the board,
  and does not when the pointer is released outside or a touch was moved.
\<close>

datatype board_input =
    MouseDown int screen_point
  | MouseMove screen_point
  | MouseUp
  | MouseLeave
  | Click "string option"
  | Key string string
  | Wheel real screen_point
  | TouchStart "screen_point list"
  | TouchMove "screen_point list"
  | TouchEnd "screen_point list"

definition boardStep :: "client_rect \<Rightarrow> board_input \<Rightarrow> board_state \<Rightarrow> board_state \<times> string list" where
  "boardStep rect i b =
     (case i of
        MouseDown button c \<Rightarrow> (onSvgMouseDown button c b, [])
      | MouseMove c \<Rightarrow> (onSvgMouseMove rect c b, [])
      | MouseUp \<Rightarrow> (onSvgMouseUp b, [])
      | MouseLeave \<Rightarrow> (onSvgMouseUp b, [])
      | Click t \<Rightarrow> (let (goesOn, b1) = onSvgClickCapture b in (b1, if goesOn then (case t of Some i \<Rightarrow> [i] | None \<Rightarrow> []) else []))
      | Key t key \<Rightarrow> (b, if key = ''Enter'' \<or> key = '' '' then [t] else [])
      | Wheel deltaY c \<Rightarrow> (onWheel rect deltaY c b, [])
      | TouchStart ts \<Rightarrow> (onTouchStart rect ts b, [])
      | TouchMove ts \<Rightarrow> (onTouchMove rect ts b, [])
      | TouchEnd ts \<Rightarrow> (onTouchEnd ts b, []))"

text \<open>A run of events, with the box of the drawing at each; the clicks on tiles reach the handler of the page.\<close>

fun boardRun :: "kingdoms_view \<Rightarrow> string option \<Rightarrow> (client_rect \<times> board_input) list \<Rightarrow> board_state \<times> kpage \<Rightarrow> board_state \<times> kpage" where
  "boardRun view userId [] bp = bp"
| "boardRun view userId ((rect, i) # ins) (b, pg) =
     (let (b1, ts) = boardStep rect i b in boardRun view userId ins (b1, fold (handleTileClick view userId) ts pg))"

section \<open>Every bubble counts its units\<close>

definition bubbling :: "kplayer_view list \<Rightarrow> tilepiece_view \<Rightarrow> bool" where
  "bubbling players p \<longleftrightarrow> kv_attack p \<noteq> None \<and> kv_owner p \<notin> kp_id ` set (filter kp_isEliminated players) \<and>
     kv_owner p \<in> kp_id ` set players"

lemma addBubble_cases:
  "addBubble players p m =
     (if bubbling players p
      then jput (bubbleKey p) (case jget m (bubbleKey p) of Some e \<Rightarrow> e\<lparr>ub_count := ub_count e + 1\<rparr>
             | None \<Rightarrow> \<lparr>ub_ownerId = kv_owner p, ub_kind = kv_kind p,
                        ub_color = playerColor (kp_color (the (find (\<lambda>q. kp_id q = kv_owner p) players))), ub_count = 1\<rparr>) m
      else m)"
proof (cases "find (\<lambda>q. kp_id q = kv_owner p) players")
  case None
  then have "kv_owner p \<notin> kp_id ` set players" by (auto simp: find_None_iff)
  with None show ?thesis by (simp add: addBubble_def bubbling_def)
next
  case (Some q)
  then have "kv_owner p \<in> kp_id ` set players" using find_SomeD [OF Some] by force
  then show ?thesis unfolding addBubble_def bubbling_def Some option.case option.sel by simp
qed

lemma bubble_counts:
  "map_option ub_count (jget (fold (addBubble players) ps []) k) =
     (let n = length (filter (\<lambda>p. bubbling players p \<and> bubbleKey p = k) ps) in if n = 0 then None else Some n)"
  by (induction ps rule: rev_induct) (auto simp: addBubble_cases Let_def split: option.splits if_splits)

section \<open>The view box keeps its limits and its shape\<close>

definition box_ok :: "viewbox \<Rightarrow> bool" where
  "box_ok v \<longleftrightarrow> MIN_VB_W \<le> vb_w v \<and> vb_w v \<le> MAX_VB_W \<and> vb_h v * 760 = vb_w v * 660"

definition viewport_ok :: "board_state \<Rightarrow> bool" where
  "viewport_ok b \<longleftrightarrow> (\<forall>v. bs_vb b = Some v \<longrightarrow> box_ok v) \<and> (\<forall>p v. bs_pinch b = Some p \<longrightarrow> pi_vb p = Some v \<longrightarrow> box_ok v)"

lemma clampW_bounds: "MIN_VB_W \<le> clampW w" "clampW w \<le> MAX_VB_W"
  by (simp_all add: clampW_def MIN_VB_W_def MAX_VB_W_def)

lemma zoomTo_ok: "box_ok v \<Longrightarrow> MIN_VB_W \<le> w \<Longrightarrow> w \<le> MAX_VB_W \<Longrightarrow> box_ok (zoomTo p w v)"
  by (simp add: box_ok_def zoomTo_def Let_def MIN_VB_W_def field_simps)

lemma pinchWidth_bounds: "pinchWidth w d0 d = Some n \<Longrightarrow> MIN_VB_W \<le> n \<and> n \<le> MAX_VB_W"
  using clampW_bounds by (auto simp: pinchWidth_def MIN_VB_W_def MAX_VB_W_def split: if_splits)

lemma panTo_ok: "box_ok v \<Longrightarrow> box_ok (panTo rect s c vb0 v)"
  by (simp add: box_ok_def panTo_def)

lemma mouseMove_ok: "viewport_ok b \<Longrightarrow> viewport_ok (onSvgMouseMove rect c b)"
  by (auto simp: onSvgMouseMove_def viewport_ok_def intro: panTo_ok split: option.splits if_splits)

lemma startDrag_ok: "viewport_ok b \<Longrightarrow> viewport_ok (startDrag c b)"
  by (simp add: startDrag_def viewport_ok_def)

lemma wheel_ok: "viewport_ok b \<Longrightarrow> viewport_ok (onWheel rect dy c b)"
  unfolding viewport_ok_def onWheel_def Let_def using zoomTo_ok [OF _ clampW_bounds(1) clampW_bounds(2)] by (simp split: option.split) blast

lemma touches_cases:
  obtains "ts = []" | t where "ts = [t]" | t u where "ts = [t, u]" | t u v vs where "ts = t # u # v # vs"
  by (metis list.exhaust)

lemma touchStart_ok: "viewport_ok b \<Longrightarrow> viewport_ok (onTouchStart rect ts b)"
  by (rule touches_cases [of ts]) (simp_all add: onTouchStart_def startDrag_ok, simp_all add: viewport_ok_def)

lemma pinched_ok:
  assumes b: "viewport_ok b" "bs_pinch b = Some p"
  shows "viewport_ok (onTouchMove rect [t, u] b)"
proof (cases "pi_vb p")
  case (Some v)
  then have "box_ok v" using b by (simp add: viewport_ok_def)
  then have "box_ok (zoomTo (pi_mid p) n v)" if "pinchWidth (vb_w v) (pi_dist p) (touchDist t u) = Some n" for n
    using pinchWidth_bounds [OF that] zoomTo_ok by blast
  then show ?thesis using b Some by (auto simp: onTouchMove_def viewport_ok_def)
qed (use b in \<open>simp add: onTouchMove_def viewport_ok_def\<close>)

lemma touchMove_ok:
  assumes b: "viewport_ok b"
  shows "viewport_ok (onTouchMove rect ts b)"
proof (rule touches_cases [of ts])
  fix t u
  assume "ts = [t, u]"
  then show ?thesis using b pinched_ok by (cases "bs_pinch b") (simp_all add: onTouchMove_def)
qed (use b mouseMove_ok in \<open>simp_all add: onTouchMove_def\<close>)

lemma touchEnd_ok: "viewport_ok b \<Longrightarrow> viewport_ok (onTouchEnd ts b)"
  by (simp add: onTouchEnd_def viewport_ok_def Let_def)

lemma mouseUp_ok: "viewport_ok b \<Longrightarrow> viewport_ok (onSvgMouseUp b)"
  by (simp add: onSvgMouseUp_def viewport_ok_def)

lemma boardStep_ok:
  assumes "viewport_ok b"
  shows "viewport_ok (fst (boardStep rect i b))"
proof (cases i)
  case (Click t)
  then show ?thesis using assms by (simp add: boardStep_def onSvgClickCapture_def viewport_ok_def)
qed (use assms in \<open>simp_all add: boardStep_def onSvgMouseDown_def wheel_ok touchStart_ok touchMove_ok touchEnd_ok mouseUp_ok
  mouseMove_ok startDrag_ok\<close>)

lemma boardRun_ok: "boardRun view u ins (b, pg) = (b', pg') \<Longrightarrow> viewport_ok b \<Longrightarrow> viewport_ok b'"
proof (induction ins arbitrary: b pg)
  case (Cons ri ins)
  obtain rect i where "ri = (rect, i)" by fastforce
  with Cons boardStep_ok [of b rect i] show ?case by (auto simp: split_beta Let_def)
qed simp

lemma freshBoard_ok: "viewport_ok freshBoard"
  by (simp add: viewport_ok_def freshBoard_def box_ok_def INITIAL_VB_def MIN_VB_W_def MAX_VB_W_def)

section \<open>Gestures\<close>

text \<open>A press at a point, the pointer moving on, and how it ends.\<close>

definition gesture :: "client_rect \<Rightarrow> screen_point \<Rightarrow> screen_point list \<Rightarrow> board_input list \<Rightarrow> (client_rect \<times> board_input) list" where
  "gesture rect p cs ending = map (Pair rect) (MouseDown 0 p # map MouseMove cs @ ending)"

lemma boardRun_append: "boardRun view u (xs @ ys) bp = boardRun view u ys (boardRun view u xs bp)"
  by (induction view u xs bp rule: boardRun.induct) (simp_all add: split_beta Let_def)

text \<open>Small movements of a pressed pointer change nothing; a larger one makes the press a drag.\<close>

lemma moves_run:
  assumes "bs_drag b = Some d"
  shows "\<exists>b' d'. boardRun view u (map (\<lambda>c. (rect, MouseMove c)) cs) (b, pg) = (b', pg) \<and> bs_drag b' = Some d' \<and>
    bs_justPanned b' = bs_justPanned b \<and> (dg_moved d' \<longleftrightarrow> dg_moved d \<or> (\<exists>c \<in> set cs. \<not> nearby (dg_client d) c)) \<and>
    (\<not> dg_moved d' \<longrightarrow> b' = b)"
  using assms
proof (induction cs arbitrary: b d)
  case (Cons c cs)
  show ?case
  proof (cases "\<not> dg_moved d \<and> nearby (dg_client d) c")
    case True
    then have "onSvgMouseMove rect c b = b" using Cons.prems by (simp add: onSvgMouseMove_def)
    then show ?thesis using Cons.IH [OF Cons.prems] True by (simp add: boardStep_def)
  next
    case False
    then have moved: "dg_moved d \<or> (\<exists>x \<in> set (c # cs). \<not> nearby (dg_client d) x)" by auto
    define b1 where "b1 = onSvgMouseMove rect c b"
    have b1: "bs_drag b1 = Some (d\<lparr>dg_moved := True\<rparr>)" "bs_justPanned b1 = bs_justPanned b"
      using False Cons.prems unfolding b1_def onSvgMouseMove_def by auto
    from Cons.IH [OF b1(1)] obtain b' d' where
      "boardRun view u (map (\<lambda>c. (rect, MouseMove c)) cs) (b1, pg) = (b', pg)" "bs_drag b' = Some d'"
      "bs_justPanned b' = bs_justPanned b1" "dg_moved d'" by auto
    with b1(2) moved show ?thesis by (auto simp: boardStep_def simp flip: b1_def)
  qed
qed simp

lemma gesture_run:
  "\<exists>b' d'. boardRun view u (gesture rect p cs ending) (b, pg) = boardRun view u (map (Pair rect) ending) (b', pg) \<and>
     bs_drag b' = Some d' \<and> bs_justPanned b' = bs_justPanned b \<and> (dg_moved d' \<longleftrightarrow> (\<exists>c \<in> set cs. \<not> nearby p c)) \<and>
     (\<not> dg_moved d' \<longrightarrow> b' = startDrag p b)"
proof -
  have "bs_drag (startDrag p b) = Some \<lparr>dg_client = p, dg_vb = map_option (\<lambda>v. (vb_x v, vb_y v)) (bs_vb b), dg_moved = False\<rparr>"
    by (simp add: startDrag_def)
  from moves_run [OF this, of view u rect cs pg] show ?thesis
    by (fastforce simp: gesture_def comp_def boardRun_append boardStep_def onSvgMouseDown_def startDrag_def)
qed

text \<open>A still press and its click reach the page, unless an earlier drag still waits for its click.\<close>

lemma still_click:
  assumes "\<forall>c \<in> set cs. nearby p c"
  shows "boardRun view u (gesture rect p cs [MouseUp, Click (Some t)]) (b, pg) =
    (b\<lparr>bs_drag := None, bs_justPanned := False\<rparr>, if bs_justPanned b then pg else handleTileClick view u t pg)"
proof -
  obtain b' d' where b': "boardRun view u (gesture rect p cs [MouseUp, Click (Some t)]) (b, pg) =
      boardRun view u (map (Pair rect) [MouseUp, Click (Some t)]) (b', pg)"
    "bs_drag b' = Some d'" "\<not> dg_moved d'" "b' = startDrag p b" using gesture_run [of view u rect p cs] assms by blast
  have p: "panned b' = False" using b'(2,3) by (simp add: panned_def)
  show ?thesis unfolding b'(1) using p b'(4)
    by (auto simp: boardStep_def onSvgMouseUp_def onSvgClickCapture_def startDrag_def)
qed

lemma drag_arms:
  assumes "\<exists>c \<in> set cs. \<not> nearby p c" "e = MouseUp \<or> e = MouseLeave"
  shows "\<exists>b'. boardRun view u (gesture rect p cs [e]) (b, pg) = (b', pg) \<and> bs_justPanned b' \<and> bs_drag b' = None"
proof -
  obtain b' d' where b': "boardRun view u (gesture rect p cs [e]) (b, pg) = boardRun view u (map (Pair rect) [e]) (b', pg)"
    "bs_drag b' = Some d'" "dg_moved d'" using gesture_run [of view u rect p cs] assms(1) by blast
  then show ?thesis using assms(2) by (auto simp: boardStep_def onSvgMouseUp_def panned_def)
qed

section \<open>The point under the pointer\<close>

text \<open>
  How an SVG drawing places its view box in its box on the screen, for \<open>preserveAspectRatio="xMidYMid meet"\<close>:
  scaled to fit, and centred.
\<close>

definition fitScale :: "client_rect \<Rightarrow> viewbox \<Rightarrow> real" where
  "fitScale rect v = min (cr_width rect / vb_w v) (cr_height rect / vb_h v)"

definition underPointer :: "client_rect \<Rightarrow> viewbox \<Rightarrow> screen_point \<Rightarrow> real \<times> real" where
  "underPointer rect v c =
     (vb_x v + vb_w v / 2 + (fst c - cr_left rect - cr_width rect / 2) / fitScale rect v,
      vb_y v + vb_h v / 2 + (snd c - cr_top rect - cr_height rect / 2) / fitScale rect v)"

definition fits :: "client_rect \<Rightarrow> viewbox \<Rightarrow> bool" where
  "fits rect v \<longleftrightarrow> 0 < cr_width rect \<and> 0 < cr_height rect \<and> cr_width rect * vb_h v = cr_height rect * vb_w v"

lemma centred: "0 < (W :: real) \<Longrightarrow> 0 < w \<Longrightarrow> x + w / 2 + (a - l - W / 2) / (W / w) = x + (a - l) / W * w"
  by (simp add: field_simps)

lemma underPointer_share:
  assumes "fits rect v" "0 < vb_w v" "0 < vb_h v"
  shows "underPointer rect v c = (vb_x v + fst (share rect c) * vb_w v, vb_y v + snd (share rect c) * vb_h v)"
proof -
  have eq: "cr_width rect / vb_w v = cr_height rect / vb_h v" using assms by (simp add: fits_def field_simps)
  then have "fitScale rect v = cr_width rect / vb_w v" "fitScale rect v = cr_height rect / vb_h v" by (simp_all add: fitScale_def)
  then show ?thesis using assms by (simp only: underPointer_def share_def fits_def centred fst_conv snd_conv) (metis centred)
qed

lemma box_ok_pos: "box_ok v \<Longrightarrow> 0 < vb_w v \<and> 0 < vb_h v"
  by (auto simp: box_ok_def MIN_VB_W_def)

text \<open>In a box of the shape of the view box a drag takes the board along with the pointer, and the wheel zooms about it.\<close>

lemma pan_keeps_point:
  assumes "box_ok v" "fits rect v"
  shows "underPointer rect (panTo rect p c (vb_x v, vb_y v) v) c = underPointer rect v p"
proof -
  have "fits rect (panTo rect p c (vb_x v, vb_y v) v)" using assms(2) by (simp add: fits_def panTo_def)
  moreover have "0 < cr_width rect" "0 < cr_height rect" using assms(2) by (simp_all add: fits_def)
  ultimately show ?thesis using assms box_ok_pos [OF assms(1)]
    by (simp add: underPointer_share panTo_def share_def) (simp add: field_simps)
qed

lemma zoom_keeps_point:
  assumes "box_ok v" "fits rect v" "0 < w"
  shows "underPointer rect (zoomTo (share rect c) w v) c = underPointer rect v c"
proof -
  have "fits rect (zoomTo (share rect c) w v)" "0 < vb_h (zoomTo (share rect c) w v)"
    using assms box_ok_pos [OF assms(1)] by (simp_all add: fits_def zoomTo_def Let_def field_simps)
  then show ?thesis using assms box_ok_pos [OF assms(1)]
    by (simp add: underPointer_share zoomTo_def Let_def) (simp add: field_simps)
qed

text \<open>In a wider box the board lags behind a horizontal drag.\<close>

lemma pan_lags:
  assumes v: "box_ok v" and r: "0 < cr_height rect" "cr_height rect * vb_w v < cr_width rect * vb_h v" and c: "fst p < fst c"
  shows "fst (underPointer rect v p) < fst (underPointer rect (panTo rect p c (vb_x v, vb_y v) v) c)"
proof -
  let ?s = "cr_height rect / vb_h v"
  have pos: "0 < vb_w v" "0 < vb_h v" using box_ok_pos [OF v] by auto
  have "0 < cr_width rect * vb_h v" using r pos by (meson mult_pos_pos order_less_trans)
  then have w: "0 < cr_width rect" using pos(2) by (simp add: zero_less_mult_iff)
  have s: "fitScale rect v = ?s" "fitScale rect (panTo rect p c (vb_x v, vb_y v) v) = ?s"
    using r pos by (simp_all add: fitScale_def panTo_def min_def field_simps)
  have "vb_w v / cr_width rect < 1 / ?s" using r w pos by (simp add: field_simps)
  then have "(fst c - fst p) * (vb_w v / cr_width rect) < (fst c - fst p) * (1 / ?s)"
    using c by (intro mult_strict_left_mono) auto
  then show ?thesis by (simp add: underPointer_def s) (simp add: panTo_def diff_divide_distrib algebra_simps)
qed

section \<open>The board and the page\<close>

text \<open> C19: Whatever the player did on the board before, the view box, while it is made of numbers, is between the two
  widths and keeps its shape. A press that hardly moves selects the tile and leaves the view alone; the click that ends a
  drag never reaches the page. A drag that leaves the board has no click of its own, and swallows the next one: the
  player has to click twice. \<close>
theorem board_drives_page:
  assumes run: "boardRun view u ins (freshBoard, pg0) = (b, pg)"
    and still: "\<forall>c \<in> set near. nearby q c" and far: "\<exists>c \<in> set away. \<not> nearby p c"
  shows "(\<forall>v. bs_vb b = Some v \<longrightarrow> 200 \<le> vb_w v \<and> vb_w v \<le> 1100 \<and> vb_h v * 760 = vb_w v * 660) \<and>
    boardRun view u (gesture rect q near [MouseUp, Click (Some t)]) (b, pg) =
      (b\<lparr>bs_drag := None, bs_justPanned := False\<rparr>, if bs_justPanned b then pg else handleTileClick view u t pg) \<and>
    (\<exists>b'. boardRun view u (gesture rect p away [MouseUp, Click x]) (b, pg) = (b', pg) \<and> \<not> bs_justPanned b') \<and>
    (\<exists>b'. boardRun view u (gesture rect p away [MouseLeave] @ gesture rect q near [MouseUp, Click (Some t)]) (b, pg) = (b', pg) \<and>
      \<not> bs_justPanned b')"
proof (intro conjI)
  have "viewport_ok b" using boardRun_ok [OF run freshBoard_ok] .
  then show "\<forall>v. bs_vb b = Some v \<longrightarrow> 200 \<le> vb_w v \<and> vb_w v \<le> 1100 \<and> vb_h v * 760 = vb_w v * 660"
    by (simp add: viewport_ok_def box_ok_def MIN_VB_W_def MAX_VB_W_def)
  show "boardRun view u (gesture rect q near [MouseUp, Click (Some t)]) (b, pg) =
      (b\<lparr>bs_drag := None, bs_justPanned := False\<rparr>, if bs_justPanned b then pg else handleTileClick view u t pg)"
    by (rule still_click [OF still])
  have split: "gesture rect p away [MouseUp, Click x] = gesture rect p away [MouseUp] @ [(rect, Click x)]" by (simp add: gesture_def)
  obtain b1 where "boardRun view u (gesture rect p away [MouseUp]) (b, pg) = (b1, pg)" "bs_justPanned b1"
    using drag_arms [OF far] by blast
  then show "\<exists>b'. boardRun view u (gesture rect p away [MouseUp, Click x]) (b, pg) = (b', pg) \<and> \<not> bs_justPanned b'"
    unfolding split boardRun_append by (simp add: boardStep_def onSvgClickCapture_def)
  obtain b2 where "boardRun view u (gesture rect p away [MouseLeave]) (b, pg) = (b2, pg)" "bs_justPanned b2"
    using drag_arms [OF far] by blast
  then show "\<exists>b'. boardRun view u (gesture rect p away [MouseLeave] @ gesture rect q near [MouseUp, Click (Some t)]) (b, pg) = (b', pg) \<and>
      \<not> bs_justPanned b'"
    by (simp add: boardRun_append still_click [OF still])
qed

lemma board_drives_page_witness:
  "\<exists>(view :: kingdoms_view) pg b'. boardRun view None (gesture \<lparr>cr_left = 0, cr_top = 0, cr_width = 760, cr_height = 660\<rparr> (0, 0) [(10, 0)] [MouseLeave] @
      gesture \<lparr>cr_left = 0, cr_top = 0, cr_width = 760, cr_height = 660\<rparr> (5, 5) [] [MouseUp, Click (Some ''0,0'')]) (freshBoard, pg) = (b', pg) \<and>
    \<not> bs_justPanned b'"
proof -
  have run: "boardRun view None [] (freshBoard, pg) = (freshBoard, pg)" for view pg by simp
  have far: "\<exists>c \<in> set [(10, 0)]. \<not> nearby (0, 0) c" by (simp add: nearby_def)
  show ?thesis using board_drives_page [OF run, of "[]" "(5, 5)" "[(10, 0)]" "(0, 0)"] far by fastforce
qed

text \<open>While an attack is prepared no tile is selected.\<close>

lemma attack_selects_nothing:
  "page_reachable view u pg \<Longrightarrow> pg_mode pg = ModeAttack \<or> pg_mode pg = ModeAttackSelect \<Longrightarrow> pg_selectedTileId pg = None"
proof (induction rule: page_reachable.induct)
  case (click pg c)
  then show ?case
    by (cases c) (auto simp: perform_def handleTileClick_def handleEndTurn_def handleStartAttackFromTile_def handleAttackTarget_def
      handleAttackUnitCountChange_def handleConfirmAttack_def handleStartSendTroops_def handleSendUnitCountChange_def handleConfirmSend_def
      handleRecruit_def handleBuild_def handleDemolish_def handleDevelop_def sendForSelected_def resetInteraction_def Let_def
      split: option.splits if_splits)
qed simp

text \<open> C17: What the highlighting of a board that is up to date tells about a click. While a target of an attack is looked
  for, a tile is dimmed exactly when a click on it gives the attack up, and a click on any other tile makes it the target.
  Once the target is chosen the board still lights up every tile that could be attacked, but a click on any tile drops the
  attack. While a destination of a march is looked for, a click on an own tile other than the source makes it the
  destination and a click on any other tile gives the march up; exactly the latter are dimmed, but for the selected tile,
  which is never dimmed: a click on the source of the march, which is selected when the march begins, cancels it without a
  warning. Once the destination is chosen nothing is dimmed, and a click on any tile takes the destination back. \<close>
theorem highlight_tells_click:
  assumes ok': "kingdoms_ok s" and v: "v = buildKingdomsView s ps vic" and r: "page_reachable v (Some w) pg"
    and t: "t \<in> set (kv_tiles v)" and pg': "pg' = handleTileClick v (Some w) (kt_id t) pg"
  shows "case pg_mode pg of
      ModeIdle \<Rightarrow> \<not> tileDimmed v (Some w) pg (kt_id t)
    | ModeAttack \<Rightarrow> (if tileDimmed v (Some w) pg (kt_id t) then pg_mode pg' = ModeIdle
                    else pg_mode pg' = ModeAttackSelect \<and> pg_attackToTileId pg' = Some (kt_id t))
    | ModeAttackSelect \<Rightarrow> pg_mode pg' = ModeIdle \<and> (tileDimmed v (Some w) pg (kt_id t) \<longleftrightarrow> kt_id t \<notin> attackableTiles v (Some w))
    | ModeSendTroops \<Rightarrow>
        (if pg_sendToTileId pg \<noteq> None
         then \<not> tileDimmed v (Some w) pg (kt_id t) \<and> pg_mode pg' = ModeSendTroops \<and> pg_sendToTileId pg' = None
         else (let goal = (kt_owner t = Some w \<and> pg_sendFromTileId pg \<noteq> Some (kt_id t))
               in (if goal then pg_mode pg' = ModeSendTroops \<and> pg_sendToTileId pg' = Some (kt_id t) else pg_mode pg' = ModeIdle) \<and>
                  (tileDimmed v (Some w) pg (kt_id t) \<longleftrightarrow> \<not> goal \<and> pg_selectedTileId pg \<noteq> Some (kt_id t))))"
proof -
  have d: "tiles_distinct v" unfolding v by (rule view_tiles_distinct [OF ok'])
  have ids: "kt_id x \<noteq> []" if "x \<in> set (kv_tiles v)" for x using shown_tile [OF ok'] that v by metis
  have inv: "page_inv v (Some w) pg" by (rule page_inv_reachable [OF d r])
  have me: "truthy (Some w) = Some w \<and> truthy i = i \<and> i \<noteq> None" if "own_source v (Some w) i" for i
    using that ids isMyTurn_user [of v "Some w"] by (auto simp: own_source_def truthy_def dest!: tileOf_Some)
  note defs = tileDimmed_def isDimmedForAction_def boardMode_def handleTileClick_def pg'
  show ?thesis
  proof (cases "pg_mode pg")
    case ModeIdle
    then show ?thesis by (simp add: defs)
  next
    case ModeAttack
    then have "own_source v (Some w) (pg_attackingFromTileId pg)" using inv by (simp add: page_inv_def)
    with me [OF this] show ?thesis using ModeAttack attack_selects_nothing [OF r] by (auto simp: defs)
  next
    case ModeAttackSelect
    then show ?thesis using attack_selects_nothing [OF r] by (simp add: defs)
  next
    case ModeSendTroops
    then have st: "send_staged v (Some w) pg" using inv by (simp add: page_inv_def)
    then have src: "own_source v (Some w) (pg_sendFromTileId pg)" by (simp add: send_staged_def)
    show ?thesis
    proof (cases "pg_sendToTileId pg")
      case (Some x)
      then have "own_source v (Some w) (Some x)" using st by (simp add: send_staged_def)
      with me [OF this] show ?thesis using ModeSendTroops Some by (simp add: defs)
    next
      case None
      have here: "tileOf v (Some (kt_id t)) = Some t" by (rule tileOf_tile [OF d t])
      have "kt_id t \<in> reachableTiles v (Some w) pg \<longleftrightarrow> kt_owner t = Some w \<and> Some (kt_id t) \<noteq> pg_sendFromTileId pg"
      proof -
        have "x = t" if "x \<in> set (kv_tiles v)" "kt_id x = kt_id t" for x
          using tileOf_tile [OF d that(1)] that(2) here by simp
        then show ?thesis using t me [OF src] ModeSendTroops None by (auto simp: reachableTiles_def truthy_def)
      qed
      then show ?thesis using me [OF src] ModeSendTroops None here
        by (auto simp: defs truthy_def resetInteraction_def Let_def)
    qed
  qed
qed

lemma highlight_tells_click_witness:
  "\<exists>pg t t'. page_reachable (buildKingdomsView exState exRoster None) (Some ''alice'') pg \<and> pg_mode pg = ModeSendTroops \<and>
    t' \<in> set (kv_tiles (buildKingdomsView exState exRoster None)) \<and> pg_sendFromTileId pg = Some (kt_id t') \<and>
    \<not> tileDimmed (buildKingdomsView exState exRoster None) (Some ''alice'') pg (kt_id t') \<and>
    pg_mode (handleTileClick (buildKingdomsView exState exRoster None) (Some ''alice'') (kt_id t') pg) = ModeIdle \<and>
    t \<in> set (kv_tiles (buildKingdomsView exState exRoster None)) \<and>
    tileDimmed (buildKingdomsView exState exRoster None) (Some ''alice'') pg (kt_id t) \<and>
    pg_mode (handleTileClick (buildKingdomsView exState exRoster None) (Some ''alice'') (kt_id t) pg) = ModeIdle"
proof -
  let ?v = "buildKingdomsView exState exRoster None" and ?i = "tileId (axial 0 0)" and ?j = "tileId (axial 1 0)"
  let ?pg0 = "\<lparr>pg_selectedTileId = Some ?i, pg_mode = ModeIdle, pg_attackingFromTileId = None, pg_attackToTileId = None,
     pg_attackUnitIds = [], pg_sendFromTileId = None, pg_sendToTileId = None, pg_sendCounts = [], pg_errorToast = None\<rparr>"
  let ?pg1 = "fst (perform ?v (Some ''alice'') (StartSend ?i) ?pg0)"
  obtain x where x: "x \<in> set (jvals (gm_tiles (gs_map exState)))" "tile_id x = ?i" "tileOf ?v (Some ?i) = Some (viewTile exState exRoster x)"
    by (rule exTile_shown [of exState ?i]) (simp_all add: exState_ok)
  obtain y where y: "tile_id y = ?j" "tileOf ?v (Some ?j) = Some (viewTile exState exRoster y)"
    by (rule exTile_shown [of exState ?j]) (simp_all add: exState_ok)
  define sp where "sp = viewPiece (snd (exPiece ''sp-alice-1'' ''spearman'' ''alice'' (axial 0 0)))"
  have pcs: "sp \<in> set (kt_pieces (viewTile exState exRoster x))"
    unfolding tile_pieces [OF exState_ok x(1)] sp_def by (simp add: exPieces_eq at_tile_def x(2) axial_eq_iff)
  have fights: "kv_attack sp \<noteq> None" "kv_owner sp = ''alice''"
    by (simp_all add: sp_def viewPiece_def Let_def UNIT_KINDS_eq) (simp add: UNIT_STATS_def UNIT_DEFS_def)
  have "kts_movedThisTurn (kv_turnState ?v) = []" by (simp add: buildKingdomsView_def extras_defs exState_def)
  then have "sp \<in> set (movableUnits ?v (Some ''alice'') (viewTile exState exRoster x))"
    using fights pcs by (simp add: movableUnits_def del: viewTile_sel(4))
  then have "movableUnits ?v (Some ''alice'') (viewTile exState exRoster x) \<noteq> []" by force
  moreover have "isMyTurn ?v (Some ''alice'')" by (simp add: isMyTurn_def truthy_def buildKingdomsView_def exRounds_def)
  ultimately have "offered ?v (Some ''alice'') ?pg0 (StartSend ?i)"
    using x(2,3) by (simp add: offered_def idleOffered_def selectedTile_def Let_def truthy_def del: viewTile_sel(4))
  moreover have "page_reachable ?v (Some ''alice'') ?pg0" by (rule page_reachable.idle) simp
  ultimately have r: "page_reachable ?v (Some ''alice'') ?pg1" by (rule page_reachable.click [rotated])
  have t: "viewTile exState exRoster y \<in> set (kv_tiles ?v)" using tileOf_Some [OF y(2)] by simp
  have m: "pg_mode ?pg1 = ModeSendTroops" "pg_sendToTileId ?pg1 = None" "pg_selectedTileId ?pg1 = Some ?i"
    by (simp_all add: perform_def handleStartSendTroops_def)
  have c: "pg_mode (handleTileClick ?v (Some ''alice'') (kt_id (viewTile exState exRoster y)) ?pg1) = ModeIdle"
    using y by (simp add: perform_def handleStartSendTroops_def handleTileClick_def truthy_def tileId_nonempty axial_eq_iff resetInteraction_def)
  have "tileDimmed ?v (Some ''alice'') ?pg1 (kt_id (viewTile exState exRoster y))"
    using highlight_tells_click [OF exState_ok refl r t refl] m c y(1) by (simp add: axial_eq_iff split: if_splits)
  moreover have "viewTile exState exRoster x \<in> set (kv_tiles ?v)" using tileOf_Some [OF x(3)] by simp
  moreover from highlight_tells_click [OF exState_ok refl r this refl] m x(2)
  have "\<not> tileDimmed ?v (Some ''alice'') ?pg1 (kt_id (viewTile exState exRoster x)) \<and> pg_sendFromTileId ?pg1 = Some (kt_id (viewTile exState exRoster x)) \<and>
    pg_mode (handleTileClick ?v (Some ''alice'') (kt_id (viewTile exState exRoster x)) ?pg1) = ModeIdle"
    by (simp add: perform_def handleStartSendTroops_def)
  ultimately show ?thesis using r m(1) t c by blast
qed

end
