(* ===== verification/KingdomsStore.thy ===== *)
theory KingdomsStore
  imports KingdomsView Gateway
begin

text \<open>
  The store of the Kingdoms page, \<open>apps/web/src/games/kingdoms/store/kingdoms-game.ts\<close>: it keeps the last
  snapshot of the view it has received and fetches a new one after every event. The second half describes the
  outputs of the engine service for a game of Kingdoms; \<open>KingdomsWatch\<close> lets the two meet.
\<close>

section \<open>The state of the store\<close>

type_synonym kbus = "(kevent, kingdoms_view) bus_event"
type_synonym koutput = "(kextras, kpayload, kevent, kingdoms_view) engine_output"

record tile_effect =
  te_kind :: string
  te_startsAt :: int

record last_combat =
  lc_fromTileId :: string
  lc_toTileId :: string
  lc_attackerId :: string
  lc_defenderId :: "string option"
  lc_attackerWins :: bool
  lc_attackerCasualties :: nat
  lc_defenderCasualties :: nat
  lc_attackerStrength :: real
  lc_defenderStrength :: real

datatype connection_status = Online | Offline | Reconnecting

record kstore =
  ks_gameId :: "string option"
  ks_events :: "kbus list"
  ks_view :: "kingdoms_view option"
  ks_socket :: bool
  ks_tileEffects :: "(string, tile_effect) jsmap"
  ks_lastCombat :: "last_combat option"
  ks_connectionStatus :: connection_status

definition emptyStore :: kstore where
  "emptyStore = \<lparr>ks_gameId = None, ks_events = [], ks_view = None, ks_socket = False, ks_tileEffects = [],
     ks_lastCombat = None, ks_connectionStatus = Online\<rparr>"

text \<open>What the store does to the world: socket messages and requests of the view.\<close>

datatype client_output =
    EmitSubscribe string
  | EmitUnsubscribe string
  | EmitCommand string string kpayload
  | FetchInit string

section \<open>The operations\<close>

definition addTileEffect :: "int \<Rightarrow> string \<Rightarrow> string \<Rightarrow> kstore \<Rightarrow> kstore" where
  "addTileEffect now tid kind st =
     st\<lparr>ks_tileEffects := jput tid \<lparr>te_kind = kind, te_startsAt = now\<rparr> (ks_tileEffects st)\<rparr>"

definition clearTileEffect :: "string \<Rightarrow> kstore \<Rightarrow> kstore" where
  "clearTileEffect tid st = st\<lparr>ks_tileEffects := jdel tid (ks_tileEffects st)\<rparr>"

definition clearLastCombat :: "kstore \<Rightarrow> kstore" where
  "clearLastCombat st = st\<lparr>ks_lastCombat := None\<rparr>"

definition onSocketDisconnect :: "kstore \<Rightarrow> kstore" where
  "onSocketDisconnect st = st\<lparr>ks_connectionStatus := Offline\<rparr>"

definition onReconnectAttempt :: "kstore \<Rightarrow> kstore" where
  "onReconnectAttempt st = st\<lparr>ks_connectionStatus := Reconnecting\<rparr>"

definition onSocketConnect :: "string \<Rightarrow> kstore \<Rightarrow> kstore \<times> client_output list" where
  "onSocketConnect gameId st =
     (st\<lparr>ks_connectionStatus := Online\<rparr>,
      if ks_connectionStatus st \<noteq> Online then [EmitSubscribe gameId, FetchInit gameId] else [])"

text \<open>The effects of single events; the payload of an event has the shape its type announces.\<close>

definition showBattle :: "int \<Rightarrow> string option \<Rightarrow> battle_report \<Rightarrow> kstore \<Rightarrow> kstore" where
  "showBattle now playerId b st =
     addTileEffect now (br_toTileId b) ''combat'' (addTileEffect now (br_fromTileId b) ''combat''
       (st\<lparr>ks_lastCombat := Some \<lparr>lc_fromTileId = br_fromTileId b, lc_toTileId = br_toTileId b,
            lc_attackerId = (case playerId of Some p \<Rightarrow> p | None \<Rightarrow> []), lc_defenderId = br_defenderOwner b,
            lc_attackerWins = br_attackerWins b, lc_attackerCasualties = br_attackerCasualties b,
            lc_defenderCasualties = br_defenderCasualties b, lc_attackerStrength = br_attackerStrength b,
            lc_defenderStrength = br_defenderStrength b\<rparr>\<rparr>))"

definition eventEffects :: "int \<Rightarrow> kbus \<Rightarrow> kstore \<Rightarrow> kstore" where
  "eventEffects now event st =
     (case be_payload event of
        EventPayload (ScenarioPayload p) \<Rightarrow>
          (case p of
             BattleResolved b \<Rightarrow> if be_type event = ''battle-resolved'' then showBattle now (be_playerId event) b st else st
           | TileCaptured t _ \<Rightarrow> if be_type event = ''tile-captured'' then addTileEffect now t ''capture'' st else st
           | TileLoyaltyReduced t _ \<Rightarrow> if be_type event = ''tile-loyalty-reduced'' then addTileEffect now t ''loyalty'' st else st
           | UnitRecruited _ _ t \<Rightarrow> if be_type event = ''unit-recruited'' then addTileEffect now t ''built'' st else st
           | StructureBuilt _ _ t \<Rightarrow> if be_type event = ''structure-built'' then addTileEffect now t ''built'' st else st
           | TileDeveloped t _ _ \<Rightarrow> if be_type event = ''tile-developed'' then addTileEffect now t ''built'' st else st
           | _ \<Rightarrow> st)
      | _ \<Rightarrow> st)"

definition onKingdomsEvent :: "int \<Rightarrow> string \<Rightarrow> kbus \<Rightarrow> kstore \<Rightarrow> kstore \<times> client_output list" where
  "onKingdomsEvent now gameId event st =
     (let st1 = st\<lparr>ks_events := ks_events st @ [event]\<rparr>
      in if be_type event = ''game-started''
         then (case be_payload event of
                 SnapshotPayload v \<Rightarrow> (st1\<lparr>ks_view := Some v, ks_tileEffects := [], ks_lastCombat := None\<rparr>, [])
               | _ \<Rightarrow> (st1, []))
         else (eventEffects now event st1, [FetchInit gameId]))"

text \<open>\<open>token\<close> tells whether the user is logged in.\<close>

definition storeConnect :: "bool \<Rightarrow> string \<Rightarrow> kstore \<Rightarrow> string + (kstore \<times> client_output list)" where
  "storeConnect token gameId st =
     (if \<not> token then Inl ''Not authenticated''
      else Inr (st\<lparr>ks_gameId := Some gameId, ks_socket := True\<rparr>, [EmitSubscribe gameId]))"

definition storeDisconnect :: "kstore \<Rightarrow> kstore \<times> client_output list" where
  "storeDisconnect st =
     (emptyStore, case truthy (ks_gameId st) of Some g \<Rightarrow> if ks_socket st then [EmitUnsubscribe g] else [] | None \<Rightarrow> [])"

definition storeSend :: "string \<Rightarrow> kpayload \<Rightarrow> kstore \<Rightarrow> string + client_output list" where
  "storeSend ty payload st =
     (case (ks_socket st, truthy (ks_gameId st)) of
        (True, Some g) \<Rightarrow> Inr [EmitCommand g ty payload]
      | _ \<Rightarrow> Inl ''Not connected to a game'')"

text \<open>The answer of a fetch: a snapshot, or an error that is swallowed.\<close>

definition fetchDone :: "exn + kingdoms_view \<Rightarrow> kstore \<Rightarrow> kstore" where
  "fetchDone response st = (case response of Inr v \<Rightarrow> st\<lparr>ks_view := Some v\<rparr> | Inl _ \<Rightarrow> st)"

section \<open>What the operations do to the view\<close>

text \<open>The requests of the view among the outputs of an operation, all unanswered.\<close>

definition reissued :: "string \<Rightarrow> client_output list \<Rightarrow> (exn + kingdoms_view) option list" where
  "reissued g outs = map (\<lambda>_. None) (filter (\<lambda>out. out = FetchInit g) outs)"

lemma reissued_simps [simp]: "reissued g [] = []" "reissued g [FetchInit g] = [None]" "reissued g [EmitSubscribe g, FetchInit g] = [None]"
  by (simp_all add: reissued_def)

text \<open>One event, by its type.\<close>

lemma eventEffects_view [simp]: "ks_view (eventEffects now e st) = ks_view st"
  by (auto simp: eventEffects_def showBattle_def addTileEffect_def split: bus_payload.split event_payload.split kevent.split)

lemma onKingdomsEvent_cases:
  assumes "onKingdomsEvent now g e st = (st', outs)"
  shows "be_type e \<noteq> ''game-started'' \<Longrightarrow> reissued g outs = [None]"
    "be_type e = ''game-started'' \<Longrightarrow> be_payload e = SnapshotPayload v \<Longrightarrow> ks_view st' = Some v \<and> reissued g outs = []"
    "reissued g outs = [] \<or> reissued g outs = [None]"
  using assms by (auto simp: onKingdomsEvent_def Let_def split: if_splits bus_payload.splits)

section \<open>The outputs of the engine for a game\<close>

text \<open>What one command or the start of the game makes the engine put out.\<close>

definition startedEvent :: "string \<Rightarrow> kingdoms_view \<Rightarrow> int \<Rightarrow> kbus" where
  "startedEvent g v now = \<lparr>be_gameId = g, be_seq = 0, be_type = ''game-started'', be_payload = SnapshotPayload v, be_at = now,
     be_playerId = None, be_privateTo = None\<rparr>"

definition startBatch :: "string \<Rightarrow> kstate \<Rightarrow> kingdoms_view \<Rightarrow> int \<Rightarrow> koutput list" where
  "startBatch g s v now = [saveState g s, saveView g v, publishEvent g (startedEvent g v now)]"

definition acceptBatch :: "string \<Rightarrow> kbus list \<Rightarrow> kstate \<Rightarrow> kingdoms_view \<Rightarrow> koutput list" where
  "acceptBatch g es s v = map (publishEvent g) es @ [saveState g s, saveView g v]"

text \<open>What the endpoint of the engine would answer now.\<close>

definition currentView :: "string \<Rightarrow> koutput list \<Rightarrow> kingdoms_view option" where
  "currentView g os = (case initEndpoint os g of Inr v \<Rightarrow> Some v | Inl _ \<Rightarrow> None)"

lemma initEndpoint_publishes: "initEndpoint (os @ map (publishEvent g) es) g' = initEndpoint os g'"
  by (induction es rule: rev_induct) (simp_all flip: append_assoc)

lemma currentView_batches [simp]:
  "currentView g (os @ startBatch g s v now) = Some v"
  "currentView g (os @ acceptBatch g es s v) = Some v"
  "currentView g (os @ [publishEvent g e]) = currentView g os"
  "currentView g [] = None"
proof -
  have "initEndpoint (((os @ [saveState g s]) @ [saveView g v]) @ [publishEvent g (startedEvent g v now)]) g = Inr v"
    unfolding initEndpoint_publish by (rule initEndpoint_view)
  then show "currentView g (os @ startBatch g s v now) = Some v" by (simp add: currentView_def startBatch_def)
  have "initEndpoint (((os @ map (publishEvent g) es) @ [saveState g s]) @ [saveView g v]) g = Inr v" by (rule initEndpoint_view)
  then show "currentView g (os @ acceptBatch g es s v) = Some v" by (simp add: currentView_def acceptBatch_def)
  show "currentView g (os @ [publishEvent g e]) = currentView g os" by (simp add: currentView_def)
  show "currentView g [] = None" by (simp add: currentView_def initEndpoint_def redisGet_def)
qed

text \<open>
  No executor emits an event that is private or that has one of the two types the engine service uses itself.
\<close>

definition public :: "kevent game_event \<Rightarrow> bool" where
  "public e \<longleftrightarrow> ev_privateTo e = None \<and> ev_type e \<noteq> ''game-started'' \<and> ev_type e \<noteq> ''error''"

lemma consumeFood_public: "consumeFood p n bag = (Inr es, bag') \<Longrightarrow> \<forall>e \<in> set es. public e"
  by (auto simp: consumeFood_def public_def mkEvent_def Let_def split: if_splits sum.splits prod.splits)

lemma mortgageStep_public: "mortgageStep p bag s = (es, s') \<Longrightarrow> \<forall>e \<in> set es. public e"
  by (auto simp: mortgageStep_def public_def mkEvent_def Let_def split: if_splits option.splits)

lemma processPlayerCycle_public: "processPlayerCycle p s = (Inr es, s') \<Longrightarrow> \<forall>e \<in> set es. public e"
  by (auto simp: processPlayerCycle_def Let_def public_def mkEvent_def split: option.splits sum.splits prod.splits
      dest!: consumeFood_public mortgageStep_public)

lemma playerCycles_public: "playerCycles ps s = (Inr es, s') \<Longrightarrow> \<forall>e \<in> set es. public e"
proof (induction ps arbitrary: s es s')
  case (Cons p ps)
  then show ?case by (fastforce split: sum.splits prod.splits dest: processPlayerCycle_public)
qed simp

lemma processRoundEnd_public: "processRoundEnd s = (Inr es, s') \<Longrightarrow> \<forall>e \<in> set es. public e"
  by (auto simp: processRoundEnd_def Let_def disconnectedEvents_def public_def mkEvent_def split: sum.splits prod.splits if_splits
      dest!: playerCycles_public)

lemma eliminateKingdom_public: "eliminateKingdom loser me s = (Inr es, s') \<Longrightarrow> \<forall>e \<in> set es. public e"
  by (auto simp: eliminateKingdom_def Let_def public_def mkEvent_def split: sum.splits prod.splits)

lemma captureTile_public: "captureTile t me w st s = (Inr es, s') \<Longrightarrow> \<forall>e \<in> set es. public e"
proof -
  have p: "public (mkEvent ''tile-captured'' p (TileCaptured t w))" for p t w by (simp add: public_def mkEvent_def)
  show "captureTile t me w st s = (Inr es, s') \<Longrightarrow> \<forall>e \<in> set es. public e"
    by (auto simp: captureTile_def Let_def p dest!: eliminateKingdom_public split: option.splits sum.splits prod.splits if_splits)
qed

lemma erodeLoyalty_public: "erodeLoyalty t me w st s = (Inr es, s') \<Longrightarrow> \<forall>e \<in> set es. public e"
  by (auto simp: erodeLoyalty_def Let_def public_def mkEvent_def dest: captureTile_public [unfolded public_def] split: if_splits)

lemma endTurn_public: "endTurnExecutor a s = (Inr es, s') \<Longrightarrow> es \<noteq> [] \<and> (\<forall>e \<in> set es. public e)"
  by (auto simp: endTurnExecutor_def Let_def public_def mkEvent_def split: sum.splits prod.splits if_splits dest!: processRoundEnd_public)

lemma attack_public: "attackTileExecutor a s = (Inr es, s') \<Longrightarrow> es \<noteq> [] \<and> (\<forall>e \<in> set es. public e)"
  by (auto simp: attackTileExecutor_def Let_def public_def mkEvent_def split: option.splits sum.splits prod.splits if_splits
      dest!: erodeLoyalty_public)

lemma other_public:
  "recruitUnitExecutor a s = (Inr es, s') \<Longrightarrow> es \<noteq> [] \<and> (\<forall>e \<in> set es. public e)"
  "moveUnitExecutor a s = (Inr es, s') \<Longrightarrow> es \<noteq> [] \<and> (\<forall>e \<in> set es. public e)"
  "buildStructureExecutor a s = (Inr es, s') \<Longrightarrow> es \<noteq> [] \<and> (\<forall>e \<in> set es. public e)"
  "demolishStructureExecutor a s = (Inr es, s') \<Longrightarrow> es \<noteq> [] \<and> (\<forall>e \<in> set es. public e)"
  "developTileExecutor a s = (Inr es, s') \<Longrightarrow> es \<noteq> [] \<and> (\<forall>e \<in> set es. public e)"
  by (auto simp: recruitUnitExecutor_def moveUnitExecutor_def buildStructureExecutor_def demolishStructureExecutor_def developTileExecutor_def
      Let_def public_def mkEvent_def split: option.splits sum.splits prod.splits if_splits)

lemma executor_public:
  assumes "execute_action kingdoms_xs a s = (Inr es, s')"
  shows "es \<noteq> [] \<and> (\<forall>e \<in> set es. public e)"
proof -
  define P where "P \<longleftrightarrow> es \<noteq> [] \<and> (\<forall>e \<in> set es. public e)"
  note facts =  endTurn_public [of a s es s'] attack_public [of a s es s'] other_public(1) [of a s es s']
    other_public(2) [of a s es s'] other_public(3) [of a s es s'] other_public(4) [of a s es s'] other_public(5) [of a s es s']
  note facts = facts [folded P_def]
  obtain f where f: "getExecutor kingdoms_xs (ac_type a) = Some f" "ex_execute f a s = (Inr es, s')"
    using assms by (auto simp: execute_action_def split: option.splits)
  then have "ex_execute f \<in> {endTurnExecutor, attackTileExecutor, recruitUnitExecutor, moveUnitExecutor, buildStructureExecutor,
      demolishStructureExecutor, developTileExecutor}"
    by (auto simp: getExecutor_def kingdoms_xs_def kingdomsExecutors_def kexecutor_def split: if_splits)
  with f(2) facts have P by auto
  then show ?thesis by (simp add: P_def)
qed

lemma emitAll_public: "em_emitAll clock es em = (ss, em') \<Longrightarrow> \<forall>e \<in> set es. public e \<Longrightarrow> \<forall>e \<in> set ss. public e"
proof (induction es arbitrary: em ss em')
  case (Cons e es)
  obtain s em1 where e: "em_emit (clock (em_nextSeq em)) e em = (s, em1)" by fastforce
  obtain ss' em2 where es: "em_emitAll clock es em1 = (ss', em2)" by fastforce
  have "public s" using e Cons.prems(2) by (auto simp: em_emit_def Let_def public_def)
  with Cons.IH [OF es] Cons.prems e es show ?case by auto
qed simp

lemma kingdoms_events_public:
  assumes game: "g_executors g = kingdoms_xs" "g_rules g = []" and run: "submit ck a g = (Inr (Accepted evs), g')"
  shows "evs \<noteq> [] \<and> (\<forall>e \<in> set evs. public e)"
proof -
  obtain s primary st em1 followUps em2 sf where p:
    "execute_action (g_executors g) a (g_state g) = (Inr primary, s)"
    "em_emitAll (ck_stamp ck) primary (g_events g) = (st, em1)"
    "process_all (g_rules g) s st = Inr followUps"
    "em_emitAll (ck_stamp ck) followUps em1 = (sf, em2)" and
    fin: "finish_submit ck (st @ sf)
       (g\<lparr>g_state := s\<lparr>gs_history := history_append (ck_append ck (length (gs_history s))) a (st @ sf) (gs_history s)\<rparr>,
          g_events := em2\<rparr>) = (Inr (Accepted evs), g')"
    using run by (rule submit_accepted)
  have none: "sf = []" using p(3,4) game(2) by auto
  have st: "st \<noteq> []" "\<forall>e \<in> set st. public e"
    using executor_public [OF p(1)[unfolded game(1)]] emitAll_spec [OF p(2)] emitAll_public [OF p(2)] by auto
  show ?thesis using fin
  proof (cases rule: finish_submit_cases)
    case (ended v e em)
    then have "public e" by (auto simp: em_emit_def Let_def public_def)
    with ended none st show ?thesis by auto
  qed (use none st in auto)
qed

end
