(* ===== verification/KingdomsWatch.thy ===== *)
theory KingdomsWatch
  imports KingdomsStore EventLog
begin

text \<open>
  The store of the Kingdoms page in its world: the engine service that hosts the game, the bus, the gateway, the socket of
  the page and its requests of the view. Every step is an operation of one of these parts.
\<close>

section \<open>A hosted game of Kingdoms\<close>

type_synonym kengine = "(kextras, kpayload, kevent, kingdoms_view) engine"

text \<open>What the engine knows of the game \<open>g\<close>, if it hosts it: it is being played and its buffer is empty.\<close>

definition hosting :: "string \<Rightarrow> kengine \<Rightarrow> bool" where
  "hosting g en \<longleftrightarrow> (\<forall>i. jget (en_games en) g = Some i \<longrightarrow> attached i \<and> gi_gameId i = g \<and> gi_hosted i = kingdomsHosted \<and>
     kingdomsLoaded (gi_game i) \<and> g_machine (gi_game i) = Playing)"

text \<open>The events of accepted actions: public ones of types the engine service does not use itself.\<close>

definition mutation :: "string \<Rightarrow> kbus \<Rightarrow> bool" where
  "mutation g e \<longleftrightarrow> be_gameId e = g \<and> be_privateTo e = None \<and> be_type e \<noteq> ''game-started'' \<and> be_type e \<noteq> ''error''"

definition rejection :: "string \<Rightarrow> kbus \<Rightarrow> bool" where
  "rejection g e \<longleftrightarrow> be_gameId e = g \<and> be_type e = ''error''"

text \<open>The players the lobby announces.\<close>

definition announced :: "(string \<times> string) list \<Rightarrow> bool" where
  "announced ms \<longleftrightarrow> 2 \<le> length ms \<and> distinct (map fst ms) \<and> [] \<notin> fst ` set ms"

lemma start_runs:
  assumes ms: "announced ms" "length ms \<le> 4"
  shows "\<exists>en' i v. onGameStarting fb kingdomsRegistry now (GameStarting room g ''kingdoms-v1'' ms at') en = (Inr (), en') \<and>
     hosting g en' \<and> jget (en_games en') g = Some i \<and> gs_players (g_state (gi_game i)) = newPlayerManager (seatPlayers ms) \<and>
     rm_turnOrder (gs_rounds (g_state (gi_game i))) = Clockwise \<and> v = buildKingdomsView (g_state (gi_game i)) (seatPlayers ms) None \<and>
     en_out en' = en_out en @ startBatch g (g_state (gi_game i)) v now"
proof -
  let ?ps = "seatPlayers ms"
  have ps: "roster_ok ?ps" using ms by (intro seatPlayers_ok) (simp_all add: announced_def)
  obtain s where s: "createGameState g kingdomsScenario ?ps g = Inr s" "kingdoms_ok s" "gs_status s = Setup" "gs_history s = []"
    "gs_players s = newPlayerManager ?ps" using kingdoms_create [OF ps] by blast
  obtain g1 where g1: "newGame s kingdomsScenario = Inr g1" "g_validators g1 = kingdoms_vs" "g_executors g1 = kingdoms_xs"
    "g_rules g1 = []" "g_victories g1 = [lastPlayerStanding]" "g_machine g1 = Setup" "g_state g1 = s"
    using s(3) by (simp add: newGame_kingdoms)
  let ?i = "startInstance (newInstance g g1 kingdomsHosted)"
  have game: "gi_game ?i = game_start (g1\<lparr>g_events := em_onAny 0 (g_events g1)\<rparr>)" "gi_gameId ?i = g" "gi_hosted ?i = kingdomsHosted"
    by (simp_all add: startInstance_def newInstance_def)
  have st: "g_machine (gi_game ?i) = Playing" "g_state (gi_game ?i) = s\<lparr>gs_status := Playing\<rparr>"
    using g1(6,7) by (simp_all add: game game_start_def transitionTo_def canTransitionTo_def)
  have "kingdoms_ok (s\<lparr>gs_status := Playing\<rparr>)" using s(2) by (simp add: kingdoms_ok_def extras_defs invs_ok_def)
  then have loaded: "kingdomsLoaded (gi_game ?i)"
    using st g1(2-5) s(4) by (simp add: game_loaded_def) (simp add: game game_start_def)
  have att: "attached ?i" by (rule attached_new [OF g1(1)])
  let ?v = "buildKingdomsView (g_state (gi_game ?i)) ?ps None"
  let ?en = "emitOut (startBatch g (g_state (gi_game ?i)) ?v now) (en\<lparr>en_games := jput g ?i (en_games en)\<rparr>)"
  have "onGameStarting fb kingdomsRegistry now (GameStarting room g ''kingdoms-v1'' ms at') en = (Inr (), ?en)"
    using flush_attached [OF att, of now] s(1) g1(1)
    by (simp add: onGameStarting_def createGame_def kingdomsRegistry_get kingdomsHosted_def Let_def buildView_def startBatch_def startedEvent_def)
  then show ?thesis
    using game(2,3) st s(5) loaded att kingdoms_first_round(2) [OF s(1)]
    by (intro exI [of _ ?en] exI [of _ ?i] exI [of _ ?v] conjI) (simp_all add: hosting_def emitOut_def)
qed

lemma start_batch:
  assumes ms: "announced ms" and run: "onGameStarting fb kingdomsRegistry now (GameStarting room g ''kingdoms-v1'' ms at') en = (Inr (), en')"
  obtains i v where "hosting g en'" "jget (en_games en') g = Some i" "en_out en' = en_out en @ startBatch g (g_state (gi_game i)) v now"
proof -
  let ?ps = "seatPlayers ms"
  have "\<not> 4 < length ms"
  proof
    assume "4 < length ms"
    then have "createGameState g kingdomsScenario ?ps g = Inl (WrongPlayerCount (sc_id kingdomsScenario) (sc_minPlayers kingdomsScenario)
        (sc_maxPlayers kingdomsScenario) (int (length ?ps)))"
      by (intro wrong_count) (simp add: kingdomsScenario_def)
    with run show False by (simp add: onGameStarting_def createGame_def kingdomsRegistry_get kingdomsHosted_def)
  qed
  then have few: "length ms \<le> 4" by simp
  obtain en1 i v where one: "onGameStarting fb kingdomsRegistry now (GameStarting room g ''kingdoms-v1'' ms at') en = (Inr (), en1)"
    "hosting g en1" "jget (en_games en1) g = Some i" "en_out en1 = en_out en @ startBatch g (g_state (gi_game i)) v now"
    using start_runs [OF ms few, of fb now room g at' en] by (elim exE conjE) (rule that; assumption)
  from one(1) run have "en1 = en'" by simp
  with one(2-4) show ?thesis by (intro that) simp_all
qed

text \<open>A submission that ends the game says so.\<close>

lemma submit_ended:
  assumes "submit ck a g = (Inr (Accepted evs), g')" "g_machine g = Playing" "g_machine g' \<noteq> Playing"
  shows "\<exists>e \<in> set evs. ev_type e = ''game-ended''"
  using assms(1)
proof (cases rule: submit_cases)
  case (finished s primary st em1 followUps em2 sf)
  from finished(6) show ?thesis
  proof (cases rule: finish_submit_cases)
    case (ended v e em)
    then have "ev_type e = ''game-ended''" by (auto simp: em_emit_def Let_def)
    with ended(3) show ?thesis by auto
  qed (use assms(2,3) in auto)
qed (use assms(2,3) in auto)

definition engineBatch :: "string \<Rightarrow> koutput list \<Rightarrow> bool" where
  "engineBatch g batch \<longleftrightarrow> batch = [] \<or> (\<exists>e. rejection g e \<and> batch = [publishEvent g e]) \<or>
     (\<exists>es s v. es \<noteq> [] \<and> (\<forall>e \<in> set es. mutation g e) \<and> batch = acceptBatch g es s v)"

lemma command_batch:
  assumes h: "hosting (cm_gameId m) en" and run: "handleCommand fb load ck now m en = (r, en')"
  shows "hosting (cm_gameId m) en'" "\<exists>batch. en_out en' = en_out en @ batch \<and> engineBatch (cm_gameId m) batch"
proof -
  let ?g = "cm_gameId m"
  have "hosting ?g en' \<and> (\<exists>batch. en_out en' = en_out en @ batch \<and> engineBatch ?g batch)"
  proof (cases "jget (en_games en) ?g")
    case None
    with run have "en' = en" by (auto simp: handleCommand_def Let_def)
    with h show ?thesis by (simp add: engineBatch_def)
  next
    case (Some i)
    with h have i: "attached i" "gi_gameId i = ?g" "gi_hosted i = kingdomsHosted" "kingdomsLoaded (gi_game i)" "g_machine (gi_game i) = Playing"
      by (auto simp: hosting_def)
    obtain r' g' where sub: "submit ck (actionOf m) (gi_game i) = (Inr r', g')" "kingdomsLoaded g'"
      using kingdoms.submit_total [OF i(4,5), of ck "actionOf m"] by blast
    note pub = handleCommand_publishes [OF Some i(1,2) sub(1), of fb load now, unfolded run prod.inject]
    show ?thesis
    proof (cases r')
      case (Rejected err)
      let ?e = "\<lparr>be_gameId = ?g, be_seq = 0, be_type = ''error'', be_payload = ErrorPayload err, be_at = now,
         be_playerId = None, be_privateTo = Some (cm_userId m)\<rparr>"
      have "en_out en' = en_out en @ [publishEvent ?g ?e]" "jget (en_games en') ?g = Some i" using pub Rejected by simp_all
      moreover have "engineBatch ?g [publishEvent ?g ?e]"
        unfolding engineBatch_def by (rule disjI2, rule disjI1, rule exI [of _ ?e]) (simp add: rejection_def)
      ultimately show ?thesis using i by (simp add: hosting_def)
    next
      case (Accepted evs)
      have ev: "evs \<noteq> []" "\<forall>e \<in> set evs. public e"
        using kingdoms_events_public [OF _ _ sub(1) [unfolded Accepted]] i(4) by (simp_all add: game_loaded_def)
      let ?es = "map (busEvent now ?g) evs"
      let ?v = "buildView fb (gi_hosted i) (g_state g') (pm_all (gs_players (g_state g'))) (victoryOf (gameEnded evs))"
      have "?es \<noteq> []" "\<forall>e \<in> set ?es. mutation ?g e" using ev by (auto simp: mutation_def public_def busEvent_def truthy_def)
      then have "engineBatch ?g (acceptBatch ?g ?es (g_state g') ?v)" unfolding engineBatch_def by blast
      moreover have "en_out en' = en_out en @ acceptBatch ?g ?es (g_state g') ?v" using pub Accepted by (simp add: acceptBatch_def comp_def)
      moreover have "g_machine g' = Playing" if "\<forall>e \<in> set evs. ev_type e \<noteq> ''game-ended''"
        using submit_ended [OF sub(1) [unfolded Accepted] i(5)] that by blast
      then have "hosting ?g en'" using pub Accepted sub(2) i(3) by (auto simp: hosting_def split: option.splits)
      ultimately show ?thesis by blast
    qed
  qed
  then show "hosting ?g en'" "\<exists>batch. en_out en' = en_out en @ batch \<and> engineBatch ?g batch" by simp_all
qed

section \<open>The world\<close>

text \<open>
  Done and to do: what the running command has put out and has still to put out; the engine service awaits each. The bus
  keeps the order of its messages. The gateway is the real one, with the inputs it has had. The page has at most one open
  socket; its messages wait until the gateway handles them, those sent before the handshake until the socket is open.
  A request of the view is \<open>None\<close> until it is served and then carries its answer.
\<close>

type_synonym kgw_input = "(kpayload, kevent, kingdoms_view) gw_input"
type_synonym kgateway = "(kpayload, kevent, kingdoms_view) gateway"
type_synonym krooms = "(kpayload, kevent, kingdoms_view) gw_output list \<Rightarrow> string \<Rightarrow> string \<Rightarrow> bool"
type_synonym verifier = "string \<Rightarrow> (string \<times> string) option"

record kworld =
  kw_engine :: kengine
  kw_done :: "koutput list"
  kw_todo :: "koutput list"
  kw_bus :: "kbus list"
  kw_inputs :: "kgw_input list"
  kw_gateway :: kgateway
  kw_socket :: "string option"
  kw_up :: "client_output list"
  kw_down :: "kbus list"
  kw_requests :: "(exn + kingdoms_view) option list"
  kw_store :: kstore

definition emptyWorld :: kworld where
  "emptyWorld = \<lparr>kw_engine = emptyEngine, kw_done = [], kw_todo = [], kw_bus = [], kw_inputs = [], kw_gateway = emptyGateway,
     kw_socket = None, kw_up = [], kw_down = [], kw_requests = [], kw_store = emptyStore\<rparr>"

text \<open>
  Four promises nothing in the code keeps: requests are served between two commands, not during one (\<open>Whole\<close>); answers
  arrive in the order of the requests (\<open>InOrder\<close>); a request is served only once the gateway has put the socket of the
  page into the game (\<open>Joined\<close>); no request fails (\<open>Reliable\<close>).
\<close>

datatype promise = Whole | InOrder | Joined | Reliable

definition gwInput :: "verifier \<Rightarrow> kgw_input \<Rightarrow> kworld \<Rightarrow> kworld" where
  "gwInput verify inp w = w\<lparr>kw_inputs := kw_inputs w @ [inp], kw_gateway := gwStep verify inp (kw_gateway w)\<rparr>"

text \<open>The socket of the page is in the game.\<close>

definition joined :: "string \<Rightarrow> kworld \<Rightarrow> bool" where
  "joined g w \<longleftrightarrow> (\<exists>x. kw_socket w = Some x \<and> follows (kw_inputs w) g x)"

text \<open>
  What else the gateway may be told: connections, subscriptions and commands of other sockets, commands of this one,
  events of other games, and that any socket is gone, this one included, before the page notices.
\<close>

definition elsewhere :: "string \<Rightarrow> string option \<Rightarrow> kgw_input \<Rightarrow> bool" where
  "elsewhere g sid inp \<longleftrightarrow>
     (case inp of
        Subscribe y g' \<Rightarrow> sid \<noteq> Some y
      | Unsubscribe y g' \<Rightarrow> sid \<noteq> Some y
      | BusEvent e \<Rightarrow> be_gameId e \<noteq> g
      | _ \<Rightarrow> True)"

definition relayedTo :: "krooms \<Rightarrow> verifier \<Rightarrow> kbus \<Rightarrow> kworld \<Rightarrow> bool" where
  "relayedTo inRoom verify e w \<longleftrightarrow> (\<exists>x. kw_socket w = Some x \<and>
     receivers inRoom (gw_out (kw_gateway w)) (sentBy (kw_gateway w) (gwStep verify (BusEvent e) (kw_gateway w))) x)"

definition emitted :: "string \<Rightarrow> client_output list \<Rightarrow> client_output list" where
  "emitted g outs = filter (\<lambda>out. out = EmitSubscribe g) outs"

section \<open>Its runs\<close>

text \<open>
  \<open>visited\<close>, \<open>left\<close>: the page of the game is opened and left (pages of other games are not modelled); opening connects and
  asks for the view at once, whatever the socket does.
  \<open>opened\<close>, \<open>attempted\<close>, \<open>lost\<close>: what Socket.io tells the store. \<open>heard\<close>: the gateway handles a subscription of the page.
  \<open>started\<close>: the engine hosts the game the lobby announces. \<open>commanded\<close>: the engine handles a command of anybody; commands
  are handled one after the other. \<open>performed\<close>: it makes the next output of the command. \<open>relayed\<close>: the gateway handles the
  next event from the bus. \<open>delivered\<close>: the page handles the next event. \<open>served\<close>, \<open>failed\<close>, \<open>answered\<close>: what becomes of requests;
  those of an earlier visit are answered, too.
\<close>

inductive watching :: "promise set \<Rightarrow> krooms \<Rightarrow> verifier \<Rightarrow> string \<Rightarrow> string \<Rightarrow> kworld \<Rightarrow> bool" for ps inRoom verify token g where
  start: "watching ps inRoom verify token g emptyWorld"
| visited: "watching ps inRoom verify token g w \<Longrightarrow> \<not> ks_socket (kw_store w) \<Longrightarrow> storeConnect True g (kw_store w) = Inr (st, outs) \<Longrightarrow>
     watching ps inRoom verify token g (w\<lparr>kw_store := st, kw_up := emitted g outs, kw_requests := kw_requests w @ [None]\<rparr>)"
| left: "watching ps inRoom verify token g w \<Longrightarrow> ks_socket (kw_store w) \<Longrightarrow> storeDisconnect (kw_store w) = (st, outs) \<Longrightarrow>
     watching ps inRoom verify token g (w\<lparr>kw_store := st, kw_socket := None, kw_up := [], kw_down := []\<rparr>)"
| opened: "watching ps inRoom verify token g w \<Longrightarrow> ks_socket (kw_store w) \<Longrightarrow> kw_socket w = None \<Longrightarrow>
     gwAccepts (kw_inputs w) (Connect x (Some token) h) \<Longrightarrow> onSocketConnect g (kw_store w) = (st, outs) \<Longrightarrow>
     watching ps inRoom verify token g ((gwInput verify (Connect x (Some token) h) w)
       \<lparr>kw_store := st, kw_socket := Some x, kw_up := kw_up w @ emitted g outs, kw_requests := kw_requests w @ reissued g outs\<rparr>)"
| attempted: "watching ps inRoom verify token g w \<Longrightarrow> ks_socket (kw_store w) \<Longrightarrow> kw_socket w = None \<Longrightarrow>
     watching ps inRoom verify token g (w\<lparr>kw_store := onReconnectAttempt (kw_store w)\<rparr>)"
| lost: "watching ps inRoom verify token g w \<Longrightarrow> kw_socket w = Some x \<Longrightarrow>
     watching ps inRoom verify token g (w\<lparr>kw_store := onSocketDisconnect (kw_store w), kw_socket := None, kw_up := [], kw_down := []\<rparr>)"
| heard: "watching ps inRoom verify token g w \<Longrightarrow> kw_socket w = Some x \<Longrightarrow> kw_up w = EmitSubscribe g # rest \<Longrightarrow>
     gwAccepts (kw_inputs w) (Subscribe x g) \<Longrightarrow>
     watching ps inRoom verify token g ((gwInput verify (Subscribe x g) w)\<lparr>kw_up := rest\<rparr>)"
| others: "watching ps inRoom verify token g w \<Longrightarrow> gwAccepts (kw_inputs w) inp \<Longrightarrow> elsewhere g (kw_socket w) inp \<Longrightarrow>
     watching ps inRoom verify token g (gwInput verify inp w)"
| started: "watching ps inRoom verify token g w \<Longrightarrow> kw_done w = [] \<Longrightarrow> kw_todo w = [] \<Longrightarrow> announced ms \<Longrightarrow>
     onGameStarting fb kingdomsRegistry now (GameStarting room g ''kingdoms-v1'' ms at') (kw_engine w) = (Inr (), en) \<Longrightarrow>
     watching ps inRoom verify token g (w\<lparr>kw_engine := en, kw_todo := en_out en\<rparr>)"
| commanded: "watching ps inRoom verify token g w \<Longrightarrow> kw_todo w = [] \<Longrightarrow> cm_gameId m = g \<Longrightarrow>
     handleCommand fb load ck now m (kw_engine w) = (res, en) \<Longrightarrow>
     watching ps inRoom verify token g (w\<lparr>kw_engine := en, kw_todo := drop (length (en_out (kw_engine w))) (en_out en)\<rparr>)"
| performed: "watching ps inRoom verify token g w \<Longrightarrow> kw_todo w = out # outs \<Longrightarrow>
     watching ps inRoom verify token g (w\<lparr>kw_done := kw_done w @ [out], kw_todo := outs, kw_bus := kw_bus w @ published [out]\<rparr>)"
| relayed: "watching ps inRoom verify token g w \<Longrightarrow> kw_bus w = e # es \<Longrightarrow>
     watching ps inRoom verify token g ((gwInput verify (BusEvent e) w)
       \<lparr>kw_bus := es, kw_down := kw_down w @ (if relayedTo inRoom verify e w then [e] else [])\<rparr>)"
| delivered: "watching ps inRoom verify token g w \<Longrightarrow> kw_down w = e # es \<Longrightarrow> onKingdomsEvent now g e (kw_store w) = (st, outs) \<Longrightarrow>
     watching ps inRoom verify token g (w\<lparr>kw_store := st, kw_down := es, kw_requests := kw_requests w @ reissued g outs\<rparr>)"
| served: "watching ps inRoom verify token g w \<Longrightarrow> i < length (kw_requests w) \<Longrightarrow> kw_requests w ! i = None \<Longrightarrow>
     (Whole \<in> ps \<Longrightarrow> kw_todo w = []) \<Longrightarrow> (Joined \<in> ps \<Longrightarrow> joined g w) \<Longrightarrow>
     watching ps inRoom verify token g (w\<lparr>kw_requests := (kw_requests w)[i := Some (initEndpoint (kw_done w) g)]\<rparr>)"
| failed: "watching ps inRoom verify token g w \<Longrightarrow> Reliable \<notin> ps \<Longrightarrow> i < length (kw_requests w) \<Longrightarrow>
     watching ps inRoom verify token g (w\<lparr>kw_requests := (kw_requests w)[i := Some (Inl failure)]\<rparr>)"
| answered: "watching ps inRoom verify token g w \<Longrightarrow> i < length (kw_requests w) \<Longrightarrow> kw_requests w ! i = Some r \<Longrightarrow> (InOrder \<in> ps \<Longrightarrow> i = 0) \<Longrightarrow>
     watching ps inRoom verify token g
       (w\<lparr>kw_store := fetchDone r (kw_store w), kw_requests := take i (kw_requests w) @ drop (Suc i) (kw_requests w)\<rparr>)"

text \<open>Nothing is under way: no output, no event, no message, no request; and the socket of the page is open at both ends.\<close>

definition settled :: "kworld \<Rightarrow> bool" where
  "settled w \<longleftrightarrow> kw_todo w = [] \<and> kw_bus w = [] \<and> kw_up w = [] \<and> kw_down w = [] \<and> kw_requests w = [] \<and>
     (\<exists>x. kw_socket w = Some x \<and> isOpen (kw_inputs w) x)"

section \<open>What the engine has put out\<close>

definition shownTo :: "string \<Rightarrow> kbus \<Rightarrow> bool" where
  "shownTo user e \<longleftrightarrow> (case truthy (be_privateTo e) of None \<Rightarrow> True | Some u \<Rightarrow> u = user)"

text \<open>The outputs of a game so far: its start, then rejections and mutations; only mutations change the view.\<close>

definition history :: "string \<Rightarrow> koutput list \<Rightarrow> bool" where
  "history g os \<longleftrightarrow> os = [] \<or> (\<exists>v t rest. published os = startedEvent g v t # rest \<and> (\<forall>e \<in> set rest. mutation g e \<or> rejection g e) \<and>
     currentView g os \<noteq> None \<and> ((\<forall>e \<in> set rest. \<not> mutation g e) \<longrightarrow> currentView g os = Some v))"

definition quiet :: "string \<Rightarrow> kbus list \<Rightarrow> bool" where
  "quiet g es \<longleftrightarrow> (\<forall>e \<in> set es. \<not> mutation g e)"

lemma quiet_simps [simp]:
  "quiet g []" "quiet g (e # es) \<longleftrightarrow> \<not> mutation g e \<and> quiet g es" "quiet g (es @ es') \<longleftrightarrow> quiet g es \<and> quiet g es'"
  by (auto simp: quiet_def)

lemma started_facts [simp]:
  "\<not> mutation g (startedEvent g v t)" "be_type (startedEvent g v t) = ''game-started''" "be_gameId (startedEvent g v t) = g"
  "shownTo user (startedEvent g v t)" "be_payload (startedEvent g v t) = SnapshotPayload v"
  by (simp_all add: mutation_def startedEvent_def shownTo_def truthy_def)

lemma mutation_facts:
  "mutation g e \<Longrightarrow> be_type e \<noteq> ''game-started''" "mutation g e \<Longrightarrow> shownTo user e" "mutation g e \<Longrightarrow> be_gameId e = g"
  "rejection g e \<Longrightarrow> be_type e \<noteq> ''game-started''" "rejection g e \<Longrightarrow> be_gameId e = g" "rejection g e \<Longrightarrow> \<not> mutation g e"
  by (auto simp: mutation_def rejection_def shownTo_def truthy_def)

lemma history_none: "history g os \<Longrightarrow> currentView g os = None \<longleftrightarrow> os = []"
  by (auto simp: history_def)

lemma history_game: "history g os \<Longrightarrow> e \<in> set (published os) \<Longrightarrow> be_gameId e = g"
  by (fastforce simp: history_def dest: mutation_facts(3,5))

lemma history_started: "history g (startBatch g s v t)"
  unfolding history_def using currentView_batches(1) [of g "[]" s v t]
  by (intro disjI2 exI [of _ v] exI [of _ t] exI [of _ "[]"]) (simp add: startBatch_def)

lemma published_publishes [simp]: "published (map (publishEvent g) es) = es"
  by (induction es) simp_all

lemma batch_published [simp]: "published (acceptBatch g es s v) = es"
  by (simp add: acceptBatch_def)

lemma history_batch:
  assumes h: "history g os" and b: "engineBatch g batch" and ne: "os \<noteq> []"
  shows "history g (os @ batch)"
proof -
  obtain v t rest where r: "published os = startedEvent g v t # rest" "\<forall>e \<in> set rest. mutation g e \<or> rejection g e"
     "currentView g os \<noteq> None" "(\<forall>e \<in> set rest. \<not> mutation g e) \<longrightarrow> currentView g os = Some v"
    using h ne unfolding history_def by blast
  from b show ?thesis unfolding engineBatch_def
  proof (elim disjE exE conjE)
    fix e assume "rejection g e" "batch = [publishEvent g e]"
    with r show ?thesis unfolding history_def
      by (intro disjI2 exI [of _ v] exI [of _ t] exI [of _ "rest @ [e]"]) auto
  next
    fix es s v' assume es: "es \<noteq> []" "\<forall>e \<in> set es. mutation g e" "batch = acceptBatch g es s v'"
    then have "\<exists>e \<in> set es. mutation g e" by (cases es) auto
    with es r show ?thesis unfolding history_def
      by (intro disjI2 exI [of _ v] exI [of _ t] exI [of _ "rest @ es"]) auto
  qed (use h in simp)
qed

text \<open>A batch without an event for the user changes nothing for him.\<close>

lemma batch_unseen:
  assumes "engineBatch g batch" "filter (shownTo user) (published batch) = []"
  shows "currentView g (os @ batch) = currentView g os" "quiet g (published batch)"
proof -
  from assms have "batch = [] \<or> (\<exists>e. rejection g e \<and> batch = [publishEvent g e])"
    unfolding engineBatch_def
  proof (elim disjE exE conjE)
    fix es s v assume es: "es \<noteq> []" "\<forall>e \<in> set es. mutation g e" "batch = acceptBatch g es s v"
    then have "filter (shownTo user) es = es" by (auto intro!: filter_True mutation_facts)
    with es assms(2) show ?thesis by simp
  qed auto
  then show "currentView g (os @ batch) = currentView g os" "quiet g (published batch)" by (auto simp: mutation_facts)
qed

lemma batch_last:
  assumes "engineBatch g batch" "e \<in> set (published batch)"
  shows "be_type e \<noteq> ''game-started''"
  using assms by (auto simp: engineBatch_def dest: mutation_facts(1,4))

section \<open>Answers\<close>

definition answer :: "(exn + kingdoms_view) option \<Rightarrow> kingdoms_view option option" where
  "answer r = map_option (\<lambda>a. case a of Inr v \<Rightarrow> Some v | Inl _ \<Rightarrow> None) r"

text \<open>Against the view \<open>cur\<close> of the engine: requests that cannot spoil it, and a store that shows it or will.\<close>

definition harmless :: "kingdoms_view option \<Rightarrow> (exn + kingdoms_view) option list \<Rightarrow> bool" where
  "harmless cur reqs \<longleftrightarrow> (\<forall>r \<in> set reqs. answer r \<in> {None, Some None, Some cur})"

definition synced :: "kingdoms_view option \<Rightarrow> kingdoms_view option \<Rightarrow> (exn + kingdoms_view) option list \<Rightarrow> bool" where
  "synced cur view reqs \<longleftrightarrow> view = cur \<and> harmless cur reqs \<or> reqs \<noteq> [] \<and> answer (last reqs) \<in> {None, Some cur}"

lemma harmless_append [simp]: "harmless cur (rs @ rs') \<longleftrightarrow> harmless cur rs \<and> harmless cur rs'"
  by (simp only: harmless_def set_append ball_Un)

lemma harmless_simps [simp]: "harmless cur []" "harmless cur (None # rs) \<longleftrightarrow> harmless cur rs"
  by (simp_all add: harmless_def answer_def)

lemma harmless_None: "harmless None rs \<Longrightarrow> harmless cur rs"
  by (auto simp: harmless_def)

lemma harmless_subset: "set rs \<subseteq> set rs' \<Longrightarrow> harmless cur rs' \<Longrightarrow> harmless cur rs"
  unfolding harmless_def by (rule ballI) (blast dest: subsetD)

lemma answer_endpoint [simp]: "answer (Some (initEndpoint os g)) = Some (currentView g os)"
  by (simp add: answer_def currentView_def)

lemma synced_asked [simp]: "synced cur view (rs @ [None])"
  by (simp add: synced_def answer_def)

lemma fetchDone_view: "ks_view (fetchDone r st) = (case answer (Some r) of Some (Some v) \<Rightarrow> Some v | _ \<Rightarrow> ks_view st)"
  by (simp add: fetchDone_def answer_def split: sum.split)

lemma harmless_served: "harmless (currentView g os) rs \<Longrightarrow> harmless (currentView g os) (rs[i := Some (initEndpoint os g)])"
  unfolding harmless_def by (rule ballI, drule subsetD [OF set_update_subset_insert]) auto

lemma last_served: "i < length rs \<Longrightarrow>
  last (rs[i := Some r]) = (if i = length rs - 1 then Some r else last rs)"
  by (rule last_list_update) auto

lemma synced_served:
  assumes "synced (currentView g os) view rs" "i < length rs"
  shows "synced (currentView g os) view (rs[i := Some (initEndpoint os g)])"
proof -
  have "answer (last (rs[i := Some (initEndpoint os g)])) = answer (last rs) \<or>
      answer (last (rs[i := Some (initEndpoint os g)])) = Some (currentView g os)"
    using last_served [OF assms(2), of "initEndpoint os g"] by simp
  with assms harmless_served [of g os rs i] show ?thesis by (auto simp: synced_def)
qed

lemma synced_answered:
  assumes s: "synced cur (ks_view st) (Some r # rest)" and none: "cur = None \<Longrightarrow> ks_view st = None"
  shows "synced cur (ks_view (fetchDone r st)) rest"
proof -
  from s consider "ks_view st = cur" "harmless cur (Some r # rest)" | "rest = []" "answer (Some r) = Some cur"
    | "rest \<noteq> []" "answer (last rest) \<in> {None, Some cur}" by (auto simp: synced_def answer_def split: if_splits)
  then show ?thesis
  proof cases
    case 1
    then have "answer (Some r) \<in> {None, Some None, Some cur}" "harmless cur rest" by (simp_all add: harmless_def)
    with 1 show ?thesis by (auto simp: synced_def fetchDone_view split: option.split)
  next
    case 2
    then have "ks_view (fetchDone r st) = cur" using none by (auto simp: fetchDone_view split: option.split)
    with 2 show ?thesis by (simp add: synced_def)
  qed (simp add: synced_def)
qed

section \<open>The invariant of a run that keeps all promises\<close>

fun relayedEvent :: "string \<Rightarrow> kgw_input \<Rightarrow> kbus list" where
  "relayedEvent g (BusEvent e) = (if be_gameId e = g then [e] else [])"
| "relayedEvent g _ = []"

definition relayedOf :: "string \<Rightarrow> kgw_input list \<Rightarrow> kbus list" where
  "relayedOf g ins = concat (map (relayedEvent g) ins)"

lemma relayedOf_snoc [simp]: "relayedOf g (ins @ [inp]) = relayedOf g ins @ relayedEvent g inp" "relayedOf g [] = []"
  by (simp_all add: relayedOf_def)

abbreviation outputs :: "kworld \<Rightarrow> koutput list" where
  "outputs w \<equiv> kw_done w @ kw_todo w"

text \<open>The services: the gateway's trace, the engine, and the events between them.\<close>

definition server_inv :: "verifier \<Rightarrow> string \<Rightarrow> kworld \<Rightarrow> bool" where
  "server_inv verify g w \<longleftrightarrow> gw_trace verify (kw_inputs w) (kw_gateway w) \<and> en_out (kw_engine w) = outputs w \<and>
     hosting g (kw_engine w) \<and> (outputs w = [] \<longrightarrow> jget (en_games (kw_engine w)) g = None) \<and> history g (outputs w) \<and>
     published (kw_done w) = relayedOf g (kw_inputs w) @ kw_bus w"

text \<open>The store before the game and before its first mutation.\<close>

definition view_inv :: "string \<Rightarrow> kworld \<Rightarrow> bool" where
  "view_inv g w \<longleftrightarrow> (currentView g (outputs w) = None \<longrightarrow> ks_view (kw_store w) = None) \<and>
     (quiet g (published (outputs w)) \<longrightarrow> harmless (currentView g (outputs w)) (kw_requests w))"

text \<open>The events the page will still receive if its socket stays in the game.\<close>

definition underway :: "string \<Rightarrow> kworld \<Rightarrow> kbus list" where
  "underway user w = kw_down w @ filter (shownTo user) (kw_bus w @ published (kw_todo w))"

definition awaiting :: "string \<Rightarrow> kworld \<Rightarrow> bool" where
  "awaiting g w \<longleftrightarrow> EmitSubscribe g \<in> set (kw_up w) \<and> kw_requests w \<noteq> [] \<and> last (kw_requests w) = None"

definition socket_inv :: "verifier \<Rightarrow> string \<Rightarrow> string \<Rightarrow> kworld \<Rightarrow> bool" where
  "socket_inv verify user g w \<longleftrightarrow>
     (case kw_socket w of
        None \<Rightarrow> kw_down w = [] \<and> (ks_socket (kw_store w) \<longrightarrow> ks_connectionStatus (kw_store w) \<noteq> Online \<or> awaiting g w)
      | Some x \<Rightarrow> ks_socket (kw_store w) \<and> opened (kw_inputs w) x \<and> provedUser verify (kw_inputs w) x user \<and>
          set (kw_down w) \<subseteq> set (relayedOf g (kw_inputs w)) \<and>
          (isOpen (kw_inputs w) x \<longrightarrow>
             (if follows (kw_inputs w) g x
              then (underway user w = [] \<longrightarrow> synced (currentView g (outputs w)) (ks_view (kw_store w)) (kw_requests w)) \<and>
                   (kw_down w \<noteq> [] \<and> be_type (last (kw_down w)) = ''game-started'' \<longrightarrow> quiet g (relayedOf g (kw_inputs w)))
              else kw_down w = [] \<and> awaiting g w)))"

definition watch_inv :: "verifier \<Rightarrow> string \<Rightarrow> string \<Rightarrow> kworld \<Rightarrow> bool" where
  "watch_inv verify user g w \<longleftrightarrow> server_inv verify g w \<and> view_inv g w \<and> socket_inv verify user g w"

subsection \<open>The gateway\<close>

lemma follows_open: "server_inv verify g w \<Longrightarrow> follows (kw_inputs w) g x \<Longrightarrow> isOpen (kw_inputs w) x"
  unfolding server_inv_def using gw_invD(4) [OF gw_trace_inv] by blast

lemma isOpen_connect: "opened ins x \<Longrightarrow> y \<noteq> x \<Longrightarrow> isOpen (ins @ [Connect y a h]) x = isOpen ins x"
  by (auto simp: isOpen_def opened_snoc)

lemma opened_kept: "opened ins x \<Longrightarrow> opened (ins @ [inp]) x"
  by (simp add: opened_snoc)

lemma proved_kept: "provedUser verify ins x u \<Longrightarrow> provedUser verify (ins @ [inp]) x u"
  by (simp add: provedUser_snoc)

lemma relayed_iff:
  assumes laws: "room_laws inRoom" and run: "gw_trace verify (kw_inputs w) (kw_gateway w)"
    and p: "\<And>x. kw_socket w = Some x \<Longrightarrow> provedUser verify (kw_inputs w) x user" and e: "be_gameId e = g"
  shows "relayedTo inRoom verify e w \<longleftrightarrow> joined g w \<and> shownTo user e"
proof -
  note I = gw_invD(3) [OF gw_trace_inv [OF run]]
  have one: "provedUser verify (kw_inputs w) x u \<longleftrightarrow> u = user" if "kw_socket w = Some x" for x u
    using p [OF that] I [of x u] I [of x user] by auto
  have "receivers inRoom (gw_out (kw_gateway w)) (sentBy (kw_gateway w) (gwStep verify (BusEvent e) (kw_gateway w))) x \<longleftrightarrow>
      follows (kw_inputs w) g x \<and> shownTo user e" if "kw_socket w = Some x" for x
    using relay_receivers [OF run laws, of e x] one [OF that] e by (simp add: gwStep_def shownTo_def split: option.split)
  then show ?thesis by (auto simp: relayedTo_def joined_def)
qed

lemma server_inv_input:
  assumes "server_inv verify g w" "gwAccepts (kw_inputs w) inp" "relayedEvent g inp = []"
  shows "server_inv verify g (gwInput verify inp w)"
  using assms gw_trace.step [of verify "kw_inputs w" "kw_gateway w" inp] by (simp add: server_inv_def gwInput_def)

text \<open>What the page does to its own side leaves the services alone.\<close>

lemma server_inv_page [simp]:
  "server_inv verify g (w\<lparr>kw_store := st\<rparr>) = server_inv verify g w" "server_inv verify g (w\<lparr>kw_up := u\<rparr>) = server_inv verify g w"
  "server_inv verify g (w\<lparr>kw_down := d\<rparr>) = server_inv verify g w" "server_inv verify g (w\<lparr>kw_requests := rs\<rparr>) = server_inv verify g w"
  "server_inv verify g (w\<lparr>kw_socket := x\<rparr>) = server_inv verify g w"
  by (simp_all add: server_inv_def)

lemma view_inv_frame [simp]:
  "view_inv g (w\<lparr>kw_up := u\<rparr>) = view_inv g w" "view_inv g (w\<lparr>kw_down := d\<rparr>) = view_inv g w"
  "view_inv g (w\<lparr>kw_socket := x\<rparr>) = view_inv g w" "view_inv g (w\<lparr>kw_bus := b\<rparr>) = view_inv g w" "view_inv g (gwInput verify inp w) = view_inv g w"
  by (simp_all add: view_inv_def gwInput_def)

lemma view_inv_asked: "view_inv g w \<Longrightarrow> rs \<in> {[], [None]} \<Longrightarrow> ks_view st = ks_view (kw_store w) \<or> ks_view st = None \<Longrightarrow>
  view_inv g (w\<lparr>kw_store := st, kw_requests := kw_requests w @ rs\<rparr>)"
  by (auto simp: view_inv_def)

subsection \<open>Visits and sockets\<close>

lemma socket_inv_none:
  "kw_socket w = None \<Longrightarrow> socket_inv verify user g w \<longleftrightarrow>
     kw_down w = [] \<and> (ks_socket (kw_store w) \<longrightarrow> ks_connectionStatus (kw_store w) \<noteq> Online \<or> awaiting g w)"
  by (simp add: socket_inv_def)

lemma socket_shows: "socket_inv verify user g w \<Longrightarrow> \<not> ks_socket (kw_store w) \<Longrightarrow> kw_socket w = None"
  by (cases "kw_socket w") (simp_all add: socket_inv_def)

lemma watch_invD:
  assumes "watch_inv verify user g w"
  shows "server_inv verify g w" "view_inv g w" "socket_inv verify user g w"
  using assms by (simp_all add: watch_inv_def)

lemma inv_visited:
  assumes inv: "watch_inv verify user g w" and closed: "\<not> ks_socket (kw_store w)" and st: "storeConnect True g (kw_store w) = Inr (st, outs)"
  shows "watch_inv verify user g (w\<lparr>kw_store := st, kw_up := emitted g outs, kw_requests := kw_requests w @ [None]\<rparr>)"
proof -
  have o': "outs = [EmitSubscribe g]" "ks_view st = ks_view (kw_store w)" using st by (auto simp: storeConnect_def)
  have none: "kw_socket w = None" by (rule socket_shows [OF watch_invD(3) [OF inv] closed])
  then have "kw_down w = []" using watch_invD(3) [OF inv] by (simp add: socket_inv_none)
  with none have "socket_inv verify user g (w\<lparr>kw_store := st, kw_up := emitted g outs, kw_requests := kw_requests w @ [None]\<rparr>)"
    by (simp add: socket_inv_none awaiting_def emitted_def o')
  moreover have "view_inv g (w\<lparr>kw_store := st, kw_requests := kw_requests w @ [None]\<rparr>)"
    using watch_invD(2) [OF inv] o'(2) by (intro view_inv_asked) simp_all
  then have "view_inv g (w\<lparr>kw_store := st, kw_up := emitted g outs, kw_requests := kw_requests w @ [None]\<rparr>)" by (simp add: view_inv_def)
  ultimately show ?thesis using watch_invD(1) [OF inv] by (simp add: watch_inv_def)
qed

lemma inv_left:
  assumes inv: "watch_inv verify user g w" and st: "storeDisconnect (kw_store w) = (st, outs)"
  shows "watch_inv verify user g (w\<lparr>kw_store := st, kw_socket := None, kw_up := [], kw_down := []\<rparr>)"
proof -
  have "st = emptyStore" using st by (simp add: storeDisconnect_def)
  then show ?thesis using inv by (simp add: watch_inv_def socket_inv_def view_inv_def emptyStore_def)
qed

lemma inv_lost:
  assumes inv: "watch_inv verify user g w"
  shows "watch_inv verify user g (w\<lparr>kw_store := onSocketDisconnect (kw_store w), kw_socket := None, kw_up := [], kw_down := []\<rparr>)"
  using inv by (simp add: watch_inv_def socket_inv_def view_inv_def onSocketDisconnect_def)

lemma inv_attempted:
  assumes inv: "watch_inv verify user g w" and none: "kw_socket w = None"
  shows "watch_inv verify user g (w\<lparr>kw_store := onReconnectAttempt (kw_store w)\<rparr>)"
  using assms by (simp add: watch_inv_def socket_inv_def view_inv_def onReconnectAttempt_def)

lemma inv_opened:
  assumes v: "verify token = Some (user, name)" "token \<noteq> []"
    and inv: "watch_inv verify user g w" and sh: "ks_socket (kw_store w)" "kw_socket w = None"
    and acc: "gwAccepts (kw_inputs w) (Connect x (Some token) h)" and st: "onSocketConnect g (kw_store w) = (st, outs)"
  shows "watch_inv verify user g ((gwInput verify (Connect x (Some token) h) w)
    \<lparr>kw_store := st, kw_socket := Some x, kw_up := kw_up w @ emitted g outs, kw_requests := kw_requests w @ reissued g outs\<rparr>)"
    (is "watch_inv verify user g ?w")
proof -
  let ?c = "Connect x (Some token) h"
  have fresh: "\<not> opened (kw_inputs w) x" using acc by (simp add: gwAccepts_def)
  then have nf: "\<not> follows (kw_inputs w) g x" using follows_open [of verify g w x] inv isOpen_opened by (auto simp: watch_inv_def)
  have ks: "ks_view st = ks_view (kw_store w)" "ks_socket st"
    "ks_connectionStatus (kw_store w) \<noteq> Online \<Longrightarrow> outs = [EmitSubscribe g, FetchInit g]"
    "ks_connectionStatus (kw_store w) = Online \<Longrightarrow> outs = []"
    using st sh(1) by (auto simp: onSocketConnect_def)
  have s: "server_inv verify g (gwInput verify ?c w)" using inv acc by (intro server_inv_input) (simp_all add: watch_inv_def)
  have "view_inv g (w\<lparr>kw_store := st, kw_requests := kw_requests w @ reissued g outs\<rparr>)"
    using inv ks by (intro view_inv_asked) (cases "ks_connectionStatus (kw_store w) = Online"; simp add: watch_inv_def)+
  then have vi: "view_inv g ?w" by (simp add: view_inv_def gwInput_def)
  have "kw_down w = []" "ks_connectionStatus (kw_store w) = Online \<Longrightarrow> awaiting g w"
    using inv sh by (auto simp: watch_inv_def socket_inv_def)
  then have "kw_down ?w = [] \<and> awaiting g ?w" using ks(3,4)
    by (cases "ks_connectionStatus (kw_store w) = Online") (simp_all add: awaiting_def emitted_def gwInput_def)
  moreover have "provedUser verify (kw_inputs w @ [?c]) x user" "opened (kw_inputs w @ [?c]) x" "\<not> follows (kw_inputs w @ [?c]) g x"
    using v nf by (auto simp: provedUser_snoc opened_snoc follows_snoc tokenOf_def)
  ultimately have "socket_inv verify user g ?w" using ks(2) by (simp add: socket_inv_def gwInput_def)
  with s vi show ?thesis by (simp add: watch_inv_def)
qed

subsection \<open>The gateway and the bus\<close>

lemma inv_heard:
  assumes inv: "watch_inv verify user g w" and x: "kw_socket w = Some x" and up: "kw_up w = EmitSubscribe g # rest"
    and acc: "gwAccepts (kw_inputs w) (Subscribe x g)"
  shows "watch_inv verify user g ((gwInput verify (Subscribe x g) w)\<lparr>kw_up := rest\<rparr>)" (is "watch_inv verify user g ?w")
proof -
  have s: "server_inv verify g (gwInput verify (Subscribe x g) w)" using inv acc by (intro server_inv_input) (simp_all add: watch_inv_def)
  have op: "isOpen (kw_inputs w) x" using acc by (simp add: gwAccepts_def)
  have p: "socket_inv verify user g w" using inv by (simp add: watch_inv_def)
  have fol: "follows (kw_inputs w @ [Subscribe x g]) g x" by (simp add: follows_snoc)
  have u: "underway user ?w = underway user w" by (simp add: underway_def gwInput_def)
  have "synced (currentView g (outputs w)) (ks_view (kw_store w)) (kw_requests w)" if "\<not> follows (kw_inputs w) g x"
  proof -
    have "awaiting g w" using p x op that by (simp add: socket_inv_def)
    then show ?thesis by (simp add: awaiting_def synced_def answer_def)
  qed
  then have "socket_inv verify user g ?w" using p x op fol u
    by (cases "follows (kw_inputs w) g x") (auto simp: socket_inv_def gwInput_def opened_kept proved_kept)
  with s inv show ?thesis by (simp add: watch_inv_def)
qed

lemma inv_others:
  assumes inv: "watch_inv verify user g w" and acc: "gwAccepts (kw_inputs w) inp" and el: "elsewhere g (kw_socket w) inp"
  shows "watch_inv verify user g (gwInput verify inp w)"
proof -
  have rel: "relayedEvent g inp = []" using el by (cases inp) (simp_all add: elsewhere_def)
  have s: "server_inv verify g (gwInput verify inp w)" using inv acc rel by (intro server_inv_input) (simp_all add: watch_inv_def)
  have p: "socket_inv verify user g w" using inv by (simp add: watch_inv_def)
  have frame: "underway user (gwInput verify inp w) = underway user w" "awaiting g (gwInput verify inp w) = awaiting g w"
    "kw_socket (gwInput verify inp w) = kw_socket w" "kw_store (gwInput verify inp w) = kw_store w" "kw_down (gwInput verify inp w) = kw_down w"
    "kw_requests (gwInput verify inp w) = kw_requests w" "kw_inputs (gwInput verify inp w) = kw_inputs w @ [inp]"
    "outputs (gwInput verify inp w) = outputs w"
    by (simp_all add: underway_def awaiting_def gwInput_def)
  have "socket_inv verify user g (gwInput verify inp w)"
  proof (cases "kw_socket w")
    case None
    with p show ?thesis by (simp add: socket_inv_def frame)
  next
    case (Some x)
    have o': "opened (kw_inputs w) x" using p Some by (simp add: socket_inv_def)
    have same: "isOpen (kw_inputs w) x \<and> follows (kw_inputs w @ [inp]) g x = follows (kw_inputs w) g x"
      if "isOpen (kw_inputs w @ [inp]) x"
      using that o' acc el Some by (cases inp) (auto simp: elsewhere_def follows_snoc isOpen_connect gwAccepts_def isOpen_def opened_snoc)
    then show ?thesis using p Some o' rel by (auto simp: socket_inv_def frame opened_kept proved_kept)
  qed
  with s inv show ?thesis by (simp add: watch_inv_def)
qed

lemma relayed_part:
  assumes "server_inv verify g w"
  shows "published (outputs w) = relayedOf g (kw_inputs w) @ kw_bus w @ published (kw_todo w)"
  using assms by (simp add: server_inv_def)

lemma inv_relayed:
  assumes laws: "room_laws inRoom" and inv: "watch_inv verify user g w" and bus: "kw_bus w = e # es"
  shows "watch_inv verify user g ((gwInput verify (BusEvent e) w)
    \<lparr>kw_bus := es, kw_down := kw_down w @ (if relayedTo inRoom verify e w then [e] else [])\<rparr>)" (is "watch_inv verify user g ?w")
proof -
  note s = watch_invD(1) [OF inv] and p = watch_invD(3) [OF inv]
  have h: "history g (outputs w)" using s by (simp add: server_inv_def)
  note part = relayed_part [OF s, unfolded bus]
  have g: "be_gameId e = g" by (rule history_game [OF h]) (simp only: part, simp)
  have to: "relayedTo inRoom verify e w \<longleftrightarrow> joined g w \<and> shownTo user e" 
    by (rule relayed_iff [OF laws _ _ g]) (use s p in \<open>auto simp: server_inv_def socket_inv_def\<close>)
  have rel: "relayedOf g (kw_inputs w @ [BusEvent e]) = relayedOf g (kw_inputs w) @ [e]" by (simp add: g)
  have s': "server_inv verify g ?w"
    using s gw_trace.step [of verify "kw_inputs w" "kw_gateway w" "BusEvent e"] bus g by (simp add: server_inv_def gwInput_def gwAccepts_def)
  have first: "quiet g (relayedOf g (kw_inputs w) @ [e])" if "be_type e = ''game-started''"
  proof -
    obtain v t rest where r: "published (outputs w) = startedEvent g v t # rest" "\<forall>e \<in> set rest. mutation g e \<or> rejection g e"
      using h part unfolding history_def by auto
    have "e \<notin> set rest" using r(2) that mutation_facts(1,4) by blast
    then have "relayedOf g (kw_inputs w) = []" using r(1) part by (cases "relayedOf g (kw_inputs w)") auto
    then show ?thesis using that by (simp add: mutation_def)
  qed
  have unseen: "\<not> shownTo user e \<Longrightarrow> \<not> mutation g e" using mutation_facts(2) by blast
  have "socket_inv verify user g ?w"
  proof (cases "kw_socket w")
    case None
    then have "\<not> relayedTo inRoom verify e w" by (simp add: relayedTo_def)
    with p None show ?thesis by (simp add: socket_inv_def gwInput_def awaiting_def)
  next
    case (Some x)
    have u: "underway user ?w = underway user w" if "follows (kw_inputs w) g x"
      using that to Some bus by (simp add: underway_def gwInput_def joined_def)
    show ?thesis
    proof (cases "follows (kw_inputs w) g x")
      case True
      then have "joined g w" using Some by (simp add: joined_def)
      then show ?thesis using p Some True u first unseen to
        by (auto simp: socket_inv_def gwInput_def opened_kept proved_kept rel g follows_snoc)
    next
      case False
      then have "\<not> relayedTo inRoom verify e w" using to Some by (simp add: joined_def)
      with p Some False show ?thesis by (auto simp: socket_inv_def gwInput_def opened_kept proved_kept rel g follows_snoc awaiting_def)
    qed
  qed
  with s' watch_invD(2) [OF inv] show ?thesis by (simp add: watch_inv_def)
qed

subsection \<open>The engine\<close>

lemma inv_batch:
  assumes inv: "watch_inv verify user g w" and idle: "kw_todo w = []"
    and srv: "server_inv verify g (w\<lparr>kw_engine := en, kw_todo := batch\<rparr>)"
    and unseen: "filter (shownTo user) (published batch) = [] \<Longrightarrow> currentView g (kw_done w @ batch) = currentView g (kw_done w)"
    and none: "currentView g (kw_done w @ batch) = None \<Longrightarrow> currentView g (kw_done w) = None"
    and calm: "quiet g (published batch) \<Longrightarrow> currentView g (kw_done w @ batch) = currentView g (kw_done w) \<or> kw_done w = []"
  shows "watch_inv verify user g (w\<lparr>kw_engine := en, kw_todo := batch\<rparr>)" (is "watch_inv verify user g ?w")
proof -
  have vi: "view_inv g w" and p: "socket_inv verify user g w" using inv by (simp_all add: watch_inv_def)
  have "view_inv g ?w" using vi none calm idle currentView_batches(4) [of g] harmless_None [of "kw_requests w"]
    by (auto simp: view_inv_def)
  moreover have "synced (currentView g (outputs ?w)) (ks_view (kw_store ?w)) (kw_requests ?w)"
    if "underway user ?w = []" "underway user w = [] \<Longrightarrow> synced (currentView g (outputs w)) (ks_view (kw_store w)) (kw_requests w)"
    using that unseen idle by (simp add: underway_def)
  then have "socket_inv verify user g ?w" using p by (auto simp: socket_inv_def awaiting_def split: option.splits)
  ultimately show ?thesis using srv by (simp add: watch_inv_def)
qed

lemma inv_started:
  assumes inv: "watch_inv verify user g w" and none: "kw_done w = []" "kw_todo w = []" and ms: "announced ms"
    and run: "onGameStarting fb kingdomsRegistry now (GameStarting room g ''kingdoms-v1'' ms at') (kw_engine w) = (Inr (), en)"
  shows "watch_inv verify user g (w\<lparr>kw_engine := en, kw_todo := en_out en\<rparr>)"
proof (rule start_batch [OF ms run])
  fix i v
  assume en: "hosting g en" "jget (en_games en) g = Some i" "en_out en = en_out (kw_engine w) @ startBatch g (g_state (gi_game i)) v now"
  let ?b = "startBatch g (g_state (gi_game i)) v now"
  have s: "server_inv verify g w" using inv by (simp add: watch_inv_def)
  then have out: "en_out en = ?b" using en(3) none by (simp add: server_inv_def)
  have "?b \<noteq> []" by (simp add: startBatch_def)
  then have srv: "server_inv verify g (w\<lparr>kw_engine := en, kw_todo := ?b\<rparr>)"
    using s en(1) none out history_started by (simp add: server_inv_def)
  have cur: "currentView g (kw_done w @ ?b) = Some v" using currentView_batches(1) [of g "[]"] by (simp add: none)
  have pub: "published ?b = [startedEvent g v now]" by (simp add: startBatch_def)
  show ?thesis unfolding out
    by (rule inv_batch [OF inv none(2) srv]) (simp_all add: cur pub none)
qed

lemma inv_commanded:
  assumes inv: "watch_inv verify user g w" and idle: "kw_todo w = []" and m: "cm_gameId m = g"
    and run: "handleCommand fb load ck now m (kw_engine w) = (res, en)"
  shows "watch_inv verify user g (w\<lparr>kw_engine := en, kw_todo := drop (length (en_out (kw_engine w))) (en_out en)\<rparr>)"
proof -
  have s: "server_inv verify g w" using inv by (simp add: watch_inv_def)
  then have host: "hosting (cm_gameId m) (kw_engine w)" by (simp add: server_inv_def m)
  from command_batch [OF host run] obtain batch where b: "hosting g en" "en_out en = en_out (kw_engine w) @ batch" "engineBatch g batch"
    by (auto simp: m)
  have todo: "drop (length (en_out (kw_engine w))) (en_out en) = batch" by (simp add: b(2))
  show ?thesis
  proof (cases "kw_done w = []")
    case True
    then have "jget (en_games (kw_engine w)) g = None" using s idle by (simp add: server_inv_def)
    then have "en = kw_engine w" using run by (auto simp: handleCommand_def Let_def m)
    moreover have "batch = []" using b(2) calculation by simp
    moreover have "w\<lparr>kw_engine := kw_engine w, kw_todo := []\<rparr> = w" using idle by (cases w) simp
    ultimately show ?thesis using inv todo by simp
  next
    case False
    have h: "history g (kw_done w)" using s idle by (simp add: server_inv_def)
    have h': "history g (kw_done w @ batch)" by (rule history_batch [OF h b(3) False])
    then have srv: "server_inv verify g (w\<lparr>kw_engine := en, kw_todo := batch\<rparr>)"
      using s b(1,2) idle False by (simp add: server_inv_def)
    have "filter (shownTo user) (published batch) = []" if "quiet g (published batch)" "currentView g (kw_done w @ batch) \<noteq> currentView g (kw_done w)"
      using b(3) that unfolding engineBatch_def by (fastforce simp: quiet_def)
    then show ?thesis unfolding todo
      using history_none [OF h'] False batch_unseen(1) [OF b(3)] by (intro inv_batch [OF inv idle srv]) blast+
  qed
qed

lemma inv_performed:
  assumes inv: "watch_inv verify user g w" and todo: "kw_todo w = out # outs"
  shows "watch_inv verify user g (w\<lparr>kw_done := kw_done w @ [out], kw_todo := outs, kw_bus := kw_bus w @ published [out]\<rparr>)"
    (is "watch_inv verify user g ?w")
proof -
  have os: "outputs ?w = outputs w" by (simp add: todo)
  have "published (out # outs) = published [out] @ published outs" by (simp flip: published_simps(2))
  then have u: "underway user ?w = underway user w" by (simp add: underway_def todo)
  have "server_inv verify g ?w" using watch_invD(1) [OF inv] os unfolding server_inv_def os by simp
  moreover have "view_inv g ?w" using watch_invD(2) [OF inv] unfolding view_inv_def os by simp
  moreover have "socket_inv verify user g ?w" using watch_invD(3) [OF inv]
    unfolding socket_inv_def os u awaiting_def by (cases "kw_socket w") simp_all
  ultimately show ?thesis by (simp add: watch_inv_def)
qed

subsection \<open>The page\<close>

lemma eventEffects_socket: "ks_socket (eventEffects now e st) = ks_socket st"
  by (auto simp: eventEffects_def showBattle_def addTileEffect_def split: bus_payload.split event_payload.split kevent.split)

lemma onKingdomsEvent_socket: "onKingdomsEvent now g e st = (st', outs) \<Longrightarrow> ks_socket st' = ks_socket st"
  by (auto simp: onKingdomsEvent_def Let_def eventEffects_socket split: if_splits bus_payload.splits)

lemma inv_delivered:
  assumes inv: "watch_inv verify user g w" and down: "kw_down w = e # es" and run: "onKingdomsEvent now g e (kw_store w) = (st, outs)"
  shows "watch_inv verify user g (w\<lparr>kw_store := st, kw_down := es, kw_requests := kw_requests w @ reissued g outs\<rparr>)"
    (is "watch_inv verify user g ?w")
proof -
  note s = watch_invD(1) [OF inv] and p = watch_invD(3) [OF inv] and part = relayed_part [OF watch_invD(1) [OF inv]]
  note ev = onKingdomsEvent_cases [OF run]
  obtain x where x: "kw_socket w = Some x" using p down by (cases "kw_socket w") (simp_all add: socket_inv_def)
  with p down have e: "e \<in> set (relayedOf g (kw_inputs w))" by (simp add: socket_inv_def)
  have h: "history g (outputs w)" using s by (simp add: server_inv_def)
  have "outputs w \<noteq> []" using e part by (auto simp del: published_simps(2))
  then have some: "currentView g (outputs w) \<noteq> None" using history_none [OF h] by blast
  have vi: "view_inv g ?w" using watch_invD(2) [OF inv] some ev(3) by (auto simp: view_inv_def)
  have "synced (currentView g (outputs w)) (ks_view st) (kw_requests w @ reissued g outs)"
    if u: "underway user ?w = []" and calm: "be_type e = ''game-started'' \<Longrightarrow> es = [] \<Longrightarrow> quiet g (relayedOf g (kw_inputs w))"
  proof (cases "be_type e = ''game-started''")
    case True
    have "es = []" "filter (shownTo user) (kw_bus w @ published (kw_todo w)) = []" using u by (simp_all add: underway_def)
    then have q: "quiet g (published (outputs w))" using calm True mutation_facts(2) unfolding part quiet_def
      by (auto simp: filter_empty_conv simp del: published_simps(2))
    obtain v t rest where r: "published (outputs w) = startedEvent g v t # rest" "\<forall>e \<in> set rest. mutation g e \<or> rejection g e"
      "(\<forall>e \<in> set rest. \<not> mutation g e) \<longrightarrow> currentView g (outputs w) = Some v"
      using h \<open>outputs w \<noteq> []\<close> unfolding history_def by blast
    have "e \<in> set (published (outputs w))" using e unfolding part by simp
    then have "e = startedEvent g v t" using r(2) True mutation_facts(1,4) unfolding r(1) by auto
    moreover have "currentView g (outputs w) = Some v" using r(1,3) q by (simp add: quiet_def)
    ultimately show ?thesis using ev(2) [OF True, of v] watch_invD(2) [OF inv] q by (simp add: view_inv_def synced_def)
  qed (use ev(1) in simp)
  then have "socket_inv verify user g ?w" using p x down onKingdomsEvent_socket [OF run]
    by (auto simp: socket_inv_def split: if_splits)
  with s vi show ?thesis by (simp add: watch_inv_def)
qed

lemma inv_served:
  assumes inv: "watch_inv verify user g w" and i: "i < length (kw_requests w)" "kw_requests w ! i = None"
    and idle: "kw_todo w = []" and join: "joined g w"
  shows "watch_inv verify user g (w\<lparr>kw_requests := (kw_requests w)[i := Some (initEndpoint (kw_done w) g)]\<rparr>)"
    (is "watch_inv verify user g ?w")
proof -
  have vi: "view_inv g ?w" using watch_invD(2) [OF inv] idle by (simp add: view_inv_def harmless_served)
  have "underway user ?w = underway user w" by (simp add: underway_def)
  then have "socket_inv verify user g ?w" using watch_invD(3) [OF inv] join idle synced_served [OF _ i(1), of g "kw_done w"]
    by (auto simp: socket_inv_def joined_def)
  with vi watch_invD(1) [OF inv] show ?thesis by (simp add: watch_inv_def)
qed

lemma inv_answered:
  assumes inv: "watch_inv verify user g w" and reqs: "kw_requests w = Some r # rest"
  shows "watch_inv verify user g (w\<lparr>kw_store := fetchDone r (kw_store w), kw_requests := rest\<rparr>)" (is "watch_inv verify user g ?w")
proof -
  note s = watch_invD(1) [OF inv] and v = watch_invD(2) [OF inv] and p = watch_invD(3) [OF inv]
  have keep: "ks_socket (fetchDone r st) = ks_socket st" "ks_connectionStatus (fetchDone r st) = ks_connectionStatus st" for st
    by (simp_all add: fetchDone_def split: sum.split)
  have h: "history g (outputs w)" using s by (simp add: server_inv_def)
  have none: "ks_view (fetchDone r (kw_store w)) = None" if "currentView g (outputs w) = None"
  proof -
    from that history_none [OF h] have "quiet g (published (outputs w))" by simp
    with v that show ?thesis by (auto simp: view_inv_def reqs harmless_def fetchDone_view split: option.split)
  qed
  then have vi: "view_inv g ?w" using v harmless_subset [of rest "kw_requests w"] reqs by (auto simp: view_inv_def)
  have "underway user ?w = underway user w" by (simp add: underway_def)
  moreover have "synced (currentView g (outputs w)) (ks_view (kw_store w)) (kw_requests w) \<Longrightarrow>
      synced (currentView g (outputs w)) (ks_view (fetchDone r (kw_store w))) rest"
    using synced_answered [of "currentView g (outputs w)" "kw_store w" r rest] v by (simp add: reqs view_inv_def)
  moreover have "awaiting g w \<Longrightarrow> awaiting g ?w" by (auto simp: awaiting_def reqs split: if_splits)
  ultimately have "socket_inv verify user g ?w" using p by (auto simp: socket_inv_def keep split: option.splits)
  with vi s show ?thesis by (simp add: watch_inv_def)
qed

lemma inv_start: "watch_inv verify user g emptyWorld"
  by (simp add: watch_inv_def server_inv_def view_inv_def socket_inv_def emptyWorld_def emptyEngine_def emptyStore_def gw_trace.start
      hosting_def history_def)

lemma watch_inv_reachable:
  assumes "watching UNIV inRoom verify token g w" "room_laws inRoom" "verify token = Some (user, name)" "token \<noteq> []"
  shows "watch_inv verify user g w"
  using assms(1)
proof (induction rule: watching.induct)
  case start
  show ?case by (rule inv_start)
next
  case (answered w i r)
  then have "i = 0" by simp
  with answered.hyps(2,3) have "kw_requests w = Some r # drop 1 (kw_requests w)" by (cases "kw_requests w") simp_all
  from inv_answered [OF answered.IH this] \<open>i = 0\<close> show ?case by simp
next
  case (served w i)
  then show ?case by (intro inv_served) simp_all
next
  case (opened w x h st outs)
  show ?case by (rule inv_opened [where name = name]) (use opened assms in simp_all)
qed (use inv_visited inv_left inv_lost inv_attempted inv_heard inv_others inv_started inv_commanded inv_performed
    inv_relayed [OF assms(2)] inv_delivered in \<open>blast | simp\<close>)+

text \<open>Once everything has arrived, the store shows the view of the engine.\<close>

lemma settled_view:
  assumes "watch_inv verify user g w" "settled w"
  shows "joined g w" "ks_view (kw_store w) = currentView g (kw_done w)"
proof -
  from assms(2) obtain x where st: "kw_todo w = []" "kw_bus w = []" "kw_up w = []" "kw_down w = []" "kw_requests w = []"
    and x: "kw_socket w = Some x" "isOpen (kw_inputs w) x" by (auto simp: settled_def)
  note p = watch_invD(3) [OF assms(1)]
  show j: "joined g w" using p x st(3) by (auto simp: socket_inv_def joined_def awaiting_def split: if_splits)
  then have "underway user w = [] \<longrightarrow> synced (currentView g (outputs w)) (ks_view (kw_store w)) (kw_requests w)"
    using p x by (auto simp: socket_inv_def joined_def)
  with st show "ks_view (kw_store w) = currentView g (kw_done w)" by (simp add: underway_def synced_def)
qed

end
