(* ===== verification/KingdomsCatchUp.thy ===== *)
theory KingdomsCatchUp
  imports KingdomsWatch
begin

text \<open>
  What the world of \<open>KingdomsWatch\<close> comes to once everything has arrived: with all promises the store of the page shows
  the view of the engine, and no promise can be spared.
\<close>

section \<open>Fewer promises, more runs\<close>

lemma watching_mono:
  assumes "watching ps inRoom verify token g w" "ps' \<subseteq> ps"
  shows "watching ps' inRoom verify token g w"
  using assms(1)
proof (induction rule: watching.induct)
  case start
  show ?case by (rule watching.start)
next
  case (served w i)
  with assms(2) show ?case by (intro watching.served) auto
next
  case (failed w i failure)
  with assms(2) show ?case by (intro watching.failed) auto
next
  case (answered w i r)
  with assms(2) show ?case by (intro watching.answered) auto
next
  case (relayed w e es)
  then show ?case by (intro watching.relayed)
qed (auto intro: watching.intros)

section \<open>Where a run stands while the socket of the page is open\<close>

definition live :: "promise set \<Rightarrow> krooms \<Rightarrow> verifier \<Rightarrow> string \<Rightarrow> string \<Rightarrow> string \<Rightarrow> string \<Rightarrow> kworld \<Rightarrow> bool" where
  "live ps inRoom verify token g user x w \<longleftrightarrow> watching ps inRoom verify token g w \<and> gw_trace verify (kw_inputs w) (kw_gateway w) \<and>
     kw_socket w = Some x \<and> isOpen (kw_inputs w) x \<and> provedUser verify (kw_inputs w) x user \<and> ks_socket (kw_store w)"

text \<open>
  What matters of a world from here on: the engine, its outputs done and to do, the bus, whether the socket of the page is in
  the game, its messages up and down, the requests, and the view the store shows.
\<close>

definition looks :: "string \<Rightarrow> string \<Rightarrow> kworld \<Rightarrow> kengine \<Rightarrow> koutput list \<Rightarrow> koutput list \<Rightarrow> kbus list \<Rightarrow> bool \<Rightarrow>
    client_output list \<Rightarrow> kbus list \<Rightarrow> (exn + kingdoms_view) option list \<Rightarrow> kingdoms_view option \<Rightarrow> bool" where
  "looks g x w en d todo bus fol up down reqs view \<longleftrightarrow>
     kw_engine w = en \<and> kw_done w = d \<and> kw_todo w = todo \<and> kw_bus w = bus \<and> follows (kw_inputs w) g x = fol \<and>
     kw_up w = up \<and> kw_down w = down \<and> kw_requests w = reqs \<and> ks_view (kw_store w) = view"

definition standing :: "promise set \<Rightarrow> krooms \<Rightarrow> verifier \<Rightarrow> string \<Rightarrow> string \<Rightarrow> string \<Rightarrow> kengine \<Rightarrow> koutput list \<Rightarrow> koutput list \<Rightarrow>
    kbus list \<Rightarrow> bool \<Rightarrow> client_output list \<Rightarrow> kbus list \<Rightarrow> (exn + kingdoms_view) option list \<Rightarrow> kingdoms_view option \<Rightarrow> bool" where
  "standing ps inRoom verify token g user en d todo bus fol up down reqs view \<longleftrightarrow>
     (\<exists>w x. live ps inRoom verify token g user x w \<and> looks g x w en d todo bus fol up down reqs view)"

lemma standing_at: "live ps inRoom verify token g user x w \<Longrightarrow> looks g x w en d todo bus fol up down reqs view \<Longrightarrow>
  standing ps inRoom verify token g user en d todo bus fol up down reqs view"
  unfolding standing_def by blast

lemma standingE:
  assumes "standing ps inRoom verify token g user en d todo bus fol up down reqs view"
  obtains w x where "live ps inRoom verify token g user x w" "looks g x w en d todo bus fol up down reqs view"
  using assms unfolding standing_def by blast

lemma trace_input: "gw_trace verify (kw_inputs w) (kw_gateway w) \<Longrightarrow> gwAccepts (kw_inputs w) inp \<Longrightarrow>
  gw_trace verify (kw_inputs w @ [inp]) (gwStep verify inp (kw_gateway w))"
  by (rule gw_trace.step)

subsection \<open>The engine\<close>

lemma standing_command:
  assumes "standing ps inRoom verify token g user en d [] bus fol up down reqs view" and m: "cm_gameId m = g"
    and run: "handleCommand fb load ck now m en = (res, en')" "en_out en' = en_out en @ batch"
  shows "standing ps inRoom verify token g user en' d batch bus fol up down reqs view"
proof (rule standingE [OF assms(1)])
  fix w x
  assume w: "live ps inRoom verify token g user x w" "looks g x w en d [] bus fol up down reqs view"
  then have "live ps inRoom verify token g user x (w\<lparr>kw_engine := en', kw_todo := batch\<rparr>)"
    using watching.commanded [of ps inRoom verify token g w m fb load ck now res en'] m run by (simp add: live_def looks_def)
  then show ?thesis by (rule standing_at) (use w(2) in \<open>simp add: looks_def\<close>)
qed

lemma standing_perform:
  assumes "standing ps inRoom verify token g user en d (outs @ todo) bus fol up down reqs view"
  shows "standing ps inRoom verify token g user en (d @ outs) todo (bus @ published outs) fol up down reqs view"
  using assms
proof (induction outs arbitrary: d bus)
  case (Cons out outs)
  have "standing ps inRoom verify token g user en (d @ [out]) (outs @ todo) (bus @ published [out]) fol up down reqs view"
  proof (rule standingE [OF Cons.prems])
    fix w x
    assume w: "live ps inRoom verify token g user x w" "looks g x w en d ((out # outs) @ todo) bus fol up down reqs view"
    then have "live ps inRoom verify token g user x
        (w\<lparr>kw_done := kw_done w @ [out], kw_todo := outs @ todo, kw_bus := kw_bus w @ published [out]\<rparr>)"
      using watching.performed [of ps inRoom verify token g w out "outs @ todo"] by (simp add: live_def looks_def)
    then show ?thesis by (rule standing_at) (use w(2) in \<open>simp add: looks_def\<close>)
  qed
  from Cons.IH [OF this] have "standing ps inRoom verify token g user en ((d @ [out]) @ outs) todo (bus @ published ([out] @ outs)) fol up down reqs view"
    by (simp only: published_simps(2) append_assoc)
  then show ?case by simp
qed simp

subsection \<open>The events\<close>

lemma standing_relay:
  assumes "standing ps inRoom verify token g user en d todo (es @ bus) fol up down reqs view"
    and laws: "room_laws inRoom" and es: "\<forall>e \<in> set es. be_gameId e = g \<and> shownTo user e"
  shows "standing ps inRoom verify token g user en d todo bus fol up (down @ (if fol then es else [])) reqs view"
  using assms(1) es
proof (induction es arbitrary: down)
  case (Cons e es)
  have "standing ps inRoom verify token g user en d todo (es @ bus) fol up (down @ (if fol then [e] else [])) reqs view"
  proof (rule standingE [OF Cons.prems(1)])
    fix w x
    assume w: "live ps inRoom verify token g user x w" "looks g x w en d todo ((e # es) @ bus) fol up down reqs view"
    have e: "be_gameId e = g" "shownTo user e" using Cons.prems(2) by simp_all
    have "relayedTo inRoom verify e w \<longleftrightarrow> joined g w \<and> shownTo user e"
      by (rule relayed_iff [OF laws _ _ e(1)]) (use w(1) in \<open>simp_all add: live_def\<close>)
    then have to: "relayedTo inRoom verify e w \<longleftrightarrow> fol" using w e by (simp add: joined_def live_def looks_def)
    have "live ps inRoom verify token g user x ((gwInput verify (BusEvent e) w)
        \<lparr>kw_bus := es @ bus, kw_down := kw_down w @ (if relayedTo inRoom verify e w then [e] else [])\<rparr>)"
      using watching.relayed [of ps inRoom verify token g w e "es @ bus"] w trace_input [of verify w "BusEvent e"]
      by (simp add: live_def looks_def gwInput_def gwAccepts_def proved_kept)
    then show ?thesis by (rule standing_at) (use w(2) to in \<open>simp add: looks_def gwInput_def follows_snoc\<close>)
  qed
  from Cons.IH [OF this] Cons.prems(2) show ?case by (cases fol) simp_all
qed simp

lemma onKingdomsEvent_view:
  assumes "be_type e \<noteq> ''game-started''"
  shows "\<exists>st. onKingdomsEvent 0 g e s = (st, [FetchInit g]) \<and> ks_view st = ks_view s \<and> ks_socket st = ks_socket s"
  using assms by (simp add: onKingdomsEvent_def Let_def eventEffects_socket)

lemma standing_deliver:
  assumes "standing ps inRoom verify token g user en d todo bus fol up (es @ down) reqs view"
    and es: "\<forall>e \<in> set es. be_type e \<noteq> ''game-started''"
  shows "standing ps inRoom verify token g user en d todo bus fol up down (reqs @ replicate (length es) None) view"
  using assms
proof (induction es arbitrary: reqs)
  case (Cons e es)
  have "standing ps inRoom verify token g user en d todo bus fol up (es @ down) (reqs @ [None]) view"
  proof (rule standingE [OF Cons.prems(1)])
    fix w x
    assume w: "live ps inRoom verify token g user x w" "looks g x w en d todo bus fol up ((e # es) @ down) reqs view"
    from onKingdomsEvent_view [of e g "kw_store w"] Cons.prems(2) obtain st where
      st: "onKingdomsEvent 0 g e (kw_store w) = (st, [FetchInit g])" "ks_view st = ks_view (kw_store w)" "ks_socket st = ks_socket (kw_store w)"
      by auto
    have "live ps inRoom verify token g user x (w\<lparr>kw_store := st, kw_down := es @ down, kw_requests := kw_requests w @ reissued g [FetchInit g]\<rparr>)"
      using watching.delivered [of ps inRoom verify token g w e "es @ down" 0 st "[FetchInit g]"] w st
      by (simp add: live_def looks_def)
    then show ?thesis by (rule standing_at) (use w(2) st in \<open>simp add: looks_def\<close>)
  qed
  from Cons.IH [OF this] Cons.prems(2) show ?case by simp
qed simp

lemma standing_started:
  assumes "standing ps inRoom verify token g user en d todo bus fol up [startedEvent g v t] reqs view"
  shows "standing ps inRoom verify token g user en d todo bus fol up [] reqs (Some v)"
proof (rule standingE [OF assms])
  fix w x
  assume w: "live ps inRoom verify token g user x w" "looks g x w en d todo bus fol up [startedEvent g v t] reqs view"
  obtain st outs where st: "onKingdomsEvent 0 g (startedEvent g v t) (kw_store w) = (st, outs)" by fastforce
  note ev = onKingdomsEvent_cases(2) [OF st started_facts(2) started_facts(5)] onKingdomsEvent_socket [OF st]
  have "watching ps inRoom verify token g (w\<lparr>kw_store := st, kw_down := [], kw_requests := kw_requests w @ reissued g outs\<rparr>)"
    by (rule watching.delivered [OF _ _ st]) (use w in \<open>simp_all add: live_def looks_def\<close>)
  then have "live ps inRoom verify token g user x (w\<lparr>kw_store := st, kw_down := [], kw_requests := kw_requests w @ reissued g outs\<rparr>)"
    using w ev by (simp add: live_def)
  then show ?thesis by (rule standing_at) (use w(2) ev in \<open>simp add: looks_def\<close>)
qed

subsection \<open>The requests\<close>

lemma standing_serve:
  assumes "standing ps inRoom verify token g user en d todo bus fol up down (rs @ replicate n None @ rs') view"
    and whole: "Whole \<in> ps \<Longrightarrow> todo = []" and joined: "Joined \<in> ps \<Longrightarrow> fol"
  shows "standing ps inRoom verify token g user en d todo bus fol up down (rs @ replicate n (Some (initEndpoint d g)) @ rs') view"
  using assms(1)
proof (induction n arbitrary: rs)
  case (Suc n)
  have "standing ps inRoom verify token g user en d todo bus fol up down ((rs @ [Some (initEndpoint d g)]) @ replicate n None @ rs') view"
  proof (rule standingE [OF Suc.prems])
    fix w x
    assume w: "live ps inRoom verify token g user x w" "looks g x w en d todo bus fol up down (rs @ replicate (Suc n) None @ rs') view"
    have "watching ps inRoom verify token g (w\<lparr>kw_requests := (kw_requests w)[length rs := Some (initEndpoint (kw_done w) g)]\<rparr>)"
      by (rule watching.served) (use w whole joined in \<open>auto simp: live_def looks_def joined_def\<close>)
    then have "live ps inRoom verify token g user x (w\<lparr>kw_requests := (kw_requests w)[length rs := Some (initEndpoint (kw_done w) g)]\<rparr>)"
      using w by (simp add: live_def)
    then show ?thesis by (rule standing_at) (use w(2) in \<open>simp add: looks_def\<close>)
  qed
  from Suc.IH [OF this] show ?case by simp
qed simp

lemma standing_fail:
  assumes "standing ps inRoom verify token g user en d todo bus fol up down (rs @ replicate n None @ rs') view" and rel: "Reliable \<notin> ps"
  shows "standing ps inRoom verify token g user en d todo bus fol up down (rs @ replicate n (Some (Inl failure)) @ rs') view"
  using assms(1)
proof (induction n arbitrary: rs)
  case (Suc n)
  have "standing ps inRoom verify token g user en d todo bus fol up down ((rs @ [Some (Inl failure)]) @ replicate n None @ rs') view"
  proof (rule standingE [OF Suc.prems])
    fix w x
    assume w: "live ps inRoom verify token g user x w" "looks g x w en d todo bus fol up down (rs @ replicate (Suc n) None @ rs') view"
    have "watching ps inRoom verify token g (w\<lparr>kw_requests := (kw_requests w)[length rs := Some (Inl failure)]\<rparr>)"
      by (rule watching.failed [OF _ rel]) (use w in \<open>simp_all add: live_def looks_def\<close>)
    then have "live ps inRoom verify token g user x (w\<lparr>kw_requests := (kw_requests w)[length rs := Some (Inl failure)]\<rparr>)"
      using w by (simp add: live_def)
    then show ?thesis by (rule standing_at) (use w(2) in \<open>simp add: looks_def\<close>)
  qed
  from Suc.IH [OF this] show ?case by simp
qed simp

text \<open>One answer, the first unless answers may overtake each other.\<close>

lemma standing_answer:
  assumes "standing ps inRoom verify token g user en d todo bus fol up down (rs @ Some r # rs') view" and ord: "InOrder \<in> ps \<Longrightarrow> rs = []"
  shows "standing ps inRoom verify token g user en d todo bus fol up down (rs @ rs') (case r of Inr v \<Rightarrow> Some v | Inl _ \<Rightarrow> view)"
proof (rule standingE [OF assms(1)])
  fix w :: kworld and x
  let ?w = "w\<lparr>kw_store := fetchDone r (kw_store w), kw_requests := take (length rs) (kw_requests w) @ drop (Suc (length rs)) (kw_requests w)\<rparr>"
  assume w: "live ps inRoom verify token g user x w" "looks g x w en d todo bus fol up down (rs @ Some r # rs') view"
  have "watching ps inRoom verify token g ?w"
    by (rule watching.answered) (use w ord in \<open>auto simp: live_def looks_def\<close>)
  then have "live ps inRoom verify token g user x ?w" using w by (auto simp: live_def fetchDone_def split: sum.split)
  then show ?thesis by (rule standing_at) (use w(2) in \<open>auto simp: looks_def fetchDone_def split: sum.split\<close>)
qed

lemma standing_answers:
  assumes "standing ps inRoom verify token g user en d todo bus fol up down (rs @ replicate n (Some r) @ rs') view"
    and ord: "InOrder \<in> ps \<Longrightarrow> rs = []"
  shows "standing ps inRoom verify token g user en d todo bus fol up down (rs @ rs')
    (if n = 0 then view else case r of Inr v \<Rightarrow> Some v | Inl _ \<Rightarrow> view)"
  using assms(1)
proof (induction n arbitrary: view)
  case (Suc n)
  from Suc.prems standing_answer [OF _ ord, where rs' = "replicate n (Some r) @ rs'"]
  have "standing ps inRoom verify token g user en d todo bus fol up down (rs @ replicate n (Some r) @ rs') (case r of Inr v \<Rightarrow> Some v | Inl _ \<Rightarrow> view)"
    by simp
  from Suc.IH [OF this] show ?case by (cases r) (simp_all split: if_splits)
qed simp

subsection \<open>The socket\<close>

lemma fresh_socket:
  fixes ins :: "kgw_input list"
  shows "\<exists>x. gwAccepts ins (Connect x a h)"
proof -
  have "finite {x. opened ins x}"
  proof (rule finite_subset)
    show "{x. opened ins x} \<subseteq> (\<lambda>inp. case inp of Connect x a h \<Rightarrow> x | _ \<Rightarrow> []) ` set ins"
      by (auto simp: opened_def intro: rev_image_eqI)
  qed simp
  then have "finite ((#) CHR ''s'' -` {x. opened ins x})" by (rule finite_vimageI) (simp add: inj_def)
  then obtain x where "x \<notin> (#) CHR ''s'' -` {x. opened ins x}" using ex_new_if_finite [OF infinite_UNIV_listI] by blast
  then have "\<not> opened ins (CHR ''s'' # x)" by simp
  moreover have "CHR ''s'' # x \<noteq> gameRoom g" for g by (simp add: gameRoom_def)
  ultimately show ?thesis by (auto simp: gwAccepts_def)
qed

lemma standing_hear:
  assumes "standing ps inRoom verify token g user en d todo bus fol (EmitSubscribe g # up) down reqs view"
  shows "standing ps inRoom verify token g user en d todo bus True up down reqs view"
proof (rule standingE [OF assms])
  fix w x
  assume w: "live ps inRoom verify token g user x w" "looks g x w en d todo bus fol (EmitSubscribe g # up) down reqs view"
  let ?w = "(gwInput verify (Subscribe x g) w)\<lparr>kw_up := up\<rparr>"
  have "watching ps inRoom verify token g ?w"
    by (rule watching.heard) (use w in \<open>simp_all add: live_def looks_def gwAccepts_def\<close>)
  then have "live ps inRoom verify token g user x ?w"
    using w trace_input [of verify w "Subscribe x g"] by (simp add: live_def gwInput_def gwAccepts_def proved_kept)
  then show ?thesis by (rule standing_at) (use w(2) in \<open>simp add: looks_def gwInput_def follows_snoc\<close>)
qed

text \<open>A socket opens for a store that waits for one.\<close>

lemma standing_open:
  assumes v: "verify token = Some (user, name)" "token \<noteq> []"
    and w: "watching ps inRoom verify token g w" "gw_trace verify (kw_inputs w) (kw_gateway w)" "kw_socket w = None" "ks_socket (kw_store w)"
  shows "standing ps inRoom verify token g user (kw_engine w) (kw_done w) (kw_todo w) (kw_bus w) False
    (kw_up w @ (if ks_connectionStatus (kw_store w) = Online then [] else [EmitSubscribe g])) (kw_down w)
    (kw_requests w @ (if ks_connectionStatus (kw_store w) = Online then [] else [None])) (ks_view (kw_store w))"
proof -
  obtain x where acc: "gwAccepts (kw_inputs w) (Connect x (Some token) None)" using fresh_socket [of "kw_inputs w"] by blast
  have nf: "\<not> follows (kw_inputs w) g x" using gw_invD(4) [OF gw_trace_inv [OF w(2)]] acc isOpen_opened by (auto simp: gwAccepts_def)
  obtain st outs where st: "onSocketConnect g (kw_store w) = (st, outs)" by fastforce
  let ?w = "(gwInput verify (Connect x (Some token) None) w)
    \<lparr>kw_store := st, kw_socket := Some x, kw_up := kw_up w @ emitted g outs, kw_requests := kw_requests w @ reissued g outs\<rparr>"
  have "watching ps inRoom verify token g ?w" by (rule watching.opened [OF w(1,4,3) acc st])
  moreover have "gw_trace verify (kw_inputs ?w) (kw_gateway ?w)" using trace_input [OF w(2) acc] by (simp add: gwInput_def)
  moreover have "isOpen (kw_inputs ?w) x" using acc gw_invD(5) [OF gw_trace_inv [OF w(2)]]
    by (auto simp: gwInput_def isOpen_def opened_snoc gwAccepts_def)
  moreover have "provedUser verify (kw_inputs ?w) x user" using v by (auto simp: gwInput_def provedUser_snoc tokenOf_def)
  ultimately have "live ps inRoom verify token g user x ?w" using w(4) st by (auto simp: live_def onSocketConnect_def)
  then show ?thesis
    by (rule standing_at) (use st nf in \<open>auto simp: looks_def gwInput_def follows_snoc onSocketConnect_def emitted_def\<close>)
qed

text \<open>The socket breaks and opens again.\<close>

lemma standing_reopen:
  assumes v: "verify token = Some (user, name)" "token \<noteq> []"
    and "standing ps inRoom verify token g user en d todo bus fol up down reqs view"
  shows "standing ps inRoom verify token g user en d todo bus False [EmitSubscribe g] [] (reqs @ [None]) view"
proof (rule standingE [OF assms(3)])
  fix w x
  assume w: "live ps inRoom verify token g user x w" "looks g x w en d todo bus fol up down reqs view"
  let ?w = "w\<lparr>kw_store := onSocketDisconnect (kw_store w), kw_socket := None, kw_up := [], kw_down := []\<rparr>"
  have "watching ps inRoom verify token g ?w" by (rule watching.lost) (use w in \<open>simp_all add: live_def\<close>)
  from standing_open [OF v this] w show ?thesis by (simp add: live_def looks_def onSocketDisconnect_def)
qed

section \<open>Every promise is needed\<close>

lemma standing_settled:
  assumes "standing ps inRoom verify token g user en d [] [] fol [] [] [] view"
  shows "\<exists>w. watching ps inRoom verify token g w \<and> settled w \<and> kw_engine w = en \<and> kw_done w = d \<and> ks_view (kw_store w) = view"
proof (rule standingE [OF assms])
  fix w x
  assume "live ps inRoom verify token g user x w" "looks g x w en d [] [] fol [] [] [] view"
  then show ?thesis by (intro exI [of _ w]) (simp add: live_def looks_def settled_def)
qed

lemma settled_standing:
  assumes run: "watching UNIV inRoom verify token g w" and inv: "watch_inv verify user g w" and "settled w"
  shows "standing ps inRoom verify token g user (kw_engine w) (kw_done w) [] [] True [] [] [] (currentView g (kw_done w))"
proof -
  from \<open>settled w\<close> obtain x where x: "kw_socket w = Some x" "isOpen (kw_inputs w) x" by (auto simp: settled_def)
  note j = settled_view [OF inv \<open>settled w\<close>]
  have "gw_trace verify (kw_inputs w) (kw_gateway w)" "provedUser verify (kw_inputs w) x user" "ks_socket (kw_store w)"
    using inv x by (simp_all add: watch_inv_def server_inv_def socket_inv_def)
  with x watching_mono [OF run, of ps] have "live ps inRoom verify token g user x w" by (simp add: live_def)
  then show ?thesis by (rule standing_at) (use \<open>settled w\<close> j x in \<open>auto simp: looks_def settled_def joined_def\<close>)
qed

text \<open>A command that changes the view of the engine is an accepted one.\<close>

lemma changing_command:
  assumes inv: "watch_inv verify user g w" and st: "settled w" and m: "cm_gameId m = g"
    and run: "handleCommand fb load ck now m (kw_engine w) = (res, en')" and change: "currentView g (en_out en') \<noteq> currentView g (kw_done w)"
  obtains es s a b where "en_out en' = en_out (kw_engine w) @ acceptBatch g es s b" "en_out (kw_engine w) = kw_done w"
    "\<forall>e \<in> set es. mutation g e" "es \<noteq> []" "initEndpoint (kw_done w) g = Inr a" "a \<noteq> b"
proof -
  note s = watch_invD(1) [OF inv]
  have todo: "kw_todo w = []" using st by (simp add: settled_def)
  then have out: "en_out (kw_engine w) = kw_done w" using s by (simp add: server_inv_def)
  have host: "hosting (cm_gameId m) (kw_engine w)" using s m by (simp add: server_inv_def)
  obtain batch where batch: "en_out en' = kw_done w @ batch" "engineBatch g batch"
    using command_batch(2) [OF host run] m out by auto
  have "kw_done w \<noteq> []"
  proof
    assume none: "kw_done w = []"
    then have "jget (en_games (kw_engine w)) g = None" using s todo by (simp add: server_inv_def)
    then have "en' = kw_engine w" using run by (auto simp: handleCommand_def Let_def m)
    with change none out show False by simp
  qed
  moreover have "history g (kw_done w)" using s todo by (simp add: server_inv_def)
  ultimately have "currentView g (kw_done w) \<noteq> None" by (simp add: history_none)
  then obtain a where a: "initEndpoint (kw_done w) g = Inr a" by (auto simp: currentView_def split: sum.splits)
  obtain es st' b where es: "es \<noteq> []" "\<forall>e \<in> set es. mutation g e" "batch = acceptBatch g es st' b"
    using batch change unfolding engineBatch_def by auto
  have "currentView g (kw_done w) = Some a" "currentView g (en_out en') = Some b" using a batch(1) es(3) by (simp_all add: currentView_def [of g "kw_done w"])
  then have "a \<noteq> b" using change by auto
  with a es batch(1) out show ?thesis by (intro that) simp_all
qed

lemma stale_run:
  assumes who: "room_laws inRoom" "verify token = Some (user, name)" "token \<noteq> []" and ps: "ps = UNIV - {p}"
    and start: "standing ps inRoom verify token g user en d [] [] True [] [] [] (Some a)" and m: "cm_gameId m = g"
    and run: "handleCommand fb load ck now m en = (res, en')" and out: "en_out en' = en_out en @ acceptBatch g es s b"
    and es: "\<forall>e \<in> set es. mutation g e" "es \<noteq> []" and a: "initEndpoint d g = Inr a"
  shows "standing ps inRoom verify token g user en' (d @ acceptBatch g es s b) [] [] True [] [] [] (Some a)"
proof -
  note reopened = standing_reopen [where verify = verify and token = token, OF who(2,3)] and cmd = standing_command [OF _ m run out] and hear = standing_hear
  note relay = standing_relay [where bus = "[]" and es = es and fol = True and down = "[]", OF _ who(1), simplified]
    and missed = standing_relay [where bus = "[]" and es = es and fol = False and down = "[]", OF _ who(1), simplified]
    and one = standing_serve [where rs = "[]" and rs' = "[]" and n = 1, simplified] and deliver = standing_deliver [where es = es and down = "[]", simplified]
  have all: "\<forall>e \<in> set es. be_gameId e = g \<and> shownTo user e" "\<forall>e \<in> set es. be_type e \<noteq> ''game-started''"
    using es(1) mutation_facts by blast+
  have n: "length es \<noteq> 0" using es(2) by simp
  have part: "acceptBatch g es s b = map (publishEvent g) es @ [saveState g s, saveView g b]" by (simp add: acceptBatch_def)
  have perform: "standing ps inRoom verify token g user en' (d @ acceptBatch g es s b) [] es fol up [] reqs v"
    if "standing ps inRoom verify token g user en' d (acceptBatch g es s b) [] fol up [] reqs v" for fol up reqs v
    using standing_perform [where outs = "acceptBatch g es s b" and todo = "[]" and bus = "[]"] that by simp
  show ?thesis
  proof (cases p)
    case Whole
    from standing_perform [where outs = "map (publishEvent g) es" and bus = "[]", OF cmd [OF start, unfolded part]]
    have "standing ps inRoom verify token g user en' (d @ map (publishEvent g) es) [saveState g s, saveView g b] es True [] [] [] (Some a)" by simp
    from deliver [OF relay [OF this all(1)] all(2)]
    have "standing ps inRoom verify token g user en' (d @ map (publishEvent g) es) [saveState g s, saveView g b] [] True [] []
        ([] @ replicate (length es) None @ []) (Some a)" by simp
    from standing_serve [OF this] Whole ps a
    have "standing ps inRoom verify token g user en' (d @ map (publishEvent g) es) ([saveState g s, saveView g b] @ []) [] True [] []
        ([] @ replicate (length es) (Some (Inr a)) @ []) (Some a)" by (simp add: initEndpoint_publishes)
    from standing_answers [OF standing_perform [OF this]] n show ?thesis by (simp add: part)
  next
    case InOrder
    from one [OF hear [OF reopened [OF start], simplified]] a
    have "standing ps inRoom verify token g user en d [] [] True [] [] [Some (Inr a)] (Some a)" by simp
    from deliver [OF relay [OF perform [OF cmd [OF this]] all(1)] all(2)]
    have "standing ps inRoom verify token g user en' (d @ acceptBatch g es s b) [] [] True [] []
        ([Some (Inr a)] @ replicate (length es) None @ []) (Some a)" by simp
    from standing_answers [OF standing_serve [OF this]] InOrder ps n
    have "standing ps inRoom verify token g user en' (d @ acceptBatch g es s b) [] [] True [] []
        ([] @ Some (Inr a) # []) (case initEndpoint (d @ acceptBatch g es s b) g of Inr v \<Rightarrow> Some v | Inl _ \<Rightarrow> Some a)" by simp
    from standing_answer [OF this] show ?thesis by simp
  next
    case Joined
    from one [OF reopened [OF start, simplified]] Joined ps a
    have "standing ps inRoom verify token g user en d [] [] False [EmitSubscribe g] [] ([] @ Some (Inr a) # []) (Some a)" by simp
    from standing_answer [OF this]
    have "standing ps inRoom verify token g user en d [] [] False [EmitSubscribe g] [] [] (Some a)" by simp
    from hear [OF missed [OF perform [OF cmd [OF this]] all(1)]] show ?thesis by simp
  next
    case Reliable
    from deliver [OF relay [OF perform [OF cmd [OF start]] all(1)] all(2)]
    have "standing ps inRoom verify token g user en' (d @ acceptBatch g es s b) [] [] True [] []
        ([] @ replicate (length es) None @ []) (Some a)" by simp
    from standing_answers [OF standing_fail [OF this]] Reliable ps n show ?thesis by simp
  qed
qed

section \<open>A game to watch\<close>

text \<open>The page is open before the game starts.\<close>

lemma standing_before:
  assumes "verify token = Some (user, name)" "token \<noteq> []"
  shows "standing ps inRoom verify token g user emptyEngine [] [] [] False [EmitSubscribe g] [] [None] None"
proof -
  have st: "storeConnect True g emptyStore = Inr (emptyStore\<lparr>ks_gameId := Some g, ks_socket := True\<rparr>, [EmitSubscribe g])"
    by (simp add: storeConnect_def)
  have "watching ps inRoom verify token g (emptyWorld\<lparr>kw_store := emptyStore\<lparr>ks_gameId := Some g, ks_socket := True\<rparr>,
      kw_up := emitted g [EmitSubscribe g], kw_requests := kw_requests emptyWorld @ [None]\<rparr>)"
    by (rule watching.visited [OF watching.start]) (simp_all add: emptyWorld_def st, simp add: emptyStore_def)
  from standing_open [OF assms this] show ?thesis
    by (simp add: emptyWorld_def emptyStore_def emitted_def gw_trace.start)
qed

lemma standing_start:
  assumes "standing ps inRoom verify token g user en [] [] bus fol up down reqs view" and ms: "announced ms"
    and run: "onGameStarting fb kingdomsRegistry now (GameStarting room g ''kingdoms-v1'' ms at') en = (Inr (), en')" and none: "en_out en = []"
  shows "standing ps inRoom verify token g user en' [] (en_out en') bus fol up down reqs view"
proof (rule standingE [OF assms(1)])
  fix w x
  assume w: "live ps inRoom verify token g user x w" "looks g x w en [] [] bus fol up down reqs view"
  have "watching ps inRoom verify token g (w\<lparr>kw_engine := en', kw_todo := en_out en'\<rparr>)"
    by (rule watching.started [OF _ _ _ ms]) (use w run in \<open>simp_all add: live_def looks_def\<close>)
  then have "live ps inRoom verify token g user x (w\<lparr>kw_engine := en', kw_todo := en_out en'\<rparr>)" using w by (simp add: live_def)
  then show ?thesis by (rule standing_at) (use w(2) in \<open>simp add: looks_def\<close>)
qed

lemma started_world:
  assumes who: "room_laws inRoom" "verify token = Some (user, name)" "token \<noteq> []" and ms: "announced ms" "length ms \<le> 4"
  shows "\<exists>w i. watching UNIV inRoom verify token g w \<and> settled w \<and> hosting g (kw_engine w) \<and> jget (en_games (kw_engine w)) g = Some i \<and>
     gs_players (g_state (gi_game i)) = newPlayerManager (seatPlayers ms) \<and> rm_turnOrder (gs_rounds (g_state (gi_game i))) = Clockwise \<and>
     currentView g (kw_done w) = Some (buildKingdomsView (g_state (gi_game i)) (seatPlayers ms) None) \<and>
     ks_view (kw_store w) = currentView g (kw_done w)"
proof -
  from start_runs [OF ms, of fb 0 "[]" g 0 emptyEngine] obtain en i v where
    run: "onGameStarting fb kingdomsRegistry 0 (GameStarting [] g ''kingdoms-v1'' ms 0) emptyEngine = (Inr (), en)"
    and en: "hosting g en" "jget (en_games en) g = Some i" "gs_players (g_state (gi_game i)) = newPlayerManager (seatPlayers ms)"
      "rm_turnOrder (gs_rounds (g_state (gi_game i))) = Clockwise"
    and v: "v = buildKingdomsView (g_state (gi_game i)) (seatPlayers ms) None" and out: "en_out en = startBatch g (g_state (gi_game i)) v 0"
    by (auto simp: emptyEngine_def)
  let ?b = "startBatch g (g_state (gi_game i)) v 0"
  have pub: "published ?b = [startedEvent g v 0]" by (simp add: startBatch_def)
  have cur: "currentView g ?b = Some v" using currentView_batches(1) [of g "[]"] by simp
  then have ini: "initEndpoint ?b g = Inr v" by (simp add: currentView_def split: sum.splits)
  note one = standing_serve [where rs = "[]" and rs' = "[]" and n = 1, simplified]
  from standing_start [OF standing_hear [OF standing_before [where verify = verify and token = token, OF who(2,3)]] ms(1) run]
  have "standing UNIV inRoom verify token g user en [] (?b @ []) [] True [] [] [None] None" by (simp add: out emptyEngine_def)
  from standing_perform [OF this] pub
  have "standing UNIV inRoom verify token g user en ?b [] ([startedEvent g v 0] @ []) True [] [] [None] None" by simp
  from standing_started [OF standing_relay [OF this who(1), simplified]]
  have "standing UNIV inRoom verify token g user en ?b [] [] True [] [] [None] (Some v)" by simp
  from one [OF this] ini have "standing UNIV inRoom verify token g user en ?b [] [] True [] [] ([] @ Some (Inr v) # []) (Some v)" by simp
  from standing_settled [OF standing_answer [OF this, simplified]] obtain w where
    "watching UNIV inRoom verify token g w" "settled w" "kw_engine w = en" "kw_done w = ?b" "ks_view (kw_store w) = Some v" by auto
  with en cur v show ?thesis by (intro exI [of _ w] exI [of _ i]) simp
qed

text \<open>The first end of a turn changes the view.\<close>

lemma clockwise_moves:
  assumes run: "rm_endTurn turn_next ps phase m = (Inr te, m')" and "rm_turnOrder m = Clockwise"
    and ids: "distinct (map pl_id (activeSortedBySeat ps))" and two: "2 \<le> length (activeSortedBySeat ps)"
  shows "activePlayer (currentTurn m') \<noteq> activePlayer (currentTurn m)"
proof -
  let ?a = "activeSortedBySeat ps" and ?c = "activePlayer (currentTurn m)"
  have nxt: "clockwiseNext ?c ps = Inr (activePlayer (currentTurn m'))"
    using run assms(2) by (auto simp: rm_endTurn_def Let_def split: sum.splits prod.splits)
  show ?thesis
  proof (cases "find_index (\<lambda>p. pl_id p = ?c) ?a")
    case None
    moreover have "?a ! 0 \<in> set ?a" using two by (intro nth_mem) linarith
    ultimately have "pl_id (?a ! 0) \<noteq> ?c" by (auto simp: find_index_None)
    with nxt None two show ?thesis by (auto simp: clockwiseNext_def Let_def split: if_splits)
  next
    case (Some k)
    let ?j = "(k + 1) mod length ?a"
    have k: "k < length ?a" "pl_id (?a ! k) = ?c" using find_index_Some [OF Some] by simp_all
    have j: "?j < length ?a" "?j \<noteq> k" using k(1) two by (auto simp: mod_if)
    then have "pl_id (?a ! ?j) \<noteq> ?c" using nth_eq_iff_index_eq [OF ids, of ?j k] k by simp
    with nxt Some two show ?thesis by (auto simp: clockwiseNext_def Let_def split: if_splits)
  qed
qed

lemma endTurn_rounds:
  assumes ok': "kingdoms_ok s" and run: "endTurnExecutor a s = (Inr es, s')"
  shows "\<exists>te. rm_endTurn turn_next (pm_all (gs_players s)) ''command'' (gs_rounds s) = (Inr te, gs_rounds s')"
proof -
  define s1 where "s1 = set_extras (kx_movedThisTurn_update (\<lambda>_. Some []) \<circ> kx_attackedFrom_update (\<lambda>_. Some [])) s"
  note run' = run [unfolded endTurnExecutor_def Let_def, folded s1_def]
  have s1: "gs_players s1 = gs_players s" "gs_rounds s1 = gs_rounds s" "invs_ok (s1\<lparr>gs_rounds := rm\<rparr>)" for rm
    using ok' by (simp_all add: s1_def kingdoms_ok_def invs_ok_def)
  obtain te rm where te: "rm_endTurn turn_next (pm_all (gs_players s)) ''command'' (gs_rounds s) = (Inr te, rm)"
    using run' by (auto simp: s1 split: sum.splits prod.splits)
  from processRoundEnd_frame [OF s1(3)] obtain es' invs where
    "processRoundEnd (s1\<lparr>gs_rounds := rm\<rparr>) = (Inr es', s1\<lparr>gs_rounds := rm, gs_inventories := invs\<rparr>)" by fastforce
  then have "gs_rounds s' = rm" using run' te by (auto simp: s1 split: if_splits)
  with te show ?thesis by simp
qed

lemma endTurn_moves:
  assumes g: "kingdomsLoaded g" "gs_players (g_state g) = newPlayerManager (seatPlayers ms)" "announced ms"
    "rm_turnOrder (gs_rounds (g_state g)) = Clockwise"
    and a: "ac_type a = ''end-turn''" and run: "submit ck a g = (Inr (Accepted es), g')"
  shows "activePlayer (currentTurn (gs_rounds (g_state g'))) \<noteq> activePlayer (currentTurn (gs_rounds (g_state g)))"
proof -
  have l: "g_executors g = kingdoms_xs" "kingdoms_ok (g_state g)" using g(1) by (simp_all add: game_loaded_def)
  obtain s primary st em1 followUps em2 sf where p:
    "execute_action (g_executors g) a (g_state g) = (Inr primary, s)" and
    fin: "finish_submit ck (st @ sf)
       (g\<lparr>g_state := s\<lparr>gs_history := history_append (ck_append ck (length (gs_history s))) a (st @ sf) (gs_history s)\<rparr>,
          g_events := em2\<rparr>) = (Inr (Accepted es), g')"
    using run by (rule submit_accepted)
  have same: "gs_rounds (g_state g') = gs_rounds s" using fin by (cases rule: finish_submit_cases) simp_all
  have "endTurnExecutor a (g_state g) = (Inr primary, s)" using p
    by (simp add: l(1) execute_action_def getExecutor_def kingdoms_xs_def kingdomsExecutors_def kexecutor_def a)
  from endTurn_rounds [OF l(2) this] obtain te where
    te: "rm_endTurn turn_next (pm_all (gs_players (g_state g))) ''command'' (gs_rounds (g_state g)) = (Inr te, gs_rounds s)" ..
  let ?ps = "pm_all (gs_players (g_state g))"
  have seat: "activeSortedBySeat ?ps = sort_key pl_seat (pm_bySeat (newPlayerManager (seatPlayers ms)))"
    using all_active_new [of _ "seatPlayers ms"] by (simp add: activeSortedBySeat_def pm_all_def g(2))
  have "pm_wf (newPlayerManager (seatPlayers ms))" using g(3) by (intro pm_wf_new) (simp add: announced_def)
  then have "distinct (map pl_id ?ps)" by (simp add: pm_wf_def pm_all_def g(2))
  then have "distinct (map pl_id (activeSortedBySeat ?ps))" by (simp add: activeSortedBySeat_def distinct_map_filter_key)
  moreover have "2 \<le> length (activeSortedBySeat ?ps)" using g(3) by (simp add: seat announced_def newPlayerManager_def Let_def)
  ultimately show ?thesis using clockwise_moves [OF te g(4)] by (simp add: same)
qed

lemma changing_turn:
  assumes host: "hosting g en" and i: "jget (en_games en) g = Some i" "gs_players (g_state (gi_game i)) = newPlayerManager (seatPlayers ms)"
    "rm_turnOrder (gs_rounds (g_state (gi_game i))) = Clockwise" and ms: "announced ms"
  shows "\<exists>m en'. cm_gameId m = g \<and> handleCommand fb load ck now m en = (Inr True, en') \<and>
    currentView g (en_out en') \<noteq> Some (buildKingdomsView (g_state (gi_game i)) ps None)"
proof -
  let ?g = "gi_game i"
  have h: "attached i" "gi_gameId i = g" "gi_hosted i = kingdomsHosted" "kingdomsLoaded ?g" "g_machine ?g = Playing"
    using host i(1) by (auto simp: hosting_def)
  define m :: "kpayload command_message" where "m = \<lparr>cm_gameId = g, cm_userId = activePlayer (currentTurn (gs_rounds (g_state ?g))),
    cm_type = ''end-turn'', cm_payload = exPayload, cm_clientSeq = None, cm_socketId = None\<rparr>"
  have m: "cm_gameId m = g" "ac_type (actionOf m) = ''end-turn''"
    "ac_playerId (actionOf m) = Some (activePlayer (currentTurn (gs_rounds (g_state ?g))))" by (simp_all add: m_def actionOf_def)
  from endTurn_accepted [OF h(4,5) i(2) m(2,3), of ck] obtain es g' where run: "submit ck (actionOf m) ?g = (Inr (Accepted es), g')" by blast
  note moved = endTurn_moves [OF h(4) i(2) ms i(3) m(2) run]
  let ?v = "buildView fb (gi_hosted i) (g_state g') (pm_all (gs_players (g_state g'))) (victoryOf (gameEnded es))"
  have "jget (en_games en) (cm_gameId m) = Some i" "gi_gameId i = cm_gameId m" using i(1) h(2) m(1) by simp_all
  from handleCommand_publishes [OF this(1) h(1) this(2) run, of fb load now] obtain en' where
    en': "handleCommand fb load ck now m en = (Inr True, en')"
    "en_out en' = en_out en @ acceptBatch g (map (busEvent now g) es) (g_state g') ?v"
    by (auto simp: m(1) acceptBatch_def comp_def)
  have "kv_currentActivePlayer ?v \<noteq> kv_currentActivePlayer (buildKingdomsView (g_state ?g) ps None)"
    using moved by (simp add: h(3) buildView_def kingdomsHosted_def buildKingdomsView_def)
  then show ?thesis using en' m(1) by (intro exI [of _ m] exI [of _ en']) auto
qed

section \<open>The two sides\<close>

text \<open> C15: Whatever visits, sockets opened and broken, events, commands of anybody and requests there were, from before
  the start of the game on: once nothing is under way any more and the socket of the page is open, the store shows exactly the
  view the engine would send now, provided requests are served between two commands, answers arrive in the order of the requests,
  no request is served before the gateway has put the page's socket into the game, and none fails. The code keeps none of these
  four promises. (The engine handles one command at a time, and the bus loses nothing and keeps the order of its events.) \<close>
theorem store_catches_up:
  assumes laws: "room_laws inRoom" and who: "verify token = Some (user, name)" "token \<noteq> []"
    and run: "watching UNIV inRoom verify token g w" and done': "settled w"
  shows "ks_view (kw_store w) = currentView g (kw_done w)"
  by (rule settled_view(2) [OF watch_inv_reachable [OF run laws who] done'])

lemma example_members: "announced [(''ann'', ''Ann''), (''bob'', ''Bob'')]" "length [(''ann'', ''Ann''), (''bob'', ''Bob'')] \<le> 4"
  by (simp_all add: announced_def)

lemma example_user: "exampleVerify ''tA'' = Some (''ann'', ''Ann'')" "''tA'' \<noteq> []"
  by (simp_all add: exampleVerify_def)

theorem store_catches_up_witness:
  "\<exists>w v. watching UNIV replayRooms exampleVerify ''tA'' ''g'' w \<and> settled w \<and> currentView ''g'' (kw_done w) = Some v \<and> ks_view (kw_store w) = Some v"
proof -
  from started_world [where verify = exampleVerify and g = "''g''", OF replayRooms_laws example_user example_members] obtain w v where w:
    "watching UNIV replayRooms exampleVerify ''tA'' ''g'' w" "settled w" "currentView ''g'' (kw_done w) = Some v" by blast
  from store_catches_up [where verify = exampleVerify, OF replayRooms_laws example_user w(1,2)] w show ?thesis by auto
qed

text \<open> C16: None of the four promises can be spared. Take any of them and any moment where everything has arrived and the store is up
  to date, and let the engine handle any command that changes the view: if that promise alone is not kept, everything can arrive
  again and the store still show the old view. \<close>
theorem store_can_stay_stale:
  assumes laws: "room_laws inRoom" and who: "verify token = Some (user, name)" "token \<noteq> []"
    and run: "watching UNIV inRoom verify token g w" and done': "settled w"
    and cmd: "cm_gameId m = g" "handleCommand fb load ck now m (kw_engine w) = (res, en')"
    and change: "currentView g (en_out en') \<noteq> currentView g (kw_done w)"
  shows "\<exists>w'. watching (UNIV - {p}) inRoom verify token g w' \<and> settled w' \<and> kw_engine w' = en' \<and> kw_done w' = en_out en' \<and>
    ks_view (kw_store w') = ks_view (kw_store w) \<and> ks_view (kw_store w') \<noteq> currentView g (kw_done w')"
proof -
  note inv = watch_inv_reachable [OF run laws who]
  show ?thesis
  proof (rule changing_command [OF inv done' cmd change])
    fix es s a b
    assume b: "en_out en' = en_out (kw_engine w) @ acceptBatch g es s b" "en_out (kw_engine w) = kw_done w"
      "\<forall>e \<in> set es. mutation g e" "es \<noteq> []" "initEndpoint (kw_done w) g = Inr a" "a \<noteq> b"
    have cur: "currentView g (kw_done w) = Some a" using b(5) by (simp add: currentView_def)
    have "standing (UNIV - {p}) inRoom verify token g user (kw_engine w) (kw_done w) [] [] True [] [] [] (Some a)"
      using settled_standing [OF run inv done'] by (simp add: cur)
    from stale_run [where verify = verify and token = token, OF laws who refl this cmd b(1,3,4,5)]
    have "standing (UNIV - {p}) inRoom verify token g user en' (en_out en') [] [] True [] [] [] (Some a)" by (simp add: b(1,2))
    from standing_settled [OF this] settled_view(2) [OF inv done'] cur change show ?thesis by auto
  qed
qed

theorem store_can_stay_stale_witness:
  "\<forall>p. \<exists>w. watching (UNIV - {p}) replayRooms exampleVerify ''tA'' ''g'' w \<and> settled w \<and> ks_view (kw_store w) \<noteq> currentView ''g'' (kw_done w)"
proof
  fix p
  let ?ms = "[(''ann'', ''Ann''), (''bob'', ''Bob'')]"
  from started_world [where verify = exampleVerify and g = "''g''", OF replayRooms_laws example_user example_members] obtain w i where w:
    "watching UNIV replayRooms exampleVerify ''tA'' ''g'' w" "settled w" "hosting ''g'' (kw_engine w)" "jget (en_games (kw_engine w)) ''g'' = Some i"
    "gs_players (g_state (gi_game i)) = newPlayerManager (seatPlayers ?ms)" "rm_turnOrder (gs_rounds (g_state (gi_game i))) = Clockwise"
    "currentView ''g'' (kw_done w) = Some (buildKingdomsView (g_state (gi_game i)) (seatPlayers ?ms) None)" by blast
  from changing_turn [where ps = "seatPlayers ?ms" and fb = buildKingdomsView and load = "\<lambda>_. True" and
      ck = "\<lparr>ck_stamp = (\<lambda>n. n), ck_append = int\<rparr>" and now = 0, OF w(3-6) example_members(1)] obtain m en' where
    m: "cm_gameId m = ''g''" "handleCommand buildKingdomsView (\<lambda>_. True) \<lparr>ck_stamp = (\<lambda>n. n), ck_append = int\<rparr> 0 m (kw_engine w) = (Inr True, en')"
    "currentView ''g'' (en_out en') \<noteq> currentView ''g'' (kw_done w)" by (auto simp: w(7))
  from store_can_stay_stale [where verify = exampleVerify and p = p, OF replayRooms_laws example_user w(1,2) m]
  show "\<exists>w. watching (UNIV - {p}) replayRooms exampleVerify ''tA'' ''g'' w \<and> settled w \<and> ks_view (kw_store w) \<noteq> currentView ''g'' (kw_done w)"
    by blast
qed

end
