(* ===== verification/FrontierPage.thy ===== *)
theory FrontierPage
  imports FrontierClient FrontierProperties
begin

text \<open>
  The page of a "Frontier" game: \<open>apps/web/src/pages/GamePage.tsx\<close> with the board
  (\<open>components/Board.tsx\<close>) and the market (\<open>components/TradePanel.tsx\<close>). Which tiles and buttons
  react to a click, what the click changes on the page and which commands it sends. The view of the
  page may be replaced at any time.
\<close>

section \<open>What the page reads off the view (GamePage.tsx)\<close>

definition frontierTurn :: "demo_view \<Rightarrow> string option \<Rightarrow> bool" where
  "frontierTurn v userId \<longleftrightarrow> truthy userId \<noteq> None \<and> Some (dv_currentActivePlayer v) = userId"

definition viewMe :: "demo_view \<Rightarrow> string option \<Rightarrow> player_view option" where
  "viewMe v userId = find (\<lambda>p. Some (pv_id p) = userId) (dv_players v)"

definition myWood :: "demo_view \<Rightarrow> string option \<Rightarrow> int" where
  "myWood v userId = (case viewMe v userId of Some p \<Rightarrow> pv_wood p | None \<Rightarrow> 0)"

definition myStone :: "demo_view \<Rightarrow> string option \<Rightarrow> int" where
  "myStone v userId = (case viewMe v userId of Some p \<Rightarrow> pv_stone p | None \<Rightarrow> 0)"

definition canTradeWood :: "demo_view \<Rightarrow> string option \<Rightarrow> bool" where
  "canTradeWood v userId \<longleftrightarrow> frontierTurn v userId \<and> myWood v userId \<ge> 2"

definition canTradeStone :: "demo_view \<Rightarrow> string option \<Rightarrow> bool" where
  "canTradeStone v userId \<longleftrightarrow> frontierTurn v userId \<and> myStone v userId \<ge> 2"

definition canBuildFort :: "demo_view \<Rightarrow> string option \<Rightarrow> bool" where
  "canBuildFort v userId \<longleftrightarrow>
     (let myFortCount = length (filter (\<lambda>w. Some w = userId) (jvals (dv_fortifications v)));
          myTileCount = length (filter (\<lambda>t. tv_claimedBy t = userId) (dv_tiles v))
      in frontierTurn v userId \<and> myWood v userId \<ge> 2 \<and> myStone v userId \<ge> 1 \<and> myTileCount > myFortCount)"

section \<open>The tiles that react (Board.tsx)\<close>

definition BOARD_HEX_DIRS :: "(int \<times> int) list" where
  "BOARD_HEX_DIRS = [(1, 0), (-1, 0), (0, 1), (0, -1), (1, -1), (-1, 1)]"

definition coordKey :: "int \<Rightarrow> int \<Rightarrow> string" where
  "coordKey q r = show_int q @ '','' @ show_int r"

definition coordMap :: "demo_view \<Rightarrow> (string, tile_view) jsmap" where
  "coordMap v = fold (\<lambda>t. jput (coordKey (tv_q t) (tv_r t)) t) (dv_tiles v) []"

definition myTiles :: "demo_view \<Rightarrow> string option \<Rightarrow> tile_view list" where
  "myTiles v userId = (case truthy userId of None \<Rightarrow> [] | Some _ \<Rightarrow> filter (\<lambda>t. tv_claimedBy t = userId) (dv_tiles v))"

definition claimableIds :: "demo_view \<Rightarrow> string option \<Rightarrow> bool \<Rightarrow> bool \<Rightarrow> string list" where
  "claimableIds v userId isMyTurn fortifyMode =
     (if isMyTurn \<and> truthy userId \<noteq> None \<and> \<not> fortifyMode
      then concat (map (\<lambda>mine. concat (map (\<lambda>(dq, dr).
             case jget (coordMap v) (coordKey (tv_q mine + dq) (tv_r mine + dr)) of
               Some neighbor \<Rightarrow> if tv_claimedBy neighbor = None then [tv_id neighbor] else []
             | None \<Rightarrow> []) BOARD_HEX_DIRS)) (myTiles v userId))
      else [])"

definition fortifiableIds :: "demo_view \<Rightarrow> string option \<Rightarrow> bool \<Rightarrow> bool \<Rightarrow> string list" where
  "fortifiableIds v userId isMyTurn fortifyMode =
     (if fortifyMode \<and> isMyTurn \<and> truthy userId \<noteq> None
      then map tv_id (filter (\<lambda>t. truthy (jget (dv_fortifications v) (tv_id t)) = None) (myTiles v userId))
      else [])"

section \<open>The state of the page\<close>

record fpage =
  gp_fortifyMode :: bool
  gp_composing :: bool
  gp_giveWood :: int
  gp_giveStone :: int
  gp_wantWood :: int
  gp_wantStone :: int

definition emptyForm :: "fpage \<Rightarrow> fpage" where
  "emptyForm pg = pg\<lparr>gp_giveWood := 0, gp_giveStone := 0, gp_wantWood := 0, gp_wantStone := 0\<rparr>"

definition newFpage :: fpage where
  "newFpage = \<lparr>gp_fortifyMode = False, gp_composing = False, gp_giveWood = 0, gp_giveStone = 0, gp_wantWood = 0, gp_wantStone = 0\<rparr>"

text \<open>
  A new view: the effect of \<open>isMyTurn\<close> leaves the fortify mode; the market goes when the game has
  ended, and the form of a new offer goes, with what was entered, when the player is not in the view.
\<close>

definition showView :: "demo_view \<Rightarrow> string option \<Rightarrow> fpage \<Rightarrow> fpage" where
  "showView v userId pg =
     (let pg1 = (if frontierTurn v userId then pg else pg\<lparr>gp_fortifyMode := False\<rparr>);
          pg2 = (if dv_status v = Ended then pg1\<lparr>gp_composing := False\<rparr> else pg1)
      in if gp_composing pg2 \<and> viewMe v userId \<noteq> None then pg2 else emptyForm pg2)"

section \<open>The handlers\<close>

type_synonym fcommand = "string \<times> fpayload"

text \<open>Fields a payload does not carry are empty.\<close>

definition noFields :: fpayload where
  "noFields = \<lparr>fp_tileId = [], fp_resource = [], fp_giveWood = 0, fp_giveStone = 0, fp_wantWood = 0, fp_wantStone = 0, fp_offerId = []\<rparr>"

definition fClaimTile :: "string \<Rightarrow> fpage \<Rightarrow> fpage \<times> fcommand list" where
  "fClaimTile t pg = (pg, [(''claim-tile'', noFields\<lparr>fp_tileId := t\<rparr>)])"

definition fFortifyTile :: "string \<Rightarrow> fpage \<Rightarrow> fpage \<times> fcommand list" where
  "fFortifyTile t pg = (pg\<lparr>gp_fortifyMode := False\<rparr>, [(''fortify'', noFields\<lparr>fp_tileId := t\<rparr>)])"

definition fEndTurn :: "fpage \<Rightarrow> fpage \<times> fcommand list" where
  "fEndTurn pg = (pg, [(''end-turn'', noFields)])"

definition fTrade :: "string \<Rightarrow> fpage \<Rightarrow> fpage \<times> fcommand list" where
  "fTrade resource pg = (pg, [(''trade'', noFields\<lparr>fp_resource := resource\<rparr>)])"

text \<open>A click on a tile; the board gets the handler of claims outside the fortify mode, the other one inside it.\<close>

definition boardClick :: "demo_view \<Rightarrow> string option \<Rightarrow> string \<Rightarrow> fpage \<Rightarrow> fpage \<times> fcommand list" where
  "boardClick v userId t pg =
     (let isMyTurn = frontierTurn v userId; fortifyMode = gp_fortifyMode pg;
          canClaim = (t \<in> set (claimableIds v userId isMyTurn fortifyMode));
          canFortify = (t \<in> set (fortifiableIds v userId isMyTurn fortifyMode))
      in if canClaim then (if isMyTurn \<and> \<not> fortifyMode then fClaimTile t pg else (pg, []))
         else if canFortify then (if fortifyMode then fFortifyTile t pg else (pg, []))
         else (pg, []))"

section \<open>The market (TradePanel.tsx)\<close>

datatype offer_field = GiveWood | GiveStone | WantWood | WantStone

fun field_get :: "offer_field \<Rightarrow> fpage \<Rightarrow> int" where
  "field_get GiveWood pg = gp_giveWood pg"
| "field_get GiveStone pg = gp_giveStone pg"
| "field_get WantWood pg = gp_wantWood pg"
| "field_get WantStone pg = gp_wantStone pg"

fun field_put :: "offer_field \<Rightarrow> int \<Rightarrow> fpage \<Rightarrow> fpage" where
  "field_put GiveWood n pg = pg\<lparr>gp_giveWood := n\<rparr>"
| "field_put GiveStone n pg = pg\<lparr>gp_giveStone := n\<rparr>"
| "field_put WantWood n pg = pg\<lparr>gp_wantWood := n\<rparr>"
| "field_put WantStone n pg = pg\<lparr>gp_wantStone := n\<rparr>"

fun field_max :: "player_view \<Rightarrow> offer_field \<Rightarrow> int" where
  "field_max me GiveWood = pv_wood me"
| "field_max me GiveStone = pv_stone me"
| "field_max me WantWood = 9"
| "field_max me WantStone = 9"

text \<open>The two buttons of a stepper: \<open>up\<close> is the one with the plus.\<close>

definition stepField :: "player_view \<Rightarrow> offer_field \<Rightarrow> bool \<Rightarrow> fpage \<Rightarrow> fpage" where
  "stepField me f up pg =
     field_put f (if up then min (field_max me f) (field_get f pg + 1) else max 0 (field_get f pg - 1)) pg"

definition offerValid :: "player_view \<Rightarrow> fpage \<Rightarrow> bool" where
  "offerValid me pg \<longleftrightarrow> gp_giveWood pg + gp_giveStone pg > 0 \<and> gp_wantWood pg + gp_wantStone pg > 0 \<and>
     gp_giveWood pg \<le> pv_wood me \<and> gp_giveStone pg \<le> pv_stone me"

definition postOffer :: "fpage \<Rightarrow> fpage \<times> fcommand list" where
  "postOffer pg =
     (emptyForm (pg\<lparr>gp_composing := False\<rparr>),
      [(''post-offer'', noFields\<lparr>fp_giveWood := gp_giveWood pg, fp_giveStone := gp_giveStone pg,
          fp_wantWood := gp_wantWood pg, fp_wantStone := gp_wantStone pg\<rparr>)])"

definition canCompose :: "demo_view \<Rightarrow> string option \<Rightarrow> bool" where
  "canCompose v userId \<longleftrightarrow>
     (let myOfferCount = length (filter (\<lambda>off. Some (to_fromPlayerId off) = userId) (dv_tradeOffers v))
      in frontierTurn v userId \<and> myOfferCount < 3 \<and> (myWood v userId > 0 \<or> myStone v userId > 0))"

definition canAcceptOffer :: "demo_view \<Rightarrow> string option \<Rightarrow> trade_offer \<Rightarrow> bool" where
  "canAcceptOffer v userId off =
     (if \<not> frontierTurn v userId \<or> Some (to_fromPlayerId off) = userId then False
      else myWood v userId \<ge> to_wantWood off \<and> myStone v userId \<ge> to_wantStone off)"

section \<open>Clicks\<close>

datatype fclick =
    BoardClick string
  | PassClick
  | TradeClick string
  | FortifyClick
  | FortifyCancel
  | OpenForm
  | StepForm offer_field bool
  | PostClick
  | CloseForm
  | AcceptClick trade_offer
  | CancelOfferClick trade_offer

definition fOffered :: "demo_view \<Rightarrow> string option \<Rightarrow> fpage \<Rightarrow> fclick \<Rightarrow> bool" where
  "fOffered v userId pg c \<longleftrightarrow>
     dv_status v \<noteq> Ended \<and>
     (let isMyTurn = frontierTurn v userId; fortifyMode = gp_fortifyMode pg in
      case c of
        BoardClick t \<Rightarrow> t \<in> tv_id ` set (dv_tiles v)
      | PassClick \<Rightarrow> isMyTurn \<and> \<not> fortifyMode
      | TradeClick r \<Rightarrow> isMyTurn \<and> \<not> fortifyMode \<and> (r = ''wood'' \<and> canTradeWood v userId \<or> r = ''stone'' \<and> canTradeStone v userId)
      | FortifyClick \<Rightarrow> isMyTurn \<and> \<not> fortifyMode \<and> canBuildFort v userId
      | FortifyCancel \<Rightarrow> isMyTurn \<and> fortifyMode
      | OpenForm \<Rightarrow> canCompose v userId \<and> \<not> gp_composing pg
      | StepForm f up \<Rightarrow> gp_composing pg \<and> viewMe v userId \<noteq> None
      | PostClick \<Rightarrow> gp_composing pg \<and> viewMe v userId \<noteq> None
      | CloseForm \<Rightarrow> gp_composing pg \<and> viewMe v userId \<noteq> None
      | AcceptClick off \<Rightarrow> off \<in> set (dv_tradeOffers v) \<and> Some (to_fromPlayerId off) \<noteq> userId
      | CancelOfferClick off \<Rightarrow> off \<in> set (dv_tradeOffers v) \<and> Some (to_fromPlayerId off) = userId \<and> isMyTurn)"

definition fPerform :: "demo_view \<Rightarrow> string option \<Rightarrow> fclick \<Rightarrow> fpage \<Rightarrow> fpage \<times> fcommand list" where
  "fPerform v userId c pg =
     (case c of
        BoardClick t \<Rightarrow> boardClick v userId t pg
      | PassClick \<Rightarrow> fEndTurn pg
      | TradeClick r \<Rightarrow> fTrade r pg
      | FortifyClick \<Rightarrow> (pg\<lparr>gp_fortifyMode := True\<rparr>, [])
      | FortifyCancel \<Rightarrow> (pg\<lparr>gp_fortifyMode := False\<rparr>, [])
      | OpenForm \<Rightarrow> (emptyForm (pg\<lparr>gp_composing := True\<rparr>), [])
      | StepForm f up \<Rightarrow> ((case viewMe v userId of Some me \<Rightarrow> stepField me f up pg | None \<Rightarrow> pg), [])
      | PostClick \<Rightarrow> (case viewMe v userId of Some me \<Rightarrow> if offerValid me pg then postOffer pg else (pg, []) | None \<Rightarrow> (pg, []))
      | CloseForm \<Rightarrow> (emptyForm (pg\<lparr>gp_composing := False\<rparr>), [])
      | AcceptClick off \<Rightarrow> (pg, if canAcceptOffer v userId off then [(''accept-offer'', noFields\<lparr>fp_offerId := to_id off\<rparr>)] else [])
      | CancelOfferClick off \<Rightarrow> (pg, [(''cancel-offer'', noFields\<lparr>fp_offerId := to_id off\<rparr>)]))"

text \<open>A page in use: views arrive, clicks are handled; no view shows a negative stock.\<close>

definition stocked :: "demo_view \<Rightarrow> bool" where
  "stocked v \<longleftrightarrow> (\<forall>p \<in> set (dv_players v). 0 \<le> pv_wood p \<and> 0 \<le> pv_stone p)"

inductive fpage_reachable :: "string option \<Rightarrow> demo_view \<Rightarrow> fpage \<Rightarrow> bool" for userId where
  opened: "stocked v \<Longrightarrow> fpage_reachable userId v newFpage"
| updated: "fpage_reachable userId v pg \<Longrightarrow> stocked v' \<Longrightarrow> fpage_reachable userId v' (showView v' userId pg)"
| clicked: "fpage_reachable userId v pg \<Longrightarrow> fOffered v userId pg c \<Longrightarrow> fpage_reachable userId v (fst (fPerform v userId c pg))"

section \<open>The form holds no negative number\<close>

definition form_ok :: "fpage \<Rightarrow> bool" where
  "form_ok pg \<longleftrightarrow> (\<forall>f. 0 \<le> field_get f pg)"

lemma form_ok_iff: "form_ok pg \<longleftrightarrow> 0 \<le> gp_giveWood pg \<and> 0 \<le> gp_giveStone pg \<and> 0 \<le> gp_wantWood pg \<and> 0 \<le> gp_wantStone pg"
  unfolding form_ok_def by (metis field_get.simps offer_field.exhaust)

lemma form_ok_simps [simp]:
  "form_ok (emptyForm pg)" "form_ok (pg\<lparr>gp_fortifyMode := b\<rparr>) = form_ok pg" "form_ok (pg\<lparr>gp_composing := b\<rparr>) = form_ok pg" "form_ok newFpage"
  by (simp_all add: form_ok_iff emptyForm_def newFpage_def)

lemma field_get_put: "field_get g (field_put f n pg) = (if g = f then n else field_get g pg)"
  by (cases f; cases g) simp_all

lemma stepField_ok:
  assumes "form_ok pg" "0 \<le> pv_wood me" "0 \<le> pv_stone me"
  shows "form_ok (stepField me f up pg)"
proof -
  have "0 \<le> field_max me f" using assms(2,3) by (cases f) simp_all
  with assms(1) show ?thesis by (simp add: form_ok_def stepField_def field_get_put)
qed

lemma viewMe_Some: "viewMe v u = Some p \<Longrightarrow> p \<in> set (dv_players v) \<and> u = Some (pv_id p)"
  by (auto simp: viewMe_def dest!: find_SomeD)

lemma fPerform_form:
  assumes "form_ok pg" "stocked v"
  shows "form_ok (fst (fPerform v u c pg))"
proof (cases c)
  case (StepForm f up)
  then show ?thesis
    using assms by (auto simp: fPerform_def stocked_def split: option.split dest!: viewMe_Some intro!: stepField_ok)
qed (use assms in \<open>simp_all add: fPerform_def boardClick_def fClaimTile_def fFortifyTile_def fEndTurn_def fTrade_def postOffer_def Let_def split: option.split\<close>)

lemma fpage_reachable_ok: "fpage_reachable u v pg \<Longrightarrow> form_ok pg \<and> stocked v"
  by (induction rule: fpage_reachable.induct) (simp_all add: fPerform_form, simp_all add: showView_def Let_def)

section \<open>The board against the state\<close>

lemma coordKey_inject [simp]: "coordKey q r = coordKey q' r' \<longleftrightarrow> q = q' \<and> r = r'"
proof
  have split: "takeWhile (\<lambda>c. c \<noteq> CHR '','') (coordKey q r) = show_int q" "drop (Suc (length (show_int q))) (coordKey q r) = show_int r" for q r
    using show_int_chars [of _ q] unfolding coordKey_def by (subst takeWhile_append2) auto
  assume e: "coordKey q r = coordKey q' r'"
  then have q: "show_int q = show_int q'" using split(1) [of q r] split(1) [of q' r'] by simp
  then have "show_int r = show_int r'" using e split(2) [of q r] split(2) [of q' r'] by metis
  with q show "q = q' \<and> r = r'" by simp
qed simp

lemma coordMap_get:
  assumes "jget (coordMap v) (coordKey q r) = Some t"
  shows "t \<in> set (dv_tiles v)" "tv_q t = q" "tv_r t = r"
proof -
  have "jget (fold (\<lambda>t. jput (coordKey (tv_q t) (tv_r t)) t) ts m) k = Some t \<Longrightarrow>
      t \<in> set ts \<and> k = coordKey (tv_q t) (tv_r t) \<or> jget m k = Some t" for ts m k
  proof (induction ts arbitrary: m)
    case (Cons a ts)
    from Cons.IH [of "jput (coordKey (tv_q a) (tv_r a)) a m"] Cons.prems show ?case by (auto split: if_splits)
  qed simp
  from this [of "dv_tiles v" "[]" "coordKey q r"] assms show "t \<in> set (dv_tiles v)" "tv_q t = q" "tv_r t = r"
    by (auto simp: coordMap_def)
qed

lemma claimable_tile:
  assumes "t \<in> set (claimableIds v u isMyTurn fortifyMode)"
  obtains mine n where "mine \<in> set (dv_tiles v)" "tv_claimedBy mine = u" "n \<in> set (dv_tiles v)" "tv_claimedBy n = None" "tv_id n = t"
    "(tv_q n - tv_q mine, tv_r n - tv_r mine) \<in> set BOARD_HEX_DIRS" "isMyTurn" "\<not> fortifyMode"
proof -
  have c: "isMyTurn" "\<not> fortifyMode" using assms by (auto simp: claimableIds_def split: if_splits)
  have "\<exists>mine \<in> set (myTiles v u). \<exists>(dq, dr) \<in> set BOARD_HEX_DIRS.
      t \<in> set (case jget (coordMap v) (coordKey (tv_q mine + dq) (tv_r mine + dr)) of
             Some neighbor \<Rightarrow> if tv_claimedBy neighbor = None then [tv_id neighbor] else [] | None \<Rightarrow> [])"
    using assms by (auto simp: claimableIds_def split: if_splits)
  then obtain mine dq dr n where m: "mine \<in> set (myTiles v u)" "(dq, dr) \<in> set BOARD_HEX_DIRS"
      "jget (coordMap v) (coordKey (tv_q mine + dq) (tv_r mine + dr)) = Some n" "tv_claimedBy n = None" "t = tv_id n"
    by (auto split: option.splits if_splits dest!: sym [of "Some _"])
  have "mine \<in> set (dv_tiles v)" "tv_claimedBy mine = u" using m(1) by (auto simp: myTiles_def split: option.splits)
  with coordMap_get [OF m(3)] m c show ?thesis by (intro that [of mine n]) simp_all
qed

lemma board_view [simp]:
  "dv_status (boardOf r ps s) = gs_status s" "dv_fortifications (boardOf r ps s) = getForts s" "dv_tradeOffers (boardOf r ps s) = getOffers s"
  "dv_currentActivePlayer (boardOf r ps s) = activePlayer (currentTurn (gs_rounds s))"
  "dv_tiles (boardOf r ps s) = map (tileView (claimMap s)) (jvals (gm_tiles (gs_map s)))"
  "dv_players (boardOf r ps s) = map (playerView s) ps"
  by (simp_all add: boardOf_def frontierView_def)

text \<open>A tile of the board is a tile of the map, with the owner the server knows.\<close>

lemma board_tile:
  assumes ok': "frontier_ok s" "wf_map (gs_map s)" and t: "t \<in> set (dv_tiles (boardOf r ps s))"
  obtains hex where "tileById (gs_map s) (tv_id t) = Some hex" "ax_q (tile_coord hex) = tv_q t" "ax_r (tile_coord hex) = tv_r t"
    "tv_claimedBy t = tileOwner s (tv_id t)" "isTileOccupied s (tv_id t) \<longleftrightarrow> tv_claimedBy t \<noteq> None"
proof -
  obtain hex where h: "hex \<in> set (jvals (gm_tiles (gs_map s)))" "t = tileView (claimMap s) hex" using t by auto
  have fl: "flags_ok (gs_map s) (gs_pieces s)" using frontier_okD(5) [OF ok'(1)] .
  then have d: "distinct (jkeys (gs_pieces s))" by (simp add: flags_ok_def)
  have claim: "tv_claimedBy t = jget (claimMap s) (tv_id t)" by (simp add: h(2) tileView_def)
  note iff = claimMap_iff [OF fl, of "tv_id t"]
  have occ: "isTileOccupied s (tv_id t) \<longleftrightarrow> tv_claimedBy t \<noteq> None"
    unfolding claim isTileOccupied_iff [OF d] using iff by (metis not_Some_eq)
  have "tv_claimedBy t = tileOwner s (tv_id t)"
  proof (cases "tv_claimedBy t")
    case None
    with occ have "find (\<lambda>p. piece_tile p = Some (tv_id t)) (jvals (gs_pieces s)) = None"
      by (auto simp: find_None_iff isTileOccupied_def list_ex_iff)
    with None show ?thesis by (simp add: tileOwner_def)
  next
    case (Some w)
    then obtain i p where "jget (gs_pieces s) i = Some p" "piece_tile p = Some (tv_id t)" "pc_owner p = w"
      using iff unfolding claim by blast
    with tileOwner_unique [OF fl] Some show ?thesis by simp
  qed
  with occ h ok'(2) show ?thesis by (intro that [of hex]) (simp_all add: tileView_def tileById_mem flip: tileById_mem)
qed

lemma owned_coords:
  assumes ok': "frontier_ok s" and hex: "tileById (gs_map s) t = Some hex" and own: "tileOwner s t = Some w"
  shows "tile_coord hex \<in> set (ownedTileCoords s w)"
proof -
  obtain p where p: "p \<in> set (jvals (gs_pieces s))" "piece_tile p = Some t" "pc_owner p = w"
    using own by (auto simp: tileOwner_def dest!: find_SomeD)
  then obtain i where i: "(i, p) \<in> set (gs_pieces s)" by auto
  have "[tile_coord hex] \<in> (\<lambda>(_, p). if pc_owner p = w then (case piece_tile p of None \<Rightarrow> []
      | Some t \<Rightarrow> (case tileById (gs_map s) t of None \<Rightarrow> [] | Some hex \<Rightarrow> [tile_coord hex])) else []) ` set (gs_pieces s)"
    by (rule image_eqI [OF _ i]) (simp add: p(2,3) hex)
  then show ?thesis unfolding ownedTileCoords_def set_concat set_map by (rule UN_I) simp
qed

text \<open>The player who looks at the board.\<close>

lemma my_turn: "w \<noteq> [] \<Longrightarrow> frontierTurn (boardOf r ps s) (Some w) \<longleftrightarrow> frontierGuard s (Some w) = None"
  by (simp add: frontierTurn_def frontierGuard_def)

lemma my_stock:
  assumes "frontier_ok s"
  shows "viewMe (boardOf r ps s) (Some w) = Some p \<Longrightarrow> pv_wood p = stock_of s w ''wood'' \<and> pv_stone p = stock_of s w ''stone''"
    "myWood (boardOf r ps s) (Some w) \<le> stock_of s w ''wood''" "myStone (boardOf r ps s) (Some w) \<le> stock_of s w ''stone''"
proof -
  show me: "pv_wood p = stock_of s w ''wood'' \<and> pv_stone p = stock_of s w ''stone''" if "viewMe (boardOf r ps s) (Some w) = Some p" for p
    using viewMe_Some [OF that] by (auto simp: playerView_def)
  have nn: "0 \<le> stock_of s w res" for res by (rule stock_nonneg [OF frontier_okD(2) [OF assms]])
  show "myWood (boardOf r ps s) (Some w) \<le> stock_of s w ''wood''" "myStone (boardOf r ps s) (Some w) \<le> stock_of s w ''stone''"
    using me nn by (auto simp: myWood_def myStone_def split: option.split)
qed

section \<open>What the server answers\<close>

definition fverdict :: "fstate \<Rightarrow> string option \<Rightarrow> fcommand \<Rightarrow> exn + action_error option" where
  "fverdict s u cmd = validate_action frontier_vs s \<lparr>ac_type = fst cmd, ac_playerId = u, ac_payload = snd cmd, ac_clientSeq = None\<rparr>"

lemma fverdict_cases:
  "fverdict s u (''claim-tile'', pl) = claimTileValidator s \<lparr>ac_type = ''claim-tile'', ac_playerId = u, ac_payload = pl, ac_clientSeq = None\<rparr>"
  "fverdict s u (''trade'', pl) = tradeValidator s \<lparr>ac_type = ''trade'', ac_playerId = u, ac_payload = pl, ac_clientSeq = None\<rparr>"
  "fverdict s u (''fortify'', pl) = fortifyValidator s \<lparr>ac_type = ''fortify'', ac_playerId = u, ac_payload = pl, ac_clientSeq = None\<rparr>"
  "fverdict s u (''post-offer'', pl) = postOfferValidator s \<lparr>ac_type = ''post-offer'', ac_playerId = u, ac_payload = pl, ac_clientSeq = None\<rparr>"
  "fverdict s u (''accept-offer'', pl) = acceptOfferValidator s \<lparr>ac_type = ''accept-offer'', ac_playerId = u, ac_payload = pl, ac_clientSeq = None\<rparr>"
  "fverdict s u (''cancel-offer'', pl) = cancelOfferValidator s \<lparr>ac_type = ''cancel-offer'', ac_playerId = u, ac_payload = pl, ac_clientSeq = None\<rparr>"
  "fverdict s u (''end-turn'', pl) = frontierEndTurnValidator s \<lparr>ac_type = ''end-turn'', ac_playerId = u, ac_payload = pl, ac_clientSeq = None\<rparr>"
  by (simp_all add: fverdict_def validate_action_def getValidator_def frontier_vs_def frontierValidators_def)

definition frontierUnchecked :: "string \<Rightarrow> string list" where
  "frontierUnchecked ty =
     (if ty = ''claim-tile'' then [''already-claimed'']
      else if ty = ''trade'' then [''already-leaping'']
      else if ty = ''fortify'' then [''insufficient'']
      else if ty = ''post-offer'' then [''not-your-turn'', ''too-many-offers'']
      else [])"

text \<open>One command after the other.\<close>

lemma claim_verdict:
  assumes ok': "frontier_ok s" "wf_map (gs_map s)" and w: "w \<noteq> []" and ph: "currentPhaseId (currentTurn (gs_rounds s)) = ''turn''"
    and t: "t \<in> set (claimableIds (boardOf r ps s) (Some w) (frontierTurn (boardOf r ps s) (Some w)) fm)"
  shows "fverdict s (Some w) (''claim-tile'', noFields\<lparr>fp_tileId := t\<rparr>) \<in> {accept, reject ''already-claimed''}"
proof -
  let ?v = "boardOf r ps s"
  obtain mine n where m: "mine \<in> set (dv_tiles ?v)" "tv_claimedBy mine = Some w" "n \<in> set (dv_tiles ?v)" "tv_claimedBy n = None" "tv_id n = t"
    "(tv_q n - tv_q mine, tv_r n - tv_r mine) \<in> set BOARD_HEX_DIRS" "frontierTurn ?v (Some w)"
    using claimable_tile [OF t] by metis
  have g: "frontierGuard s (Some w) = None" using m(7) my_turn [OF w] by simp
  obtain hm where hm: "tileById (gs_map s) (tv_id mine) = Some hm" "ax_q (tile_coord hm) = tv_q mine" "ax_r (tile_coord hm) = tv_r mine"
    "tileOwner s (tv_id mine) = Some w" using board_tile [OF ok' m(1)] m(2) by metis
  obtain hn where hn: "tileById (gs_map s) t = Some hn" "ax_q (tile_coord hn) = tv_q n" "ax_r (tile_coord hn) = tv_r n" "\<not> isTileOccupied s t"
    using board_tile [OF ok' m(3)] m(4,5) by metis
  have own: "tile_coord hm \<in> set (ownedTileCoords s w)" by (rule owned_coords [OF ok'(1) hm(1,4)])
  have near: "list_ex (\<lambda>d. list_ex (\<lambda>c. ax_q c = ax_q (tile_coord hn) - ax_q d \<and> ax_r c = ax_r (tile_coord hn) - ax_r d) (ownedTileCoords s w)) HEX_DIRS"
  proof -
    have "axial (tv_q n - tv_q mine) (tv_r n - tv_r mine) \<in> set HEX_DIRS" using m(6) by (auto simp: BOARD_HEX_DIRS_def HEX_DIRS_def)
    with own hm hn show ?thesis unfolding list_ex_iff by (intro bexI [of _ "axial (tv_q n - tv_q mine) (tv_r n - tv_r mine)"] bexI [of _ "tile_coord hm"]) simp_all
  qed
  have "length (ownedTileCoords s w) \<noteq> 0" using own by (cases "ownedTileCoords s w") simp_all
  with near hn g ph show ?thesis
    by (simp add: fverdict_cases claimTileValidator_def noFields_def actor_def Let_def)
qed

lemma bag_of:
  assumes "frontier_ok s" "frontierGuard s (Some w) = None"
  obtains bag where "jget (gs_inventories s) w = Some bag" "\<And>res. inv_get bag res = stock_of s w res"
proof -
  have "has_inv w s" using frontierGuard_None(3) [OF assms(1), of "\<lparr>ac_type = [], ac_playerId = Some w, ac_payload = noFields, ac_clientSeq = None\<rparr>"] assms(2)
    by (simp add: actor_def)
  then show ?thesis using that by (auto simp: has_inv_def stock_of_Some)
qed

lemma trade_verdict:
  assumes ok': "frontier_ok s" and w: "w \<noteq> []"
    and t: "r = ''wood'' \<and> canTradeWood (boardOf k ps s) (Some w) \<or> r = ''stone'' \<and> canTradeStone (boardOf k ps s) (Some w)"
  shows "fverdict s (Some w) (''trade'', noFields\<lparr>fp_resource := r\<rparr>) \<in> {accept, reject ''already-leaping''}"
proof -
  have g: "frontierGuard s (Some w) = None" using t my_turn [OF w] by (auto simp: canTradeWood_def canTradeStone_def)
  obtain bag where b: "jget (gs_inventories s) w = Some bag" "\<And>res. inv_get bag res = stock_of s w res" by (rule bag_of [OF ok' g]) blast
  have "r \<in> {''wood'', ''stone''}" "2 \<le> stock_of s w r"
    using t my_stock(2,3) [OF ok', of k ps w] by (auto simp: canTradeWood_def canTradeStone_def)
  with b g show ?thesis by (auto simp: fverdict_cases tradeValidator_def noFields_def actor_def Let_def with_inv_def)
qed

lemma fortify_verdict:
  assumes ok': "frontier_ok s" "wf_map (gs_map s)" and w: "w \<noteq> []"
    and t: "t \<in> set (fortifiableIds (boardOf r ps s) (Some w) (frontierTurn (boardOf r ps s) (Some w)) fm)"
  shows "fverdict s (Some w) (''fortify'', noFields\<lparr>fp_tileId := t\<rparr>) \<in> {accept, reject ''insufficient''}"
proof -
  let ?v = "boardOf r ps s"
  have "frontierTurn ?v (Some w)" using t by (auto simp: fortifiableIds_def split: if_splits)
  then have g: "frontierGuard s (Some w) = None" using my_turn [OF w] by simp
  obtain x where x: "x \<in> set (myTiles ?v (Some w))" "tv_id x = t" "truthy (jget (dv_fortifications ?v) (tv_id x)) = None"
    using t by (auto simp: fortifiableIds_def split: if_splits)
  have xt: "x \<in> set (dv_tiles ?v)" "tv_claimedBy x = Some w" using x(1) by (auto simp: myTiles_def split: option.splits)
  obtain hx where hx: "tileById (gs_map s) t = Some hx" "tileOwner s t = Some w" using board_tile [OF ok' xt(1)] xt(2) x(2) by metis
  have nf: "\<not> (case jget (getForts s) t of Some z \<Rightarrow> z \<noteq> [] | None \<Rightarrow> False)"
    using x(2,3) by (auto simp: truthy_def split: option.splits if_splits)
  obtain bag where b: "jget (gs_inventories s) w = Some bag" by (rule bag_of [OF ok'(1) g])
  show ?thesis using b g hx nf by (simp add: fverdict_cases fortifyValidator_def noFields_def actor_def Let_def with_inv_def)
qed

lemma offer_found:
  assumes "frontier_ok s" "off \<in> set (getOffers s)"
  shows "findOffer s (to_id off) = Some off"
proof -
  have "inj_on to_id (set (getOffers s))" using frontier_okD(6) [OF assms(1)] by (simp add: offers_ok_def distinct_map)
  then show ?thesis unfolding findOffer_def using assms(2) by (intro find_unique) (auto dest: inj_onD)
qed

lemma accept_verdict:
  assumes ok': "frontier_ok s" and w: "w \<noteq> []" and off: "off \<in> set (getOffers s)"
    and c: "canAcceptOffer (boardOf r ps s) (Some w) off"
  shows "fverdict s (Some w) (''accept-offer'', noFields\<lparr>fp_offerId := to_id off\<rparr>) = accept"
proof -
  have g: "frontierGuard s (Some w) = None" using c my_turn [OF w] by (auto simp: canAcceptOffer_def split: if_splits)
  obtain bag where b: "jget (gs_inventories s) w = Some bag" "\<And>res. inv_get bag res = stock_of s w res" by (rule bag_of [OF ok' g]) blast
  have "to_fromPlayerId off \<noteq> w" "to_wantWood off \<le> stock_of s w ''wood''" "to_wantStone off \<le> stock_of s w ''stone''"
    using c my_stock(2,3) [OF ok', of r ps w] by (auto simp: canAcceptOffer_def split: if_splits)
  with b g offer_found [OF ok' off] show ?thesis
    by (simp add: fverdict_cases acceptOfferValidator_def noFields_def actor_def with_inv_def)
qed

lemma cancel_verdict:
  assumes ok': "frontier_ok s" and w: "w \<noteq> []" and off: "off \<in> set (getOffers s)" "to_fromPlayerId off = w"
    and turn: "frontierTurn (boardOf r ps s) (Some w)"
  shows "fverdict s (Some w) (''cancel-offer'', noFields\<lparr>fp_offerId := to_id off\<rparr>) = accept"
  using turn my_turn [OF w, of r ps s] offer_found [OF ok' off(1)] off(2)
  by (simp add: fverdict_cases cancelOfferValidator_def noFields_def actor_def)

lemma post_verdict:
  assumes ok': "frontier_ok s" and w: "w \<noteq> []" and me: "viewMe (boardOf r ps s) (Some w) = Some me"
    and f: "form_ok pg" "offerValid me pg" and cmd: "cmd \<in> set (snd (postOffer pg))"
  shows "fverdict s (Some w) cmd = accept \<or> (\<exists>r \<in> set (frontierUnchecked (fst cmd)). fverdict s (Some w) cmd = reject r)"
proof (cases "frontierGuard s (Some w)")
  case None
  obtain bag where b: "jget (gs_inventories s) w = Some bag" "\<And>res. inv_get bag res = stock_of s w res" by (rule bag_of [OF ok' None]) blast
  have "pv_wood me = stock_of s w ''wood''" "pv_stone me = stock_of s w ''stone''" using my_stock(1) [OF ok' me] by simp_all
  with None b f cmd show ?thesis
    by (auto simp: form_ok_iff offerValid_def postOffer_def fverdict_cases postOfferValidator_def noFields_def actor_def Let_def
        with_inv_def frontierUnchecked_def)
next
  case (Some e)
  then have "e = actionError ''not-your-turn''" using w by (simp add: frontierGuard_def split: if_splits)
  with Some cmd show ?thesis
    by (simp add: postOffer_def fverdict_cases postOfferValidator_def noFields_def frontierUnchecked_def)
qed

text \<open> C6: A click on a button of the page of a Frontier game whose view is up to date at the moment of the click, whatever
  the player clicked and whatever views arrived before, sends only commands that fit the game: passing, accepting and
  cancelling are accepted, and the other commands are rejected for no other reason than a second claim in a turn, a second
  leap, a fort that can no longer be paid, and an offer posted after the turn has passed or beyond the third. Nothing is
  claimed of a click on a view the game has moved on from: a second click on the button to pass, made before the page has
  heard of the first, is refused. \<close>
theorem frontier_commands_fit:
  assumes ok': "frontier_ok s" "wf_map (gs_map s)" and ph: "currentPhaseId (currentTurn (gs_rounds s)) = ''turn''"
    and w: "w \<noteq> []" and v: "v = boardOf r ps s" and reach: "fpage_reachable (Some w) v pg" and off: "fOffered v (Some w) pg c"
    and cmd: "cmd \<in> set (snd (fPerform v (Some w) c pg))"
  shows "fverdict s (Some w) cmd = accept \<or> (\<exists>r \<in> set (frontierUnchecked (fst cmd)). fverdict s (Some w) cmd = reject r)"
proof (cases c)
  case (BoardClick t)
  then consider
      "t \<in> set (claimableIds v (Some w) (frontierTurn v (Some w)) (gp_fortifyMode pg))" "cmd = (''claim-tile'', noFields\<lparr>fp_tileId := t\<rparr>)"
    | "t \<in> set (fortifiableIds v (Some w) (frontierTurn v (Some w)) (gp_fortifyMode pg))" "cmd = (''fortify'', noFields\<lparr>fp_tileId := t\<rparr>)"
    using cmd by (auto simp: fPerform_def boardClick_def Let_def fClaimTile_def fFortifyTile_def split: if_splits)
  then show ?thesis
  proof cases
    case 1
    from claim_verdict [OF ok' w ph 1(1) [unfolded v]] 1(2) show ?thesis by (auto simp: frontierUnchecked_def)
  next
    case 2
    from fortify_verdict [OF ok' w 2(1) [unfolded v]] 2(2) show ?thesis by (auto simp: frontierUnchecked_def)
  qed
next
  case PassClick
  then show ?thesis using off cmd my_turn [OF w, of r ps s]
    by (simp add: fOffered_def fPerform_def fEndTurn_def Let_def v fverdict_cases frontierEndTurnValidator_def)
next
  case (TradeClick res)
  then have "res = ''wood'' \<and> canTradeWood v (Some w) \<or> res = ''stone'' \<and> canTradeStone v (Some w)" "cmd = (''trade'', noFields\<lparr>fp_resource := res\<rparr>)"
    using off cmd by (auto simp: fOffered_def fPerform_def fTrade_def Let_def)
  with trade_verdict [OF ok'(1) w, of res r ps] v show ?thesis by (auto simp: frontierUnchecked_def)
next
  case PostClick
  then obtain me where "viewMe v (Some w) = Some me" "offerValid me pg" "cmd \<in> set (snd (postOffer pg))"
    using cmd by (auto simp: fPerform_def split: option.splits if_splits)
  with post_verdict [OF ok'(1) w] fpage_reachable_ok [OF reach] v show ?thesis by blast
next
  case (AcceptClick o')
  then have "o' \<in> set (getOffers s)" "canAcceptOffer v (Some w) o'" "cmd = (''accept-offer'', noFields\<lparr>fp_offerId := to_id o'\<rparr>)"
    using off cmd by (auto simp: fOffered_def fPerform_def Let_def v split: if_splits)
  with accept_verdict [OF ok'(1) w, of o' r ps] v show ?thesis by simp
next
  case (CancelOfferClick o')
  then have "o' \<in> set (getOffers s)" "to_fromPlayerId o' = w" "frontierTurn v (Some w)" "cmd = (''cancel-offer'', noFields\<lparr>fp_offerId := to_id o'\<rparr>)"
    using off cmd by (auto simp: fOffered_def fPerform_def Let_def v)
  with cancel_verdict [OF ok'(1) w, of o' r ps] v show ?thesis by simp
qed (use cmd in \<open>simp_all add: fPerform_def split: option.splits\<close>)

lemma fView:
  "dv_tiles (boardOf 1 fRoster fState) =
     [\<lparr>tv_id = tileId (axial 0 0), tv_q = 0, tv_r = 0, tv_terrain = ''grass'', tv_claimedBy = Some ''alice''\<rparr>,
      \<lparr>tv_id = tileId (axial 1 0), tv_q = 1, tv_r = 0, tv_terrain = ''forest'', tv_claimedBy = None\<rparr>]"
  "gs_status fState = Playing" "frontierTurn (boardOf 1 fRoster fState) (Some ''alice'')" "stocked (boardOf 1 fRoster fState)"
  "wf_map (gs_map fState)" "currentPhaseId (currentTurn (gs_rounds fState)) = ''turn''"
proof -
  have m: "gs_map fState = fMap" "claimMap fState = [(tileId (axial 0 0), ''alice'')]"
    by (simp_all add: fState_def claimMap_def piece_tile_def)
  have "jvals (gm_tiles fMap) = [build_tile [] \<lparr>td_coord = axial 0 0, td_terrain = ''grass'', td_numberToken = None\<rparr>,
      build_tile [] \<lparr>td_coord = axial 1 0, td_terrain = ''forest'', td_numberToken = None\<rparr>]"
    by (simp add: fMap_def mb_build_def mb_addTile_def newMapBuilder_def emptyMap_def gm_addTile_def build_tile_def)
  then show "dv_tiles (boardOf 1 fRoster fState) =
     [\<lparr>tv_id = tileId (axial 0 0), tv_q = 0, tv_r = 0, tv_terrain = ''grass'', tv_claimedBy = Some ''alice''\<rparr>,
      \<lparr>tv_id = tileId (axial 1 0), tv_q = 1, tv_r = 0, tv_terrain = ''forest'', tv_claimedBy = None\<rparr>]"
    by (simp add: m tileView_def build_tile_def)
  show "gs_status fState = Playing" "currentPhaseId (currentTurn (gs_rounds fState)) = ''turn''" by (simp_all add: fState_def)
  show "frontierTurn (boardOf 1 fRoster fState) (Some ''alice'')" using fGuard my_turn by simp
  show "stocked (boardOf 1 fRoster fState)"
    using stock_nonneg [OF frontier_okD(2) [OF fState_ok]] by (simp add: stocked_def playerView_def)
  show "wf_map (gs_map fState)" by (simp add: m fMap_def wf_map_build)
qed

lemma frontier_commands_fit_witness:
  "\<exists>cmd. cmd \<in> set (snd (fPerform (boardOf 1 fRoster fState) (Some ''alice'') (BoardClick (tileId (axial 1 0))) newFpage)) \<and>
     (fverdict fState (Some ''alice'') cmd = accept \<or> (\<exists>r \<in> set (frontierUnchecked (fst cmd)). fverdict fState (Some ''alice'') cmd = reject r))"
proof -
  let ?v = "boardOf 1 fRoster fState" and ?c = "BoardClick (tileId (axial 1 0))" and ?cmd = "(''claim-tile'', noFields\<lparr>fp_tileId := tileId (axial 1 0)\<rparr>)"
  have claim: "tileId (axial 1 0) \<in> set (claimableIds ?v (Some ''alice'') True False)"
    by (simp add: claimableIds_def myTiles_def BOARD_HEX_DIRS_def coordMap_def fView del: board_view(5))
  have r: "fpage_reachable (Some ''alice'') ?v newFpage" by (rule fpage_reachable.opened [OF fView(4)])
  have off: "fOffered ?v (Some ''alice'') newFpage ?c" by (simp add: fOffered_def fView del: board_view(5))
  have cmd: "?cmd \<in> set (snd (fPerform ?v (Some ''alice'') ?c newFpage))"
    using claim by (simp add: fPerform_def boardClick_def newFpage_def fClaimTile_def fView(3) Let_def)
  show ?thesis using frontier_commands_fit [OF fState_ok fView(5,6) _ refl r off cmd] cmd by blast
qed

section \<open>The leap\<close>

text \<open> C23: Two stones buy a leap, after which the server accepts a claim of any free tile; but the page never sends
  one: the board reacts only on tiles next to the player's territory, leap or not. \<close>
theorem leap_never_offered:
  assumes ok': "frontier_ok s" "wf_map (gs_map s)" and g: "frontierGuard s (Some w) = None"
    and ph: "currentPhaseId (currentTurn (gs_rounds s)) = ''turn''"
    and leap: "flagSet s ''stoneLeap''" "\<not> flagSet s ''claimedThisTurn''"
    and t: "tileById (gs_map s) t = Some hex" "\<not> isTileOccupied s t"
    and far: "\<forall>c \<in> set (ownedTileCoords s w). (ax_q (tile_coord hex) - ax_q c, ax_r (tile_coord hex) - ax_r c) \<notin> set BOARD_HEX_DIRS"
  shows "fverdict s (Some w) (''claim-tile'', noFields\<lparr>fp_tileId := t\<rparr>) = accept \<and>
    (\<forall>r ps pg c. (''claim-tile'', noFields\<lparr>fp_tileId := t\<rparr>) \<notin> set (snd (fPerform (boardOf r ps s) (Some w) c pg)))"
proof (intro conjI allI notI)
  show "fverdict s (Some w) (''claim-tile'', noFields\<lparr>fp_tileId := t\<rparr>) = accept"
    using g ph leap t by (simp add: fverdict_cases claimTileValidator_def noFields_def)
  fix r ps pg c assume cmd: "(''claim-tile'', noFields\<lparr>fp_tileId := t\<rparr>) \<in> set (snd (fPerform (boardOf r ps s) (Some w) c pg))"
  let ?v = "boardOf r ps s"
  have "noFields\<lparr>fp_tileId := t\<rparr> = noFields\<lparr>fp_tileId := u\<rparr> \<Longrightarrow> t = u" for u
    by (metis fpayload.ext_inject fpayload.surjective fpayload.update_convs(1))
  then have "t \<in> set (claimableIds ?v (Some w) (frontierTurn ?v (Some w)) (gp_fortifyMode pg))"
    using cmd by (auto simp: fPerform_def boardClick_def fClaimTile_def fFortifyTile_def fEndTurn_def fTrade_def postOffer_def Let_def
        split: fclick.splits option.splits if_splits)
  then obtain mine n where m: "mine \<in> set (dv_tiles ?v)" "tv_claimedBy mine = Some w" "n \<in> set (dv_tiles ?v)" "tv_id n = t"
    "(tv_q n - tv_q mine, tv_r n - tv_r mine) \<in> set BOARD_HEX_DIRS" using claimable_tile by metis
  obtain hm where hm: "tileById (gs_map s) (tv_id mine) = Some hm" "ax_q (tile_coord hm) = tv_q mine" "ax_r (tile_coord hm) = tv_r mine"
    "tileOwner s (tv_id mine) = Some w" using board_tile [OF ok' m(1)] m(2) by metis
  have "ax_q (tile_coord hex) = tv_q n" "ax_r (tile_coord hex) = tv_r n" using board_tile [OF ok' m(3)] m(4) t(1) by (metis option.inject)+
  with far owned_coords [OF ok'(1) hm(1,4)] hm(2,3) m(5) show False by force
qed

text \<open>A board with a third tile, away from the first two, in the turn of a leap.\<close>

definition fLeap :: fstate where
  "fLeap = fState\<lparr>gs_map := mb_build (mb_addTile (axial 3 0) ''mountain'' None (mb_addTile (axial 1 0) ''forest'' None (mb_addTile (axial 0 0) ''grass'' None newMapBuilder))),
     gs_rounds := setFlag ''stoneLeap'' True (gs_rounds fState)\<rparr>"

lemma fLeap_tiles:
  "tileById (gs_map fLeap) (tileId (axial 3 0)) = Some (build_tile [] \<lparr>td_coord = axial 3 0, td_terrain = ''mountain'', td_numberToken = None\<rparr>)"
  "tileById (gs_map fLeap) (tileId (axial 0 0)) = Some (build_tile [] \<lparr>td_coord = axial 0 0, td_terrain = ''grass'', td_numberToken = None\<rparr>)"
  by (simp_all add: fLeap_def mb_build_def mb_addTile_def newMapBuilder_def emptyMap_def gm_addTile_def tileById_def)

lemma fLeap_sel:
  "gs_pieces fLeap = [(''f'', makeUnit ''f'' ''flag'' ''alice'' (tileId (axial 0 0)) None None)]" "wf_map (gs_map fLeap)"
  "frontierGuard fLeap (Some ''alice'') = None" "currentPhaseId (currentTurn (gs_rounds fLeap)) = ''turn''"
  "flagSet fLeap ''stoneLeap''" "\<not> flagSet fLeap ''claimedThisTurn''"
  by (simp_all add: fLeap_def fState_def wf_map_build frontierGuard_def setFlag_def flagSet_def)

lemma fLeap_ok: "frontier_ok fLeap"
proof -
  have "flags_ok (gs_map fLeap) (gs_pieces fLeap)" unfolding fLeap_sel using fLeap_tiles(2) by (auto simp: flags_ok_def piece_tile_def split: if_splits)
  with fState_ok show ?thesis
    by (simp add: frontier_ok_def fLeap_def invs_ok_def getOffers_def nextOffer_def setFlag_def)
qed

lemma leap_never_offered_witness:
  "fverdict fLeap (Some ''alice'') (''claim-tile'', noFields\<lparr>fp_tileId := tileId (axial 3 0)\<rparr>) = accept \<and>
   (''claim-tile'', noFields\<lparr>fp_tileId := tileId (axial 3 0)\<rparr>) \<notin>
     set (snd (fPerform (boardOf 1 fRoster fLeap) (Some ''alice'') (BoardClick (tileId (axial 3 0))) newFpage))"
proof -
  have free: "\<not> isTileOccupied fLeap (tileId (axial 3 0))"
    by (simp add: isTileOccupied_def fLeap_sel piece_tile_def)
  have "ownedTileCoords fLeap ''alice'' = [axial 0 0]"
    by (simp add: ownedTileCoords_def fLeap_sel piece_tile_def fLeap_tiles build_tile_def)
  then have far: "\<forall>c \<in> set (ownedTileCoords fLeap ''alice''). (3 - ax_q c, 0 - ax_r c) \<notin> set BOARD_HEX_DIRS"
    by (simp add: BOARD_HEX_DIRS_def)
  show ?thesis
    using leap_never_offered [OF fLeap_ok fLeap_sel(2-6) fLeap_tiles(1) free] far by (simp add: build_tile_def)
qed

end
