(* ===== verification/Spec2Isabelle.thy ===== *)
theory Spec2Isabelle
  imports KingdomsProperties Hosting Accounts LobbyClient KingdomsBoard KingdomsCatchUp FrontierPage
begin

text \<open>
  A verification library for the board-game framework: the engine core
  \<open>packages/game-core\<close> with its two scenarios, "Kingdoms of Dominion"
  (\<open>scenarios/kingdoms\<close>) and the demo "Frontier" (\<open>scenarios/demo\<close>), and the services around it:
  the auth service, the lobby, the engine service, the message bus, the gateway of the sockets, and of the web
  client the stores and pages of the lobby and of the two games.

  \<^bold>\<open>How the program works.\<close> A host calls \<open>createGameState\<close> with a scenario, a roster and a seed,
  wraps the result in a \<open>Game\<close>, starts it and submits actions. \<open>Game.submit\<close> looks up the validator
  of the action's type, then its executor, stamps and emits the events the executor returns, runs
  the rule engine on them, appends the action to the journal and evaluates the victory conditions.
  A scenario is data for this engine: a map factory, registries, validators, executors, rules,
  victory conditions and a setup hook. The state is one mutable object; here it is the record
  \<open>game_state\<close>, threaded through every handler (type \<open>effect\<close> of Prelude: a state to a result or
  an exception, together with the state reached).

  \<^bold>\<open>Theories and the code they model\<close> (paths under \<open>packages/game-core/src\<close>):
  \<^item> Prelude: the exceptions, one constructor for each \<open>throw\<close>; JavaScript's insertion-ordered
    \<open>Map\<close> and \<open>Set\<close> as association lists and distinct lists; decimal rendering of numbers.
  \<^item> Hexmap, GameMap: \<open>map/\<close>, coordinates, identifiers of tiles, edges and vertices, the map
    container and its builder.
  \<^item> Registries: terrains, resources, piece kinds and card effects, each an interpretation of the
    locale \<open>registry\<close>; Game interprets it again for validators and executors.
  \<^item> SeededRng: \<open>dice/\<close> and \<open>cards/\<close>, the FNV-1a seed and xorshift32 on 32-bit words, dice, decks
    and hands; the locale \<open>random_source\<close> is the interface the dice and the battles rely on.
  \<^item> Inventory, Players, Rounds, Pieces: \<open>resources/\<close>, \<open>players/\<close>, \<open>rounds/\<close>, \<open>pieces/\<close>; the
    locale \<open>turn_order\<close> is what the round manager asks of an order of play.
  \<^item> Combat: \<open>rules/combat.ts\<close>. Connectivity: \<open>utils/connectivity.ts\<close>.
  \<^item> Events, Game: \<open>actions/\<close>, \<open>events/\<close>, \<open>rules/\<close>, \<open>state/\<close>, \<open>setup/\<close> and \<open>game.ts\<close>; the locale
    \<open>action_system\<close> states what handlers owe the engine (a validator that accepts never lets the
    executor throw, and the invariant is kept) and derives what the engine then guarantees.
  \<^item> KingdomsData, KingdomsMap, KingdomsState, KingdomsEconomy, KingdomsActions, KingdomsScenario:
    the scenario's tables, map generator, queries, round-end batch, the seven actions, and
    setup. KingdomsInvariant and KingdomsContract hold its invariant and one preservation lemma for
    each action; KingdomsExample is a small position the witnesses evaluate; KingdomsProperties
    holds the properties.
  \<^item> FrontierActions, FrontierScenario, FrontierContract, FrontierProperties: the same for the demo.
  \<^item> Bus: \<open>packages/event-bus\<close> and the messages of \<open>packages/shared-types\<close>. EngineService:
    \<open>apps/game-engine\<close>, which hosts the games, answers commands and writes views to Redis and
    events to the bus; both are a trace of outputs here.
  \<^item> Lobby: \<open>apps/lobby-service\<close>, rooms, their requests and the events it publishes.
  \<^item> Gateway: \<open>apps/realtime-gateway\<close>, sockets, subscriptions and the relay of events; the
    verification of a token and the rooms of Socket.io are parameters with the documented laws.
  \<^item> Auth: \<open>apps/auth-service\<close>, accounts, logins and tokens; \<open>auth_env\<close> holds the third-party functions and the
    settings, \<open>auth_trace\<close> the requests that interleave at the \<open>await\<close> of bcrypt. Accounts: the runs of the auth
    service and the gateway side by side (\<open>platform_trace\<close>); sockets may present any token, forged ones included.
  \<^item> LobbyClient: the guard and routes of \<open>lobby.controller.ts\<close> and, of \<open>apps/web/src\<close>, \<open>store/auth.ts\<close>,
    \<open>store/lobby.ts\<close> and \<open>pages/LobbyPage.tsx\<close>; the record \<open>lobby_page\<close> is the state of store and components,
    \<open>lobbyNetStep\<close> one step of browser, service or another user.
  \<^item> KingdomsView: \<open>scenarios/kingdoms/view-builder.ts\<close>. Hosting: the way from a started room to a
    running game of either scenario.
  \<^item> FrontierView, FrontierClient, FrontierHosted: the view of the demo on the server, the reducer of
    \<open>apps/web/src/store/game.ts\<close>, and the simulation between them over the bus.
  \<^item> KingdomsPanel: the preview of attacks and the costs in \<open>apps/web/src/games/kingdoms/MilitaryPanel.tsx\<close>
    and \<open>ActionPanel.tsx\<close>. KingdomsPage: the interaction of \<open>pages/KingdomsPage.tsx\<close>; the record \<open>kpage\<close>
    is its state, \<open>offered\<close> says which buttons the panel shows enabled, \<open>perform\<close> runs the handler of a
    click. KingdomsStore: \<open>games/kingdoms/store/kingdoms-game.ts\<close> and what the engine puts out for its game.
    KingdomsWatch: the store in its world; the record \<open>kworld\<close> holds the engine service, the outputs it has still to make,
    the bus, the gateway, the socket with its messages both ways and the requests of the view, and \<open>watching\<close> has one rule
    for each step of one of them, each an operation of the models above. KingdomsCatchUp: what these runs come to.
  \<^item> KingdomsBoard: \<open>games/kingdoms/KingdomsBoard.tsx\<close>; \<open>board_state\<close> is the view box with the drag and the pinch under way,
    \<open>boardStep\<close> an event of mouse, wheel, touch or keyboard, \<open>boardRun\<close> the events together with the page they click on.
  \<^item> EventLog: \<open>games/kingdoms/EventLog.tsx\<close>, the fold of the events a page has collected into the lines of its
    log; \<open>newLines\<close> states what an action adds to it.
  \<^item> FrontierPage: \<open>apps/web/src/pages/GamePage.tsx\<close> with \<open>components/Board.tsx\<close> and
    \<open>components/TradePanel.tsx\<close>, the record \<open>fpage\<close> and its clicks (\<open>fOffered\<close>, \<open>fPerform\<close>).

  \<^bold>\<open>What the lemmas show.\<close> Each component has its functional behaviour on every branch (draws in
  range, shuffles that permute, costs paid exactly when affordable, rotation of turns, the outcome
  and the casualty bounds of a battle, the breadth-first search against reachability, the rule
  engine against the closure of an event). Each scenario has an invariant over the whole state that
  its setup establishes and its executors preserve, and through \<open>action_system\<close> a theorem that no
  sequence of submissions throws; on top of it stand the end of a game, conservation of resources
  in trade, and the conquest of territory. Of the services: a command is answered with exactly one
  batch of messages; a client that folds the events it may see agrees with the snapshot of the
  server; the events of the lobby determine its rooms; the gateway sends an event to exactly the
  sockets that may see it; accounts stay unique, a login needs the password, and a command on the bus leads
  back to a token the gateway verified, and to a password when the auth service issued the token (with the fallback secret
  of the source anybody can sign one). Of the client: the buttons of the lobby fit the service, and a reload or an overtaken poll shows
  a member the wrong room; the preview of an attack is the battle the server resolves; the
  buttons offered on either page send only commands the server accepts, up to a list of checks they leave
  out; the board dims what a click would give up and passes on the
  clicks that end no drag; the event log
  books every event under the round it belongs to, unless the client joined late; the store
  of Kingdoms comes to rest on the current view of the engine if four promises are kept: requests of the view are served between two
  commands (\<open>Whole\<close>), answered in order (\<open>InOrder\<close>), served only once the socket is in the game (\<open>Joined\<close>) and never
  fail (\<open>Reliable\<close>); the code keeps none of them, and without any one the store can come to rest on an old view.

  \<^bold>\<open>Bounds, fuel and idealisations.\<close> The rule engine processes fewer than 1000 events or reports
  the limit, as the code does; the fuel of its model is that limit. The breadth-first search is
  total by a measure on the unvisited tiles and the queue. Coordinates, quantities, round and
  sequence numbers are unbounded integers (the code's stay far below \<open>2 ^ 53\<close>); the generators are
  32-bit words with their wrap-around; the doubles of combat, economy and
  view box are real numbers (a view box that is \<open>NaN\<close> is \<open>None\<close>); strings
  hold one character for each code unit below 256, and the em dash of one message is written in
  UTF-8. The clock \<open>Date.now\<close> is a parameter.

  \<^bold>\<open>Not modelled.\<close> The rendering of the React pages and components, with their sounds, timers, banners
  and tutorial (the toasts of KingdomsPage are shortened to fixed texts, and its view does not change between
  two clicks), bcrypt, jsonwebtoken and passport (parameters), the connections to RabbitMQ, Redis and the database,
  \<open>pieces/piece-behavior.ts\<close> and \<open>resources/trade.ts\<close> (declarations nothing uses), the stubs
  \<open>matchmaking.service.ts\<close> and \<open>snapshot.service.ts\<close>, re-exporting index files, build
  configuration and tests. In the engine and the lobby an \<open>await\<close> is taken to run to completion: the messages
  of a game are handled one after the other (the consumer of the bus sets no limit, so in the code two commands may overlap);
  \<open>watching\<close> only splits the outputs of a command, which the code awaits one by one. The bus loses nothing. The
  auth service and the lobby page are split at theirs.
\<close>

end
